(* ===== verification/Prelude.thy ===== *)
theory Prelude
  imports Complex_Main "HOL-Library.Sublist"
begin

text \<open>
  What every component shares: Go strings as byte strings (a HOL \<open>string\<close> is a list of
  8-bit characters, which is what a Go string is), the functions of package \<open>strings\<close>,
  \<open>strconv\<close> and \<open>net/http\<close> the sources use on them, the two ways a Go function ends
  (it returns or it panics), and the generic lemmas about lists the component proofs use.

  \<open>trim_space\<close> treats every white-space code point of Unicode in its UTF-8 encoding, as
  \<open>strings.TrimSpace\<close> does. \<open>to_lower\<close>, \<open>to_upper\<close> and \<open>equal_fold\<close> map the ASCII
  letters; bytes above 0x7F stay as they are, so on text with non-ASCII letters they are the
  ASCII part of Go's mapping only.
\<close>

named_theorems text_simps "equations of the string functions"

section \<open>How a call ends\<close>

datatype 'a outcome = Return 'a | Panic string

section \<open>Trimming\<close>

definition space_encodings :: "string list" where
  "space_encodings =
    [[CHR 0x20], [CHR 0x09], [CHR 0x0A], [CHR 0x0B], [CHR 0x0C], [CHR 0x0D],
     [CHR 0xC2, CHR 0x85], [CHR 0xC2, CHR 0xA0],
     [CHR 0xE1, CHR 0x9A, CHR 0x80],
     [CHR 0xE2, CHR 0x80, CHR 0x80], [CHR 0xE2, CHR 0x80, CHR 0x81],
     [CHR 0xE2, CHR 0x80, CHR 0x82], [CHR 0xE2, CHR 0x80, CHR 0x83],
     [CHR 0xE2, CHR 0x80, CHR 0x84], [CHR 0xE2, CHR 0x80, CHR 0x85],
     [CHR 0xE2, CHR 0x80, CHR 0x86], [CHR 0xE2, CHR 0x80, CHR 0x87],
     [CHR 0xE2, CHR 0x80, CHR 0x88], [CHR 0xE2, CHR 0x80, CHR 0x89],
     [CHR 0xE2, CHR 0x80, CHR 0x8A], [CHR 0xE2, CHR 0x80, CHR 0xA8],
     [CHR 0xE2, CHR 0x80, CHR 0xA9], [CHR 0xE2, CHR 0x80, CHR 0xAF],
     [CHR 0xE2, CHR 0x81, CHR 0x9F], [CHR 0xE3, CHR 0x80, CHR 0x80]]"

text \<open>Drop leading members of \<open>es\<close> as long as one of them is a prefix.\<close>

function strip :: "'a list list \<Rightarrow> 'a list \<Rightarrow> 'a list" where
  "strip es s = (case find (\<lambda>e. e \<noteq> [] \<and> prefix e s) es of
     None \<Rightarrow> s
   | Some e \<Rightarrow> strip es (drop (length e) s))"
  by pat_completeness auto
termination
proof (relation "measure (\<lambda>(es, s). length s)", simp)
  fix es :: "'a list list" and s e
  assume "find (\<lambda>e. e \<noteq> [] \<and> prefix e s) es = Some e"
  then have "e \<noteq> []" and "prefix e s" by (auto simp: find_Some_iff)
  then show "((es, drop (length e) s), es, s) \<in> measure (\<lambda>(es, s). length s)"
    by (auto simp: prefix_def)
qed

declare strip.simps [simp del]

definition trim_left :: "string \<Rightarrow> string" where
  "trim_left s = strip space_encodings s"

definition trim_right :: "string \<Rightarrow> string" where
  "trim_right s = rev (strip (map rev space_encodings) (rev s))"

definition trim_space :: "string \<Rightarrow> string" where
  "trim_space s = trim_right (trim_left s)"

text \<open>\<open>strings.Trim(s, cutset)\<close> for a cutset of single bytes.\<close>

definition trim_chars :: "char list \<Rightarrow> string \<Rightarrow> string" where
  "trim_chars cs s = rev (dropWhile (\<lambda>c. c \<in> set cs) (rev (dropWhile (\<lambda>c. c \<in> set cs) s)))"

section \<open>Prefixes, suffixes, searching\<close>

definition has_prefix :: "string \<Rightarrow> string \<Rightarrow> bool" where
  "has_prefix s p \<longleftrightarrow> take (length p) s = p"

definition has_suffix :: "string \<Rightarrow> string \<Rightarrow> bool" where
  "has_suffix s p \<longleftrightarrow> length p \<le> length s \<and> drop (length s - length p) s = p"

definition trim_suffix :: "string \<Rightarrow> string \<Rightarrow> string" where
  "trim_suffix s p = (if has_suffix s p then take (length s - length p) s else s)"

definition contains_any :: "string \<Rightarrow> char list \<Rightarrow> bool" where
  "contains_any s cs \<longleftrightarrow> (\<exists>c \<in> set s. c \<in> set cs)"

text \<open>\<open>strings.IndexByte\<close>, with \<open>None\<close> for -1.\<close>

fun index_byte :: "string \<Rightarrow> char \<Rightarrow> nat option" where
  "index_byte [] c = None"
| "index_byte (x # xs) c = (if x = c then Some 0 else map_option Suc (index_byte xs c))"

text \<open>\<open>strings.Cut(s, sep)\<close> for a one-byte separator: before, after, found.\<close>

definition cut :: "string \<Rightarrow> char \<Rightarrow> string \<times> string \<times> bool" where
  "cut s c = (case index_byte s c of
     None \<Rightarrow> (s, [], False)
   | Some i \<Rightarrow> (take i s, drop (Suc i) s, True))"

fun split_byte :: "char \<Rightarrow> string \<Rightarrow> string list" where
  "split_byte c [] = [[]]"
| "split_byte c (x # xs) =
     (if x = c then [] # split_byte c xs
      else (case split_byte c xs of [] \<Rightarrow> [[x]] | y # ys \<Rightarrow> (x # y) # ys))"

fun join_with :: "string \<Rightarrow> string list \<Rightarrow> string" where
  "join_with sep [] = []"
| "join_with sep [x] = x"
| "join_with sep (x # y # ys) = x @ sep @ join_with sep (y # ys)"

section \<open>Letter case\<close>

definition lower_char :: "char \<Rightarrow> char" where
  "lower_char c = (let n = (of_char c :: nat) in if 65 \<le> n \<and> n \<le> 90 then char_of (n + 32) else c)"

definition upper_char :: "char \<Rightarrow> char" where
  "upper_char c = (let n = (of_char c :: nat) in if 97 \<le> n \<and> n \<le> 122 then char_of (n - 32) else c)"

definition to_lower :: "string \<Rightarrow> string" where
  "to_lower s = map lower_char s"

definition to_upper :: "string \<Rightarrow> string" where
  "to_upper s = map upper_char s"

definition equal_fold :: "string \<Rightarrow> string \<Rightarrow> bool" where
  "equal_fold s t \<longleftrightarrow> to_lower s = to_lower t"

definition is_digit :: "char \<Rightarrow> bool" where
  "is_digit c \<longleftrightarrow> 48 \<le> (of_char c :: nat) \<and> (of_char c :: nat) \<le> 57"

definition is_letter :: "char \<Rightarrow> bool" where
  "is_letter c \<longleftrightarrow>
     (97 \<le> (of_char c :: nat) \<and> (of_char c :: nat) \<le> 122) \<or>
     (65 \<le> (of_char c :: nat) \<and> (of_char c :: nat) \<le> 90)"

text \<open>A byte of an HTTP token (RFC 7230).\<close>

definition is_token_byte :: "char \<Rightarrow> bool" where
  "is_token_byte c \<longleftrightarrow> is_letter c \<or> is_digit c \<or> c \<in> set ''!#$%&*+-.^_`|~'' \<or> c = CHR 0x27"

section \<open>Decimal notation\<close>

definition digit_char :: "nat \<Rightarrow> char" where
  "digit_char d = char_of (48 + d)"

fun show_nat :: "nat \<Rightarrow> string" where
  "show_nat n = (if n < 10 then [digit_char n] else show_nat (n div 10) @ [digit_char (n mod 10)])"

declare show_nat.simps [simp del]

definition show_int :: "int \<Rightarrow> string" where
  "show_int i = (if i < 0 then CHR ''-'' # show_nat (nat (- i)) else show_nat (nat i))"

text \<open>The unsigned decimal reader of \<open>strconv.ParseUint(s, 10, 64)\<close> before its range check.\<close>

fun read_digits :: "nat \<Rightarrow> string \<Rightarrow> nat option" where
  "read_digits acc [] = Some acc"
| "read_digits acc (c # cs) =
     (if is_digit c then read_digits (acc * 10 + ((of_char c :: nat) - 48)) cs else None)"

definition read_nat :: "string \<Rightarrow> nat option" where
  "read_nat s = (if s = [] then None else read_digits 0 s)"

section \<open>Header maps\<close>

text \<open>
  \<open>http.Header\<close>: values under a canonical key. \<open>canonical_key\<close> is
  \<open>http.CanonicalHeaderKey\<close>: a key with a byte that is not a token byte stays as it is,
  any other gets an upper-case letter at its start and after each hyphen.
\<close>

type_synonym header = "string \<Rightarrow> string list"

fun canonical_from :: "bool \<Rightarrow> string \<Rightarrow> string" where
  "canonical_from up [] = []"
| "canonical_from up (c # cs) =
     (if up then upper_char c else lower_char c) # canonical_from (c = CHR ''-'') cs"

definition canonical_key :: "string \<Rightarrow> string" where
  "canonical_key s = (if (\<forall>c \<in> set s. is_token_byte c) then canonical_from True s else s)"

definition header_get :: "header \<Rightarrow> string \<Rightarrow> string" where
  "header_get h k = (case h (canonical_key k) of [] \<Rightarrow> [] | v # _ \<Rightarrow> v)"

definition header_values :: "header \<Rightarrow> string \<Rightarrow> string list" where
  "header_values h k = h (canonical_key k)"

definition header_set :: "string \<Rightarrow> string \<Rightarrow> header \<Rightarrow> header" where
  "header_set k v h = h(canonical_key k := [v])"

definition header_add :: "string \<Rightarrow> string \<Rightarrow> header \<Rightarrow> header" where
  "header_add k v h = h(canonical_key k := h (canonical_key k) @ [v])"

definition header_del :: "string \<Rightarrow> header \<Rightarrow> header" where
  "header_del k h = h(canonical_key k := [])"

definition empty_header :: header where
  "empty_header = (\<lambda>_. [])"


section \<open>Association lists as Go maps\<close>

text \<open>
  A Go map whose entries a loop visits is a list of entries with distinct keys, in the order the
  loop happens to visit them; \<open>map_of\<close> is the lookup.
\<close>

definition alist_upd :: "'k \<Rightarrow> ('v \<Rightarrow> 'v) \<Rightarrow> ('k \<times> 'v) list \<Rightarrow> ('k \<times> 'v) list" where
  "alist_upd k f xs = map (\<lambda>(k', v). (k', if k' = k then f v else v)) xs"

definition alist_del :: "'k \<Rightarrow> ('k \<times> 'v) list \<Rightarrow> ('k \<times> 'v) list" where
  "alist_del k xs = filter (\<lambda>(k', v). k' \<noteq> k) xs"

definition alist_put :: "'k \<Rightarrow> 'v \<Rightarrow> ('k \<times> 'v) list \<Rightarrow> ('k \<times> 'v) list" where
  "alist_put k v xs = (k, v) # alist_del k xs"

definition alist_map :: "('v \<Rightarrow> 'v) \<Rightarrow> ('k \<times> 'v) list \<Rightarrow> ('k \<times> 'v) list" where
  "alist_map f xs = map (\<lambda>(k, v). (k, f v)) xs"

definition count_val :: "('v \<Rightarrow> bool) \<Rightarrow> ('k \<times> 'v) list \<Rightarrow> nat" where
  "count_val P xs = length (filter (\<lambda>(k, v). P v) xs)"

definition keys :: "('k \<times> 'v) list \<Rightarrow> 'k list" where
  "keys xs = map fst xs"

section \<open>Lemmas\<close>

lemma strip_step:
  assumes "e \<in> set es" "e \<noteq> []" "prefix e s"
  shows "\<exists>e'. e' \<in> set es \<and> e' \<noteq> [] \<and> prefix e' s \<and> strip es s = strip es (drop (length e') s)"
proof (cases "find (\<lambda>e. e \<noteq> [] \<and> prefix e s) es")
  case None
  with assms show ?thesis by (auto simp: find_None_iff)
next
  case (Some e')
  then have "e' \<in> set es \<and> e' \<noteq> [] \<and> prefix e' s" by (auto simp: find_Some_iff)
  with Some show ?thesis by (subst strip.simps) auto
qed

lemma strip_id: "\<forall>e \<in> set es. e = [] \<or> \<not> prefix e s \<Longrightarrow> strip es s = s"
  by (subst strip.simps) (auto simp: find_None_iff split: option.splits dest!: find_Some_iff [THEN iffD1])

lemma strip_done: "e \<in> set es \<Longrightarrow> e \<noteq> [] \<Longrightarrow> \<not> prefix e (strip es s)"
proof (induction es s rule: strip.induct)
  case (1 es s)
  show ?case
  proof (cases "find (\<lambda>e. e \<noteq> [] \<and> prefix e s) es")
    case None
    then have "strip es s = s" by (subst strip.simps) simp
    with None "1.prems" show ?thesis by (auto simp: find_None_iff)
  next
    case (Some e')
    with "1.IH" [OF Some] "1.prems" show ?thesis by (subst strip.simps) simp
  qed
qed

lemma strip_suffix: "suffix (strip es s) s"
proof (induction es s rule: strip.induct)
  case (1 es s)
  show ?case
  proof (cases "find (\<lambda>e. e \<noteq> [] \<and> prefix e s) es")
    case None
    then show ?thesis by (subst strip.simps) simp
  next
    case (Some e')
    then have "strip es s = strip es (drop (length e') s)" by (subst strip.simps) simp
    moreover have "suffix (drop (length e') s) s" by (simp add: suffix_drop)
    ultimately show ?thesis using "1.IH" [OF Some] by (metis suffix_order.trans)
  qed
qed

lemma strip_strip [simp]: "strip es (strip es s) = strip es s"
  by (rule strip_id) (use strip_done in blast)

lemma trim_right_prefix: "prefix (trim_right s) s"
proof -
  have "suffix (strip (map rev space_encodings) (rev s)) (rev s)" by (rule strip_suffix)
  then show ?thesis by (simp add: trim_right_def suffix_to_prefix)
qed

lemma trim_right_idem [simp]: "trim_right (trim_right s) = trim_right s"
  by (simp add: trim_right_def)

lemma trim_left_trim_space [simp]: "trim_left (trim_space s) = trim_space s"
  unfolding trim_space_def trim_left_def
proof (rule strip_id, intro ballI)
  fix e assume e: "e \<in> set space_encodings"
  show "e = [] \<or> \<not> prefix e (trim_right (strip space_encodings s))"
    using strip_done [OF e, of s] trim_right_prefix prefix_order.trans by blast
qed

text \<open>Trimming twice is trimming once.\<close>

lemma trim_space_idem [simp]: "trim_space (trim_space s) = trim_space s"
  by (simp add: trim_space_def [of "trim_space s"]) (simp add: trim_space_def)

lemma trim_space_Nil [simp]: "trim_space [] = []"
  by (simp add: trim_space_def trim_left_def trim_right_def strip_id)

lemma length_trim_space: "length (trim_space s) \<le> length s"
proof -
  have "length (trim_space s) \<le> length (trim_left s)"
    unfolding trim_space_def by (rule prefix_length_le) (rule trim_right_prefix)
  also have "\<dots> \<le> length s"
    unfolding trim_left_def by (rule suffix_length_le) (rule strip_suffix)
  finally show ?thesis .
qed

lemma set_trim_space: "set (trim_space s) \<subseteq> set s"
proof -
  have "set (trim_space s) \<subseteq> set (trim_left s)"
    unfolding trim_space_def by (rule set_mono_prefix) (rule trim_right_prefix)
  also have "\<dots> \<subseteq> set s"
    unfolding trim_left_def by (rule set_mono_suffix) (rule strip_suffix)
  finally show ?thesis .
qed

lemma split_byte_not_Nil [simp]: "split_byte c s \<noteq> []"
  by (induction s) (auto split: list.splits)

lemma split_byte_absent: "c \<notin> set s \<Longrightarrow> split_byte c s = [s]"
  by (induction s) auto

lemma split_byte_clean: "x \<in> set (split_byte c s) \<Longrightarrow> c \<notin> set x"
  by (induction s arbitrary: x) (auto split: list.splits if_splits)

lemma join_with_Cons: "ys \<noteq> [] \<Longrightarrow> join_with sep (x # ys) = x @ sep @ join_with sep ys"
  by (cases ys) auto

text \<open>Splitting at a byte and joining with it are inverse to each other.\<close>

lemma join_split [simp]: "join_with [c] (split_byte c s) = s"
proof (induction s)
  case Nil
  then show ?case by simp
next
  case (Cons a s)
  obtain y ys where y: "split_byte c s = y # ys" by (cases "split_byte c s") auto
  with Cons show ?case by (cases ys) (auto simp: join_with_Cons)
qed

lemma split_byte_join: "split_byte c (s @ c # t) = split_byte c s @ split_byte c t"
proof (induction s)
  case (Cons x s)
  obtain y ys where "split_byte c s = y # ys" by (cases "split_byte c s") auto
  with Cons show ?case by simp
qed simp

lemma split_byte_append:
  "c \<notin> set x \<Longrightarrow> split_byte c (x @ c # s) = x # split_byte c s"
  by (induction x) auto

lemma split_join:
  "xs \<noteq> [] \<Longrightarrow> \<forall>x \<in> set xs. c \<notin> set x \<Longrightarrow> split_byte c (join_with [c] xs) = xs"
proof (induction xs)
  case Nil
  then show ?case by simp
next
  case (Cons x xs)
  then show ?case by (cases xs) (auto simp: split_byte_absent split_byte_append)
qed

lemma index_byte_None [simp]: "index_byte s c = None \<longleftrightarrow> c \<notin> set s"
  by (induction s) auto

lemma index_byte_Some:
  "index_byte s c = Some i \<Longrightarrow> i < length s \<and> s ! i = c \<and> c \<notin> set (take i s)"
proof (induction s arbitrary: i)
  case Nil
  then show ?case by simp
next
  case (Cons x s)
  then show ?case by (cases i) (auto split: if_splits)
qed

lemma cut_absent [simp]: "c \<notin> set s \<Longrightarrow> cut s c = (s, [], False)"
  by (simp add: cut_def index_byte_None [THEN iffD2])

lemma cut_append [simp]: "c \<notin> set s \<Longrightarrow> cut (s @ c # t) c = (s, t, True)"
proof -
  assume "c \<notin> set s"
  then have "index_byte (s @ c # t) c = Some (length s)" by (induction s) auto
  then show ?thesis by (simp add: cut_def)
qed

lemma cut_found: "cut s c = (a, b, True) \<Longrightarrow> s = a @ c # b \<and> c \<notin> set a"
  by (auto simp: cut_def id_take_nth_drop dest: index_byte_Some split: option.splits)

lemma has_prefix_iff: "has_prefix s p \<longleftrightarrow> prefix p s"
  by (auto simp: has_prefix_def prefix_def) (metis append_take_drop_id)

lemma has_suffix_iff: "has_suffix s p \<longleftrightarrow> suffix p s"
  by (auto simp: has_suffix_def suffix_def) (metis append_take_drop_id)

lemma trim_suffix_absent [simp]: "\<not> has_suffix s p \<Longrightarrow> trim_suffix s p = s"
  by (simp add: trim_suffix_def)

lemma trim_suffix_append [simp]: "trim_suffix (s @ p) p = s"
  by (simp add: trim_suffix_def has_suffix_def)

lemma header_get_set [simp]: "header_get (header_set k v h) k = v"
  by (simp add: header_get_def header_set_def)

lemma header_values_set [simp]: "header_values (header_set k v h) k = [v]"
  by (simp add: header_values_def header_set_def)

lemma show_nat_not_Nil [simp]: "show_nat n \<noteq> []"
  by (subst show_nat.simps) simp

lemma is_digit_digit_char [simp]: "d < 10 \<Longrightarrow> is_digit (digit_char d)"
  by (simp add: is_digit_def digit_char_def)

lemma set_show_nat: "c \<in> set (show_nat n) \<Longrightarrow> is_digit c"
proof (induction n rule: show_nat.induct)
  case (1 n)
  then show ?case
    by (cases "n < 10") (auto simp: show_nat.simps [of n])
qed

lemma read_digits_append:
  "read_digits acc (xs @ ys) = (case read_digits acc xs of None \<Rightarrow> None | Some a \<Rightarrow> read_digits a ys)"
  by (induction xs arbitrary: acc) auto

lemma read_digits_show_nat: "read_digits 0 (show_nat n) = Some n"
proof (induction n rule: show_nat.induct)
  case (1 n)
  show ?case
  proof (cases "n < 10")
    case True
    then show ?thesis by (subst show_nat.simps) (simp add: digit_char_def is_digit_def)
  next
    case False
    with "1.IH" show ?thesis
      by (subst show_nat.simps) (simp add: read_digits_append digit_char_def is_digit_def)
  qed
qed

text \<open>Printing a number and reading it back.\<close>

lemma read_show_nat [simp]: "read_nat (show_nat n) = Some n"
  by (simp add: read_nat_def read_digits_show_nat)


subsection \<open>Association lists\<close>

lemma keys_simps [simp]:
  "keys [] = []" "keys ((k, v) # xs) = k # keys xs"
  by (simp_all add: keys_def)

lemma keys_alist_upd [simp]: "keys (alist_upd k f xs) = keys xs"
  by (induction xs) (auto simp: alist_upd_def)

lemma keys_alist_map [simp]: "keys (alist_map f xs) = keys xs"
  by (induction xs) (auto simp: alist_map_def)

lemma keys_alist_del [simp]: "keys (alist_del k xs) = filter (\<lambda>k'. k' \<noteq> k) (keys xs)"
  by (induction xs) (auto simp: alist_del_def)

lemma keys_alist_put [simp]: "keys (alist_put k v xs) = k # filter (\<lambda>k'. k' \<noteq> k) (keys xs)"
  by (simp add: alist_put_def)

lemma set_keys [simp]: "set (keys xs) = dom (map_of xs)"
  by (simp add: keys_def dom_map_of_conv_image_fst)

lemma map_of_alist_upd [simp]:
  "map_of (alist_upd k f xs) = (map_of xs)(k := map_option f (map_of xs k))"
  by (induction xs) (auto simp: alist_upd_def fun_eq_iff)

lemma map_of_alist_map [simp]: "map_of (alist_map f xs) = map_option f \<circ> map_of xs"
  by (induction xs) (auto simp: alist_map_def fun_eq_iff)

lemma map_of_alist_del [simp]: "map_of (alist_del k xs) = (map_of xs)(k := None)"
  by (induction xs) (auto simp: alist_del_def fun_eq_iff)

lemma map_of_alist_put [simp]: "map_of (alist_put k v xs) = (map_of xs)(k \<mapsto> v)"
  by (simp add: alist_put_def fun_upd_def fun_eq_iff)

lemma alist_del_absent [simp]: "map_of xs k = None \<Longrightarrow> alist_del k xs = xs"
  by (induction xs) (auto simp: alist_del_def split: if_splits)

lemma count_val_simps [simp]:
  "count_val P [] = 0"
  "count_val P ((k, v) # xs) = (if P v then Suc (count_val P xs) else count_val P xs)"
  by (simp_all add: count_val_def)

lemma count_val_le: "count_val P xs \<le> length xs"
  by (simp add: count_val_def)

lemma alist_del_Cons [simp]: "alist_del k ((k, v) # xs) = alist_del k xs"
  by (simp add: alist_del_def)

lemma alist_del_idem [simp]: "alist_del k (alist_del k xs) = alist_del k xs"
  by (simp add: alist_del_def)

lemma alist_upd_absent: "k \<notin> set (keys xs) \<Longrightarrow> alist_upd k f xs = xs"
  by (induction xs) (auto simp: alist_upd_def split: if_splits)

text \<open>How a count changes when one entry changes.\<close>

lemma count_val_upd:
  "distinct (keys xs) \<Longrightarrow> map_of xs k = Some w \<Longrightarrow>
     count_val P (alist_upd k f xs) + (if P w then 1 else 0) =
     count_val P xs + (if P (f w) then 1 else 0)"
proof (induction xs)
  case Nil
  then show ?case by simp
next
  case (Cons x xs)
  obtain k' v where x: "x = (k', v)" by (cases x)
  show ?case
  proof (cases "k' = k")
    case True
    with Cons.prems x have "k \<notin> set (keys xs)" by simp
    then have "alist_upd k f xs = xs" by (rule alist_upd_absent)
    then have "alist_upd k f (x # xs) = (k, f v) # xs"
      using x True by (simp add: alist_upd_def)
    with Cons.prems x True show ?thesis by auto
  next
    case False
    then have "alist_upd k f (x # xs) = (k', v) # alist_upd k f xs"
      using x by (simp add: alist_upd_def)
    with Cons x False show ?thesis by auto
  qed
qed

lemma count_val_map: "count_val P (alist_map f xs) = count_val (P \<circ> f) xs"
  by (induction xs) (auto simp: alist_map_def)

lemma count_val_cong: "(\<And>v. P v = Q v) \<Longrightarrow> count_val P xs = count_val Q xs"
  by (simp add: count_val_def)

lemma count_val_pos: "map_of xs k = Some v \<Longrightarrow> P v \<Longrightarrow> 0 < count_val P xs"
  by (induction xs) (auto split: if_splits)

lemma count_val_0: "(\<And>k v. map_of xs k = Some v \<Longrightarrow> \<not> P v) \<Longrightarrow> distinct (keys xs) \<Longrightarrow> count_val P xs = 0"
proof (induction xs)
  case (Cons x xs)
  obtain k v where x: "x = (k, v)" by (cases x)
  have "\<not> P v" using Cons.prems(1) [of k v] x by simp
  moreover have "count_val P xs = 0"
  proof (rule Cons.IH)
    fix k' v' assume a: "map_of xs k' = Some v'"
    then have "k' \<noteq> k" using Cons.prems(2) x by (auto simp: dom_def)
    with a show "\<not> P v'" using Cons.prems(1) [of k' v'] x by simp
  next
    show "distinct (keys xs)" using Cons.prems(2) x by simp
  qed
  ultimately show ?case using x by simp
qed simp

text \<open>A string whose ends are visible ASCII characters is not changed by trimming.\<close>

definition visible :: "char \<Rightarrow> bool" where
  "visible c \<longleftrightarrow> (let n = of_char c :: nat in 0x21 \<le> n \<and> n \<le> 0x7E)"

lemma space_encodings_visible:
  "\<forall>e \<in> set space_encodings. e \<noteq> [] \<and> \<not> visible (hd e) \<and> \<not> visible (last e)"
  by (simp add: space_encodings_def visible_def)

lemma prefix_hd: "prefix e s \<Longrightarrow> e \<noteq> [] \<Longrightarrow> hd e = hd s"
  by (auto simp: prefix_def)

lemma trim_space_visible [simp]:
  assumes "s \<noteq> []" "visible (hd s)" "visible (last s)"
  shows "trim_space s = s"
proof -
  have "trim_left s = s"
    unfolding trim_left_def
  proof (rule strip_id, intro ballI)
    fix e assume e: "e \<in> set space_encodings"
    show "e = [] \<or> \<not> prefix e s"
      using space_encodings_visible e assms(2) prefix_hd [of e s] by auto
  qed
  moreover have "strip (map rev space_encodings) (rev s) = rev s"
  proof (rule strip_id, intro ballI)
    fix e assume "e \<in> set (map rev space_encodings)"
    then obtain e' where e': "e' \<in> set space_encodings" "e = rev e'" by auto
    have "prefix e (rev s) \<Longrightarrow> hd e = last s"
      using prefix_hd [of e "rev s"] e' space_encodings_visible assms(1) by (auto simp: hd_rev)
    then show "e = [] \<or> \<not> prefix e (rev s)"
      using space_encodings_visible e' assms(3) by (auto simp: hd_rev)
  qed
  ultimately show ?thesis by (simp add: trim_space_def trim_right_def)
qed

lemma visible_show_nat [simp]: "c \<in> set (show_nat n) \<Longrightarrow> visible c"
  using set_show_nat [of c n] by (auto simp: visible_def is_digit_def Let_def)

lemma visible_last_show_nat [simp]: "visible (last (show_nat n))"
  by (rule visible_show_nat [of _ n]) simp

lemma trim_space_show_nat [simp]: "trim_space (show_nat n) = show_nat n"
  by (rule trim_space_visible) (simp_all add: visible_show_nat [of _ n])

lemma trim_space_blank [simp]: "trim_space (CHR '' '' # s) = trim_space s"
proof -
  have "strip space_encodings (CHR '' '' # s) = strip space_encodings s"
    by (subst strip.simps) (simp add: space_encodings_def)
  then show ?thesis by (simp add: trim_space_def trim_left_def)
qed

end
