(* ===== verification/Url.thy ===== *)
theory Url
  imports Prelude
begin

text \<open>
  \<open>url.PathEscape\<close> as the code uses it for identifiers and path parameters, on bytes, with the
  inverse that a server applies.
\<close>

definition hex_digit :: "nat \<Rightarrow> char" where
  "hex_digit n = char_of (if n < 10 then 48 + n else 55 + n)"

definition hex_value :: "char \<Rightarrow> nat option" where
  "hex_value c = (let n = of_char c :: nat in
     if 48 \<le> n \<and> n \<le> 57 then Some (n - 48)
     else if 65 \<le> n \<and> n \<le> 70 then Some (n - 55)
     else if 97 \<le> n \<and> n \<le> 102 then Some (n - 87) else None)"

definition path_unescaped :: "char \<Rightarrow> bool" where
  "path_unescaped c \<longleftrightarrow> is_letter c \<or> is_digit c \<or> c \<in> set ''-_.~$&+=:@''"

definition escape_byte :: "char \<Rightarrow> string" where
  "escape_byte c = [CHR ''%'', hex_digit (of_char c div 16), hex_digit (of_char c mod 16)]"

definition path_escape :: "string \<Rightarrow> string" where
  "path_escape s = concat (map (\<lambda>c. if path_unescaped c then [c] else escape_byte c) s)"

fun path_unescape :: "string \<Rightarrow> string option" where
  "path_unescape [] = Some []"
| "path_unescape (c # s) =
    (if c = CHR ''%'' then
       (case s of h # l # s' \<Rightarrow>
          (case (hex_value h, hex_value l) of
             (Some a, Some b) \<Rightarrow> map_option ((#) (char_of (a * 16 + b))) (path_unescape s')
           | _ \<Rightarrow> None)
        | _ \<Rightarrow> None)
     else map_option ((#) c) (path_unescape s))"

lemma hex_value_digit [simp]: "n < 16 \<Longrightarrow> hex_value (hex_digit n) = Some n"
  by (auto simp: hex_value_def hex_digit_def Let_def of_char_of)

lemma char_nat_less: "(of_char c :: nat) < 256"
  using range_nat_of_char by auto

lemma percent_escaped [simp]: "\<not> path_unescaped CHR ''%''"
  by (simp add: path_unescaped_def is_letter_def is_digit_def)

lemma path_unescape_byte [simp]: "path_unescape (escape_byte c @ s) = map_option ((#) c) (path_unescape s)"
proof -
  have n: "(of_char c :: nat) < 256" by (rule char_nat_less)
  then have "hex_value (hex_digit (of_char c div 16)) = Some (of_char c div 16)"
    "hex_value (hex_digit (of_char c mod 16)) = Some (of_char c mod 16)"
    by (simp_all add: less_mult_imp_div_less)
  then show ?thesis by (simp add: escape_byte_def div_mult_mod_eq)
qed

text \<open>Escaping loses nothing: the server reads back the same string.\<close>

lemma path_unescape_escape: "path_unescape (path_escape s) = Some s"
proof (induction s)
  case (Cons c s)
  then show ?case
    by (cases "path_unescaped c"; cases "c = CHR ''%''") (simp_all add: path_escape_def)
qed (simp add: path_escape_def)

lemma hex_digit_not_slash: "n < 16 \<Longrightarrow> hex_digit n \<noteq> CHR ''/''"
proof
  assume "n < 16" "hex_digit n = CHR ''/''"
  then have "hex_value CHR ''/'' = Some n" by (metis hex_value_digit)
  then show False by (simp add: hex_value_def)
qed

lemma path_escape_no_slash: "CHR ''/'' \<notin> set (path_escape s)"
proof (induction s)
  case (Cons c s)
  have "(of_char c :: nat) < 256" by (rule char_nat_less)
  then have "CHR ''/'' \<notin> set (escape_byte c)"
    using hex_digit_not_slash [of "of_char c div 16"] hex_digit_not_slash [of "of_char c mod 16"]
    by (auto simp: escape_byte_def less_mult_imp_div_less)
  moreover have "\<not> path_unescaped CHR ''/''"
    by (simp add: path_unescaped_def is_letter_def is_digit_def)
  ultimately show ?case using Cons by (auto simp: path_escape_def)
qed (simp add: path_escape_def)

end
