(* ===== verification/Errors.thy ===== *)
theory Errors
  imports Prelude
begin

text \<open>
  Errors: package \<open>fault\<close> (\<open>fault/fault.go\<close>) and the HTTP error mapping of \<open>errors.go\<close>.

  A Go error value is a term of \<open>goerr\<close>: the package-level sentinels, the error structs of the
  framework (a typed nil pointer stored in an \<open>error\<close> is the constructor applied to \<open>None\<close>),
  \<open>fmt.Errorf\<close> with \<open>%w\<close> (\<open>Wrapf\<close>), \<open>errors.Join\<close> (\<open>Joined\<close>) and any other error
  (\<open>Opaque\<close>). \<open>unwrap_chain\<close> is the pre-order walk of \<open>errors.Is\<close> and \<open>errors.As\<close>.
\<close>

section \<open>Error values\<close>

datatype sentinel =
    ErrAsyncUnavailable | ErrAsyncQueueFull | ErrInvalidOperation | ErrOperationNotFound
  | ErrOperationFinished | ErrRetriesUnsupported | ErrInvalidPreference
  | ErrInvalidCredentials | ErrAuthUnavailable
  | ErrSessionUnavailable | ErrSessionCommitted | ErrSessionTooLarge
  | ContextCanceled | ContextDeadlineExceeded
  | SqlNoRows | SqlTxDone | SqlConnDone | HttpErrNoCookie | HttpErrServerClosed
  | HttpErrNotSupported | HttpErrAbortHandler | IoEOF | IoErrShortWrite

datatype fault_kind =
    InvalidArgument | Unauthenticated | Forbidden | NotFound | Conflict | RateLimited
  | Unavailable | Internal | OtherKind nat

record op_error =
  op_code :: string
  op_message :: string

datatype goerr =
    Sentinel sentinel
  | HTTPErr "http_error option"
  | OpErr "op_error option"
  | FaultErr "fault_error option"
  | BindErr "binding_error option"
  | Wrapf string goerr
  | Joined "goerr list"
  | Opaque string
and http_error =
    HTTPError (http_status: int) (http_code: string) (http_message: string)
      (http_cause: "goerr option") (http_headers: "(string \<times> string list) list")
and fault_error =
    FaultError (fault_kind: fault_kind) (fault_code: string) (fault_message: string)
      (fault_fields: "string \<rightharpoonup> string") (fault_cause: "goerr option")
and binding_error =
    BindingError (binding_source: string) (binding_field: string) (binding_cause: "goerr option")

type_synonym 'a result = "goerr + 'a"

section \<open>Constructors\<close>

definition NewHTTPError :: "int \<Rightarrow> string \<Rightarrow> string \<Rightarrow> http_error" where
  "NewHTTPError status code message = HTTPError status code message None []"

definition WrapHTTPError :: "int \<Rightarrow> string \<Rightarrow> string \<Rightarrow> goerr option \<Rightarrow> http_error" where
  "WrapHTTPError status code message cause = HTTPError status code message cause []"

definition BadRequest :: "string \<Rightarrow> string \<Rightarrow> http_error" where
  "BadRequest code message = NewHTTPError 400 code message"

definition Unauthorized :: "string \<Rightarrow> string \<Rightarrow> http_error" where
  "Unauthorized code message = NewHTTPError 401 code message"

definition ForbiddenHTTP :: "string \<Rightarrow> string \<Rightarrow> http_error" where
  "ForbiddenHTTP code message = NewHTTPError 403 code message"

definition NotFoundHTTP :: "string \<Rightarrow> string \<Rightarrow> http_error" where
  "NotFoundHTTP code message = NewHTTPError 404 code message"

definition MethodNotAllowed :: "string \<Rightarrow> string \<Rightarrow> http_error" where
  "MethodNotAllowed code message = NewHTTPError 405 code message"

definition ConflictHTTP :: "string \<Rightarrow> string \<Rightarrow> http_error" where
  "ConflictHTTP code message = NewHTTPError 409 code message"

definition UnsupportedMediaType :: "string \<Rightarrow> string \<Rightarrow> http_error" where
  "UnsupportedMediaType code message = NewHTTPError 415 code message"

definition RequestEntityTooLarge :: "string \<Rightarrow> string \<Rightarrow> http_error" where
  "RequestEntityTooLarge code message = NewHTTPError 413 code message"

definition InternalServerError :: "goerr option \<Rightarrow> http_error" where
  "InternalServerError cause =
     WrapHTTPError 500 ''internal_server_error'' ''An unexpected error occurred'' cause"

definition fault_New :: "fault_kind \<Rightarrow> string \<Rightarrow> string \<Rightarrow> fault_error" where
  "fault_New kind code message = FaultError kind code message (\<lambda>_. None) None"

definition fault_Wrap :: "fault_kind \<Rightarrow> string \<Rightarrow> string \<Rightarrow> goerr option \<Rightarrow> fault_error" where
  "fault_Wrap kind code message cause = FaultError kind code message (\<lambda>_. None) cause"

section \<open>Unwrapping\<close>

text \<open>\<open>HTTPError.Unwrap\<close>, \<open>fault.Error.Unwrap\<close>, \<open>BindingError.Unwrap\<close>: the retained cause.\<close>

primrec http_unwrap :: "http_error option \<Rightarrow> goerr option" where
  "http_unwrap None = None"
| "http_unwrap (Some err) = http_cause err"

primrec fault_unwrap :: "fault_error option \<Rightarrow> goerr option" where
  "fault_unwrap None = None"
| "fault_unwrap (Some err) = fault_cause err"

primrec binding_unwrap :: "binding_error option \<Rightarrow> goerr option" where
  "binding_unwrap None = None"
| "binding_unwrap (Some err) = binding_cause err"

fun unwrap_chain :: "goerr \<Rightarrow> goerr list" where
  "unwrap_chain (HTTPErr (Some (HTTPError s c m (Some e) hs))) =
     HTTPErr (Some (HTTPError s c m (Some e) hs)) # unwrap_chain e"
| "unwrap_chain (FaultErr (Some (FaultError k c m fs (Some e)))) =
     FaultErr (Some (FaultError k c m fs (Some e))) # unwrap_chain e"
| "unwrap_chain (BindErr (Some (BindingError s f (Some e)))) =
     BindErr (Some (BindingError s f (Some e))) # unwrap_chain e"
| "unwrap_chain (Wrapf s e) = Wrapf s e # unwrap_chain e"
| "unwrap_chain (Joined es) = Joined es # concat (map unwrap_chain es)"
| "unwrap_chain e = [e]"

definition errors_Is :: "goerr \<Rightarrow> sentinel \<Rightarrow> bool" where
  "errors_Is err target \<longleftrightarrow> Sentinel target \<in> set (unwrap_chain err)"

text \<open>\<open>errors.Join\<close> drops the nil errors; of nothing it is nil.\<close>

definition errors_Join :: "goerr option list \<Rightarrow> goerr option" where
  "errors_Join es = (case concat (map (case_option [] (\<lambda>e. [e])) es) of [] \<Rightarrow> None | xs \<Rightarrow> Some (Joined xs))"

lemma errors_Join_None: "errors_Join es = None \<longleftrightarrow> set es \<subseteq> {None}"
  by (induction es) (auto simp: errors_Join_def split: option.splits list.splits)

text \<open>
  \<open>errors.As\<close> for one struct type: \<open>None\<close> when no error of the chain has the type, otherwise the
  pointer of the first one that has it (itself \<open>None\<close> for a typed nil).
\<close>

fun as_http_list :: "goerr list \<Rightarrow> http_error option option" where
  "as_http_list [] = None"
| "as_http_list (HTTPErr p # es) = Some p"
| "as_http_list (e # es) = as_http_list es"

fun as_op_list :: "goerr list \<Rightarrow> op_error option option" where
  "as_op_list [] = None"
| "as_op_list (OpErr p # es) = Some p"
| "as_op_list (e # es) = as_op_list es"

fun as_fault_list :: "goerr list \<Rightarrow> fault_error option option" where
  "as_fault_list [] = None"
| "as_fault_list (FaultErr p # es) = Some p"
| "as_fault_list (e # es) = as_fault_list es"

definition as_http :: "goerr \<Rightarrow> http_error option option" where
  "as_http err = as_http_list (unwrap_chain err)"

definition as_op :: "goerr \<Rightarrow> op_error option option" where
  "as_op err = as_op_list (unwrap_chain err)"

definition as_fault :: "goerr \<Rightarrow> fault_error option option" where
  "as_fault err = as_fault_list (unwrap_chain err)"

section \<open>Mapping to HTTP\<close>

text \<open>\<open>http.StatusText\<close>.\<close>

definition status_texts :: "(int \<times> string) list" where
  "status_texts =
    [(100, ''Continue''), (101, ''Switching Protocols''), (102, ''Processing''),
     (103, ''Early Hints''), (200, ''OK''), (201, ''Created''), (202, ''Accepted''),
     (203, ''Non-Authoritative Information''), (204, ''No Content''), (205, ''Reset Content''),
     (206, ''Partial Content''), (207, ''Multi-Status''), (208, ''Already Reported''),
     (226, ''IM Used''), (300, ''Multiple Choices''), (301, ''Moved Permanently''),
     (302, ''Found''), (303, ''See Other''), (304, ''Not Modified''), (305, ''Use Proxy''),
     (307, ''Temporary Redirect''), (308, ''Permanent Redirect''), (400, ''Bad Request''),
     (401, ''Unauthorized''), (402, ''Payment Required''), (403, ''Forbidden''),
     (404, ''Not Found''), (405, ''Method Not Allowed''), (406, ''Not Acceptable''),
     (407, ''Proxy Authentication Required''), (408, ''Request Timeout''), (409, ''Conflict''),
     (410, ''Gone''), (411, ''Length Required''), (412, ''Precondition Failed''),
     (413, ''Request Entity Too Large''), (414, ''Request URI Too Long''),
     (415, ''Unsupported Media Type''), (416, ''Requested Range Not Satisfiable''),
     (417, ''Expectation Failed''), (418, ''I'' @ [CHR 0x27] @ ''m a teapot''),
     (421, ''Misdirected Request''), (422, ''Unprocessable Entity''), (423, ''Locked''),
     (424, ''Failed Dependency''), (425, ''Too Early''), (426, ''Upgrade Required''),
     (428, ''Precondition Required''), (429, ''Too Many Requests''),
     (431, ''Request Header Fields Too Large''), (451, ''Unavailable For Legal Reasons''),
     (500, ''Internal Server Error''), (501, ''Not Implemented''), (502, ''Bad Gateway''),
     (503, ''Service Unavailable''), (504, ''Gateway Timeout''),
     (505, ''HTTP Version Not Supported''), (506, ''Variant Also Negotiates''),
     (507, ''Insufficient Storage''), (508, ''Loop Detected''), (510, ''Not Extended''),
     (511, ''Network Authentication Required'')]"

definition StatusText :: "int \<Rightarrow> string" where
  "StatusText status = (case map_of status_texts status of None \<Rightarrow> [] | Some t \<Rightarrow> t)"

record mappedHTTPError =
  mapped_status :: int
  mapped_code :: string
  mapped_message :: string
  mapped_fields :: "string \<rightharpoonup> string"

definition mapped :: "int \<Rightarrow> string \<Rightarrow> string \<Rightarrow> mappedHTTPError" where
  "mapped status code message =
     \<lparr>mapped_status = status, mapped_code = code, mapped_message = message,
      mapped_fields = (\<lambda>_. None)\<rparr>"

fun faultHTTPStatus :: "fault_kind \<Rightarrow> int \<times> string" where
  "faultHTTPStatus InvalidArgument = (400, ''invalid_argument'')"
| "faultHTTPStatus Unauthenticated = (401, ''unauthenticated'')"
| "faultHTTPStatus Forbidden = (403, ''forbidden'')"
| "faultHTTPStatus NotFound = (404, ''not_found'')"
| "faultHTTPStatus Conflict = (409, ''conflict'')"
| "faultHTTPStatus RateLimited = (429, ''rate_limited'')"
| "faultHTTPStatus Unavailable = (503, ''unavailable'')"
| "faultHTTPStatus Internal = (500, ''internal_server_error'')"
| "faultHTTPStatus (OtherKind n) = (500, ''internal_server_error'')"

definition or_default :: "string \<Rightarrow> string \<Rightarrow> string" where
  "or_default s d = (if s \<noteq> [] then s else d)"

definition map_http_error :: "http_error \<Rightarrow> mappedHTTPError" where
  "map_http_error e =
     mapped (if 400 \<le> http_status e \<and> http_status e \<le> 599 then http_status e else 500)
       (or_default (http_code e) ''internal_server_error'')
       (or_default (http_message e) ''An unexpected error occurred'')"

definition map_op_error :: "op_error \<Rightarrow> mappedHTTPError" where
  "map_op_error e =
     mapped 500 (or_default (op_code e) ''operation_failed'')
       (or_default (op_message e) ''The operation could not be completed'')"

definition map_fault_error :: "fault_error \<Rightarrow> mappedHTTPError" where
  "map_fault_error f =
     (let (status, kind_code) = faultHTTPStatus (fault_kind f);
          code = or_default (fault_code f) kind_code
      in if status < 500 then
           (mapped status code (or_default (fault_message f) (StatusText status)))
             \<lparr>mapped_fields := fault_fields f\<rparr>
         else mapped status code ''An unexpected error occurred'')"

definition map_async_error :: "goerr \<Rightarrow> mappedHTTPError option" where
  "map_async_error err =
    (if errors_Is err ErrAsyncQueueFull then
       Some (mapped 503 ''async_queue_full'' ''The operation could not be accepted at this time'')
     else if errors_Is err ErrAsyncUnavailable then
       Some (mapped 503 ''async_unavailable'' ''Asynchronous operations are unavailable'')
     else if errors_Is err ErrInvalidOperation then
       Some (mapped 400 ''invalid_async_operation'' ''The asynchronous operation is invalid'')
     else if errors_Is err ErrOperationNotFound then
       Some (mapped 404 ''operation_not_found'' ''The operation was not found'')
     else if errors_Is err ErrOperationFinished then
       Some (mapped 409 ''operation_finished'' ''The operation is already finished'')
     else if errors_Is err ErrRetriesUnsupported then
       Some (mapped 400 ''async_retries_unsupported''
               ''The executor does not support durable retries'')
     else if errors_Is err ErrInvalidPreference then
       Some (mapped 400 ''invalid_prefer'' ''The Prefer header is invalid'')
     else None)"

definition mapHTTPError :: "goerr \<Rightarrow> mappedHTTPError" where
  "mapHTTPError err =
    (case as_http err of
       Some (Some e) \<Rightarrow> map_http_error e
     | _ \<Rightarrow>
       (case as_op err of
          Some (Some e) \<Rightarrow> map_op_error e
        | _ \<Rightarrow>
          (case map_async_error err of
             Some m \<Rightarrow> m
           | None \<Rightarrow>
             (case as_fault err of
                Some (Some f) \<Rightarrow> map_fault_error f
              | _ \<Rightarrow> mapped 500 ''internal_server_error'' ''An unexpected error occurred''))))"

definition StatusCode :: "goerr \<Rightarrow> int" where
  "StatusCode err = mapped_status (mapHTTPError err)"

text \<open>\<open>applyHTTPErrorHeaders\<close>: the \<open>range\<close> over the error's header map, in one iteration order.\<close>

fun copy_headers :: "(string \<times> string list) list \<Rightarrow> header \<Rightarrow> header" where
  "copy_headers [] h = h"
| "copy_headers ((key, values) # rest) h = copy_headers rest (h(canonical_key key := values))"

definition applyHTTPErrorHeaders :: "goerr \<Rightarrow> header \<Rightarrow> header" where
  "applyHTTPErrorHeaders err h =
    (let h = (if errors_Is err ErrAsyncQueueFull \<or> errors_Is err ErrAsyncUnavailable
              then header_set ''Retry-After'' ''5'' h else h)
     in case as_http err of
          Some (Some e) \<Rightarrow> copy_headers (http_headers e) h
        | _ \<Rightarrow> h)"

text \<open>The two response bodies \<open>renderHTTPError\<close> encodes.\<close>

datatype error_body =
    ErrorResponse string string "string \<rightharpoonup> string"
  | ProblemResponse string int string string string "string \<rightharpoonup> string"

definition error_body_for :: "bool \<Rightarrow> goerr \<Rightarrow> string \<times> int \<times> error_body" where
  "error_body_for problemDetails err =
    (let m = mapHTTPError err
     in if problemDetails then
          (''application/problem+json'', mapped_status m,
           ProblemResponse ''about:blank'' (mapped_status m) (StatusText (mapped_status m))
             (mapped_message m) (mapped_code m) (mapped_fields m))
        else
          (''application/json; charset=utf-8'', mapped_status m,
           ErrorResponse (mapped_code m) (mapped_message m) (mapped_fields m)))"


section \<open>Lemmas\<close>

lemma faultHTTPStatus_range: "400 \<le> fst (faultHTTPStatus k) \<and> fst (faultHTTPStatus k) \<le> 599"
  by (cases k) simp_all

lemma mapped_sel [simp]:
  "mapped_status (mapped s c m) = s" "mapped_code (mapped s c m) = c"
  "mapped_message (mapped s c m) = m" "mapped_fields (mapped s c m) = (\<lambda>_. None)"
  by (simp_all add: mapped_def)

lemma or_default_not_Nil [simp]: "d \<noteq> [] \<Longrightarrow> or_default s d \<noteq> []"
  by (simp add: or_default_def)

lemma map_http_error_status: "400 \<le> mapped_status (map_http_error e) \<and> mapped_status (map_http_error e) \<le> 599"
  by (simp add: map_http_error_def)

lemma map_fault_error_status:
  "mapped_status (map_fault_error f) = fst (faultHTTPStatus (fault_kind f))"
  by (simp add: map_fault_error_def Let_def split: prod.splits)

lemma map_async_error_status:
  "map_async_error err = Some m \<Longrightarrow> 400 \<le> mapped_status m \<and> mapped_status m \<le> 599"
  by (auto simp: map_async_error_def split: if_splits)

lemma errors_Is_Wrapf [simp]: "errors_Is (Wrapf s e) t \<longleftrightarrow> errors_Is e t"
  by (simp add: errors_Is_def)

lemma errors_Is_Sentinel [simp]: "errors_Is (Sentinel a) t \<longleftrightarrow> a = t"
  by (auto simp: errors_Is_def)

lemma errors_Is_Joined [simp]: "errors_Is (Joined es) t \<longleftrightarrow> (\<exists>e \<in> set es. errors_Is e t)"
  by (auto simp: errors_Is_def)

lemma as_http_Wrapf [simp]: "as_http (Wrapf s e) = as_http e"
  by (simp add: as_http_def)

lemma as_op_Wrapf [simp]: "as_op (Wrapf s e) = as_op e"
  by (simp add: as_op_def)

lemma as_fault_Wrapf [simp]: "as_fault (Wrapf s e) = as_fault e"
  by (simp add: as_fault_def)

lemma as_leaf [simp]:
  "as_http (Sentinel a) = None" "as_http (Opaque x) = None" "as_http (OpErr p) = None"
  "as_op (Sentinel a) = None" "as_op (Opaque x) = None" "as_op (OpErr p) = Some p"
  "as_fault (Sentinel a) = None" "as_fault (Opaque x) = None" "as_fault (OpErr p) = None"
  by (simp_all add: as_http_def as_op_def as_fault_def)

lemma errors_Is_leaf [simp]:
  "\<not> errors_Is (Opaque x) t" "\<not> errors_Is (OpErr p) t" "\<not> errors_Is (HTTPErr None) t"
  by (simp_all add: errors_Is_def)

lemma as_http_HTTPErr [simp]: "as_http (HTTPErr p) = Some p"
  by (cases "HTTPErr p" rule: unwrap_chain.cases) (simp_all add: as_http_def)

subsection \<open>What the response may depend on\<close>

text \<open>
  \<open>redact\<close> blanks the text of opaque errors and of wrapping, and the message and fields of a
  fault whose status is 500 or more.
\<close>

definition redact_fault ::
  "fault_kind \<Rightarrow> string \<Rightarrow> string \<Rightarrow> (string \<rightharpoonup> string) \<Rightarrow> goerr option \<Rightarrow> fault_error" where
  "redact_fault k c m fs cause =
     (if fst (faultHTTPStatus k) < 500 then FaultError k c m fs cause
      else FaultError k c [] (\<lambda>_. None) cause)"

fun redact :: "goerr \<Rightarrow> goerr" where
  "redact (HTTPErr (Some (HTTPError s c m (Some e) hs))) =
     HTTPErr (Some (HTTPError s c m (Some (redact e)) hs))"
| "redact (FaultErr (Some (FaultError k c m fs (Some e)))) =
     FaultErr (Some (redact_fault k c m fs (Some (redact e))))"
| "redact (FaultErr (Some (FaultError k c m fs None))) =
     FaultErr (Some (redact_fault k c m fs None))"
| "redact (BindErr (Some (BindingError s f (Some e)))) =
     BindErr (Some (BindingError s f (Some (redact e))))"
| "redact (Wrapf s e) = Wrapf [] (redact e)"
| "redact (Joined es) = Joined (map redact es)"
| "redact (Opaque s) = Opaque []"
| "redact e = e"

lemma map_concat_redact:
  assumes "\<And>e. e \<in> set es \<Longrightarrow> unwrap_chain (redact e) = map redact (unwrap_chain e)"
  shows "concat (map (unwrap_chain \<circ> redact) es) = map redact (concat (map unwrap_chain es))"
  using assms by (induction es) auto

lemma unwrap_chain_redact: "unwrap_chain (redact e) = map redact (unwrap_chain e)"
proof (induction e rule: redact.induct)
  case (6 es)
  then show ?case by (simp add: map_concat_redact)
qed (simp_all add: redact_fault_def)

lemma redact_Sentinel_iff: "redact e = Sentinel t \<longleftrightarrow> e = Sentinel t"
  by (cases e rule: redact.cases) simp_all

lemma errors_Is_redact [simp]: "errors_Is (redact e) t \<longleftrightarrow> errors_Is e t"
proof -
  have "Sentinel t \<in> redact ` A \<longleftrightarrow> Sentinel t \<in> A" for A
    by (metis image_iff redact_Sentinel_iff)
  then show ?thesis by (simp add: errors_Is_def unwrap_chain_redact)
qed

lemma map_async_error_redact [simp]: "map_async_error (redact e) = map_async_error e"
  by (simp add: map_async_error_def)

lemma as_op_list_redact: "as_op_list (map redact es) = as_op_list es"
proof (induction es)
  case (Cons e es)
  then show ?case by (cases e rule: redact.cases) simp_all
qed simp

definition same_response :: "http_error option option \<Rightarrow> http_error option option \<Rightarrow> bool" where
  "same_response p q \<longleftrightarrow> rel_option (rel_option (\<lambda>x y.
     http_status x = http_status y \<and> http_code x = http_code y \<and>
     http_message x = http_message y \<and> http_headers x = http_headers y)) p q"

lemma same_response_refl: "same_response p p"
  by (auto simp: same_response_def intro!: option.rel_refl)

lemma same_response_case:
  "same_response p q \<Longrightarrow>
     (case p of Some (Some e) \<Rightarrow> map_http_error e | _ \<Rightarrow> d) =
     (case q of Some (Some e) \<Rightarrow> map_http_error e | _ \<Rightarrow> d)"
  by (auto simp: same_response_def map_http_error_def rel_option_iff split: option.splits)

lemma as_http_list_redact: "same_response (as_http_list (map redact es)) (as_http_list es)"
proof (induction es)
  case Nil
  then show ?case by (simp add: same_response_def)
next
  case (Cons e es)
  then show ?case
    by (cases e rule: redact.cases) (auto simp: same_response_def intro!: option.rel_refl)
qed

lemma as_fault_list_redact:
  "(case as_fault_list (map redact es) of Some (Some f) \<Rightarrow> map_fault_error f
      | _ \<Rightarrow> d) =
   (case as_fault_list es of Some (Some f) \<Rightarrow> map_fault_error f | _ \<Rightarrow> d)"
proof (induction es)
  case (Cons e es)
  then show ?case
    by (cases e rule: redact.cases)
      (auto simp: redact_fault_def map_fault_error_def Let_def split: prod.splits)
qed simp

lemma mapHTTPError_redact: "mapHTTPError (redact e) = mapHTTPError e"
proof -
  let ?d = "mapped 500 ''internal_server_error'' ''An unexpected error occurred''"
  have f: "(case as_fault (redact e) of Some (Some f) \<Rightarrow> map_fault_error f | _ \<Rightarrow> ?d) =
      (case as_fault e of Some (Some f) \<Rightarrow> map_fault_error f | _ \<Rightarrow> ?d)"
    unfolding as_fault_def unwrap_chain_redact by (rule as_fault_list_redact)
  have o: "as_op (redact e) = as_op e"
    by (simp add: as_op_def unwrap_chain_redact as_op_list_redact)
  have h: "same_response (as_http (redact e)) (as_http e)"
    by (simp add: as_http_def unwrap_chain_redact as_http_list_redact)
  show ?thesis
    unfolding mapHTTPError_def o map_async_error_redact f
    by (rule same_response_case [OF h])
qed

lemma StatusCode_bounds: "400 \<le> StatusCode err \<and> StatusCode err \<le> 599"
proof (cases "as_http err")
  case None
  then show ?thesis
    using faultHTTPStatus_range map_async_error_status [of err]
    by (auto simp: StatusCode_def mapHTTPError_def map_op_error_def map_fault_error_status
        split: option.split)
next
  case (Some p)
  then show ?thesis
    using faultHTTPStatus_range map_async_error_status [of err] map_http_error_status
    by (cases p) (auto simp: StatusCode_def mapHTTPError_def map_op_error_def map_fault_error_status
        split: option.split)
qed

section \<open>Properties\<close>

text \<open>
  Whatever error a handler returns, the response status is a client or server error: it lies
  between 400 and 599, even when the error carries a status outside that range.
\<close>

theorem StatusCode_range: "400 \<le> StatusCode err \<and> StatusCode err \<le> 599"
  by (rule StatusCode_bounds)

text \<open>
  Internal error text never reaches a client: blanking the text of every opaque error, of
  every wrapping message and of every fault that maps to a 5xx status leaves the rendered body,
  its content type and its status unchanged, in both error formats.
\<close>

theorem error_body_redact: "error_body_for problemDetails (redact err) = error_body_for problemDetails err"
  by (simp add: error_body_for_def mapHTTPError_redact)

text \<open>
  The status, code and message of a response do not change when an error is wrapped with
  \<open>fmt.Errorf\<close> and \<open>%w\<close> any number of times on its way up.
\<close>

theorem mapHTTPError_wrap: "mapHTTPError (foldr Wrapf texts err) = mapHTTPError err"
proof (induction texts)
  case (Cons t texts)
  have "mapHTTPError (Wrapf t e) = mapHTTPError e" for e
    unfolding mapHTTPError_def map_async_error_def
    by (simp only: as_http_Wrapf as_op_Wrapf as_fault_Wrapf errors_Is_Wrapf)
  with Cons show ?case by simp
qed simp

end
