(* ===== verification/Operation.thy ===== *)
theory Operation
  imports Errors "HOL-Library.Word"
begin

text \<open>
  The asynchronous-operation data of \<open>async.go\<close>: statuses, operations, submissions, metrics.
  Times are nanoseconds since the epoch as \<open>int\<close>; a nil \<open>*time.Time\<close> is \<open>None\<close>. A metadata map
  is a HOL map, so a nil map and an empty one are the same, which is how the code reads them. A
  result is kept as its JSON text, \<open>None\<close> for a nil \<open>any\<close>. The \<open>uint64\<close> counters are 64-bit
  words; the \<open>float64\<close> totals are rational seconds.
\<close>

datatype op_status = Pending | Running | Retrying | Succeeded | Failed | Cancelled

definition Terminal :: "op_status \<Rightarrow> bool" where
  "Terminal status \<longleftrightarrow> status = Succeeded \<or> status = Failed \<or> status = Cancelled"

fun status_text :: "op_status \<Rightarrow> string" where
  "status_text Pending = ''pending''"
| "status_text Running = ''running''"
| "status_text Retrying = ''retrying''"
| "status_text Succeeded = ''succeeded''"
| "status_text Failed = ''failed''"
| "status_text Cancelled = ''cancelled''"

definition operationError_text :: "op_error option \<Rightarrow> string" where
  "operationError_text e = (case e of None \<Rightarrow> []
     | Some e \<Rightarrow> if op_message e \<noteq> [] then op_message e else op_code e)"

record operation =
  opn_id :: string
  opn_name :: string
  opn_status :: op_status
  opn_progress :: int
  opn_created :: int
  opn_started :: "int option"
  opn_finished :: "int option"
  opn_result :: "string option"
  opn_error :: "op_error option"
  opn_metadata :: "string \<rightharpoonup> string"
  opn_attempt :: int
  opn_max_attempts :: int
  opn_next_attempt :: "int option"

record retry_policy =
  MaxAttempts :: int
  InitialBackoff :: int
  MaxBackoff :: int

record 'p submit_request =
  req_name :: string
  req_payload :: 'p
  req_key :: string
  req_scope :: string
  req_metadata :: "string \<rightharpoonup> string"
  req_retry :: retry_policy

record async_metrics =
  SubmittedTotal :: "64 word"
  CompletedTotal :: "64 word"
  FailedTotal :: "64 word"
  CancelledTotal :: "64 word"
  RetriedTotal :: "64 word"
  QueueDepth :: int
  RunningNow :: int
  DurationSecondsTotal :: rat
  DurationCount :: "64 word"
  QueueWaitSecondsTotal :: rat
  QueueWaitCount :: "64 word"

definition zero_metrics :: async_metrics where
  "zero_metrics = \<lparr>SubmittedTotal = 0, CompletedTotal = 0, FailedTotal = 0, CancelledTotal = 0,
     RetriedTotal = 0, QueueDepth = 0, RunningNow = 0, DurationSecondsTotal = 0,
     DurationCount = 0, QueueWaitSecondsTotal = 0, QueueWaitCount = 0\<rparr>"

definition seconds :: "int \<Rightarrow> rat" where
  "seconds ns = of_int ns / 1000000000"

lemma Terminal_simps [simp]:
  "\<not> Terminal Pending" "\<not> Terminal Running" "\<not> Terminal Retrying"
  "Terminal Succeeded" "Terminal Failed" "Terminal Cancelled"
  by (simp_all add: Terminal_def)

end
