(* ===== verification/MemoryExecutor.thy ===== *)
theory MemoryExecutor
  imports Operation
begin

text \<open>
  The bounded in-memory executor of \<open>async/memory.go\<close>. Every region the code runs under
  \<open>executor.mu\<close> is one function on the state; the step relation at the end interleaves them in
  any order. The channel \<open>executor.queue\<close> is a list with a capacity and a closed flag. Worker
  goroutines are counted: \<open>idle\<close> ones wait for the channel, \<open>taken\<close> holds the identifiers
  received but not yet started, an executing record stands for a worker inside a handler, and
  \<open>exited\<close> counts the workers whose loop ended. Logging is left out.
\<close>

section \<open>State\<close>

datatype exec_state = ExecCreated | ExecRunning | ExecStopping | ExecStopped

record memoryConfig =
  cfg_workers :: int
  cfg_queue_size :: int
  cfg_task_timeout :: int

record operationRecord =
  rec_op :: operation
  rec_payload :: string
  rec_result :: string
  rec_cancel :: bool
  rec_done :: bool
  rec_executing :: bool

record memoryExecutor =
  config :: memoryConfig
  queue :: "string list"
  queue_closed :: bool
  state :: exec_state
  handlers :: "string list"
  operations :: "(string \<times> operationRecord) list"
  idempotency :: "(string \<times> string) list"
  metrics :: async_metrics
  idle :: nat
  taken :: "string list"
  exited :: nat
  workersDone :: bool
  doneSignals :: nat
  workCancelled :: bool
  jobCancels :: "string list"

abbreviation lookup_op :: "memoryExecutor \<Rightarrow> string \<Rightarrow> operationRecord option" where
  "lookup_op e oid \<equiv> map_of (operations e) oid"

section \<open>Configuration\<close>

definition WithWorkers :: "int \<Rightarrow> memoryConfig \<Rightarrow> memoryConfig outcome" where
  "WithWorkers n c = (if n < 1 then Panic ''async: workers must be greater than zero''
     else Return (c\<lparr>cfg_workers := n\<rparr>))"

definition WithQueueSize :: "int \<Rightarrow> memoryConfig \<Rightarrow> memoryConfig outcome" where
  "WithQueueSize n c = (if n < 1 then Panic ''async: queue size must be greater than zero''
     else Return (c\<lparr>cfg_queue_size := n\<rparr>))"

definition WithTaskTimeout :: "int \<Rightarrow> memoryConfig \<Rightarrow> memoryConfig outcome" where
  "WithTaskTimeout t c = (if t \<le> 0 then Panic ''async: task timeout must be greater than zero''
     else Return (c\<lparr>cfg_task_timeout := t\<rparr>))"

definition default_memoryConfig :: memoryConfig where
  "default_memoryConfig =
     \<lparr>cfg_workers = 8, cfg_queue_size = 256, cfg_task_timeout = 5 * 60 * 1000000000\<rparr>"

text \<open>\<open>WithLogger\<close>: only its nil check; the flag says whether the logger is non-nil.\<close>

definition WithLogger :: "bool \<Rightarrow> memoryConfig \<Rightarrow> memoryConfig outcome" where
  "WithLogger present c = (if \<not> present then Panic ''async: logger is nil'' else Return c)"

datatype mem_option =
  OptWorkers int | OptQueueSize int | OptTaskTimeout int | OptLogger bool | OptNil

fun apply_option :: "mem_option \<Rightarrow> memoryConfig \<Rightarrow> memoryConfig outcome" where
  "apply_option (OptWorkers n) c = WithWorkers n c"
| "apply_option (OptQueueSize n) c = WithQueueSize n c"
| "apply_option (OptTaskTimeout t) c = WithTaskTimeout t c"
| "apply_option (OptLogger present) c = WithLogger present c"
| "apply_option OptNil c = Panic ''async: option is nil''"

fun apply_options :: "mem_option list \<Rightarrow> memoryConfig \<Rightarrow> memoryConfig outcome" where
  "apply_options [] c = Return c"
| "apply_options (opt # os) c =
     (case apply_option opt c of Panic m \<Rightarrow> Panic m | Return c' \<Rightarrow> apply_options os c')"

definition created_executor :: "memoryConfig \<Rightarrow> memoryExecutor" where
  "created_executor c =
     \<lparr>config = c, queue = [], queue_closed = False, state = ExecCreated, handlers = [],
      operations = [], idempotency = [], metrics = zero_metrics, idle = 0, taken = [], exited = 0,
      workersDone = False, doneSignals = 0, workCancelled = False, jobCancels = []\<rparr>"

definition NewMemoryExecutor :: "mem_option list \<Rightarrow> memoryExecutor outcome" where
  "NewMemoryExecutor opts = (case apply_options opts default_memoryConfig of
     Panic m \<Rightarrow> Panic m | Return c \<Rightarrow> Return (created_executor c))"

text \<open>\<open>Handle\<close>; \<open>present\<close> says whether the handler is non-nil.\<close>

definition Handle :: "string \<Rightarrow> bool \<Rightarrow> memoryExecutor \<Rightarrow> memoryExecutor outcome" where
  "Handle name present e =
    (let name = trim_space name
     in if name = [] \<or> \<not> present then Panic ''async: operation name and handler are required''
        else if state e \<noteq> ExecCreated then
          Panic ''async: handlers cannot be registered after startup''
        else if name \<in> set (handlers e) then
          Panic (''async: duplicate operation handler '' @ name)
        else Return (e\<lparr>handlers := handlers e @ [name]\<rparr>))"

section \<open>Lifecycle\<close>

definition Start :: "memoryExecutor \<Rightarrow> memoryExecutor \<times> goerr option" where
  "Start e = (if state e \<noteq> ExecCreated then (e, Some (Sentinel ErrAsyncUnavailable))
     else (e\<lparr>state := ExecRunning, idle := nat (cfg_workers (config e))\<rparr>, None))"

definition stopAccepting :: "memoryExecutor \<Rightarrow> memoryExecutor" where
  "stopAccepting e =
     (if state e = ExecRunning then e\<lparr>state := ExecStopping, queue_closed := True\<rparr> else e)"

definition signalDone :: "memoryExecutor \<Rightarrow> memoryExecutor" where
  "signalDone e = (if doneSignals e = 0 then e\<lparr>doneSignals := 1\<rparr> else e)"

text \<open>
  \<open>Shutdown\<close> up to its \<open>select\<close>: \<open>Some r\<close> when it returns \<open>r\<close> at once, \<open>None\<close> when it waits.
\<close>

definition Shutdown_begin :: "memoryExecutor \<Rightarrow> memoryExecutor \<times> goerr option option" where
  "Shutdown_begin e =
    (if state e = ExecCreated then (e, Some (Some (Sentinel ErrAsyncUnavailable)))
     else if state e = ExecStopped then (e, Some None)
     else (stopAccepting e, None))"

definition Shutdown_drained :: "memoryExecutor \<Rightarrow> memoryExecutor" where
  "Shutdown_drained e = e\<lparr>state := ExecStopped\<rparr>"

definition cancel_record :: "int \<Rightarrow> operationRecord \<Rightarrow> operationRecord" where
  "cancel_record now r =
    (if Terminal (opn_status (rec_op r)) then r
     else r\<lparr>rec_op := (rec_op r)\<lparr>opn_status := Cancelled, opn_finished := Some now\<rparr>,
            rec_done := True\<rparr>)"

definition live_record :: "operationRecord \<Rightarrow> bool" where
  "live_record r \<longleftrightarrow> \<not> Terminal (opn_status (rec_op r))"

definition cancelUnfinished :: "int \<Rightarrow> memoryExecutor \<Rightarrow> memoryExecutor" where
  "cancelUnfinished now e =
     e\<lparr>operations := alist_map (cancel_record now) (operations e),
       metrics := (metrics e)\<lparr>CancelledTotal :=
         CancelledTotal (metrics e) + of_nat (count_val live_record (operations e))\<rparr>,
       jobCancels := jobCancels e @
         keys (filter (\<lambda>(k, r). live_record r \<and> rec_cancel r) (operations e))\<rparr>"

definition Shutdown_expired :: "memoryExecutor \<Rightarrow> memoryExecutor" where
  "Shutdown_expired e = signalDone (e\<lparr>state := ExecStopped, workCancelled := True\<rparr>)"

section \<open>Operations\<close>

definition snapshot :: "operationRecord \<Rightarrow> operation" where
  "snapshot r = (rec_op r)\<lparr>opn_result :=
     (if rec_result r \<noteq> [] then Some (rec_result r) else opn_result (rec_op r))\<rparr>"

text \<open>
  The search for an unused identifier. \<open>ids\<close> are the further results of
  \<open>generateOperationID\<close>; \<open>None\<close> means that all of them were used up.
\<close>

fun fresh_id :: "memoryExecutor \<Rightarrow> string \<Rightarrow> string result list \<Rightarrow> string result option" where
  "fresh_id e oid ids =
     (if lookup_op e oid = None then Some (Inr oid)
      else case ids of
        [] \<Rightarrow> None
      | Inl err # _ \<Rightarrow> Some (Inl (Wrapf ''create operation ID: '' err))
      | Inr oid' # rest \<Rightarrow> fresh_id e oid' rest)"

declare fresh_id.simps [simp del]

definition idempotency_key :: "string \<Rightarrow> string \<Rightarrow> string \<Rightarrow> string" where
  "idempotency_key scope name key = scope @ [CHR 0x00] @ name @ [CHR 0x00] @ key"

definition new_record :: "string \<Rightarrow> string \<Rightarrow> int \<Rightarrow> (string \<rightharpoonup> string) \<Rightarrow> string \<Rightarrow> operationRecord" where
  "new_record oid name now metadata payload =
     \<lparr>rec_op = \<lparr>opn_id = oid, opn_name = name, opn_status = Pending, opn_progress = 0,
        opn_created = now, opn_started = None, opn_finished = None, opn_result = None,
        opn_error = None, opn_metadata = metadata, opn_attempt = 0, opn_max_attempts = 1,
        opn_next_attempt = None\<rparr>,
      rec_payload = payload, rec_result = [], rec_cancel = False, rec_done = False,
      rec_executing = False\<rparr>"

datatype chan_send = Sent "string list" | Full | SendPanic

definition queue_send :: "memoryExecutor \<Rightarrow> string \<Rightarrow> chan_send" where
  "queue_send e oid =
    (if queue_closed e then SendPanic
     else if int (length (queue e)) < cfg_queue_size (config e) then Sent (queue e @ [oid])
     else Full)"

text \<open>The tail of \<open>Submit\<close>: record the operation, then offer it to the channel.\<close>

definition submit_record ::
  "memoryExecutor \<Rightarrow> string \<Rightarrow> string \<Rightarrow> operationRecord \<Rightarrow>
     (memoryExecutor \<times> operation result) outcome" where
  "submit_record e ikey oid r =
    (let e1 = e\<lparr>operations := alist_put oid r (operations e),
                idempotency := (if ikey \<noteq> [] then alist_put ikey oid (idempotency e)
                                else idempotency e)\<rparr>
     in case queue_send e1 oid of
          Sent q \<Rightarrow> Return (e1\<lparr>queue := q, metrics := (metrics e1)\<lparr>SubmittedTotal :=
                       SubmittedTotal (metrics e1) + 1\<rparr>\<rparr>, Inr (snapshot r))
        | Full \<Rightarrow> Return (e1\<lparr>operations := alist_del oid (operations e1),
                       idempotency := alist_del ikey (idempotency e1)\<rparr>,
                     Inl (Sentinel ErrAsyncQueueFull))
        | SendPanic \<Rightarrow> Panic ''send on closed channel'')"

text \<open>
  The checks of \<open>Submit\<close> before it locks: the trimmed name, the key, the scope and the payload.
  \<open>marshal\<close> is \<open>json.Marshal\<close>.
\<close>

definition submit_checks ::
  "('p \<Rightarrow> string result) \<Rightarrow> goerr option \<Rightarrow> 'p submit_request \<Rightarrow>
     (string \<times> string \<times> string \<times> string) result" where
  "submit_checks marshal ctx_err req =
    (case ctx_err of Some err \<Rightarrow> Inl err | None \<Rightarrow>
     (let name = trim_space (req_name req); key = trim_space (req_key req);
          scope = trim_space (req_scope req); retry = req_retry req
      in if name = [] then Inl (Wrapf ''name is required'' (Sentinel ErrInvalidOperation))
         else if key \<noteq> [] \<and> scope = [] then
           Inl (Wrapf ''idempotency scope is required'' (Sentinel ErrInvalidOperation))
         else if MaxAttempts retry < 0 \<or> InitialBackoff retry < 0 \<or> MaxBackoff retry < 0 then
           Inl (Wrapf ''retry values cannot be negative'' (Sentinel ErrInvalidOperation))
         else if MaxAttempts retry > 1 \<or> InitialBackoff retry \<noteq> 0 \<or> MaxBackoff retry \<noteq> 0 then
           Inl (Sentinel ErrRetriesUnsupported)
         else (case marshal (req_payload req) of
             Inl err \<Rightarrow> Inl (Wrapf ''encode payload'' (Sentinel ErrInvalidOperation))
           | Inr payload \<Rightarrow> Inr (name, key, scope, payload))))"

text \<open>The part of \<open>Submit\<close> under the lock.\<close>

definition submit_locked ::
  "memoryExecutor \<Rightarrow> int \<Rightarrow> (string \<rightharpoonup> string) \<Rightarrow> string \<Rightarrow> string \<Rightarrow> string \<Rightarrow> string \<Rightarrow>
     string \<Rightarrow> string result list \<Rightarrow> (memoryExecutor \<times> operation result) outcome option" where
  "submit_locked e now metadata name key scope payload oid ids =
    (if state e \<noteq> ExecRunning then Some (Return (e, Inl (Sentinel ErrAsyncUnavailable)))
     else if name \<notin> set (handlers e) then
       Some (Return (e, Inl (Wrapf (''no handler for '' @ name) (Sentinel ErrInvalidOperation))))
     else
       let ikey = (if key \<noteq> [] then idempotency_key scope name key else [])
       in case (if key \<noteq> [] then map_of (idempotency e) ikey else None) of
            Some existing \<Rightarrow>
              (case lookup_op e existing of
                 None \<Rightarrow> Some (Panic ''nil operation'')
               | Some r \<Rightarrow> Some (Return (e, Inr (snapshot r))))
          | None \<Rightarrow>
              (case fresh_id e oid ids of
                 None \<Rightarrow> None
               | Some (Inl err) \<Rightarrow> Some (Return (e, Inl err))
               | Some (Inr oid') \<Rightarrow>
                   Some (submit_record e ikey oid' (new_record oid' name now metadata payload))))"

definition Submit ::
  "('p \<Rightarrow> string result) \<Rightarrow> memoryExecutor \<Rightarrow> goerr option \<Rightarrow> int \<Rightarrow> 'p submit_request \<Rightarrow>
     string result list \<Rightarrow> (memoryExecutor \<times> operation result) outcome option" where
  "Submit marshal e ctx_err now req ids =
    (case submit_checks marshal ctx_err req of
       Inl err \<Rightarrow> Some (Return (e, Inl err))
     | Inr (name, key, scope, payload) \<Rightarrow>
         (case ids of
            [] \<Rightarrow> None
          | Inl err # _ \<Rightarrow> Some (Return (e, Inl (Wrapf ''create operation ID: '' err)))
          | Inr oid # rest \<Rightarrow>
              submit_locked e now (req_metadata req) name key scope payload oid rest))"

definition Get :: "memoryExecutor \<Rightarrow> goerr option \<Rightarrow> string \<Rightarrow> operation result" where
  "Get e ctx_err oid = (case ctx_err of Some err \<Rightarrow> Inl err | None \<Rightarrow>
     (case lookup_op e oid of None \<Rightarrow> Inl (Sentinel ErrOperationNotFound)
      | Some r \<Rightarrow> Inr (snapshot r)))"

text \<open>\<open>Wait\<close> up to its \<open>select\<close>: \<open>None\<close> means that it blocks on the record's \<open>done\<close> channel.\<close>

definition Wait_begin :: "memoryExecutor \<Rightarrow> string \<Rightarrow> operation result option" where
  "Wait_begin e oid = (case lookup_op e oid of
     None \<Rightarrow> Some (Inl (Sentinel ErrOperationNotFound))
   | Some r \<Rightarrow> if Terminal (opn_status (rec_op r)) then Some (Inr (snapshot r)) else None)"

text \<open>\<open>Wait\<close> after the channel closed; the code returns a nil operation for a missing record.\<close>

definition Wait_done :: "memoryExecutor \<Rightarrow> string \<Rightarrow> operation option" where
  "Wait_done e oid = map_option snapshot (lookup_op e oid)"

definition Metrics :: "memoryExecutor \<Rightarrow> goerr option \<Rightarrow> async_metrics result" where
  "Metrics e ctx_err = (case ctx_err of Some err \<Rightarrow> Inl err
     | None \<Rightarrow> Inr ((metrics e)\<lparr>QueueDepth := int (length (queue e))\<rparr>))"

definition Ready :: "memoryExecutor \<Rightarrow> goerr option \<Rightarrow> goerr option" where
  "Ready e ctx_err = (case ctx_err of Some err \<Rightarrow> Some err
     | None \<Rightarrow> if state e \<noteq> ExecRunning then Some (Sentinel ErrAsyncUnavailable) else None)"

definition Cancel :: "int \<Rightarrow> memoryExecutor \<Rightarrow> goerr option \<Rightarrow> string \<Rightarrow> memoryExecutor \<times> goerr option" where
  "Cancel now e ctx_err oid = (case ctx_err of Some err \<Rightarrow> (e, Some err) | None \<Rightarrow>
    (case lookup_op e oid of
       None \<Rightarrow> (e, Some (Sentinel ErrOperationNotFound))
     | Some r \<Rightarrow>
         if Terminal (opn_status (rec_op r)) then (e, None)
         else (e\<lparr>operations := alist_upd oid (cancel_record now) (operations e),
                 metrics := (metrics e)\<lparr>CancelledTotal := CancelledTotal (metrics e) + 1\<rparr>,
                 jobCancels := jobCancels e @ (if rec_cancel r then [oid] else [])\<rparr>, None)))"

section \<open>Workers\<close>

text \<open>A worker receives from the channel; it ends when the channel is closed and empty.\<close>

definition worker_take :: "memoryExecutor \<Rightarrow> memoryExecutor option" where
  "worker_take e = (case queue e of
     [] \<Rightarrow> None
   | oid # q \<Rightarrow> if 0 < idle e then Some (e\<lparr>queue := q, taken := taken e @ [oid], idle := idle e - 1\<rparr>)
       else None)"

definition worker_exit :: "memoryExecutor \<Rightarrow> memoryExecutor option" where
  "worker_exit e = (if queue e = [] \<and> queue_closed e \<and> 0 < idle e
     then Some (e\<lparr>idle := idle e - 1, exited := exited e + 1\<rparr>) else None)"

text \<open>The goroutine behind \<open>workerGroup.Wait\<close>.\<close>

definition workers_finished :: "memoryExecutor \<Rightarrow> memoryExecutor option" where
  "workers_finished e =
    (if state e \<noteq> ExecCreated \<and> exited e = nat (cfg_workers (config e)) \<and> \<not> workersDone e
     then Some (signalDone (e\<lparr>workCancelled := True, workersDone := True\<rparr>)) else None)"

definition start_record :: "int \<Rightarrow> operationRecord \<Rightarrow> operationRecord" where
  "start_record now r =
     r\<lparr>rec_cancel := True,
       rec_op := (rec_op r)\<lparr>opn_status := Running, opn_started := Some now, opn_attempt := 1\<rparr>,
       rec_executing := True\<rparr>"

definition start_metrics :: "int \<Rightarrow> operationRecord \<Rightarrow> async_metrics \<Rightarrow> async_metrics" where
  "start_metrics now r m =
     m\<lparr>RunningNow := RunningNow m + 1,
       QueueWaitSecondsTotal := QueueWaitSecondsTotal m + seconds (now - opn_created (rec_op r)),
       QueueWaitCount := QueueWaitCount m + 1\<rparr>"

text \<open>\<open>run\<close> up to the call of the handler, for an identifier a worker has received.\<close>

definition run_start :: "int \<Rightarrow> memoryExecutor \<Rightarrow> string \<Rightarrow> memoryExecutor" where
  "run_start now e oid =
    (let e = e\<lparr>taken := filter (\<lambda>x. x \<noteq> oid) (taken e)\<rparr>
     in case lookup_op e oid of
          None \<Rightarrow> e\<lparr>idle := idle e + 1\<rparr>
        | Some r \<Rightarrow>
            if opn_status (rec_op r) \<noteq> Pending then e\<lparr>idle := idle e + 1\<rparr>
            else e\<lparr>operations := alist_upd oid (start_record now) (operations e),
                   metrics := start_metrics now r (metrics e)\<rparr>)"

datatype 'r handler_return = HandlerReturn "'r" "goerr option" | HandlerPanic string

definition callHandler :: "'r handler_return \<Rightarrow> 'r option \<times> goerr option" where
  "callHandler h = (case h of HandlerReturn r err \<Rightarrow> (Some r, err)
     | HandlerPanic v \<Rightarrow> (None, Some (Opaque (''panic: '' @ v))))"

text \<open>
  \<open>run\<close> between the handler and \<open>finish\<close>: the encoded result and the operation error. \<open>marshal\<close>
  encodes the result (a nil result after a panic is \<open>None\<close>, and is never encoded).
\<close>

definition run_outcome ::
  "('r option \<Rightarrow> string result) \<Rightarrow> 'r handler_return \<Rightarrow> goerr option \<Rightarrow> string \<times> goerr option" where
  "run_outcome marshal h contextErr =
    (let (res, err) = callHandler h;
         err = (if err = None \<and> contextErr \<noteq> None then contextErr else err)
     in if err = None then
          (case marshal res of
             Inl e \<Rightarrow> ([], Some (Wrapf ''encode operation result: '' e))
           | Inr encoded \<Rightarrow> (encoded, None))
        else ([], err))"

definition public_error :: "goerr \<Rightarrow> goerr option \<Rightarrow> op_error" where
  "public_error operationErr contextErr =
    (if (case contextErr of None \<Rightarrow> False | Some c \<Rightarrow> errors_Is c ContextDeadlineExceeded) then
       \<lparr>op_code = ''operation_timeout'', op_message = ''The operation timed out''\<rparr>
     else case as_op operationErr of
         Some (Some p) \<Rightarrow>
           \<lparr>op_code = or_default (op_code p) ''operation_failed'',
            op_message = or_default (op_message p) ''The operation could not be completed''\<rparr>
       | _ \<Rightarrow> \<lparr>op_code = ''operation_failed'',
               op_message = ''The operation could not be completed''\<rparr>)"

definition finish_record ::
  "int \<Rightarrow> string \<Rightarrow> goerr option \<Rightarrow> goerr option \<Rightarrow> operationRecord \<Rightarrow> operationRecord" where
  "finish_record now res operationErr contextErr r =
    (let r = r\<lparr>rec_executing := False\<rparr>; op = rec_op r
     in if Terminal (opn_status op) then r
        else case operationErr of
            None \<Rightarrow> r\<lparr>rec_op := op\<lparr>opn_finished := Some now, opn_status := Succeeded,
                        opn_progress := 100\<rparr>, rec_result := res, rec_done := True\<rparr>
          | Some err \<Rightarrow> r\<lparr>rec_op := op\<lparr>opn_finished := Some now, opn_status := Failed,
                        opn_error := Some (public_error err contextErr)\<rparr>, rec_done := True\<rparr>)"

definition finish_metrics ::
  "int \<Rightarrow> goerr option \<Rightarrow> operationRecord \<Rightarrow> async_metrics \<Rightarrow> async_metrics" where
  "finish_metrics now operationErr r m =
    (let m = (if rec_executing r then
                (case opn_started (rec_op r) of
                   None \<Rightarrow> m\<lparr>RunningNow := RunningNow m - 1\<rparr>
                 | Some s \<Rightarrow> m\<lparr>RunningNow := RunningNow m - 1,
                     DurationSecondsTotal := DurationSecondsTotal m + seconds (now - s),
                     DurationCount := DurationCount m + 1\<rparr>)
              else m)
     in if Terminal (opn_status (rec_op r)) then m
        else case operationErr of
            None \<Rightarrow> m\<lparr>CompletedTotal := CompletedTotal m + 1\<rparr>
          | Some _ \<Rightarrow> m\<lparr>FailedTotal := FailedTotal m + 1\<rparr>)"

text \<open>\<open>finish\<close>; its worker goes back to the channel.\<close>

definition finish ::
  "int \<Rightarrow> memoryExecutor \<Rightarrow> string \<Rightarrow> string \<Rightarrow> goerr option \<Rightarrow> goerr option \<Rightarrow> memoryExecutor" where
  "finish now e oid res operationErr contextErr =
    (case lookup_op e oid of
       None \<Rightarrow> e\<lparr>idle := idle e + 1\<rparr>
     | Some r \<Rightarrow>
         e\<lparr>operations := alist_upd oid (finish_record now res operationErr contextErr) (operations e),
           metrics := finish_metrics now operationErr r (metrics e),
           idle := idle e + 1\<rparr>)"

definition reportProgress ::
  "memoryExecutor \<Rightarrow> goerr option \<Rightarrow> string \<Rightarrow> int \<Rightarrow> memoryExecutor \<times> goerr option" where
  "reportProgress e ctx_err oid progress =
    (if progress < 0 \<or> progress > 100 then
       (e, Some (Wrapf ''progress must be between 0 and 100'' (Sentinel ErrInvalidOperation)))
     else case ctx_err of Some err \<Rightarrow> (e, Some err) | None \<Rightarrow>
       (case lookup_op e oid of
          None \<Rightarrow> (e, Some (Sentinel ErrOperationNotFound))
        | Some r \<Rightarrow>
            if opn_status (rec_op r) \<noteq> Running then (e, Some (Sentinel ErrOperationFinished))
            else (e\<lparr>operations := alist_upd oid
                     (\<lambda>r. r\<lparr>rec_op := (rec_op r)\<lparr>opn_progress := progress\<rparr>\<rparr>) (operations e)\<rparr>,
                  None)))"

section \<open>Steps\<close>

text \<open>
  Any interleaving of the critical sections. A handler runs between \<open>run_start\<close> and \<open>finish\<close>; it
  is the environment that chooses its outcome and the moment it returns.
\<close>

inductive mem_step :: "memoryExecutor \<Rightarrow> memoryExecutor \<Rightarrow> bool" where
  handle: "Handle name present e = Return e' \<Longrightarrow> mem_step e e'"
| start: "mem_step e (fst (Start e))"
| stop: "mem_step e (stopAccepting e)"
| shutdown_begin: "mem_step e (fst (Shutdown_begin e))"
| shutdown_drained: "workersDone e \<Longrightarrow> mem_step e (Shutdown_drained e)"
| cancel_unfinished: "state e \<noteq> ExecCreated \<Longrightarrow> state e \<noteq> ExecRunning \<Longrightarrow>
    mem_step e (cancelUnfinished now e)"
| shutdown_expired: "state e \<noteq> ExecCreated \<Longrightarrow> state e \<noteq> ExecRunning \<Longrightarrow>
    mem_step e (Shutdown_expired e)"
| submit: "submit_locked e now md name key scope payload oid ids = Some (Return (e', r)) \<Longrightarrow>
    mem_step e e'"
| cancel: "mem_step e (fst (Cancel now e ctx oid))"
| take: "worker_take e = Some e' \<Longrightarrow> mem_step e e'"
| exit: "worker_exit e = Some e' \<Longrightarrow> mem_step e e'"
| finished: "workers_finished e = Some e' \<Longrightarrow> mem_step e e'"
| run: "oid \<in> set (taken e) \<Longrightarrow> mem_step e (run_start now e oid)"
| finish: "lookup_op e oid = Some r \<Longrightarrow> rec_executing r \<Longrightarrow>
    mem_step e (finish now e oid res operationErr contextErr)"
| progress: "mem_step e (fst (reportProgress e ctx oid p))"

inductive mem_reachable :: "memoryExecutor \<Rightarrow> bool" where
  initial: "NewMemoryExecutor opts = Return e \<Longrightarrow> mem_reachable e"
| step: "mem_reachable e \<Longrightarrow> mem_step e e' \<Longrightarrow> mem_reachable e'"


section \<open>Invariant\<close>

definition record_ok :: "string \<Rightarrow> operationRecord \<Rightarrow> bool" where
  "record_ok oid r \<longleftrightarrow>
    (let op = rec_op r in
      opn_id op = oid \<and>
      rec_done r = Terminal (opn_status op) \<and>
      (opn_finished op \<noteq> None) = Terminal (opn_status op) \<and>
      0 \<le> opn_progress op \<and> opn_progress op \<le> 100 \<and>
      opn_status op \<noteq> Retrying \<and>
      (opn_status op = Pending \<longrightarrow> \<not> rec_executing r \<and> \<not> rec_cancel r \<and> opn_attempt op = 0) \<and>
      (opn_status op = Running \<longrightarrow> rec_executing r \<and> rec_cancel r) \<and>
      (rec_executing r \<longrightarrow> opn_started op \<noteq> None \<and> opn_status op \<in> {Running, Cancelled}) \<and>
      (opn_status op = Succeeded \<longrightarrow> opn_progress op = 100 \<and> opn_error op = None) \<and>
      (opn_status op = Failed \<longleftrightarrow> opn_error op \<noteq> None) \<and>
      (\<forall>err. opn_error op = Some err \<longrightarrow> op_code err \<noteq> [] \<and> op_message err \<noteq> []) \<and>
      (opn_attempt op = 0 \<or> opn_attempt op = 1) \<and> opn_max_attempts op = 1)"

definition inv_records :: "memoryExecutor \<Rightarrow> bool" where
  "inv_records e \<longleftrightarrow> distinct (keys (operations e)) \<and>
     (\<forall>oid r. lookup_op e oid = Some r \<longrightarrow> record_ok oid r)"

definition inv_queue :: "memoryExecutor \<Rightarrow> bool" where
  "inv_queue e \<longleftrightarrow> distinct (queue e @ taken e) \<and>
     (\<forall>oid \<in> set (queue e @ taken e). lookup_op e oid \<noteq> None) \<and>
     (\<forall>oid r. lookup_op e oid = Some r \<longrightarrow>
        (opn_status (rec_op r) = Pending \<longrightarrow> oid \<in> set (queue e @ taken e)) \<and>
        (rec_executing r \<longrightarrow> oid \<notin> set (queue e @ taken e))) \<and>
     int (length (queue e)) \<le> cfg_queue_size (config e)"

definition inv_workers :: "memoryExecutor \<Rightarrow> bool" where
  "inv_workers e \<longleftrightarrow> 1 \<le> cfg_workers (config e) \<and> 1 \<le> cfg_queue_size (config e) \<and>
     (if state e = ExecCreated then operations e = [] \<and> queue e = [] \<and> taken e = [] \<and> idle e = 0 \<and>
        exited e = 0 \<and> idempotency e = []
      else idle e + length (taken e) + count_val rec_executing (operations e) + exited e =
        nat (cfg_workers (config e))) \<and>
     (0 < exited e \<longrightarrow> queue_closed e \<and> queue e = []) \<and>
     (workersDone e \<longrightarrow> exited e = nat (cfg_workers (config e))) \<and>
     queue_closed e = (state e = ExecStopping \<or> state e = ExecStopped) \<and>
     doneSignals e \<le> 1 \<and>
     RunningNow (metrics e) = int (count_val rec_executing (operations e))"

definition inv_totals :: "memoryExecutor \<Rightarrow> bool" where
  "inv_totals e \<longleftrightarrow>
     SubmittedTotal (metrics e) = CompletedTotal (metrics e) + FailedTotal (metrics e) +
       CancelledTotal (metrics e) + of_nat (count_val live_record (operations e))"

definition inv_idempotency :: "memoryExecutor \<Rightarrow> bool" where
  "inv_idempotency e \<longleftrightarrow>
     (\<forall>k oid. map_of (idempotency e) k = Some oid \<longrightarrow> lookup_op e oid \<noteq> None) \<and>
     map_of (idempotency e) [] = None"

definition mem_inv :: "memoryExecutor \<Rightarrow> bool" where
  "mem_inv e \<longleftrightarrow> inv_records e \<and> inv_queue e \<and> inv_workers e \<and> inv_totals e \<and> inv_idempotency e"

lemmas mem_inv_defs =
  mem_inv_def inv_records_def inv_queue_def inv_workers_def inv_totals_def inv_idempotency_def

subsection \<open>Records\<close>

lemma record_ok_new: "record_ok oid (new_record oid name now md payload)"
  by (simp add: record_ok_def new_record_def)

lemma live_new [simp]: "live_record (new_record oid name now md payload)"
  by (simp add: live_record_def new_record_def)

lemma new_record_fields [simp]:
  "rec_executing (new_record oid name now md payload) = False"
  "opn_status (rec_op (new_record oid name now md payload)) = Pending"
  by (simp_all add: new_record_def)

lemma record_ok_cancel: "record_ok oid r \<Longrightarrow> record_ok oid (cancel_record now r)"
  by (auto simp: record_ok_def cancel_record_def Let_def)

lemma cancel_record_fields [simp]:
  "rec_executing (cancel_record now r) = rec_executing r"
  "live_record (cancel_record now r) = False"
  "opn_status (rec_op (cancel_record now r)) = Pending \<longleftrightarrow> False"
  by (auto simp: cancel_record_def live_record_def)

lemma record_ok_start:
  "record_ok oid r \<Longrightarrow> opn_status (rec_op r) = Pending \<Longrightarrow> record_ok oid (start_record now r)"
  by (auto simp: record_ok_def start_record_def Let_def)

lemma start_record_fields [simp]:
  "rec_executing (start_record now r)" "live_record (start_record now r)"
  "opn_status (rec_op (start_record now r)) = Running"
  by (simp_all add: start_record_def live_record_def)

lemma public_error_not_Nil [simp]:
  "op_code (public_error err c) \<noteq> []" "op_message (public_error err c) \<noteq> []"
  by (auto simp: public_error_def split: option.splits)

lemma record_ok_finish:
  "record_ok oid r \<Longrightarrow> rec_executing r \<Longrightarrow> record_ok oid (finish_record now res err c r)"
  by (auto simp: record_ok_def finish_record_def Let_def split: option.splits)

lemma finish_record_fields [simp]:
  "rec_executing (finish_record now res err c r) = False"
  "live_record (finish_record now res err c r) = False"
  by (auto simp: finish_record_def live_record_def Let_def split: option.splits)

lemma finish_record_not_Pending [simp]:
  "opn_status (rec_op (finish_record now res err c r)) \<noteq> Pending"
  by (auto simp: finish_record_def Let_def split: option.splits)

lemma record_ok_progress:
  "record_ok oid r \<Longrightarrow> opn_status (rec_op r) = Running \<Longrightarrow> 0 \<le> p \<Longrightarrow> p \<le> 100 \<Longrightarrow>
   record_ok oid (r\<lparr>rec_op := (rec_op r)\<lparr>opn_progress := p\<rparr>\<rparr>)"
  by (auto simp: record_ok_def Let_def)

lemma live_iff: "live_record r \<longleftrightarrow> \<not> Terminal (opn_status (rec_op r))"
  by (simp add: live_record_def)

end
