(* ===== verification/AsyncHttp.thy ===== *)
theory AsyncHttp
  imports Operation Url
begin

text \<open>
  The HTTP side of asynchronous work, \<open>async.go\<close>: the \<open>Prefer\<close> header (RFC 7240), waiting for an
  operation, the accepted response, and the status and cancellation handlers, which talk to an
  executor through the interface \<open>AsyncExecutor\<close>. That interface is the locale
  \<open>async_executor\<close>; both executors of the repository interpret it.
\<close>

section \<open>The Prefer header\<close>

text \<open>
  The scan of \<open>splitPrefer\<close>: \<open>part\<close> is the text since the last separator. A backslash is kept and
  never separates; it escapes the next byte only inside quotes.
\<close>

definition prefer_part :: "string \<Rightarrow> string list" where
  "prefer_part part = (if trim_space part = [] then [] else [trim_space part])"

fun split_scan :: "char \<Rightarrow> bool \<Rightarrow> bool \<Rightarrow> string \<Rightarrow> string \<Rightarrow> string list" where
  "split_scan sep quoted escaped part [] = prefer_part part"
| "split_scan sep quoted escaped part (c # cs) =
    (if c = CHR 0x5C then split_scan sep quoted (quoted \<and> \<not> escaped) (part @ [c]) cs
     else
       let quoted' = (if c = CHR 0x22 \<and> \<not> escaped then \<not> quoted else quoted)
       in if quoted' \<or> c \<noteq> sep then split_scan sep quoted' False (part @ [c]) cs
          else prefer_part part @ split_scan sep quoted' False [] cs)"

definition splitPrefer :: "string \<Rightarrow> char \<Rightarrow> string list" where
  "splitPrefer value sep = split_scan sep False False [] value"

text \<open>
  \<open>strconv.Unquote\<close> of a double-quoted literal. Bytes above 127 are kept as they are; the number
  that is read next refuses them either way.
\<close>

definition hex_number :: "string \<Rightarrow> nat option" where
  "hex_number s = fold (\<lambda>c acc. case (acc, hex_value c) of (Some a, Some v) \<Rightarrow> Some (a * 16 + v) | _ \<Rightarrow> None)
     s (Some 0)"

definition utf8 :: "nat \<Rightarrow> string option" where
  "utf8 n = (if n < 0x80 then Some [char_of n]
     else if n < 0x800 then Some [char_of (0xC0 + n div 0x40), char_of (0x80 + n mod 0x40)]
     else if 0xD800 \<le> n \<and> n < 0xE000 \<or> 0x10FFFF < n then None
     else if n < 0x10000 then
       Some [char_of (0xE0 + n div 0x1000), char_of (0x80 + n div 0x40 mod 0x40), char_of (0x80 + n mod 0x40)]
     else Some [char_of (0xF0 + n div 0x40000), char_of (0x80 + n div 0x1000 mod 0x40),
       char_of (0x80 + n div 0x40 mod 0x40), char_of (0x80 + n mod 0x40)])"

definition octal_value :: "char \<Rightarrow> nat option" where
  "octal_value c = (let n = of_char c :: nat in if 48 \<le> n \<and> n \<le> 55 then Some (n - 48) else None)"

definition simple_escape :: "char \<Rightarrow> char option" where
  "simple_escape c = map_of [(CHR ''a'', CHR 0x07), (CHR ''b'', CHR 0x08), (CHR ''f'', CHR 0x0C),
     (CHR ''n'', CHR 0x0A), (CHR ''r'', CHR 0x0D), (CHR ''t'', CHR 0x09), (CHR ''v'', CHR 0x0B),
     (CHR 0x5C, CHR 0x5C), (CHR 0x22, CHR 0x22)] c"

text \<open>One escape after its backslash: the bytes it stands for and the rest.\<close>

definition read_escape :: "string \<Rightarrow> (string \<times> string) option" where
  "read_escape s = (case s of [] \<Rightarrow> None
     | c # s' \<Rightarrow>
         (case simple_escape c of Some b \<Rightarrow> Some ([b], s')
          | None \<Rightarrow>
            if c = CHR ''x'' then
              (if length s' < 2 then None
               else map_option (\<lambda>n. ([char_of n], drop 2 s')) (hex_number (take 2 s')))
            else if c = CHR ''u'' then
              (if length s' < 4 then None
               else Option.bind (hex_number (take 4 s')) (\<lambda>n. map_option (\<lambda>b. (b, drop 4 s')) (utf8 n)))
            else if c = CHR ''U'' then
              (if length s' < 8 then None
               else Option.bind (hex_number (take 8 s')) (\<lambda>n. map_option (\<lambda>b. (b, drop 8 s')) (utf8 n)))
            else case (octal_value c, s') of
                (Some a, d # e # s'') \<Rightarrow>
                  (case (octal_value d, octal_value e) of
                     (Some b, Some v) \<Rightarrow> if a * 64 + b * 8 + v > 255 then None
                       else Some ([char_of (a * 64 + b * 8 + v)], s'')
                   | _ \<Rightarrow> None)
              | _ \<Rightarrow> None))"

lemma read_escape_shorter: "read_escape s = Some (b, s') \<Longrightarrow> length s' < length s"
  by (auto simp: read_escape_def bind_eq_Some_conv split: list.splits option.splits if_splits)

text \<open>The body after the opening quote; the closing quote must be the last byte.\<close>

function unquote_body :: "string \<Rightarrow> string option" where
  "unquote_body s = (case s of
       [] \<Rightarrow> None
     | c # s' \<Rightarrow>
         if c = CHR 0x22 then (if s' = [] then Some [] else None)
         else if c = CHR 0x0A then None
         else if c = CHR 0x5C then
           (case read_escape s' of None \<Rightarrow> None
            | Some (b, rest) \<Rightarrow> map_option ((@) b) (unquote_body rest))
         else map_option ((#) c) (unquote_body s'))"
  by pat_completeness auto
termination
  by (relation "measure length") (auto dest: read_escape_shorter)

declare unquote_body.simps [simp del]

definition unquote :: "string \<Rightarrow> string option" where
  "unquote s = (case s of [] \<Rightarrow> None | c # s' \<Rightarrow> if c = CHR 0x22 then unquote_body s' else None)"

text \<open>\<open>(1<<63 - 1) / int64(time.Second)\<close>\<close>

definition wait_limit :: nat where
  "wait_limit = (2 ^ 63 - 1) div 1000000000"

definition wait_error :: "string \<Rightarrow> goerr" where
  "wait_error text = Wrapf text (Sentinel ErrInvalidPreference)"

definition parse_uint63 :: "string \<Rightarrow> nat option" where
  "parse_uint63 s = (case read_nat s of None \<Rightarrow> None | Some n \<Rightarrow> if n < 2 ^ 63 then Some n else None)"

definition parseWaitSeconds :: "string \<Rightarrow> nat result" where
  "parseWaitSeconds value =
    (case (if has_prefix value [CHR 0x22] then unquote value else Some value) of
       None \<Rightarrow> Inl (wait_error ''malformed wait value'')
     | Some v \<Rightarrow>
         (case parse_uint63 v of
            None \<Rightarrow> Inl (wait_error ''wait must be non-negative seconds'')
          | Some secs \<Rightarrow>
              if secs > wait_limit then Inl (wait_error ''wait must be non-negative seconds'')
              else Inr secs))"

record AsyncPreference =
  RespondAsync :: bool
  WaitFor :: int
  WaitSpecified :: bool

definition no_preference :: AsyncPreference where
  "no_preference = \<lparr>RespondAsync = False, WaitFor = 0, WaitSpecified = False\<rparr>"

definition setPreferWait :: "AsyncPreference \<Rightarrow> string \<Rightarrow> bool \<Rightarrow> AsyncPreference \<times> goerr option" where
  "setPreferWait p value hasValue =
    (if \<not> hasValue then (p, Some (wait_error ''wait requires seconds''))
     else case parseWaitSeconds (trim_space value) of
         Inl err \<Rightarrow> (p, Some err)
       | Inr secs \<Rightarrow> (p\<lparr>WaitFor := int secs * 1000000000, WaitSpecified := True\<rparr>, None))"

text \<open>The parameters of \<open>respond-async\<close>, then the preferences; both stop at the first error.\<close>

fun prefer_parameters :: "string list \<Rightarrow> AsyncPreference \<Rightarrow> AsyncPreference \<times> goerr option" where
  "prefer_parameters [] p = (p, None)"
| "prefer_parameters (x # xs) p =
    (let (name, value, hasValue) = cut (trim_space x) (CHR ''='')
     in if equal_fold (trim_space name) ''wait'' then
          (case setPreferWait p value hasValue of
             (p', Some err) \<Rightarrow> (p', Some err)
           | (p', None) \<Rightarrow> prefer_parameters xs p')
        else prefer_parameters xs p)"

definition prefer_one :: "string list \<Rightarrow> AsyncPreference \<Rightarrow> AsyncPreference \<times> goerr option" where
  "prefer_one parts p = (case parts of [] \<Rightarrow> (p, None)
     | first # params \<Rightarrow>
         let (name, value, hasValue) = cut (trim_space first) (CHR ''='')
         in if equal_fold (trim_space name) ''respond-async'' \<and> \<not> hasValue then
              prefer_parameters params (p\<lparr>RespondAsync := True\<rparr>)
            else if equal_fold (trim_space name) ''wait'' then setPreferWait p value hasValue
            else (p, None))"

fun prefer_all :: "string list \<Rightarrow> AsyncPreference \<Rightarrow> AsyncPreference \<times> goerr option" where
  "prefer_all [] p = (p, None)"
| "prefer_all (x # xs) p = (case prefer_one (splitPrefer x (CHR '';'')) p of
     (p', Some err) \<Rightarrow> (p', Some err)
   | (p', None) \<Rightarrow> prefer_all xs p')"

definition ParsePrefer :: "string \<Rightarrow> AsyncPreference \<times> goerr option" where
  "ParsePrefer h = prefer_all (splitPrefer h (CHR '','')) no_preference"

definition PrefersRespondAsync :: "string \<Rightarrow> bool" where
  "PrefersRespondAsync h = RespondAsync (fst (ParsePrefer h))"

section \<open>Responses\<close>

text \<open>
  \<open>AcceptedAt\<close>: the headers it sets and the body it renders, an operation with its status URL.
\<close>

definition AcceptedAt ::
  "string \<Rightarrow> operation option \<Rightarrow> string \<Rightarrow> header \<Rightarrow> (header \<times> int \<times> operation \<times> string) result" where
  "AcceptedAt prefer op statusURL h = (case op of
       None \<Rightarrow> Inl (Opaque ''vial: accepted operation and status URL are required'')
     | Some op \<Rightarrow>
         if trim_space statusURL = [] then
           Inl (Opaque ''vial: accepted operation and status URL are required'')
         else
           let h1 = header_set ''Retry-After'' ''2'' (header_set ''Location'' statusURL h);
               h2 = (if PrefersRespondAsync prefer then header_set ''Preference-Applied'' ''respond-async'' h1
                     else h1)
           in Inr (h2, 202, op, statusURL))"

definition Accepted ::
  "string \<Rightarrow> operation option \<Rightarrow> header \<Rightarrow> (header \<times> int \<times> operation \<times> string) result" where
  "Accepted prefer op h = (case op of
       None \<Rightarrow> Inl (Opaque ''vial: accepted operation must have an ID'')
     | Some op \<Rightarrow> if opn_id op = [] then Inl (Opaque ''vial: accepted operation must have an ID'')
         else AcceptedAt prefer (Some op) (''/operations/'' @ path_escape (opn_id op)) h)"

text \<open>
  \<open>Await\<close>. The result of the waiter is given for the duration it is called with (\<open>None\<close> when the
  executor is no waiter); \<open>get\<close> is the later lookup. The last component says whether the response
  announces \<open>Preference-Applied\<close>, and the one before it how long the call may block.
\<close>

record await_result =
  aw_current :: "operation option"
  aw_completed :: bool
  aw_error :: "goerr option"
  aw_blocked :: "int option"
  aw_applied :: bool

definition Await ::
  "string \<Rightarrow> (int \<Rightarrow> string \<Rightarrow> operation result) option \<Rightarrow> (string \<Rightarrow> operation result) \<Rightarrow>
     operation option \<Rightarrow> int \<Rightarrow> await_result" where
  "Await prefer waiter get op maximum = (case op of
       None \<Rightarrow> \<lparr>aw_current = None, aw_completed = False,
         aw_error = Some (Opaque ''vial: operation is required''), aw_blocked = None, aw_applied = False\<rparr>
     | Some op \<Rightarrow>
         let at_once = \<lparr>aw_current = Some op, aw_completed = False, aw_error = None, aw_blocked = None,
               aw_applied = False\<rparr>
         in if Terminal (opn_status op) then at_once\<lparr>aw_completed := True\<rparr>
            else case ParsePrefer prefer of
                (_, Some err) \<Rightarrow> at_once\<lparr>aw_current := None, aw_error := Some err\<rparr>
              | (p, None) \<Rightarrow>
                  if \<not> RespondAsync p \<or> \<not> WaitSpecified p \<or> WaitFor p \<le> 0 \<or> maximum \<le> 0 then at_once
                  else case waiter of None \<Rightarrow> at_once
                    | Some wait \<Rightarrow>
                        let duration = min (WaitFor p) maximum;
                            waited = at_once\<lparr>aw_blocked := Some duration, aw_applied := True\<rparr>
                        in case wait duration (opn_id op) of
                             Inr current \<Rightarrow> waited\<lparr>aw_current := Some current,
                               aw_completed := Terminal (opn_status current)\<rparr>
                           | Inl err \<Rightarrow>
                               if \<not> errors_Is err ContextDeadlineExceeded then
                                 waited\<lparr>aw_current := None, aw_error := Some err\<rparr>
                               else case get (opn_id op) of
                                   Inr current \<Rightarrow> waited\<lparr>aw_current := Some current\<rparr>
                                 | Inl err \<Rightarrow> waited\<lparr>aw_current := None, aw_error := Some err\<rparr>)"

text \<open>The body of \<open>AsyncMetricsHandler\<close>; \<open>fmt\<close> is \<open>strconv.FormatFloat\<close>.\<close>

definition metric_text :: "string \<Rightarrow> string \<Rightarrow> string \<Rightarrow> string" where
  "metric_text name typ value =
     ''# TYPE '' @ name @ '' '' @ typ @ [CHR 0x0A] @ name @ '' '' @ value @ [CHR 0x0A]"

definition metrics_lines :: "(rat \<Rightarrow> string) \<Rightarrow> async_metrics \<Rightarrow> (string \<times> string \<times> string) list" where
  "metrics_lines fmt m =
    [(''vial_async_submitted_total'', ''counter'', show_nat (unat (SubmittedTotal m))),
     (''vial_async_completed_total'', ''counter'', show_nat (unat (CompletedTotal m))),
     (''vial_async_failed_total'', ''counter'', show_nat (unat (FailedTotal m))),
     (''vial_async_cancelled_total'', ''counter'', show_nat (unat (CancelledTotal m))),
     (''vial_async_retried_total'', ''counter'', show_nat (unat (RetriedTotal m))),
     (''vial_async_queue_depth'', ''gauge'', show_int (QueueDepth m)),
     (''vial_async_running'', ''gauge'', show_int (RunningNow m)),
     (''vial_async_duration_seconds_sum'', ''counter'', fmt (DurationSecondsTotal m)),
     (''vial_async_duration_seconds_count'', ''counter'', show_nat (unat (DurationCount m))),
     (''vial_async_queue_wait_seconds_sum'', ''counter'', fmt (QueueWaitSecondsTotal m)),
     (''vial_async_queue_wait_seconds_count'', ''counter'', show_nat (unat (QueueWaitCount m)))]"

definition AsyncMetricsHandler :: "(rat \<Rightarrow> string) \<Rightarrow> bool \<Rightarrow> async_metrics result \<Rightarrow> string result" where
  "AsyncMetricsHandler fmt committed provided =
    (if committed then Inl (Opaque ''vial: response already committed'')
     else case provided of Inl err \<Rightarrow> Inl err
       | Inr m \<Rightarrow> Inr (concat (map (\<lambda>(n, t, v). metric_text n t v) (metrics_lines fmt m)) @ ''# EOF'' @ [CHR 0x0A]))"

section \<open>Handlers over an executor\<close>

text \<open>\<open>OperationStatusHandler\<close>: the operation to render and whether \<open>Retry-After\<close> is set.\<close>

definition OperationStatusHandler ::
  "('s \<Rightarrow> string \<Rightarrow> operation result) \<Rightarrow> (operation \<Rightarrow> goerr option) \<Rightarrow> 's \<Rightarrow> string \<Rightarrow>
     (operation \<times> bool) result" where
  "OperationStatusHandler get authorize s i = (case get s i of Inl err \<Rightarrow> Inl err
     | Inr op \<Rightarrow> (case authorize op of Some err \<Rightarrow> Inl err
         | None \<Rightarrow> Inr (op, \<not> Terminal (opn_status op))))"

definition OperationCancelHandler ::
  "('s \<Rightarrow> string \<Rightarrow> operation result) \<Rightarrow> ('s \<Rightarrow> string \<Rightarrow> 's \<times> goerr option) \<Rightarrow>
     (operation \<Rightarrow> goerr option) \<Rightarrow> 's \<Rightarrow> string \<Rightarrow> 's \<times> goerr option" where
  "OperationCancelHandler get cancel authorize s i = (case get s i of Inl err \<Rightarrow> (s, Some err)
     | Inr op \<Rightarrow> (case authorize op of Some err \<Rightarrow> (s, Some err)
         | None \<Rightarrow> cancel s (opn_id op)))"

section \<open>The executor interface\<close>

text \<open>
  What the handlers rely on, for an executor whose connection works: \<open>inv\<close> is the provider's own
  invariant. Cancelling leaves other operations alone, ends a live operation, never touches a
  finished one, and reports a missing one.
\<close>

locale async_executor =
  fixes get :: "'s \<Rightarrow> string \<Rightarrow> operation result"
    and cancel :: "'s \<Rightarrow> string \<Rightarrow> 's \<times> goerr option"
    and inv :: "'s \<Rightarrow> bool"
  assumes get_id: "inv s \<Longrightarrow> get s i = Inr op \<Longrightarrow> opn_id op = i"
    and get_missing: "inv s \<Longrightarrow> get s i = Inl err \<Longrightarrow> err = Sentinel ErrOperationNotFound"
    and cancel_inv: "inv s \<Longrightarrow> inv (fst (cancel s i))"
    and cancel_live: "inv s \<Longrightarrow> get s i = Inr op \<Longrightarrow> \<not> Terminal (opn_status op) \<Longrightarrow>
      \<exists>s' op'. cancel s i = (s', None) \<and> get s' i = Inr op' \<and> opn_status op' = Cancelled"
    and cancel_finished: "inv s \<Longrightarrow> get s i = Inr op \<Longrightarrow> Terminal (opn_status op) \<Longrightarrow>
      cancel s i = (s, None)"
    and cancel_missing: "inv s \<Longrightarrow> get s i = Inl err \<Longrightarrow>
      cancel s i = (s, Some (Sentinel ErrOperationNotFound))"
    and cancel_frame: "inv s \<Longrightarrow> j \<noteq> i \<Longrightarrow> get (fst (cancel s i)) j = get s j"
begin

text \<open>The handler fails and changes nothing, or leaves the operation finished.\<close>

lemma cancel_handler:
  assumes "inv s"
  shows "case OperationCancelHandler get cancel authorize s i of
      (s', None) \<Rightarrow> inv s' \<and> (\<forall>j. j \<noteq> i \<longrightarrow> get s' j = get s j) \<and>
        (\<exists>op op'. get s i = Inr op \<and> authorize op = None \<and> get s' i = Inr op' \<and>
           Terminal (opn_status op') \<and> (Terminal (opn_status op) \<longrightarrow> s' = s))
    | (s', Some err) \<Rightarrow> s' = s \<and> (get s i = Inl err \<or> (\<exists>op. get s i = Inr op \<and> authorize op = Some err))"
proof (cases "get s i")
  case (Inl err)
  then show ?thesis by (simp add: OperationCancelHandler_def)
next
  case (Inr op)
  show ?thesis
  proof (cases "authorize op")
    case (Some err)
    with Inr show ?thesis by (simp add: OperationCancelHandler_def)
  next
    case None
    have h: "OperationCancelHandler get cancel authorize s i = cancel s i"
      using Inr None get_id [OF assms Inr] by (simp add: OperationCancelHandler_def)
    have fr: "\<forall>j. j \<noteq> i \<longrightarrow> get (fst (cancel s i)) j = get s j"
      using cancel_frame [OF assms] by blast
    show ?thesis
    proof (cases "Terminal (opn_status op)")
      case True
      with cancel_finished [OF assms Inr] Inr None h assms show ?thesis by simp
    next
      case False
      obtain s' op' where "cancel s i = (s', None)" "get s' i = Inr op'" "opn_status op' = Cancelled"
        using cancel_live [OF assms Inr False] by blast
      with cancel_inv [OF assms, of i] Inr None h fr False show ?thesis by simp
    qed
  qed
qed

text \<open>Cancelling twice is cancelling once.\<close>

lemma cancel_idem:
  assumes "inv s" "get s i = Inr op"
  shows "cancel (fst (cancel s i)) i = (fst (cancel s i), None)"
proof (cases "Terminal (opn_status op)")
  case True
  with cancel_finished [OF assms] show ?thesis by simp
next
  case False
  obtain s' op' where s': "cancel s i = (s', None)" "get s' i = Inr op'" "opn_status op' = Cancelled"
    using cancel_live [OF assms False] by blast
  have "inv s'" using cancel_inv [OF assms(1), of i] s' by simp
  with s' cancel_finished [of s' i op'] show ?thesis by simp
qed

end

text \<open>
  An executor that can also wait, \<open>AsyncWaiter\<close>: \<open>wait s i\<close> is the result of a wait that finds
  the state \<open>s\<close> when it looks, \<open>None\<close> when it goes on waiting there.
\<close>

locale async_waiter = async_executor get cancel inv
  for get :: "'s \<Rightarrow> string \<Rightarrow> operation result"
    and cancel :: "'s \<Rightarrow> string \<Rightarrow> 's \<times> goerr option"
    and inv :: "'s \<Rightarrow> bool" +
  fixes wait :: "'s \<Rightarrow> string \<Rightarrow> operation result option"
  assumes wait_some: "inv s \<Longrightarrow> wait s i = Some r \<Longrightarrow> r = get s i"
    and wait_iff: "inv s \<Longrightarrow> wait s i = None \<longleftrightarrow> (\<exists>op. get s i = Inr op \<and> \<not> Terminal (opn_status op))"
begin

text \<open>A successful cancellation releases every waiter of the operation, with its final state.\<close>

lemma cancel_releases:
  assumes "inv s" "get s i = Inr op"
  shows "wait (fst (cancel s i)) i = Some (get (fst (cancel s i)) i)"
proof -
  have inv': "inv (fst (cancel s i))" using assms(1) by (rule cancel_inv)
  have "\<exists>op'. get (fst (cancel s i)) i = Inr op' \<and> Terminal (opn_status op')"
  proof (cases "Terminal (opn_status op)")
    case True
    with cancel_finished [OF assms] assms(2) show ?thesis by simp
  next
    case False
    with cancel_live [OF assms] show ?thesis by fastforce
  qed
  then have "wait (fst (cancel s i)) i \<noteq> None" using wait_iff [OF inv'] by auto
  then obtain r where "wait (fst (cancel s i)) i = Some r" by blast
  with wait_some [OF inv'] show ?thesis by simp
qed

end

section \<open>Properties of the Prefer header\<close>

lemma split_scan_plain:
  "CHR 0x22 \<notin> set s \<Longrightarrow> CHR 0x5C \<notin> set s \<Longrightarrow>
   split_scan sep False escaped part s =
     (case split_byte sep s of [] \<Rightarrow> [] | p # ps \<Rightarrow> prefer_part (part @ p) @ concat (map prefer_part ps))"
proof (induction s arbitrary: escaped part)
  case (Cons c s)
  then show ?case by (auto simp: Let_def split: list.splits)
qed simp

text \<open>
  On a header without quotes and backslashes the scanner of \<open>splitPrefer\<close> is the plain
  separator split: trim every field and drop the empty ones.
\<close>

theorem splitPrefer_plain:
  assumes "CHR 0x22 \<notin> set value" "CHR 0x5C \<notin> set value"
  shows "splitPrefer value sep = filter (\<lambda>p. p \<noteq> []) (map trim_space (split_byte sep value))"
proof -
  have "concat (map prefer_part xs) = filter (\<lambda>p. p \<noteq> []) (map trim_space xs)" for xs
    by (induction xs) (auto simp: prefer_part_def)
  from this [of "split_byte sep value"] show ?thesis
    using split_scan_plain [OF assms, of sep False "[]"]
    by (auto simp: splitPrefer_def split: list.splits)
qed

lemma splitPrefer_plain_witness: "splitPrefer ''a ,b'' (CHR '','') = [''a'', ''b'']"
proof -
  have "filter (\<lambda>p. p \<noteq> []) (map trim_space (split_byte (CHR '','') ''a ,b'')) = [''a'', ''b'']"
    by code_simp
  then show ?thesis using splitPrefer_plain [of "''a ,b''" "CHR '',''"] by simp
qed

text \<open>A well-formed preference: a wait is set only with a number of seconds within the limit.\<close>

definition pref_ok :: "AsyncPreference \<Rightarrow> bool" where
  "pref_ok p \<longleftrightarrow> (\<exists>n \<le> wait_limit. WaitFor p = int n * 1000000000) \<and> (\<not> WaitSpecified p \<longrightarrow> WaitFor p = 0)"

lemma pref_ok_wait: "pref_ok p \<Longrightarrow> pref_ok (fst (setPreferWait p v has))"
  by (auto simp: setPreferWait_def parseWaitSeconds_def pref_ok_def split: option.splits if_splits)

lemma pref_ok_params: "pref_ok p \<Longrightarrow> pref_ok (fst (prefer_parameters xs p))"
proof (induction xs p rule: prefer_parameters.induct)
  case (2 x xs p)
  obtain name v has where c: "cut (trim_space x) (CHR ''='') = (name, v, has)" by (metis prod_cases3)
  obtain p' e where s: "setPreferWait p v has = (p', e)" by fastforce
  have "pref_ok p'" using pref_ok_wait [OF "2.prems", of v has] s by simp
  with 2 c s show ?case by (auto split: option.splits)
qed simp

lemma pref_ok_one: "pref_ok p \<Longrightarrow> pref_ok (fst (prefer_one parts p))"
proof -
  assume p: "pref_ok p"
  then have "pref_ok (p\<lparr>RespondAsync := True\<rparr>)" by (simp add: pref_ok_def)
  with p show ?thesis
    by (auto simp: prefer_one_def pref_ok_params pref_ok_wait Let_def split: list.split prod.split)
qed

lemma pref_ok_all: "pref_ok p \<Longrightarrow> pref_ok (fst (prefer_all xs p))"
proof (induction xs p rule: prefer_all.induct)
  case (2 x xs p)
  obtain p' e where s: "prefer_one (splitPrefer x (CHR '';'')) p = (p', e)" by fastforce
  have "pref_ok p'" using pref_ok_one [OF "2.prems", of "splitPrefer x (CHR '';'')"] s by simp
  with 2 s show ?case by (auto split: option.splits)
qed simp

text \<open>
  A parsed wait never overflows a 64-bit duration: whatever the header, the wait is a whole
  number of seconds between zero and the largest duration, and zero when none was given.
\<close>

theorem ParsePrefer_bounds:
  "(\<exists>n. WaitFor (fst (ParsePrefer h)) = int n * 1000000000) \<and> WaitFor (fst (ParsePrefer h)) < 2 ^ 63 \<and>
   (WaitSpecified (fst (ParsePrefer h)) \<or> WaitFor (fst (ParsePrefer h)) = 0)"
proof -
  have "pref_ok (fst (ParsePrefer h))"
    unfolding ParsePrefer_def by (rule pref_ok_all) (auto simp: pref_ok_def no_preference_def intro: exI [of _ 0])
  moreover have "int n * 1000000000 < 2 ^ 63" if "n \<le> wait_limit" for n
    using that by (simp add: wait_limit_def)
  ultimately show ?thesis by (auto simp: pref_ok_def)
qed

lemma digits_no_sep:
  "\<not> is_digit c \<Longrightarrow> c \<notin> set (show_nat n)"
  using set_show_nat by blast

lemma parseWaitSeconds_show:
  assumes "n \<le> wait_limit"
  shows "parseWaitSeconds (show_nat n) = Inr n"
proof -
  have "\<not> has_prefix (show_nat n) [CHR 0x22]"
    using digits_no_sep [of "CHR 0x22" n]
    by (cases "show_nat n") (auto simp: has_prefix_def is_digit_def)
  moreover have "n < 2 ^ 63" using assms by (simp add: wait_limit_def)
  ultimately show ?thesis using assms by (simp add: parseWaitSeconds_def parse_uint63_def)
qed

lemma ParsePrefer_wait_n:
  assumes "n \<le> wait_limit"
  shows "ParsePrefer (''respond-async; wait='' @ show_nat n) =
    (\<lparr>RespondAsync = True, WaitFor = int n * 1000000000, WaitSpecified = True\<rparr>, None)"
proof -
  let ?w = "''wait='' @ show_nat n" and ?h = "''respond-async; wait='' @ show_nat n"
  have nd: "c \<notin> set (show_nat n)" if "\<not> is_digit c" for c using digits_no_sep [OF that] .
  have last: "visible (last (show_nat n))" by simp
  have th: "trim_space ?h = ?h" using last by (intro trim_space_visible) (simp_all add: visible_def)
  have "split_byte (CHR '','') ?h = [?h]"
    by (rule split_byte_absent) (simp add: nd is_digit_def)
  then have "splitPrefer ?h (CHR '','') = [?h]"
    using th by (subst splitPrefer_plain) (simp_all add: nd is_digit_def)
  moreover have "splitPrefer ?h (CHR '';'') = [''respond-async'', ?w]"
  proof -
    have "split_byte (CHR '';'') ?h = [''respond-async'', CHR '' '' # ?w]"
      using split_byte_absent [of "CHR '';''" "CHR '' '' # ?w"] by (simp add: nd is_digit_def)
    moreover have "trim_space (CHR '' '' # ?w) = ?w" using last by (simp add: visible_def)
    moreover have "trim_space ''respond-async'' = ''respond-async''" by (simp add: visible_def)
    ultimately show ?thesis by (subst splitPrefer_plain) (simp_all add: nd is_digit_def)
  qed
  moreover have "prefer_one [''respond-async'', ?w] no_preference =
      (\<lparr>RespondAsync = True, WaitFor = int n * 1000000000, WaitSpecified = True\<rparr>, None)"
  proof -
    have "cut ?w (CHR ''='') = (''wait'', show_nat n, True)"
      using cut_append [of "CHR ''=''" "''wait''" "show_nat n"] by simp
    moreover have "trim_space ?w = ?w" using last by (intro trim_space_visible) (simp_all add: visible_def)
    moreover have "trim_space (show_nat n) = show_nat n" by simp
    moreover have "equal_fold ''respond-async'' ''respond-async''" "equal_fold ''wait'' ''wait''"
      by (simp_all add: equal_fold_def)
    ultimately show ?thesis
      using parseWaitSeconds_show [OF assms]
      by (simp add: prefer_one_def setPreferWait_def no_preference_def visible_def)
  qed
  ultimately show ?thesis by (simp add: ParsePrefer_def)
qed

definition sample_op :: operation where
  "sample_op = \<lparr>opn_id = ''op1'', opn_name = ''mail'', opn_status = Pending, opn_progress = 0,
     opn_created = 0, opn_started = None, opn_finished = None, opn_result = None, opn_error = None,
     opn_metadata = Map.empty, opn_attempt = 0, opn_max_attempts = 1, opn_next_attempt = None\<rparr>"

lemma ParsePrefer_wait_10: "ParsePrefer (''respond-async; wait='' @ show_nat 10) =
    (\<lparr>RespondAsync = True, WaitFor = 10000000000, WaitSpecified = True\<rparr>, None)"
  using ParsePrefer_wait_n [of 10] by (simp add: wait_limit_def)

text \<open>
  Every wait a client can ask for is read back exactly: the header
  \<open>respond-async; wait=n\<close> yields an asynchronous preference of \<open>n\<close> seconds for every \<open>n\<close> up to the
  limit.
\<close>

theorem ParsePrefer_wait:
  assumes "n \<le> wait_limit"
  shows "ParsePrefer (''respond-async; wait='' @ show_nat n) =
    (\<lparr>RespondAsync = True, WaitFor = int n * 1000000000, WaitSpecified = True\<rparr>, None)"
  using assms by (rule ParsePrefer_wait_n)

lemma ParsePrefer_wait_witness:
  "WaitFor (fst (ParsePrefer (''respond-async; wait='' @ show_nat 10))) = 10000000000"
  using ParsePrefer_wait [of 10] by (simp add: wait_limit_def)

text \<open>
  A request never blocks longer than the server allows: \<open>Await\<close> waits only for a client that
  asked for it, and at most for the shorter of the client's wait and the server's maximum.
\<close>

theorem Await_bounded:
  assumes "aw_blocked (Await prefer waiter get op maximum) = Some d"
  shows "0 < d \<and> d \<le> maximum \<and> d \<le> WaitFor (fst (ParsePrefer prefer)) \<and> PrefersRespondAsync prefer \<and>
    (\<exists>op'. op = Some op' \<and> \<not> Terminal (opn_status op'))"
  using assms
  by (auto simp: Await_def PrefersRespondAsync_def Let_def
      split: option.splits if_splits prod.splits sum.splits)

lemma Await_bounded_witness:
  "aw_blocked (Await (''respond-async; wait='' @ show_nat 10)
      (Some (\<lambda>d i. Inl (Sentinel ContextDeadlineExceeded))) (\<lambda>i. Inl (Sentinel ErrOperationNotFound))
      (Some sample_op) 5000000000) = Some 5000000000 \<and> (5000000000::int) \<le> 10000000000"
proof -
  have p: "ParsePrefer (''respond-async; wait='' @ show_nat 10) =
      (\<lparr>RespondAsync = True, WaitFor = 10000000000, WaitSpecified = True\<rparr>, None)"
    using ParsePrefer_wait_10 .
  have e: "errors_Is (Sentinel ContextDeadlineExceeded) ContextDeadlineExceeded"
    by (simp add: errors_Is_def)
  have "aw_blocked (Await (''respond-async; wait='' @ show_nat 10)
      (Some (\<lambda>d i. Inl (Sentinel ContextDeadlineExceeded))) (\<lambda>i. Inl (Sentinel ErrOperationNotFound))
      (Some sample_op) 5000000000) = Some 5000000000"
    unfolding Await_def p by (simp add: sample_op_def e)
  with Await_bounded [OF this] p show ?thesis by simp
qed

end
