(* ===== verification/MemoryProperties.thy ===== *)
theory MemoryProperties
  imports MemoryExecutor AsyncHttp
begin

text \<open>
  The invariant of \<open>MemoryExecutor\<close> is kept by every critical section (one lemma per step), so it
  holds in every reachable state. The properties at the end follow from it.
\<close>

section \<open>The invariant is kept\<close>

lemma mem_invI:
  "inv_records e \<Longrightarrow> inv_queue e \<Longrightarrow> inv_workers e \<Longrightarrow> inv_totals e \<Longrightarrow> inv_idempotency e \<Longrightarrow> mem_inv e"
  by (simp add: mem_inv_def)

lemma mem_invD:
  assumes "mem_inv e"
  shows "inv_records e" "inv_queue e" "inv_workers e" "inv_totals e" "inv_idempotency e"
  using assms by (simp_all add: mem_inv_def)

lemma upd_counts:
  assumes "inv_records e" "lookup_op e oid = Some r"
  shows "count_val P (alist_upd oid f (operations e)) + (if P r then 1 else 0) =
    count_val P (operations e) + (if P (f r) then 1 else 0)"
  using assms by (intro count_val_upd) (simp_all add: inv_records_def)

lemma inv_lookup_started: "inv_workers e \<Longrightarrow> lookup_op e oid = Some r \<Longrightarrow> state e \<noteq> ExecCreated"
  by (auto simp: inv_workers_def split: if_splits)

text \<open>Replacing one record.\<close>

lemma inv_records_upd:
  assumes "inv_records e" "lookup_op e oid = Some r" "record_ok oid (f r)"
    and "operations e' = alist_upd oid f (operations e)"
  shows "inv_records e'"
  using assms by (auto simp: inv_records_def)

lemma inv_idempotency_upd:
  assumes "inv_idempotency e" "operations e' = alist_upd oid f (operations e)"
    and "idempotency e' = idempotency e"
  shows "inv_idempotency e'"
  using assms by (auto simp: inv_idempotency_def)

lemma inv_queue_upd:
  assumes "inv_queue e" "lookup_op e oid = Some r"
    and "operations e' = alist_upd oid f (operations e)" "queue e' = queue e" "taken e' = taken e"
    and "config e' = config e"
    and "opn_status (rec_op (f r)) = Pending \<Longrightarrow> oid \<in> set (queue e @ taken e)"
    and "rec_executing (f r) \<Longrightarrow> oid \<notin> set (queue e @ taken e)"
  shows "inv_queue e'"
  using assms unfolding inv_queue_def by (auto split: if_splits)

lemma Cancel_inv:
  assumes inv: "mem_inv e"
  shows "mem_inv (fst (Cancel now e ctx oid))"
proof (cases "ctx = None \<and> (\<exists>r. lookup_op e oid = Some r \<and> live_record r)")
  case False
  then have "fst (Cancel now e ctx oid) = e"
    by (auto simp: Cancel_def live_record_def split: option.splits)
  with inv show ?thesis by simp
next
  case True
  then obtain r where r: "lookup_op e oid = Some r" "live_record r" "ctx = None" by auto
  let ?e = "fst (Cancel now e ctx oid)"
  have ops: "operations ?e = alist_upd oid (cancel_record now) (operations e)"
    using r by (simp add: Cancel_def live_record_def)
  have same: "queue ?e = queue e" "taken ?e = taken e" "config ?e = config e"
      "idempotency ?e = idempotency e" "state ?e = state e"  "queue_closed ?e = queue_closed e"
      "idle ?e = idle e" "exited ?e = exited e" "workersDone ?e = workersDone e"
      "doneSignals ?e = doneSignals e"
    using r by (simp_all add: Cancel_def live_record_def)
  have met: "metrics ?e = (metrics e)\<lparr>CancelledTotal := CancelledTotal (metrics e) + 1\<rparr>"
    using r by (simp add: Cancel_def live_record_def)
  note inv' = mem_invD [OF inv]
  note cnt = upd_counts [OF inv'(1) r(1), of _ "cancel_record now"]
  show ?thesis
  proof (rule mem_invI)
    show "inv_records ?e"
      using inv'(1) r(1) _ ops by (rule inv_records_upd) (use inv'(1) r(1) in \<open>auto simp: inv_records_def record_ok_cancel\<close>)
    show "inv_queue ?e"
      using inv'(2) r(1) ops same(1-3) by (rule inv_queue_upd) (use inv'(2) r in \<open>auto simp: inv_queue_def\<close>)
    show "inv_workers ?e"
      using inv'(3) cnt [of rec_executing] inv_lookup_started [OF inv'(3) r(1)]
      by (auto simp: inv_workers_def same ops met split: if_splits)
    show "inv_totals ?e"
      using inv'(4) cnt [of live_record] r(2)
      by (simp add: inv_totals_def ops met flip: of_nat_Suc)
    show "inv_idempotency ?e"
      using inv'(5) ops same(4) by (rule inv_idempotency_upd)
  qed
qed


lemma reportProgress_inv:
  assumes inv: "mem_inv e"
  shows "mem_inv (fst (reportProgress e ctx oid p))"
proof (cases "0 \<le> p \<and> p \<le> 100 \<and> ctx = None \<and> (\<exists>r. lookup_op e oid = Some r \<and> opn_status (rec_op r) = Running)")
  case False
  then have "fst (reportProgress e ctx oid p) = e"
    by (auto simp: reportProgress_def split: option.splits)
  with inv show ?thesis by simp
next
  case True
  then obtain r where r: "lookup_op e oid = Some r" "opn_status (rec_op r) = Running"
    and c: "ctx = None" "0 \<le> p" "p \<le> 100" by auto
  let ?f = "\<lambda>r. r\<lparr>rec_op := (rec_op r)\<lparr>opn_progress := p\<rparr>\<rparr>"
  have eq: "fst (reportProgress e ctx oid p) = e\<lparr>operations := alist_upd oid ?f (operations e)\<rparr>"
    using r c by (simp add: reportProgress_def)
  note inv' = mem_invD [OF inv]
  note cnt = upd_counts [OF inv'(1) r(1), of _ ?f]
  have ok: "record_ok oid r" using inv'(1) r(1) by (simp add: inv_records_def)
  show ?thesis
    unfolding eq
  proof (rule mem_invI)
    let ?e = "e\<lparr>operations := alist_upd oid ?f (operations e)\<rparr>"
    show "inv_records ?e"
      using inv'(1) r(1) by (rule inv_records_upd) (use ok r c in \<open>simp_all add: record_ok_progress\<close>)
    show "inv_queue ?e"
      using inv'(2) r(1) by (rule inv_queue_upd) (use inv'(2) r in \<open>auto simp: inv_queue_def\<close>)
    show "inv_workers ?e"
      using inv'(3) cnt [of rec_executing] inv_lookup_started [OF inv'(3) r(1)]
      by (auto simp: inv_workers_def split: if_splits)
    show "inv_totals ?e"
      using inv'(4) cnt [of live_record]
      by (auto simp: inv_totals_def live_record_def split: if_splits)
    show "inv_idempotency ?e"
      using inv'(5) by (rule inv_idempotency_upd) simp_all
  qed
qed

lemma distinct_length_remove:
  "distinct xs \<Longrightarrow> x \<in> set xs \<Longrightarrow> Suc (length (filter (\<lambda>y. y \<noteq> x) xs)) = length xs"
proof (induction xs)
  case (Cons a xs)
  show ?case
  proof (cases "a = x")
    case True
    with Cons.prems have "filter (\<lambda>y. y \<noteq> x) xs = xs" by (auto simp: filter_id_conv)
    with True show ?thesis by simp
  qed (use Cons in auto)
qed simp

lemma inv_queue_untake:
  assumes "inv_queue e" and "\<forall>r. lookup_op e oid = Some r \<longrightarrow> opn_status (rec_op r) \<noteq> Pending"
  shows "inv_queue (e\<lparr>taken := filter (\<lambda>x. x \<noteq> oid) (taken e), idle := n\<rparr>)"
  using assms by (auto simp: inv_queue_def)

lemma run_start_inv:
  assumes inv: "mem_inv e" and oid: "oid \<in> set (taken e)"
  shows "mem_inv (run_start now e oid)"
proof -
  note inv' = mem_invD [OF inv]
  have "lookup_op e oid \<noteq> None" using inv'(2) oid by (simp add: inv_queue_def)
  then obtain r where r: "lookup_op e oid = Some r" by blast
  have ok: "record_ok oid r" using inv'(1) r(1) by (simp add: inv_records_def)
  have st: "state e \<noteq> ExecCreated" using inv'(3) r by (rule inv_lookup_started)
  have dist: "distinct (taken e)" using inv'(2) by (simp add: inv_queue_def)
  note len = distinct_length_remove [OF dist oid]
  show ?thesis
  proof (cases "opn_status (rec_op r) = Pending")
    case False
    have eq: "run_start now e oid =
        e\<lparr>taken := filter (\<lambda>x. x \<noteq> oid) (taken e), idle := idle e + 1\<rparr>"
      using r False by (simp add: run_start_def)
    show ?thesis unfolding eq
    proof (rule mem_invI)
      let ?e = "e\<lparr>taken := filter (\<lambda>x. x \<noteq> oid) (taken e), idle := idle e + 1\<rparr>"
      show "inv_records ?e" using inv'(1) by (simp add: inv_records_def)
      show "inv_queue ?e" using inv'(2) by (rule inv_queue_untake) (use r False in simp)
      show "inv_workers ?e" using inv'(3) st len by (auto simp: inv_workers_def)
      show "inv_totals ?e" using inv'(4) by (simp add: inv_totals_def)
      show "inv_idempotency ?e" using inv'(5) by (simp add: inv_idempotency_def)
    qed
  next
    case True
    let ?e = "run_start now e oid"
    have ops: "operations ?e = alist_upd oid (start_record now) (operations e)"
      using r True by (simp add: run_start_def)
    have same: "queue ?e = queue e" "taken ?e = filter (\<lambda>x. x \<noteq> oid) (taken e)"
        "config ?e = config e" "idempotency ?e = idempotency e" "state ?e = state e"
        "queue_closed ?e = queue_closed e" "idle ?e = idle e" "exited ?e = exited e"
        "workersDone ?e = workersDone e" "doneSignals ?e = doneSignals e"
        "metrics ?e = start_metrics now r (metrics e)"
      using r True by (simp_all add: run_start_def)
    note cnt = upd_counts [OF inv'(1) r(1), of _ "start_record now"]
    have nexec: "\<not> rec_executing r" using ok True by (simp add: record_ok_def Let_def)
    show ?thesis
    proof (rule mem_invI)
      show "inv_records ?e"
        using inv'(1) r(1) _ ops by (rule inv_records_upd) (use ok True in \<open>simp add: record_ok_start\<close>)
      show "inv_queue ?e"
        using inv'(2) oid r by (auto simp: inv_queue_def same ops)
      show "inv_workers ?e"
        using inv'(3) cnt [of rec_executing] st nexec len
        by (auto simp: inv_workers_def same ops start_metrics_def)
      show "inv_totals ?e"
        using inv'(4) cnt [of live_record] True
        by (auto simp: inv_totals_def ops same start_metrics_def live_record_def)
      show "inv_idempotency ?e"
        using inv'(5) ops same(4) by (rule inv_idempotency_upd)
    qed
  qed
qed

lemma finish_metrics_fields:
  "RunningNow (finish_metrics now err r m) = RunningNow m - (if rec_executing r then 1 else 0)"
  "SubmittedTotal (finish_metrics now err r m) = SubmittedTotal m"
  "CancelledTotal (finish_metrics now err r m) = CancelledTotal m"
  "CompletedTotal (finish_metrics now err r m) + FailedTotal (finish_metrics now err r m) =
     CompletedTotal m + FailedTotal m + (if live_record r then 1 else 0)"
  by (auto simp: finish_metrics_def Let_def live_record_def split: option.splits)

lemma finish_inv:
  assumes inv: "mem_inv e" and r: "lookup_op e oid = Some r" "rec_executing r"
  shows "mem_inv (finish now e oid res err cerr)"
proof -
  note inv' = mem_invD [OF inv]
  let ?e = "finish now e oid res err cerr" and ?f = "finish_record now res err cerr"
  have ok: "record_ok oid r" using inv'(1) r(1) by (simp add: inv_records_def)
  have st: "state e \<noteq> ExecCreated" using inv'(3) r(1) by (rule inv_lookup_started)
  have ops: "operations ?e = alist_upd oid ?f (operations e)" using r by (simp add: finish_def)
  have same: "queue ?e = queue e" "taken ?e = taken e" "config ?e = config e"
      "idempotency ?e = idempotency e" "state ?e = state e" "queue_closed ?e = queue_closed e"
      "idle ?e = idle e + 1" "exited ?e = exited e" "workersDone ?e = workersDone e"
      "doneSignals ?e = doneSignals e" "metrics ?e = finish_metrics now err r (metrics e)"
    using r by (simp_all add: finish_def)
  note cnt = upd_counts [OF inv'(1) r(1), of _ ?f]
  show ?thesis
  proof (rule mem_invI)
    show "inv_records ?e"
      using inv'(1) r(1) _ ops by (rule inv_records_upd) (use ok r in \<open>simp add: record_ok_finish\<close>)
    show "inv_queue ?e"
      using inv'(2) r(1) ops same(1-3) by (rule inv_queue_upd) simp_all
    show "inv_workers ?e"
      using inv'(3) cnt [of rec_executing] st r
      by (auto simp: inv_workers_def same ops finish_metrics_fields)
    show "inv_totals ?e"
      using inv'(4) arg_cong [OF cnt [of live_record], of "of_nat :: nat \<Rightarrow> 64 word"]
      by (auto simp: inv_totals_def ops same finish_metrics_fields add.assoc add.commute split: if_splits)
    show "inv_idempotency ?e"
      using inv'(5) ops same(4) by (rule inv_idempotency_upd)
  qed
qed

lemma take_inv:
  assumes inv: "mem_inv e" and "worker_take e = Some e'"
  shows "mem_inv e'"
proof -
  from assms(2) obtain x q where q: "queue e = x # q" "0 < idle e"
    and e': "e' = e\<lparr>queue := q, taken := taken e @ [x], idle := idle e - 1\<rparr>"
    by (auto simp: worker_take_def split: list.splits if_splits)
  note inv' = mem_invD [OF inv]
  show ?thesis unfolding e'
  proof (rule mem_invI)
    let ?e = "e\<lparr>queue := q, taken := taken e @ [x], idle := idle e - 1\<rparr>"
    show "inv_records ?e" using inv'(1) by (simp add: inv_records_def)
    show "inv_queue ?e" using inv'(2) q by (auto simp: inv_queue_def)
    show "inv_workers ?e" using inv'(3) q by (auto simp: inv_workers_def)
    show "inv_totals ?e" using inv'(4) by (simp add: inv_totals_def)
    show "inv_idempotency ?e" using inv'(5) by (simp add: inv_idempotency_def)
  qed
qed

text \<open>Steps that touch only the lifecycle fields.\<close>

lemma lifecycle_inv:
  assumes inv: "mem_inv e" and "inv_workers e \<Longrightarrow> inv_workers e'"
    and "operations e' = operations e" "queue e' = queue e" "taken e' = taken e"
      "config e' = config e" "metrics e' = metrics e" "idempotency e' = idempotency e"
  shows "mem_inv e'"
  using assms by (simp add: mem_inv_def inv_records_def inv_queue_def inv_totals_def inv_idempotency_def)

lemma exit_inv: "mem_inv e \<Longrightarrow> worker_exit e = Some e' \<Longrightarrow> mem_inv e'"
  by (erule lifecycle_inv)
    (auto simp: worker_exit_def inv_workers_def mem_inv_def split: if_splits)

lemma finished_inv: "mem_inv e \<Longrightarrow> workers_finished e = Some e' \<Longrightarrow> mem_inv e'"
  by (erule lifecycle_inv)
    (auto simp: workers_finished_def signalDone_def inv_workers_def mem_inv_def split: if_splits)

lemma stopAccepting_inv: "mem_inv e \<Longrightarrow> mem_inv (stopAccepting e)"
  by (erule lifecycle_inv) (auto simp: stopAccepting_def inv_workers_def mem_inv_def split: if_splits)

lemma Start_inv: "mem_inv e \<Longrightarrow> mem_inv (fst (Start e))"
  by (erule lifecycle_inv) (auto simp: Start_def inv_workers_def mem_inv_def split: if_splits)

lemma Handle_inv: "mem_inv e \<Longrightarrow> Handle name present e = Return e' \<Longrightarrow> mem_inv e'"
  by (erule lifecycle_inv) (auto simp: Handle_def Let_def inv_workers_def mem_inv_def split: if_splits)

lemma Shutdown_begin_inv: "mem_inv e \<Longrightarrow> mem_inv (fst (Shutdown_begin e))"
  by (auto simp: Shutdown_begin_def stopAccepting_inv)

lemma workersDone_closed:
  assumes "mem_inv e" "workersDone e"
  shows "state e = ExecStopping \<or> state e = ExecStopped"
  using assms by (auto simp: mem_inv_def inv_workers_def split: if_splits)

lemma Shutdown_drained_inv: "mem_inv e \<Longrightarrow> workersDone e \<Longrightarrow> mem_inv (Shutdown_drained e)"
  by (frule (1) workersDone_closed, erule lifecycle_inv)
    (auto simp: Shutdown_drained_def inv_workers_def mem_inv_def split: if_splits)

lemma Shutdown_expired_inv:
  "mem_inv e \<Longrightarrow> state e \<noteq> ExecCreated \<Longrightarrow> state e \<noteq> ExecRunning \<Longrightarrow> mem_inv (Shutdown_expired e)"
  by (erule lifecycle_inv; cases "state e")
    (auto simp: Shutdown_expired_def signalDone_def inv_workers_def mem_inv_def split: if_splits)

lemma cancelUnfinished_inv:
  assumes inv: "mem_inv e" and st: "state e \<noteq> ExecCreated"
  shows "mem_inv (cancelUnfinished now e)"
proof -
  note inv' = mem_invD [OF inv]
  let ?e = "cancelUnfinished now e"
  have ops: "operations ?e = alist_map (cancel_record now) (operations e)"
    by (simp add: cancelUnfinished_def)
  have ex: "count_val rec_executing (operations ?e) = count_val rec_executing (operations e)"
    unfolding ops count_val_map by (rule count_val_cong) simp
  have live: "count_val live_record (operations ?e) = 0"
    unfolding ops count_val_map by (simp add: count_val_def)
  show ?thesis
  proof (rule mem_invI)
    show "inv_records ?e"
      using inv'(1) by (auto simp: inv_records_def ops record_ok_cancel)
    show "inv_queue ?e"
      using inv'(2) by (auto simp: inv_queue_def cancelUnfinished_def)
    show "inv_workers ?e"
      using inv'(3) st ex by (auto simp: inv_workers_def cancelUnfinished_def)
    show "inv_totals ?e"
      using inv'(4) live by (simp add: inv_totals_def cancelUnfinished_def)
    show "inv_idempotency ?e"
      using inv'(5) by (auto simp: inv_idempotency_def cancelUnfinished_def)
  qed
qed

subsection \<open>Submission\<close>

lemma fresh_id_new: "fresh_id e i is = Some (Inr i') \<Longrightarrow> lookup_op e i' = None"
proof (induction "is" arbitrary: i)
  case Nil
  then show ?case by (subst (asm) fresh_id.simps) (auto split: if_splits)
next
  case (Cons x xs)
  then show ?case
    by (subst (asm) fresh_id.simps) (auto split: if_splits sum.splits)
qed

lemma idempotency_key_not_Nil [simp]: "idempotency_key scope name key \<noteq> []"
  by (simp add: idempotency_key_def)

lemma submit_record_full:
  assumes "lookup_op e i = None" "map_of (idempotency e) [] = None"
    "ikey \<noteq> [] \<Longrightarrow> map_of (idempotency e) ikey = None"
    "\<not> queue_closed e" "\<not> int (length (queue e)) < cfg_queue_size (config e)"
  shows "submit_record e ikey i r = Return (e, Inl (Sentinel ErrAsyncQueueFull))"
proof -
  have "alist_del i (alist_put i r (operations e)) = operations e"
    using assms(1) by (simp add: alist_put_def)
  moreover have "alist_del ikey (if ikey \<noteq> [] then alist_put ikey i (idempotency e) else idempotency e) =
      idempotency e"
    using assms(2,3) by (cases "ikey = []") (simp_all add: alist_put_def)
  ultimately show ?thesis
    using assms by (simp add: submit_record_def queue_send_def Let_def)
qed

lemma submit_record_inv:
  assumes inv: "mem_inv e" and new: "lookup_op e i = None" and st: "state e = ExecRunning"
    and q: "int (length (queue e)) < cfg_queue_size (config e)"
    and r: "r = new_record i name now md payload"
    and eq: "submit_record e ikey i r = Return (e', res)"
  shows "mem_inv e'"
proof -
  note inv' = mem_invD [OF inv]
  have open_q: "\<not> queue_closed e" using inv'(3) st by (simp add: inv_workers_def)
  have del: "alist_del i (operations e) = operations e" using new by simp
  have ops: "operations e' = (i, r) # operations e" and qe: "queue e' = queue e @ [i]"
    and same: "taken e' = taken e" "config e' = config e" "state e' = state e"
      "queue_closed e' = queue_closed e" "idle e' = idle e" "exited e' = exited e"
      "workersDone e' = workersDone e" "doneSignals e' = doneSignals e"
    and met: "metrics e' = (metrics e)\<lparr>SubmittedTotal := SubmittedTotal (metrics e) + 1\<rparr>"
    and ide: "idempotency e' = (if ikey \<noteq> [] then alist_put ikey i (idempotency e) else idempotency e)"
    using eq open_q q del by (auto simp: submit_record_def queue_send_def Let_def alist_put_def)
  have fresh_q: "i \<notin> set (queue e @ taken e)" using inv'(2) new unfolding inv_queue_def by fastforce
  show ?thesis
  proof (rule mem_invI)
    show "inv_records e'"
      using inv'(1) new by (auto simp: inv_records_def ops r record_ok_new)
    show "inv_queue e'"
      using inv'(2) fresh_q q by (auto simp: inv_queue_def ops qe same r)
    show "inv_workers e'"
      using inv'(3) st by (auto simp: inv_workers_def ops qe same met r)
    show "inv_totals e'"
      using inv'(4) by (simp add: inv_totals_def ops met r)
    show "inv_idempotency e'"
      using inv'(5) new by (auto simp: inv_idempotency_def ops ide)
  qed
qed

text \<open>
  A submission fails and leaves the state alone, returns the operation its key names, or records
  one new operation.
\<close>

lemma submit_locked_effect [consumes 2, case_names failed existing new]:
  assumes inv: "mem_inv e"
    and eq: "submit_locked e now md name key scope payload i is = Some (Return (e', res))"
  obtains err where "e' = e" "res = Inl err"
  | old r where "e' = e" "key \<noteq> []" "name \<in> set (handlers e)" "res = Inr (snapshot r)"
      "map_of (idempotency e) (idempotency_key scope name key) = Some old" "lookup_op e old = Some r"
  | i' ikey where "ikey = (if key \<noteq> [] then idempotency_key scope name key else [])"
      "name \<in> set (handlers e)"
      "lookup_op e i' = None" "state e = ExecRunning" "map_of (idempotency e) ikey = None"
      "int (length (queue e)) < cfg_queue_size (config e)"
      "submit_record e ikey i' (new_record i' name now md payload) = Return (e', res)"
proof -
  define ikey where "ikey = (if key \<noteq> [] then idempotency_key scope name key else [])"
  note inv' = mem_invD [OF inv]
  show thesis
  proof (cases "state e = ExecRunning \<and> name \<in> set (handlers e)")
    case False
    with eq show thesis by (auto simp: submit_locked_def intro: that(1) split: if_splits)
  next
    case run: True
    show thesis
    proof (cases "if key \<noteq> [] then map_of (idempotency e) ikey else None")
      case (Some old)
      with eq run show thesis
        by (auto simp: submit_locked_def ikey_def intro: that(2) split: if_splits option.splits)
    next
      case None
      with eq run have eq': "(case fresh_id e i is of None \<Rightarrow> None
          | Some (Inl err) \<Rightarrow> Some (Return (e, Inl err))
          | Some (Inr i') \<Rightarrow>
              Some (submit_record e ikey i' (new_record i' name now md payload))) =
          Some (Return (e', res))"
        unfolding ikey_def
        by (cases "key = []") (simp_all only: submit_locked_def Let_def if_True if_False
            simp_thms option.case)
      show thesis
      proof (cases "\<exists>i'. fresh_id e i is = Some (Inr i')")
        case False
        with eq' show thesis by (auto intro: that(1) split: option.splits sum.splits)
      next
        case True
        then obtain i' where i': "fresh_id e i is = Some (Inr i')" by blast
        with eq' have sr: "submit_record e ikey i' (new_record i' name now md payload) = Return (e', res)"
          by simp
        have new: "lookup_op e i' = None" using i' by (rule fresh_id_new)
        have none: "map_of (idempotency e) ikey = None"
          using None inv'(5) ikey_def by (cases "ikey = []") (auto simp: inv_idempotency_def split: if_splits)
        show thesis
        proof (cases "int (length (queue e)) < cfg_queue_size (config e)")
          case True
          show thesis using that(3) ikey_def run new none True sr by blast
        next
          case False
          have "e' = e \<and> res = Inl (Sentinel ErrAsyncQueueFull)"
            using submit_record_full [OF new _ _ _ False, of ikey] sr none run inv'(3,5)
            by (auto simp: inv_workers_def inv_idempotency_def)
          then show thesis using that(1) by blast
        qed
      qed
    qed
  qed
qed

lemma submit_record_sent:
  assumes "mem_inv e" "state e = ExecRunning" "int (length (queue e)) < cfg_queue_size (config e)"
    "submit_record e ikey i r = Return (e', res)"
  shows "res = Inr (snapshot r)" "lookup_op e' i = Some r" "handlers e' = handlers e"
    "ikey \<noteq> [] \<Longrightarrow> map_of (idempotency e') ikey = Some i"
  using assms mem_invD(3) [OF assms(1)]
  by (auto simp: submit_record_def queue_send_def inv_workers_def Let_def)

lemma submit_locked_inv:
  assumes inv: "mem_inv e"
    and eq: "submit_locked e now md name key scope payload i is = Some (Return (e', res))"
  shows "mem_inv e'"
  using inv eq
proof (cases rule: submit_locked_effect)
  case (new i' ikey)
  show ?thesis using inv new(3,4,6) refl new(7) by (rule submit_record_inv)
qed (use inv in simp_all)

lemma apply_options_bounds:
  "apply_options opts c = Return c' \<Longrightarrow> 1 \<le> cfg_workers c \<Longrightarrow> 1 \<le> cfg_queue_size c \<Longrightarrow>
     1 \<le> cfg_workers c' \<and> 1 \<le> cfg_queue_size c'"
proof (induction opts arbitrary: c)
  case (Cons opt opts)
  then show ?case
    by (cases opt) (auto simp: WithWorkers_def WithQueueSize_def WithTaskTimeout_def WithLogger_def
        split: if_splits)
qed simp

lemma New_inv: "NewMemoryExecutor opts = Return e \<Longrightarrow> mem_inv e"
  by (auto simp: NewMemoryExecutor_def mem_inv_defs created_executor_def zero_metrics_def
      default_memoryConfig_def dest!: apply_options_bounds split: outcome.splits)

theorem mem_step_inv: "mem_step e e' \<Longrightarrow> mem_inv e \<Longrightarrow> mem_inv e'"
proof (induction rule: mem_step.induct)
  case (handle name present e e')
  from handle.prems handle.hyps show ?case by (rule Handle_inv)
next
  case (shutdown_drained e)
  from shutdown_drained.prems shutdown_drained.hyps show ?case by (rule Shutdown_drained_inv)
next
  case (cancel_unfinished e now)
  from cancel_unfinished.prems cancel_unfinished.hyps(1) show ?case by (rule cancelUnfinished_inv)
next
  case (shutdown_expired e)
  from shutdown_expired.prems shutdown_expired.hyps show ?case by (rule Shutdown_expired_inv)
next
  case (submit e now md name key scope payload oid ids e' r)
  from submit.prems submit.hyps show ?case by (rule submit_locked_inv)
next
  case (take e e')
  from take.prems take.hyps show ?case by (rule take_inv)
next
  case (exit e e')
  from exit.prems exit.hyps show ?case by (rule exit_inv)
next
  case (finished e e')
  from finished.prems finished.hyps show ?case by (rule finished_inv)
next
  case (run oid e now)
  from run.prems run.hyps show ?case by (rule run_start_inv)
next
  case (finish e oid r now res operationErr contextErr)
  from finish.prems finish.hyps show ?case by (rule finish_inv)
qed (rule Start_inv stopAccepting_inv Shutdown_begin_inv Cancel_inv reportProgress_inv; assumption)+

theorem mem_reachable_inv: "mem_reachable e \<Longrightarrow> mem_inv e"
proof (induction rule: mem_reachable.induct)
  case (initial opts e)
  then show ?case by (rule New_inv)
next
  case (step e e')
  from step.hyps(2) step.IH show ?case by (rule mem_step_inv)
qed

section \<open>What a step never changes\<close>

lemma submit_record_frame:
  assumes "submit_record e ikey i r = Return (e', res)" "lookup_op e i = None"
    "map_of (idempotency e) ikey = None"
  shows "lookup_op e j = Some s \<Longrightarrow> lookup_op e' j = Some s"
    "map_of (idempotency e) k = Some oid \<Longrightarrow> map_of (idempotency e') k = Some oid"
  using assms by (auto simp: submit_record_def Let_def split: chan_send.splits if_splits)

text \<open>The two records show the same finished operation.\<close>

definition same_finished :: "operationRecord \<Rightarrow> operationRecord \<Rightarrow> bool" where
  "same_finished r r' \<longleftrightarrow> rec_op r' = rec_op r \<and> rec_result r' = rec_result r"

lemma same_finished_simps [simp]:
  "same_finished r r"
  "Terminal (opn_status (rec_op r)) \<Longrightarrow> same_finished r (cancel_record now r)"
  "Terminal (opn_status (rec_op r)) \<Longrightarrow> same_finished r (finish_record now res err cerr r)"
  by (simp_all add: same_finished_def cancel_record_def finish_record_def Let_def)

lemma mem_step_terminal:
  assumes "mem_step e e'" "mem_inv e" "lookup_op e oid = Some r" "Terminal (opn_status (rec_op r))"
  shows "\<exists>r'. lookup_op e' oid = Some r' \<and> same_finished r r'"
  using assms
proof (induction rule: mem_step.induct)
  case (submit e now md name key scope payload i ids e' res)
  from submit.prems(1) submit.hyps show ?case
  proof (cases rule: submit_locked_effect)
    case (new i' ikey)
    show ?thesis using submit_record_frame(1) [OF new(7,3,5) submit.prems(2)] by simp
  qed (use submit.prems in simp_all)
qed (auto simp: Handle_def Start_def stopAccepting_def Shutdown_begin_def Shutdown_drained_def
    cancelUnfinished_def Shutdown_expired_def signalDone_def Cancel_def worker_take_def
    worker_exit_def workers_finished_def run_start_def finish_def reportProgress_def Let_def
    split: if_splits option.splits list.splits)

lemma mem_step_idempotency:
  assumes "mem_step e e'" "mem_inv e" "map_of (idempotency e) k = Some oid"
  shows "map_of (idempotency e') k = Some oid"
  using assms
proof (induction rule: mem_step.induct)
  case (submit e now md name key scope payload i ids e' res)
  from submit.prems(1) submit.hyps show ?case
  proof (cases rule: submit_locked_effect)
    case (new i' ikey)
    show ?thesis using submit_record_frame(2) [OF new(7,3,5) submit.prems(2)] .
  qed (use submit.prems in simp_all)
qed (auto simp: Handle_def Start_def stopAccepting_def Shutdown_begin_def Shutdown_drained_def
    cancelUnfinished_def Shutdown_expired_def signalDone_def Cancel_def worker_take_def
    worker_exit_def workers_finished_def run_start_def finish_def reportProgress_def Let_def
    split: if_splits option.splits list.splits)

section \<open>A run on concrete values\<close>

text \<open>A started executor, one submission, the worker that takes it, and its end.\<close>

definition demo_started :: memoryExecutor where
  "demo_started = fst (Start ((created_executor default_memoryConfig)\<lparr>handlers := [''mail'']\<rparr>))"

definition demo_submit :: "memoryExecutor \<Rightarrow> (memoryExecutor \<times> operation result) outcome option" where
  "demo_submit e = submit_locked e 10 Map.empty ''mail'' ''k'' ''u'' ''{}'' ''op1'' []"

definition demo_submitted :: memoryExecutor where
  "demo_submitted = (case demo_submit demo_started of Some (Return (e, r)) \<Rightarrow> e | _ \<Rightarrow> demo_started)"

definition demo_op :: operation where
  "demo_op = snapshot (new_record ''op1'' ''mail'' 10 Map.empty ''{}'')"

definition demo_done :: memoryExecutor where
  "demo_done = finish 30 (run_start 20 (the (worker_take demo_submitted)) ''op1'') ''op1'' ''1'' None None"

lemma demo_submit_eq:
  "demo_submit demo_started = Some (Return (demo_submitted, Inr demo_op))"
  by (simp add: demo_submitted_def demo_submit_def demo_started_def demo_op_def Start_def
      created_executor_def default_memoryConfig_def submit_locked_def idempotency_key_def
      fresh_id.simps submit_record_def queue_send_def Let_def)

lemma trim_mail: "trim_space ''mail'' = ''mail''"
  by code_simp

lemma demo_started_reachable: "mem_reachable demo_started"
proof -
  have "mem_reachable (created_executor default_memoryConfig)"
    by (rule mem_reachable.initial [of "[]"]) (simp add: NewMemoryExecutor_def)
  moreover have "Handle ''mail'' True (created_executor default_memoryConfig) =
      Return ((created_executor default_memoryConfig)\<lparr>handlers := [''mail'']\<rparr>)"
    using trim_mail by (simp add: Handle_def created_executor_def)
  ultimately have "mem_reachable ((created_executor default_memoryConfig)\<lparr>handlers := [''mail'']\<rparr>)"
    by (rule mem_reachable.step [OF _ mem_step.handle])
  then show ?thesis
    unfolding demo_started_def by (rule mem_reachable.step [OF _ mem_step.start])
qed

lemma demo_submitted_step: "mem_step demo_started demo_submitted"
  using demo_submit_eq unfolding demo_submit_def by (rule mem_step.submit)

lemma demo_submitted_reachable: "mem_reachable demo_submitted"
  using demo_started_reachable demo_submitted_step by (rule mem_reachable.step)

lemma demo_submitted_eq:
  "demo_submitted = demo_started\<lparr>
     operations := [(''op1'', new_record ''op1'' ''mail'' 10 Map.empty ''{}'')],
     idempotency := [(idempotency_key ''u'' ''mail'' ''k'', ''op1'')], queue := [''op1''],
     metrics := zero_metrics\<lparr>SubmittedTotal := 1\<rparr>\<rparr>"
  by (simp add: demo_submitted_def demo_submit_def demo_started_def Start_def alist_put_def
      created_executor_def default_memoryConfig_def submit_locked_def idempotency_key_def
      fresh_id.simps submit_record_def queue_send_def Let_def zero_metrics_def)

lemma demo_started_fields [simp]:
  "state demo_started = ExecRunning" "idle demo_started = 8" "handlers demo_started = [''mail'']"
  "taken demo_started = []" "queue demo_started = []" "operations demo_started = []"
  "idempotency demo_started = []" "exited demo_started = 0" "workersDone demo_started = False"
  "queue_closed demo_started = False" "metrics demo_started = zero_metrics"
  "config demo_started = default_memoryConfig"
  by (simp_all add: demo_started_def Start_def created_executor_def default_memoryConfig_def)

lemma demo_done_step: "mem_step\<^sup>*\<^sup>* demo_submitted demo_done"
proof -
  let ?t = "demo_submitted\<lparr>queue := [], taken := [''op1''], idle := 7\<rparr>"
  have t: "worker_take demo_submitted = Some ?t"
    by (simp add: worker_take_def demo_submitted_eq)
  let ?r = "run_start 20 ?t ''op1''"
  have "mem_step demo_submitted ?t" using t by (rule mem_step.take)
  moreover have "mem_step ?t ?r" by (rule mem_step.run) simp
  moreover have "lookup_op ?r ''op1'' =
      Some (start_record 20 (new_record ''op1'' ''mail'' 10 Map.empty ''{}''))"
    by (simp add: run_start_def demo_submitted_eq new_record_def)
  then have "mem_step ?r (finish 30 ?r ''op1'' ''1'' None None)"
    by (rule mem_step.finish) (rule start_record_fields)
  then have "mem_step ?r demo_done" by (simp add: demo_done_def t)
  ultimately show ?thesis by (meson rtranclp.rtrancl_into_rtrancl rtranclp.rtrancl_refl)
qed

lemma mem_steps_reachable: "mem_step\<^sup>*\<^sup>* e e' \<Longrightarrow> mem_reachable e \<Longrightarrow> mem_reachable e'"
  by (induction rule: rtranclp_induct) (auto intro: mem_reachable.step)

lemma demo_done_reachable: "mem_reachable demo_done"
  using demo_done_step demo_submitted_reachable by (rule mem_steps_reachable)

lemma demo_done_get:
  "Get demo_done None ''op1'' = Inr (demo_op\<lparr>opn_status := Succeeded, opn_progress := 100,
     opn_started := Some 20, opn_finished := Some 30, opn_attempt := 1, opn_result := Some ''1''\<rparr>)"
  by (simp add: demo_done_def demo_submitted_eq worker_take_def run_start_def finish_def Get_def
      new_record_def start_record_def finish_record_def snapshot_def Let_def demo_op_def)

section \<open>Properties\<close>

lemma reachable_invD:
  assumes "mem_reachable e"
  shows "inv_records e" "inv_queue e" "inv_workers e" "inv_totals e" "inv_idempotency e"
  using mem_invD [OF mem_reachable_inv [OF assms]] by simp_all

lemma mem_steps_terminal:
  assumes "mem_step\<^sup>*\<^sup>* e e'" "mem_reachable e" "lookup_op e oid = Some r" "Terminal (opn_status (rec_op r))"
  shows "\<exists>r'. lookup_op e' oid = Some r' \<and> same_finished r r'"
  using assms(1)
proof (induction rule: rtranclp_induct)
  case base
  then show ?case using assms(3) by simp
next
  case (step e1 e2)
  then obtain r1 where r1: "lookup_op e1 oid = Some r1" "same_finished r r1" by blast
  have "mem_inv e1" by (rule mem_reachable_inv [OF mem_steps_reachable [OF step.hyps(1) assms(2)]])
  with step.hyps(2) r1 assms(4) obtain r2 where "lookup_op e2 oid = Some r2" "same_finished r1 r2"
    using mem_step_terminal [of e1 e2 oid r1] by (auto simp: same_finished_def)
  with r1 show ?case by (auto simp: same_finished_def)
qed

lemma mem_step_handlers: "mem_step e e' \<Longrightarrow> set (handlers e) \<subseteq> set (handlers e')"
proof (induction rule: mem_step.induct)
  case (submit e now md name key scope payload oid ids e' r)
  then show ?case
    by (auto simp: submit_locked_def submit_record_def Let_def
        split: if_splits option.splits sum.splits chan_send.splits)
qed (auto simp: Handle_def Start_def stopAccepting_def Shutdown_begin_def Shutdown_drained_def
    cancelUnfinished_def Shutdown_expired_def signalDone_def Cancel_def worker_take_def
    worker_exit_def workers_finished_def run_start_def finish_def reportProgress_def Let_def
    split: if_splits option.splits list.splits)

lemma mem_steps_idempotency:
  assumes "mem_step\<^sup>*\<^sup>* e e'" "mem_reachable e" "map_of (idempotency e) k = Some oid"
    "name \<in> set (handlers e)"
  shows "map_of (idempotency e') k = Some oid \<and> name \<in> set (handlers e')"
  using assms(1)
proof (induction rule: rtranclp_induct)
  case base
  then show ?case using assms(3,4) by simp
next
  case (step e1 e2)
  have "mem_inv e1" by (rule mem_reachable_inv [OF mem_steps_reachable [OF step.hyps(1) assms(2)]])
  with step show ?case using mem_step_idempotency mem_step_handlers by blast
qed

lemma inv_records_id: "inv_records e \<Longrightarrow> lookup_op e oid = Some r \<Longrightarrow> opn_id (snapshot r) = oid"
  by (simp add: inv_records_def record_ok_def Let_def snapshot_def)

lemma snapshot_new_id [simp]: "opn_id (snapshot (new_record i name now md payload)) = i"
  by (simp add: snapshot_def new_record_def)

lemma submit_locked_keyed:
  assumes "mem_reachable e" "key \<noteq> []"
    "submit_locked e now md name key scope payload i ids = Some (Return (e', Inr op))"
  shows "map_of (idempotency e') (idempotency_key scope name key) = Some (opn_id op) \<and>
    name \<in> set (handlers e')"
  using mem_reachable_inv [OF assms(1)] assms(3)
proof (cases rule: submit_locked_effect)
  case (existing old r)
  then show ?thesis using inv_records_id [OF reachable_invD(1) [OF assms(1)]] by auto
next
  case (new i' ikey)
  note sent = submit_record_sent [OF mem_reachable_inv [OF assms(1)] new(4,6,7)]
  show ?thesis using sent new(1,2) assms(2) by auto
qed simp

text \<open>
  C3. A finished operation is final: whatever happens afterwards (cancellation, late handler
  returns, progress reports, shutdown, new submissions), \<open>Get\<close> keeps returning the same record,
  result and error.
\<close>

theorem mem_terminal_final:
  assumes "mem_reachable e" "mem_step\<^sup>*\<^sup>* e e'" "Get e None oid = Inr op" "Terminal (opn_status op)"
  shows "Get e' None oid = Inr op"
proof -
  from assms(3) obtain r where r: "lookup_op e oid = Some r" "op = snapshot r"
    by (auto simp: Get_def split: option.splits)
  with assms(4) have "Terminal (opn_status (rec_op r))" by (simp add: snapshot_def)
  with mem_steps_terminal [OF assms(2,1) r(1)] obtain r' where
    "lookup_op e' oid = Some r'" "same_finished r r'" by blast
  then show ?thesis using r by (simp add: Get_def same_finished_def snapshot_def)
qed

lemma mem_terminal_final_witness:
  "Get (fst (Cancel 99 demo_done None ''op1'')) None ''op1'' = Get demo_done None ''op1''"
proof -
  have "mem_step demo_done (fst (Cancel 99 demo_done None ''op1''))" by (rule mem_step.cancel)
  then show ?thesis
    using mem_terminal_final [OF demo_done_reachable _ demo_done_get]
    by (simp add: demo_done_get r_into_rtranclp)
qed

text \<open>
  C4. Submission is idempotent: once a submission with a key has returned an operation, any later
  submission with the same scope, name and key, at any later moment while the executor runs and
  whatever its payload, returns the current state of that operation and records nothing.
\<close>

theorem mem_submit_idempotent:
  assumes "mem_reachable e" "key \<noteq> []"
    and first: "submit_locked e now md name key scope payload i ids = Some (Return (e1, Inr op))"
    and later: "mem_step\<^sup>*\<^sup>* e1 e2" "state e2 = ExecRunning"
  shows "submit_locked e2 now' md' name key scope payload' i' ids' =
      Some (Return (e2, Get e2 None (opn_id op))) \<and> isl (Get e2 None (opn_id op)) = False"
proof -
  have r1: "mem_reachable e1" using assms(1) first by (rule mem_reachable.step [OF _ mem_step.submit])
  then have r2: "mem_reachable e2" using later(1) by (rule mem_steps_reachable [rotated])
  have k: "map_of (idempotency e2) (idempotency_key scope name key) = Some (opn_id op)"
    and h: "name \<in> set (handlers e2)"
    using mem_steps_idempotency [OF later(1) r1] submit_locked_keyed [OF assms(1,2) first] by auto
  then obtain r where "lookup_op e2 (opn_id op) = Some r"
    using reachable_invD(5) [OF r2] by (fastforce simp: inv_idempotency_def)
  with k h assms(2) later(2) show ?thesis by (simp add: submit_locked_def Let_def Get_def)
qed

lemma mem_submit_idempotent_witness:
  "submit_locked demo_submitted 77 Map.empty ''mail'' ''k'' ''u'' ''other'' ''op9'' [] =
     Some (Return (demo_submitted, Get demo_submitted None ''op1''))"
  using mem_submit_idempotent [OF demo_started_reachable _ demo_submit_eq [unfolded demo_submit_def]
      rtranclp.rtrancl_refl, of 77 "Map.empty" "''other''" "''op9''" "[]"]
  by (simp add: demo_submitted_eq demo_op_def snapshot_def new_record_def)

text \<open>
  No submission panics in a reachable state: the queue is never sent to after it was closed,
  and an idempotency entry always names a recorded operation.
\<close>

theorem mem_submit_never_panics:
  assumes "mem_reachable e"
  shows "submit_locked e now md name key scope payload i ids \<noteq> Some (Panic m)"
  using reachable_invD(3,5) [OF assms]
  by (auto simp: submit_locked_def submit_record_def queue_send_def inv_workers_def
      inv_idempotency_def Let_def split: option.splits sum.splits if_splits) fastforce+

lemma mem_submit_never_panics_witness:
  "submit_locked demo_done 1 Map.empty ''mail'' ''k2'' ''u'' ''{}'' ''op2'' [] \<noteq> Some (Panic ''x'')"
  by (rule mem_submit_never_panics [OF demo_done_reachable])

text \<open>
  A failed submission changes nothing, and an accepted one can be read back at once.
\<close>

theorem mem_submit_atomic:
  assumes "mem_reachable e"
    "submit_locked e now md name key scope payload i ids = Some (Return (e', res))"
  shows "case res of Inl err \<Rightarrow> e' = e | Inr op \<Rightarrow> Get e' None (opn_id op) = Inr op"
  using mem_reachable_inv [OF assms(1)] assms(2)
proof (cases rule: submit_locked_effect)
  case (existing old r)
  then show ?thesis using inv_records_id [OF reachable_invD(1) [OF assms(1)]] by (auto simp: Get_def)
next
  case (new i' ikey)
  note sent = submit_record_sent [OF mem_reachable_inv [OF assms(1)] new(4,6,7)]
  show ?thesis using sent by (simp add: Get_def)
qed simp

lemma mem_submit_atomic_witness: "Get demo_submitted None (opn_id demo_op) = Inr demo_op"
  using mem_submit_atomic [OF demo_started_reachable demo_submit_eq [unfolded demo_submit_def]]
  by simp

text \<open>
  Concurrency and memory are bounded: never more handlers run than there are workers, the
  gauge counts exactly the records inside a handler, and the queue never exceeds its size.
\<close>

theorem mem_bounds:
  assumes "mem_reachable e"
  shows "RunningNow (metrics e) = int (count_val rec_executing (operations e)) \<and>
    RunningNow (metrics e) \<le> cfg_workers (config e) \<and>
    int (length (queue e)) \<le> cfg_queue_size (config e)"
proof -
  have "count_val rec_executing (operations e) \<le> nat (cfg_workers (config e))"
    using reachable_invD(3) [OF assms] by (auto simp: inv_workers_def split: if_splits)
  then show ?thesis
    using reachable_invD(2,3) [OF assms] by (auto simp: inv_workers_def inv_queue_def)
qed

lemma mem_bounds_witness: "RunningNow (metrics demo_submitted) \<le> 8"
  using mem_bounds [OF demo_submitted_reachable]
  by (simp add: demo_submitted_eq default_memoryConfig_def)

text \<open>
  The counters account for every operation: submitted = completed + failed + cancelled + the
  operations still live, as 64-bit unsigned words (so also after a wrap-around).
\<close>

theorem mem_conservation:
  assumes "mem_reachable e"
  shows "SubmittedTotal (metrics e) = CompletedTotal (metrics e) + FailedTotal (metrics e) +
    CancelledTotal (metrics e) + of_nat (count_val live_record (operations e))"
  using reachable_invD(4) [OF assms] by (simp add: inv_totals_def)

lemma mem_conservation_witness:
  "SubmittedTotal (metrics demo_submitted) = CompletedTotal (metrics demo_submitted) +
     FailedTotal (metrics demo_submitted) + CancelledTotal (metrics demo_submitted) + 1"
  using mem_conservation [OF demo_submitted_reachable] by (simp add: demo_submitted_eq)

lemma workers_done_idle:
  assumes "mem_reachable e" "workersDone e"
  shows "queue e = []" "taken e = []" "count_val rec_executing (operations e) = 0"
  using reachable_invD(3) [OF assms(1)] assms(2) by (auto simp: inv_workers_def split: if_splits)

text \<open>
  C38. A graceful shutdown drains: once the workers have finished (the event \<open>Shutdown\<close> waits for),
  every accepted operation is in a terminal state and its waiters are released.
\<close>

theorem mem_drained:
  assumes "mem_reachable e" "workersDone e" "lookup_op e oid = Some r"
  shows "Terminal (opn_status (rec_op r)) \<and> rec_done r \<and> Wait_begin e oid = Some (Inr (snapshot r))"
proof -
  have "record_ok oid r" using reachable_invD(1) [OF assms(1)] assms(3) by (simp add: inv_records_def)
  moreover have "\<not> rec_executing r"
    using count_val_pos [OF assms(3), of rec_executing] workers_done_idle(3) [OF assms(1,2)] by auto
  moreover have "opn_status (rec_op r) \<noteq> Pending"
    using reachable_invD(2) [OF assms(1)] assms(3) workers_done_idle(1,2) [OF assms(1,2)]
    by (auto simp: inv_queue_def)
  ultimately show ?thesis
    using assms(3) by (cases "opn_status (rec_op r)") (auto simp: record_ok_def Let_def Wait_begin_def)
qed

text \<open>
  The executor never gets stuck: while some operation is live, either a waiting worker can
  receive from the queue, or a worker holds an operation to start, or a handler is running.
\<close>

theorem mem_live_progress:
  assumes "mem_reachable e" "lookup_op e oid = Some r" "live_record r"
  shows "worker_take e \<noteq> None \<or> taken e \<noteq> [] \<or>
    (\<exists>oid' r'. lookup_op e oid' = Some r' \<and> rec_executing r')"
proof (rule ccontr)
  assume stuck: "\<not> ?thesis"
  have st: "state e \<noteq> ExecCreated"
    using inv_lookup_started [OF reachable_invD(3) [OF assms(1)] assms(2)] .
  have ok: "record_ok oid r" using reachable_invD(1) [OF assms(1)] assms(2) by (simp add: inv_records_def)
  have "count_val rec_executing (operations e) = 0"
    using stuck reachable_invD(1) [OF assms(1)] by (intro count_val_0) (auto simp: inv_records_def)
  with st stuck reachable_invD(3) [OF assms(1)]
  have idle: "idle e + exited e = nat (cfg_workers (config e))" "1 \<le> cfg_workers (config e)"
    by (simp_all add: inv_workers_def)
  have "opn_status (rec_op r) = Pending"
    using ok assms(2,3) stuck by (cases "opn_status (rec_op r)") (auto simp: record_ok_def live_record_def Let_def)
  with stuck reachable_invD(2) [OF assms(1)] assms(2) have q: "queue e \<noteq> []"
    by (auto simp: inv_queue_def)
  with reachable_invD(3) [OF assms(1)] have "exited e = 0" by (auto simp: inv_workers_def)
  with idle q have "worker_take e \<noteq> None" by (auto simp: worker_take_def split: list.splits)
  with stuck show False by simp
qed

lemma mem_live_progress_witness: "worker_take demo_submitted \<noteq> None"
  using mem_live_progress [OF demo_submitted_reachable,
      of "''op1''" "new_record ''op1'' ''mail'' 10 Map.empty ''{}''"]
  by (auto simp: demo_submitted_eq split: if_splits)

lemma append_sep_inj:
  "c \<notin> set a \<Longrightarrow> c \<notin> set a' \<Longrightarrow> a @ c # b = a' @ c # b' \<longleftrightarrow> a = a' \<and> b = b'"
proof (induction a arbitrary: a')
  case Nil
  then show ?case by (cases a') auto
next
  case (Cons x a)
  then show ?case by (cases a') auto
qed

text \<open>
  The idempotency index separates requests: for scopes and names without a NUL byte, the index
  keys of two requests are equal only if scope, name and key are.
\<close>

theorem idempotency_key_inj:
  assumes "CHR 0x00 \<notin> set scope \<union> set name \<union> set scope' \<union> set name'"
  shows "idempotency_key scope name key = idempotency_key scope' name' key' \<longleftrightarrow>
    scope = scope' \<and> name = name' \<and> key = key'"
  using assms by (simp add: idempotency_key_def append_sep_inj)

lemma idempotency_key_inj_witness:
  "idempotency_key ''u1'' ''mail'' ''k'' \<noteq> idempotency_key ''u2'' ''mail'' ''k''"
  using idempotency_key_inj [of "''u1''" "''mail''" "''u2''" "''mail''" "''k''" "''k''"] by simp

text \<open>With a NUL byte in the scope two different requests share an index key.\<close>

lemma idempotency_key_collision:
  "idempotency_key (''a'' @ [CHR 0x00] @ ''job'') ''job'' ''k'' =
     idempotency_key ''a'' ''job'' (''job'' @ [CHR 0x00] @ ''k'')"
  by (simp add: idempotency_key_def)

section \<open>The executor interface\<close>

text \<open>\<open>MemoryExecutor\<close> provides what the HTTP handlers rely on.\<close>

lemma mem_get_finished:
  "lookup_op e i = Some r \<Longrightarrow> Get e None i = Inr (snapshot r)"
  by (simp add: Get_def)

lemma snapshot_status [simp]: "opn_status (snapshot r) = opn_status (rec_op r)"
  by (simp add: snapshot_def)

interpretation mem: async_waiter "\<lambda>e i. Get e None i" "\<lambda>e i. Cancel now e None i" mem_inv
    "\<lambda>e i. Wait_begin e i" for now
proof unfold_locales
  show "opn_id op = i" if "mem_inv s" "Get s None i = Inr op" for s i op
    using that mem_invD(1) [OF that(1)] inv_records_id by (auto simp: Get_def split: option.splits)
  show "mem_inv (fst (Cancel now s None i))" if "mem_inv s" for s i
    using that by (rule Cancel_inv)
  show "\<exists>s' op'. Cancel now s None i = (s', None) \<and> Get s' None i = Inr op' \<and> opn_status op' = Cancelled"
    if "mem_inv s" "Get s None i = Inr op" "\<not> Terminal (opn_status op)" for s i op
    using that(2,3) by (auto simp: Get_def Cancel_def cancel_record_def snapshot_def split: option.splits)
qed (auto simp: Get_def Cancel_def Wait_begin_def split: option.splits if_splits)

text \<open>
  Cancelling over HTTP with the in-memory executor: in every reachable state the handler either
  changes nothing and reports why (no such operation, or the authorizer's refusal), or it leaves
  exactly the named operation finished; no unauthorised request has an effect.
\<close>

theorem mem_cancel_handler:
  assumes "mem_reachable e"
  shows "case OperationCancelHandler (\<lambda>e i. Get e None i) (\<lambda>e i. Cancel now e None i) authorize e i of
      (e', None) \<Rightarrow> mem_inv e' \<and> (\<forall>j. j \<noteq> i \<longrightarrow> Get e' None j = Get e None j) \<and>
        (\<exists>op op'. Get e None i = Inr op \<and> authorize op = None \<and> Get e' None i = Inr op' \<and>
           Terminal (opn_status op') \<and> (Terminal (opn_status op) \<longrightarrow> e' = e))
    | (e', Some err) \<Rightarrow> e' = e \<and>
        (Get e None i = Inl err \<or> (\<exists>op. Get e None i = Inr op \<and> authorize op = Some err))"
  using mem_reachable_inv [OF assms] by (rule mem.cancel_handler)

lemma mem_cancel_handler_witness:
  "fst (OperationCancelHandler (\<lambda>e i. Get e None i) (\<lambda>e i. Cancel 50 e None i)
     (\<lambda>op. Some (Sentinel ErrInvalidOperation)) demo_submitted ''op1'') = demo_submitted"
  using mem_cancel_handler [OF demo_submitted_reachable, where now = 50
      and authorize = "\<lambda>op. Some (Sentinel ErrInvalidOperation)" and i = "''op1''"]
  by (auto split: prod.splits option.splits)

text \<open>A cancelled operation releases its waiters.\<close>

lemma mem_cancel_releases:
  "mem_reachable e \<Longrightarrow> Get e None i = Inr op \<Longrightarrow>
   Wait_begin (fst (Cancel now e None i)) i = Some (Get (fst (Cancel now e None i)) None i)"
  using mem_reachable_inv by (rule mem.cancel_releases)

lemma all_exit:
  "mem_reachable e \<Longrightarrow> queue e = [] \<Longrightarrow> queue_closed e \<Longrightarrow> idle e = n \<Longrightarrow>
   mem_reachable (e\<lparr>idle := 0, exited := exited e + n\<rparr>)"
proof (induction n arbitrary: e)
  case (Suc n)
  let ?e = "e\<lparr>idle := idle e - 1, exited := exited e + 1\<rparr>"
  have "worker_exit e = Some ?e" using Suc.prems by (simp add: worker_exit_def)
  then have "mem_reachable ?e" using Suc.prems(1) mem_reachable.step mem_step.exit by blast
  from Suc.IH [OF this] Suc.prems show ?case by simp
next
  case 0
  have "e\<lparr>idle := 0\<rparr> = e" using 0(4) by (cases e) simp
  with 0(1) show ?case by simp
qed

definition demo_drained :: memoryExecutor where
  "demo_drained = the (workers_finished ((stopAccepting demo_done)\<lparr>idle := 0, exited := 8\<rparr>))"

lemma demo_done_fields [simp]:
  "state demo_done = ExecRunning" "queue demo_done = []" "idle demo_done = 8" "exited demo_done = 0"
  "config demo_done = default_memoryConfig" "workersDone demo_done = False"
  by (simp_all add: demo_done_def demo_submitted_eq worker_take_def run_start_def finish_def
      new_record_def)

lemma demo_drained_reachable: "mem_reachable demo_drained" "workersDone demo_drained"
proof -
  have "mem_reachable (stopAccepting demo_done)"
    using demo_done_reachable mem_step.stop by (rule mem_reachable.step)
  from all_exit [OF this, of 8] have r: "mem_reachable ((stopAccepting demo_done)\<lparr>idle := 0, exited := 8\<rparr>)"
    by (simp add: stopAccepting_def)
  have w: "workers_finished ((stopAccepting demo_done)\<lparr>idle := 0, exited := 8\<rparr>) = Some demo_drained"
    by (simp add: demo_drained_def workers_finished_def stopAccepting_def default_memoryConfig_def)
  show "mem_reachable demo_drained" using r w mem_reachable.step mem_step.finished by blast
  show "workersDone demo_drained"
    by (simp add: demo_drained_def workers_finished_def signalDone_def stopAccepting_def
        default_memoryConfig_def)
qed

lemma mem_drained_witness: "\<exists>r. lookup_op demo_drained ''op1'' = Some r \<and> rec_done r"
proof -
  have "operations demo_drained = operations demo_done"
    by (simp add: demo_drained_def workers_finished_def stopAccepting_def default_memoryConfig_def signalDone_def)
  then obtain r where "lookup_op demo_drained ''op1'' = Some r"
    using demo_done_get by (auto simp: Get_def split: option.splits)
  with mem_drained [OF demo_drained_reachable this] show ?thesis by simp
qed

end
