(* ===== verification/PostgresStore.thy ===== *)
theory PostgresStore
  imports MemoryExecutor "HOL-Library.Signed_Division" "HOL-Library.Char_ord" "HOL-Library.List_Lexorder"
begin

text \<open>
  The durable executor of \<open>contrib/asyncpostgres\<close>. The table \<open>vial_async_operations\<close> of
  \<open>schema.sql\<close> is a list of rows; every SQL statement of \<open>store.go\<close> is a function on it, atomic
  as the database runs it, with the database clock \<open>now\<close> (in microseconds, the resolution of
  \<open>timestamptz\<close>) as an argument. What the connection reports back is an argument too: a statement
  runs, or fails without running, or runs although the client sees an error. JSON columns hold
  their JSON text; Go durations are in nanoseconds. Logging and the pings are left out.
\<close>

section \<open>Configuration\<close>

record pg_config =
  pg_workers :: int
  pollInterval :: int
  leaseDuration :: int
  taskTimeout :: int
  autoMigrate :: bool

definition pg_WithWorkers :: "int \<Rightarrow> pg_config \<Rightarrow> pg_config outcome" where
  "pg_WithWorkers n c = (if n < 1 then Panic ''asyncpostgres: workers must be greater than zero''
     else Return (c\<lparr>pg_workers := n\<rparr>))"

definition pg_WithPollInterval :: "int \<Rightarrow> pg_config \<Rightarrow> pg_config outcome" where
  "pg_WithPollInterval d c = (if d \<le> 0 then Panic ''asyncpostgres: poll interval must be greater than zero''
     else Return (c\<lparr>pollInterval := d\<rparr>))"

definition pg_WithLeaseDuration :: "int \<Rightarrow> pg_config \<Rightarrow> pg_config outcome" where
  "pg_WithLeaseDuration d c = (if d \<le> 0 then Panic ''asyncpostgres: lease duration must be greater than zero''
     else Return (c\<lparr>leaseDuration := d\<rparr>))"

definition pg_WithTaskTimeout :: "int \<Rightarrow> pg_config \<Rightarrow> pg_config outcome" where
  "pg_WithTaskTimeout d c = (if d \<le> 0 then Panic ''asyncpostgres: task timeout must be greater than zero''
     else Return (c\<lparr>taskTimeout := d\<rparr>))"

definition pg_WithAutoMigrate :: "bool \<Rightarrow> pg_config \<Rightarrow> pg_config outcome" where
  "pg_WithAutoMigrate enabled c = Return (c\<lparr>autoMigrate := enabled\<rparr>)"

definition pg_WithLogger :: "bool \<Rightarrow> pg_config \<Rightarrow> pg_config outcome" where
  "pg_WithLogger present c = (if \<not> present then Panic ''asyncpostgres: logger is nil'' else Return c)"

datatype pg_option =
  PgWorkers int | PgPollInterval int | PgLeaseDuration int | PgTaskTimeout int
  | PgAutoMigrate bool | PgLogger bool | PgNil

fun pg_apply_option :: "pg_option \<Rightarrow> pg_config \<Rightarrow> pg_config outcome" where
  "pg_apply_option (PgWorkers n) c = pg_WithWorkers n c"
| "pg_apply_option (PgPollInterval d) c = pg_WithPollInterval d c"
| "pg_apply_option (PgLeaseDuration d) c = pg_WithLeaseDuration d c"
| "pg_apply_option (PgTaskTimeout d) c = pg_WithTaskTimeout d c"
| "pg_apply_option (PgAutoMigrate b) c = pg_WithAutoMigrate b c"
| "pg_apply_option (PgLogger b) c = pg_WithLogger b c"
| "pg_apply_option PgNil c = Panic ''asyncpostgres: option is nil''"

fun pg_apply_options :: "pg_option list \<Rightarrow> pg_config \<Rightarrow> pg_config outcome" where
  "pg_apply_options [] c = Return c"
| "pg_apply_options (opt # os) c =
     (case pg_apply_option opt c of Panic m \<Rightarrow> Panic m | Return c' \<Rightarrow> pg_apply_options os c')"

definition default_pg_config :: pg_config where
  "default_pg_config = \<lparr>pg_workers = 8, pollInterval = 500 * 1000000, leaseDuration = 30 * 1000000000,
     taskTimeout = 5 * 60 * 1000000000, autoMigrate = True\<rparr>"

record pgExecutor =
  pg_cfg :: pg_config
  instanceID :: string
  pg_state :: exec_state
  pg_handlers :: "string list"
  handledNames :: "string list"
  active :: "(string \<times> string) list"
  contextsCancelled :: "string list"
  workCancelledPg :: bool
  pg_doneSignals :: nat

definition pg_New :: "bool \<Rightarrow> string \<Rightarrow> pg_option list \<Rightarrow> pgExecutor outcome" where
  "pg_New database_present instance opts =
    (if \<not> database_present then Panic ''asyncpostgres: database is nil''
     else case pg_apply_options opts default_pg_config of Panic m \<Rightarrow> Panic m
     | Return c \<Rightarrow>
         if pollInterval c > leaseDuration c sdiv 3 then
           Panic ''asyncpostgres: lease duration must be at least three poll intervals''
         else Return \<lparr>pg_cfg = c, instanceID = instance, pg_state = ExecCreated, pg_handlers = [],
           handledNames = [], active = [], contextsCancelled = [], workCancelledPg = False,
           pg_doneSignals = 0\<rparr>)"

definition pg_Handle :: "string \<Rightarrow> bool \<Rightarrow> pgExecutor \<Rightarrow> pgExecutor outcome" where
  "pg_Handle name present e =
    (let name = trim_space name
     in if name = [] \<or> \<not> present then Panic ''asyncpostgres: operation name and handler are required''
        else if pg_state e \<noteq> ExecCreated then
          Panic ''asyncpostgres: handlers cannot be registered after startup''
        else if name \<in> set (pg_handlers e) then
          Panic (''asyncpostgres: duplicate operation handler '' @ name)
        else Return (e\<lparr>pg_handlers := pg_handlers e @ [name]\<rparr>))"

section \<open>The table\<close>

record row =
  row_id :: string
  row_name :: string
  row_status :: op_status
  row_progress :: int
  row_payload :: string
  row_metadata :: "string \<rightharpoonup> string"
  row_result :: "string option"
  row_error :: "op_error option"
  row_created :: int
  row_started :: "int option"
  row_finished :: "int option"
  row_next :: "int option"
  row_attempt :: int
  row_max_attempts :: int
  row_initial_ms :: int
  row_max_ms :: int
  row_key :: "string option"
  row_scope :: "string option"
  row_owner :: "string option"
  row_expires :: "int option"

type_synonym table = "row list"

text \<open>What the client learns of a statement.\<close>

datatype db_answer = DbOk | DbError goerr | DbLost goerr

text \<open>\<open>UPDATE \<dots> SET f WHERE P\<close>: the new table and the number of rows it changed.\<close>

definition sql_update :: "(row \<Rightarrow> bool) \<Rightarrow> (row \<Rightarrow> row) \<Rightarrow> table \<Rightarrow> table \<times> nat" where
  "sql_update P f t = (map (\<lambda>r. if P r then f r else r) t, length (filter P t))"

text \<open>\<open>ExecContext\<close> followed by \<open>RowsAffected\<close>.\<close>

definition db_exec :: "db_answer \<Rightarrow> (table \<Rightarrow> table \<times> nat) \<Rightarrow> table \<Rightarrow> table \<times> nat result" where
  "db_exec ans stmt t = (case ans of DbOk \<Rightarrow> (fst (stmt t), Inr (snd (stmt t)))
     | DbError err \<Rightarrow> (t, Inl err)
     | DbLost err \<Rightarrow> (fst (stmt t), Inl err))"

definition find_row :: "table \<Rightarrow> string \<Rightarrow> row option" where
  "find_row t i = find (\<lambda>r. row_id r = i) t"

text \<open>A comparison with a NULL column is not true.\<close>

definition due :: "int option \<Rightarrow> int \<Rightarrow> bool" where
  "due column now = (case column of None \<Rightarrow> False | Some v \<Rightarrow> v \<le> now)"

definition Milliseconds :: "int \<Rightarrow> int" where
  "Milliseconds d = d sdiv 1000000"

definition interval_ms :: "int \<Rightarrow> int" where
  "interval_ms ms = ms * 1000"

text \<open>\<open>scanDelivery\<close>; a JSON null result is a nil \<open>any\<close>.\<close>

record leasedOperation =
  del_op :: operation
  del_payload :: string
  del_initial :: int
  del_max :: int

definition row_operation :: "row \<Rightarrow> operation" where
  "row_operation r = \<lparr>opn_id = row_id r, opn_name = row_name r, opn_status = row_status r,
     opn_progress = row_progress r, opn_created = row_created r, opn_started = row_started r,
     opn_finished = row_finished r,
     opn_result = (if row_result r = Some ''null'' then None else row_result r),
     opn_error = row_error r, opn_metadata = row_metadata r, opn_attempt = row_attempt r,
     opn_max_attempts = row_max_attempts r, opn_next_attempt = row_next r\<rparr>"

definition scanDelivery :: "row \<Rightarrow> leasedOperation" where
  "scanDelivery r = \<lparr>del_op = row_operation r, del_payload = row_payload r,
     del_initial = row_initial_ms r * 1000000, del_max = row_max_ms r * 1000000\<rparr>"

section \<open>Retry policy\<close>

definition normalizeRetry :: "retry_policy \<Rightarrow> (int \<times> int \<times> int) result" where
  "normalizeRetry policy =
    (if MaxAttempts policy < 0 \<or> InitialBackoff policy < 0 \<or> MaxBackoff policy < 0 then
       Inl (Wrapf ''retry values cannot be negative'' (Sentinel ErrInvalidOperation))
     else if MaxAttempts policy > 1000 then
       Inl (Wrapf ''retry attempts cannot exceed 1000'' (Sentinel ErrInvalidOperation))
     else
       let maxAttempts = (if MaxAttempts policy = 0 then 1 else MaxAttempts policy);
           initialBackoff = (if InitialBackoff policy = 0 then 1000000000 else InitialBackoff policy);
           maxBackoff = (if MaxBackoff policy = 0 then 60 * 1000000000 else MaxBackoff policy)
       in if maxBackoff < initialBackoff then
            Inl (Wrapf ''maximum retry backoff is less than initial backoff''
              (Sentinel ErrInvalidOperation))
          else Inr (maxAttempts, initialBackoff, maxBackoff))"

text \<open>
  \<open>retryBackoff\<close> on 64-bit signed durations. The number counts the iterations the loop has left,
  \<open>attempt - current\<close>; the doubling wraps as in Go.
\<close>

fun backoff_loop :: "nat \<Rightarrow> 64 word \<Rightarrow> 64 word \<Rightarrow> 64 word" where
  "backoff_loop 0 backoff maximum = (if sint backoff \<le> sint maximum then backoff else maximum)"
| "backoff_loop (Suc n) backoff maximum =
    (if sint backoff < sint maximum then
       if sint backoff > sint maximum sdiv 2 then maximum
       else backoff_loop n (backoff * 2) maximum
     else if sint backoff \<le> sint maximum then backoff else maximum)"

definition retryBackoff :: "int \<Rightarrow> 64 word \<Rightarrow> 64 word \<Rightarrow> 64 word" where
  "retryBackoff attempt initial maximum = backoff_loop (nat (attempt - 1)) initial maximum"

section \<open>Submitting and reading\<close>

definition unavailableError :: "string \<Rightarrow> goerr \<Rightarrow> goerr" where
  "unavailableError action err = Joined [Sentinel ErrAsyncUnavailable, Wrapf action err]"

text \<open>
  The \<open>INSERT\<close> of \<open>Submit\<close>. The primary key and the partial unique index refuse a row; only the
  index conflict is covered by \<open>ON CONFLICT DO NOTHING\<close>, which then returns no row.
\<close>

definition same_request :: "string option \<Rightarrow> string \<Rightarrow> string option \<Rightarrow> row \<Rightarrow> bool" where
  "same_request scope name key r \<longleftrightarrow>
     row_scope r = scope \<and> row_name r = name \<and> row_key r = key \<and> key \<noteq> None \<and> scope \<noteq> None"

definition sql_insert :: "row \<Rightarrow> table \<Rightarrow> table \<times> row result" where
  "sql_insert r t =
    (if row_id r \<in> set (map row_id t) then (t, Inl (Opaque ''duplicate key value''))
     else if \<exists>r' \<in> set t. same_request (row_scope r) (row_name r) (row_key r) r' then
       (t, Inl (Sentinel SqlNoRows))
     else (t @ [r], Inr r))"

definition nullif_empty :: "string \<Rightarrow> string option" where
  "nullif_empty s = (if s = [] then None else Some s)"

definition submitted_row ::
  "string \<Rightarrow> string \<Rightarrow> string \<Rightarrow> (string \<rightharpoonup> string) \<Rightarrow> int \<Rightarrow> int \<times> int \<times> int \<Rightarrow> string \<Rightarrow> string \<Rightarrow> row" where
  "submitted_row i name payload metadata createdAt retry key scope =
    (case retry of (maxAttempts, initialBackoff, maxBackoff) \<Rightarrow>
     \<lparr>row_id = i, row_name = name, row_status = Pending, row_progress = 0, row_payload = payload,
      row_metadata = metadata, row_result = None, row_error = None, row_created = createdAt,
      row_started = None, row_finished = None, row_next = Some createdAt, row_attempt = 0,
      row_max_attempts = maxAttempts, row_initial_ms = Milliseconds initialBackoff,
      row_max_ms = Milliseconds maxBackoff, row_key = nullif_empty key,
      row_scope = nullif_empty scope, row_owner = None, row_expires = None\<rparr>)"

definition pg_submit_checks ::
  "('p \<Rightarrow> string result) \<Rightarrow> goerr option \<Rightarrow> bool \<Rightarrow> 'p submit_request \<Rightarrow>
     (string \<times> string \<times> string \<times> string \<times> int \<times> int \<times> int) result" where
  "pg_submit_checks marshal ctx_err accepting req =
    (case ctx_err of Some err \<Rightarrow> Inl err | None \<Rightarrow>
     if \<not> accepting then Inl (Sentinel ErrAsyncUnavailable)
     else
       let name = trim_space (req_name req); key = trim_space (req_key req);
           scope = trim_space (req_scope req)
       in if name = [] then Inl (Wrapf ''name is required'' (Sentinel ErrInvalidOperation))
          else if key \<noteq> [] \<and> scope = [] then
            Inl (Wrapf ''idempotency scope is required'' (Sentinel ErrInvalidOperation))
          else case marshal (req_payload req) of
              Inl err \<Rightarrow> Inl (Wrapf ''encode payload'' (Sentinel ErrInvalidOperation))
            | Inr payload \<Rightarrow>
                (case normalizeRetry (req_retry req) of Inl err \<Rightarrow> Inl err
                 | Inr retry \<Rightarrow> Inr (name, key, scope, payload, retry)))"

text \<open>
  \<open>Submit\<close> after its checks; \<open>i\<close> is the fresh identifier. The lookup of an existing operation is
  a second statement, on the table \<open>t'\<close> it finds then.
\<close>

definition pg_insert ::
  "db_answer \<Rightarrow> row \<Rightarrow> table \<Rightarrow> table \<times> row result" where
  "pg_insert ans r t = (case ans of DbOk \<Rightarrow> sql_insert r t
     | DbError err \<Rightarrow> (t, Inl err)
     | DbLost err \<Rightarrow> (fst (sql_insert r t), Inl err))"

definition pg_submit_select :: "db_answer \<Rightarrow> string \<Rightarrow> string \<Rightarrow> string \<Rightarrow> table \<Rightarrow> operation result" where
  "pg_submit_select ans scope name key t' =
    (case ans of
       DbOk \<Rightarrow> (case find (same_request (Some scope) name (Some key)) t' of
           None \<Rightarrow> Inl (unavailableError ''get idempotent asyncpostgres operation'' (Sentinel SqlNoRows))
         | Some r \<Rightarrow> Inr (del_op (scanDelivery r)))
     | DbError err \<Rightarrow> Inl (unavailableError ''get idempotent asyncpostgres operation'' err)
     | DbLost err \<Rightarrow> Inl (unavailableError ''get idempotent asyncpostgres operation'' err))"

definition pg_Submit ::
  "('p \<Rightarrow> string result) \<Rightarrow> goerr option \<Rightarrow> bool \<Rightarrow> 'p submit_request \<Rightarrow> string \<Rightarrow> int \<Rightarrow>
     db_answer \<Rightarrow> db_answer \<Rightarrow> (table \<Rightarrow> table) \<Rightarrow> table \<Rightarrow> table \<times> operation result" where
  "pg_Submit marshal ctx_err accepting req i createdAt ans1 ans2 others t =
    (case pg_submit_checks marshal ctx_err accepting req of
       Inl err \<Rightarrow> (t, Inl err)
     | Inr (name, key, scope, payload, retry) \<Rightarrow>
         (case pg_insert ans1
             (submitted_row i name payload (req_metadata req) createdAt retry key scope) t of
            (t', Inr r) \<Rightarrow> (t', Inr (del_op (scanDelivery r)))
          | (t', Inl err) \<Rightarrow>
              if \<not> errors_Is err SqlNoRows \<or> key = [] then
                (t', Inl (unavailableError ''submit asyncpostgres operation'' err))
              else (others t', pg_submit_select ans2 scope name key (others t'))))"

definition pg_Get :: "db_answer \<Rightarrow> string \<Rightarrow> table \<Rightarrow> operation result" where
  "pg_Get ans i t = (case ans of
       DbOk \<Rightarrow> (case find_row t i of None \<Rightarrow> Inl (Sentinel ErrOperationNotFound)
                | Some r \<Rightarrow> Inr (del_op (scanDelivery r)))
     | DbError err \<Rightarrow> Inl (unavailableError ''get asyncpostgres operation'' err)
     | DbLost err \<Rightarrow> Inl (unavailableError ''get asyncpostgres operation'' err))"

text \<open>One turn of the loop of \<open>Wait\<close>: \<open>None\<close> when it goes on to the next tick.\<close>

definition pg_Wait_turn :: "db_answer \<Rightarrow> goerr option \<Rightarrow> string \<Rightarrow> table \<Rightarrow> operation result option" where
  "pg_Wait_turn ans ctx_err i t = (case pg_Get ans i t of
       Inl err \<Rightarrow> Some (Inl err)
     | Inr op \<Rightarrow> if Terminal (opn_status op) then Some (Inr op)
                else map_option Inl ctx_err)"

section \<open>Cancelling\<close>

definition cancel_where :: "string \<Rightarrow> row \<Rightarrow> bool" where
  "cancel_where i r \<longleftrightarrow> row_id r = i \<and> row_status r \<in> {Pending, Running, Retrying}"

definition cancel_set :: "int \<Rightarrow> row \<Rightarrow> row" where
  "cancel_set now r = r\<lparr>row_status := Cancelled, row_finished := Some now, row_next := None,
     row_owner := None, row_expires := None\<rparr>"

text \<open>\<open>Cancel\<close>: the new table, the active contexts it cancels, and the error.\<close>

definition pg_Cancel ::
  "db_answer \<Rightarrow> db_answer \<Rightarrow> int \<Rightarrow> (string \<times> string) list \<Rightarrow> string \<Rightarrow> table \<Rightarrow>
     table \<times> string list \<times> goerr option" where
  "pg_Cancel ans1 ans2 now act i t =
    (case db_exec ans1 (sql_update (cancel_where i) (cancel_set now)) t of
       (t', Inl err) \<Rightarrow> (t', [], Some (unavailableError ''cancel asyncpostgres operation'' err))
     | (t', Inr rows) \<Rightarrow>
         if rows = 0 then
           (case ans2 of
              DbOk \<Rightarrow> (t', [], if find_row t' i = None then Some (Sentinel ErrOperationNotFound) else None)
            | DbError err \<Rightarrow> (t', [], Some (unavailableError ''check asyncpostgres operation'' err))
            | DbLost err \<Rightarrow> (t', [], Some (unavailableError ''check asyncpostgres operation'' err)))
         else (t', map fst (filter (\<lambda>(token, i'). i' = i) act), None))"

section \<open>Leases\<close>

definition expire_where :: "int \<Rightarrow> row \<Rightarrow> bool" where
  "expire_where now r \<longleftrightarrow>
     row_status r = Running \<and> due (row_expires r) now \<and> row_attempt r \<ge> row_max_attempts r"

definition expire_set :: "int \<Rightarrow> row \<Rightarrow> row" where
  "expire_set now r = r\<lparr>row_status := Failed, row_finished := Some now, row_owner := None,
     row_expires := None, row_error := Some \<lparr>op_code = ''operation_delivery_exhausted'',
       op_message = ''The operation could not be completed''\<rparr>\<rparr>"

definition candidate_where :: "string list \<Rightarrow> int \<Rightarrow> row \<Rightarrow> bool" where
  "candidate_where names now r \<longleftrightarrow> row_name r \<in> set names \<and>
     (row_status r \<in> {Pending, Retrying} \<and> due (row_next r) now \<or>
      row_status r = Running \<and> due (row_expires r) now \<and> row_attempt r < row_max_attempts r)"

text \<open>
  \<open>ORDER BY COALESCE(next_attempt_at, lease_expires_at), created_at\<close> as a pair. A candidate has
  one of the two columns, so the last default is never read.
\<close>

definition order_key :: "row \<Rightarrow> int \<times> int" where
  "order_key r = (case row_next r of Some v \<Rightarrow> v
     | None \<Rightarrow> (case row_expires r of Some v \<Rightarrow> v | None \<Rightarrow> 0), row_created r)"

definition key_le :: "int \<times> int \<Rightarrow> int \<times> int \<Rightarrow> bool" where
  "key_le a b \<longleftrightarrow> fst a < fst b \<or> fst a = fst b \<and> snd a \<le> snd b"

text \<open>
  The first row in that order among the rows no other transaction has locked (\<open>SKIP LOCKED\<close>).
  SQL does not say which of several equal rows comes first: \<open>tie\<close> chooses.
\<close>

definition candidate :: "string list \<Rightarrow> int \<Rightarrow> string list \<Rightarrow> nat \<Rightarrow> table \<Rightarrow> row option" where
  "candidate names now locked tie t =
    (let rows = filter (\<lambda>r. candidate_where names now r \<and> row_id r \<notin> set locked) t;
         first = filter (\<lambda>r. \<forall>r' \<in> set rows. key_le (order_key r) (order_key r')) rows
     in if first = [] then None else Some (first ! (tie mod length first)))"

definition lease_set :: "int \<Rightarrow> string \<Rightarrow> int \<Rightarrow> row \<Rightarrow> row" where
  "lease_set now owner lease_ms r = r\<lparr>row_status := Running,
     row_started := (case row_started r of None \<Rightarrow> Some now | Some v \<Rightarrow> Some v),
     row_attempt := row_attempt r + 1, row_progress := 0, row_next := None,
     row_owner := Some owner, row_expires := Some (now + interval_ms lease_ms)\<rparr>"

text \<open>The second statement of \<open>lease\<close>: take the candidate and return the updated row.\<close>

definition lease_take ::
  "string list \<Rightarrow> int \<Rightarrow> string list \<Rightarrow> nat \<Rightarrow> string \<Rightarrow> int \<Rightarrow> table \<Rightarrow> table \<times> row result" where
  "lease_take names now locked tie owner lease_ms t =
    (case candidate names now locked tie t of
       None \<Rightarrow> (t, Inl (Sentinel SqlNoRows))
     | Some r \<Rightarrow> (fst (sql_update (\<lambda>r'. row_id r' = row_id r) (lease_set now owner lease_ms) t),
                 Inr (lease_set now owner lease_ms r)))"

definition pg_lease ::
  "pg_config \<Rightarrow> string list \<Rightarrow> db_answer \<Rightarrow> db_answer \<Rightarrow> int \<Rightarrow> int \<Rightarrow> string list \<Rightarrow> nat \<Rightarrow> string \<Rightarrow>
     table \<Rightarrow> table \<times> leasedOperation result" where
  "pg_lease cfg names ans1 ans2 now1 now2 locked tie owner t =
    (case db_exec ans1 (sql_update (expire_where now1) (expire_set now1)) t of
       (t1, Inl err) \<Rightarrow> (t1, Inl (Wrapf ''expire asyncpostgres leases: '' err))
     | (t1, Inr n) \<Rightarrow>
         if names = [] then (t1, Inl (Sentinel SqlNoRows))
         else
           let (t2, r) = lease_take names now2 locked tie owner (Milliseconds (leaseDuration cfg)) t1
           in case ans2 of
                DbOk \<Rightarrow> (t2, map_sum (\<lambda>e. e) scanDelivery r)
              | DbError err \<Rightarrow> (t1, Inl err)
              | DbLost err \<Rightarrow> (t2, Inl err))"

text \<open>The guard of every statement of a worker: the row is still its delivery.\<close>

definition owned_where :: "leasedOperation \<Rightarrow> string \<Rightarrow> row \<Rightarrow> bool" where
  "owned_where d owner r \<longleftrightarrow> row_id r = opn_id (del_op d) \<and> row_owner r = Some owner \<and>
     row_attempt r = opn_attempt (del_op d) \<and> row_status r = Running"

definition ownedUpdate :: "nat result \<Rightarrow> goerr option" where
  "ownedUpdate res = (case res of Inl err \<Rightarrow> Some err
     | Inr rows \<Rightarrow> if rows = 0 then Some (Sentinel ErrOperationFinished) else None)"

text \<open>The five statements a worker issues for its delivery share this form.\<close>

definition owned_statement ::
  "db_answer \<Rightarrow> leasedOperation \<Rightarrow> string \<Rightarrow> (row \<Rightarrow> row) \<Rightarrow> table \<Rightarrow> table \<times> nat result" where
  "owned_statement ans d owner f t = db_exec ans (sql_update (owned_where d owner) f) t"

definition pg_progress ::
  "db_answer \<Rightarrow> leasedOperation \<Rightarrow> string \<Rightarrow> int \<Rightarrow> table \<Rightarrow> table \<times> goerr option" where
  "pg_progress ans d owner p t =
    (if p < 0 \<or> p > 100 then
       (t, Some (Wrapf ''progress must be between 0 and 100'' (Sentinel ErrInvalidOperation)))
     else case owned_statement ans d owner (\<lambda>r. r\<lparr>row_progress := p\<rparr>) t of
         (t', Inl err) \<Rightarrow> (t', Some (Wrapf ''update asyncpostgres progress: '' err))
       | (t', Inr rows) \<Rightarrow> (t', if rows = 0 then Some (Sentinel ErrOperationFinished) else None))"

definition pg_extendLease ::
  "pg_config \<Rightarrow> db_answer \<Rightarrow> int \<Rightarrow> leasedOperation \<Rightarrow> string \<Rightarrow> table \<Rightarrow> table \<times> bool result" where
  "pg_extendLease cfg ans now d owner t =
    (case owned_statement ans d owner
        (\<lambda>r. r\<lparr>row_expires := Some (now + interval_ms (Milliseconds (leaseDuration cfg)))\<rparr>) t of
       (t', Inl err) \<Rightarrow> (t', Inl err)
     | (t', Inr rows) \<Rightarrow> (t', Inr (rows = 1)))"

definition succeed_set :: "int \<Rightarrow> string \<Rightarrow> row \<Rightarrow> row" where
  "succeed_set now res r = r\<lparr>row_status := Succeeded, row_progress := 100, row_result := Some res,
     row_error := None, row_finished := Some now, row_owner := None, row_expires := None\<rparr>"

definition pg_succeed ::
  "db_answer \<Rightarrow> int \<Rightarrow> leasedOperation \<Rightarrow> string \<Rightarrow> string \<Rightarrow> table \<Rightarrow> table \<times> goerr option" where
  "pg_succeed ans now d owner res t =
     map_prod (\<lambda>t. t) ownedUpdate (owned_statement ans d owner (succeed_set now res) t)"

definition retry_set :: "int \<Rightarrow> int \<Rightarrow> row \<Rightarrow> row" where
  "retry_set now backoff r = r\<lparr>row_status := Retrying,
     row_next := Some (now + interval_ms (Milliseconds backoff)), row_progress := 0,
     row_owner := None, row_expires := None, row_error := None\<rparr>"

definition pg_retry ::
  "db_answer \<Rightarrow> int \<Rightarrow> leasedOperation \<Rightarrow> string \<Rightarrow> int \<Rightarrow> table \<Rightarrow> table \<times> goerr option" where
  "pg_retry ans now d owner backoff t =
     map_prod (\<lambda>t. t) ownedUpdate (owned_statement ans d owner (retry_set now backoff) t)"

definition fail_set :: "int \<Rightarrow> op_error \<Rightarrow> row \<Rightarrow> row" where
  "fail_set now err r = r\<lparr>row_status := Failed,
     row_error := Some \<lparr>op_code = or_default (op_code err) ''operation_failed'',
       op_message = or_default (op_message err) ''The operation could not be completed''\<rparr>,
     row_finished := Some now, row_owner := None, row_expires := None\<rparr>"

definition pg_fail ::
  "db_answer \<Rightarrow> int \<Rightarrow> leasedOperation \<Rightarrow> string \<Rightarrow> op_error \<Rightarrow> table \<Rightarrow> table \<times> goerr option" where
  "pg_fail ans now d owner err t =
     map_prod (\<lambda>t. t) ownedUpdate (owned_statement ans d owner (fail_set now err) t)"

definition release_set :: "int \<Rightarrow> row \<Rightarrow> row" where
  "release_set now r = r\<lparr>row_status := Retrying, row_next := Some now,
     row_attempt := max (row_attempt r - 1) 0, row_owner := None, row_expires := None\<rparr>"

definition pg_releaseLease ::
  "db_answer \<Rightarrow> int \<Rightarrow> leasedOperation \<Rightarrow> string \<Rightarrow> table \<Rightarrow> table \<times> goerr option" where
  "pg_releaseLease ans now d owner t =
     map_prod (\<lambda>t. t) ownedUpdate (owned_statement ans d owner (release_set now) t)"

text \<open>
  \<open>lease_owner LIKE instance || ':%'\<close>. An instance identifier is hexadecimal, so it has no
  wildcard and the pattern is the prefix test.
\<close>

definition instance_where :: "string \<Rightarrow> row \<Rightarrow> bool" where
  "instance_where instance r \<longleftrightarrow> row_status r = Running \<and>
     (case row_owner r of None \<Rightarrow> False | Some owner \<Rightarrow> has_prefix owner (instance @ '':''))"

definition pg_releaseInstanceLeases ::
  "db_answer \<Rightarrow> int \<Rightarrow> string \<Rightarrow> table \<Rightarrow> table \<times> goerr option" where
  "pg_releaseInstanceLeases ans now instance t =
    (case db_exec ans (sql_update (instance_where instance) (release_set now)) t of
       (t', Inl err) \<Rightarrow> (t', Some (Wrapf ''release asyncpostgres leases: '' err))
     | (t', Inr rows) \<Rightarrow> (t', None))"

section \<open>The executor\<close>

definition pg_schema :: "pg_config \<Rightarrow> goerr option \<Rightarrow> goerr option" where
  "pg_schema cfg answer = map_option
     (Wrapf (if autoMigrate cfg then ''create asyncpostgres schema: '' else ''check asyncpostgres schema: ''))
     answer"

text \<open>\<open>Start\<close>; \<open>answer\<close> is the error of the schema statement.\<close>

definition pg_Start :: "goerr option \<Rightarrow> pgExecutor \<Rightarrow> pgExecutor \<times> goerr option" where
  "pg_Start answer e = (case pg_schema (pg_cfg e) answer of Some err \<Rightarrow> (e, Some err)
     | None \<Rightarrow> if pg_state e \<noteq> ExecCreated then (e, Some (Sentinel ErrAsyncUnavailable))
        else (e\<lparr>handledNames := sort (pg_handlers e), pg_state := ExecRunning\<rparr>, None))"

definition accepting :: "pgExecutor \<Rightarrow> bool" where
  "accepting e \<longleftrightarrow> pg_state e = ExecRunning"

definition pg_stopAccepting :: "pgExecutor \<Rightarrow> pgExecutor" where
  "pg_stopAccepting e = (if pg_state e = ExecRunning then e\<lparr>pg_state := ExecStopping\<rparr> else e)"

definition setStopped :: "pgExecutor \<Rightarrow> pgExecutor" where
  "setStopped e = e\<lparr>pg_state := ExecStopped\<rparr>"

definition pg_signalDone :: "pgExecutor \<Rightarrow> pgExecutor" where
  "pg_signalDone e = (if pg_doneSignals e = 0 then e\<lparr>pg_doneSignals := 1\<rparr> else e)"

definition cancelActive :: "pgExecutor \<Rightarrow> pgExecutor" where
  "cancelActive e = e\<lparr>contextsCancelled := contextsCancelled e @ map fst (active e)\<rparr>"

definition active_token :: "leasedOperation \<Rightarrow> string \<Rightarrow> string" where
  "active_token d owner = opn_id (del_op d) @ [CHR 0x00] @ owner @ [CHR 0x00] @ show_int (opn_attempt (del_op d))"

definition registerActive :: "leasedOperation \<Rightarrow> string \<Rightarrow> pgExecutor \<Rightarrow> pgExecutor" where
  "registerActive d owner e =
     e\<lparr>active := alist_put (active_token d owner) (opn_id (del_op d)) (active e)\<rparr>"

definition unregisterActive :: "string \<Rightarrow> pgExecutor \<Rightarrow> pgExecutor" where
  "unregisterActive token e = e\<lparr>active := alist_del token (active e)\<rparr>"

text \<open>\<open>Shutdown\<close>: before its \<open>select\<close>, and each of the two branches.\<close>

definition pg_Shutdown_begin :: "pgExecutor \<Rightarrow> pgExecutor \<times> goerr option option" where
  "pg_Shutdown_begin e =
    (if pg_state e = ExecCreated then (e, Some (Some (Sentinel ErrAsyncUnavailable)))
     else if pg_state e = ExecStopped then (e, Some None)
     else (pg_stopAccepting e, None))"

definition pg_Shutdown_expired ::
  "db_answer \<Rightarrow> int \<Rightarrow> goerr \<Rightarrow> pgExecutor \<Rightarrow> table \<Rightarrow> pgExecutor \<times> table \<times> goerr" where
  "pg_Shutdown_expired ans now ctx_err e t =
    (let (t', releaseErr) = pg_releaseInstanceLeases ans now (instanceID e) t
     in (pg_signalDone (setStopped ((cancelActive e)\<lparr>workCancelledPg := True\<rparr>)), t',
         Joined (Wrapf ''asyncpostgres shutdown: '' ctx_err #
           (case releaseErr of None \<Rightarrow> [] | Some err \<Rightarrow> [err]))))"

definition pg_Metrics :: "table \<Rightarrow> async_metrics" where
  "pg_Metrics t =
    (let having = (\<lambda>P. length (filter P t));
         timed = filter (\<lambda>r. row_finished r \<noteq> None \<and> row_started r \<noteq> None) t;
         started = filter (\<lambda>r. row_started r \<noteq> None) t
     in \<lparr>SubmittedTotal = of_nat (length t),
         CompletedTotal = of_nat (having (\<lambda>r. row_status r = Succeeded)),
         FailedTotal = of_nat (having (\<lambda>r. row_status r = Failed)),
         CancelledTotal = of_nat (having (\<lambda>r. row_status r = Cancelled)),
         RetriedTotal = of_int (sum_list (map (\<lambda>r. max (row_attempt r - 1) 0) t)),
         QueueDepth = int (having (\<lambda>r. row_status r = Pending \<or> row_status r = Retrying)),
         RunningNow = int (having (\<lambda>r. row_status r = Running)),
         DurationSecondsTotal =
           sum_list (map (\<lambda>r. of_int (the (row_finished r) - the (row_started r)) / 1000000) timed),
         DurationCount = of_nat (length timed),
         QueueWaitSecondsTotal =
           sum_list (map (\<lambda>r. of_int (the (row_started r) - row_created r) / 1000000) started),
         QueueWaitCount = of_nat (length started)\<rparr>)"

definition pg_Ready :: "pgExecutor \<Rightarrow> goerr option \<Rightarrow> goerr option" where
  "pg_Ready e ping = (if \<not> accepting e then Some (Sentinel ErrAsyncUnavailable)
     else map_option (unavailableError ''ping asyncpostgres'') ping)"

section \<open>Running a delivery\<close>

definition permanent_error :: "goerr \<Rightarrow> op_error option" where
  "permanent_error err = (case as_op err of Some (Some p) \<Rightarrow> Some p | _ \<Rightarrow> None)"

definition context_is :: "goerr option \<Rightarrow> sentinel \<Rightarrow> bool" where
  "context_is contextErr s = (case contextErr of None \<Rightarrow> False | Some c \<Rightarrow> errors_Is c s)"

definition pg_public_error :: "goerr \<Rightarrow> goerr option \<Rightarrow> op_error" where
  "pg_public_error err contextErr = (case permanent_error err of Some p \<Rightarrow> p
     | None \<Rightarrow> if context_is contextErr ContextDeadlineExceeded then
           \<lparr>op_code = ''operation_timeout'', op_message = ''The operation timed out''\<rparr>
         else \<lparr>op_code = ''operation_failed'',
                op_message = ''The operation could not be completed''\<rparr>)"

definition delivery_backoff :: "leasedOperation \<Rightarrow> int" where
  "delivery_backoff d = sint (retryBackoff (opn_attempt (del_op d))
     (word_of_int (del_initial d)) (word_of_int (del_max d)))"

text \<open>The part of \<open>run\<close> after an error: release the lease, schedule a retry, or fail.\<close>

definition run_error ::
  "bool \<Rightarrow> db_answer \<Rightarrow> int \<Rightarrow> leasedOperation \<Rightarrow> string \<Rightarrow> goerr \<Rightarrow> goerr option \<Rightarrow> table \<Rightarrow> table" where
  "run_error still_accepting ans now d owner err contextErr t =
    (if context_is contextErr ContextCanceled \<and> \<not> still_accepting then
       fst (pg_releaseLease ans now d owner t)
     else if permanent_error err = None \<and> opn_attempt (del_op d) < opn_max_attempts (del_op d) then
       fst (pg_retry ans now d owner (delivery_backoff d) t)
     else fst (pg_fail ans now d owner (pg_public_error err contextErr) t))"

text \<open>
  \<open>run\<close> for a delivery whose handler behaved as \<open>h\<close>. Each statement meets the table as the other
  transactions left it: \<open>others\<close> is their effect between the two statements.
\<close>

definition pg_run ::
  "string list \<Rightarrow> ('r option \<Rightarrow> string result) \<Rightarrow> bool \<Rightarrow> 'r handler_return \<Rightarrow> goerr option \<Rightarrow>
     db_answer \<Rightarrow> db_answer \<Rightarrow> int \<Rightarrow> int \<Rightarrow> (table \<Rightarrow> table) \<Rightarrow> leasedOperation \<Rightarrow> string \<Rightarrow>
     table \<Rightarrow> table" where
  "pg_run names marshal still_accepting h contextErr ans1 ans2 now1 now2 others d owner t =
    (if opn_name (del_op d) \<notin> set names then fst (pg_releaseLease ans1 now1 d owner t)
     else case run_outcome marshal h contextErr of
         (res, Some err) \<Rightarrow> run_error still_accepting ans1 now1 d owner err contextErr t
       | (res, None) \<Rightarrow>
           (case pg_succeed ans1 now1 d owner res t of
              (t', None) \<Rightarrow> t'
            | (t', Some err) \<Rightarrow>
                if errors_Is err ErrOperationFinished then t'
                else run_error still_accepting ans2 now2 d owner err contextErr (others t')))"

section \<open>Steps\<close>

text \<open>
  The table and the deliveries handed to workers. Every statement of every instance may run at any
  moment, with any clock reading and any report to the client. \<open>retry\<close> is only issued for a
  delivery with attempts left, as \<open>run\<close> does.
\<close>

record pg_system =
  tbl :: table
  issued :: "(string \<times> leasedOperation) list"

inductive pg_step :: "pg_system \<Rightarrow> pg_system \<Rightarrow> bool" where
  insert: "normalizeRetry policy = Inr retry \<Longrightarrow>
    pg_step s (s\<lparr>tbl := fst (pg_insert ans (submitted_row i name payload md createdAt retry key scope) (tbl s))\<rparr>)"
| cancel: "pg_step s (s\<lparr>tbl := fst (pg_Cancel ans ans' now act i (tbl s))\<rparr>)"
| expire: "pg_step s (s\<lparr>tbl := fst (db_exec ans (sql_update (expire_where now) (expire_set now)) (tbl s))\<rparr>)"
| lease: "lease_take names now locked tie owner ms (tbl s) = (t', Inr r) \<Longrightarrow>
    pg_step s (s\<lparr>tbl := t', issued := (owner, scanDelivery r) # issued s\<rparr>)"
| lease_lost: "pg_step s (s\<lparr>tbl := fst (lease_take names now locked tie owner ms (tbl s))\<rparr>)"
| progress: "(owner, d) \<in> set (issued s) \<Longrightarrow>
    pg_step s (s\<lparr>tbl := fst (pg_progress ans d owner p (tbl s))\<rparr>)"
| extend: "(owner, d) \<in> set (issued s) \<Longrightarrow>
    pg_step s (s\<lparr>tbl := fst (pg_extendLease cfg ans now d owner (tbl s))\<rparr>)"
| succeed: "(owner, d) \<in> set (issued s) \<Longrightarrow>
    pg_step s (s\<lparr>tbl := fst (pg_succeed ans now d owner res (tbl s))\<rparr>)"
| retry: "(owner, d) \<in> set (issued s) \<Longrightarrow> opn_attempt (del_op d) < opn_max_attempts (del_op d) \<Longrightarrow>
    pg_step s (s\<lparr>tbl := fst (pg_retry ans now d owner backoff (tbl s))\<rparr>)"
| fail: "(owner, d) \<in> set (issued s) \<Longrightarrow>
    pg_step s (s\<lparr>tbl := fst (pg_fail ans now d owner err (tbl s))\<rparr>)"
| release: "(owner, d) \<in> set (issued s) \<Longrightarrow>
    pg_step s (s\<lparr>tbl := fst (pg_releaseLease ans now d owner (tbl s))\<rparr>)"
| release_instance: "pg_step s (s\<lparr>tbl := fst (pg_releaseInstanceLeases ans now instance (tbl s))\<rparr>)"

text \<open>What every row of the table satisfies; the first lines are the constraints of \<open>schema.sql\<close>.\<close>

definition row_inv :: "row \<Rightarrow> bool" where
  "row_inv r \<longleftrightarrow>
     0 \<le> row_progress r \<and> row_progress r \<le> 100 \<and> 0 \<le> row_attempt r \<and> 1 \<le> row_max_attempts r \<and>
     0 \<le> row_initial_ms r \<and> row_initial_ms r \<le> row_max_ms r \<and>
     row_attempt r \<le> row_max_attempts r \<and>
     (row_status r = Running) = (row_owner r \<noteq> None) \<and>
     (row_owner r \<noteq> None) = (row_expires r \<noteq> None) \<and>
     (row_status r = Pending \<or> row_status r = Retrying) = (row_next r \<noteq> None) \<and>
     Terminal (row_status r) = (row_finished r \<noteq> None) \<and>
     (row_status r = Succeeded) = (row_result r \<noteq> None) \<and>
     (row_status r = Failed) = (row_error r \<noteq> None) \<and>
     (row_status r = Succeeded \<longrightarrow> row_progress r = 100) \<and>
     (row_status r = Pending \<longrightarrow> row_attempt r = 0 \<and> row_started r = None) \<and>
     (row_status r = Running \<longrightarrow> 1 \<le> row_attempt r \<and> row_started r \<noteq> None) \<and>
     (row_status r = Retrying \<longrightarrow> row_attempt r < row_max_attempts r)"

definition table_inv :: "table \<Rightarrow> bool" where
  "table_inv t \<longleftrightarrow> distinct (map row_id t) \<and> (\<forall>r \<in> set t. row_inv r) \<and>
     (\<forall>r \<in> set t. \<forall>r' \<in> set t. same_request (row_scope r) (row_name r) (row_key r) r' \<longrightarrow>
        row_id r' = row_id r)"

definition issued_inv :: "pg_system \<Rightarrow> bool" where
  "issued_inv s \<longleftrightarrow> (\<forall>(owner, d) \<in> set (issued s). \<exists>r \<in> set (tbl s).
     row_id r = opn_id (del_op d) \<and> row_max_attempts r = opn_max_attempts (del_op d))"

inductive pg_reachable :: "pg_system \<Rightarrow> bool" where
  empty: "pg_reachable \<lparr>tbl = [], issued = []\<rparr>"
| step: "pg_reachable s \<Longrightarrow> pg_step s s' \<Longrightarrow> pg_reachable s'"

end
