(* ===== verification/PostgresProperties.thy ===== *)
theory PostgresProperties
  imports PostgresStore AsyncHttp
begin

text \<open>
  The table stays well formed under every statement of every instance, and what follows from it:
  finished rows are final, a stale delivery is fenced off, leases are exclusive, a delivery that
  was run is settled, and the backoff is the capped exponential.
\<close>

section \<open>Updates keep the table well formed\<close>

text \<open>An update keeps the columns that no statement changes.\<close>

definition keeps :: "(row \<Rightarrow> row) \<Rightarrow> bool" where
  "keeps f \<longleftrightarrow> (\<forall>r. row_id (f r) = row_id r \<and> row_name (f r) = row_name r \<and>
     row_scope (f r) = row_scope r \<and> row_key (f r) = row_key r \<and>
     row_max_attempts (f r) = row_max_attempts r)"

lemma keepsD:
  "keeps f \<Longrightarrow> row_id (f r) = row_id r" "keeps f \<Longrightarrow> row_name (f r) = row_name r"
  "keeps f \<Longrightarrow> row_scope (f r) = row_scope r" "keeps f \<Longrightarrow> row_key (f r) = row_key r"
  "keeps f \<Longrightarrow> row_max_attempts (f r) = row_max_attempts r"
  by (simp_all add: keeps_def)

lemma keeps_sets [simp]:
  "keeps (cancel_set now)" "keeps (expire_set now)" "keeps (lease_set now owner ms)"
  "keeps (\<lambda>r. r\<lparr>row_progress := p\<rparr>)" "keeps (\<lambda>r. r\<lparr>row_expires := x\<rparr>)"
  "keeps (succeed_set now res)" "keeps (retry_set now backoff)" "keeps (fail_set now err)"
  "keeps (release_set now)"
  by (simp_all add: keeps_def cancel_set_def expire_set_def lease_set_def succeed_set_def
      retry_set_def fail_set_def release_set_def)

lemma ids_sql_update [simp]:
  "keeps f \<Longrightarrow> map row_id (fst (sql_update P f t)) = map row_id t"
  by (simp add: sql_update_def keepsD(1))

lemma set_sql_update:
  "set (fst (sql_update P f t)) = (\<lambda>r. if P r then f r else r) ` set t"
  by (simp add: sql_update_def)

lemma table_inv_update:
  assumes "table_inv t" "keeps f" "\<And>r. r \<in> set t \<Longrightarrow> P r \<Longrightarrow> row_inv r \<Longrightarrow> row_inv (f r)"
  shows "table_inv (fst (sql_update P f t))"
proof -
  let ?g = "\<lambda>r. if P r then f r else r"
  have g: "keeps ?g" using assms(2) by (simp add: keeps_def)
  have req: "same_request sc n k (?g r) = same_request sc n k r" for sc n k r
    using keepsD [OF g, of r] by (simp only: same_request_def)
  have "row_inv (?g r)" if "r \<in> set t" for r
    using assms(1,3) that by (auto simp: table_inv_def)
  moreover have "distinct (map row_id (fst (sql_update P f t)))"
    using assms(1,2) by (simp add: table_inv_def)
  moreover have "row_id (?g r') = row_id (?g r)"
    if "r \<in> set t" "r' \<in> set t"
      "same_request (row_scope (?g r)) (row_name (?g r)) (row_key (?g r)) (?g r')" for r r'
    using assms(1) that unfolding req keepsD [OF g] table_inv_def by blast
  ultimately show ?thesis unfolding table_inv_def set_sql_update by blast
qed

lemma table_inv_exec:
  assumes "table_inv t" "keeps f" "\<And>r. r \<in> set t \<Longrightarrow> P r \<Longrightarrow> row_inv r \<Longrightarrow> row_inv (f r)"
  shows "table_inv (fst (db_exec ans (sql_update P f) t))"
  using table_inv_update [OF assms] assms(1) by (cases ans) (simp_all add: db_exec_def)

text \<open>The row update of each statement keeps the row invariant.\<close>

named_theorems row_steps

lemma row_inv_cancel [row_steps]: "row_inv r \<Longrightarrow> cancel_where i r \<Longrightarrow> row_inv (cancel_set now r)"
  by (cases "row_status r") (simp_all add: row_inv_def cancel_where_def cancel_set_def)

lemma row_inv_expire [row_steps]: "row_inv r \<Longrightarrow> expire_where now r \<Longrightarrow> row_inv (expire_set now r)"
  by (cases "row_status r") (simp_all add: row_inv_def expire_where_def expire_set_def)

lemma row_inv_lease [row_steps]:
  "row_inv r \<Longrightarrow> candidate_where names now r \<Longrightarrow> row_inv (lease_set now' owner ms r)"
  by (cases "row_status r")
    (simp_all add: row_inv_def candidate_where_def lease_set_def option.case_eq_if)

lemma row_inv_progress [row_steps]:
  "row_inv r \<Longrightarrow> owned_where d owner r \<Longrightarrow> 0 \<le> p \<Longrightarrow> p \<le> 100 \<Longrightarrow> row_inv (r\<lparr>row_progress := p\<rparr>)"
  by (cases "row_status r") (simp_all add: row_inv_def owned_where_def)

lemma row_inv_extend [row_steps]:
  "row_inv r \<Longrightarrow> owned_where d owner r \<Longrightarrow> row_inv (r\<lparr>row_expires := Some v\<rparr>)"
  by (cases "row_status r") (simp_all add: row_inv_def owned_where_def)

lemma row_inv_succeed [row_steps]:
  "row_inv r \<Longrightarrow> owned_where d owner r \<Longrightarrow> row_inv (succeed_set now res r)"
  by (cases "row_status r") (simp_all add: row_inv_def owned_where_def succeed_set_def)

lemma row_inv_retry [row_steps]:
  "row_inv r \<Longrightarrow> owned_where d owner r \<Longrightarrow> row_attempt r < row_max_attempts r \<Longrightarrow>
   row_inv (retry_set now backoff r)"
  by (cases "row_status r") (simp_all add: row_inv_def owned_where_def retry_set_def)

lemma row_inv_fail [row_steps]:
  "row_inv r \<Longrightarrow> owned_where d owner r \<Longrightarrow> row_inv (fail_set now err r)"
  by (cases "row_status r") (simp_all add: row_inv_def owned_where_def fail_set_def)

lemma row_inv_release [row_steps]:
  "row_inv r \<Longrightarrow> row_status r = Running \<Longrightarrow> row_inv (release_set now r)"
  by (cases "row_status r") (simp_all add: row_inv_def release_set_def)

lemma Milliseconds_nonneg: "0 \<le> d \<Longrightarrow> Milliseconds d = d div 1000000"
  by (cases "d = 0") (simp_all add: Milliseconds_def signed_divide_int_def)

lemma normalizeRetry_bounds:
  "normalizeRetry p = Inr (a, b, c) \<Longrightarrow> 1 \<le> a \<and> a \<le> 1000 \<and> 0 < b \<and> b \<le> c"
  by (auto simp: normalizeRetry_def Let_def split: if_splits)

lemma row_inv_submitted:
  "normalizeRetry p = Inr retry \<Longrightarrow> row_inv (submitted_row i name payload md createdAt retry key scope)"
  using normalizeRetry_bounds [of p]
  by (cases retry) (auto simp: row_inv_def submitted_row_def Milliseconds_nonneg zdiv_mono1)

lemma same_request_sym:
  "same_request (row_scope r) (row_name r) (row_key r) r' \<longleftrightarrow>
   same_request (row_scope r') (row_name r') (row_key r') r"
  by (auto simp: same_request_def)

lemma table_inv_insert:
  assumes "table_inv t" "row_inv r"
  shows "table_inv (fst (sql_insert r t))"
proof (cases "row_id r \<in> set (map row_id t) \<or>
    (\<exists>r' \<in> set t. same_request (row_scope r) (row_name r) (row_key r) r')")
  case True
  then have "fst (sql_insert r t) = t" by (auto simp: sql_insert_def)
  with assms show ?thesis by simp
next
  case False
  then have eq: "fst (sql_insert r t) = t @ [r]" by (simp add: sql_insert_def)
  have sym: "\<not> same_request (row_scope b) (row_name b) (row_key b) r" if "b \<in> set t" for b
    using False that by (subst same_request_sym) blast
  have "\<forall>a \<in> set (t @ [r]). \<forall>b \<in> set (t @ [r]).
      same_request (row_scope a) (row_name a) (row_key a) b \<longrightarrow> row_id b = row_id a"
  proof (intro ballI impI)
    fix a b
    assume ab: "a \<in> set (t @ [r])" "b \<in> set (t @ [r])"
      "same_request (row_scope a) (row_name a) (row_key a) b"
    then consider "a = r" "b = r" | "a = r" "b \<in> set t" | "a \<in> set t" "b = r"
      | "a \<in> set t" "b \<in> set t" by auto
    then show "row_id b = row_id a"
    proof cases
      case 2
      with ab(3) False show ?thesis by blast
    next
      case 3
      with ab(3) sym show ?thesis by blast
    next
      case 4
      with ab(3) assms(1) show ?thesis unfolding table_inv_def by blast
    qed simp
  qed
  moreover have "distinct (map row_id t)" "\<forall>r \<in> set t. row_inv r"
    using assms(1) unfolding table_inv_def by blast+
  then have "distinct (map row_id (t @ [r]))" "\<forall>r' \<in> set (t @ [r]). row_inv r'"
    using False assms(2) by auto
  ultimately show ?thesis unfolding eq table_inv_def by blast
qed

lemma candidate_sound:
  assumes "candidate names now locked tie t = Some r"
  shows "r \<in> set t" "candidate_where names now r" "row_id r \<notin> set locked"
proof -
  define rows where "rows = filter (\<lambda>r. candidate_where names now r \<and> row_id r \<notin> set locked) t"
  define first where "first = filter (\<lambda>r. \<forall>r' \<in> set rows. key_le (order_key r) (order_key r')) rows"
  have "first \<noteq> [] \<and> r = first ! (tie mod length first)"
    using assms by (auto simp: candidate_def Let_def rows_def first_def split: if_splits)
  then have "r \<in> set first" by simp
  then show "r \<in> set t" "candidate_where names now r" "row_id r \<notin> set locked"
    by (auto simp: first_def rows_def)
qed

lemma table_same_id:
  "table_inv t \<Longrightarrow> r \<in> set t \<Longrightarrow> r' \<in> set t \<Longrightarrow> row_id r' = row_id r \<Longrightarrow> r' = r"
  by (simp add: table_inv_def distinct_map inj_on_def)

lemma table_inv_lease_take:
  assumes "table_inv t"
  shows "table_inv (fst (lease_take names now locked tie owner ms t))"
proof (cases "candidate names now locked tie t")
  case None
  with assms show ?thesis by (simp add: lease_take_def)
next
  case (Some r)
  note sound = candidate_sound [OF Some]
  have "table_inv (fst (sql_update (\<lambda>r'. row_id r' = row_id r) (lease_set now owner ms) t))"
  proof (rule table_inv_update [OF assms])
    fix r' assume "r' \<in> set t" "row_id r' = row_id r" "row_inv r'"
    then show "row_inv (lease_set now owner ms r')"
      using table_same_id [OF assms sound(1)] row_inv_lease sound(2) by blast
  qed simp
  then show ?thesis by (simp add: lease_take_def Some)
qed

section \<open>Steps\<close>

text \<open>A stale delivery, or a missing attempt, makes no row match.\<close>

lemma table_inv_owned:
  assumes "table_inv t" "keeps f"
    "\<And>r. r \<in> set t \<Longrightarrow> row_inv r \<Longrightarrow> owned_where d owner r \<Longrightarrow> row_inv (f r)"
  shows "table_inv (fst (owned_statement ans d owner f t))"
  unfolding owned_statement_def by (rule table_inv_exec) (use assms in auto)

lemma fst_statements:
  "fst (pg_succeed ans now d owner res t) = fst (owned_statement ans d owner (succeed_set now res) t)"
  "fst (pg_retry ans now d owner backoff t) = fst (owned_statement ans d owner (retry_set now backoff) t)"
  "fst (pg_fail ans now d owner err t) = fst (owned_statement ans d owner (fail_set now err) t)"
  "fst (pg_releaseLease ans now d owner t) = fst (owned_statement ans d owner (release_set now) t)"
  "fst (pg_extendLease cfg ans now d owner t) = fst (owned_statement ans d owner
     (\<lambda>r. r\<lparr>row_expires := Some (now + interval_ms (Milliseconds (leaseDuration cfg)))\<rparr>) t)"
  "fst (pg_progress ans d owner p t) = (if p < 0 \<or> p > 100 then t
     else fst (owned_statement ans d owner (\<lambda>r. r\<lparr>row_progress := p\<rparr>) t))"
  "fst (pg_releaseInstanceLeases ans now instance t) =
     fst (db_exec ans (sql_update (instance_where instance) (release_set now)) t)"
  "fst (pg_Cancel ans ans' now act i t) =
     fst (db_exec ans (sql_update (cancel_where i) (cancel_set now)) t)"
  by (simp_all add: pg_succeed_def pg_retry_def pg_fail_def pg_releaseLease_def pg_extendLease_def
      pg_progress_def pg_releaseInstanceLeases_def pg_Cancel_def
      split: prod.splits sum.splits db_answer.splits)

lemma table_inv_pg_insert:
  assumes "table_inv t" "row_inv r"
  shows "table_inv (fst (pg_insert ans r t))"
  using assms table_inv_insert [OF assms] by (cases ans) (simp_all add: pg_insert_def)

lemma owned_running: "owned_where d owner r \<Longrightarrow> row_status r = Running"
  by (simp add: owned_where_def)

lemma pg_step_table:
  assumes "pg_step s s'" "table_inv (tbl s)" "issued_inv s"
  shows "table_inv (tbl s')"
  using assms
proof (induction rule: pg_step.induct)
  case (insert policy retry s ans i name payload md createdAt key scope)
  then show ?case using table_inv_pg_insert row_inv_submitted by simp
next
  case (lease names now locked tie owner ms s t' r)
  then show ?case using table_inv_lease_take [of "tbl s" names now locked tie owner ms] by simp
next
  case (progress owner d s ans p)
  then show ?case by (auto simp: fst_statements intro!: table_inv_owned row_inv_progress)
next
  case (retry owner d s ans now backoff)
  obtain r where r: "r \<in> set (tbl s)" "row_id r = opn_id (del_op d)"
      "row_max_attempts r = opn_max_attempts (del_op d)"
    using retry.prems(2) retry.hyps(1) by (auto simp: issued_inv_def)
  have "table_inv (fst (owned_statement ans d owner (retry_set now backoff) (tbl s)))"
  proof (rule table_inv_owned [OF retry.prems(1)])
    fix r' assume r': "r' \<in> set (tbl s)" "row_inv r'" "owned_where d owner r'"
    then have "r' = r"
      using table_same_id [OF retry.prems(1) r(1) r'(1)] r(2) by (simp add: owned_where_def)
    with r' r(3) retry.hyps(2) show "row_inv (retry_set now backoff r')"
      by (intro row_inv_retry [OF r'(2,3)]) (simp add: owned_where_def)
  qed simp
  then show ?case by (simp add: fst_statements)
next
  case (release_instance s ans now inst)
  then show ?case
    by (auto simp: fst_statements instance_where_def intro!: table_inv_exec row_inv_release)
qed (auto simp: fst_statements intro!: table_inv_owned table_inv_exec table_inv_lease_take
    intro: row_steps owned_running)

text \<open>Rows are never removed, and the columns behind a delivery never change.\<close>

definition row_kept :: "table \<Rightarrow> table \<Rightarrow> bool" where
  "row_kept t t' \<longleftrightarrow> (\<forall>r \<in> set t. \<exists>r' \<in> set t'. row_id r' = row_id r \<and>
     row_name r' = row_name r \<and> row_scope r' = row_scope r \<and> row_key r' = row_key r \<and>
     row_max_attempts r' = row_max_attempts r)"

lemma row_kept_update: "keeps f \<Longrightarrow> row_kept t (fst (sql_update P f t))"
proof (unfold row_kept_def set_sql_update, intro ballI)
  fix r assume k: "keeps f" and r: "r \<in> set t"
  let ?g = "\<lambda>r. if P r then f r else r"
  have "keeps ?g" using k by (simp add: keeps_def)
  with r show "\<exists>r' \<in> ?g ` set t. row_id r' = row_id r \<and> row_name r' = row_name r \<and>
      row_scope r' = row_scope r \<and> row_key r' = row_key r \<and> row_max_attempts r' = row_max_attempts r"
    unfolding keeps_def by blast
qed

lemma row_kept_refl [simp]: "row_kept t t"
  by (auto simp: row_kept_def)

lemma row_kept_exec: "keeps f \<Longrightarrow> row_kept t (fst (db_exec ans (sql_update P f) t))"
  using row_kept_update by (cases ans) (simp_all add: db_exec_def)

lemma row_kept_lease: "row_kept t (fst (lease_take names now locked tie owner ms t))"
  by (simp add: lease_take_def row_kept_update split: option.split)

lemma row_kept_insert: "row_kept t (fst (pg_insert ans r t))"
  by (auto simp: pg_insert_def sql_insert_def row_kept_def split: db_answer.split)

lemma pg_step_kept: "pg_step s s' \<Longrightarrow> row_kept (tbl s) (tbl s')"
proof (induction rule: pg_step.induct)
  case (lease names now locked tie owner ms s t' r)
  then show ?case using row_kept_lease [of "tbl s" names now locked tie owner ms] by simp
qed (auto simp: fst_statements owned_statement_def intro!: row_kept_exec row_kept_lease row_kept_insert)

lemma lease_take_row:
  assumes "lease_take names now locked tie owner ms t = (t', Inr r)"
  obtains r0 where "candidate names now locked tie t = Some r0" "r = lease_set now owner ms r0"
    "t' = fst (sql_update (\<lambda>r'. row_id r' = row_id r0) (lease_set now owner ms) t)" "r \<in> set t'"
proof -
  from assms obtain r0 where c: "candidate names now locked tie t = Some r0"
    and eq: "r = lease_set now owner ms r0"
      "t' = fst (sql_update (\<lambda>r'. row_id r' = row_id r0) (lease_set now owner ms) t)"
    by (auto simp: lease_take_def split: option.splits)
  have "r \<in> set t'" unfolding eq set_sql_update using candidate_sound(1) [OF c] by auto
  with c eq show thesis by (rule that)
qed

lemma issued_kept:
  "issued_inv s \<Longrightarrow> row_kept (tbl s) t' \<Longrightarrow> issued_inv (s\<lparr>tbl := t'\<rparr>)"
  by (fastforce simp: issued_inv_def row_kept_def)

lemma pg_step_issued:
  assumes "pg_step s s'" "issued_inv s"
  shows "issued_inv s'"
  using assms(1) pg_step_kept [OF assms(1)] assms(2)
proof (cases rule: pg_step.cases)
  case (lease names now locked tie owner ms t' r)
  have "r \<in> set t'" using lease(2) by (rule lease_take_row)
  moreover have "issued_inv (s\<lparr>tbl := t'\<rparr>)"
    using issued_kept [OF assms(2)] pg_step_kept [OF assms(1)] lease(1) by simp
  ultimately show ?thesis
    using lease(1) by (auto simp: issued_inv_def scanDelivery_def row_operation_def)
qed (use issued_kept in auto)

lemma pg_reachable_inv: "pg_reachable s \<Longrightarrow> table_inv (tbl s) \<and> issued_inv s"
proof (induction rule: pg_reachable.induct)
  case empty
  show ?case by (simp add: table_inv_def issued_inv_def)
next
  case (step s s')
  then show ?case using pg_step_table pg_step_issued by blast
qed

section \<open>Properties\<close>

lemma find_row_update:
  assumes "keeps f"
  shows "find_row (fst (sql_update P f t)) i = map_option (\<lambda>r. if P r then f r else r) (find_row t i)"
  by (induction t) (use assms in \<open>auto simp: find_row_def sql_update_def keeps_def\<close>)

lemma find_row_exec:
  assumes "keeps f" "find_row t i = Some r" "\<not> P r"
  shows "find_row (fst (db_exec ans (sql_update P f) t)) i = Some r"
  using assms find_row_update [OF assms(1), of P t i] by (cases ans) (simp_all add: db_exec_def)

lemma find_row_owned:
  assumes "keeps f" "find_row t i = Some r" "\<not> owned_where d owner r"
  shows "find_row (fst (owned_statement ans d owner f t)) i = Some r"
  unfolding owned_statement_def using assms by (rule find_row_exec)

lemma find_row_Some: "find_row t i = Some r \<Longrightarrow> r \<in> set t \<and> row_id r = i"
  by (auto simp: find_row_def find_Some_iff)

lemma find_row_member: "table_inv t \<Longrightarrow> r \<in> set t \<Longrightarrow> find_row t (row_id r) = Some r"
proof -
  assume inv: "table_inv t" and r: "r \<in> set t"
  then have "find_row t (row_id r) \<noteq> None" by (auto simp: find_row_def find_None_iff)
  then obtain r' where r': "find_row t (row_id r) = Some r'" by blast
  with find_row_Some [OF r'] table_same_id [OF inv r] show ?thesis by blast
qed

lemma find_row_append: "find_row t i = Some r \<Longrightarrow> find_row (t @ t') i = Some r"
  by (induction t) (auto simp: find_row_def)

lemma find_row_pg_insert:
  "find_row t i = Some r \<Longrightarrow> find_row (fst (pg_insert ans r' t)) i = Some r"
  by (auto simp: pg_insert_def sql_insert_def find_row_append
      split: db_answer.split)

lemma find_row_lease_take:
  assumes "table_inv t" "find_row t i = Some r" "\<not> candidate_where names now r"
  shows "find_row (fst (lease_take names now locked tie owner ms t)) i = Some r"
proof (cases "candidate names now locked tie t")
  case None
  with assms show ?thesis by (simp add: lease_take_def)
next
  case (Some r0)
  note r0 = candidate_sound [OF Some]
  have "row_id r \<noteq> row_id r0"
    using table_same_id [OF assms(1) r0(1)] find_row_Some [OF assms(2)] r0(2) assms(3) by blast
  then show ?thesis
    using assms(2) find_row_update [of "lease_set now owner ms" "\<lambda>r'. row_id r' = row_id r0" t i]
    by (simp add: lease_take_def Some)
qed

lemma terminal_where:
  assumes "Terminal (row_status r)"
  shows "\<not> cancel_where i r" "\<not> expire_where now r" "\<not> candidate_where names now r"
    "\<not> owned_where d owner r" "\<not> instance_where inst r"
  using assms by (auto simp: Terminal_def cancel_where_def expire_where_def candidate_where_def
      owned_where_def instance_where_def)

lemma pg_step_terminal:
  assumes "pg_step s s'" "table_inv (tbl s)" "find_row (tbl s) i = Some r" "Terminal (row_status r)"
  shows "find_row (tbl s') i = Some r"
  using assms
proof (induction rule: pg_step.induct)
  case (lease names now locked tie owner ms s t' r')
  then show ?case
    using find_row_lease_take [OF lease.prems(1,2), of names now locked tie owner ms]
    by (simp add: terminal_where)
qed (auto simp: fst_statements terminal_where
    intro!: find_row_exec find_row_owned find_row_pg_insert find_row_lease_take)

lemma pg_steps_reachable: "pg_step\<^sup>*\<^sup>* s s' \<Longrightarrow> pg_reachable s \<Longrightarrow> pg_reachable s'"
  by (induction rule: rtranclp_induct) (auto intro: pg_reachable.step)

text \<open>A table with one submitted operation.\<close>

definition demo_row :: row where
  "demo_row = submitted_row ''op1'' ''mail'' ''{}'' Map.empty 10 (3, 1000000000, 60000000000) ''k'' ''u''"

definition demo_system :: pg_system where
  "demo_system = \<lparr>tbl = [demo_row], issued = []\<rparr>"

definition demo_cancelled :: pg_system where
  "demo_cancelled = \<lparr>tbl = [cancel_set 20 demo_row], issued = []\<rparr>"

lemma demo_row_simps [simp]:
  "row_id demo_row = ''op1''" "row_status demo_row = Pending" "row_name demo_row = ''mail''"
  "row_next demo_row = Some 10" "row_attempt demo_row = 0" "row_max_attempts demo_row = 3"
  "row_key demo_row = Some ''k''" "row_scope demo_row = Some ''u''" "row_owner demo_row = None"
  by (simp_all add: demo_row_def submitted_row_def nullif_empty_def)

lemma demo_system_reachable: "pg_reachable demo_system"
proof -
  have "normalizeRetry \<lparr>MaxAttempts = 3, InitialBackoff = 0, MaxBackoff = 0\<rparr> =
      Inr (3, 1000000000, 60000000000)"
    by (simp add: normalizeRetry_def)
  from pg_step.insert [OF this, of "\<lparr>tbl = [], issued = []\<rparr>" DbOk "''op1''" "''mail''" "''{}''" Map.empty 10
      "''k''" "''u''"]
  have "pg_step \<lparr>tbl = [], issued = []\<rparr> demo_system"
    by (simp add: pg_insert_def sql_insert_def demo_system_def demo_row_def)
  with pg_reachable.empty show ?thesis by (rule pg_reachable.step)
qed

lemma demo_cancel_step: "pg_step demo_system demo_cancelled"
  using pg_step.cancel [of demo_system DbOk DbOk 20 "[]" "''op1''"]
  by (simp add: fst_statements db_exec_def sql_update_def cancel_where_def demo_system_def
      demo_cancelled_def)

lemma demo_cancelled_reachable: "pg_reachable demo_cancelled"
  using demo_system_reachable demo_cancel_step by (rule pg_reachable.step)

text \<open>
  Every reachable table satisfies the constraints of \<open>schema.sql\<close> and the lease discipline:
  identifiers are distinct, no row is attempted more often than its maximum, a row has an owner and
  a lease exactly while it runs, a next attempt exactly while it waits, and a finishing time, result
  or error exactly when its status says so.
\<close>

theorem pg_table_wf:
  assumes "pg_reachable s"
  shows "distinct (map row_id (tbl s)) \<and> (\<forall>r \<in> set (tbl s). row_inv r)"
  using pg_reachable_inv [OF assms] by (auto simp: table_inv_def)

lemma pg_table_wf_witness: "row_inv demo_row"
  using pg_table_wf [OF demo_system_reachable] by (simp add: demo_system_def)

text \<open>
  C2. A finished row is final: no statement of any worker or instance, stale or current, changes it
  afterwards.
\<close>

theorem pg_terminal_final:
  assumes "pg_reachable s" "pg_step\<^sup>*\<^sup>* s s'" "find_row (tbl s) i = Some r" "Terminal (row_status r)"
  shows "find_row (tbl s') i = Some r"
  using assms(2)
proof (induction rule: rtranclp_induct)
  case base
  show ?case by (rule assms(3))
next
  case (step s1 s2)
  have "table_inv (tbl s1)"
    using pg_reachable_inv [OF pg_steps_reachable [OF step.hyps(1) assms(1)]] by simp
  with step.hyps(2) show ?case using step.IH assms(4) by (rule pg_step_terminal)
qed

lemma pg_terminal_final_witness:
  "find_row (fst (pg_Cancel DbOk DbOk 99 [] ''op1'' (tbl demo_cancelled))) ''op1'' =
     Some (cancel_set 20 demo_row)"
proof -
  have "pg_step demo_cancelled
      (demo_cancelled\<lparr>tbl := fst (pg_Cancel DbOk DbOk 99 [] ''op1'' (tbl demo_cancelled))\<rparr>)"
    by (rule pg_step.cancel)
  then have "pg_step\<^sup>*\<^sup>* demo_cancelled
      (demo_cancelled\<lparr>tbl := fst (pg_Cancel DbOk DbOk 99 [] ''op1'' (tbl demo_cancelled))\<rparr>)" ..
  from pg_terminal_final [OF demo_cancelled_reachable this, of "''op1''" "cancel_set 20 demo_row"]
  show ?thesis by (simp add: demo_cancelled_def find_row_def cancel_set_def)
qed

lemma owned_none:
  assumes "\<forall>r \<in> set t. \<not> owned_where d owner r"
  shows "owned_statement DbOk d owner f t = (t, Inr 0)"
proof -
  have "map (\<lambda>r. if owned_where d owner r then f r else r) t = t"
    using assms by (intro map_idI) simp
  with assms show ?thesis by (simp add: owned_statement_def db_exec_def sql_update_def filter_empty_conv)
qed

lemma pg_lease_success:
  assumes "table_inv t" "pg_lease cfg names DbOk DbOk now1 now2 locked tie owner t = (t', Inr d)"
  obtains r t1 where
    "lease_take names now2 locked tie owner (Milliseconds (leaseDuration cfg)) t1 = (t', Inr r)"
    "d = scanDelivery r" "table_inv t1"
proof -
  let ?t1 = "fst (sql_update (expire_where now1) (expire_set now1) t)"
  have t1: "table_inv ?t1" by (rule table_inv_update [OF assms(1)]) (simp_all add: row_inv_expire)
  obtain t2 x where lt:
      "lease_take names now2 locked tie owner (Milliseconds (leaseDuration cfg)) ?t1 = (t2, x)"
    by (cases "lease_take names now2 locked tie owner (Milliseconds (leaseDuration cfg)) ?t1")
  with assms(2) have "t2 = t'" "map_sum (\<lambda>e. e) scanDelivery x = Inr d"
    by (simp_all add: pg_lease_def db_exec_def split: if_splits)
  with lt t1 show thesis by (cases x) (auto intro: that)
qed


definition demo_running :: row where
  "demo_running = lease_set 20 ''w1'' 1000 demo_row"

lemma demo_running_simps [simp]:
  "row_id demo_running = ''op1''" "row_status demo_running = Running" "row_name demo_running = ''mail''"
  "row_next demo_running = None" "row_attempt demo_running = 1" "row_max_attempts demo_running = 3"
  "row_owner demo_running = Some ''w1''" "row_expires demo_running = Some 1000020"
  by (simp_all add: demo_running_def lease_set_def interval_ms_def)

lemma demo_running_inv: "table_inv [demo_running]"
proof -
  have "row_inv demo_row" using pg_reachable_inv [OF demo_system_reachable]
    by (simp add: table_inv_def demo_system_def)
  moreover have "candidate_where [''mail''] 20 demo_row" by (simp add: candidate_where_def due_def)
  ultimately have "row_inv demo_running" unfolding demo_running_def by (rule row_inv_lease)
  then show ?thesis by (simp add: table_inv_def)
qed

lemma demo_takeover:
  "pg_lease default_pg_config [''mail''] DbOk DbOk 2000000 2000000 [] 0 ''w2'' [demo_running] =
     ([lease_set 2000000 ''w2'' 30000 demo_running], Inr (scanDelivery (lease_set 2000000 ''w2'' 30000 demo_running)))"
  by (simp add: pg_lease_def db_exec_def sql_update_def expire_where_def due_def lease_take_def
      candidate_def candidate_where_def key_le_def default_pg_config_def Milliseconds_def)


text \<open>
  C11. A lease is exclusive until it expires: while the clock is before the expiry of a running row,
  no lease attempt of any worker changes that row or returns it.
\<close>

theorem pg_lease_exclusive:
  assumes "table_inv t" "find_row t i = Some r" "row_status r = Running" "row_expires r = Some e"
    "now1 < e" "now2 < e"
  shows "find_row (fst (pg_lease cfg names ans1 ans2 now1 now2 locked tie owner t)) i = Some r \<and>
    (\<forall>d. snd (pg_lease cfg names ans1 ans2 now1 now2 locked tie owner t) = Inr d \<longrightarrow> opn_id (del_op d) \<noteq> i)"
proof -
  define t1 where "t1 = fst (db_exec ans1 (sql_update (expire_where now1) (expire_set now1)) t)"
  have inv1: "table_inv t1"
    unfolding t1_def by (rule table_inv_exec [OF assms(1)]) (simp_all add: row_inv_expire)
  have r1: "find_row t1 i = Some r"
    unfolding t1_def by (rule find_row_exec [OF _ assms(2)]) (use assms in \<open>simp_all add: expire_where_def due_def\<close>)
  have nc: "\<not> candidate_where names now2 r"
    using assms by (simp add: candidate_where_def due_def)
  let ?take = "lease_take names now2 locked tie owner (Milliseconds (leaseDuration cfg)) t1"
  have r2: "find_row (fst ?take) i = Some r" using inv1 r1 nc by (rule find_row_lease_take)
  have other: "row_id r' \<noteq> i" if "snd ?take = Inr r'" for r'
  proof -
    have "?take = (fst ?take, Inr r')" using that by (simp add: prod_eq_iff)
    then obtain r0 where r0: "candidate names now2 locked tie t1 = Some r0"
        "r' = lease_set now2 owner (Milliseconds (leaseDuration cfg)) r0"
      by (rule lease_take_row)
    note c = candidate_sound [OF r0(1)]
    have "row_id r0 \<noteq> row_id r"
      using table_same_id [OF inv1 c(1)] find_row_Some [OF r1] c(2) nc by metis
    then show ?thesis using r0(2) find_row_Some [OF r1] by (simp add: lease_set_def)
  qed
  have split: "pg_lease cfg names ans1 ans2 now1 now2 locked tie owner t =
      (case snd (db_exec ans1 (sql_update (expire_where now1) (expire_set now1)) t) of
         Inl err \<Rightarrow> (t1, Inl (Wrapf ''expire asyncpostgres leases: '' err))
       | Inr n \<Rightarrow> if names = [] then (t1, Inl (Sentinel SqlNoRows))
           else case ans2 of DbOk \<Rightarrow> (fst ?take, map_sum (\<lambda>e. e) scanDelivery (snd ?take))
             | DbError err \<Rightarrow> (t1, Inl err) | DbLost err \<Rightarrow> (fst ?take, Inl err))"
  proof -
    obtain u x where u: "db_exec ans1 (sql_update (expire_where now1) (expire_set now1)) t = (u, x)" by fastforce
    then have "t1 = u" by (simp add: t1_def)
    moreover obtain v y where
      "lease_take names now2 locked tie owner (Milliseconds (leaseDuration cfg)) u = (v, y)" by fastforce
    ultimately show ?thesis using u by (cases x; cases ans2) (simp_all add: pg_lease_def)
  qed
  show ?thesis
    unfolding split using r1 r2 other
    by (cases "snd ?take")
      (auto simp: scanDelivery_def row_operation_def split: sum.split db_answer.split)
qed

lemma pg_lease_exclusive_witness:
  "fst (pg_lease default_pg_config [''mail''] DbOk DbOk 30 31 [] 0 ''w2'' [demo_running]) \<noteq> []"
proof -
  have "find_row [demo_running] ''op1'' = Some demo_running" by (simp add: find_row_def)
  from pg_lease_exclusive [OF demo_running_inv this, of 1000020 30 31 default_pg_config "[''mail'']" DbOk DbOk
      "[]" 0 "''w2''"] show ?thesis
    by (auto simp: find_row_def)
qed

lemma key_min_exists: "xs \<noteq> [] \<Longrightarrow> \<exists>x \<in> set xs. \<forall>y \<in> set xs. key_le (k x) (k y)"
proof (induction xs)
  case (Cons a xs)
  show ?case
  proof (cases "xs = []")
    case False
    with Cons.IH obtain x where x: "x \<in> set xs" "\<forall>y \<in> set xs. key_le (k x) (k y)" by blast
    show ?thesis
    proof (cases "key_le (k a) (k x)")
      case True
      then have "\<forall>y \<in> set xs. key_le (k a) (k y)" using x(2) by (fastforce simp: key_le_def)
      then show ?thesis by (auto simp: key_le_def)
    next
      case False
      then have "key_le (k x) (k a)" by (auto simp: key_le_def)
      with x show ?thesis by auto
    qed
  qed (simp add: key_le_def)
qed simp

text \<open>
  Leasing takes work in order and misses none: a lease finds nothing only when no unlocked row
  is deliverable, and otherwise it takes a deliverable row of a handled name such that no other
  deliverable unlocked row comes before it in the order of the query.
\<close>

theorem pg_candidate_spec:
  "case candidate names now locked tie t of
     None \<Rightarrow> \<not> (\<exists>r \<in> set t. candidate_where names now r \<and> row_id r \<notin> set locked)
   | Some r \<Rightarrow> r \<in> set t \<and> candidate_where names now r \<and> row_id r \<notin> set locked \<and>
       (\<forall>r' \<in> set t. candidate_where names now r' \<and> row_id r' \<notin> set locked \<longrightarrow>
          key_le (order_key r) (order_key r'))"
proof -
  define rows where "rows = filter (\<lambda>r. candidate_where names now r \<and> row_id r \<notin> set locked) t"
  define first where "first = filter (\<lambda>r. \<forall>r' \<in> set rows. key_le (order_key r) (order_key r')) rows"
  have c: "candidate names now locked tie t =
      (if first = [] then None else Some (first ! (tie mod length first)))"
    by (simp add: candidate_def rows_def first_def Let_def)
  show ?thesis
  proof (cases "first = []")
    case True
    with key_min_exists [of rows order_key] have "rows = []" by (auto simp: first_def filter_empty_conv)
    with True c show ?thesis by (auto simp: rows_def filter_empty_conv)
  next
    case False
    then have "first ! (tie mod length first) \<in> set first" by simp
    with False c show ?thesis by (auto simp: first_def rows_def)
  qed
qed

lemma pg_candidate_spec_witness: "candidate [''mail''] 5 [] 0 [demo_row] = None \<and>
    candidate [''mail''] 10 [] 0 [demo_row] = Some demo_row"
  using pg_candidate_spec [of "[demo_row]" "[''mail'']" 5 "[]" 0]
    pg_candidate_spec [of "[demo_row]" "[''mail'']" 10 "[]" 0]
  by (auto simp: candidate_where_def due_def split: option.splits)

lemma backoff_loop_closed:
  "0 \<le> sint b \<Longrightarrow> 0 \<le> sint m \<Longrightarrow> sint (backoff_loop n b m) = min (sint b * 2 ^ n) (sint m)"
proof (induction n arbitrary: b)
  case (Suc n)
  have m63: "sint m < 2 ^ 63" using sint_lt [of m] by simp
  have half: "sint m sdiv 2 = sint m div 2"
    using Suc.prems(2) by (cases "sint m = 0") (simp_all add: signed_divide_int_def)
  have grow: "x \<le> x * 2 ^ k" if "0 \<le> x" for x :: int and k :: nat
    using that by (simp add: mult_le_cancel_left1)
  show ?case
  proof (cases "sint b < sint m")
    case True
    show ?thesis
    proof (cases "sint b > sint m div 2")
      case big: True
      have "sint m \<le> sint b * 2" using big by presburger
      also have "\<dots> \<le> sint b * 2 * 2 ^ n" using Suc.prems(1) by (intro grow) simp
      finally show ?thesis using True big half by (simp add: mult.assoc)
    next
      case False
      then have le: "sint b * 2 \<le> sint m" by presburger
      have dbl: "sint (b * 2) = sint b * 2"
        using le m63 Suc.prems(1) by (simp add: sint_word_ariths signed_take_bit_int_eq_self)
      have "sint (backoff_loop n (b * 2) m) = min (sint (b * 2) * 2 ^ n) (sint m)"
        using Suc.prems dbl by (intro Suc.IH) simp_all
      with True False half dbl show ?thesis by (simp add: mult.assoc)
    qed
  next
    case False
    then have "sint m \<le> sint b * 2 ^ Suc n" using grow [OF Suc.prems(1), of "Suc n"] by linarith
    with False show ?thesis by (auto simp: min_def)
  qed
qed (simp add: min_def)

text \<open>
  The retry delay is the capped exponential, computed without overflow: for non-negative 64-bit
  durations, attempt \<open>n\<close> waits \<open>min (initial * 2^(n-1)) maximum\<close>, although the exact product may
  be far beyond 64 bits.
\<close>

theorem retryBackoff_closed:
  assumes "0 \<le> sint initial" "0 \<le> sint maximum" "1 \<le> attempt"
  shows "sint (retryBackoff attempt initial maximum) =
    min (sint initial * 2 ^ nat (attempt - 1)) (sint maximum)"
  unfolding retryBackoff_def using assms(1,2) by (rule backoff_loop_closed)

lemma retryBackoff_closed_witness:
  "sint (retryBackoff 900 1000000000 60000000000) = 60000000000"
  using retryBackoff_closed [of 1000000000 60000000000 900] by (simp add: min_def)

text \<open>
  A positive backoff below a millisecond is stored as zero, and from zero the delay never grows.
\<close>

lemma submillisecond_backoff:
  "normalizeRetry \<lparr>MaxAttempts = 5, InitialBackoff = 500000, MaxBackoff = 0\<rparr> = Inr (5, 500000, 60000000000)"
  "row_initial_ms (submitted_row i name payload md createdAt (5, 500000, 60000000000) key scope) = 0"
  "retryBackoff attempt 0 60000000000 = 0"
proof -
  have "backoff_loop n 0 60000000000 = 0" for n
    by (induction n) simp_all
  then show "retryBackoff attempt 0 60000000000 = 0" by (simp add: retryBackoff_def)
qed (simp_all add: normalizeRetry_def submitted_row_def Milliseconds_def)

lemma pg_apply_options_bounds:
  "pg_apply_options opts c = Return c' \<Longrightarrow> 1 \<le> pg_workers c \<Longrightarrow> 1 \<le> pollInterval c \<Longrightarrow>
   1 \<le> leaseDuration c \<Longrightarrow> 1 \<le> pg_workers c' \<and> 1 \<le> pollInterval c' \<and> 1 \<le> leaseDuration c'"
proof (induction opts arbitrary: c)
  case (Cons opt opts)
  then show ?case
    by (cases opt) (auto simp: pg_WithWorkers_def pg_WithPollInterval_def pg_WithLeaseDuration_def
        pg_WithTaskTimeout_def pg_WithAutoMigrate_def pg_WithLogger_def split: if_splits)
qed simp

text \<open>
  \<open>New\<close> accepts only configurations whose lease outlives its renewals: the poll interval and
  the renewal period (a third of the lease) are positive, and the poll interval is at most that
  period.
\<close>

theorem pg_New_lease:
  assumes "pg_New present inst opts = Return e"
  shows "1 \<le> pg_workers (pg_cfg e) \<and> 1 \<le> pollInterval (pg_cfg e) \<and>
    pollInterval (pg_cfg e) \<le> leaseDuration (pg_cfg e) sdiv 3 \<and> 1 \<le> leaseDuration (pg_cfg e) sdiv 3"
proof -
  from assms obtain c where c: "pg_apply_options opts default_pg_config = Return c" "pg_cfg e = c"
      "pollInterval c \<le> leaseDuration c sdiv 3"
    by (auto simp: pg_New_def split: if_splits outcome.splits)
  have "1 \<le> pg_workers c \<and> 1 \<le> pollInterval c \<and> 1 \<le> leaseDuration c"
    using c(1) by (rule pg_apply_options_bounds) (simp_all add: default_pg_config_def)
  with c show ?thesis by auto
qed

lemma pg_New_lease_witness:
  "pollInterval (pg_cfg \<lparr>pg_cfg = default_pg_config, instanceID = ''ab'', pg_state = ExecCreated,
     pg_handlers = [], handledNames = [], active = [], contextsCancelled = [], workCancelledPg = False,
     pg_doneSignals = 0\<rparr>) \<ge> 1"
  using pg_New_lease [of True "''ab''" "[]"] by (simp add: pg_New_def default_pg_config_def)

text \<open>
  The metrics of the table partition it: submitted = completed + failed + cancelled + queued +
  running, where both gauges are counts of rows.
\<close>

theorem pg_Metrics_partition:
  "SubmittedTotal (pg_Metrics t) = CompletedTotal (pg_Metrics t) + FailedTotal (pg_Metrics t) +
     CancelledTotal (pg_Metrics t) + word_of_int (QueueDepth (pg_Metrics t) + RunningNow (pg_Metrics t))"
proof -
  have "length t = length (filter (\<lambda>r. row_status r = Succeeded) t) +
      length (filter (\<lambda>r. row_status r = Failed) t) + length (filter (\<lambda>r. row_status r = Cancelled) t) +
      (length (filter (\<lambda>r. row_status r = Pending \<or> row_status r = Retrying) t) +
       length (filter (\<lambda>r. row_status r = Running) t))"
  proof (induction t)
    case (Cons r t)
    then show ?case by (cases "row_status r") simp_all
  qed simp
  then have "(of_nat (length t) :: 64 word) = of_nat (length (filter (\<lambda>r. row_status r = Succeeded) t) +
      length (filter (\<lambda>r. row_status r = Failed) t) + length (filter (\<lambda>r. row_status r = Cancelled) t) +
      (length (filter (\<lambda>r. row_status r = Pending \<or> row_status r = Retrying) t) +
       length (filter (\<lambda>r. row_status r = Running) t)))" by simp
  then show ?thesis by (simp add: pg_Metrics_def Let_def)
qed

text \<open>Running a delivery that still owns its row.\<close>

lemma distinct_map_unique:
  "distinct (map f xs) \<Longrightarrow> a \<in> set xs \<Longrightarrow> length (filter (\<lambda>x. f x = f a) xs) = 1"
proof (induction xs)
  case (Cons x xs)
  show ?case
  proof (cases "x = a")
    case True
    with Cons.prems(1) have "f a \<notin> f ` set xs" by simp
    then have "\<forall>y \<in> set xs. f y \<noteq> f a" by (metis imageI)
    then have "filter (\<lambda>y. f y = f a) xs = []" by (simp add: filter_empty_conv)
    with True show ?thesis by simp
  next
    case False
    with Cons.prems have "f x \<noteq> f a" "a \<in> set xs" by auto
    with Cons show ?thesis by simp
  qed
qed simp

lemma owned_row:
  assumes "table_inv t" "find_row t (opn_id (del_op d)) = Some r" "owned_where d owner r" "keeps f"
  shows "owned_statement DbOk d owner f t = (fst (sql_update (owned_where d owner) f t), Inr 1)"
    "find_row (fst (sql_update (owned_where d owner) f t)) (opn_id (del_op d)) = Some (f r)"
proof -
  have r: "r \<in> set t" using find_row_Some [OF assms(2)] by simp
  have "filter (owned_where d owner) t = filter (\<lambda>x. row_id x = row_id r) t"
  proof (rule filter_cong [OF refl])
    fix x assume "x \<in> set t"
    with assms(3) show "owned_where d owner x = (row_id x = row_id r)"
      using table_same_id [OF assms(1) r] by (auto simp: owned_where_def)
  qed
  moreover have "length (filter (\<lambda>x. row_id x = row_id r) t) = 1"
    using assms(1) r by (intro distinct_map_unique) (simp_all add: table_inv_def)
  ultimately show "owned_statement DbOk d owner f t = (fst (sql_update (owned_where d owner) f t), Inr 1)"
    by (simp add: owned_statement_def db_exec_def sql_update_def)
  show "find_row (fst (sql_update (owned_where d owner) f t)) (opn_id (del_op d)) = Some (f r)"
    using assms find_row_update [OF assms(4)] by simp
qed

lemma owned_success:
  assumes "table_inv t" "find_row t (opn_id (del_op d)) = Some r" "owned_where d owner r"
  shows "pg_succeed DbOk now d owner res t =
      (fst (sql_update (owned_where d owner) (succeed_set now res) t), None)"
    "find_row (fst (pg_succeed DbOk now d owner res t)) (opn_id (del_op d)) = Some (succeed_set now res r)"
    "find_row (fst (pg_retry DbOk now d owner backoff t)) (opn_id (del_op d)) =
       Some (retry_set now backoff r)"
    "find_row (fst (pg_fail DbOk now d owner err t)) (opn_id (del_op d)) = Some (fail_set now err r)"
    "find_row (fst (pg_releaseLease DbOk now d owner t)) (opn_id (del_op d)) = Some (release_set now r)"
  using owned_row [OF assms]
  by (simp_all add: pg_succeed_def pg_retry_def pg_fail_def pg_releaseLease_def ownedUpdate_def)

text \<open>
  A delivery that still owns its row is always settled by \<open>run\<close>, whatever its handler does:
  the row leaves the running state and its lease. It succeeds exactly when the handler returned
  an encodable result in time; without a handler, or cut off by a shutdown, it is given back with its
  attempt refunded; a public (permanent) error or the last attempt fails it; otherwise it waits for
  its backoff and keeps its attempt.
\<close>

theorem pg_run_settles:
  assumes "table_inv t" "find_row t (opn_id (del_op d)) = Some r" "owned_where d owner r"
  shows "\<exists>r'. find_row (pg_run names marshal still h contextErr DbOk ans2 now now2 others d owner t)
      (opn_id (del_op d)) = Some r' \<and> row_owner r' = None \<and>
    (case (opn_name (del_op d) \<in> set names, run_outcome marshal h contextErr) of
       (True, res, None) \<Rightarrow> row_status r' = Succeeded \<and> row_result r' = Some res
     | (True, _, Some err) \<Rightarrow>
         if context_is contextErr ContextCanceled \<and> \<not> still then
           row_status r' = Retrying \<and> row_next r' = Some now \<and> row_attempt r' = max (row_attempt r - 1) 0
         else if permanent_error err = None \<and> opn_attempt (del_op d) < opn_max_attempts (del_op d) then
           row_status r' = Retrying \<and> row_attempt r' = row_attempt r \<and>
           row_next r' = Some (now + interval_ms (Milliseconds (delivery_backoff d)))
         else row_status r' = Failed
     | (False, _) \<Rightarrow> row_status r' = Retrying \<and> row_attempt r' = max (row_attempt r - 1) 0)"
proof -
  note own = owned_success [OF assms]
  obtain res out where out: "run_outcome marshal h contextErr = (res, out)" by fastforce
  show ?thesis
  proof (cases "opn_name (del_op d) \<in> set names")
    case False
    then show ?thesis using own(5) by (simp add: pg_run_def release_set_def)
  next
    case named: True
    show ?thesis
    proof (cases out)
      case None
      then show ?thesis using named out own(1,2) by (simp add: pg_run_def succeed_set_def)
    next
      case (Some err)
      then show ?thesis
        using named out own(3-5)
        by (simp add: pg_run_def run_error_def retry_set_def fail_set_def release_set_def)
    qed
  qed
qed

lemma pg_run_settles_witness:
  "\<exists>r'. find_row (pg_run [''mail''] (\<lambda>_. Inr ''1'') True (HandlerReturn () None) None DbOk DbOk 30 30
     (\<lambda>t. t) (scanDelivery demo_running) ''w1'' [demo_running]) ''op1'' = Some r' \<and> row_status r' = Succeeded"
proof -
  let ?d = "scanDelivery demo_running"
  have d: "opn_id (del_op ?d) = ''op1''" "opn_name (del_op ?d) = ''mail''" "opn_attempt (del_op ?d) = 1"
    by (simp_all add: scanDelivery_def row_operation_def)
  have "find_row [demo_running] (opn_id (del_op ?d)) = Some demo_running" using d by (simp add: find_row_def)
  moreover have "owned_where ?d ''w1'' demo_running" using d by (simp add: owned_where_def)
  ultimately show ?thesis
    using pg_run_settles [OF demo_running_inv, of ?d demo_running "''w1''" "[''mail'']" "\<lambda>_. Inr ''1''" True
        "HandlerReturn () None" None DbOk 30 30 "\<lambda>t. t"] d
    by (auto simp: run_outcome_def callHandler_def)
qed

section \<open>The executor interface\<close>

text \<open>The PostgreSQL executor provides the same interface, on a connection that works.\<close>

definition pg_get :: "table \<Rightarrow> string \<Rightarrow> operation result" where
  "pg_get t i = pg_Get DbOk i t"

definition pg_cancel :: "(string \<times> string) list \<Rightarrow> int \<Rightarrow> table \<Rightarrow> string \<Rightarrow> table \<times> goerr option" where
  "pg_cancel act now t i = (case pg_Cancel DbOk DbOk now act i t of (t', contexts, err) \<Rightarrow> (t', err))"

lemma pg_get_eq: "pg_get t i = (case find_row t i of None \<Rightarrow> Inl (Sentinel ErrOperationNotFound)
    | Some r \<Rightarrow> Inr (row_operation r))"
  by (simp add: pg_get_def pg_Get_def scanDelivery_def split: option.split)

lemma row_operation_status [simp]: "opn_status (row_operation r) = row_status r"
  by (simp add: row_operation_def)

lemma fst_pg_cancel: "fst (pg_cancel act now t i) = fst (sql_update (cancel_where i) (cancel_set now) t)"
  by (simp add: pg_cancel_def pg_Cancel_def db_exec_def split: prod.split)

lemma cancel_where_iff:
  "cancel_where i r \<longleftrightarrow> row_id r = i \<and> \<not> Terminal (row_status r)"
  by (cases "row_status r") (simp_all add: cancel_where_def)

lemma cancel_unmatched:
  assumes "\<forall>r \<in> set t. \<not> cancel_where i r"
  shows "pg_cancel act now t i =
    (t, if find_row t i = None then Some (Sentinel ErrOperationNotFound) else None)"
proof -
  have "map (\<lambda>r. if cancel_where i r then cancel_set now r else r) t = t"
    using assms by (intro map_idI) simp
  with assms show ?thesis
    by (simp add: pg_cancel_def pg_Cancel_def db_exec_def sql_update_def filter_empty_conv)
qed

lemma cancel_matched:
  assumes "table_inv t" "find_row t i = Some r" "\<not> Terminal (row_status r)"
  shows "snd (pg_cancel act now t i) = None"
    "find_row (fst (pg_cancel act now t i)) i = Some (cancel_set now r)"
proof -
  have "r \<in> set t" "cancel_where i r"
    using find_row_Some [OF assms(2)] assms(3) by (simp_all add: cancel_where_iff)
  then have "filter (cancel_where i) t \<noteq> []" by (auto simp: filter_empty_conv)
  then show "snd (pg_cancel act now t i) = None"
    by (simp add: pg_cancel_def pg_Cancel_def db_exec_def sql_update_def split: prod.split)
  show "find_row (fst (pg_cancel act now t i)) i = Some (cancel_set now r)"
    unfolding fst_pg_cancel
    using find_row_update [of "cancel_set now" "cancel_where i" t i] assms(2) \<open>cancel_where i r\<close> by simp
qed

lemma not_found_where: "find_row t i = None \<Longrightarrow> \<forall>r \<in> set t. \<not> cancel_where i r"
  by (auto simp: find_row_def find_None_iff cancel_where_def)

lemma finished_where:
  assumes "table_inv t" "find_row t i = Some r" "Terminal (row_status r)"
  shows "\<forall>r' \<in> set t. \<not> cancel_where i r'"
  using table_same_id [OF assms(1)] find_row_Some [OF assms(2)] assms(3) cancel_where_iff by metis

interpretation pg: async_waiter pg_get "pg_cancel act now" table_inv "\<lambda>t i. pg_Wait_turn DbOk None i t"
  for act now
proof unfold_locales
  fix s i
  assume inv: "table_inv s"
  show "opn_id op = i" if "pg_get s i = Inr op" for op
    using that find_row_Some by (auto simp: pg_get_eq row_operation_def split: option.splits)
  show "err = Sentinel ErrOperationNotFound" if "pg_get s i = Inl err" for err
    using that by (auto simp: pg_get_eq split: option.splits)
  show "table_inv (fst (pg_cancel act now s i))"
    unfolding fst_pg_cancel by (rule table_inv_update [OF inv]) (simp_all add: row_inv_cancel)
  show "\<exists>s' op'. pg_cancel act now s i = (s', None) \<and> pg_get s' i = Inr op' \<and> opn_status op' = Cancelled"
    if op: "pg_get s i = Inr op" "\<not> Terminal (opn_status op)" for op
  proof -
    obtain r where r: "find_row s i = Some r" "op = row_operation r"
      using op(1) by (auto simp: pg_get_eq split: option.splits)
    with cancel_matched [OF inv r(1), of act now] op(2) show ?thesis
      by (intro exI [of _ "fst (pg_cancel act now s i)"] exI [of _ "row_operation (cancel_set now r)"])
        (simp add: pg_get_eq prod_eq_iff cancel_set_def)
  qed
  show "pg_cancel act now s i = (s, None)" if op: "pg_get s i = Inr op" "Terminal (opn_status op)" for op
  proof -
    obtain r where r: "find_row s i = Some r" "op = row_operation r"
      using op(1) by (auto simp: pg_get_eq split: option.splits)
    with cancel_unmatched [OF finished_where [OF inv r(1)]] op(2) show ?thesis by simp
  qed
  show "pg_cancel act now s i = (s, Some (Sentinel ErrOperationNotFound))" if "pg_get s i = Inl err" for err
  proof -
    have "find_row s i = None" using that by (auto simp: pg_get_eq split: option.splits)
    with cancel_unmatched [OF not_found_where [OF this]] show ?thesis by simp
  qed
  show "pg_get (fst (pg_cancel act now s i)) j = pg_get s j" if "j \<noteq> i" for j
  proof -
    have "map_option (\<lambda>r. if cancel_where i r then cancel_set now r else r) (find_row s j) = find_row s j"
      using that find_row_Some [of s j] by (cases "find_row s j") (auto simp: cancel_where_def)
    then show ?thesis
      unfolding pg_get_eq fst_pg_cancel by (simp add: find_row_update)
  qed
  show "r = pg_get s i" if "pg_Wait_turn DbOk None i s = Some r" for r
    using that by (auto simp: pg_Wait_turn_def pg_get_def split: sum.splits if_splits)
  show "(pg_Wait_turn DbOk None i s = None) = (\<exists>op. pg_get s i = Inr op \<and> \<not> Terminal (opn_status op))"
    by (auto simp: pg_Wait_turn_def pg_get_def split: sum.splits)
qed

text \<open>
  Cancelling over HTTP with the PostgreSQL executor has the same effect as with the in-memory
  one, for every reachable table: nothing and a reason, or exactly the named operation finished.
\<close>

theorem pg_cancel_handler:
  assumes "pg_reachable s"
  shows "case OperationCancelHandler pg_get (pg_cancel act now) authorize (tbl s) i of
      (t', None) \<Rightarrow> table_inv t' \<and> (\<forall>j. j \<noteq> i \<longrightarrow> pg_get t' j = pg_get (tbl s) j) \<and>
        (\<exists>op op'. pg_get (tbl s) i = Inr op \<and> authorize op = None \<and> pg_get t' i = Inr op' \<and>
           Terminal (opn_status op') \<and> (Terminal (opn_status op) \<longrightarrow> t' = tbl s))
    | (t', Some err) \<Rightarrow> t' = tbl s \<and>
        (pg_get (tbl s) i = Inl err \<or> (\<exists>op. pg_get (tbl s) i = Inr op \<and> authorize op = Some err))"
  using pg_reachable_inv [OF assms, THEN conjunct1] by (rule pg.cancel_handler)

lemma pg_cancel_handler_witness:
  "fst (OperationCancelHandler pg_get (pg_cancel [] 50) (\<lambda>op. Some (Sentinel ErrInvalidOperation))
     (tbl demo_system) ''op1'') = tbl demo_system"
  using pg_cancel_handler [OF demo_system_reachable, where act = "[]" and now = 50
      and authorize = "\<lambda>op. Some (Sentinel ErrInvalidOperation)" and i = "''op1''"]
  by (auto split: prod.splits option.splits)

end
