(* ===== verification/Base64.thy ===== *)
theory Base64
  imports Prelude
begin

text \<open>
  \<open>base64.RawURLEncoding\<close>: the alphabet of RFC 4648 section 5 without padding. The decoder skips
  carriage returns and line feeds and does not insist on zero trailing bits, as Go's does not.
\<close>

definition b64_char :: "nat \<Rightarrow> char" where
  "b64_char n = char_of (if n < 26 then 65 + n else if n < 52 then 71 + n else if n < 62 then n - 4
     else if n = 62 then 45 else 95)"

definition b64_value :: "char \<Rightarrow> nat option" where
  "b64_value c = (let n = of_char c :: nat in
     if 65 \<le> n \<and> n \<le> 90 then Some (n - 65)
     else if 97 \<le> n \<and> n \<le> 122 then Some (n - 71)
     else if 48 \<le> n \<and> n \<le> 57 then Some (n + 4)
     else if n = 45 then Some 62 else if n = 95 then Some 63 else None)"

fun b64_encode_values :: "nat list \<Rightarrow> nat list" where
  "b64_encode_values [] = []"
| "b64_encode_values [a] = [a div 4, a mod 4 * 16]"
| "b64_encode_values [a, b] = [a div 4, a mod 4 * 16 + b div 16, b mod 16 * 4]"
| "b64_encode_values (a # b # c # rest) =
     [a div 4, a mod 4 * 16 + b div 16, b mod 16 * 4 + c div 64, c mod 64] @ b64_encode_values rest"

fun b64_decode_values :: "nat list \<Rightarrow> nat list option" where
  "b64_decode_values [] = Some []"
| "b64_decode_values [a] = None"
| "b64_decode_values [a, b] = Some [a * 4 + b div 16]"
| "b64_decode_values [a, b, c] = Some [a * 4 + b div 16, b mod 16 * 16 + c div 4]"
| "b64_decode_values (a # b # c # d # rest) = map_option
     (\<lambda>xs. [a * 4 + b div 16, b mod 16 * 16 + c div 4, c mod 4 * 64 + d] @ xs) (b64_decode_values rest)"

definition EncodeToString :: "string \<Rightarrow> string" where
  "EncodeToString s = map b64_char (b64_encode_values (map of_char s))"

fun b64_values :: "string \<Rightarrow> nat list option" where
  "b64_values [] = Some []"
| "b64_values (c # cs) = (case (b64_value c, b64_values cs) of
     (Some v, Some vs) \<Rightarrow> Some (v # vs) | _ \<Rightarrow> None)"

definition DecodeString :: "string \<Rightarrow> string option" where
  "DecodeString s = (case b64_values (filter (\<lambda>c. c \<noteq> CHR 0x0A \<and> c \<noteq> CHR 0x0D) s) of
     None \<Rightarrow> None
   | Some vs \<Rightarrow> map_option (map char_of) (b64_decode_values vs))"

section \<open>Round trip\<close>

lemma b64_value_char: "n < 64 \<Longrightarrow> b64_value (b64_char n) = Some n"
  by (auto simp: b64_value_def b64_char_def Let_def of_char_of)

lemma b64_char_visible: "n < 64 \<Longrightarrow> visible (b64_char n)"
  by (auto simp: visible_def b64_char_def Let_def of_char_of)

text \<open>The six-bit groups of three bytes.\<close>

lemma b64_groups:
  assumes "(a::nat) < 256" "b < 256" "c < 256"
  shows "a div 4 < 64" "a mod 4 * 16 + b div 16 < 64" "b mod 16 * 4 + c div 64 < 64" "c mod 64 < 64"
    "a div 4 * 4 + (a mod 4 * 16 + b div 16) div 16 = a"
    "(a mod 4 * 16 + b div 16) mod 16 * 16 + (b mod 16 * 4 + c div 64) div 4 = b"
    "(b mod 16 * 4 + c div 64) mod 4 * 64 + c mod 64 = c"
proof -
  have d: "b div 16 < 16" "c div 64 < 4" "a div 4 < 64" using assms by (simp_all add: less_mult_imp_div_less)
  have m: "a mod 4 < 4" "b mod 16 < 16" "c mod 64 < 64" by simp_all
  show "a div 4 < 64" "c mod 64 < 64" using d by simp_all
  show "a mod 4 * 16 + b div 16 < 64" "b mod 16 * 4 + c div 64 < 64" using d m by linarith+
  show "a div 4 * 4 + (a mod 4 * 16 + b div 16) div 16 = a" using d by simp
  show "(a mod 4 * 16 + b div 16) mod 16 * 16 + (b mod 16 * 4 + c div 64) div 4 = b" using d by simp
  show "(b mod 16 * 4 + c div 64) mod 4 * 64 + c mod 64 = c" using d by simp
qed

lemma b64_encode_bound:
  "\<forall>x \<in> set xs. x < 256 \<Longrightarrow> \<forall>v \<in> set (b64_encode_values xs). v < 64"
proof (induction xs rule: b64_encode_values.induct)
  case (4 a b c rest)
  then have "a < 256" "b < 256" "c < 256" by auto
  from b64_groups(1-4) [OF this] 4 show ?case by simp
next
  case (2 a)
  then have "a < 256" by simp
  then show ?case using b64_groups(1,2) [of a 0 0] by simp
next
  case (3 a b)
  then have "a < 256" "b < 256" by simp_all
  then show ?case using b64_groups(1-3) [of a b 0] by simp
qed simp

lemma b64_decode_encode:
  "\<forall>x \<in> set xs. x < 256 \<Longrightarrow> b64_decode_values (b64_encode_values xs) = Some xs"
proof (induction xs rule: b64_encode_values.induct)
  case (4 a b c rest)
  then have "a < 256" "b < 256" "c < 256" by auto
  from b64_groups(5-7) [OF this] 4 show ?case by simp
next
  case (2 a)
  then show ?case using b64_groups(5) [of a 0 0] by simp
next
  case (3 a b)
  then show ?case using b64_groups(5,6) [of a b 0] by simp
qed simp

lemma b64_values_map: "\<forall>v \<in> set vs. v < 64 \<Longrightarrow> b64_values (map b64_char vs) = Some vs"
  by (induction vs) (simp_all add: b64_value_char)

lemma bytes_bound: "\<forall>x \<in> set (map of_char s). (x :: nat) < 256"
  by simp

lemma EncodeToString_visible: "\<forall>c \<in> set (EncodeToString s). visible c"
  using b64_encode_bound [OF bytes_bound [of s]] b64_char_visible by (auto simp: EncodeToString_def)

lemma DecodeString_Encode [simp]: "DecodeString (EncodeToString s) = Some s"
proof -
  let ?vs = "b64_encode_values (map of_char s)"
  have "filter (\<lambda>c. c \<noteq> CHR 0x0A \<and> c \<noteq> CHR 0x0D) (EncodeToString s) = EncodeToString s"
    using EncodeToString_visible [of s] by (auto simp: filter_id_conv visible_def)
  moreover have "b64_values (EncodeToString s) = Some ?vs"
    unfolding EncodeToString_def by (rule b64_values_map [OF b64_encode_bound [OF bytes_bound]])
  ultimately show ?thesis
    by (simp add: DecodeString_def b64_decode_encode [OF bytes_bound] o_def)
qed

end
