(* ===== verification/Session.thy ===== *)
theory Session
  imports Errors Base64
begin

text \<open>
  The encrypted cookie sessions of \<open>session/session.go\<close>, \<open>manager.go\<close> and \<open>cookie.go\<close>. The record
  \<open>session_lib\<close> collects what the code takes from elsewhere: the AES-GCM key objects, the JSON coding
  of a payload, and the rendering and validation of an \<open>http.Cookie\<close>. Random nonces and the clock
  (Unix seconds) are arguments. A JSON object of values is an association list.
\<close>

section \<open>Data\<close>

record payload =
  IssuedAt :: int
  Values :: "(string \<times> string) list"
  FlashValues :: "string list"

definition newPayload :: payload where
  "newPayload = \<lparr>IssuedAt = 0, Values = [], FlashValues = []\<rparr>"

datatype same_site = SameSiteUnset | SameSiteDefault | SameSiteLax | SameSiteStrict | SameSiteNone

record http_cookie =
  ck_name :: string
  ck_value :: string
  ck_path :: string
  ck_domain :: string
  ck_expires :: int
  ck_maxAge :: int
  ck_secure :: bool
  ck_httpOnly :: bool
  ck_sameSite :: same_site

record 'k session_lib =
  newAEAD :: "string \<Rightarrow> 'k result"
  nonceSize :: "'k \<Rightarrow> nat"
  tagOverhead :: "'k \<Rightarrow> nat"
  aeadSeal :: "'k \<Rightarrow> string \<Rightarrow> string \<Rightarrow> string \<Rightarrow> string"
  aeadOpen :: "'k \<Rightarrow> string \<Rightarrow> string \<Rightarrow> string \<Rightarrow> string option"
  jsonMarshal :: "payload \<Rightarrow> string result"
  jsonUnmarshal :: "string \<Rightarrow> payload option"
  renderCookie :: "http_cookie \<Rightarrow> string"
  cookieValid :: "http_cookie \<Rightarrow> goerr option"

record 'k manager =
  mg_keys :: "'k list"
  mg_name :: string
  mg_path :: string
  mg_domain :: string
  mg_maxAge :: int
  mg_sameSite :: same_site
  mg_secure :: bool

record session_config =
  cf_keys :: "string list"
  cf_name :: string
  cf_path :: string
  cf_domain :: string
  cf_maxAge :: int
  cf_sameSite :: same_site
  cf_insecure :: bool

abbreviation second_ns :: int where "second_ns \<equiv> 1000000000"

definition maxCookieBytes :: nat where "maxCookieBytes = 4096"

section \<open>Manager\<close>

definition manager_cookie :: "'k manager \<Rightarrow> string \<Rightarrow> int \<Rightarrow> int \<Rightarrow> http_cookie" where
  "manager_cookie mg value maxAge expires =
     \<lparr>ck_name = mg_name mg, ck_value = value, ck_path = mg_path mg, ck_domain = mg_domain mg,
      ck_expires = expires, ck_maxAge = maxAge, ck_secure = mg_secure mg, ck_httpOnly = True,
      ck_sameSite = mg_sameSite mg\<rparr>"

definition expiredCookie :: "'k manager \<Rightarrow> http_cookie" where
  "expiredCookie mg = manager_cookie mg [] (- 1) 1"

definition manager_defaults :: "'k manager \<Rightarrow> 'k manager" where
  "manager_defaults mg = mg\<lparr>
     mg_name := (if mg_name mg = [] then (if mg_secure mg then ''__Host-vial_session'' else ''vial_session'')
       else mg_name mg),
     mg_path := (if mg_path mg = [] then ''/'' else mg_path mg),
     mg_maxAge := (if mg_maxAge mg = 0 then 24 * 3600 * second_ns else mg_maxAge mg),
     mg_sameSite := (if mg_sameSite mg = SameSiteUnset then SameSiteLax else mg_sameSite mg)\<rparr>"

definition validateSecurity :: "'k manager \<Rightarrow> goerr option" where
  "validateSecurity mg =
    (if mg_sameSite mg \<notin> {SameSiteLax, SameSiteStrict, SameSiteNone} then
       Some (Opaque ''session: SameSite must be Lax, Strict, or None'')
     else if mg_sameSite mg = SameSiteNone \<and> \<not> mg_secure mg then
       Some (Opaque ''session: SameSite=None requires secure cookies'')
     else if has_prefix (mg_name mg) ''__Host-'' \<and> (\<not> mg_secure mg \<or> mg_path mg \<noteq> ''/'' \<or> mg_domain mg \<noteq> []) then
       Some (Opaque ''session: __Host- cookies require Secure, Path=/, and no Domain'')
     else if has_prefix (mg_name mg) ''__Secure-'' \<and> \<not> mg_secure mg then
       Some (Opaque ''session: __Secure- cookies require Secure'')
     else None)"

text \<open>\<open>validate\<close>; \<open>now\<close> in seconds. \<open>int\<close> is 64 bits wide.\<close>

definition validate_manager :: "'k session_lib \<Rightarrow> int \<Rightarrow> 'k manager \<Rightarrow> goerr option" where
  "validate_manager L now mg =
    (if \<not> has_prefix (mg_path mg) ''/'' then Some (Opaque ''session: cookie path must start with /'')
     else if mg_maxAge mg < second_ns \<or> mg_maxAge mg mod second_ns \<noteq> 0 \<or>
         mg_maxAge mg div second_ns > 2 ^ 63 - 1 then
       Some (Opaque ''session: MaxAge must fit a positive whole number of seconds'')
     else case validateSecurity mg of Some err \<Rightarrow> Some err
       | None \<Rightarrow> map_option (Wrapf ''session: invalid cookie configuration: '')
           (cookieValid L (manager_cookie mg ''probe'' (mg_maxAge mg div second_ns)
              (now + mg_maxAge mg div second_ns))))"

fun derive_keys :: "'k session_lib \<Rightarrow> string list \<Rightarrow> 'k list result" where
  "derive_keys L [] = Inr []"
| "derive_keys L (key # secrets) =
    (if length key < 32 then Inl (Opaque ''session: key must contain at least 32 bytes'')
     else case newAEAD L key of Inl err \<Rightarrow> Inl (Wrapf ''session: initialize key'' err)
       | Inr k \<Rightarrow> (case derive_keys L secrets of Inl err \<Rightarrow> Inl err | Inr ks \<Rightarrow> Inr (k # ks)))"

definition ReplaceKeys :: "'k session_lib \<Rightarrow> string list \<Rightarrow> 'k manager \<Rightarrow> 'k manager \<times> goerr option" where
  "ReplaceKeys L secrets mg =
    (if secrets = [] then (mg, Some (Opaque ''session: at least one key is required''))
     else case derive_keys L secrets of Inl err \<Rightarrow> (mg, Some err)
       | Inr ks \<Rightarrow> (mg\<lparr>mg_keys := ks\<rparr>, None))"

definition session_New :: "'k session_lib \<Rightarrow> int \<Rightarrow> session_config \<Rightarrow> 'k manager result" where
  "session_New L now cf =
    (let mg = manager_defaults \<lparr>mg_keys = [], mg_name = trim_space (cf_name cf), mg_path = cf_path cf,
           mg_domain = cf_domain cf, mg_maxAge = cf_maxAge cf, mg_sameSite = cf_sameSite cf,
           mg_secure = \<not> cf_insecure cf\<rparr>
     in case validate_manager L now mg of Some err \<Rightarrow> Inl err
        | None \<Rightarrow> (case ReplaceKeys L (cf_keys cf) mg of (mg', Some err) \<Rightarrow> Inl err
            | (mg', None) \<Rightarrow> Inr mg'))"

section \<open>Cookies\<close>

definition max_age_seconds :: "'k manager \<Rightarrow> int" where
  "max_age_seconds mg = mg_maxAge mg div second_ns"

fun decode_keys ::
  "'k session_lib \<Rightarrow> 'k manager \<Rightarrow> int \<Rightarrow> string \<Rightarrow> nat \<Rightarrow> 'k list \<Rightarrow> payload \<times> int \<times> bool" where
  "decode_keys L mg now encoded idx [] = (newPayload, -1, False)"
| "decode_keys L mg now encoded idx (k # ks) =
    (if length encoded < 1 + nonceSize L k + tagOverhead L k then
       decode_keys L mg now encoded (Suc idx) ks
     else
       let nonce = take (nonceSize L k) (drop 1 encoded);
           ciphertext = drop (1 + nonceSize L k) encoded
       in case aeadOpen L k nonce ciphertext (mg_name mg) of
            None \<Rightarrow> decode_keys L mg now encoded (Suc idx) ks
          | Some plaintext \<Rightarrow>
              (case jsonUnmarshal L plaintext of
                 None \<Rightarrow> decode_keys L mg now encoded (Suc idx) ks
               | Some decoded \<Rightarrow>
                   if IssuedAt decoded \<le> 0 \<or> IssuedAt decoded > now + 60 \<or>
                       IssuedAt decoded \<le> now - max_age_seconds mg then
                     decode_keys L mg now encoded (Suc idx) ks
                   else (decoded, int idx, True)))"

definition decode :: "'k session_lib \<Rightarrow> 'k manager \<Rightarrow> int \<Rightarrow> string \<Rightarrow> payload \<times> int \<times> bool" where
  "decode L mg now value = (case DecodeString value of
     None \<Rightarrow> (newPayload, -1, False)
   | Some encoded \<Rightarrow>
       if encoded = [] \<or> hd encoded \<noteq> CHR 0x01 then (newPayload, -1, False)
       else decode_keys L mg now encoded 0 (mg_keys mg))"

text \<open>\<open>seal\<close>; \<open>nonce\<close> is what the random source gives. A manager always has a key.\<close>

definition seal :: "'k session_lib \<Rightarrow> 'k manager \<Rightarrow> string result \<Rightarrow> payload \<Rightarrow> string result" where
  "seal L mg nonce data = (case jsonMarshal L data of
     Inl err \<Rightarrow> Inl (Wrapf ''session: encode cookie: '' err)
   | Inr plaintext \<Rightarrow>
       (case nonce of Inl err \<Rightarrow> Inl (Wrapf ''session: generate nonce: '' err)
        | Inr nonce \<Rightarrow> Inr (EncodeToString (CHR 0x01 # nonce @
            aeadSeal L (hd (mg_keys mg)) nonce plaintext (mg_name mg)))))"

definition encodedCookie ::
  "'k session_lib \<Rightarrow> 'k manager \<Rightarrow> int \<Rightarrow> string result \<Rightarrow> payload \<Rightarrow> string result" where
  "encodedCookie L mg now nonce data =
    (if Values data = [] \<and> FlashValues data = [] then Inr (renderCookie L (expiredCookie mg))
     else
       let data = (if IssuedAt data = 0 then data\<lparr>IssuedAt := now\<rparr> else data);
           expires = IssuedAt data + max_age_seconds mg;
           remaining = expires - now
       in if remaining \<le> 0 then Inr (renderCookie L (expiredCookie mg))
          else case seal L mg nonce data of Inl err \<Rightarrow> Inl err
            | Inr value \<Rightarrow>
                let serialized = renderCookie L (manager_cookie mg value remaining expires)
                in if serialized = [] then Inl (Opaque ''session: invalid cookie'')
                   else if length serialized > maxCookieBytes then Inl (Sentinel ErrSessionTooLarge)
                   else Inr serialized)"

section \<open>Session\<close>

record session =
  ses_data :: payload
  ses_pending :: string

text \<open>\<open>load\<close>; the cookie of the request is a value, or the error of \<open>Request.Cookie\<close>.\<close>

definition load ::
  "'k session_lib \<Rightarrow> 'k manager \<Rightarrow> int \<Rightarrow> string result \<Rightarrow> string result \<Rightarrow> session result" where
  "load L mg now nonce cookie =
    (let current = \<lparr>ses_data = newPayload, ses_pending = []\<rparr>
     in case cookie of
          Inl err \<Rightarrow> if errors_Is err HttpErrNoCookie then Inr current
            else Inl (Wrapf ''session: read cookie: '' err)
        | Inr value \<Rightarrow>
            (case (if length value \<le> maxCookieBytes then decode L mg now value else (newPayload, -1, False)) of
               (decoded, keyIndex, ok) \<Rightarrow>
                 if \<not> ok then Inr (current\<lparr>ses_pending := renderCookie L (expiredCookie mg)\<rparr>)
                 else if keyIndex > 0 then
                   (case encodedCookie L mg now nonce decoded of
                      Inl err \<Rightarrow> Inl (Wrapf ''session: rotate cookie: '' err)
                    | Inr p \<Rightarrow> Inr \<lparr>ses_data = decoded, ses_pending = p\<rparr>)
                 else Inr (current\<lparr>ses_data := decoded\<rparr>)))"

definition session_Get :: "session option \<Rightarrow> string \<Rightarrow> string \<times> bool" where
  "session_Get s key = (case s of None \<Rightarrow> ([], False)
     | Some s \<Rightarrow> (case map_of (Values (ses_data s)) key of None \<Rightarrow> ([], False) | Some v \<Rightarrow> (v, True)))"

definition session_mutable :: "session option \<Rightarrow> bool \<Rightarrow> goerr option" where
  "session_mutable s committed = (if s = None then Some (Sentinel ErrSessionUnavailable)
     else if committed then Some (Sentinel ErrSessionCommitted) else None)"

text \<open>
  \<open>change\<close> with the mutation \<open>f\<close> (\<open>None\<close> when it reports no change); the response may be committed
  at the first test or at the second one, under the lock.
\<close>

definition session_change ::
  "'k session_lib \<Rightarrow> 'k manager \<Rightarrow> int \<Rightarrow> string result \<Rightarrow> bool \<Rightarrow> bool \<Rightarrow> (payload \<Rightarrow> payload option) \<Rightarrow>
     session option \<Rightarrow> session option \<times> goerr option" where
  "session_change L mg now nonce committed committed' f s =
    (case session_mutable s committed of Some err \<Rightarrow> (s, Some err)
     | None \<Rightarrow>
         (case s of None \<Rightarrow> (s, None)
          | Some s0 \<Rightarrow>
              if committed' then (s, Some (Sentinel ErrSessionCommitted))
              else case f (ses_data s0) of None \<Rightarrow> (s, None)
                | Some candidate \<Rightarrow>
                    let candidate = (if IssuedAt candidate = 0 then candidate\<lparr>IssuedAt := now\<rparr> else candidate)
                    in case encodedCookie L mg now nonce candidate of
                         Inl err \<Rightarrow> (s, Some err)
                       | Inr p \<Rightarrow> (Some \<lparr>ses_data = candidate, ses_pending = p\<rparr>, None)))"

definition set_value :: "string \<Rightarrow> string \<Rightarrow> payload \<Rightarrow> payload option" where
  "set_value key v d = (if map_of (Values d) key = Some v then None
     else Some (d\<lparr>Values := alist_put key v (Values d)\<rparr>))"

definition delete_value :: "string \<Rightarrow> payload \<Rightarrow> payload option" where
  "delete_value key d = (if map_of (Values d) key = None then None
     else Some (d\<lparr>Values := alist_del key (Values d)\<rparr>))"

definition add_flash :: "string \<Rightarrow> payload \<Rightarrow> payload option" where
  "add_flash v d = Some (d\<lparr>FlashValues := FlashValues d @ [v]\<rparr>)"

definition take_flashes :: "payload \<Rightarrow> payload option" where
  "take_flashes d = (if FlashValues d = [] then None else Some (d\<lparr>FlashValues := []\<rparr>))"

definition session_Set ::
  "'k session_lib \<Rightarrow> 'k manager \<Rightarrow> int \<Rightarrow> string result \<Rightarrow> bool \<Rightarrow> bool \<Rightarrow> string \<Rightarrow> string \<Rightarrow>
     session option \<Rightarrow> session option \<times> goerr option" where
  "session_Set L mg now nonce committed committed' key v s =
     session_change L mg now nonce committed committed' (set_value key v) s"

definition session_Delete ::
  "'k session_lib \<Rightarrow> 'k manager \<Rightarrow> int \<Rightarrow> string result \<Rightarrow> bool \<Rightarrow> bool \<Rightarrow> string \<Rightarrow>
     session option \<Rightarrow> session option \<times> goerr option" where
  "session_Delete L mg now nonce committed committed' key s =
     session_change L mg now nonce committed committed' (delete_value key) s"

definition session_AddFlash ::
  "'k session_lib \<Rightarrow> 'k manager \<Rightarrow> int \<Rightarrow> string result \<Rightarrow> bool \<Rightarrow> bool \<Rightarrow> string \<Rightarrow>
     session option \<Rightarrow> session option \<times> goerr option" where
  "session_AddFlash L mg now nonce committed committed' v s =
     session_change L mg now nonce committed committed' (add_flash v) s"

definition session_Flashes ::
  "'k session_lib \<Rightarrow> 'k manager \<Rightarrow> int \<Rightarrow> string result \<Rightarrow> bool \<Rightarrow> bool \<Rightarrow> session option \<Rightarrow>
     session option \<times> string list result" where
  "session_Flashes L mg now nonce committed committed' s =
    (case session_change L mg now nonce committed committed' take_flashes s of
       (s', Some err) \<Rightarrow> (s', Inl err)
     | (s', None) \<Rightarrow> (s', Inr (case s of None \<Rightarrow> [] | Some s0 \<Rightarrow> FlashValues (ses_data s0))))"

definition session_Destroy ::
  "'k session_lib \<Rightarrow> 'k manager \<Rightarrow> bool \<Rightarrow> bool \<Rightarrow> session option \<Rightarrow> session option \<times> goerr option" where
  "session_Destroy L mg committed committed' s =
    (case session_mutable s committed of Some err \<Rightarrow> (s, Some err)
     | None \<Rightarrow> if committed' then (s, Some (Sentinel ErrSessionCommitted))
        else (Some \<lparr>ses_data = newPayload, ses_pending = renderCookie L (expiredCookie mg)\<rparr>, None))"

definition beforeCommit :: "session \<Rightarrow> header \<Rightarrow> header" where
  "beforeCommit s h = (if ses_pending s \<noteq> [] then header_add ''Set-Cookie'' (ses_pending s) h else h)"

section \<open>Sealing and opening\<close>

text \<open>
  What AES-GCM promises for one key: a sealed text is as long as its plaintext and the tag, and
  opens to the plaintext with the same nonce and additional data.
\<close>

definition aead_correct :: "'k session_lib \<Rightarrow> 'k \<Rightarrow> bool" where
  "aead_correct L k \<longleftrightarrow> (\<forall>nonce p ad. length nonce = nonceSize L k \<longrightarrow>
     aeadOpen L k nonce (aeadSeal L k nonce p ad) ad = Some p \<and>
     length (aeadSeal L k nonce p ad) = length p + tagOverhead L k)"

text \<open>A key that does not open a cookie value.\<close>

definition rejects :: "'k session_lib \<Rightarrow> string \<Rightarrow> string \<Rightarrow> 'k \<Rightarrow> bool" where
  "rejects L name value k \<longleftrightarrow> (case DecodeString value of None \<Rightarrow> True
     | Some enc \<Rightarrow> aeadOpen L k (take (nonceSize L k) (drop 1 enc)) (drop (1 + nonceSize L k) enc) name = None)"

definition live_payload :: "'k manager \<Rightarrow> int \<Rightarrow> payload \<Rightarrow> bool" where
  "live_payload mg now d \<longleftrightarrow>
     0 < IssuedAt d \<and> IssuedAt d \<le> now + 60 \<and> now - max_age_seconds mg < IssuedAt d"

lemma decode_keys_skip:
  assumes "\<forall>k \<in> set pre. aeadOpen L k (take (nonceSize L k) (drop 1 enc)) (drop (1 + nonceSize L k) enc) (mg_name mg) = None"
  shows "decode_keys L mg now enc idx (pre @ ks) = decode_keys L mg now enc (idx + length pre) ks"
  using assms by (induction pre arbitrary: idx) (simp_all add: Let_def)

lemma decode_keys_sound:
  "decode_keys L mg now enc idx ks = (d, i, True) \<Longrightarrow>
   \<exists>j < length ks. i = int (idx + j) \<and> live_payload mg now d \<and>
     (\<exists>p. aeadOpen L (ks ! j) (take (nonceSize L (ks ! j)) (drop 1 enc))
        (drop (1 + nonceSize L (ks ! j)) enc) (mg_name mg) = Some p \<and> jsonUnmarshal L p = Some d)"
proof (induction ks arbitrary: idx)
  case (Cons k ks)
  show ?case
  proof (cases "decode_keys L mg now enc idx (k # ks) = decode_keys L mg now enc (Suc idx) ks")
    case True
    with Cons.prems Cons.IH [of "Suc idx"] obtain j where "j < length ks" "i = int (Suc idx + j)"
      "live_payload mg now d"
      "\<exists>p. aeadOpen L (ks ! j) (take (nonceSize L (ks ! j)) (drop 1 enc))
        (drop (1 + nonceSize L (ks ! j)) enc) (mg_name mg) = Some p \<and> jsonUnmarshal L p = Some d"
      by auto
    then show ?thesis by (intro exI [of _ "Suc j"]) simp
  next
    case False
    with Cons.prems show ?thesis
      by (intro exI [of _ 0])
        (auto simp: Let_def live_payload_def split: if_splits option.splits)
  qed
qed simp

section \<open>Properties\<close>

text \<open>A small instance of the library, to apply the theorems to.\<close>

definition demo_payload :: payload where
  "demo_payload = \<lparr>IssuedAt = 1000, Values = [(''user'', ''7'')], FlashValues = [''hi'']\<rparr>"

definition demo_lib :: "string session_lib" where
  "demo_lib = \<lparr>newAEAD = Inr, nonceSize = (\<lambda>k. 2), tagOverhead = length, aeadSeal = (\<lambda>k n p ad. p @ k),
     aeadOpen = (\<lambda>k n c ad. if has_suffix c k then Some (take (length c - length k) c) else None),
     jsonMarshal = (\<lambda>d. Inr ''payload''), jsonUnmarshal = (\<lambda>s. Some demo_payload),
     renderCookie = (\<lambda>c. ck_name c @ ''='' @ ck_value c), cookieValid = (\<lambda>c. None)\<rparr>"

definition demo_manager :: "string list \<Rightarrow> string manager" where
  "demo_manager ks = \<lparr>mg_keys = ks, mg_name = ''s'', mg_path = ''/'', mg_domain = [],
     mg_maxAge = 3600 * 1000000000, mg_sameSite = SameSiteLax, mg_secure = True\<rparr>"

text \<open>
  A sealed session survives the trip to the browser and a key rotation: a cookie value sealed
  under a key is decoded to the same payload by any manager of the same name that still lists the
  key, at the position of that key, provided the newer keys reject it and the payload is within its
  lifetime.
\<close>

theorem session_roundtrip:
  assumes "seal L mg (Inr nonce) d = Inr value" "jsonMarshal L d = Inr p" "jsonUnmarshal L p = Some d"
    and "mg_keys mg = k # others" "aead_correct L k" "length nonce = nonceSize L k"
    and "mg_name mg' = mg_name mg" "mg_keys mg' = newer @ k # older"
    and "\<forall>k' \<in> set newer. rejects L (mg_name mg) value k'" "live_payload mg' now d"
  shows "decode L mg' now value = (d, int (length newer), True)"
proof -
  let ?c = "aeadSeal L k nonce p (mg_name mg)"
  let ?enc = "CHR 0x01 # nonce @ ?c"
  have v: "value = EncodeToString ?enc" using assms(1,2,4) by (simp add: seal_def)
  have op: "aeadOpen L k nonce ?c (mg_name mg) = Some p" "length ?c = length p + tagOverhead L k"
    using assms(5,6) by (simp_all add: aead_correct_def)
  have "decode L mg' now value = decode_keys L mg' now ?enc 0 (newer @ k # older)"
    using assms(8) by (simp add: decode_def v)
  also have "\<dots> = decode_keys L mg' now ?enc (length newer) (k # older)"
    using decode_keys_skip [of newer L ?enc mg' now 0 "k # older"] assms(7,9)
    by (simp add: rejects_def v)
  also have "\<dots> = (d, int (length newer), True)"
    using op assms(3,6,7,10) by (simp add: live_payload_def)
  finally show ?thesis .
qed

lemma session_roundtrip_witness:
  "decode demo_lib (demo_manager [''new'', ''old'']) 2000
     (EncodeToString ([CHR 0x01] @ ''nn'' @ ''payload'' @ ''old'')) = (demo_payload, 1, True)"
proof -
  have "seal demo_lib (demo_manager [''old'']) (Inr ''nn'') demo_payload =
      Inr (EncodeToString ([CHR 0x01] @ ''nn'' @ ''payload'' @ ''old''))"
    by (simp add: seal_def demo_lib_def demo_manager_def)
  from session_roundtrip [OF this, of "''payload''" "''old''" "[]" "demo_manager [''new'', ''old'']"
      "[''new'']" "[]" 2000]
  show ?thesis
    by (simp add: demo_lib_def demo_manager_def aead_correct_def has_suffix_def rejects_def
        live_payload_def demo_payload_def max_age_seconds_def)
qed

text \<open>
  C9. Nothing else is accepted: a decoded payload was opened by one of the manager's keys with the
  cookie's own name as additional data, and is within its lifetime: issued at a positive time at
  most a minute ahead, and less than the maximum age ago.
\<close>

theorem decode_sound:
  assumes "decode L mg now value = (d, i, True)"
  shows "\<exists>enc j p. DecodeString value = Some (CHR 0x01 # enc) \<and> j < length (mg_keys mg) \<and> i = int j \<and>
    aeadOpen L (mg_keys mg ! j) (take (nonceSize L (mg_keys mg ! j)) enc)
      (drop (nonceSize L (mg_keys mg ! j)) enc) (mg_name mg) = Some p \<and>
    jsonUnmarshal L p = Some d \<and>
    0 < IssuedAt d \<and> IssuedAt d \<le> now + 60 \<and> now < IssuedAt d + max_age_seconds mg"
proof -
  obtain full where full: "DecodeString value = Some full" "full \<noteq> []" "hd full = CHR 0x01"
      "decode_keys L mg now full 0 (mg_keys mg) = (d, i, True)"
    using assms by (auto simp: decode_def split: option.splits if_splits)
  then obtain enc where "full = CHR 0x01 # enc" by (cases full) auto
  with full decode_keys_sound [OF full(4)] show ?thesis by (auto simp: live_payload_def)
qed

lemma decode_sound_witness:
  "\<exists>enc. DecodeString (EncodeToString ([CHR 0x01] @ ''nn'' @ ''payload'' @ ''old'')) = Some (CHR 0x01 # enc)"
proof -
  have "decode demo_lib (demo_manager [''old'']) 2000
      (EncodeToString ([CHR 0x01] @ ''nn'' @ ''payload'' @ ''old'')) = (demo_payload, 0, True)"
    by (simp add: decode_def demo_lib_def demo_manager_def has_suffix_def demo_payload_def
        max_age_seconds_def)
  from decode_sound [OF this] show ?thesis by blast
qed

text \<open>
  The lifetime is absolute: a successful change of a session that was already issued keeps its
  time of issue, and the cookie it queues is either the expired one or expires exactly
  \<open>MaxAge\<close> after that time, with at most 4096 bytes.
\<close>

theorem session_lifetime:
  assumes "session_change L mg now nonce c c' f (Some s) = (Some s', None)" "IssuedAt (ses_data s) \<noteq> 0"
    "f \<in> {set_value key v, delete_value key, add_flash v, take_flashes}"
  shows "IssuedAt (ses_data s') = IssuedAt (ses_data s) \<and>
    (s' = s \<or> ses_pending s' = renderCookie L (expiredCookie mg) \<or>
     (\<exists>value remaining. ses_pending s' = renderCookie L (manager_cookie mg value remaining
          (IssuedAt (ses_data s) + max_age_seconds mg)) \<and>
        seal L mg nonce (ses_data s') = Inr value \<and> 0 < remaining \<and>
        remaining = IssuedAt (ses_data s) + max_age_seconds mg - now \<and> length (ses_pending s') \<le> maxCookieBytes))"
proof (cases "f (ses_data s)")
  case None
  with assms show ?thesis by (auto simp: session_change_def session_mutable_def split: if_splits)
next
  case (Some d)
  have iss: "IssuedAt d = IssuedAt (ses_data s)"
    using assms(3) Some
    by (auto simp: set_value_def delete_value_def add_flash_def take_flashes_def split: if_splits)
  have "encodedCookie L mg now nonce d = Inr (ses_pending s')" "ses_data s' = d"
    using assms(1,2) Some iss
    by (auto simp: session_change_def session_mutable_def split: if_splits sum.splits)
  then show ?thesis
    using assms(2) iss by (auto simp: encodedCookie_def Let_def split: if_splits sum.splits)
qed

definition demo_session :: session where
  "demo_session = \<lparr>ses_data = demo_payload, ses_pending = []\<rparr>"

lemma session_lifetime_witness:
  "IssuedAt (ses_data (the (fst (session_change demo_lib (demo_manager [''old'']) 2000 (Inr ''nn'') False False
     (add_flash ''x'') (Some demo_session))))) = 1000"
proof -
  obtain s' where s': "session_change demo_lib (demo_manager [''old'']) 2000 (Inr ''nn'') False False
      (add_flash ''x'') (Some demo_session) = (Some s', None)"
    by (auto simp: session_change_def session_mutable_def demo_session_def demo_payload_def add_flash_def
        encodedCookie_def max_age_seconds_def demo_manager_def seal_def demo_lib_def manager_cookie_def
        EncodeToString_def maxCookieBytes_def)
  from session_lifetime [OF this, of k "''x''" for k] s' show ?thesis
    by (simp add: demo_session_def demo_payload_def)
qed

text \<open>
  A change that fails changes nothing, whatever the reason (no session, a committed response,
  a cookie that does not fit, an encoding error), and after the response is committed every change
  fails.
\<close>

theorem session_change_atomic:
  "case session_change L mg now nonce c c' f s of
     (s', Some err) \<Rightarrow> s' = s
   | (s', None) \<Rightarrow> \<not> c \<and> \<not> c' \<and> s' \<noteq> None"
  by (auto simp: session_change_def session_mutable_def Let_def
      split: option.splits if_splits sum.splits)

text \<open>
  Flash values are delivered once and in order: reading them returns everything added since the
  last read, and a second read of the session returns none.
\<close>

theorem flashes_once:
  assumes "session_Flashes L mg now nonce c c' (Some s) = (s', Inr flashes)"
  shows "flashes = FlashValues (ses_data s) \<and>
    session_Flashes L mg now' nonce' c c' s' = (s', Inr [])"
proof -
  obtain s1 where s1: "s' = Some s1" "FlashValues (ses_data s1) = []" "flashes = FlashValues (ses_data s)"
      "\<not> c" "\<not> c'"
    using assms
    by (auto simp: session_Flashes_def session_change_def session_mutable_def take_flashes_def Let_def
        split: if_splits sum.splits option.splits)
  then show ?thesis
    by (simp add: session_Flashes_def session_change_def session_mutable_def take_flashes_def)
qed

lemma flashes_once_witness:
  "snd (session_Flashes demo_lib (demo_manager [''old'']) 2000 (Inr ''nn'') False False (Some demo_session)) =
     Inr [''hi'']"
proof -
  obtain s' fs where s': "session_Flashes demo_lib (demo_manager [''old'']) 2000 (Inr ''nn'') False False
      (Some demo_session) = (s', Inr fs)"
    by (auto simp: session_Flashes_def session_change_def session_mutable_def demo_session_def
        demo_payload_def take_flashes_def encodedCookie_def max_age_seconds_def demo_manager_def seal_def
        demo_lib_def manager_cookie_def EncodeToString_def maxCookieBytes_def)
  from flashes_once [OF this] s' show ?thesis by (simp add: demo_session_def demo_payload_def)
qed

end
