(* ===== verification/Cors.thy ===== *)
theory Cors
  imports Errors
begin

text \<open>
  The cross-origin middleware of \<open>middleware/cors.go\<close>. The sets of the policy are lists of
  lower-cased values. A middleware yields the response headers it leaves behind and what it does
  next: call the next handler, answer by itself, or fail. \<open>strings.ToLower\<close> and \<open>ToUpper\<close> are
  the ASCII ones.
\<close>

section \<open>Requests and middleware results\<close>

record http_request =
  rq_method :: string
  rq_headers :: header
  rq_host :: string
  rq_tls :: bool

datatype mw_outcome = CallNext | Respond int | FailWith goerr

section \<open>Policy\<close>

record CORSConfig =
  AllowedOrigins :: "string list"
  AllowedMethods :: "string list"
  AllowedHeaders :: "string list"
  ExposedHeaders :: "string list"
  AllowCredentials :: bool
  CorsMaxAge :: int

record corsPolicy =
  cp_origins :: "string list"
  cp_methods :: "string list"
  cp_headers :: "string list"
  cp_methodValues :: "string list"
  cp_headerValues :: "string list"
  cp_exposedValues :: "string list"
  cp_wildcardOrigin :: bool
  cp_allowCredentials :: bool
  cp_maxAgeSeconds :: int

fun normalize_loop ::
  "string \<Rightarrow> bool \<Rightarrow> string list \<Rightarrow> string list \<Rightarrow> string list \<Rightarrow> (string list \<times> string list) result" where
  "normalize_loop kind uppercase [] set_keys normalized = Inr (set_keys, normalized)"
| "normalize_loop kind uppercase (value # values) set_keys normalized =
    (let value = trim_space value;
         value = (if uppercase then to_upper value else value);
         key = to_lower value
     in if value = [] \<or> contains_any value [CHR 0x0D, CHR 0x0A] then
          Inl (Opaque (''cors '' @ kind @ '' cannot be empty or contain a newline''))
        else if key \<in> set set_keys then normalize_loop kind uppercase values set_keys normalized
        else normalize_loop kind uppercase values (set_keys @ [key]) (normalized @ [value]))"

definition normalizeCORSValues ::
  "string \<Rightarrow> string list \<Rightarrow> bool \<Rightarrow> (string list \<times> string list) result" where
  "normalizeCORSValues kind values uppercase = normalize_loop kind uppercase values [] []"

definition newCORSPolicy :: "CORSConfig \<Rightarrow> corsPolicy result" where
  "newCORSPolicy c =
    (if CorsMaxAge c < 0 then Inl (Opaque ''cors max age cannot be negative'')
     else case normalizeCORSValues ''origin'' (AllowedOrigins c) False of
       Inl err \<Rightarrow> Inl err
     | Inr (origins, originValues) \<Rightarrow>
         let wildcard = ''*'' \<in> set origins
         in if wildcard \<and> length originValues \<noteq> 1 then
              Inl (Opaque ''cors wildcard origin cannot be combined with exact origins'')
            else if wildcard \<and> AllowCredentials c then
              Inl (Opaque ''cors wildcard origin cannot be combined with credentials'')
            else case normalizeCORSValues ''method''
                (if AllowedMethods c = [] then [''GET'', ''HEAD'', ''POST''] else AllowedMethods c) True of
              Inl err \<Rightarrow> Inl err
            | Inr (methodSet, methodValues) \<Rightarrow>
                (case normalizeCORSValues ''header'' (AllowedHeaders c) False of
                   Inl err \<Rightarrow> Inl err
                 | Inr (headerSet, headerValues) \<Rightarrow>
                     (case normalizeCORSValues ''exposed header'' (ExposedHeaders c) False of
                        Inl err \<Rightarrow> Inl err
                      | Inr (exposedSet, exposedValues) \<Rightarrow>
                          Inr \<lparr>cp_origins = filter (\<lambda>x. x \<noteq> ''*'') origins, cp_methods = methodSet,
                            cp_headers = headerSet, cp_methodValues = methodValues,
                            cp_headerValues = headerValues, cp_exposedValues = exposedValues,
                            cp_wildcardOrigin = wildcard, cp_allowCredentials = AllowCredentials c,
                            cp_maxAgeSeconds = CorsMaxAge c div 1000000000\<rparr>)))"

definition allowsOrigin :: "corsPolicy \<Rightarrow> string \<Rightarrow> bool" where
  "allowsOrigin p origin \<longleftrightarrow> cp_wildcardOrigin p \<or> to_lower origin \<in> set (cp_origins p)"

definition allowsMethod :: "corsPolicy \<Rightarrow> string \<Rightarrow> bool" where
  "allowsMethod p m \<longleftrightarrow> to_lower m \<in> set (cp_methods p)"

definition allowsHeaders :: "corsPolicy \<Rightarrow> string \<Rightarrow> bool" where
  "allowsHeaders p h = (\<forall>value \<in> set (split_byte (CHR '','') h).
     trim_space value = [] \<or> to_lower (trim_space value) \<in> set (cp_headers p))"

definition setOriginHeaders :: "corsPolicy \<Rightarrow> string \<Rightarrow> header \<Rightarrow> header" where
  "setOriginHeaders p origin h =
    (let h = header_set ''Access-Control-Allow-Origin'' (if cp_wildcardOrigin p then ''*'' else origin) h
     in if cp_allowCredentials p then header_set ''Access-Control-Allow-Credentials'' ''true'' h else h)"

definition addVary :: "string \<Rightarrow> header \<Rightarrow> header" where
  "addVary value h =
    (if \<exists>existing \<in> set (header_values h ''Vary''). \<exists>item \<in> set (split_byte (CHR '','') existing).
        equal_fold (trim_space item) value then h
     else header_add ''Vary'' value h)"

text \<open>The middleware: the headers of the response and the outcome.\<close>

definition cors_handle :: "corsPolicy \<Rightarrow> http_request \<Rightarrow> header \<Rightarrow> header \<times> mw_outcome" where
  "cors_handle p rq h =
    (let origin = header_get (rq_headers rq) ''Origin''
     in if origin = [] then (h, CallNext)
        else
          let requested = trim_space (header_get (rq_headers rq) ''Access-Control-Request-Method'');
              preflight = (rq_method rq = ''OPTIONS'' \<and> requested \<noteq> []);
              h1 = addVary ''Origin'' h;
              h2 = (if preflight then addVary ''Access-Control-Request-Headers''
                      (addVary ''Access-Control-Request-Method'' h1) else h1);
              refuse = (h2, if preflight then
                  FailWith (HTTPErr (Some (ForbiddenHTTP ''cors_forbidden'' ''CORS request is not allowed'')))
                else CallNext);
              method = (if preflight then to_upper requested else rq_method rq)
          in if \<not> allowsOrigin p origin then refuse
             else if \<not> allowsMethod p method \<or> preflight \<and>
                 \<not> allowsHeaders p (header_get (rq_headers rq) ''Access-Control-Request-Headers'') then refuse
             else
               let h3 = setOriginHeaders p origin h2
               in if \<not> preflight then
                    (if cp_exposedValues p \<noteq> [] then
                       header_set ''Access-Control-Expose-Headers'' (join_with '', '' (cp_exposedValues p)) h3
                     else h3, CallNext)
                  else
                    let h4 = header_set ''Access-Control-Allow-Methods'' (join_with '', '' (cp_methodValues p)) h3;
                        h5 = (if cp_headerValues p \<noteq> [] then header_set ''Access-Control-Allow-Headers''
                                (join_with '', '' (cp_headerValues p)) h4 else h4);
                        h6 = (if cp_maxAgeSeconds p > 0 then header_set ''Access-Control-Max-Age''
                                (show_int (cp_maxAgeSeconds p)) h5 else h5)
                    in (h6, Respond 204))"

section \<open>Properties\<close>

lemma canonical_cors [simp]:
  "canonical_key ''Access-Control-Allow-Origin'' = ''Access-Control-Allow-Origin''"
  "canonical_key ''Access-Control-Allow-Credentials'' = ''Access-Control-Allow-Credentials''"
  "canonical_key ''Access-Control-Expose-Headers'' = ''Access-Control-Expose-Headers''"
  "canonical_key ''Access-Control-Allow-Methods'' = ''Access-Control-Allow-Methods''"
  "canonical_key ''Access-Control-Allow-Headers'' = ''Access-Control-Allow-Headers''"
  "canonical_key ''Access-Control-Max-Age'' = ''Access-Control-Max-Age''"
  "canonical_key ''Vary'' = ''Vary''"
  by code_simp+

lemma addVary_other: "k \<noteq> ''Vary'' \<Longrightarrow> addVary v h k = h k"
  by (simp add: addVary_def header_add_def)

lemma addVary_mem: "\<exists>existing \<in> set (header_values (addVary v h) ''Vary''). \<exists>item \<in> set (split_byte (CHR '','') existing).
    equal_fold (trim_space item) v \<or> existing = v"
proof (cases "\<exists>existing \<in> set (header_values h ''Vary''). \<exists>item \<in> set (split_byte (CHR '','') existing).
        equal_fold (trim_space item) v")
  case True
  then show ?thesis by (auto simp: addVary_def)
next
  case False
  have "\<exists>item. item \<in> set (split_byte (CHR '','') v)" using split_byte_not_Nil by (simp add: ex_in_conv)
  with False show ?thesis
    by (auto simp: addVary_def header_add_def header_values_def)
qed

definition is_preflight :: "http_request \<Rightarrow> bool" where
  "is_preflight rq \<longleftrightarrow> rq_method rq = ''OPTIONS'' \<and>
     trim_space (header_get (rq_headers rq) ''Access-Control-Request-Method'') \<noteq> []"

text \<open>What the policy allows for one request.\<close>

definition cors_granted :: "corsPolicy \<Rightarrow> http_request \<Rightarrow> bool" where
  "cors_granted p rq \<longleftrightarrow>
     header_get (rq_headers rq) ''Origin'' \<noteq> [] \<and> allowsOrigin p (header_get (rq_headers rq) ''Origin'') \<and>
     (if is_preflight rq then
        allowsMethod p (to_upper (trim_space (header_get (rq_headers rq) ''Access-Control-Request-Method''))) \<and>
        allowsHeaders p (header_get (rq_headers rq) ''Access-Control-Request-Headers'')
      else allowsMethod p (rq_method rq))"

lemma header_set_other [simp]: "canonical_key k \<noteq> k' \<Longrightarrow> header_set k v h k' = h k'"
  by (simp add: header_set_def)

lemma setOriginHeaders_origin:
  "setOriginHeaders p origin h ''Access-Control-Allow-Origin'' = [if cp_wildcardOrigin p then ''*'' else origin]"
  "setOriginHeaders p origin h ''Access-Control-Allow-Credentials'' =
     (if cp_allowCredentials p then [''true''] else h ''Access-Control-Allow-Credentials'')"
  by (simp_all add: setOriginHeaders_def Let_def header_set_def)

lemma cors_handle_granted:
  assumes "cors_granted p rq" "cors_handle p rq h = (h', out)"
  shows "h' ''Access-Control-Allow-Origin'' =
      [if cp_wildcardOrigin p then ''*'' else header_get (rq_headers rq) ''Origin'']"
    "h' ''Access-Control-Allow-Credentials'' =
      (if cp_allowCredentials p then [''true''] else h ''Access-Control-Allow-Credentials'')"
    "out = (if is_preflight rq then Respond 204 else CallNext)"
proof -
  note g = assms(1) [unfolded cors_granted_def]
  have *: "h' ''Access-Control-Allow-Origin'' =
      [if cp_wildcardOrigin p then ''*'' else header_get (rq_headers rq) ''Origin''] \<and>
      h' ''Access-Control-Allow-Credentials'' =
        (if cp_allowCredentials p then [''true''] else h ''Access-Control-Allow-Credentials'') \<and>
      out = (if is_preflight rq then Respond 204 else CallNext)"
  proof (cases "is_preflight rq")
    case True
    then have r: "rq_method rq = ''OPTIONS''"
      "trim_space (header_get (rq_headers rq) ''Access-Control-Request-Method'') \<noteq> []"
      by (simp_all add: is_preflight_def)
    show ?thesis
      using assms(2) g True r
      by (simp add: cors_handle_def Let_def setOriginHeaders_origin addVary_other split: if_splits)
        (auto simp: setOriginHeaders_origin addVary_other)
  next
    case False
    then have r: "\<not> (rq_method rq = ''OPTIONS'' \<and>
        trim_space (header_get (rq_headers rq) ''Access-Control-Request-Method'') \<noteq> [])"
      by (simp add: is_preflight_def)
    show ?thesis
      using assms(2) g False
      unfolding cors_handle_def Let_def
      by (simp only: r if_False simp_thms) (auto simp: setOriginHeaders_origin addVary_other split: if_splits)
  qed
  then show "h' ''Access-Control-Allow-Origin'' =
      [if cp_wildcardOrigin p then ''*'' else header_get (rq_headers rq) ''Origin'']"
    "h' ''Access-Control-Allow-Credentials'' =
      (if cp_allowCredentials p then [''true''] else h ''Access-Control-Allow-Credentials'')"
    "out = (if is_preflight rq then Respond 204 else CallNext)" by blast+
qed

lemma cors_handle_refused:
  assumes "\<not> cors_granted p rq" "cors_handle p rq h = (h', out)" "k \<noteq> ''Vary''"
  shows "h' k = h k" "out = CallNext \<or> is_preflight rq \<and>
    out = FailWith (HTTPErr (Some (ForbiddenHTTP ''cors_forbidden'' ''CORS request is not allowed'')))"
proof -
  have "h' k = h k \<and> (out = CallNext \<or> is_preflight rq \<and>
    out = FailWith (HTTPErr (Some (ForbiddenHTTP ''cors_forbidden'' ''CORS request is not allowed''))))"
  proof (cases "is_preflight rq")
    case True
    then have r: "rq_method rq = ''OPTIONS''"
      "trim_space (header_get (rq_headers rq) ''Access-Control-Request-Method'') \<noteq> []"
      by (simp_all add: is_preflight_def)
    show ?thesis
      using assms True r
      by (simp add: cors_granted_def cors_handle_def Let_def addVary_other split: if_splits)
        (auto simp: addVary_other)
  next
    case False
    then have r: "\<not> (rq_method rq = ''OPTIONS'' \<and>
        trim_space (header_get (rq_headers rq) ''Access-Control-Request-Method'') \<noteq> [])"
      by (simp add: is_preflight_def)
    show ?thesis
      using assms False
      unfolding cors_granted_def cors_handle_def Let_def
      by (simp only: r if_False simp_thms) (auto simp: addVary_other split: if_splits)
  qed
  then show "h' k = h k" "out = CallNext \<or> is_preflight rq \<and>
    out = FailWith (HTTPErr (Some (ForbiddenHTTP ''cors_forbidden'' ''CORS request is not allowed'')))"
    by blast+
qed

lemma newCORSPolicy_origins:
  assumes "newCORSPolicy c = Inr p"
  shows "''*'' \<notin> set (cp_origins p)" "cp_wildcardOrigin p \<Longrightarrow> \<not> cp_allowCredentials p"
  using assms by (auto simp: newCORSPolicy_def Let_def split: if_splits sum.splits prod.splits)

lemma to_lower_star: "to_lower ''*'' = ''*''"
  by code_simp

definition demo_cors :: corsPolicy where
  "demo_cors = \<lparr>cp_origins = [''https://a.example''], cp_methods = [''get''], cp_headers = [],
     cp_methodValues = [''GET''], cp_headerValues = [], cp_exposedValues = [],
     cp_wildcardOrigin = False, cp_allowCredentials = True, cp_maxAgeSeconds = 0\<rparr>"

definition demo_request :: http_request where
  "demo_request = \<lparr>rq_method = ''GET'', rq_headers = header_set ''Origin'' ''https://b.example'' empty_header,
     rq_host = ''a.example'', rq_tls = True\<rparr>"

lemma demo_origin: "header_get (rq_headers demo_request) ''Origin'' = ''https://b.example''"
  by (simp add: demo_request_def)

lemma demo_not_granted: "\<not> cors_granted demo_cors demo_request"
  by (simp add: cors_granted_def demo_origin allowsOrigin_def demo_cors_def to_lower_def lower_char_def)

definition demo_wildcard :: corsPolicy where
  "demo_wildcard = \<lparr>cp_origins = [], cp_methods = [''get'', ''head'', ''post''], cp_headers = [],
     cp_methodValues = [''GET'', ''HEAD'', ''POST''], cp_headerValues = [], cp_exposedValues = [],
     cp_wildcardOrigin = True, cp_allowCredentials = False, cp_maxAgeSeconds = 0\<rparr>"

lemma demo_wildcard_policy:
  "newCORSPolicy \<lparr>AllowedOrigins = [''*''], AllowedMethods = [], AllowedHeaders = [], ExposedHeaders = [],
     AllowCredentials = False, CorsMaxAge = 0\<rparr> = Inr demo_wildcard"
proof -
  have t: "trim_space ''*'' = ''*''" "trim_space ''GET'' = ''GET''" "trim_space ''HEAD'' = ''HEAD''"
    "trim_space ''POST'' = ''POST''" by (simp_all add: visible_def)
  have u: "to_upper ''GET'' = ''GET''" "to_upper ''HEAD'' = ''HEAD''" "to_upper ''POST'' = ''POST''"
    "to_lower ''*'' = ''*''" "to_lower ''GET'' = ''get''" "to_lower ''HEAD'' = ''head''" "to_lower ''POST'' = ''post''"
    by code_simp+
  show ?thesis
    by (simp add: newCORSPolicy_def normalizeCORSValues_def t u contains_any_def demo_wildcard_def Let_def)
qed

text \<open>
  A cross-origin grant is exactly what the policy allows. On a response without grants the
  middleware adds \<open>Access-Control-Allow-Origin\<close> if and only if origin, method and (for a preflight) all
  requested headers are allowed; its value is then the request's origin, or \<open>*\<close> under the wildcard
  policy. A refused request gets no header but \<open>Vary\<close>, and a refused preflight fails with 403.
\<close>

theorem cors_grant:
  assumes "h ''Access-Control-Allow-Origin'' = []" "cors_handle p rq h = (h', out)"
  shows "(cors_granted p rq \<longleftrightarrow> h' ''Access-Control-Allow-Origin'' \<noteq> []) \<and>
    (if cors_granted p rq then
       h' ''Access-Control-Allow-Origin'' =
         [if cp_wildcardOrigin p then ''*'' else header_get (rq_headers rq) ''Origin''] \<and>
       out = (if is_preflight rq then Respond 204 else CallNext)
     else (\<forall>k. k \<noteq> ''Vary'' \<longrightarrow> h' k = h k) \<and>
       (out = CallNext \<or> is_preflight rq \<and>
          out = FailWith (HTTPErr (Some (ForbiddenHTTP ''cors_forbidden'' ''CORS request is not allowed'')))))"
proof (cases "cors_granted p rq")
  case True
  with cors_handle_granted [OF True assms(2)] show ?thesis by simp
next
  case False
  note r = cors_handle_refused [OF False assms(2)]
  have "h' ''Access-Control-Allow-Origin'' = []" using r(1) [of "''Access-Control-Allow-Origin''"] assms(1) by simp
  moreover have "\<forall>k. k \<noteq> ''Vary'' \<longrightarrow> h' k = h k" using r(1) by blast
  moreover have "out = CallNext \<or> is_preflight rq \<and>
      out = FailWith (HTTPErr (Some (ForbiddenHTTP ''cors_forbidden'' ''CORS request is not allowed'')))"
    using r(2) [of "''Access-Control-Allow-Origin''"] by simp
  ultimately show ?thesis using False by simp
qed

lemma cors_grant_witness:
  "fst (cors_handle demo_cors demo_request empty_header) ''Access-Control-Allow-Origin'' = []"
proof -
  obtain h' out where "cors_handle demo_cors demo_request empty_header = (h', out)" by fastforce
  with cors_grant [OF _ this] demo_not_granted show ?thesis by (simp add: empty_header_def)
qed

text \<open>
  No accepted configuration ever combines the wildcard with credentials in one response, not
  even for a request whose own origin is the text \<open>*\<close>.
\<close>

theorem cors_no_wildcard_credentials:
  assumes "newCORSPolicy c = Inr p" "cors_handle p rq h = (h', out)"
    "h ''Access-Control-Allow-Origin'' = []" "h ''Access-Control-Allow-Credentials'' = []"
  shows "h' ''Access-Control-Allow-Origin'' \<noteq> [''*''] \<or> h' ''Access-Control-Allow-Credentials'' = []"
proof (cases "cors_granted p rq")
  case True
  note g = cors_handle_granted [OF True assms(2)]
  show ?thesis
  proof (cases "cp_wildcardOrigin p")
    case True
    with newCORSPolicy_origins(2) [OF assms(1)] g(2) assms(4) show ?thesis by simp
  next
    case False
    with True newCORSPolicy_origins(1) [OF assms(1)]
    have "header_get (rq_headers rq) ''Origin'' \<noteq> ''*''"
      using to_lower_star by (auto simp: cors_granted_def allowsOrigin_def)
    with g(1) False show ?thesis by simp
  qed
next
  case False
  with cors_handle_refused(1) [OF False assms(2), of "''Access-Control-Allow-Origin''"] assms(3)
  show ?thesis by simp
qed

lemma cors_no_wildcard_credentials_witness:
  "\<not> (fst (cors_handle demo_wildcard demo_request empty_header) ''Access-Control-Allow-Origin'' = [''*''] \<and>
      fst (cors_handle demo_wildcard demo_request empty_header) ''Access-Control-Allow-Credentials'' = [''true''])"
proof -
  obtain h' out where "cors_handle demo_wildcard demo_request empty_header = (h', out)" by fastforce
  with cors_no_wildcard_credentials [OF demo_wildcard_policy this] show ?thesis by (simp add: empty_header_def)
qed

lemma normalize_loop_keys:
  "normalize_loop kind up vs ks ns = Inr (ks', ns') \<Longrightarrow> ks = map to_lower ns \<Longrightarrow> distinct ks \<Longrightarrow>
   ks' = map to_lower ns' \<and> distinct ks' \<and>
   set ks' = set ks \<union> (\<lambda>v. to_lower (if up then to_upper (trim_space v) else trim_space v)) ` set vs"
proof (induction kind up vs ks ns rule: normalize_loop.induct)
  case (2 kind up v vs ks ns)
  define w where "w = (if up then to_upper (trim_space v) else trim_space v)"
  show ?case
  proof (cases "to_lower w \<in> set ks")
    case True
    with "2.prems" have "normalize_loop kind up vs ks ns = Inr (ks', ns')"
      by (auto simp: Let_def w_def split: if_splits)
    with "2.IH"(1) [OF refl refl refl _ _ this] "2.prems" True show ?thesis
      by (auto simp: Let_def w_def split: if_splits)
  next
    case False
    with "2.prems" have "normalize_loop kind up vs (ks @ [to_lower w]) (ns @ [w]) = Inr (ks', ns')"
      by (auto simp: Let_def w_def split: if_splits)
    with "2.IH"(2) [OF refl refl refl _ _ this [unfolded w_def]] "2.prems" False show ?thesis
      by (auto simp: Let_def w_def split: if_splits)
  qed
qed auto

text \<open>
  Normalising a list of values keeps the first spelling of each: the result has the values of
  the list, trimmed (and upper-cased for methods), without case-insensitive duplicates and in order,
  and the set used for lookups is exactly their lower-cased forms.
\<close>

theorem normalizeCORSValues_spec:
  assumes "normalizeCORSValues kind vs up = Inr (ks, ns)"
  shows "ks = map to_lower ns \<and> distinct ks \<and>
    set ks = (\<lambda>v. to_lower (if up then to_upper (trim_space v) else trim_space v)) ` set vs"
  using normalize_loop_keys [OF assms [unfolded normalizeCORSValues_def]] by auto

lemma normalizeCORSValues_spec_witness:
  "normalizeCORSValues ''origin'' [''*''] False = Inr ([''*''], [''*'']) \<and> distinct [''*'']"
proof -
  have "trim_space ''*'' = ''*''" by (simp add: visible_def)
  then have "normalizeCORSValues ''origin'' [''*''] False = Inr ([''*''], [''*''])"
    using to_lower_star by (simp add: normalizeCORSValues_def contains_any_def Let_def)
  with normalizeCORSValues_spec [OF this] show ?thesis by simp
qed

end
