(* ===== verification/Csrf.thy ===== *)
theory Csrf
  imports Cors Session
begin

text \<open>
  The CSRF middleware of \<open>middleware/csrf.go\<close>: origin verification and a signed double-submit token.
  \<open>csrf_lib\<close> collects the library functions the code calls (HMAC-SHA256, URL, address and media type
  parsing); the cookie of the request, the form value and the random bytes are arguments.
\<close>

section \<open>Library\<close>

record parsed_url =
  url_scheme :: string
  url_host :: string
  url_user :: bool
  url_path :: string
  url_rawQuery :: string
  url_fragment :: string
  url_hostname :: string
  url_port :: string

text \<open>\<open>parseIP\<close> says whether the text is an address, and if so whether it is a loopback address.\<close>

record csrf_lib =
  hmacSha256 :: "string \<Rightarrow> string \<Rightarrow> string"
  parseURL :: "string \<Rightarrow> parsed_url option"
  parseIP :: "string \<Rightarrow> bool option"
  splitHostPort :: "string \<Rightarrow> (string \<times> string) option"
  parseMediaType :: "string \<Rightarrow> string option"

definition joinHostPort :: "string \<Rightarrow> string \<Rightarrow> string" where
  "joinHostPort host port = (if CHR '':'' \<in> set host
     then ''['' @ host @ '']:'' @ port else host @ '':'' @ port)"

section \<open>Policy\<close>

record CSRFConfig =
  csrf_Key :: string
  TrustedOrigins :: "string list"
  InsecureCookies :: bool

record csrfPolicy =
  cs_key :: string
  cs_trusted :: "string list"
  cs_secure :: bool
  cs_cookieName :: string

definition normalizeOrigin :: "csrf_lib \<Rightarrow> string \<Rightarrow> bool \<Rightarrow> string result" where
  "normalizeOrigin L value allowPath =
    (case parseURL L (trim_space value) of
       None \<Rightarrow> Inl (Opaque ''must be an absolute HTTP origin'')
     | Some u \<Rightarrow>
         if url_host u = [] \<or> url_user u then Inl (Opaque ''must be an absolute HTTP origin'')
         else
           let scheme = to_lower (url_scheme u)
           in if scheme \<noteq> ''http'' \<and> scheme \<noteq> ''https'' then Inl (Opaque ''must use HTTP or HTTPS'')
              else if \<not> allowPath \<and> (url_path u \<noteq> [] \<and> url_path u \<noteq> ''/'' \<or> url_rawQuery u \<noteq> [] \<or>
                  url_fragment u \<noteq> []) then
                Inl (Opaque ''must not contain a path, query, or fragment'')
              else
                let hostname = to_lower (url_hostname u)
                in if hostname = [] then Inl (Opaque ''must include a host'')
                   else if CHR '':'' \<in> set hostname \<and> parseIP L hostname = None then
                     Inl (Opaque ''must include a valid host'')
                   else
                     let port = (if scheme = ''http'' \<and> url_port u = ''80'' \<or>
                             scheme = ''https'' \<and> url_port u = ''443'' then [] else url_port u);
                         host = (if port \<noteq> [] then joinHostPort hostname port
                           else if CHR '':'' \<in> set hostname then ''['' @ hostname @ '']'' else hostname)
                     in Inr (scheme @ ''://'' @ host))"

fun trusted_loop :: "csrf_lib \<Rightarrow> string list \<Rightarrow> string list \<Rightarrow> string list result" where
  "trusted_loop L [] origins = Inr origins"
| "trusted_loop L (value # values) origins = (case normalizeOrigin L value False of
     Inl err \<Rightarrow> Inl (Wrapf ''csrf trusted origin'' err)
   | Inr origin \<Rightarrow> trusted_loop L values (if origin \<in> set origins then origins else origins @ [origin]))"

definition newCSRFPolicy :: "csrf_lib \<Rightarrow> CSRFConfig \<Rightarrow> csrfPolicy result" where
  "newCSRFPolicy L c =
    (if length (csrf_Key c) < 32 then Inl (Opaque ''csrf key must be at least 32 bytes'')
     else case trusted_loop L (TrustedOrigins c) [] of Inl err \<Rightarrow> Inl err
       | Inr origins \<Rightarrow> Inr \<lparr>cs_key = csrf_Key c, cs_trusted = origins, cs_secure = \<not> InsecureCookies c,
           cs_cookieName = (if InsecureCookies c then ''vial_csrf'' else ''__Host-vial_csrf'')\<rparr>)"

definition csrfLoopbackHost :: "csrf_lib \<Rightarrow> string \<Rightarrow> bool" where
  "csrfLoopbackHost L value =
    (let host = trim_space value;
         host = (case splitHostPort L host of Some (h, p) \<Rightarrow> h | None \<Rightarrow> host);
         host = trim_chars ''[]'' host
     in equal_fold host ''localhost'' \<or> parseIP L host = Some True)"

section \<open>Tokens\<close>

definition csrf_sign :: "csrf_lib \<Rightarrow> csrfPolicy \<Rightarrow> string \<Rightarrow> string" where
  "csrf_sign L p random = EncodeToString random @ ''.'' @ EncodeToString (hmacSha256 L (cs_key p) random)"

definition validToken :: "csrf_lib \<Rightarrow> csrfPolicy \<Rightarrow> string \<Rightarrow> bool" where
  "validToken L p token = (case cut token (CHR ''.'') of
     (randomPart, signaturePart, ok) \<Rightarrow>
       ok \<and> (case DecodeString randomPart of None \<Rightarrow> False
         | Some random \<Rightarrow> length random = 32 \<and>
             (case DecodeString signaturePart of None \<Rightarrow> False
              | Some signature \<Rightarrow> length signature = 32 \<and> signature = hmacSha256 L (cs_key p) random)))"

text \<open>\<open>issueToken\<close>: the token and, when it is new, the cookie; \<open>now\<close> in seconds.\<close>

definition csrf_cookie :: "csrfPolicy \<Rightarrow> int \<Rightarrow> string \<Rightarrow> http_cookie" where
  "csrf_cookie p now token = \<lparr>ck_name = cs_cookieName p, ck_value = token, ck_path = ''/'', ck_domain = [],
     ck_expires = now + 12 * 3600, ck_maxAge = 12 * 3600, ck_secure = cs_secure p, ck_httpOnly = True,
     ck_sameSite = SameSiteStrict\<rparr>"

definition issueToken ::
  "csrf_lib \<Rightarrow> csrfPolicy \<Rightarrow> int \<Rightarrow> string result \<Rightarrow> string result \<Rightarrow> (string \<times> http_cookie option) result" where
  "issueToken L p now cookie random =
    (case cookie of
       Inr value \<Rightarrow> if validToken L p value then Inr (value, None)
         else (case random of Inl err \<Rightarrow> Inl (Wrapf ''generate csrf token: '' err)
           | Inr r \<Rightarrow> Inr (csrf_sign L p r, Some (csrf_cookie p now (csrf_sign L p r))))
     | Inl _ \<Rightarrow> (case random of Inl err \<Rightarrow> Inl (Wrapf ''generate csrf token: '' err)
           | Inr r \<Rightarrow> Inr (csrf_sign L p r, Some (csrf_cookie p now (csrf_sign L p r)))))"

section \<open>Middleware\<close>

definition allowsRequestOrigin :: "csrf_lib \<Rightarrow> csrfPolicy \<Rightarrow> http_request \<Rightarrow> bool" where
  "allowsRequestOrigin L p rq =
    (let origin = header_get (rq_headers rq) ''Origin'';
         allowPath = (origin = []);
         value = (if origin = [] then header_get (rq_headers rq) ''Referer'' else origin)
     in value \<noteq> [] \<and>
        (case normalizeOrigin L value allowPath of Inl _ \<Rightarrow> False
         | Inr source \<Rightarrow>
             if cs_trusted p \<noteq> [] then source \<in> set (cs_trusted p)
             else normalizeOrigin L ((if rq_tls rq then ''https'' else ''http'') @ ''://'' @ rq_host rq) False
               = Inr source))"

definition csrfSafeMethod :: "string \<Rightarrow> bool" where
  "csrfSafeMethod m \<longleftrightarrow> m = ''GET'' \<or> m = ''HEAD'' \<or> m = ''OPTIONS''"

definition csrfRequestToken :: "csrf_lib \<Rightarrow> http_request \<Rightarrow> string result \<Rightarrow> string result" where
  "csrfRequestToken L rq form =
    (let token = trim_space (header_get (rq_headers rq) ''X-CSRF-Token'')
     in if token \<noteq> [] then Inr token
        else case parseMediaType L (header_get (rq_headers rq) ''Content-Type'') of
            None \<Rightarrow> Inr []
          | Some m \<Rightarrow> if m \<noteq> ''application/x-www-form-urlencoded'' \<and> m \<noteq> ''multipart/form-data''
              then Inr [] else form)"

definition csrfForbidden :: goerr where
  "csrfForbidden = HTTPErr (Some (ForbiddenHTTP ''csrf_forbidden'' ''CSRF validation failed''))"

text \<open>The response headers, the cookie to set, the token stored in the context, and the outcome.\<close>

definition csrf_handle ::
  "csrf_lib \<Rightarrow> csrfPolicy \<Rightarrow> int \<Rightarrow> http_request \<Rightarrow> string result \<Rightarrow> string result \<Rightarrow> string result \<Rightarrow> header \<Rightarrow>
     header \<times> http_cookie option \<times> string option \<times> mw_outcome" where
  "csrf_handle L p now rq cookie random form h =
    (if \<not> cs_secure p \<and> \<not> csrfLoopbackHost L (rq_host rq) then
       (h, None, None, FailWith (HTTPErr (Some (InternalServerError
          (Some (Opaque ''insecure CSRF cookies require a loopback request host''))))))
     else
       let h = addVary ''Cookie'' h
       in if csrfSafeMethod (rq_method rq) then
            (case issueToken L p now cookie random of
               Inl err \<Rightarrow> (h, None, None, FailWith err)
             | Inr (token, c) \<Rightarrow> (h, c, Some token, CallNext))
          else if \<not> allowsRequestOrigin L p rq then (h, None, None, FailWith csrfForbidden)
          else case cookie of Inl _ \<Rightarrow> (h, None, None, FailWith csrfForbidden)
            | Inr value \<Rightarrow>
                if \<not> validToken L p value then (h, None, None, FailWith csrfForbidden)
                else case csrfRequestToken L rq form of
                    Inl err \<Rightarrow> (h, None, None, FailWith err)
                  | Inr token \<Rightarrow>
                      if token = [] \<or> token \<noteq> value then (h, None, None, FailWith csrfForbidden)
                      else (h, None, Some token, CallNext))"

section \<open>Properties\<close>

definition demo_csrf_lib :: csrf_lib where
  "demo_csrf_lib = \<lparr>hmacSha256 = (\<lambda>k m. m), parseURL = (\<lambda>s. Some \<lparr>url_scheme = ''https'',
     url_host = ''a.example'', url_user = False, url_path = [], url_rawQuery = [], url_fragment = [],
     url_hostname = ''a.example'', url_port = []\<rparr>), parseIP = (\<lambda>s. None), splitHostPort = (\<lambda>s. None),
     parseMediaType = (\<lambda>s. None)\<rparr>"

definition demo_csrf :: csrfPolicy where
  "demo_csrf = \<lparr>cs_key = ''k'', cs_trusted = [], cs_secure = True, cs_cookieName = ''__Host-vial_csrf''\<rparr>"

lemma cut_signed: "cut (EncodeToString a @ ''.'' @ EncodeToString b) (CHR ''.'') = (EncodeToString a, EncodeToString b, True)"
proof -
  have "CHR ''.'' \<notin> set (EncodeToString a)"
  proof
    assume "CHR ''.'' \<in> set (EncodeToString a)"
    then obtain n where n: "n \<in> set (b64_encode_values (map of_char a))" "b64_char n = CHR ''.''"
      by (auto simp: EncodeToString_def)
    then have "b64_value CHR ''.'' = Some n"
      using b64_encode_bound [OF bytes_bound [of a]] b64_value_char by metis
    then show False by (simp add: b64_value_def)
  qed
  from cut_append [OF this, of "EncodeToString b"] show ?thesis by simp
qed

lemma validToken_sign:
  assumes "length random = 32" "length (hmacSha256 L (cs_key p) random) = 32"
  shows "validToken L p (csrf_sign L p random)"
  using assms by (simp only: validToken_def csrf_sign_def cut_signed prod.case DecodeString_Encode option.case)

text \<open>
  Every token the middleware issues is accepted later: after a safe request the context holds
  a valid token, either the one of a valid cookie or a fresh signature, and in the second case the
  response sets it as a \<open>SameSite=Strict\<close>, \<open>HttpOnly\<close> cookie.
\<close>

theorem issueToken_valid:
  assumes "issueToken L p now cookie (Inr random) = Inr (token, c)" "length random = 32"
    "length (hmacSha256 L (cs_key p) random) = 32"
  shows "validToken L p token \<and>
    (case c of None \<Rightarrow> cookie = Inr token
     | Some ck \<Rightarrow> ck_value ck = token \<and> ck_secure ck = cs_secure p \<and> ck_httpOnly ck \<and> ck_sameSite ck = SameSiteStrict)"
  using assms validToken_sign [OF assms(2,3)]
  by (auto simp: issueToken_def csrf_cookie_def split: sum.splits if_splits)

lemma issueToken_valid_witness:
  "validToken demo_csrf_lib demo_csrf (csrf_sign demo_csrf_lib demo_csrf (replicate 32 CHR ''r''))"
  using issueToken_valid [of demo_csrf_lib demo_csrf 0 "Inl (Sentinel HttpErrNoCookie)" "replicate 32 CHR ''r''"
      "csrf_sign demo_csrf_lib demo_csrf (replicate 32 CHR ''r'')"
      "Some (csrf_cookie demo_csrf 0 (csrf_sign demo_csrf_lib demo_csrf (replicate 32 CHR ''r'')))"]
  by (simp add: issueToken_def demo_csrf_lib_def)



end
