(* ===== verification/RateLimit.thy ===== *)
theory RateLimit
  imports Errors
begin

text \<open>
  The token bucket limiter of \<open>middleware/rate_limit.go\<close>. A \<open>float64\<close> is a rational number and every
  arithmetic operation is followed by a rounding \<open>fl\<close>, a parameter: all that is used of IEEE rounding
  is that it is monotone and exact on the integers up to \<open>2^53\<close>. A zero \<open>time.Time\<close> is \<open>None\<close>;
  times and durations are in nanoseconds.
\<close>

section \<open>State\<close>

record rateLimitBucket =
  bk_tokens :: rat
  bk_updated :: "int option"
  bk_seen :: "int option"

record rateLimiter =
  rl_requests :: int
  rl_window :: int
  rl_burst :: int
  rl_maxKeys :: int
  rl_buckets :: "(string \<times> rateLimitBucket) list"
  rl_overflow :: rateLimitBucket
  rl_nextCleanup :: "int option"

record RateLimitConfig =
  rc_requests :: int
  rc_window :: int
  rc_burst :: int
  rc_maxKeys :: int

definition zero_bucket :: rateLimitBucket where
  "zero_bucket = \<lparr>bk_tokens = 0, bk_updated = None, bk_seen = None\<rparr>"

definition newRateLimiter :: "RateLimitConfig \<Rightarrow> rateLimiter result" where
  "newRateLimiter c =
    (if rc_requests c \<le> 0 then Inl (Opaque ''rate limit requests must be positive'')
     else if rc_window c \<le> 0 then Inl (Opaque ''rate limit window must be positive'')
     else if rc_burst c < 0 then Inl (Opaque ''rate limit burst cannot be negative'')
     else
       let burst = (if rc_burst c = 0 then rc_requests c else rc_burst c)
       in if burst > rc_requests c then Inl (Opaque ''rate limit burst cannot exceed requests'')
          else if rc_maxKeys c < 0 then Inl (Opaque ''rate limit max keys cannot be negative'')
          else Inr \<lparr>rl_requests = rc_requests c, rl_window = rc_window c, rl_burst = burst,
            rl_maxKeys = (if rc_maxKeys c = 0 then 10000 else rc_maxKeys c), rl_buckets = [],
            rl_overflow = zero_bucket, rl_nextCleanup = None\<rparr>)"

section \<open>Operations\<close>

text \<open>A bucket never seen has a difference that saturates above every window.\<close>

definition stale :: "int \<Rightarrow> int \<Rightarrow> rateLimitBucket \<Rightarrow> bool" where
  "stale window now b = (case bk_seen b of None \<Rightarrow> True | Some seen \<Rightarrow> now - seen \<ge> window)"

definition cleanup :: "int \<Rightarrow> rateLimiter \<Rightarrow> rateLimiter" where
  "cleanup now l = (case rl_nextCleanup l of
     None \<Rightarrow> l\<lparr>rl_nextCleanup := Some (now + rl_window l)\<rparr>
   | Some t \<Rightarrow> if now < t then l
       else l\<lparr>rl_buckets := filter (\<lambda>(k, b). \<not> stale (rl_window l) now b) (rl_buckets l),
              rl_nextCleanup := Some (now + rl_window l)\<rparr>)"

text \<open>The refill of a bucket and the decision on one request.\<close>

definition bucket_refill :: "(rat \<Rightarrow> rat) \<Rightarrow> int \<Rightarrow> int \<Rightarrow> int \<Rightarrow> int \<Rightarrow> rateLimitBucket \<Rightarrow> rateLimitBucket" where
  "bucket_refill fl requests window burst now b =
    (let b = (case bk_updated b of
           None \<Rightarrow> \<lparr>bk_tokens = fl (of_int burst), bk_updated = Some now, bk_seen = None\<rparr>
         | Some u \<Rightarrow> b);
         elapsed = now - the (bk_updated b);
         b = (if elapsed > 0 then
                b\<lparr>bk_tokens := min (fl (of_int burst))
                   (fl (bk_tokens b + fl (fl (fl (of_int elapsed) * fl (of_int requests)) / fl (of_int window))))\<rparr>
              else b)
     in b\<lparr>bk_updated := Some now\<rparr>)"

definition bucket_take :: "(rat \<Rightarrow> rat) \<Rightarrow> int \<Rightarrow> rateLimitBucket \<Rightarrow> rateLimitBucket \<times> bool" where
  "bucket_take fl now b =
    (if bk_tokens b \<ge> 1 then (b\<lparr>bk_tokens := fl (bk_tokens b - 1), bk_seen := Some now\<rparr>, True)
     else (b, False))"

definition bucket_allow ::
  "(rat \<Rightarrow> rat) \<Rightarrow> int \<Rightarrow> int \<Rightarrow> int \<Rightarrow> int \<Rightarrow> rateLimitBucket \<Rightarrow> rateLimitBucket \<times> bool" where
  "bucket_allow fl requests window burst now b =
     bucket_take fl now (bucket_refill fl requests window burst now b)"

definition retry_after :: "(rat \<Rightarrow> rat) \<Rightarrow> int \<Rightarrow> int \<Rightarrow> rateLimitBucket \<Rightarrow> int" where
  "retry_after fl requests window b =
     max \<lceil>fl (fl (fl (1 - bk_tokens b) * fl (of_int window)) / fl (of_int requests))\<rceil> 1"

definition allow :: "(rat \<Rightarrow> rat) \<Rightarrow> string \<Rightarrow> int \<Rightarrow> rateLimiter \<Rightarrow> rateLimiter \<times> bool \<times> int" where
  "allow fl key now l =
    (let l = cleanup now l;
         entry = map_of (rl_buckets l) key;
         shared = (entry = None \<and> int (length (rl_buckets l)) \<ge> rl_maxKeys l);
         bucket = (if shared then rl_overflow l else case entry of Some b \<Rightarrow> b | None \<Rightarrow> zero_bucket);
         (bucket, allowed) = bucket_allow fl (rl_requests l) (rl_window l) (rl_burst l) now bucket;
         l = (if shared then l\<lparr>rl_overflow := bucket\<rparr>
              else l\<lparr>rl_buckets := alist_put key bucket (rl_buckets l)\<rparr>)
     in (l, allowed, if allowed then 0 else retry_after fl (rl_requests l) (rl_window l) bucket))"

text \<open>\<open>Duration.Seconds\<close> adds the whole seconds and the fraction as floats.\<close>

definition retryAfterSeconds :: "(rat \<Rightarrow> rat) \<Rightarrow> int \<Rightarrow> int" where
  "retryAfterSeconds fl duration =
     max \<lceil>fl (fl (of_int (duration div 1000000000)) +
       fl (fl (of_int (duration mod 1000000000)) / fl 1000000000))\<rceil> 1"

text \<open>The middleware for a key value: \<open>None\<close> calls the next handler.\<close>

definition rate_limit_handle ::
  "(rat \<Rightarrow> rat) \<Rightarrow> string result \<Rightarrow> int \<Rightarrow> rateLimiter \<Rightarrow> rateLimiter \<times> goerr option" where
  "rate_limit_handle fl key now l =
    (case key of Inl err \<Rightarrow> (l, Some err)
     | Inr key \<Rightarrow>
         if key = [] \<or> length key > 512 then
           (l, Some (HTTPErr (Some (InternalServerError
              (Some (Opaque ''rate limit key must contain 1 to 512 bytes''))))))
         else case allow fl key now l of (l', allowed, retry) \<Rightarrow>
           if allowed then (l', None)
           else (l', Some (HTTPErr (Some (HTTPError 429 ''rate_limited'' ''Too many requests'' None
             [(''Retry-After'', [show_int (retryAfterSeconds fl retry)])])))))"

section \<open>Invariant\<close>

text \<open>What is used of the rounding of \<open>float64\<close> operations.\<close>

definition float_rounding :: "(rat \<Rightarrow> rat) \<Rightarrow> bool" where
  "float_rounding fl \<longleftrightarrow> mono fl \<and> (\<forall>n::int. \<bar>n\<bar> \<le> 2 ^ 53 \<longrightarrow> fl (of_int n) = of_int n)"

definition bucket_ok :: "int \<Rightarrow> rateLimitBucket \<Rightarrow> bool" where
  "bucket_ok burst b \<longleftrightarrow> 0 \<le> bk_tokens b \<and> bk_tokens b \<le> of_int burst"

definition limiter_inv :: "rateLimiter \<Rightarrow> bool" where
  "limiter_inv l \<longleftrightarrow> 1 \<le> rl_burst l \<and> rl_burst l \<le> rl_requests l \<and> 1 \<le> rl_window l \<and> 1 \<le> rl_maxKeys l \<and>
     distinct (keys (rl_buckets l)) \<and> int (length (rl_buckets l)) \<le> rl_maxKeys l \<and>
     (\<forall>k b. map_of (rl_buckets l) k = Some b \<longrightarrow> bucket_ok (rl_burst l) b) \<and>
     bucket_ok (rl_burst l) (rl_overflow l)"

lemma float_roundingD:
  assumes "float_rounding fl"
  shows "x \<le> y \<Longrightarrow> fl x \<le> fl y" "\<bar>n\<bar> \<le> 2 ^ 53 \<Longrightarrow> fl (of_int n) = of_int n" "fl 0 = 0" "fl 1 = 1"
proof -
  have e: "fl (of_int n) = of_int n" if "\<bar>n\<bar> \<le> 2 ^ 53" for n :: int
    using assms that by (simp add: float_rounding_def)
  show "fl 0 = 0" "fl 1 = 1" using e [of 0] e [of 1] by simp_all
  show "x \<le> y \<Longrightarrow> fl x \<le> fl y" using assms by (simp add: float_rounding_def monoD)
  show "\<bar>n\<bar> \<le> 2 ^ 53 \<Longrightarrow> fl (of_int n) = of_int n" by (rule e)
qed

lemma fl_nonneg: "float_rounding fl \<Longrightarrow> 0 \<le> x \<Longrightarrow> 0 \<le> fl x"
  using float_roundingD(1,3) by metis

lemma bucket_refill_ok:
  assumes "float_rounding fl" "bucket_ok burst b" "1 \<le> burst" "burst \<le> 2 ^ 53" "0 \<le> requests" "0 \<le> window"
  shows "bucket_ok burst (bucket_refill fl requests window burst now b)"
proof -
  have fb: "fl (of_int burst) = of_int burst" using assms(1,3,4) by (intro float_roundingD(2)) simp_all
  have pos: "0 \<le> fl (t + fl (fl (fl (of_int now - of_int u) * fl (of_int requests)) / fl (of_int window)))"
    if "0 \<le> t" "u < now" for t and u :: int
    using that assms by (intro fl_nonneg [OF assms(1)] add_nonneg_nonneg divide_nonneg_nonneg mult_nonneg_nonneg) simp_all
  show ?thesis
    using assms(2,3) pos fb
    by (auto simp: bucket_refill_def bucket_ok_def Let_def split: option.splits)
qed

lemma bucket_take_ok:
  assumes "float_rounding fl" "bucket_ok burst b" "1 \<le> burst" "burst \<le> 2 ^ 53"
  shows "bucket_ok burst (fst (bucket_take fl now b))"
proof -
  have "fl (bk_tokens b - 1) \<le> fl (of_int (burst - 1))"
    using assms(2) by (intro float_roundingD(1) [OF assms(1)]) (simp add: bucket_ok_def)
  also have "\<dots> = of_int (burst - 1)" using assms by (intro float_roundingD(2)) simp_all
  finally have "fl (bk_tokens b - 1) \<le> of_int burst" by simp
  then show ?thesis
    using assms(2) fl_nonneg [OF assms(1), of "bk_tokens b - 1"]
    by (auto simp: bucket_take_def bucket_ok_def)
qed

lemma bucket_allow_ok:
  assumes "float_rounding fl" "bucket_ok burst b" "1 \<le> burst" "burst \<le> 2 ^ 53" "0 \<le> requests" "0 \<le> window"
  shows "bucket_ok burst (fst (bucket_allow fl requests window burst now b))"
  unfolding bucket_allow_def
  by (rule bucket_take_ok [OF assms(1) bucket_refill_ok [OF assms] assms(3,4)])

lemma zero_bucket_ok: "0 \<le> burst \<Longrightarrow> bucket_ok burst zero_bucket"
  by (simp add: bucket_ok_def zero_bucket_def)

lemma map_of_filter_Some:
  "distinct (keys xs) \<Longrightarrow> map_of (filter P xs) k = Some v \<Longrightarrow> map_of xs k = Some v"
proof (induction xs)
  case (Cons x xs)
  then show ?case
    by (cases x; cases "P x") (auto split: if_splits simp: dom_def)
qed simp

lemma keys_filter_distinct: "distinct (keys xs) \<Longrightarrow> distinct (keys (filter P xs))"
  by (simp add: keys_def distinct_map_filter)

lemma cleanup_fields [simp]:
  "rl_burst (cleanup now l) = rl_burst l" "rl_requests (cleanup now l) = rl_requests l"
  "rl_window (cleanup now l) = rl_window l" "rl_maxKeys (cleanup now l) = rl_maxKeys l"
  "rl_overflow (cleanup now l) = rl_overflow l"
  by (simp_all add: cleanup_def split: option.split)

lemma cleanup_inv: "limiter_inv l \<Longrightarrow> limiter_inv (cleanup now l)"
proof -
  assume inv: "limiter_inv l"
  let ?P = "\<lambda>(k, b). \<not> stale (rl_window l) now b"
  have "rl_buckets (cleanup now l) = rl_buckets l \<or> rl_buckets (cleanup now l) = filter ?P (rl_buckets l)"
    by (simp add: cleanup_def split: option.split)
  moreover have "int (length (filter ?P (rl_buckets l))) \<le> rl_maxKeys l"
  proof -
    have "int (length (filter ?P (rl_buckets l))) \<le> int (length (rl_buckets l))"
      by (simp only: of_nat_le_iff length_filter_le)
    also have "\<dots> \<le> rl_maxKeys l" using inv by (simp add: limiter_inv_def)
    finally show ?thesis .
  qed
  moreover have "\<forall>k b. map_of (filter ?P (rl_buckets l)) k = Some b \<longrightarrow> bucket_ok (rl_burst l) b"
    using inv map_of_filter_Some [of "rl_buckets l" ?P] unfolding limiter_inv_def by blast
  moreover have "distinct (keys (filter ?P (rl_buckets l)))"
    using inv by (intro keys_filter_distinct) (simp add: limiter_inv_def)
  ultimately show ?thesis using inv unfolding limiter_inv_def by (elim disjE) simp_all
qed

lemma length_alist_del: "map_of xs k = Some v \<Longrightarrow> length (alist_del k xs) < length xs"
proof (induction xs)
  case (Cons x xs)
  have le: "length (alist_del k xs) \<le> length xs" by (simp add: alist_del_def)
  obtain k' w where x: "x = (k', w)" by fastforce
  show ?case
  proof (cases "k' = k")
    case True
    with x le show ?thesis by simp
  next
    case False
    then have "alist_del k (x # xs) = x # alist_del k xs" using x by (simp add: alist_del_def)
    with Cons False x show ?thesis by simp
  qed
qed simp

lemma length_alist_put:
  "length (alist_put k v xs) \<le> (if map_of xs k = None then Suc (length xs) else length xs)"
proof (cases "map_of xs k")
  case None
  then show ?thesis by (simp add: alist_put_def)
next
  case (Some w)
  from length_alist_del [OF this] Some show ?thesis by (simp add: alist_put_def)
qed

lemma allow_inv:
  assumes "float_rounding fl" "limiter_inv l" "rl_burst l \<le> 2 ^ 53"
  shows "limiter_inv (fst (allow fl key now l))"
proof -
  define l1 where "l1 = cleanup now l"
  define shared where "shared = (map_of (rl_buckets l1) key = None \<and> int (length (rl_buckets l1)) \<ge> rl_maxKeys l1)"
  define b where "b = (if shared then rl_overflow l1 else case map_of (rl_buckets l1) key of Some b \<Rightarrow> b | None \<Rightarrow> zero_bucket)"
  obtain b' allowed where b': "bucket_allow fl (rl_requests l1) (rl_window l1) (rl_burst l1) now b = (b', allowed)"
    by fastforce
  have inv: "limiter_inv l1" using cleanup_inv [OF assms(2)] by (simp add: l1_def)
  have "bucket_ok (rl_burst l1) b"
    using inv by (auto simp: b_def limiter_inv_def zero_bucket_ok split: option.split)
  then have ok: "bucket_ok (rl_burst l1) b'"
    using bucket_allow_ok [of fl "rl_burst l1" b "rl_requests l1" "rl_window l1" now] b' inv assms
    by (simp add: limiter_inv_def l1_def)
  have eq: "fst (allow fl key now l) = (if shared then l1\<lparr>rl_overflow := b'\<rparr>
      else l1\<lparr>rl_buckets := alist_put key b' (rl_buckets l1)\<rparr>)"
    using b' by (simp add: allow_def Let_def l1_def [symmetric] shared_def b_def split: prod.split)
  show ?thesis
  proof (cases shared)
    case True
    with eq inv ok show ?thesis by (simp add: limiter_inv_def)
  next
    case False
    have "int (length (alist_put key b' (rl_buckets l1))) \<le> rl_maxKeys l1"
      using False inv length_alist_put [of key b' "rl_buckets l1"]
      by (auto simp: shared_def limiter_inv_def split: if_splits)
    with False eq inv ok show ?thesis by (simp add: limiter_inv_def)
  qed
qed

text \<open>A run of requests, each a key and the clock; the count is of allowed requests of one key.\<close>

fun limiter_run ::
  "(rat \<Rightarrow> rat) \<Rightarrow> string \<Rightarrow> (string \<times> int) list \<Rightarrow> rateLimiter \<Rightarrow> rateLimiter \<times> nat" where
  "limiter_run fl k [] l = (l, 0)"
| "limiter_run fl k ((key, now) # calls) l =
     (case allow fl key now l of (l', allowed, retry) \<Rightarrow>
        (case limiter_run fl k calls l' of (l'', n) \<Rightarrow> (l'', n + (if allowed \<and> key = k then 1 else 0))))"

lemma allow_burst: "rl_burst (fst (allow fl key now l)) = rl_burst l"
  by (simp add: allow_def Let_def split: prod.split)

lemma limiter_run_inv:
  "float_rounding fl \<Longrightarrow> limiter_inv l \<Longrightarrow> rl_burst l \<le> 2 ^ 53 \<Longrightarrow> limiter_inv (fst (limiter_run fl k calls l))"
proof (induction calls arbitrary: l)
  case (Cons call calls)
  obtain key now where call: "call = (key, now)" by fastforce
  obtain l' a r where al: "allow fl key now l = (l', a, r)" by (metis prod_cases3)
  obtain l'' n where run: "limiter_run fl k calls l' = (l'', n)" by fastforce
  have "limiter_inv l'" using allow_inv [OF Cons.prems, of key now] al by simp
  with Cons.IH [OF Cons.prems(1) this] Cons.prems(3) allow_burst [of fl key now l] al run show ?case
    by (simp add: call)
qed simp

section \<open>The rate\<close>

definition rate :: "rateLimiter \<Rightarrow> rat" where
  "rate l = of_int (rl_requests l) / of_int (rl_window l)"

text \<open>The tokens a key can draw on at time \<open>t\<close>.\<close>

definition level :: "rateLimiter \<Rightarrow> rateLimitBucket option \<Rightarrow> int \<Rightarrow> rat" where
  "level l b t = (case b of None \<Rightarrow> of_int (rl_burst l)
     | Some b \<Rightarrow> min (of_int (rl_burst l)) (bk_tokens b + rate l * of_int (t - the (bk_updated b))))"

text \<open>A bucket has at least the refill since its last allowed request.\<close>

definition aged :: "rateLimiter \<Rightarrow> int \<Rightarrow> rateLimitBucket \<Rightarrow> bool" where
  "aged l t b \<longleftrightarrow> (\<exists>s u. bk_seen b = Some s \<and> bk_updated b = Some u \<and> s \<le> u \<and> u \<le> t \<and>
     0 \<le> bk_tokens b \<and> bk_tokens b \<le> of_int (rl_burst l) \<and>
     min (of_int (rl_burst l)) (rate l * of_int (u - s)) \<le> bk_tokens b)"

definition rate_inv :: "rateLimiter \<Rightarrow> int \<Rightarrow> bool" where
  "rate_inv l t \<longleftrightarrow> 1 \<le> rl_burst l \<and> rl_burst l \<le> rl_requests l \<and> 1 \<le> rl_window l \<and>
     distinct (keys (rl_buckets l)) \<and> (\<forall>k b. map_of (rl_buckets l) k = Some b \<longrightarrow> aged l t b)"

lemma rate_pos: "rate_inv l t \<Longrightarrow> 0 < rate l"
  by (simp add: rate_def rate_inv_def)

lemma min_shift: "x = y + d \<Longrightarrow> 0 \<le> d \<Longrightarrow> min c x \<le> min c y + (d :: rat)"
  by (simp add: min_def)

lemma level_advance:
  assumes "0 < rate l" "t \<le> now"
  shows "level l b now \<le> level l b t + rate l * of_int (now - t)"
proof -
  have d: "0 \<le> rate l * of_int (now - t)" using assms by simp
  show ?thesis
  proof (cases b)
    case None
    with d show ?thesis by (simp add: level_def)
  next
    case (Some b')
    have "of_int (now - the (bk_updated b')) =
        (of_int (t - the (bk_updated b')) + of_int (now - t) :: rat)" by simp
    then have "bk_tokens b' + rate l * of_int (now - the (bk_updated b')) =
        bk_tokens b' + rate l * of_int (t - the (bk_updated b')) + rate l * of_int (now - t)"
      by (simp only: distrib_left add.assoc)
    from min_shift [OF this d] show ?thesis by (simp only: level_def Some option.case)
  qed
qed

lemma stale_full:
  assumes "rate_inv l t" "aged l t b" "t \<le> now" "stale (rl_window l) now b"
  shows "level l (Some b) now = of_int (rl_burst l)"
proof -
  obtain s u where b: "bk_seen b = Some s" "bk_updated b = Some u" "s \<le> u" "u \<le> t"
      "min (of_int (rl_burst l)) (rate l * of_int (u - s)) \<le> bk_tokens b"
    using assms(2) by (auto simp: aged_def)
  have r: "0 < rate l" using assms(1) by (rule rate_pos)
  have w: "rl_window l \<le> now - s" using assms(4) b by (simp add: stale_def)
  have "of_int (rl_burst l) \<le> (of_int (rl_requests l) :: rat)" using assms(1) by (simp add: rate_inv_def)
  also have "\<dots> = rate l * of_int (rl_window l)" using assms(1) by (simp add: rate_def rate_inv_def)
  also have "\<dots> \<le> rate l * of_int (now - s)" using r w by (intro mult_left_mono) (simp_all only: of_int_le_iff less_imp_le)
  also have "\<dots> = rate l * of_int (u - s) + rate l * of_int (now - u)" by (simp add: algebra_simps)
  finally have "of_int (rl_burst l) \<le> rate l * of_int (u - s) + rate l * of_int (now - u)" .
  moreover have "0 \<le> rate l * of_int (now - u)" using r b assms(3) by simp
  ultimately show ?thesis using b by (simp add: level_def min_def split: if_splits)
qed

text \<open>With exact arithmetic: one request on a bucket, in terms of its level.\<close>

lemma bucket_allow_level:
  assumes "rate_inv l t" "t \<le> now" "e = None \<or> (\<exists>b. e = Some b \<and> aged l t b)"
    and "bucket_allow (\<lambda>x. x) (rl_requests l) (rl_window l) (rl_burst l) now
      (case e of Some b \<Rightarrow> b | None \<Rightarrow> zero_bucket) = (b', allowed)"
  shows "bk_tokens b' + (if allowed then 1 else 0) = level l e now" "aged l now b'"
    "level l (Some b') now = bk_tokens b'"
proof -
  have par: "1 \<le> rl_burst l" "0 < rate l" using assms(1) rate_pos by (auto simp: rate_inv_def)
  define r where "r = bucket_refill (\<lambda>x. x) (rl_requests l) (rl_window l) (rl_burst l) now
      (case e of Some b \<Rightarrow> b | None \<Rightarrow> zero_bucket)"
  have rt: "bk_tokens r = level l e now \<and> bk_updated r = Some now \<and>
      (e = None \<longrightarrow> bk_seen r = None \<and> bk_tokens r = of_int (rl_burst l)) \<and>
      (\<forall>b. e = Some b \<longrightarrow> bk_seen r = bk_seen b)"
  proof (cases e)
    case None
    then show ?thesis by (simp add: r_def bucket_refill_def zero_bucket_def level_def Let_def)
  next
    case (Some b)
    with assms(3) obtain s u where b: "bk_seen b = Some s" "bk_updated b = Some u" "u \<le> t"
        "0 \<le> bk_tokens b" "bk_tokens b \<le> of_int (rl_burst l)" by (auto simp: aged_def)
    have m: "of_int (now - u) * of_int (rl_requests l) / of_int (rl_window l) = rate l * of_int (now - u)"
      by (simp add: rate_def)
    show ?thesis
    proof (cases "now - u > 0")
      case True
      with Some b m show ?thesis by (simp add: r_def bucket_refill_def level_def Let_def del: of_int_diff)
    next
      case False
      with b assms(2) have "now = u" by simp
      with Some b show ?thesis by (simp add: r_def bucket_refill_def level_def Let_def)
    qed
  qed
  have take: "bucket_take (\<lambda>x. x) now r = (b', allowed)" using assms(4) by (simp add: bucket_allow_def r_def)
  show one: "bk_tokens b' + (if allowed then 1 else 0) = level l e now"
    using take rt by (auto simp: bucket_take_def split: if_splits)
  have upd: "bk_updated b' = Some now" using take rt by (auto simp: bucket_take_def split: if_splits)
  have lv: "level l e now \<le> of_int (rl_burst l)" by (simp add: level_def split: option.split)
  have lv0: "0 \<le> level l e now"
    using assms(2,3) par by (auto simp: level_def aged_def)
  have tok: "0 \<le> bk_tokens b'" "bk_tokens b' \<le> of_int (rl_burst l)"
    using take rt lv lv0 by (auto simp: bucket_take_def split: if_splits)
  show "level l (Some b') now = bk_tokens b'" using upd tok by (simp add: level_def)
  show "aged l now b'"
  proof (cases allowed)
    case True
    then have "bk_seen b' = Some now" using take by (auto simp: bucket_take_def split: if_splits)
    with upd tok show ?thesis by (simp add: aged_def)
  next
    case False
    then have same: "b' = r" "\<not> 1 \<le> bk_tokens r" using take by (auto simp: bucket_take_def split: if_splits)
    with rt par obtain b where e: "e = Some b" by (cases e) auto
    with assms(3) obtain s u where b: "bk_seen b = Some s" "bk_updated b = Some u" "s \<le> u" "u \<le> t"
        "min (of_int (rl_burst l)) (rate l * of_int (u - s)) \<le> bk_tokens b"
      by (auto simp: aged_def)
    have "rate l * of_int (now - s) = rate l * of_int (u - s) + rate l * of_int (now - u)"
      by (simp add: algebra_simps)
    moreover have "0 \<le> rate l * of_int (now - u)" using par b assms(2) by simp
    ultimately have "min (of_int (rl_burst l)) (rate l * of_int (now - s)) \<le> level l e now"
      using b e by (simp add: level_def min_def split: if_splits)
    with same rt e b upd tok assms(2) show ?thesis by (simp add: aged_def)
  qed
qed

lemma map_of_filter_distinct:
  "distinct (keys xs) \<Longrightarrow> map_of (filter P xs) k =
     (case map_of xs k of None \<Rightarrow> None | Some v \<Rightarrow> if P (k, v) then Some v else None)"
proof (induction xs)
  case (Cons x xs)
  obtain k' v where x: "x = (k', v)" by fastforce
  have "k \<notin> dom (map_of xs)" if "k' = k" using Cons.prems x that by simp
  with Cons x show ?case by (auto simp: dom_def split: option.splits)
qed simp

lemma level_cong: "rl_burst l' = rl_burst l \<Longrightarrow> rate l' = rate l \<Longrightarrow> level l' = level l"
  by (intro ext) (simp add: level_def split: option.split)

lemma rate_cleanup [simp]: "rate (cleanup now l) = rate l"
  by (simp add: rate_def)

lemma aged_mono: "aged l t b \<Longrightarrow> t \<le> now \<Longrightarrow> aged l now b"
  by (auto simp: aged_def)

lemma aged_cong: "rl_burst l' = rl_burst l \<Longrightarrow> rate l' = rate l \<Longrightarrow> aged l' = aged l"
  by (simp add: aged_def fun_eq_iff)

text \<open>Cleanup only drops buckets that are full again.\<close>

lemma cleanup_level:
  assumes "rate_inv l t" "t \<le> now"
  shows "rate_inv (cleanup now l) t"
    "level l (map_of (rl_buckets (cleanup now l)) k) now \<le> level l (map_of (rl_buckets l) k) now"
    "set (keys (rl_buckets (cleanup now l))) \<subseteq> set (keys (rl_buckets l))"
proof -
  let ?P = "\<lambda>(k, b). \<not> stale (rl_window l) now b"
  have dist: "distinct (keys (rl_buckets l))" using assms(1) by (simp add: rate_inv_def)
  have bs: "rl_buckets (cleanup now l) = rl_buckets l \<or> rl_buckets (cleanup now l) = filter ?P (rl_buckets l)"
    by (simp add: cleanup_def split: option.split)
  have flt: "map_of (filter ?P (rl_buckets l)) j = map_of (rl_buckets l) j \<or>
      map_of (filter ?P (rl_buckets l)) j = None \<and>
      (\<exists>b. map_of (rl_buckets l) j = Some b \<and> stale (rl_window l) now b)" for j
    by (cases "map_of (rl_buckets l) j") (simp_all add: map_of_filter_distinct [OF dist])
  have lookup: "map_of (rl_buckets (cleanup now l)) j = map_of (rl_buckets l) j \<or>
      map_of (rl_buckets (cleanup now l)) j = None \<and>
      (\<exists>b. map_of (rl_buckets l) j = Some b \<and> stale (rl_window l) now b)" for j
    using bs flt [of j] by (elim disjE) simp_all
  have d2: "distinct (keys (rl_buckets (cleanup now l)))"
    using bs dist keys_filter_distinct [OF dist, of ?P] by (elim disjE) (simp_all only:)
  have sub: "map_of (rl_buckets (cleanup now l)) j = Some b \<Longrightarrow> map_of (rl_buckets l) j = Some b" for j b
    using lookup [of j] by (elim disjE) simp_all
  have agc: "aged (cleanup now l) = aged l" by (rule aged_cong) simp_all
  have "aged (cleanup now l) t b" if "map_of (rl_buckets (cleanup now l)) j = Some b" for j b
    using assms(1) sub [OF that] by (simp add: agc rate_inv_def)
  then show "rate_inv (cleanup now l) t"
    using assms(1) d2 by (simp add: rate_inv_def)
  show "set (keys (rl_buckets (cleanup now l))) \<subseteq> set (keys (rl_buckets l))"
    using bs by (elim disjE) (auto simp: keys_def)
  show "level l (map_of (rl_buckets (cleanup now l)) k) now \<le> level l (map_of (rl_buckets l) k) now"
    using lookup [of k]
  proof (elim disjE conjE exE)
    fix b assume b: "map_of (rl_buckets (cleanup now l)) k = None" "map_of (rl_buckets l) k = Some b"
      "stale (rl_window l) now b"
    then have "aged l t b" using assms(1) by (simp add: rate_inv_def)
    from stale_full [OF assms(1) this assms(2) b(3)] b show ?thesis by (simp add: level_def)
  qed simp
qed

lemma allow_level:
  assumes "rate_inv l t" "t \<le> now" "allow (\<lambda>x. x) key now l = (l', allowed, retry)"
    and "map_of (rl_buckets (cleanup now l)) key \<noteq> None \<or> int (length (rl_buckets (cleanup now l))) < rl_maxKeys l"
  shows "rate_inv l' now" "rl_maxKeys l' = rl_maxKeys l" "rl_burst l' = rl_burst l" "rate l' = rate l"
    "level l' (map_of (rl_buckets l') k) now + (if allowed \<and> key = k then 1 else 0) \<le>
       level l (map_of (rl_buckets l) k) t + rate l * of_int (now - t)"
    "set (keys (rl_buckets l')) \<subseteq> insert key (set (keys (rl_buckets l)))"
proof -
  define l1 where "l1 = cleanup now l"
  define e where "e = map_of (rl_buckets l1) key"
  obtain b' a where b': "bucket_allow (\<lambda>x. x) (rl_requests l1) (rl_window l1) (rl_burst l1) now
      (case e of Some b \<Rightarrow> b | None \<Rightarrow> zero_bucket) = (b', a)" by fastforce
  note cl = cleanup_level [OF assms(1,2), folded l1_def]
  have par: "rl_burst l1 = rl_burst l" "rate l1 = rate l" "rl_maxKeys l1 = rl_maxKeys l"
    "rl_requests l1 = rl_requests l" "rl_window l1 = rl_window l" by (simp_all add: l1_def)
  have l': "l' = l1\<lparr>rl_buckets := alist_put key b' (rl_buckets l1)\<rparr>" "allowed = a"
  proof -
    have "\<not> (map_of (rl_buckets l1) key = None \<and> int (length (rl_buckets l1)) \<ge> rl_maxKeys l1)"
      using assms(4) par(3) unfolding l1_def [symmetric] by auto
    with assms(3) b' show "l' = l1\<lparr>rl_buckets := alist_put key b' (rl_buckets l1)\<rparr>" "allowed = a"
      unfolding allow_def Let_def l1_def [symmetric] e_def by (auto split: prod.splits)
  qed
  have age: "e = None \<or> (\<exists>b. e = Some b \<and> aged l1 t b)"
    using cl(1) by (cases e) (auto simp: e_def rate_inv_def)
  note ba = bucket_allow_level [OF cl(1) assms(2) age b']
  have par': "rl_burst l' = rl_burst l" "rate l' = rate l" "rl_maxKeys l' = rl_maxKeys l"
    using l' par by (simp_all add: rate_def)
  then show "rl_maxKeys l' = rl_maxKeys l" "rl_burst l' = rl_burst l" "rate l' = rate l" by simp_all
  have agedl': "aged l' = aged l1" using par par' by (intro aged_cong) simp_all
  have "aged l' now b" if "map_of (rl_buckets l') j = Some b" for j b
    using that cl(1) ba(2) assms(2) unfolding agedl'
    by (auto simp: l' rate_inv_def intro: aged_mono split: if_splits)
  then show "rate_inv l' now" using cl(1) l' by (simp add: rate_inv_def)
  show "set (keys (rl_buckets l')) \<subseteq> insert key (set (keys (rl_buckets l)))"
    using cl(3) l' by auto
  have lev: "level l' = level l" "level l1 = level l" using par par' by (auto intro: level_cong)
  have "level l (map_of (rl_buckets l') k) now + (if allowed \<and> key = k then 1 else 0) =
      level l (map_of (rl_buckets l1) k) now"
    using ba(1,3) l' lev by (auto simp: e_def)
  also have "\<dots> \<le> level l (map_of (rl_buckets l) k) now" by (rule cl(2))
  also have "\<dots> \<le> level l (map_of (rl_buckets l) k) t + rate l * of_int (now - t)"
    using rate_pos [OF assms(1)] assms(2) by (rule level_advance)
  finally show "level l' (map_of (rl_buckets l') k) now + (if allowed \<and> key = k then 1 else 0) \<le>
      level l (map_of (rl_buckets l) k) t + rate l * of_int (now - t)" by (simp only: lev)
qed

text \<open>The keys of a run fit the table, so no request meets the shared bucket.\<close>

lemma room:
  assumes "finite K" "int (card K) \<le> rl_maxKeys l" "key \<in> K" "distinct (keys bs)" "set (keys bs) \<subseteq> K"
  shows "map_of bs key \<noteq> None \<or> int (length bs) < rl_maxKeys l"
proof (cases "map_of bs key")
  case None
  then have "set (keys bs) \<subseteq> K - {key}" using assms(5) by auto
  then have "card (set (keys bs)) < card K"
    using assms(1,3) by (meson Diff_subset card_mono finite_Diff card_Diff1_less order.strict_trans1)
  moreover have "card (set (keys bs)) = length bs"
    using distinct_card [OF assms(4)] by (simp add: keys_def)
  ultimately show ?thesis using assms(2) by linarith
qed simp

lemma limiter_run_level:
  assumes "rate_inv l t" "sorted (t # map snd calls)" "finite K" "int (card K) \<le> rl_maxKeys l"
    "set (keys (rl_buckets l)) \<subseteq> K" "fst ` set calls \<subseteq> K"
  shows "of_nat (snd (limiter_run (\<lambda>x. x) k calls l)) \<le>
    level l (map_of (rl_buckets l) k) t + rate l * of_int (last (t # map snd calls) - t)"
  using assms
proof (induction calls arbitrary: l t)
  case Nil
  have "0 \<le> level l (map_of (rl_buckets l) k) t"
  proof (cases "map_of (rl_buckets l) k")
    case None
    then show ?thesis using Nil.prems(1) by (simp add: level_def rate_inv_def)
  next
    case (Some b)
    then have "aged l t b" using Nil.prems(1) by (simp add: rate_inv_def)
    then obtain u where u: "bk_updated b = Some u" "u \<le> t" "0 \<le> bk_tokens b" "bk_tokens b \<le> of_int (rl_burst l)"
      by (auto simp: aged_def)
    have "0 \<le> rate l * of_int (t - u)"
      using rate_pos [OF Nil.prems(1)] u(2) by (intro mult_nonneg_nonneg) simp_all
    with u show ?thesis by (simp add: level_def Some del: of_int_diff)
  qed
  then show ?case by simp
next
  case (Cons call calls)
  obtain key now where call: "call = (key, now)" by fastforce
  obtain l' a r where al: "allow (\<lambda>x. x) key now l = (l', a, r)" by (metis prod_cases3)
  obtain l'' n where run: "limiter_run (\<lambda>x. x) k calls l' = (l'', n)" by fastforce
  have le: "t \<le> now" using Cons.prems(2) call by simp
  note cl = cleanup_level [OF Cons.prems(1) le]
  have "map_of (rl_buckets (cleanup now l)) key \<noteq> None \<or>
      int (length (rl_buckets (cleanup now l))) < rl_maxKeys l"
    using Cons.prems(3,4,5,6) cl(1,3) call by (intro room [of K]) (auto simp: rate_inv_def)
  note st = allow_level [OF Cons.prems(1) le al this]
  have "of_nat n \<le> level l' (map_of (rl_buckets l') k) now + rate l' * of_int (last (now # map snd calls) - now)"
  proof -
    have "set (keys (rl_buckets l')) \<subseteq> K" 
    proof (rule order_trans [OF st(6)])
      have "key \<in> K" using Cons.prems(6) call by simp
      with Cons.prems(5) show "insert key (set (keys (rl_buckets l))) \<subseteq> K" by (intro insert_subsetI)
    qed
    moreover have "sorted (now # map snd calls)" using Cons.prems(2) call by simp
    moreover have "fst ` set calls \<subseteq> K" using Cons.prems(6) by simp
    ultimately show ?thesis using Cons.IH [OF st(1) _ Cons.prems(3)] Cons.prems(4) st(2) run by simp
  qed
  moreover have "rate l * of_int (last (now # map snd calls) - t) =
      rate l * of_int (now - t) + rate l * of_int (last (now # map snd calls) - now)"
    by (simp add: algebra_simps)
  moreover have "last (t # map snd (call # calls)) = last (now # map snd calls)" using call by simp
  ultimately show ?case
    using st(4) st(5) [of k] run al
    by (cases "key = k"; cases a) (simp_all add: call del: of_int_diff last.simps)
qed

lemma newRateLimiter_inv:
  "newRateLimiter c = Inr l \<Longrightarrow> limiter_inv l \<and> rl_buckets l = [] \<and>
     rl_requests l = rc_requests c \<and> rl_window l = rc_window c"
  by (auto simp: newRateLimiter_def limiter_inv_def zero_bucket_ok Let_def split: if_splits)

lemma rate_inv_new: "limiter_inv l \<Longrightarrow> rl_buckets l = [] \<Longrightarrow> rate_inv l t"
  by (simp add: rate_inv_def limiter_inv_def)

lemma allow_maxKeys: "rl_maxKeys (fst (allow fl key now l)) = rl_maxKeys l"
  by (simp add: allow_def Let_def split: prod.split)

lemma limiter_run_config:
  "rl_maxKeys (fst (limiter_run fl k calls l)) = rl_maxKeys l \<and> rl_burst (fst (limiter_run fl k calls l)) = rl_burst l"
proof (induction calls arbitrary: l)
  case (Cons call calls)
  obtain key now where call: "call = (key, now)" by fastforce
  obtain l' a r where al: "allow fl key now l = (l', a, r)" by (metis prod_cases3)
  obtain l'' n where run: "limiter_run fl k calls l' = (l'', n)" by fastforce
  from Cons.IH [of l'] allow_burst [of fl key now l] allow_maxKeys [of fl key now l] al run show ?case
    by (simp add: call)
qed simp

section \<open>Properties\<close>

text \<open>Under IEEE rounding, and for every sequence of requests at any clock readings, the limiter
  keeps at most \<open>MaxKeys\<close> buckets, one per key, and every bucket, the shared overflow bucket
  included, holds between zero and \<open>Burst\<close> tokens.\<close>

theorem limiter_bounded:
  assumes "float_rounding fl" "newRateLimiter c = Inr l" "rl_burst l \<le> 2 ^ 53"
    and "fst (limiter_run fl k calls l) = l'"
  shows "int (length (rl_buckets l')) \<le> rl_maxKeys l \<and> distinct (keys (rl_buckets l')) \<and>
    (\<forall>b \<in> insert (rl_overflow l') (snd ` set (rl_buckets l')). 0 \<le> bk_tokens b \<and> bk_tokens b \<le> of_int (rl_burst l))"
proof -
  have inv: "limiter_inv l'"
    using limiter_run_inv [OF assms(1) conjunct1 [OF newRateLimiter_inv [OF assms(2)]] assms(3), of k calls] assms(4)
    by simp
  have cfg: "rl_maxKeys l' = rl_maxKeys l" "rl_burst l' = rl_burst l"
    using limiter_run_config [of fl k calls l] assms(4) by auto
  have "bucket_ok (rl_burst l) b" if "(key, b) \<in> set (rl_buckets l')" for key b
  proof -
    have "distinct (map fst (rl_buckets l'))" using inv by (simp add: limiter_inv_def keys_def)
    from map_of_is_SomeI [OF this that] show ?thesis using inv cfg by (simp add: limiter_inv_def)
  qed
  then have "\<forall>b \<in> snd ` set (rl_buckets l'). bucket_ok (rl_burst l) b" by fastforce
  with inv cfg show ?thesis unfolding limiter_inv_def bucket_ok_def by simp
qed

lemma float_rounding_id: "float_rounding (\<lambda>x. x)"
  by (simp add: float_rounding_def mono_def)

lemma newRateLimiter_demo:
  "newRateLimiter \<lparr>rc_requests = 2, rc_window = 10, rc_burst = 1, rc_maxKeys = 1\<rparr> =
     Inr \<lparr>rl_requests = 2, rl_window = 10, rl_burst = 1, rl_maxKeys = 1, rl_buckets = [],
       rl_overflow = zero_bucket, rl_nextCleanup = None\<rparr>"
  by (simp add: newRateLimiter_def)

theorem limiter_bounded_witness:
  "\<exists>l l'. newRateLimiter \<lparr>rc_requests = 2, rc_window = 10, rc_burst = 1, rc_maxKeys = 1\<rparr> = Inr l \<and>
     fst (limiter_run (\<lambda>x. x) ''a'' [(''a'', 0), (''b'', 1), (''a'', 2)] l) = l' \<and>
     int (length (rl_buckets l')) \<le> rl_maxKeys l"
  using limiter_bounded [OF float_rounding_id newRateLimiter_demo _ refl,
    of "''a''" "[(''a'', 0), (''b'', 1), (''a'', 2)]"] newRateLimiter_demo
  by (intro exI conjI) (rule newRateLimiter_demo, rule refl, simp)

text \<open>In exact arithmetic, with a clock that does not go back and no more keys than \<open>MaxKeys\<close>, the
  requests of a key that are allowed number at most \<open>Burst\<close> plus the refill, \<open>Requests\<close> per
  \<open>Window\<close>, between the first and the last request: removing idle buckets never
  gives a key more.\<close>

theorem limiter_rate:
  assumes "newRateLimiter c = Inr l" "sorted (t # map snd calls)"
    and "int (card (fst ` set calls)) \<le> rl_maxKeys l"
  shows "of_nat (snd (limiter_run (\<lambda>x. x) k calls l)) \<le>
    of_int (rl_burst l) + of_int (rc_requests c) / of_int (rc_window c) * (of_int (last (t # map snd calls) - t) :: rat)"
proof -
  note new = newRateLimiter_inv [OF assms(1)]
  have "rate_inv l t" using new rate_inv_new by blast
  from limiter_run_level [OF this assms(2) _ assms(3), of k] new show ?thesis
    by (simp add: level_def rate_def del: of_int_diff last.simps)
qed

theorem limiter_rate_witness:
  "\<exists>l. newRateLimiter \<lparr>rc_requests = 2, rc_window = 10, rc_burst = 1, rc_maxKeys = 1\<rparr> = Inr l \<and>
     of_nat (snd (limiter_run (\<lambda>x. x) ''a'' [(''a'', 0), (''a'', 1), (''a'', 5)] l)) \<le> (2 :: rat)"
  using limiter_rate [OF newRateLimiter_demo, of 0 "[(''a'', 0), (''a'', 1), (''a'', 5)]" "''a''"]
  by (intro exI conjI) (rule newRateLimiter_demo, simp)

end
