(* ===== verification/SseEvent.thy ===== *)
theory SseEvent
  imports Errors
begin

text \<open>
  The encoding of server-sent events in \<open>sse/event.go\<close>. The abstract specification is the event
  stream interpretation of the HTML standard, which a browser applies to the bytes: what it
  dispatches is what was written.
\<close>

section \<open>Events\<close>

record event =
  ev_id :: string
  ev_name :: string
  ev_retry :: int
  ev_data :: string

definition validateEvent :: "event \<Rightarrow> goerr option" where
  "validateEvent e =
    (if CHR 0x0D \<in> set (ev_id e) \<or> CHR 0x0A \<in> set (ev_id e) \<or> CHR 0x00 \<in> set (ev_id e) then
       Some (Opaque ''sse: event ID cannot contain a newline or NUL byte'')
     else if CHR 0x0D \<in> set (ev_name e) \<or> CHR 0x0A \<in> set (ev_name e) then
       Some (Opaque ''sse: event name cannot contain a newline'')
     else if ev_retry e < 0 then Some (Opaque ''sse: retry cannot be negative'')
     else None)"

text \<open>\<open>JSON\<close>, with the result of \<open>json.Marshal\<close>.\<close>

definition JSON_event :: "string \<Rightarrow> string result \<Rightarrow> event result" where
  "JSON_event name marshalled = (case marshalled of
     Inl err \<Rightarrow> Inl (Wrapf ''encode SSE JSON: '' err)
   | Inr d \<Rightarrow>
       let e = \<lparr>ev_id = [], ev_name = name, ev_retry = 0, ev_data = d\<rparr>
       in case validateEvent e of Some err \<Rightarrow> Inl err | None \<Rightarrow> Inr e)"

section \<open>Encoding\<close>

text \<open>The two calls of \<open>bytes.ReplaceAll\<close>.\<close>

fun replace_crlf :: "string \<Rightarrow> string" where
  "replace_crlf [] = []"
| "replace_crlf [c] = [c]"
| "replace_crlf (c # d # s) =
     (if c = CHR 0x0D \<and> d = CHR 0x0A then CHR 0x0A # replace_crlf s else c # replace_crlf (d # s))"

definition replace_cr :: "string \<Rightarrow> string" where
  "replace_cr s = map (\<lambda>c. if c = CHR 0x0D then CHR 0x0A else c) s"

definition text_lines :: "string \<Rightarrow> string list" where
  "text_lines s = split_byte (CHR 0x0A) (replace_cr (replace_crlf s))"

definition line_start :: "string \<Rightarrow> string \<Rightarrow> string" where
  "line_start field line =
    (if field = '':'' then (if line \<noteq> [] then '': '' else '':'') else field @ '': '')"

definition writeLines :: "string \<Rightarrow> string \<Rightarrow> string" where
  "writeLines field v = concat (map (\<lambda>line. line_start field line @ line @ [CHR 0x0A]) (text_lines v))"

text \<open>The bytes of one event and of one comment.\<close>

definition event_text :: "event \<Rightarrow> string" where
  "event_text e =
     (if ev_id e \<noteq> [] then ''id: '' @ ev_id e @ [CHR 0x0A] else []) @
     (if ev_name e \<noteq> [] then ''event: '' @ ev_name e @ [CHR 0x0A] else []) @
     (if ev_retry e > 0 then ''retry: '' @ show_int (max 1 (ev_retry e div 1000000)) @ [CHR 0x0A] else []) @
     writeLines ''data'' (ev_data e) @ [CHR 0x0A]"

definition comment_text :: "string \<Rightarrow> string" where
  "comment_text c = writeLines '':'' c @ [CHR 0x0A]"

text \<open>A writer answers with the bytes it took and an error; a nil writer is \<open>None\<close>.\<close>

definition writeAll :: "(string \<Rightarrow> nat \<times> goerr option) \<Rightarrow> string \<Rightarrow> goerr option" where
  "writeAll writer d = (case writer d of
     (written, Some err) \<Rightarrow> Some (Wrapf ''write SSE event: '' err)
   | (written, None) \<Rightarrow> if written \<noteq> length d
       then Some (Wrapf ''write SSE event: '' (Sentinel IoErrShortWrite)) else None)"

definition WriteEvent :: "(string \<Rightarrow> nat \<times> goerr option) option \<Rightarrow> event \<Rightarrow> goerr option" where
  "WriteEvent writer e = (case writer of
     None \<Rightarrow> Some (Opaque ''sse: writer cannot be nil'')
   | Some w \<Rightarrow> (case validateEvent e of Some err \<Rightarrow> Some err | None \<Rightarrow> writeAll w (event_text e)))"

definition WriteComment :: "(string \<Rightarrow> nat \<times> goerr option) option \<Rightarrow> string \<Rightarrow> goerr option" where
  "WriteComment writer c = (case writer of
     None \<Rightarrow> Some (Opaque ''sse: writer cannot be nil'')
   | Some w \<Rightarrow> writeAll w (comment_text c))"

section \<open>What the client reads\<close>

text \<open>A dispatched event: its type, its data and the last event id.\<close>

record stream_reader =
  rd_data :: string
  rd_type :: string
  rd_id :: string
  rd_retry :: "nat option"
  rd_events :: "(string \<times> string \<times> string) list"

definition read_dispatch :: "stream_reader \<Rightarrow> stream_reader" where
  "read_dispatch st = (if rd_data st = [] then st\<lparr>rd_type := []\<rparr>
     else st\<lparr>rd_data := [], rd_type := [],
       rd_events := rd_events st @
         [(if rd_type st = [] then ''message'' else rd_type st, butlast (rd_data st), rd_id st)]\<rparr>)"

definition read_field :: "string \<Rightarrow> string \<Rightarrow> stream_reader \<Rightarrow> stream_reader" where
  "read_field field v st =
    (if field = ''event'' then st\<lparr>rd_type := v\<rparr>
     else if field = ''data'' then st\<lparr>rd_data := rd_data st @ v @ [CHR 0x0A]\<rparr>
     else if field = ''id'' then (if CHR 0x00 \<in> set v then st else st\<lparr>rd_id := v\<rparr>)
     else if field = ''retry'' then (case read_nat v of None \<Rightarrow> st | Some n \<Rightarrow> st\<lparr>rd_retry := Some n\<rparr>)
     else st)"

definition read_line :: "stream_reader \<Rightarrow> string \<Rightarrow> stream_reader" where
  "read_line st line =
    (if line = [] then read_dispatch st
     else if hd line = CHR '':'' then st
     else case cut line (CHR '':'') of
       (field, v, found) \<Rightarrow> read_field field (if v \<noteq> [] \<and> hd v = CHR '' '' then tl v else v) st)"

text \<open>Lines end with LF, CR or both; an incomplete last line is ignored.\<close>

definition read_stream :: "stream_reader \<Rightarrow> string \<Rightarrow> stream_reader" where
  "read_stream st s = foldl read_line st (butlast (text_lines s))"

text \<open>What is promised for the blocks a handler writes.\<close>

datatype block = EventBlock event | CommentBlock string

definition block_text :: "block \<Rightarrow> string" where
  "block_text b = (case b of EventBlock e \<Rightarrow> event_text e | CommentBlock c \<Rightarrow> comment_text c)"

definition valid_block :: "block \<Rightarrow> bool" where
  "valid_block b = (case b of EventBlock e \<Rightarrow> validateEvent e = None | CommentBlock c \<Rightarrow> True)"

definition deliver :: "stream_reader \<Rightarrow> block \<Rightarrow> stream_reader" where
  "deliver st b = (case b of CommentBlock c \<Rightarrow> st
   | EventBlock e \<Rightarrow>
       let i = (if ev_id e \<noteq> [] then ev_id e else rd_id st)
       in st\<lparr>rd_id := i,
         rd_retry := (if ev_retry e > 0 then Some (nat (max 1 (ev_retry e div 1000000))) else rd_retry st),
         rd_events := rd_events st @ [(if ev_name e = [] then ''message'' else ev_name e,
           join_with [CHR 0x0A] (text_lines (ev_data e)), i)]\<rparr>)"

section \<open>Lines\<close>

lemma set_replace_crlf: "set (replace_crlf s) \<subseteq> set s"
  by (induction s rule: replace_crlf.induct) auto

lemma replace_crlf_id: "CHR 0x0D \<notin> set s \<Longrightarrow> replace_crlf s = s"
  by (induction s rule: replace_crlf.induct) auto

lemma replace_cr_id: "CHR 0x0D \<notin> set s \<Longrightarrow> replace_cr s = s"
  by (induction s) (auto simp: replace_cr_def)

lemma cr_replace_cr [simp]: "CHR 0x0D \<notin> set (replace_cr s)"
  by (auto simp: replace_cr_def)

lemma text_lines_clean: "x \<in> set (text_lines s) \<Longrightarrow> CHR 0x0A \<notin> set x \<and> CHR 0x0D \<notin> set x"
proof -
  assume x: "x \<in> set (text_lines s)"
  then have "CHR 0x0A \<notin> set x" by (auto simp: text_lines_def dest: split_byte_clean)
  moreover have "set x \<subseteq> set (replace_cr (replace_crlf s))"
  proof -
    have "set y \<subseteq> set t" if "y \<in> set (split_byte c t)" for y and c :: char and t
      using that
    proof (induction t arbitrary: y)
      case (Cons a t)
      obtain z zs where "split_byte c t = z # zs" by (cases "split_byte c t") auto
      with Cons show ?case by (fastforce split: if_splits)
    qed simp
    with x show ?thesis by (simp add: text_lines_def)
  qed
  ultimately show ?thesis using cr_replace_cr [of "replace_crlf s"] by blast
qed

text \<open>Complete lines, each without line ends, are read back.\<close>

abbreviation ended :: "string list \<Rightarrow> string" where
  "ended ls \<equiv> concat (map (\<lambda>l. l @ [CHR 0x0A]) ls)"

lemma split_ended:
  "\<forall>l \<in> set ls. CHR 0x0A \<notin> set l \<Longrightarrow> split_byte (CHR 0x0A) (ended ls) = ls @ [[]]"
  by (induction ls) (simp_all add: split_byte_append)

lemma text_lines_ended:
  assumes "\<forall>l \<in> set ls. CHR 0x0A \<notin> set l \<and> CHR 0x0D \<notin> set l"
  shows "butlast (text_lines (ended ls)) = ls"
proof -
  have "CHR 0x0D \<notin> set (ended ls)" using assms by auto
  then have "text_lines (ended ls) = ls @ [[]]"
    using assms by (simp add: text_lines_def replace_crlf_id replace_cr_id split_ended)
  then show ?thesis by simp
qed

section \<open>The lines of a block\<close>

definition event_lines :: "event \<Rightarrow> string list" where
  "event_lines e =
     (if ev_id e \<noteq> [] then [''id: '' @ ev_id e] else []) @
     (if ev_name e \<noteq> [] then [''event: '' @ ev_name e] else []) @
     (if ev_retry e > 0 then [''retry: '' @ show_int (max 1 (ev_retry e div 1000000))] else []) @
     map (\<lambda>l. ''data: '' @ l) (text_lines (ev_data e)) @ [[]]"

definition block_lines :: "block \<Rightarrow> string list" where
  "block_lines b = (case b of EventBlock e \<Rightarrow> event_lines e
     | CommentBlock c \<Rightarrow> map (\<lambda>l. line_start '':'' l @ l) (text_lines c) @ [[]])"

lemma writeLines_ended: "writeLines field v = ended (map (\<lambda>l. line_start field l @ l) (text_lines v))"
  by (simp add: writeLines_def comp_def)

lemma line_start_data: "line_start ''data'' l = ''data: ''"
  by (simp add: line_start_def)

lemma block_text_lines: "block_text b = ended (block_lines b)"
  by (cases b)
    (simp_all add: block_text_def block_lines_def event_lines_def event_text_def comment_text_def
      writeLines_ended line_start_data)

lemma block_lines_clean:
  assumes "valid_block b" "l \<in> set (block_lines b)"
  shows "CHR 0x0A \<notin> set l \<and> CHR 0x0D \<notin> set l"
proof (cases b)
  case (EventBlock e)
  have "c \<noteq> CHR 0x0A \<and> c \<noteq> CHR 0x0D" if "c \<in> set (show_nat n)" for c n
    using set_show_nat [OF that] by (auto simp: is_digit_def)
  then have num: "CHR 0x0A \<notin> set (show_int (max 1 n))" "CHR 0x0D \<notin> set (show_int (max 1 n))" for n
    by (fastforce simp: show_int_def)+
  show ?thesis
    using assms text_lines_clean [of _ "ev_data e"] num EventBlock
    by (auto simp: block_lines_def event_lines_def valid_block_def validateEvent_def split: if_splits)
next
  case (CommentBlock c)
  with assms(2) show ?thesis
    using text_lines_clean [of _ c] by (auto simp: block_lines_def line_start_def split: if_splits)
qed

section \<open>Reading a block\<close>

lemma read_line_field:
  "CHR '':'' \<notin> set f \<Longrightarrow> f \<noteq> [] \<Longrightarrow> read_line st (f @ '': '' @ v) = read_field f v st"
  using cut_append [of "CHR '':''" f "CHR '' '' # v"]
  by (cases f) (auto simp add: read_line_def simp del: cut_append)

lemmas read_line_fields = read_line_field [of "''id''", simplified] read_line_field [of "''event''", simplified]
  read_line_field [of "''retry''", simplified] read_line_field [of "''data''", simplified]

lemma read_comments: "foldl read_line st (map (\<lambda>l. line_start '':'' l @ l) ls) = st"
  by (induction ls) (simp_all add: read_line_def line_start_def)

lemma read_data:
  "foldl read_line st (map (\<lambda>l. ''data: '' @ l) ls) = st\<lparr>rd_data := rd_data st @ ended ls\<rparr>"
  by (induction ls arbitrary: st) (simp_all add: read_line_fields read_field_def)

lemma ended_join: "ls \<noteq> [] \<Longrightarrow> ended ls = join_with [CHR 0x0A] ls @ [CHR 0x0A]"
  by (induction ls rule: induct_list012) simp_all

lemma text_lines_not_Nil [simp]: "text_lines s \<noteq> []"
  by (simp add: text_lines_def)

lemma read_block:
  assumes "valid_block b" "rd_data st = []" "rd_type st = []"
  shows "foldl read_line st (block_lines b) = deliver st b"
proof (cases b)
  case (EventBlock e)
  have nul: "CHR 0x00 \<notin> set (ev_id e)"
    using assms(1) EventBlock by (auto simp: valid_block_def validateEvent_def split: if_splits)
  let ?n = "max 1 (ev_retry e div 1000000)"
  have num: "read_nat (show_int ?n) = Some (nat ?n)"
    by (simp add: show_int_def)
  define st1 where "st1 = (if ev_id e \<noteq> [] then st\<lparr>rd_id := ev_id e\<rparr> else st)"
  define st2 where "st2 = (if ev_name e \<noteq> [] then st1\<lparr>rd_type := ev_name e\<rparr> else st1)"
  define st3 where "st3 = (if ev_retry e > 0 then st2\<lparr>rd_retry := Some (nat ?n)\<rparr> else st2)"
  have 1: "foldl read_line st (if ev_id e \<noteq> [] then [''id: '' @ ev_id e] else []) = st1"
    using nul by (simp add: st1_def read_line_fields read_field_def)
  have 2: "foldl read_line st1 (if ev_name e \<noteq> [] then [''event: '' @ ev_name e] else []) = st2"
    by (simp add: st2_def read_line_fields read_field_def)
  have 3: "foldl read_line st2 (if ev_retry e > 0 then [''retry: '' @ show_int ?n] else []) = st3"
    using num by (simp add: st3_def read_line_fields read_field_def)
  have "foldl read_line st (block_lines b) = read_dispatch (st3\<lparr>rd_data := rd_data st3 @ ended (text_lines (ev_data e))\<rparr>)"
    unfolding EventBlock block_lines_def block.case event_lines_def foldl_append 1 2 3 read_data
    by (simp add: read_line_def)
  also have "rd_data st3 = []" using assms(2) by (simp add: st3_def st2_def st1_def)
  also have "read_dispatch (st3\<lparr>rd_data := [] @ ended (text_lines (ev_data e))\<rparr>) =
      st3\<lparr>rd_data := [], rd_type := [], rd_events := rd_events st3 @
        [(if rd_type st3 = [] then ''message'' else rd_type st3, join_with [CHR 0x0A] (text_lines (ev_data e)), rd_id st3)]\<rparr>"
    by (simp add: read_dispatch_def ended_join)
  also have "\<dots> = deliver st b"
    using assms(2,3) unfolding EventBlock deliver_def block.case Let_def st3_def st2_def st1_def
    by (cases st) simp
  finally show ?thesis .
next
  case (CommentBlock c)
  with assms(2,3) show ?thesis
    by (simp add: block_lines_def read_comments read_line_def [of _ "[]"] read_dispatch_def deliver_def)
qed

lemma deliver_clean [simp]: "rd_data (deliver st b) = rd_data st" "rd_type (deliver st b) = rd_type st"
  by (cases b; simp add: deliver_def Let_def)+

lemma read_blocks:
  "\<forall>b \<in> set bs. valid_block b \<Longrightarrow> rd_data st = [] \<Longrightarrow> rd_type st = [] \<Longrightarrow>
   foldl read_line st (concat (map block_lines bs)) = foldl deliver st bs"
  by (induction bs arbitrary: st) (simp_all add: read_block)

lemma blocks_text: "concat (map block_text bs) = ended (concat (map block_lines bs))"
  by (induction bs) (simp_all add: block_text_lines)

section \<open>Properties\<close>

definition fresh_reader :: stream_reader where
  "fresh_reader = \<lparr>rd_data = [], rd_type = [], rd_id = [], rd_retry = None, rd_events = []\<rparr>"

text \<open>C36. Whatever sequence of valid events and heartbeat comments is written, a client that follows the
  HTML standard dispatches exactly the events, in order, each with its name, its data (line
  ends as LF), the last id and the retry time: no data can forge a field, a line or an event.\<close>

theorem sse_stream_roundtrip:
  assumes "\<forall>b \<in> set bs. valid_block b"
  shows "read_stream fresh_reader (concat (map block_text bs)) = foldl deliver fresh_reader bs"
proof -
  have "\<forall>l \<in> set (concat (map block_lines bs)). CHR 0x0A \<notin> set l \<and> CHR 0x0D \<notin> set l"
    using assms block_lines_clean by fastforce
  then show ?thesis
    unfolding read_stream_def blocks_text
    using text_lines_ended [of "concat (map block_lines bs)"] read_blocks [OF assms, of fresh_reader]
    by (simp add: fresh_reader_def)
qed

theorem sse_stream_roundtrip_witness:
  "rd_events (read_stream fresh_reader (concat (map block_text
     [EventBlock \<lparr>ev_id = ''7'', ev_name = ''tick'', ev_retry = 0, ev_data = ''a'' @ [CHR 0x0D] @ ''data: b''\<rparr>,
      CommentBlock ''heartbeat'']))) =
   [(''tick'', ''a'' @ [CHR 0x0A] @ ''data: b'', ''7'')]"
  by (subst sse_stream_roundtrip)
    (simp_all add: valid_block_def validateEvent_def deliver_def fresh_reader_def text_lines_def replace_cr_def Let_def)

end
