(* ===== verification/SseHub.thy ===== *)
theory SseHub
  imports SseEvent
begin

text \<open>
  The event hub of \<open>sse/sse.go\<close>. The subscribers and their channels are objects in a store, the list
  \<open>hub_chans\<close>; a subscriber is its index. Each method runs under the hub's mutex, so a step of the
  relation at the end is one call, one reception, or the context callback of a subscription.
  A send on a closed channel and a second close panic, as in Go.
\<close>

section \<open>State\<close>

datatype SlowConsumerPolicy = DisconnectSlowConsumer | DropEvent | OtherPolicy nat

record HubConfig =
  SubscriberBuffer :: int
  SlowConsumer :: SlowConsumerPolicy
  Heartbeat :: int
  WriteTimeout :: int

record subscriber =
  sub_topic :: string
  sub_buf :: "event list"
  sub_closed :: bool

record hub =
  hub_subs :: "(string \<times> nat list) list option"
  hub_buffer :: int
  hub_policy :: SlowConsumerPolicy
  hub_heartbeat :: int
  hub_writeTimeout :: int
  hub_chans :: "subscriber list"

definition NewHub :: "HubConfig \<Rightarrow> hub result" where
  "NewHub c =
    (if SubscriberBuffer c < 0 then Inl (Opaque ''sse: subscriber buffer cannot be negative'')
     else if Heartbeat c < 0 then Inl (Opaque ''sse: heartbeat cannot be negative'')
     else if WriteTimeout c < 0 then Inl (Opaque ''sse: write timeout cannot be negative'')
     else if SlowConsumer c \<noteq> DisconnectSlowConsumer \<and> SlowConsumer c \<noteq> DropEvent then
       Inl (Opaque ''sse: invalid slow-consumer policy'')
     else Inr \<lparr>hub_subs = Some [],
       hub_buffer = (if SubscriberBuffer c = 0 then 16 else SubscriberBuffer c),
       hub_policy = SlowConsumer c,
       hub_heartbeat = (if Heartbeat c = 0 then 15 * 1000000000 else Heartbeat c),
       hub_writeTimeout = (if WriteTimeout c = 0 then 10 * 1000000000 else WriteTimeout c),
       hub_chans = []\<rparr>)"

section \<open>Operations\<close>

definition topic_subs :: "(string \<times> nat list) list \<Rightarrow> string \<Rightarrow> nat list" where
  "topic_subs m t = (case map_of m t of None \<Rightarrow> [] | Some ids \<Rightarrow> ids)"

text \<open>\<open>close(subscription.events)\<close>\<close>

definition close_events :: "nat \<Rightarrow> hub \<Rightarrow> hub outcome" where
  "close_events i h = (if sub_closed (hub_chans h ! i) then Panic ''close of closed channel''
     else Return (h\<lparr>hub_chans := (hub_chans h)[i := (hub_chans h ! i)\<lparr>sub_closed := True\<rparr>]\<rparr>))"

definition disconnectLocked :: "nat \<Rightarrow> hub \<Rightarrow> hub outcome" where
  "disconnectLocked i h = (case hub_subs h of None \<Rightarrow> Return h
     | Some m \<Rightarrow>
         let t = sub_topic (hub_chans h ! i); ids = topic_subs m t
         in if i \<notin> set ids then Return h
            else
              let rest = filter (\<lambda>j. j \<noteq> i) ids
              in close_events i (h\<lparr>hub_subs :=
                   Some (if rest = [] then alist_del t m else alist_put t rest m)\<rparr>))"

text \<open>\<open>SubscribeTopic\<close>; \<open>cancelled\<close> is the state of the context at the first test.\<close>

definition SubscribeTopic :: "bool \<Rightarrow> string \<Rightarrow> hub \<Rightarrow> hub \<times> nat" where
  "SubscribeTopic cancelled t h =
    (let i = length (hub_chans h);
         open_sub = \<lparr>sub_topic = t, sub_buf = [], sub_closed = False\<rparr>;
         closed_hub = h\<lparr>hub_chans := hub_chans h @ [open_sub\<lparr>sub_closed := True\<rparr>]\<rparr>
     in if cancelled then (closed_hub, i)
        else case hub_subs h of None \<Rightarrow> (closed_hub, i)
          | Some m \<Rightarrow> (h\<lparr>hub_chans := hub_chans h @ [open_sub],
                         hub_subs := Some (alist_put t (topic_subs m t @ [i]) m)\<rparr>, i))"

text \<open>The non-blocking send: \<open>None\<close> takes the \<open>default\<close> branch.\<close>

definition offer :: "event \<Rightarrow> nat \<Rightarrow> hub \<Rightarrow> hub option outcome" where
  "offer e i h =
    (let c = hub_chans h ! i
     in if sub_closed c then Panic ''send on closed channel''
        else if int (length (sub_buf c)) < hub_buffer h then
          Return (Some (h\<lparr>hub_chans := (hub_chans h)[i := c\<lparr>sub_buf := sub_buf c @ [e]\<rparr>]\<rparr>))
        else Return None)"

fun publish_loop :: "event \<Rightarrow> nat list \<Rightarrow> hub \<Rightarrow> nat \<Rightarrow> (hub \<times> nat) outcome" where
  "publish_loop e [] h delivered = Return (h, delivered)"
| "publish_loop e (i # ids) h delivered = (case offer e i h of
     Panic msg \<Rightarrow> Panic msg
   | Return (Some h') \<Rightarrow> publish_loop e ids h' (Suc delivered)
   | Return None \<Rightarrow>
       if hub_policy h = DisconnectSlowConsumer then
         (case disconnectLocked i h of Panic msg \<Rightarrow> Panic msg
          | Return h' \<Rightarrow> publish_loop e ids h' delivered)
       else publish_loop e ids h delivered)"

text \<open>\<open>order\<close> is the order in which the loop visits the map of subscribers.\<close>

definition PublishTopic ::
  "(nat list \<Rightarrow> nat list) \<Rightarrow> string \<Rightarrow> event \<Rightarrow> hub \<Rightarrow> (hub \<times> nat \<times> goerr option) outcome" where
  "PublishTopic order t e h = (case validateEvent e of
     Some err \<Rightarrow> Return (h, 0, Some err)
   | None \<Rightarrow> (case hub_subs h of None \<Rightarrow> Return (h, 0, None)
     | Some m \<Rightarrow> (case publish_loop e (order (topic_subs m t)) h 0 of
         Panic msg \<Rightarrow> Panic msg
       | Return (h', delivered) \<Rightarrow> Return (h', delivered, None))))"

fun close_loop :: "nat list \<Rightarrow> hub \<Rightarrow> hub outcome" where
  "close_loop [] h = Return h"
| "close_loop (i # ids) h = (case close_events i h of Panic msg \<Rightarrow> Panic msg | Return h' \<Rightarrow> close_loop ids h')"

definition hub_Close :: "hub \<Rightarrow> hub outcome" where
  "hub_Close h = (case hub_subs h of None \<Rightarrow> Return h
     | Some m \<Rightarrow> (case close_loop (concat (map snd m)) h of Panic msg \<Rightarrow> Panic msg
         | Return h' \<Rightarrow> Return (h'\<lparr>hub_subs := None\<rparr>)))"

text \<open>A reader takes the first event of its channel.\<close>

definition receive :: "nat \<Rightarrow> hub \<Rightarrow> (hub \<times> event) option" where
  "receive i h = (case sub_buf (hub_chans h ! i) of [] \<Rightarrow> None
     | e # es \<Rightarrow> Some (h\<lparr>hub_chans := (hub_chans h)[i := (hub_chans h ! i)\<lparr>sub_buf := es\<rparr>]\<rparr>, e))"

section \<open>Reachable states\<close>

text \<open>
  With a hub go, for every subscriber, the events its reader has taken and the events published to
  its topic since it subscribed.
\<close>

record hub_system =
  sys_hub :: hub
  sys_taken :: "nat \<Rightarrow> event list"
  sys_sent :: "nat \<Rightarrow> event list"

definition record_sent :: "string \<Rightarrow> event \<Rightarrow> hub \<Rightarrow> (nat \<Rightarrow> event list) \<Rightarrow> nat \<Rightarrow> event list" where
  "record_sent t e h sent i =
     (if i < length (hub_chans h) \<and> sub_topic (hub_chans h ! i) = t then sent i @ [e] else sent i)"

inductive hub_step :: "hub_system \<Rightarrow> hub_system \<Rightarrow> bool" where
  subscribe: "SubscribeTopic cancelled t (sys_hub s) = (h, i) \<Longrightarrow>
    hub_step s (s\<lparr>sys_hub := h, sys_taken := (sys_taken s)(i := []), sys_sent := (sys_sent s)(i := [])\<rparr>)"
| publish: "\<forall>ids. distinct ids \<longrightarrow> distinct (order ids) \<and> set (order ids) = set ids \<Longrightarrow>
    PublishTopic order t e (sys_hub s) = Return (h, n, None) \<Longrightarrow>
    hub_step s (s\<lparr>sys_hub := h, sys_sent := record_sent t e (sys_hub s) (sys_sent s)\<rparr>)"
| remove: "i < length (hub_chans (sys_hub s)) \<Longrightarrow> disconnectLocked i (sys_hub s) = Return h \<Longrightarrow>
    hub_step s (s\<lparr>sys_hub := h\<rparr>)"
| close: "hub_Close (sys_hub s) = Return h \<Longrightarrow> hub_step s (s\<lparr>sys_hub := h\<rparr>)"
| receive: "i < length (hub_chans (sys_hub s)) \<Longrightarrow> receive i (sys_hub s) = Some (h, e) \<Longrightarrow>
    hub_step s (s\<lparr>sys_hub := h, sys_taken := (sys_taken s)(i := sys_taken s i @ [e])\<rparr>)"

inductive hub_reachable :: "hub_system \<Rightarrow> bool" where
  initial: "NewHub c = Inr h \<Longrightarrow>
    hub_reachable \<lparr>sys_hub = h, sys_taken = (\<lambda>i. []), sys_sent = (\<lambda>i. [])\<rparr>"
| step: "hub_reachable s \<Longrightarrow> hub_step s s' \<Longrightarrow> hub_reachable s'"

section \<open>Invariant\<close>

text \<open>The open subscribers of a topic.\<close>

definition members :: "hub \<Rightarrow> string \<Rightarrow> nat set" where
  "members h t = {i. i < length (hub_chans h) \<and> sub_topic (hub_chans h ! i) = t \<and> \<not> sub_closed (hub_chans h ! i)}"

definition hub_inv :: "hub \<Rightarrow> bool" where
  "hub_inv h \<longleftrightarrow> 1 \<le> hub_buffer h \<and>
     (\<forall>i < length (hub_chans h). int (length (sub_buf (hub_chans h ! i))) \<le> hub_buffer h) \<and>
     (case hub_subs h of None \<Rightarrow> \<forall>t. members h t = {}
      | Some m \<Rightarrow> distinct (keys m) \<and>
          (\<forall>t. map_of m t \<noteq> Some [] \<and> distinct (topic_subs m t) \<and> set (topic_subs m t) = members h t))"

lemma topic_subs_put [simp]: "topic_subs (alist_put t ids m) u = (if u = t then ids else topic_subs m u)"
  by (simp add: topic_subs_def)

lemma topic_subs_del [simp]: "topic_subs (alist_del t m) u = (if u = t then [] else topic_subs m u)"
  by (simp add: topic_subs_def)

lemma distinct_keys_put: "distinct (keys m) \<Longrightarrow> distinct (keys (alist_put t ids m))"
  by simp

definition closed_at :: "nat \<Rightarrow> subscriber list \<Rightarrow> subscriber list" where
  "closed_at i cs = cs[i := (cs ! i)\<lparr>sub_closed := True\<rparr>]"

lemma length_closed_at [simp]: "length (closed_at i cs) = length cs"
  by (simp add: closed_at_def)

lemma nth_closed_at: "j < length cs \<Longrightarrow>
    closed_at i cs ! j = (if j = i then (cs ! i)\<lparr>sub_closed := True\<rparr> else cs ! j)"
  by (simp add: closed_at_def nth_list_update)

lemma closed_at_id: "i < length cs \<Longrightarrow> sub_closed (cs ! i) \<Longrightarrow> closed_at i cs = cs"
  by (rule nth_equalityI) (auto simp: nth_closed_at)

lemma members_closed:
  "i < length (hub_chans h) \<Longrightarrow> hub_chans h' = closed_at i (hub_chans h) \<Longrightarrow> members h' t = members h t - {i}"
  by (auto simp: members_def nth_closed_at split: if_splits)

text \<open>Disconnecting closes the channel of an open subscriber and does nothing otherwise.\<close>

lemma disconnectLocked_ok:
  assumes "hub_inv h" "i < length (hub_chans h)"
  obtains h' where "disconnectLocked i h = Return h'" "hub_inv h'"
    "hub_chans h' = closed_at i (hub_chans h)" "hub_buffer h' = hub_buffer h" "hub_policy h' = hub_policy h"
proof (cases "hub_subs h")
  case None
  then have "sub_closed (hub_chans h ! i)" using assms by (auto simp: hub_inv_def members_def)
  with None assms show ?thesis
    by (intro that [of h]) (simp_all add: disconnectLocked_def closed_at_id)
next
  case (Some m)
  define t where "t = sub_topic (hub_chans h ! i)"
  have m: "distinct (keys m)" "map_of m u \<noteq> Some []" "distinct (topic_subs m u)" "set (topic_subs m u) = members h u" for u
    using assms(1) Some by (simp_all add: hub_inv_def)
  show ?thesis
  proof (cases "sub_closed (hub_chans h ! i)")
    case True
    then have "i \<notin> set (topic_subs m t)" using m(4) [of t] by (simp add: members_def)
    with Some have "disconnectLocked i h = Return h" by (simp add: disconnectLocked_def t_def Let_def)
    with True assms show ?thesis by (intro that [of h]) (simp_all add: closed_at_id)
  next
    case False
    define rest where "rest = filter (\<lambda>j. j \<noteq> i) (topic_subs m t)"
    define m' where "m' = (if rest = [] then alist_del t m else alist_put t rest m)"
    define h' where "h' = h\<lparr>hub_subs := Some m', hub_chans := closed_at i (hub_chans h)\<rparr>"
    have "i \<in> set (topic_subs m t)" using m(4) [of t] False assms(2) by (simp add: members_def t_def)
    then have eq: "disconnectLocked i h = Return h'"
      using Some False
      by (simp add: disconnectLocked_def close_events_def t_def [symmetric] rest_def [symmetric]
          m'_def [symmetric] h'_def closed_at_def Let_def)
    have mem: "members h' u = members h u - {i}" for u
      using assms(2) by (rule members_closed) (simp add: h'_def)
    have sub: "topic_subs m' u = (if u = t then rest else topic_subs m u)" for u
      by (simp add: m'_def)
    have "i \<notin> members h u" if "u \<noteq> t" for u using that by (simp add: members_def t_def)
    then have "set (topic_subs m' u) = members h' u" for u
      using m(4) mem by (auto simp: sub rest_def)
    moreover have "map_of m' u \<noteq> Some []" for u using m(2) [of u] by (simp add: m'_def)
    moreover have "distinct (keys m')" using m(1) by (simp add: m'_def)
    moreover have "distinct (topic_subs m' u)" for u using m(3) by (simp add: sub rest_def)
    ultimately have "hub_inv h'"
      using assms by (simp add: hub_inv_def h'_def nth_closed_at)
    with eq show ?thesis by (rule that) (simp_all add: h'_def)
  qed
qed

definition offered :: "event \<Rightarrow> hub \<Rightarrow> subscriber \<Rightarrow> subscriber" where
  "offered e h c =
    (if int (length (sub_buf c)) < hub_buffer h then c\<lparr>sub_buf := sub_buf c @ [e]\<rparr>
     else if hub_policy h = DisconnectSlowConsumer then c\<lparr>sub_closed := True\<rparr> else c)"

lemma offer_inv:
  assumes "hub_inv h" "i < length (hub_chans h)" "int (length (sub_buf (hub_chans h ! i))) < hub_buffer h"
  shows "hub_inv (h\<lparr>hub_chans := (hub_chans h)[i := (hub_chans h ! i)\<lparr>sub_buf := sub_buf (hub_chans h ! i) @ [e]\<rparr>]\<rparr>)"
proof -
  let ?h = "h\<lparr>hub_chans := (hub_chans h)[i := (hub_chans h ! i)\<lparr>sub_buf := sub_buf (hub_chans h ! i) @ [e]\<rparr>]\<rparr>"
  have "members ?h = members h"
    using assms(2) by (intro ext) (auto simp: members_def nth_list_update split: if_splits)
  with assms show ?thesis by (auto simp: hub_inv_def nth_list_update split: option.splits)
qed

definition has_room :: "hub \<Rightarrow> nat \<Rightarrow> bool" where
  "has_room h i \<longleftrightarrow> int (length (sub_buf (hub_chans h ! i))) < hub_buffer h"

lemma publish_loop_ok:
  assumes "hub_inv h" "distinct ids" "set ids \<subseteq> members h t"
  shows "\<exists>h' n. publish_loop e ids h d = Return (h', n) \<and> hub_inv h' \<and>
    hub_buffer h' = hub_buffer h \<and> hub_policy h' = hub_policy h \<and>
    length (hub_chans h') = length (hub_chans h) \<and>
    (\<forall>j < length (hub_chans h). hub_chans h' ! j =
       (if j \<in> set ids then offered e h (hub_chans h ! j) else hub_chans h ! j)) \<and>
    n = d + length (filter (has_room h) ids)"
  using assms
proof (induction ids arbitrary: h d)
  case (Cons i ids)
  have i: "i < length (hub_chans h)" "\<not> sub_closed (hub_chans h ! i)"
    using Cons.prems(3) by (auto simp: members_def)
  let ?c = "hub_chans h ! i"
  obtain h1 d1 where h1: "publish_loop e (i # ids) h d = publish_loop e ids h1 d1" "hub_inv h1"
      "hub_buffer h1 = hub_buffer h" "hub_policy h1 = hub_policy h"
      "hub_chans h1 = (hub_chans h)[i := offered e h ?c]" "d1 = (if has_room h i then Suc d else d)"
  proof (cases "int (length (sub_buf ?c)) < hub_buffer h")
    case True
    with i Cons.prems(1) show ?thesis
      by (intro that [of "h\<lparr>hub_chans := (hub_chans h)[i := ?c\<lparr>sub_buf := sub_buf ?c @ [e]\<rparr>]\<rparr>" "Suc d"])
        (simp_all add: offer_def offered_def offer_inv has_room_def Let_def)
  next
    case False
    show ?thesis
    proof (cases "hub_policy h = DisconnectSlowConsumer")
      case True
      obtain h' where "disconnectLocked i h = Return h'" "hub_inv h'" "hub_chans h' = closed_at i (hub_chans h)"
          "hub_buffer h' = hub_buffer h" "hub_policy h' = hub_policy h"
        using disconnectLocked_ok [OF Cons.prems(1) i(1)] by blast
      with False True i show ?thesis
        by (intro that [of h' d]) (simp_all add: offer_def offered_def closed_at_def has_room_def Let_def)
    next
      case pol: False
      with False i Cons.prems(1) show ?thesis
        by (intro that [of h d]) (simp_all add: offer_def offered_def has_room_def Let_def)
    qed
  qed
  have n: "hub_chans h1 ! j = (if j = i then offered e h ?c else hub_chans h ! j)" if "j < length (hub_chans h)" for j
    using that h1(5) by (simp add: nth_list_update)
  have "set ids \<subseteq> members h1 t"
    using Cons.prems(2,3) h1(5) by (auto simp: members_def nth_list_update)
  from Cons.IH [OF h1(2) _ this, of d1] Cons.prems(2) obtain h' k where
    h': "publish_loop e ids h1 d1 = Return (h', k)" "hub_inv h'" "hub_buffer h' = hub_buffer h1"
      "hub_policy h' = hub_policy h1" "length (hub_chans h') = length (hub_chans h1)"
      "\<forall>j < length (hub_chans h1). hub_chans h' ! j =
         (if j \<in> set ids then offered e h1 (hub_chans h1 ! j) else hub_chans h1 ! j)"
      "k = d1 + length (filter (has_room h1) ids)" by auto
  have "has_room h1 j = has_room h j" if "j \<in> set ids" for j
  proof -
    have "j < length (hub_chans h)" "j \<noteq> i" using that Cons.prems(2,3) by (auto simp: members_def)
    with n [of j] h1(3) show ?thesis by (simp add: has_room_def)
  qed
  then have fl: "filter (has_room h1) ids = filter (has_room h) ids" by (intro filter_cong refl)
  have off: "offered e h1 = offered e h" using h1(3,4) by (simp add: offered_def fun_eq_iff)
  show ?case
  proof (intro exI conjI allI impI)
    show "publish_loop e (i # ids) h d = Return (h', k)" using h1(1) h'(1) by (simp only:)
    show "k = d + length (filter (has_room h) (i # ids))" using h'(7) h1(6) fl by simp
    fix j assume j: "j < length (hub_chans h)"
    show "hub_chans h' ! j = (if j \<in> set (i # ids) then offered e h (hub_chans h ! j) else hub_chans h ! j)"
      using h'(6) [rule_format, of j] h1(5) n [OF j] j Cons.prems(2)
      by (cases "j = i") (simp_all add: off)
  qed (use h1 h' in simp_all)
qed simp

lemma publish_ok:
  assumes "hub_inv h" "\<forall>ids. distinct ids \<longrightarrow> distinct (order ids) \<and> set (order ids) = set ids"
    "validateEvent e = None"
  obtains h' n where "PublishTopic order t e h = Return (h', n, None)" "hub_inv h'"
    "hub_policy h' = hub_policy h" "length (hub_chans h') = length (hub_chans h)"
    "\<forall>j < length (hub_chans h). hub_chans h' ! j =
       (if j \<in> members h t then offered e h (hub_chans h ! j) else hub_chans h ! j)"
    "n = card {i \<in> members h t. has_room h i}"
proof (cases "hub_subs h")
  case None
  with assms show ?thesis
    by (intro that [of h 0]) (simp_all add: PublishTopic_def hub_inv_def)
next
  case (Some m)
  let ?ids = "order (topic_subs m t)"
  have "distinct (topic_subs m t)" "set (topic_subs m t) = members h t"
    using assms(1) Some by (simp_all add: hub_inv_def)
  with assms(2) have ids: "distinct ?ids" "set ?ids = members h t" by simp_all
  obtain h' n where "publish_loop e ?ids h 0 = Return (h', n)" "hub_inv h'" "hub_policy h' = hub_policy h"
    "length (hub_chans h') = length (hub_chans h)"
    "\<forall>j < length (hub_chans h). hub_chans h' ! j =
       (if j \<in> set ?ids then offered e h (hub_chans h ! j) else hub_chans h ! j)"
    "n = length (filter (has_room h) ?ids)"
    using publish_loop_ok [OF assms(1) ids(1), of t e 0] ids(2) by auto
  moreover have "length (filter (has_room h) ?ids) = card {i \<in> members h t. has_room h i}"
    using distinct_card [of "filter (has_room h) ?ids"] ids by simp
  ultimately show ?thesis using Some assms(3) ids(2)
    by (intro that [of h' n]) (simp_all add: PublishTopic_def)
qed

lemma close_loop_ok:
  "distinct ids \<Longrightarrow> \<forall>i \<in> set ids. i < length (hub_chans h) \<and> \<not> sub_closed (hub_chans h ! i) \<Longrightarrow>
   \<exists>h'. close_loop ids h = Return h' \<and> hub_buffer h' = hub_buffer h \<and> hub_policy h' = hub_policy h \<and>
     length (hub_chans h') = length (hub_chans h) \<and>
     (\<forall>j < length (hub_chans h). hub_chans h' ! j =
        (if j \<in> set ids then (hub_chans h ! j)\<lparr>sub_closed := True\<rparr> else hub_chans h ! j))"
proof (induction ids arbitrary: h)
  case (Cons i ids)
  let ?h = "h\<lparr>hub_chans := closed_at i (hub_chans h)\<rparr>"
  have "close_loop (i # ids) h = close_loop ids ?h"
    using Cons.prems(2) by (simp add: close_events_def closed_at_def)
  moreover have "\<forall>j \<in> set ids. j < length (hub_chans ?h) \<and> \<not> sub_closed (hub_chans ?h ! j)"
    using Cons.prems by (auto simp: nth_closed_at)
  ultimately show ?case
    using Cons.IH [of ?h] Cons.prems by (auto simp: nth_closed_at)
qed simp

lemma distinct_topics:
  "distinct (keys m) \<Longrightarrow> \<forall>(t, ids) \<in> set m. distinct ids \<and> (\<forall>i \<in> set ids. f i = t) \<Longrightarrow>
   distinct (concat (map snd m))"
proof (induction m)
  case (Cons x m)
  obtain t ids where x: "x = (t, ids)" by fastforce
  have "t \<notin> fst ` set m" using Cons.prems(1) x by (simp add: keys_def)
  then have "set ids \<inter> set (concat (map snd m)) = {}" using Cons.prems(2) x by fastforce
  with Cons x show ?case by (simp add: keys_def)
qed simp

lemma hub_Close_ok:
  assumes "hub_inv h"
  obtains h' where "hub_Close h = Return h'" "hub_inv h'" "hub_policy h' = hub_policy h"
    "length (hub_chans h') = length (hub_chans h)"
    "\<forall>j < length (hub_chans h). hub_chans h' ! j = (hub_chans h ! j)\<lparr>sub_closed := True\<rparr>"
proof (cases "hub_subs h")
  case None
  then have "\<forall>j < length (hub_chans h). sub_closed (hub_chans h ! j)"
    using assms by (auto simp: hub_inv_def members_def)
  with None assms show ?thesis by (intro that [of h]) (simp_all add: hub_Close_def)
next
  case (Some m)
  have m: "distinct (keys m)" "distinct (topic_subs m u)" "set (topic_subs m u) = members h u" for u
    using assms Some by (simp_all add: hub_inv_def)
  have entry: "ids = topic_subs m t" if "(t, ids) \<in> set m" for t ids
    using that m(1) by (simp add: topic_subs_def keys_def)
  let ?ids = "concat (map snd m)"
  have dist: "distinct ?ids"
    using m by (intro distinct_topics [where f = "\<lambda>i. sub_topic (hub_chans h ! i)"])
      (auto dest!: entry simp: members_def)
  have all: "j \<in> set ?ids \<longleftrightarrow> j < length (hub_chans h) \<and> \<not> sub_closed (hub_chans h ! j)" for j
  proof
    assume "j \<in> set ?ids"
    then obtain t ids where "(t, ids) \<in> set m" "j \<in> set ids" by auto
    then show "j < length (hub_chans h) \<and> \<not> sub_closed (hub_chans h ! j)"
      using m(3) entry by (auto simp: members_def)
  next
    assume j: "j < length (hub_chans h) \<and> \<not> sub_closed (hub_chans h ! j)"
    let ?t = "sub_topic (hub_chans h ! j)"
    have "j \<in> set (topic_subs m ?t)" using m(3) j by (simp add: members_def)
    then have "map_of m ?t = Some (topic_subs m ?t)" by (cases "map_of m ?t") (simp_all add: topic_subs_def)
    from map_of_SomeD [OF this] \<open>j \<in> set (topic_subs m ?t)\<close> show "j \<in> set ?ids" by force
  qed
  obtain h' where h': "close_loop ?ids h = Return h'" "hub_buffer h' = hub_buffer h" "hub_policy h' = hub_policy h"
      "length (hub_chans h') = length (hub_chans h)"
      "\<forall>j < length (hub_chans h). hub_chans h' ! j =
         (if j \<in> set ?ids then (hub_chans h ! j)\<lparr>sub_closed := True\<rparr> else hub_chans h ! j)"
    using close_loop_ok [OF dist, of h] all by blast
  have cl: "\<forall>j < length (hub_chans h). hub_chans h' ! j = (hub_chans h ! j)\<lparr>sub_closed := True\<rparr>"
    using h'(5) all by simp
  have "hub_inv (h'\<lparr>hub_subs := None\<rparr>)"
    using assms h'(2,4) cl by (simp add: hub_inv_def members_def)
  with Some h' cl show ?thesis
    by (intro that [of "h'\<lparr>hub_subs := None\<rparr>"]) (simp_all add: hub_Close_def)
qed


section \<open>Invariants of the system\<close>

definition delivery_ok :: "hub_system \<Rightarrow> nat \<Rightarrow> bool" where
  "delivery_ok s i \<longleftrightarrow>
    (let c = hub_chans (sys_hub s) ! i; seen = sys_taken s i @ sub_buf c
     in subseq seen (sys_sent s i) \<and>
        (hub_policy (sys_hub s) = DisconnectSlowConsumer \<longrightarrow>
           prefix seen (sys_sent s i) \<and> (\<not> sub_closed c \<longrightarrow> seen = sys_sent s i)))"

definition sys_inv :: "hub_system \<Rightarrow> bool" where
  "sys_inv s \<longleftrightarrow> hub_inv (sys_hub s) \<and> (\<forall>i < length (hub_chans (sys_hub s)). delivery_ok s i)"

lemma delivery_close:
  "delivery_ok s i \<Longrightarrow> hub_policy h = hub_policy (sys_hub s) \<Longrightarrow>
   hub_chans h ! i = hub_chans (sys_hub s) ! i \<or> hub_chans h ! i = (hub_chans (sys_hub s) ! i)\<lparr>sub_closed := True\<rparr> \<Longrightarrow>
   delivery_ok (s\<lparr>sys_hub := h\<rparr>) i"
  by (auto simp: delivery_ok_def Let_def)

lemma delivery_publish:
  assumes "delivery_ok s i" "i < length (hub_chans (sys_hub s))" "hub_policy h = hub_policy (sys_hub s)"
    "hub_chans h ! i = (if i \<in> members (sys_hub s) t then offered e (sys_hub s) (hub_chans (sys_hub s) ! i)
       else hub_chans (sys_hub s) ! i)"
  shows "delivery_ok (s\<lparr>sys_hub := h, sys_sent := record_sent t e (sys_hub s) (sys_sent s)\<rparr>) i"
proof -
  let ?c = "hub_chans (sys_hub s) ! i"
  have mono: "subseq xs ys \<Longrightarrow> subseq xs (ys @ [e])" "prefix xs ys \<Longrightarrow> prefix xs (ys @ [e])" for xs ys
    by (simp_all add: list_emb_prefix)
  have snoc: "subseq xs ys \<Longrightarrow> subseq (xs @ [e]) (ys @ [e])" for xs ys by simp
  show ?thesis
  proof (cases "sub_topic ?c = t")
    case False
    with assms show ?thesis by (simp add: delivery_ok_def record_sent_def members_def Let_def)
  next
    case True
    with assms mono show ?thesis
      using snoc [of "sys_taken s i @ sub_buf ?c" "sys_sent s i"]
      by (auto simp: delivery_ok_def record_sent_def members_def offered_def Let_def split: if_splits)
  qed
qed

lemma subscribe_inv:
  assumes "hub_inv h" "SubscribeTopic cancelled t h = (h', i)"
  shows "hub_inv h' \<and> i = length (hub_chans h) \<and> hub_policy h' = hub_policy h \<and>
    length (hub_chans h') = Suc (length (hub_chans h)) \<and> sub_buf (hub_chans h' ! i) = [] \<and>
    (\<forall>j < length (hub_chans h). hub_chans h' ! j = hub_chans h ! j)"
proof -
  let ?n = "length (hub_chans h)"
  have i: "i = ?n" using assms(2) by (auto simp: SubscribeTopic_def Let_def split: if_splits option.splits)
  have old: "length (hub_chans h') = Suc ?n" "hub_policy h' = hub_policy h" "hub_buffer h' = hub_buffer h"
      "j < ?n \<Longrightarrow> hub_chans h' ! j = hub_chans h ! j" "sub_buf (hub_chans h' ! ?n) = []" for j
    using assms(2) by (auto simp: SubscribeTopic_def Let_def nth_append split: if_splits option.splits)
  have mem: "members h' u = members h u \<union> (if sub_topic (hub_chans h' ! ?n) = u \<and> \<not> sub_closed (hub_chans h' ! ?n) then {?n} else {})" for u
    using old(1,4) by (auto simp: members_def less_Suc_eq)
  have buf: "\<forall>j < Suc ?n. int (length (sub_buf (hub_chans h' ! j))) \<le> hub_buffer h"
    using assms(1) old(4,5) by (auto simp: hub_inv_def less_Suc_eq)
  have "hub_inv h'"
  proof (cases "cancelled \<or> hub_subs h = None")
    case True
    then have "sub_closed (hub_chans h' ! ?n)" "hub_subs h' = hub_subs h"
      using assms(2) by (auto simp: SubscribeTopic_def Let_def nth_append split: if_splits option.splits)
    with mem have "members h' = members h" "hub_subs h' = hub_subs h" by (auto simp: fun_eq_iff)
    with assms(1) buf old show ?thesis by (simp add: hub_inv_def split: option.splits)
  next
    case False
    then obtain m where m: "hub_subs h = Some m" by auto
    with False assms(2) have new: "hub_subs h' = Some (alist_put t (topic_subs m t @ [?n]) m)"
        "sub_topic (hub_chans h' ! ?n) = t" "\<not> sub_closed (hub_chans h' ! ?n)"
      by (auto simp: SubscribeTopic_def Let_def nth_append)
    have inv: "distinct (keys m)" "map_of m u \<noteq> Some []" "distinct (topic_subs m u)" "set (topic_subs m u) = members h u" for u
      using assms(1) m by (simp_all add: hub_inv_def)
    have "?n \<notin> members h t" by (simp add: members_def)
    with inv mem new buf old assms(1) show ?thesis by (auto simp: hub_inv_def)
  qed
  with i old show ?thesis by simp
qed

lemma receive_inv:
  assumes "hub_inv h" "receive i h = Some (h', e)" "i < length (hub_chans h)"
  shows "hub_inv h'" "hub_policy h' = hub_policy h" "length (hub_chans h') = length (hub_chans h)"
    "sub_buf (hub_chans h ! i) = e # sub_buf (hub_chans h' ! i)"
    "sub_closed (hub_chans h' ! i) = sub_closed (hub_chans h ! i)"
    "j \<noteq> i \<Longrightarrow> hub_chans h' ! j = hub_chans h ! j"
proof -
  obtain es where es: "sub_buf (hub_chans h ! i) = e # es"
      "h' = h\<lparr>hub_chans := (hub_chans h)[i := (hub_chans h ! i)\<lparr>sub_buf := es\<rparr>]\<rparr>"
    using assms(2) by (auto simp: receive_def split: list.splits)
  have "members h' = members h"
    using es(2) assms(3) by (intro ext) (auto simp: members_def nth_list_update split: if_splits)
  moreover have "int (length es) \<le> hub_buffer h" using assms(1,3) es(1) by (fastforce simp: hub_inv_def)
  moreover have "int (length (sub_buf (hub_chans h' ! j))) \<le> hub_buffer h" if "j < length (hub_chans h)" for j
    using that assms(1) es(2) calculation(2) by (cases "j = i") (simp_all add: hub_inv_def)
  ultimately show "hub_inv h'" using assms(1) es(2) by (simp add: hub_inv_def split: option.splits)
qed (use assms in \<open>auto simp: receive_def split: list.splits\<close>)


lemma NewHub_inv: "NewHub c = Inr h \<Longrightarrow> hub_inv h \<and> hub_chans h = []"
  by (auto simp: NewHub_def hub_inv_def members_def topic_subs_def split: if_splits)

lemma publish_valid: "PublishTopic order t e h = Return (h', n, None) \<Longrightarrow> validateEvent e = None"
  by (simp add: PublishTopic_def split: option.splits)

lemma hub_step_inv:
  assumes "hub_step s s'" "sys_inv s"
  shows "sys_inv s'"
  using assms(1)
proof cases
  case (subscribe cancelled t h i)
  have inv: "hub_inv (sys_hub s)" using assms(2) by (simp add: sys_inv_def)
  note st = subscribe_inv [OF inv subscribe(2)]
  have "delivery_ok s' j" if "j < length (hub_chans h)" for j
  proof (cases "j = i")
    case True
    with subscribe(1) st show ?thesis by (auto simp: delivery_ok_def Let_def)
  next
    case False
    with that st have "j < length (hub_chans (sys_hub s))" by simp
    with False st assms(2) show ?thesis by (auto simp: subscribe(1) delivery_ok_def sys_inv_def)
  qed
  with st subscribe(1) show ?thesis by (simp add: sys_inv_def)
next
  case (publish order t e h n)
  have inv: "hub_inv (sys_hub s)" using assms(2) by (simp add: sys_inv_def)
  obtain h' n' where h': "PublishTopic order t e (sys_hub s) = Return (h', n', None)" "hub_inv h'"
    "hub_policy h' = hub_policy (sys_hub s)" "length (hub_chans h') = length (hub_chans (sys_hub s))"
    "\<forall>j < length (hub_chans (sys_hub s)). hub_chans h' ! j =
       (if j \<in> members (sys_hub s) t then offered e (sys_hub s) (hub_chans (sys_hub s) ! j)
        else hub_chans (sys_hub s) ! j)"
    by (rule publish_ok [OF inv publish(2) publish_valid [OF publish(3)], of t]) (rule that)
  have "h' = h" using h'(1) publish(3) by simp
  have "delivery_ok s' j" if j: "j < length (hub_chans (sys_hub s))" for j
    unfolding publish(1)
  proof (rule delivery_publish)
    show "delivery_ok s j" using assms(2) j by (simp add: sys_inv_def)
    show "hub_policy h = hub_policy (sys_hub s)" using h'(3) \<open>h' = h\<close> by simp
    show "hub_chans h ! j = (if j \<in> members (sys_hub s) t
        then offered e (sys_hub s) (hub_chans (sys_hub s) ! j) else hub_chans (sys_hub s) ! j)"
      using h'(5) j \<open>h' = h\<close> by blast
  qed (rule j)
  with h'(2,4) \<open>h' = h\<close> publish(1) show ?thesis by (simp add: sys_inv_def)
next
  case (remove i h)
  have inv: "hub_inv (sys_hub s)" using assms(2) by (simp add: sys_inv_def)
  obtain h' where "disconnectLocked i (sys_hub s) = Return h'" "hub_inv h'"
    "hub_chans h' = closed_at i (hub_chans (sys_hub s))" "hub_policy h' = hub_policy (sys_hub s)"
    using disconnectLocked_ok [OF inv remove(2)] by blast
  with remove have h: "hub_inv h" "hub_chans h = closed_at i (hub_chans (sys_hub s))" "hub_policy h = hub_policy (sys_hub s)"
    by simp_all
  have "delivery_ok s' j" if "j < length (hub_chans (sys_hub s))" for j
    unfolding remove(1) using that assms(2) h
    by (intro delivery_close) (auto simp: sys_inv_def nth_closed_at)
  with h remove(1) show ?thesis by (simp add: sys_inv_def)
next
  case (close h)
  have inv: "hub_inv (sys_hub s)" using assms(2) by (simp add: sys_inv_def)
  obtain h' where "hub_Close (sys_hub s) = Return h'" "hub_inv h'" "hub_policy h' = hub_policy (sys_hub s)"
    "length (hub_chans h') = length (hub_chans (sys_hub s))"
    "\<forall>j < length (hub_chans (sys_hub s)). hub_chans h' ! j = (hub_chans (sys_hub s) ! j)\<lparr>sub_closed := True\<rparr>"
    using hub_Close_ok [OF inv] by blast
  with close have h: "hub_inv h" "hub_policy h = hub_policy (sys_hub s)"
    "length (hub_chans h) = length (hub_chans (sys_hub s))"
    "\<forall>j < length (hub_chans (sys_hub s)). hub_chans h ! j = (hub_chans (sys_hub s) ! j)\<lparr>sub_closed := True\<rparr>"
    by simp_all
  have "delivery_ok s' j" if "j < length (hub_chans (sys_hub s))" for j
    unfolding close(1) using that assms(2) h by (intro delivery_close) (auto simp: sys_inv_def)
  with h close(1) show ?thesis by (simp add: sys_inv_def)
next
  case (receive i h e)
  have inv: "hub_inv (sys_hub s)" using assms(2) by (simp add: sys_inv_def)
  note st = receive_inv [OF inv receive(3,2)]
  have "delivery_ok s' j" if "j < length (hub_chans (sys_hub s))" for j
  proof -
    have "delivery_ok s j" using assms(2) that by (simp add: sys_inv_def)
    with st show ?thesis by (cases "j = i") (simp_all add: receive(1) delivery_ok_def Let_def)
  qed
  with st receive(1) show ?thesis by (simp add: sys_inv_def)
qed

lemma hub_reachable_inv: "hub_reachable s \<Longrightarrow> sys_inv s"
proof (induction rule: hub_reachable.induct)
  case (initial c h)
  then show ?case using NewHub_inv by (simp add: sys_inv_def)
qed (rule hub_step_inv)


section \<open>Abstract view\<close>

text \<open>The open subscribers with their topic and pending events, and what publishing means for them.\<close>

definition hub_view :: "hub \<Rightarrow> nat \<Rightarrow> (string \<times> event list) option" where
  "hub_view h i = (if i < length (hub_chans h) \<and> \<not> sub_closed (hub_chans h ! i)
     then Some (sub_topic (hub_chans h ! i), sub_buf (hub_chans h ! i)) else None)"

definition view_publish ::
  "int \<Rightarrow> SlowConsumerPolicy \<Rightarrow> string \<Rightarrow> event \<Rightarrow> (nat \<Rightarrow> (string \<times> event list) option) \<Rightarrow>
     nat \<Rightarrow> (string \<times> event list) option" where
  "view_publish cap policy t e v i = (case v i of None \<Rightarrow> None
     | Some (u, pending) \<Rightarrow>
         if u \<noteq> t then Some (u, pending)
         else if int (length pending) < cap then Some (u, pending @ [e])
         else if policy = DisconnectSlowConsumer then None else Some (u, pending))"

section \<open>Demonstration\<close>

definition demo_event :: event where
  "demo_event = \<lparr>ev_id = [], ev_name = ''tick'', ev_retry = 0, ev_data = ''x''\<rparr>"

definition demo_hub :: hub where
  "demo_hub = \<lparr>hub_subs = Some [(''a'', [0])], hub_buffer = 1, hub_policy = DisconnectSlowConsumer,
     hub_heartbeat = 15 * 1000000000, hub_writeTimeout = 10 * 1000000000,
     hub_chans = [\<lparr>sub_topic = ''a'', sub_buf = [demo_event], sub_closed = False\<rparr>]\<rparr>"

definition demo_hub_system :: hub_system where
  "demo_hub_system = \<lparr>sys_hub = demo_hub, sys_taken = (\<lambda>i. []),
     sys_sent = (\<lambda>i. if i = 0 then [demo_event] else [])\<rparr>"

lemma demo_hub_reachable: "hub_reachable demo_hub_system"
proof -
  define h0 where "h0 = demo_hub\<lparr>hub_subs := Some [], hub_chans := []\<rparr>"
  define h1 where "h1 = demo_hub\<lparr>hub_chans := [\<lparr>sub_topic = ''a'', sub_buf = [], sub_closed = False\<rparr>]\<rparr>"
  let ?s0 = "\<lparr>sys_hub = h0, sys_taken = (\<lambda>i. []), sys_sent = (\<lambda>i. [])\<rparr>"
  let ?s1 = "\<lparr>sys_hub = h1, sys_taken = (\<lambda>i. []), sys_sent = (\<lambda>i. [])\<rparr>"
  have "NewHub \<lparr>SubscriberBuffer = 1, SlowConsumer = DisconnectSlowConsumer, Heartbeat = 0, WriteTimeout = 0\<rparr> = Inr h0"
    by (simp add: NewHub_def h0_def demo_hub_def)
  then have r0: "hub_reachable ?s0" by (rule hub_reachable.initial)
  have "SubscribeTopic False ''a'' h0 = (h1, 0)"
    by (simp add: SubscribeTopic_def h0_def h1_def demo_hub_def topic_subs_def alist_put_def alist_del_def)
  then have "hub_step ?s0 ?s1"
    using hub_step.subscribe [of False "''a''" ?s0 h1 0] by (simp add: fun_upd_idem)
  with r0 have r1: "hub_reachable ?s1" by (rule hub_reachable.step)
  have "PublishTopic (\<lambda>x. x) ''a'' demo_event h1 = Return (demo_hub, 1, None)"
    by (simp add: PublishTopic_def h1_def demo_hub_def topic_subs_def validateEvent_def demo_event_def offer_def)
  then have "hub_step ?s1 (?s1\<lparr>sys_hub := demo_hub, sys_sent := record_sent ''a'' demo_event h1 (\<lambda>i. [])\<rparr>)"
    using hub_step.publish [of "\<lambda>x. x" "''a''" demo_event ?s1 demo_hub 1] by simp
  moreover have "record_sent ''a'' demo_event h1 (\<lambda>i. []) = (\<lambda>i. if i = 0 then [demo_event] else [])"
    by (simp add: record_sent_def h1_def demo_hub_def fun_eq_iff)
  ultimately have "hub_step ?s1 demo_hub_system" by (simp add: demo_hub_system_def)
  with r1 show ?thesis by (rule hub_reachable.step)
qed

section \<open>Properties\<close>

text \<open>C10. In no reachable state, whatever the interleaving of subscriptions, cancellations, publications
  and closes, does a call send on a closed channel or close a channel twice: publishing, the
  removal of any subscription and the close of the hub all return.\<close>

theorem hub_never_panics:
  assumes "hub_reachable s" "i < length (hub_chans (sys_hub s))"
    and "\<forall>ids. distinct ids \<longrightarrow> distinct (order ids) \<and> set (order ids) = set ids"
  shows "(\<exists>h n. PublishTopic order t e (sys_hub s) = Return (h, n, validateEvent e)) \<and>
    (\<exists>h. disconnectLocked i (sys_hub s) = Return h) \<and> (\<exists>h. hub_Close (sys_hub s) = Return h)"
proof -
  have inv: "hub_inv (sys_hub s)" using hub_reachable_inv [OF assms(1)] by (simp add: sys_inv_def)
  have "\<exists>h n. PublishTopic order t e (sys_hub s) = Return (h, n, validateEvent e)"
  proof (cases "validateEvent e")
    case None
    with publish_ok [OF inv assms(3) None, of t] show ?thesis by metis
  qed (simp add: PublishTopic_def)
  with disconnectLocked_ok [OF inv assms(2)] hub_Close_ok [OF inv] show ?thesis by metis
qed

theorem hub_never_panics_witness:
  "\<exists>h. hub_Close (sys_hub demo_hub_system) = Return h"
  using hub_never_panics [OF demo_hub_reachable, of 0 "\<lambda>x. x"]
  by (simp add: demo_hub_system_def demo_hub_def)

text \<open>Every subscriber takes events of its own topic in the order of their publication, without
  repetition, and its pending events fit the buffer. With \<open>DisconnectSlowConsumer\<close> there is no
  gap: what it has taken and what is pending is exactly what was published since it
  subscribed, and after its channel is closed an initial part of that.\<close>

theorem hub_delivery:
  assumes "hub_reachable s" "i < length (hub_chans (sys_hub s))"
  defines "c \<equiv> hub_chans (sys_hub s) ! i"
  shows "subseq (sys_taken s i @ sub_buf c) (sys_sent s i) \<and> int (length (sub_buf c)) \<le> hub_buffer (sys_hub s) \<and>
    (hub_policy (sys_hub s) = DisconnectSlowConsumer \<longrightarrow>
       prefix (sys_taken s i @ sub_buf c) (sys_sent s i) \<and>
       (\<not> sub_closed c \<longrightarrow> sys_taken s i @ sub_buf c = sys_sent s i))"
  using hub_reachable_inv [OF assms(1)] assms(2)
  by (simp add: sys_inv_def delivery_ok_def hub_inv_def c_def Let_def)

theorem hub_delivery_witness:
  "sys_taken demo_hub_system 0 @ sub_buf (hub_chans demo_hub ! 0) = sys_sent demo_hub_system 0"
  using hub_delivery [OF demo_hub_reachable, of 0] by (simp add: demo_hub_system_def demo_hub_def)

text \<open>C39. Publishing refines its abstract meaning: seen as a map from open subscribers to their topic and
  pending events, it appends the event for every subscriber of the topic that has room, treats
  the full ones by the policy, leaves all others alone, and returns the number that accepted.\<close>

theorem hub_publish_refines:
  assumes "hub_reachable s" "PublishTopic order t e (sys_hub s) = Return (h, n, None)"
    and "\<forall>ids. distinct ids \<longrightarrow> distinct (order ids) \<and> set (order ids) = set ids"
  shows "hub_view h = view_publish (hub_buffer (sys_hub s)) (hub_policy (sys_hub s)) t e (hub_view (sys_hub s)) \<and>
    n = card {i. \<exists>p. hub_view (sys_hub s) i = Some (t, p) \<and> int (length p) < hub_buffer (sys_hub s)}"
proof -
  let ?h = "sys_hub s"
  have inv: "hub_inv ?h" using hub_reachable_inv [OF assms(1)] by (simp add: sys_inv_def)
  obtain h' n' where h': "PublishTopic order t e ?h = Return (h', n', None)"
    "length (hub_chans h') = length (hub_chans ?h)"
    "\<forall>j < length (hub_chans ?h). hub_chans h' ! j =
       (if j \<in> members ?h t then offered e ?h (hub_chans ?h ! j) else hub_chans ?h ! j)"
    "n' = card {i \<in> members ?h t. has_room ?h i}"
    by (rule publish_ok [OF inv assms(3) publish_valid [OF assms(2)], of t]) (rule that)
  with assms(2) have h: "h' = h" "n' = n" by simp_all
  have "hub_view h i = view_publish (hub_buffer ?h) (hub_policy ?h) t e (hub_view ?h) i" for i
  proof (cases "i < length (hub_chans ?h)")
    case True
    with h'(2,3) show ?thesis unfolding h
      by (simp add: hub_view_def view_publish_def members_def offered_def)
  next
    case False
    with h'(2) show ?thesis unfolding h by (simp add: hub_view_def view_publish_def)
  qed
  moreover have "{i \<in> members ?h t. has_room ?h i} =
      {i. \<exists>p. hub_view ?h i = Some (t, p) \<and> int (length p) < hub_buffer ?h}"
    by (auto simp: members_def has_room_def hub_view_def)
  ultimately show ?thesis using h'(4) h by (simp add: fun_eq_iff)
qed

theorem hub_publish_refines_witness:
  "\<exists>h. PublishTopic (\<lambda>x. x) ''b'' demo_event (sys_hub demo_hub_system) = Return (h, 0, None) \<and>
     hub_view h = view_publish 1 DisconnectSlowConsumer ''b'' demo_event (hub_view demo_hub)"
proof -
  have "PublishTopic (\<lambda>x. x) ''b'' demo_event (sys_hub demo_hub_system) = Return (demo_hub, 0, None)"
    by (simp add: PublishTopic_def demo_hub_system_def demo_hub_def topic_subs_def validateEvent_def demo_event_def)
  moreover from hub_publish_refines [OF demo_hub_reachable this]
  have "hub_view demo_hub = view_publish 1 DisconnectSlowConsumer ''b'' demo_event (hub_view demo_hub)"
  proof -
    have c: "sys_hub demo_hub_system = demo_hub" "hub_buffer demo_hub = 1" "hub_policy demo_hub = DisconnectSlowConsumer"
      by (simp_all add: demo_hub_system_def demo_hub_def)
    assume "\<forall>ids. distinct ids \<longrightarrow> distinct ((\<lambda>x. x) ids) \<and> set ((\<lambda>x. x) ids) = set (ids :: nat list) \<Longrightarrow>
      hub_view demo_hub = view_publish (hub_buffer (sys_hub demo_hub_system)) (hub_policy (sys_hub demo_hub_system))
        ''b'' demo_event (hub_view (sys_hub demo_hub_system)) \<and>
      0 = card {i. \<exists>p. hub_view (sys_hub demo_hub_system) i = Some (''b'', p) \<and>
        int (length p) < hub_buffer (sys_hub demo_hub_system)}"
    then show ?thesis unfolding c by blast
  qed
  ultimately show ?thesis by blast
qed

end
