(* ===== verification/SseHandler.thy ===== *)
theory SseHandler
  imports SseHub
begin

text \<open>
  The streaming handler of \<open>sse/handler.go\<close>: the order of deadline, write and flush, and the loop
  over the cases its \<open>select\<close> takes. What the connection answers to the calls of one write is a
  parameter, the record \<open>conn_answers\<close>. The result of the loop is the bytes the connection took.
\<close>

section \<open>Writing\<close>

record conn_answers =
  an_set :: "goerr option"
  an_write :: "string \<Rightarrow> nat \<times> goerr option"
  an_flush :: "goerr option"
  an_clear :: "goerr option"

definition streamDeadline :: "goerr option \<Rightarrow> goerr option" where
  "streamDeadline answer = (case answer of None \<Rightarrow> None
     | Some err \<Rightarrow> if errors_Is err HttpErrNotSupported then None else Some err)"

text \<open>\<open>hub.write\<close>: the result, and whether the write function was called.\<close>

definition stream_write ::
  "conn_answers \<Rightarrow> ((string \<Rightarrow> nat \<times> goerr option) option \<Rightarrow> goerr option) \<Rightarrow> bool \<times> goerr option" where
  "stream_write A write = (case streamDeadline (an_set A) of
     Some err \<Rightarrow> (False, Some err)
   | None \<Rightarrow>
       let err = (case write (Some (an_write A)) of Some err \<Rightarrow> Some err | None \<Rightarrow> an_flush A)
       in (True, errors_Join [err, streamDeadline (an_clear A)]))"

text \<open>
  \<open>startStream\<close>: the headers, the status of an error response when the stream could not start,
  and the returned flag.
\<close>

definition startStream :: "conn_answers \<Rightarrow> header \<Rightarrow> header \<times> int option \<times> bool" where
  "startStream A h =
    (let h = header_set ''X-Content-Type-Options'' ''nosniff''
           (header_set ''Cache-Control'' ''no-cache'' (header_set ''Content-Type'' ''text/event-stream'' h))
     in case stream_write A (\<lambda>w. None) of (started, err) \<Rightarrow>
          (h, if err \<noteq> None \<and> \<not> started then Some 500 else None, err = None))"

section \<open>The loop\<close>

datatype select_case = RequestDone | EventCase "event option" | HeartbeatCase

text \<open>The bytes of a block the connection takes.\<close>

definition taken_bytes :: "conn_answers \<Rightarrow> goerr option \<Rightarrow> string \<Rightarrow> string" where
  "taken_bytes A invalid s = (if streamDeadline (an_set A) = None \<and> invalid = None
     then take (fst (an_write A s)) s else [])"

fun serve_loop :: "(select_case \<times> conn_answers) list \<Rightarrow> string \<Rightarrow> string" where
  "serve_loop [] out = out"
| "serve_loop ((RequestDone, A) # rest) out = out"
| "serve_loop ((EventCase None, A) # rest) out = out"
| "serve_loop ((EventCase (Some e), A) # rest) out =
    (let out = out @ taken_bytes A (validateEvent e) (event_text e)
     in if snd (stream_write A (\<lambda>w. WriteEvent w e)) \<noteq> None then out else serve_loop rest out)"
| "serve_loop ((HeartbeatCase, A) # rest) out =
    (let out = out @ taken_bytes A None (comment_text ''heartbeat'')
     in if snd (stream_write A (\<lambda>w. WriteComment w ''heartbeat'')) \<noteq> None then out else serve_loop rest out)"

definition serveHTTP :: "conn_answers \<Rightarrow> (select_case \<times> conn_answers) list \<Rightarrow> header \<Rightarrow> string" where
  "serveHTTP A cases h = (if snd (snd (startStream A h)) then serve_loop cases [] else [])"

section \<open>Broken streams\<close>

text \<open>A prefix of a stream gives the reader a prefix of its lines.\<close>

lemma text_lines_split: "CHR 0x0D \<notin> set s \<Longrightarrow> text_lines s = split_byte (CHR 0x0A) s"
  by (simp add: text_lines_def replace_crlf_id replace_cr_id)

lemma prefix_lines:
  "\<forall>l \<in> set ls. CHR 0x0A \<notin> set l \<and> CHR 0x0D \<notin> set l \<Longrightarrow> prefix s (ended ls) \<Longrightarrow>
   \<exists>k. butlast (text_lines s) = take k ls"
proof (induction ls arbitrary: s)
  case Nil
  then show ?case by (simp add: text_lines_split)
next
  case (Cons l ls)
  from Cons.prems(2) consider "prefix s l" | us where "s = l @ CHR 0x0A # us" "prefix us (ended ls)"
    by (auto simp: prefix_append prefix_Cons)
  then show ?case
  proof cases
    case 1
    then have "set s \<subseteq> set l" by (rule set_mono_prefix)
    with Cons.prems(1) have "CHR 0x0A \<notin> set s" "CHR 0x0D \<notin> set s" by auto
    then show ?thesis by (intro exI [of _ 0]) (simp add: text_lines_split split_byte_absent)
  next
    case 2
    have "CHR 0x0D \<notin> set (ended ls)" using Cons.prems(1) by auto
    then have cr: "CHR 0x0D \<notin> set us" using set_mono_prefix [OF 2(2)] by blast
    obtain k where "butlast (text_lines us) = take k ls" using Cons.IH [of us] Cons.prems(1) 2(2) by auto
    with Cons.prems(1) 2(1) cr show ?thesis
      by (intro exI [of _ "Suc k"]) (simp add: text_lines_split split_byte_append)
  qed
qed

lemma read_field_events: "rd_events (read_field f v st) = rd_events st"
  by (simp add: read_field_def split: option.split)

lemma read_no_dispatch: "\<forall>l \<in> set ls. l \<noteq> [] \<Longrightarrow> rd_events (foldl read_line st ls) = rd_events st"
proof (induction ls arbitrary: st)
  case (Cons l ls)
  have "rd_events (read_line st l) = rd_events st"
    using Cons.prems by (simp add: read_line_def read_field_events split: prod.split)
  with Cons show ?case by simp
qed simp

lemma block_lines_snoc: "\<exists>ls. block_lines b = ls @ [[]] \<and> (\<forall>l \<in> set ls. l \<noteq> [])"
  by (cases b) (auto simp: block_lines_def event_lines_def line_start_def)

lemma partial_block:
  "j < length (block_lines b) \<Longrightarrow> rd_events (foldl read_line st (take j (block_lines b))) = rd_events st"
  using block_lines_snoc [of b] by (elim exE) (auto intro!: read_no_dispatch dest: in_set_takeD)

lemma read_partial:
  "\<forall>b \<in> set bs. valid_block b \<Longrightarrow> rd_data st = [] \<Longrightarrow> rd_type st = [] \<Longrightarrow>
   \<exists>m. rd_events (foldl read_line st (take k (concat (map block_lines bs)))) =
     rd_events (foldl deliver st (take m bs))"
proof (induction bs arbitrary: st k)
  case (Cons b bs)
  show ?case
  proof (cases "k < length (block_lines b)")
    case True
    with partial_block [of k b st] show ?thesis by (intro exI [of _ 0]) simp
  next
    case False
    then have "take k (concat (map block_lines (b # bs))) =
        block_lines b @ take (k - length (block_lines b)) (concat (map block_lines bs))" by simp
    moreover obtain m where "rd_events (foldl read_line (deliver st b)
        (take (k - length (block_lines b)) (concat (map block_lines bs)))) =
        rd_events (foldl deliver (deliver st b) (take m bs))"
      using Cons.IH [of "deliver st b" "k - length (block_lines b)"] Cons.prems by auto
    ultimately show ?thesis
      using read_block [of b st] Cons.prems by (intro exI [of _ "Suc m"]) simp
  qed
qed simp

lemma deliver_prefix: "prefix (rd_events st) (rd_events (foldl deliver st bs))"
proof (induction bs arbitrary: st)
  case (Cons b bs)
  have "prefix (rd_events st) (rd_events (deliver st b))" by (cases b) (simp_all add: deliver_def Let_def)
  with Cons [of "deliver st b"] show ?case by (auto intro: prefix_order.trans)
qed simp

section \<open>What the client sees\<close>

text \<open>The blocks of the cases the loop takes.\<close>

definition block_of_case :: "select_case \<Rightarrow> block list" where
  "block_of_case c = (case c of EventCase (Some e) \<Rightarrow> [EventBlock e] | HeartbeatCase \<Rightarrow> [CommentBlock ''heartbeat''] | _ \<Rightarrow> [])"

definition valid_case :: "select_case \<Rightarrow> bool" where
  "valid_case c = (case c of EventCase (Some e) \<Rightarrow> validateEvent e = None | _ \<Rightarrow> True)"

lemma stream_write_ok:
  "snd (stream_write A (\<lambda>w. WriteEvent w e)) = None \<Longrightarrow> taken_bytes A (validateEvent e) (event_text e) = event_text e"
  "snd (stream_write A (\<lambda>w. WriteComment w c)) = None \<Longrightarrow> taken_bytes A None (comment_text c) = comment_text c"
  by (auto simp: stream_write_def taken_bytes_def errors_Join_None WriteEvent_def WriteComment_def writeAll_def Let_def
      split: option.splits prod.splits if_splits)

lemma serve_loop_prefix:
  "\<exists>s. serve_loop cases out = out @ s \<and> prefix s (concat (map block_text (concat (map (block_of_case \<circ> fst) cases))))"
proof (induction cases out rule: serve_loop.induct)
  case (4 e A rest out)
  let ?t = "taken_bytes A (validateEvent e) (event_text e)"
  have "prefix ?t (event_text e)" by (simp add: taken_bytes_def take_is_prefix)
  with 4 stream_write_ok(1) [of A e] show ?case
    by (cases "snd (stream_write A (\<lambda>w. WriteEvent w e)) = None")
      (auto simp: block_of_case_def block_text_def Let_def intro: prefix_order.trans)
next
  case (5 A rest out)
  let ?t = "taken_bytes A None (comment_text ''heartbeat'')"
  have "prefix ?t (comment_text ''heartbeat'')" by (simp add: taken_bytes_def take_is_prefix)
  with 5 stream_write_ok(2) [of A "''heartbeat''"] show ?case
    by (cases "snd (stream_write A (\<lambda>w. WriteComment w ''heartbeat'')) = None")
      (auto simp: block_of_case_def block_text_def Let_def intro: prefix_order.trans)
qed simp_all

section \<open>Properties\<close>

text \<open>Wherever a stream breaks, a deadline, a failed, partial or refused write, the events the client
  has dispatched are the first ones of those the handler took from its subscription, in order
  and unchanged; a block cut in two is never dispatched.\<close>

theorem serve_client_prefix:
  assumes "\<forall>c \<in> fst ` set cases. valid_case c"
  shows "prefix (rd_events (read_stream fresh_reader (serveHTTP A cases h)))
    (rd_events (foldl deliver fresh_reader (concat (map (block_of_case \<circ> fst) cases))))"
proof -
  let ?bs = "concat (map (block_of_case \<circ> fst) cases)"
  have "valid_block b" if "valid_case c" "b \<in> set (block_of_case c)" for b c
    using that by (cases c) (auto simp: block_of_case_def valid_case_def valid_block_def split: option.splits)
  with assms have valid: "\<forall>b \<in> set ?bs. valid_block b" by auto
  have "prefix (serveHTTP A cases h) (concat (map block_text ?bs))"
    using serve_loop_prefix [of cases "[]"] by (auto simp: serveHTTP_def)
  then have "prefix (serveHTTP A cases h) (ended (concat (map block_lines ?bs)))"
    by (simp only: blocks_text)
  moreover have "\<forall>l \<in> set (concat (map block_lines ?bs)). CHR 0x0A \<notin> set l \<and> CHR 0x0D \<notin> set l"
    using valid block_lines_clean by (auto simp del: map_concat)
  ultimately obtain k where "butlast (text_lines (serveHTTP A cases h)) = take k (concat (map block_lines ?bs))"
    using prefix_lines by blast
  moreover obtain m where "rd_events (foldl read_line fresh_reader (take k (concat (map block_lines ?bs)))) =
      rd_events (foldl deliver fresh_reader (take m ?bs))"
    using read_partial [OF valid, of fresh_reader k] by (auto simp: fresh_reader_def)
  moreover have "foldl deliver fresh_reader ?bs = foldl deliver (foldl deliver fresh_reader (take m ?bs)) (drop m ?bs)"
    by (simp flip: foldl_append)
  ultimately show ?thesis using deliver_prefix by (simp add: read_stream_def)
qed

definition demo_answers :: "nat \<Rightarrow> conn_answers" where
  "demo_answers n = \<lparr>an_set = None, an_write = (\<lambda>s. (min n (length s), None)), an_flush = None, an_clear = None\<rparr>"

theorem serve_client_prefix_witness:
  "prefix (rd_events (read_stream fresh_reader (serveHTTP (demo_answers 9)
     [(EventCase (Some demo_event), demo_answers 100), (EventCase (Some demo_event), demo_answers 9)] empty_header)))
   [(''tick'', ''x'', []), (''tick'', ''x'', [])]"
  using serve_client_prefix [of "[(EventCase (Some demo_event), demo_answers 100), (EventCase (Some demo_event), demo_answers 9)]"
    "demo_answers 9" empty_header]
  by (simp add: block_of_case_def valid_case_def demo_event_def validateEvent_def deliver_def fresh_reader_def
      text_lines_def replace_cr_def)

end
