(* ===== verification/ClientIp.thy ===== *)
theory ClientIp
  imports AsyncHttp "HOL-Library.Word"
begin

text \<open>
  The client address of a request, \<open>client_ip.go\<close>, and the default key of the rate limiter that
  rests on it. An address is a 32-bit or a 128-bit word with a zone. The parsers and printers of
  \<open>net/netip\<close> and \<open>net\<close> are the fields of \<open>addr_lib\<close>.
\<close>

section \<open>Addresses\<close>

datatype ip_addr = IPv4 "32 word" | IPv6 "128 word" string

text \<open>\<open>Addr.Unmap\<close> turns \<open>::ffff:a.b.c.d\<close> into the IPv4 address.\<close>

definition Unmap :: "ip_addr \<Rightarrow> ip_addr" where
  "Unmap a = (case a of IPv4 w \<Rightarrow> IPv4 w
     | IPv6 w zone \<Rightarrow> if drop_bit 32 w = 0xFFFF then IPv4 (ucast w) else IPv6 w zone)"

record ip_prefix =
  pf_addr :: ip_addr
  pf_bits :: nat

text \<open>\<open>Prefix.Contains\<close>: never a zoned address, and only one of the same family.\<close>

definition prefix_contains :: "ip_prefix \<Rightarrow> ip_addr \<Rightarrow> bool" where
  "prefix_contains p a = (case (pf_addr p, a) of
     (IPv4 x, IPv4 y) \<Rightarrow> pf_bits p \<le> 32 \<and> drop_bit (32 - pf_bits p) x = drop_bit (32 - pf_bits p) y
   | (IPv6 x z, IPv6 y zone) \<Rightarrow> zone = [] \<and> pf_bits p \<le> 128 \<and>
       drop_bit (128 - pf_bits p) x = drop_bit (128 - pf_bits p) y
   | _ \<Rightarrow> False)"

record addr_lib =
  parseAddr :: "string \<Rightarrow> ip_addr option"
  parseAddrPort :: "string \<Rightarrow> ip_addr option"
  splitHostPort :: "string \<Rightarrow> string option"
  addrString :: "ip_addr \<Rightarrow> string"
  prefixString :: "ip_prefix \<Rightarrow> string"

section \<open>Parsing\<close>

definition parseRequestAddress :: "addr_lib \<Rightarrow> string \<Rightarrow> ip_addr result" where
  "parseRequestAddress P v =
    (let v = trim_space v
     in case parseAddrPort P v of
          Some a \<Rightarrow> Inr (Unmap a)
        | None \<Rightarrow>
            let v = (case splitHostPort P v of Some host \<Rightarrow> host | None \<Rightarrow> v);
                v = trim_chars ''[]'' v
            in case parseAddr P v of
                 None \<Rightarrow> Inl (Opaque (''invalid address '' @ v))
               | Some a \<Rightarrow> Inr (Unmap a))"

fun address_parts :: "addr_lib \<Rightarrow> string \<Rightarrow> string list \<Rightarrow> ip_addr list result" where
  "address_parts P name [] = Inr []"
| "address_parts P name (part # parts) = (case parseRequestAddress P (trim_space part) of
     Inl err \<Rightarrow> Inl (Wrapf (name @ '': '') err)
   | Inr a \<Rightarrow> (case address_parts P name parts of Inl err \<Rightarrow> Inl err | Inr as \<Rightarrow> Inr (a # as)))"

definition parseAddressList :: "addr_lib \<Rightarrow> string \<Rightarrow> string \<Rightarrow> ip_addr list result" where
  "parseAddressList P v name = address_parts P name (split_byte (CHR '','') v)"

text \<open>The first \<open>for\<close> parameter of a \<open>Forwarded\<close> element; \<open>None\<close> when it has none.\<close>

fun forwarded_for :: "addr_lib \<Rightarrow> string list \<Rightarrow> ip_addr result option" where
  "forwarded_for P [] = None"
| "forwarded_for P (parameter # rest) = (case cut (trim_space parameter) (CHR ''='') of
     (name, raw, ok) \<Rightarrow>
       if \<not> ok \<or> \<not> equal_fold name ''for'' then forwarded_for P rest
       else
         let raw = trim_space raw
         in case (if has_prefix raw [CHR 0x22] then unquote raw else Some raw) of
              None \<Rightarrow> Some (Inl (Opaque ''forwarded: invalid quoted for value''))
            | Some raw \<Rightarrow> Some (case parseRequestAddress P raw of
                  Inl err \<Rightarrow> Inl (Wrapf (''forwarded for='' @ raw @ '': '') err)
                | Inr a \<Rightarrow> Inr a))"

fun forwarded_elements :: "addr_lib \<Rightarrow> string list \<Rightarrow> ip_addr list result" where
  "forwarded_elements P [] = Inr []"
| "forwarded_elements P (element # rest) = (case forwarded_for P (split_byte (CHR '';'') element) of
     None \<Rightarrow> Inl (Opaque ''forwarded: element has no valid for parameter'')
   | Some (Inl err) \<Rightarrow> Inl err
   | Some (Inr a) \<Rightarrow> (case forwarded_elements P rest of Inl err \<Rightarrow> Inl err | Inr as \<Rightarrow> Inr (a # as)))"

definition parseForwarded :: "addr_lib \<Rightarrow> string \<Rightarrow> ip_addr list result" where
  "parseForwarded P v = forwarded_elements P (split_byte (CHR '','') v)"

definition forwardedChain :: "addr_lib \<Rightarrow> header \<Rightarrow> ip_addr list result" where
  "forwardedChain P h =
    (let forwarded = join_with '','' (header_values h ''Forwarded'');
         for_list = join_with '','' (header_values h ''X-Forwarded-For'');
         real = trim_space (header_get h ''X-Real-IP'')
     in if forwarded \<noteq> [] then parseForwarded P forwarded
        else if for_list \<noteq> [] then parseAddressList P for_list ''X-Forwarded-For''
        else if real \<noteq> [] then
          (case parseRequestAddress P real of Inl err \<Rightarrow> Inl (Wrapf ''X-Real-IP: '' err) | Inr a \<Rightarrow> Inr [a])
        else Inr [])"

section \<open>The client\<close>

definition isTrustedProxy :: "ip_prefix list \<Rightarrow> ip_addr \<Rightarrow> bool" where
  "isTrustedProxy ps a = (\<exists>p \<in> set ps. prefix_contains p (Unmap a))"

text \<open>The loop from the end of the chain, which is given reversed.\<close>

fun walk_chain :: "(ip_addr \<Rightarrow> bool) \<Rightarrow> ip_addr \<Rightarrow> ip_addr list \<Rightarrow> ip_addr" where
  "walk_chain trusted client [] = client"
| "walk_chain trusted client (a # as) = (if trusted client then walk_chain trusted a as else client)"

definition ClientIP :: "addr_lib \<Rightarrow> ip_prefix list \<Rightarrow> string \<Rightarrow> header \<Rightarrow> ip_addr result" where
  "ClientIP P ps remote h = (case parseRequestAddress P remote of
     Inl err \<Rightarrow> Inl (Wrapf ''client IP remote address: '' err)
   | Inr peer \<Rightarrow>
       if \<not> isTrustedProxy ps peer then Inr peer
       else case forwardedChain P h of Inl err \<Rightarrow> Inl err
         | Inr chain \<Rightarrow> Inr (walk_chain (isTrustedProxy ps) peer (rev chain)))"

text \<open>The default key of \<open>RateLimit\<close>: an IPv6 address counts by its /64 prefix, without the zone.\<close>

definition client_rate_key :: "addr_lib \<Rightarrow> ip_addr result \<Rightarrow> string result" where
  "client_rate_key P client = (case client of
     Inl err \<Rightarrow> Inl (HTTPErr (Some (BadRequest ''invalid_client_address'' ''The client address is invalid'')))
   | Inr a \<Rightarrow> (case Unmap a of
       IPv6 w zone \<Rightarrow> Inr (prefixString P \<lparr>pf_addr = IPv6 (push_bit 64 (drop_bit 64 w)) [], pf_bits = 64\<rparr>)
     | IPv4 w \<Rightarrow> Inr (addrString P (IPv4 w))))"

section \<open>Lemmas\<close>

lemma address_parts_append:
  "address_parts P name (xs @ ys) = (case address_parts P name xs of Inl err \<Rightarrow> Inl err
     | Inr as \<Rightarrow> (case address_parts P name ys of Inl err \<Rightarrow> Inl err | Inr bs \<Rightarrow> Inr (as @ bs)))"
  by (induction xs) (simp_all split: sum.split)

lemma walk_trusted: "\<forall>a \<in> set as. trusted a \<Longrightarrow> trusted c \<Longrightarrow> walk_chain trusted c (as @ b # bs) = walk_chain trusted b bs"
  by (induction as arbitrary: c) simp_all

lemma walk_untrusted [simp]: "\<not> trusted c \<Longrightarrow> walk_chain trusted c as = c"
  by (cases as) simp_all

text \<open>Where the walk ends: at an untrusted address with only trusted ones before it, or at the end.\<close>

lemma walk_chain_spec:
  "\<exists>pre post. c # as = pre @ walk_chain trusted c as # post \<and> (\<forall>a \<in> set pre. trusted a) \<and>
     (post = [] \<or> \<not> trusted (walk_chain trusted c as))"
proof (induction as arbitrary: c)
  case (Cons a as)
  show ?case
  proof (cases "trusted c")
    case True
    obtain pre post where "a # as = pre @ walk_chain trusted a as # post" "\<forall>a \<in> set pre. trusted a"
        "post = [] \<or> \<not> trusted (walk_chain trusted a as)"
      using Cons [of a] by blast
    moreover have "walk_chain trusted c (a # as) = walk_chain trusted a as" using True by simp
    ultimately show ?thesis using True by (intro exI [of _ "c # pre"] exI [of _ post]) (simp only: append_Cons list.set ball_simps simp_thms)
  qed (intro exI [of _ "[]"] exI [of _ "a # as"], simp)
qed (intro exI [of _ "[]"], simp)

lemma Unmap_idem [simp]: "Unmap (Unmap a) = Unmap a"
  by (simp add: Unmap_def split: ip_addr.split)

section \<open>Properties\<close>

text \<open>The client is the peer unless the peer is a trusted proxy. Otherwise it is an address of the
  peer and the forwarded chain such that every hop between it and the application is a trusted
  proxy, and it is untrusted itself or the start of the chain.\<close>

theorem client_ip_spec:
  assumes "ClientIP P ps remote h = Inr client" "parseRequestAddress P remote = Inr peer"
  shows "(\<not> isTrustedProxy ps peer \<longrightarrow> client = peer) \<and>
    (isTrustedProxy ps peer \<longrightarrow> (\<exists>chain before after. forwardedChain P h = Inr chain \<and>
       chain @ [peer] = before @ client # after \<and> (\<forall>a \<in> set after. isTrustedProxy ps a) \<and>
       (before = [] \<or> \<not> isTrustedProxy ps client)))"
proof (cases "isTrustedProxy ps peer")
  case True
  with assms obtain chain where chain: "forwardedChain P h = Inr chain"
      "client = walk_chain (isTrustedProxy ps) peer (rev chain)"
    by (auto simp: ClientIP_def split: sum.splits)
  obtain pre post where w: "peer # rev chain = pre @ client # post" "\<forall>a \<in> set pre. isTrustedProxy ps a"
      "post = [] \<or> \<not> isTrustedProxy ps client"
    using walk_chain_spec [of peer "rev chain" "isTrustedProxy ps"] chain(2) by blast
  from arg_cong [OF w(1), of rev] have "chain @ [peer] = rev post @ client # rev pre" by simp
  moreover have "\<forall>a \<in> set (rev pre). isTrustedProxy ps a" "rev post = [] \<or> \<not> isTrustedProxy ps client"
    using w by simp_all
  ultimately show ?thesis using True chain(1) by blast
next
  case False
  with assms show ?thesis by (simp add: ClientIP_def)
qed

definition demo_addr_lib :: addr_lib where
  "demo_addr_lib = \<lparr>parseAddr = (\<lambda>s. case s of [c] \<Rightarrow> Some (IPv4 (of_char c)) | _ \<Rightarrow> None),
     parseAddrPort = (\<lambda>s. None), splitHostPort = (\<lambda>s. None), addrString = (\<lambda>a. []), prefixString = (\<lambda>p. [])\<rparr>"

text \<open>\<open>1\<close> is the trusted proxy.\<close>

definition demo_proxies :: "ip_prefix list" where
  "demo_proxies = [\<lparr>pf_addr = IPv4 49, pf_bits = 32\<rparr>]"

definition demo_forwarded :: header where
  "demo_forwarded = header_set ''X-Forwarded-For'' ''6,2,1'' empty_header"

lemma demo_address:
  "parseRequestAddress demo_addr_lib ''1'' = Inr (IPv4 49)" "parseRequestAddress demo_addr_lib ''2'' = Inr (IPv4 50)"
  "parseRequestAddress demo_addr_lib ''6'' = Inr (IPv4 54)"
  by (simp_all add: parseRequestAddress_def demo_addr_lib_def Unmap_def trim_chars_def visible_def)

lemma demo_trusted [simp]: "isTrustedProxy demo_proxies (IPv4 49)" "\<not> isTrustedProxy demo_proxies (IPv4 50)"
  by (simp_all add: isTrustedProxy_def demo_proxies_def prefix_contains_def Unmap_def)

lemma demo_chain: "forwardedChain demo_addr_lib demo_forwarded = Inr [IPv4 54, IPv4 50, IPv4 49]"
  by (simp add: forwardedChain_def demo_forwarded_def header_values_def header_set_def header_get_def empty_header_def
      canonical_key_def is_token_byte_def is_letter_def is_digit_def upper_char_def lower_char_def
      parseAddressList_def demo_address visible_def)

lemma demo_client: "ClientIP demo_addr_lib demo_proxies ''1'' demo_forwarded = Inr (IPv4 50)"
  by (simp add: ClientIP_def demo_address demo_chain)

theorem client_ip_spec_witness:
  "\<exists>before after. [IPv4 54, IPv4 50, IPv4 49] @ [IPv4 49] = before @ IPv4 50 # after \<and>
     (\<forall>a \<in> set after. isTrustedProxy demo_proxies a)"
  using client_ip_spec [OF demo_client demo_address(1)] demo_chain demo_trusted(1) by auto



text \<open>Two addresses of one /64 network share the key, whatever their zones.\<close>

lemma client_rate_key_network:
  assumes "Unmap a = IPv6 w z" "Unmap b = IPv6 w' z'" "drop_bit 64 w = drop_bit 64 w'"
  shows "client_rate_key P (Inr a) = client_rate_key P (Inr b)"
  using assms by (simp add: client_rate_key_def)

end
