(* ===== verification/Response.thy ===== *)
theory Response
  imports Errors
begin

text \<open>
  The tracked response writer of \<open>response.go\<close>. The state carries the live header map of the
  underlying writer and the list of calls that reached it (its \<open>wire\<close>). A call gives the new state
  and how it ended, since a before-commit hook, or \<open>net/http\<close> on a status outside 100 to 999, may
  panic. A hook is a function on the header map.
\<close>

section \<open>State\<close>

datatype wire_event = Informational int | Head int header | Body string

type_synonym commit_hook = "header \<Rightarrow> header outcome"

record response =
  rs_header :: header
  rs_status :: int
  rs_bytes :: int
  rs_wroteHeader :: bool
  rs_hijacked :: bool
  rs_committing :: bool
  rs_hooks :: "commit_hook list"
  rs_wire :: "wire_event list"

definition newResponse :: "header \<Rightarrow> response" where
  "newResponse h = \<lparr>rs_header = h, rs_status = 0, rs_bytes = 0, rs_wroteHeader = False, rs_hijacked = False,
     rs_committing = False, rs_hooks = [], rs_wire = []\<rparr>"

section \<open>Commit\<close>

fun run_hooks :: "commit_hook list \<Rightarrow> header \<Rightarrow> header \<times> string option" where
  "run_hooks [] h = (h, None)"
| "run_hooks (hook # hooks) h = (case hook h of Panic msg \<Rightarrow> (h, Some msg) | Return h' \<Rightarrow> run_hooks hooks h')"

text \<open>The deferred function resets the state also when a hook panics.\<close>

definition runBeforeCommitHooks :: "response \<Rightarrow> response \<times> unit outcome" where
  "runBeforeCommitHooks r = (case run_hooks (rs_hooks r) (rs_header r) of (h, p) \<Rightarrow>
     (r\<lparr>rs_header := h, rs_committing := False, rs_hooks := []\<rparr>,
      case p of None \<Rightarrow> Return () | Some msg \<Rightarrow> Panic msg))"

definition underlying_WriteHeader :: "int \<Rightarrow> response \<Rightarrow> response \<times> unit outcome" where
  "underlying_WriteHeader status r =
    (if status < 100 \<or> status > 999 then (r, Panic ''invalid WriteHeader code'')
     else (r\<lparr>rs_wire := rs_wire r @ [if status < 200 \<and> status \<noteq> 101 then Informational status
       else Head status (rs_header r)]\<rparr>, Return ()))"

definition WriteHeader :: "int \<Rightarrow> response \<Rightarrow> response \<times> unit outcome" where
  "WriteHeader status r =
    (if rs_wroteHeader r \<or> rs_committing r then (r, Return ())
     else if status \<ge> 100 \<and> status < 200 \<and> status \<noteq> 101 then underlying_WriteHeader status r
     else case runBeforeCommitHooks r of
         (r, Panic msg) \<Rightarrow> (r, Panic msg)
       | (r, Return u) \<Rightarrow> underlying_WriteHeader status (r\<lparr>rs_status := status, rs_wroteHeader := True\<rparr>))"

definition beforeCommitHook :: "commit_hook \<Rightarrow> response \<Rightarrow> response \<times> bool" where
  "beforeCommitHook hook r =
    (if rs_wroteHeader r \<or> rs_committing r then (r, False)
     else (r\<lparr>rs_hooks := rs_hooks r @ [hook]\<rparr>, True))"

section \<open>Body\<close>

text \<open>\<open>Write\<close>, \<open>WriteString\<close> and \<open>ReadFrom\<close>: \<open>uw\<close> answers with the bytes it took.\<close>

definition ensure_header :: "response \<Rightarrow> response \<times> unit outcome" where
  "ensure_header r = (if \<not> rs_wroteHeader r then WriteHeader 200 r else (r, Return ()))"

definition response_Write ::
  "(string \<Rightarrow> nat \<times> goerr option) \<Rightarrow> string \<Rightarrow> response \<Rightarrow> response \<times> (nat \<times> goerr option) outcome" where
  "response_Write uw d r = (case ensure_header r of
     (r, Panic msg) \<Rightarrow> (r, Panic msg)
   | (r, Return u) \<Rightarrow> (case uw d of (written, err) \<Rightarrow>
       (r\<lparr>rs_bytes := rs_bytes r + int written, rs_wire := rs_wire r @ [Body (take written d)]\<rparr>,
        Return (written, err))))"

definition FlushError :: "goerr option \<Rightarrow> response \<Rightarrow> response \<times> goerr option outcome" where
  "FlushError answer r = (case ensure_header r of
     (r, Panic msg) \<Rightarrow> (r, Panic msg)
   | (r, Return u) \<Rightarrow> (r, Return answer))"

definition Hijack :: "goerr option \<Rightarrow> response \<Rightarrow> response \<times> goerr option" where
  "Hijack answer r = (if answer = None then r\<lparr>rs_hijacked := True\<rparr> else r, answer)"

definition Status :: "response \<Rightarrow> int" where
  "Status r = (if rs_status r = 0 then 200 else rs_status r)"

definition Committed :: "response \<Rightarrow> bool" where
  "Committed r = rs_wroteHeader r"

section \<open>Capabilities\<close>

text \<open>
  What one writer of the chain of \<open>Unwrap\<close> implements; the chain starts with the underlying writer.
\<close>

record writer_type =
  is_Flusher :: bool
  is_FlushError :: bool
  is_Hijacker :: bool
  is_ReaderFrom :: bool
  is_Pusher :: bool

datatype capability = FlushCap | HijackCap | ReadFromCap | PushCap

text \<open>The loop keeps the first hijacker and pusher, given here by their position.\<close>

fun capability_loop ::
  "nat \<Rightarrow> writer_type list \<Rightarrow> bool \<Rightarrow> nat option \<Rightarrow> nat option \<Rightarrow> bool \<times> nat option \<times> nat option" where
  "capability_loop n [] fl hi pu = (fl, hi, pu)"
| "capability_loop n (w # ws) fl hi pu = capability_loop (Suc n) ws
     (fl \<or> is_Flusher w \<or> is_FlushError w)
     (if hi = None then (if is_Hijacker w then Some n else None) else hi)
     (if pu = None then (if is_Pusher w then Some n else None) else pu)"

definition capability_mask :: "writer_type list \<Rightarrow> nat" where
  "capability_mask ws = (case ws of [] \<Rightarrow> 0
     | w # _ \<Rightarrow>
         case capability_loop 0 ws (is_Flusher w) (if is_Hijacker w then Some 0 else None)
           (if is_Pusher w then Some 0 else None) of
           (fl, hi, pu) \<Rightarrow> (if fl then 1 else 0) + (if hi \<noteq> None then 2 else 0) +
             (if is_ReaderFrom w then 4 else 0) + (if pu \<noteq> None then 8 else 0))"

text \<open>The struct of each case of the \<open>switch\<close>, by the capabilities it embeds.\<close>

definition capability_struct :: "nat \<Rightarrow> capability list" where
  "capability_struct m =
    (if m = 1 then [FlushCap]
     else if m = 2 then [HijackCap]
     else if m = 3 then [FlushCap, HijackCap]
     else if m = 4 then [ReadFromCap]
     else if m = 5 then [FlushCap, ReadFromCap]
     else if m = 6 then [HijackCap, ReadFromCap]
     else if m = 7 then [FlushCap, HijackCap, ReadFromCap]
     else if m = 8 then [PushCap]
     else if m = 9 then [FlushCap, PushCap]
     else if m = 10 then [HijackCap, PushCap]
     else if m = 11 then [FlushCap, HijackCap, PushCap]
     else if m = 12 then [ReadFromCap, PushCap]
     else if m = 13 then [FlushCap, ReadFromCap, PushCap]
     else if m = 14 then [HijackCap, ReadFromCap, PushCap]
     else if m = 15 then [FlushCap, HijackCap, ReadFromCap, PushCap]
     else [])"

definition preserveResponseWriterCapabilities :: "writer_type list \<Rightarrow> capability list" where
  "preserveResponseWriterCapabilities ws = capability_struct (capability_mask ws)"

section \<open>Sequences of calls\<close>

datatype response_op =
    EditHeader "header \<Rightarrow> header"
  | OpWriteHeader int
  | OpWrite "string \<Rightarrow> nat \<times> goerr option" string
  | OpFlush "goerr option"
  | OpHijack "goerr option"
  | OpBeforeCommit commit_hook

definition drop_result :: "response \<times> 'a outcome \<Rightarrow> response \<times> unit outcome" where
  "drop_result x = (fst x, case snd x of Return _ \<Rightarrow> Return () | Panic msg \<Rightarrow> Panic msg)"

fun exec_op :: "response_op \<Rightarrow> response \<Rightarrow> response \<times> unit outcome" where
  "exec_op (EditHeader f) r = (r\<lparr>rs_header := f (rs_header r)\<rparr>, Return ())"
| "exec_op (OpWriteHeader status) r = WriteHeader status r"
| "exec_op (OpWrite uw d) r = drop_result (response_Write uw d r)"
| "exec_op (OpFlush answer) r = drop_result (FlushError answer r)"
| "exec_op (OpHijack answer) r = (fst (Hijack answer r), Return ())"
| "exec_op (OpBeforeCommit hook) r = (fst (beforeCommitHook hook r), Return ())"

text \<open>Statuses that \<open>net/http\<close> accepts.\<close>

definition valid_op :: "response_op \<Rightarrow> bool" where
  "valid_op x = (case x of OpWriteHeader status \<Rightarrow> 100 \<le> status \<and> status \<le> 999 | _ \<Rightarrow> True)"

text \<open>A panic of a hook may be recovered, after which the calls go on.\<close>

definition run_ops :: "response_op list \<Rightarrow> response \<Rightarrow> response" where
  "run_ops ops r = fold (\<lambda>x r. fst (exec_op x r)) ops r"

section \<open>Invariant\<close>

text \<open>
  The wire: informational responses, then, once the header is written, one head with the recorded
  status and the parts of the body.
\<close>

definition wire_ok :: "bool \<Rightarrow> int \<Rightarrow> wire_event list \<Rightarrow> bool" where
  "wire_ok committed status w \<longleftrightarrow> (\<exists>infos. if committed
     then (\<exists>h bodies. w = map Informational infos @ Head status h # map Body bodies)
     else w = map Informational infos)"

definition resp_inv :: "response \<Rightarrow> bool" where
  "resp_inv r \<longleftrightarrow> \<not> rs_committing r \<and> (rs_wroteHeader r \<longleftrightarrow> rs_status r \<noteq> 0) \<and>
     (\<not> rs_wroteHeader r \<longrightarrow> rs_bytes r = 0) \<and> wire_ok (rs_wroteHeader r) (rs_status r) (rs_wire r)"

lemma wire_ok_info: "wire_ok False s w \<Longrightarrow> wire_ok False s' (w @ [Informational i])"
  unfolding wire_ok_def by (metis (no_types, lifting) list.simps(8,9) map_append)

lemma wire_ok_head:
  assumes "wire_ok False s w"
  shows "wire_ok True st (w @ [Head st h])"
proof -
  obtain infos where "w = map Informational infos" using assms by (auto simp: wire_ok_def)
  then have "w @ [Head st h] = map Informational infos @ Head st h # map Body []" by simp
  then show ?thesis unfolding wire_ok_def by (simp only: if_True) blast
qed

lemma wire_ok_body:
  assumes "wire_ok True st w"
  shows "wire_ok True st (w @ [Body d])"
proof -
  obtain infos h bodies where "w = map Informational infos @ Head st h # map Body bodies"
    using assms by (auto simp: wire_ok_def)
  then have "w @ [Body d] = map Informational infos @ Head st h # map Body (bodies @ [d])" by simp
  then show ?thesis unfolding wire_ok_def by (simp only: if_True) blast
qed

lemmas wire_ok_intros = wire_ok_info wire_ok_head wire_ok_body

lemma run_ops_simps [simp]:
  "run_ops [] r = r" "run_ops (x # ops) r = run_ops ops (fst (exec_op x r))"
  by (simp_all add: run_ops_def)

lemma resp_inv_new: "resp_inv (newResponse h)"
  by (simp add: resp_inv_def newResponse_def wire_ok_def)

lemma WriteHeader_inv:
  assumes "resp_inv r" "100 \<le> status" "status \<le> 999"
  shows "resp_inv (fst (WriteHeader status r))"
proof (cases "rs_wroteHeader r")
  case True
  with assms show ?thesis by (simp add: WriteHeader_def)
next
  case False
  have w: "wire_ok False 0 (rs_wire r)" using assms(1) False by (auto simp: resp_inv_def)
  obtain h p where "run_hooks (rs_hooks r) (rs_header r) = (h, p)" by fastforce
  with False assms w show ?thesis
    by (cases p) (auto simp: WriteHeader_def underlying_WriteHeader_def runBeforeCommitHooks_def resp_inv_def
        intro: wire_ok_intros)
qed

lemma WriteHeader_commits:
  assumes "WriteHeader status r = (r', Return ())" "200 \<le> status \<or> status = 101" "\<not> rs_committing r"
  shows "rs_wroteHeader r'"
  using assms
  by (auto simp: WriteHeader_def runBeforeCommitHooks_def underlying_WriteHeader_def split: if_splits prod.splits outcome.splits option.splits)

lemma ensure_header_inv:
  "resp_inv r \<Longrightarrow> resp_inv (fst (ensure_header r))"
  "resp_inv r \<Longrightarrow> ensure_header r = (r', Return ()) \<Longrightarrow> rs_wroteHeader r'"
  using WriteHeader_inv [of r 200] WriteHeader_commits [of 200 r r']
  by (auto simp: ensure_header_def resp_inv_def split: if_splits)

lemma response_Write_inv:
  assumes "resp_inv r"
  shows "resp_inv (fst (response_Write uw d r))"
proof (cases "ensure_header r")
  case (Pair r' p)
  have inv: "resp_inv r'" using ensure_header_inv(1) [OF assms] Pair by simp
  show ?thesis
  proof (cases p)
    case (Return u)
    then have "rs_wroteHeader r'" using ensure_header_inv(2) [OF assms] Pair by simp
    with inv show ?thesis
      by (auto simp: response_Write_def Pair Return resp_inv_def intro: wire_ok_body split: prod.split)
  next
    case (Panic msg)
    with inv Pair show ?thesis by (simp add: response_Write_def)
  qed
qed

lemma FlushError_inv: "resp_inv r \<Longrightarrow> resp_inv (fst (FlushError answer r))"
  using ensure_header_inv(1) [of r] by (cases "ensure_header r") (simp add: FlushError_def split: outcome.split)

lemma resp_inv_frame [simp]:
  "resp_inv (r\<lparr>rs_header := h\<rparr>) = resp_inv r" "resp_inv (r\<lparr>rs_hijacked := b\<rparr>) = resp_inv r"
  "resp_inv (r\<lparr>rs_hooks := hs\<rparr>) = resp_inv r"
  by (simp_all add: resp_inv_def)

lemma exec_op_inv: "resp_inv r \<Longrightarrow> valid_op x \<Longrightarrow> resp_inv (fst (exec_op x r))"
  by (cases x) (simp_all add: valid_op_def WriteHeader_inv response_Write_inv FlushError_inv drop_result_def
      Hijack_def beforeCommitHook_def)

lemma run_ops_inv: "resp_inv r \<Longrightarrow> \<forall>x \<in> set ops. valid_op x \<Longrightarrow> resp_inv (run_ops ops r)"
  by (induction ops arbitrary: r) (simp_all add: exec_op_inv)

text \<open>Once committed, nothing changes the status or the head.\<close>

lemma exec_op_committed:
  "rs_wroteHeader r \<Longrightarrow> rs_wroteHeader (fst (exec_op x r)) \<and> rs_status (fst (exec_op x r)) = rs_status r \<and>
     prefix (rs_wire r) (rs_wire (fst (exec_op x r)))"
  by (cases x) (auto simp: WriteHeader_def response_Write_def FlushError_def Hijack_def beforeCommitHook_def
      ensure_header_def drop_result_def split: prod.split)

lemma run_ops_committed:
  "rs_wroteHeader r \<Longrightarrow> rs_wroteHeader (run_ops ops r) \<and> rs_status (run_ops ops r) = rs_status r \<and>
     prefix (rs_wire r) (rs_wire (run_ops ops r))"
proof (induction ops arbitrary: r)
  case (Cons x ops)
  from exec_op_committed [OF Cons.prems, of x] Cons.IH [of "fst (exec_op x r)"] show ?case
    by (auto intro: prefix_order.trans)
qed simp

lemma run_ops_append: "run_ops (xs @ ys) r = run_ops ys (run_ops xs r)"
  by (simp add: run_ops_def)

lemma run_hooks_Return:
  "run_hooks (map (\<lambda>f h. Return (f h)) fs) h = (fold (\<lambda>f h. f h) fs h, None)"
  by (induction fs arbitrary: h) simp_all

section \<open>Properties\<close>



text \<open>Before-commit hooks run exactly once, in the order of registration, on the header that is sent;
  whatever is called afterwards, the head and the status stay, and a later hook is refused.\<close>

theorem commit_hooks_once:
  assumes "\<not> rs_wroteHeader r" "\<not> rs_committing r" "200 \<le> status" "status \<le> 999"
    and "rs_hooks r = map (\<lambda>f h. Return (f h)) fs"
    and "run_ops ops (fst (WriteHeader status r)) = r'"
  shows "prefix (rs_wire r @ [Head status (fold (\<lambda>f h. f h) fs (rs_header r))]) (rs_wire r') \<and>
    Status r' = status \<and> (\<forall>hook. beforeCommitHook hook r' = (r', False))"
proof -
  let ?r1 = "fst (WriteHeader status r)"
  have "rs_wroteHeader ?r1" "rs_status ?r1 = status"
    "rs_wire ?r1 = rs_wire r @ [Head status (fold (\<lambda>f h. f h) fs (rs_header r))]"
    using assms by (simp_all add: WriteHeader_def runBeforeCommitHooks_def run_hooks_Return underlying_WriteHeader_def)
  with run_ops_committed [of ?r1 ops] assms(3,6) show ?thesis
    by (simp add: Status_def beforeCommitHook_def)
qed

theorem commit_hooks_once_witness:
  "Status (run_ops [OpWriteHeader 500] (fst (WriteHeader 204 (newResponse empty_header)))) = 204"
  using commit_hooks_once [of "newResponse empty_header" 204 "[]" "[OpWriteHeader 500]", OF _ _ _ _ _ refl]
  by (simp add: newResponse_def)

lemma capability_loop_spec:
  "capability_loop n ws fl hi pu = (fl', hi', pu') \<Longrightarrow>
   fl' = (fl \<or> (\<exists>w \<in> set ws. is_Flusher w \<or> is_FlushError w)) \<and>
   (hi' \<noteq> None) = (hi \<noteq> None \<or> (\<exists>w \<in> set ws. is_Hijacker w)) \<and>
   (pu' \<noteq> None) = (pu \<noteq> None \<or> (\<exists>w \<in> set ws. is_Pusher w))"
proof (induction n ws fl hi pu rule: capability_loop.induct)
  case (2 n w ws fl hi pu)
  from 2(1) [OF 2(2) [unfolded capability_loop.simps]] show ?case by (cases hi; cases pu) auto
qed simp

text \<open>The sixteen wrapper structs expose exactly what the chain of writers offers: flushing, hijacking
  and pushing when any writer of the chain has it, \<open>ReadFrom\<close> when the outermost has it.\<close>

theorem capabilities_preserved:
  "set (preserveResponseWriterCapabilities (w # ws)) =
    {c. case c of
       FlushCap \<Rightarrow> \<exists>x \<in> set (w # ws). is_Flusher x \<or> is_FlushError x
     | HijackCap \<Rightarrow> \<exists>x \<in> set (w # ws). is_Hijacker x
     | ReadFromCap \<Rightarrow> is_ReaderFrom w
     | PushCap \<Rightarrow> \<exists>x \<in> set (w # ws). is_Pusher x}"
proof -
  obtain fl hi pu where l: "capability_loop 0 (w # ws) (is_Flusher w) (if is_Hijacker w then Some 0 else None)
      (if is_Pusher w then Some 0 else None) = (fl, hi, pu)" by (metis prod_cases3)
  have s: "fl = (\<exists>x \<in> set (w # ws). is_Flusher x \<or> is_FlushError x)"
    "(hi \<noteq> None) = (\<exists>x \<in> set (w # ws). is_Hijacker x)" "(pu \<noteq> None) = (\<exists>x \<in> set (w # ws). is_Pusher x)"
    using capability_loop_spec [OF l] by (auto split: if_splits)
  have table: "set (capability_struct ((if f then 1 else 0) + (if h then 2 else 0) + (if rf then 4 else 0) + (if p then 8 else 0))) =
      {c. case c of FlushCap \<Rightarrow> f | HijackCap \<Rightarrow> h | ReadFromCap \<Rightarrow> rf | PushCap \<Rightarrow> p}" for f h rf p
  proof (rule set_eqI)
    fix c
    show "c \<in> set (capability_struct ((if f then 1 else 0) + (if h then 2 else 0) + (if rf then 4 else 0) + (if p then 8 else 0))) \<longleftrightarrow>
      c \<in> {c. case c of FlushCap \<Rightarrow> f | HijackCap \<Rightarrow> h | ReadFromCap \<Rightarrow> rf | PushCap \<Rightarrow> p}"
      by (cases f; cases h; cases rf; cases p; cases c) (simp_all add: capability_struct_def)
  qed
  show ?thesis
    unfolding preserveResponseWriterCapabilities_def capability_mask_def list.case l prod.case table s ..
qed

end
