(* ===== verification/Routing.thy ===== *)
theory Routing
  imports Errors Url
begin

text \<open>
  Routes: paths, patterns and names in \<open>route.go\<close> and \<open>group.go\<close>, and the generation of URLs. The
  patterns are those of \<open>http.ServeMux\<close>, whose documented parsing and matching of one pattern is
  the reference (\<open>mux_parse\<close>, \<open>mux_match\<close>): a generated URL is matched by its route and gives back
  the parameters.
\<close>

section \<open>Routes\<close>

record route =
  rt_Method :: string
  rt_Path :: string
  rt_Pattern :: string
  rt_Name :: string
  rt_Module :: string
  rt_MiddlewareCount :: nat
  rt_Parameters :: "string list"

definition empty_route :: route where
  "empty_route = \<lparr>rt_Method = [], rt_Path = [], rt_Pattern = [], rt_Name = [], rt_Module = [],
     rt_MiddlewareCount = 0, rt_Parameters = []\<rparr>"

definition validRegistrationName :: "string \<Rightarrow> bool" where
  "validRegistrationName name \<longleftrightarrow> name \<noteq> [] \<and> name = trim_space name \<and>
     \<not> contains_any name [CHR 0x0D, CHR 0x0A, CHR 0x09]"

definition normalizePath :: "string \<Rightarrow> string" where
  "normalizePath p = (if p = [] then ''/'' else if \<not> has_prefix p ''/'' then ''/'' @ p else p)"

definition joinPath :: "string \<Rightarrow> string \<Rightarrow> string" where
  "joinPath pre p =
    (if pre = [] \<or> pre = ''/'' then normalizePath p
     else
       let pre = trim_suffix (normalizePath pre) ''/''
       in if p = [] then pre
          else
            let p = normalizePath p
            in if p = ''/'' then pre @ ''/'' else pre @ p)"

definition normalizeGroupPrefix :: "string \<Rightarrow> string" where
  "normalizeGroupPrefix pre =
    (if pre = [] \<or> pre = ''/'' then [] else trim_suffix (normalizePath pre) ''/'')"

definition routePattern :: "string \<Rightarrow> string \<Rightarrow> string" where
  "routePattern md p = (if md = [] then p
     else to_upper md @ '' '' @ (if has_suffix p ''/'' then p @ ''{$}'' else p))"

definition routeFromHTTPPattern :: "string \<Rightarrow> route" where
  "routeFromHTTPPattern pattern =
    (let pattern = trim_space pattern;
         (md, target) = (case index_byte pattern (CHR '' '') of
             None \<Rightarrow> ([], pattern)
           | Some i \<Rightarrow> (take i pattern, trim_space (drop (Suc i) pattern)));
         p = (case index_byte target (CHR ''/'') of None \<Rightarrow> target | Some i \<Rightarrow> drop i target)
     in empty_route\<lparr>rt_Pattern := pattern, rt_Method := md, rt_Path := p\<rparr>)"

text \<open>The names between braces.\<close>

definition parameter_name :: "string \<Rightarrow> string list" where
  "parameter_name s = (let name = trim_suffix s ''...'' in if name \<noteq> ''$'' \<and> name \<noteq> [] then [name] else [])"

function routeParameterNames :: "string \<Rightarrow> string list" where
  "routeParameterNames pattern = (case cut pattern (CHR ''{'') of
     (before, rest, found) \<Rightarrow>
       if \<not> found then []
       else case cut rest (CHR ''}'') of (name, rest', found') \<Rightarrow>
         if \<not> found' then [] else parameter_name name @ routeParameterNames rest')"
  by pat_completeness auto
termination
proof (relation "measure length", simp)
  fix pattern before y rest name y' rest' :: string and found found' z z'
  assume a: "(before, z) = cut pattern (CHR ''{'')" "(rest, found) = z" "\<not> \<not> found"
    "(name, z') = cut rest (CHR ''}'')" "(rest', found') = z'" "\<not> \<not> found'"
  have "cut pattern (CHR ''{'') = (before, rest, True)" "cut rest (CHR ''}'') = (name, rest', True)"
    using a by simp_all
  from cut_found [OF this(1)] cut_found [OF this(2)] show "(rest', pattern) \<in> measure length" by simp
qed

declare routeParameterNames.simps [simp del]

section \<open>URL generation\<close>

definition bad_part :: "bool \<Rightarrow> bool \<Rightarrow> string \<Rightarrow> bool" where
  "bad_part wildcard is_last part \<longleftrightarrow> part = ''.'' \<or> part = ''..'' \<or> part = ''/'' \<or>
     part = [] \<and> (\<not> wildcard \<or> \<not> is_last)"

fun url_parts :: "bool \<Rightarrow> string list \<Rightarrow> string list option" where
  "url_parts wildcard [] = Some []"
| "url_parts wildcard (part # parts) = (if bad_part wildcard (parts = []) part then None
     else map_option ((#) (path_escape part)) (url_parts wildcard parts))"

text \<open>One segment of the path.\<close>

definition url_segment :: "string \<Rightarrow> (string \<times> string) list \<Rightarrow> string \<Rightarrow> string result" where
  "url_segment name parameters segment =
    (if \<not> has_prefix segment ''{'' \<or> \<not> has_suffix segment ''}'' then
       let decoded = (case path_unescape segment of Some d \<Rightarrow> d | None \<Rightarrow> segment)
       in Inr (if decoded \<noteq> ''.'' \<and> decoded \<noteq> ''..'' then path_escape decoded else segment)
     else
       let parameter = take (length segment - 2) (drop 1 segment);
           wildcard = has_suffix parameter ''...'';
           parameter = trim_suffix parameter ''...''
       in case map_of parameters parameter of
            None \<Rightarrow> Inl (Opaque (''vial: route '' @ name @ '' is missing parameter '' @ parameter))
          | Some v \<Rightarrow>
              (case url_parts wildcard (if wildcard then split_byte (CHR ''/'') v else [v]) of
                 None \<Rightarrow> Inl (Opaque (''vial: route '' @ name @ '' parameter '' @ parameter @
                   '' contains an empty, slash-only, or dot segment''))
               | Some parts \<Rightarrow> Inr (join_with ''/'' parts)))"

fun url_segments :: "string \<Rightarrow> (string \<times> string) list \<Rightarrow> string list \<Rightarrow> string list result" where
  "url_segments name parameters [] = Inr []"
| "url_segments name parameters (segment # segments) = (case url_segment name parameters segment of
     Inl err \<Rightarrow> Inl err
   | Inr s \<Rightarrow> (case url_segments name parameters segments of Inl err \<Rightarrow> Inl err | Inr ss \<Rightarrow> Inr (s # ss)))"

text \<open>\<open>App.URL\<close> on a built application with these named routes.\<close>

definition route_URL :: "(string \<rightharpoonup> route) \<Rightarrow> string \<Rightarrow> (string \<times> string) list \<Rightarrow> string result" where
  "route_URL named name parameters = (case named name of
     None \<Rightarrow> Inl (Opaque (''vial: unknown route name '' @ name))
   | Some r \<Rightarrow>
       if length parameters \<noteq> length (rt_Parameters r) then
         Inl (Opaque (''vial: route '' @ name @ '' requires '' @ show_nat (length (rt_Parameters r)) @
           '' parameters, got '' @ show_nat (length parameters)))
       else
         let p = trim_suffix (rt_Path r) ''{$}''
         in if has_prefix p ''//'' then
              Inl (Opaque (''vial: route '' @ name @ '' does not have a root-relative URL path''))
            else case url_segments name parameters (split_byte (CHR ''/'') p) of
              Inl err \<Rightarrow> Inl err
            | Inr segments \<Rightarrow> Inr (join_with ''/'' segments))"

section \<open>The patterns of ServeMux\<close>

datatype mux_segment = Lit string | One string | Multi string | Subtree | End

text \<open>A superset of the identifiers that are wildcard names.\<close>

definition wild_name :: "string \<Rightarrow> bool" where
  "wild_name n \<longleftrightarrow> n \<noteq> [] \<and> set n \<inter> {CHR ''{'', CHR ''}'', CHR ''.'', CHR ''$'', CHR ''/''} = {}"

definition unescape_or_same :: "string \<Rightarrow> string" where
  "unescape_or_same s = (case path_unescape s of Some d \<Rightarrow> d | None \<Rightarrow> s)"

definition mux_segment_of :: "bool \<Rightarrow> string \<Rightarrow> mux_segment option" where
  "mux_segment_of is_last s =
    (if s = [] then (if is_last then Some Subtree else None)
     else if CHR ''{'' \<notin> set s then (if s = ''.'' \<or> s = ''..'' then None else Some (Lit (unescape_or_same s)))
     else if \<not> has_prefix s ''{'' \<or> \<not> has_suffix s ''}'' then None
     else
       let n = take (length s - 2) (drop 1 s)
       in if n = ''$'' then (if is_last then Some End else None)
          else if has_suffix n ''...'' then
            (if is_last \<and> wild_name (trim_suffix n ''...'') then Some (Multi (trim_suffix n ''...'')) else None)
          else if wild_name n then Some (One n) else None)"

fun mux_parse_segments :: "string list \<Rightarrow> mux_segment list option" where
  "mux_parse_segments [] = Some []"
| "mux_parse_segments (s # ss) = (case mux_segment_of (ss = []) s of
     None \<Rightarrow> None
   | Some m \<Rightarrow> map_option ((#) m) (mux_parse_segments ss))"

definition segment_names :: "mux_segment list \<Rightarrow> string list" where
  "segment_names ms = concat (map (\<lambda>m. case m of One n \<Rightarrow> [n] | Multi n \<Rightarrow> [n] | _ \<Rightarrow> []) ms)"

text \<open>A pattern is \<open>[METHOD ][HOST]/path\<close>; only the path has wildcards, with distinct names.\<close>

definition mux_parse :: "string \<Rightarrow> mux_segment list option" where
  "mux_parse pattern = (case cut pattern (CHR ''/'') of (before, p, found) \<Rightarrow>
     if \<not> found \<or> CHR ''{'' \<in> set before then None
     else case mux_parse_segments (split_byte (CHR ''/'') p) of
       None \<Rightarrow> None
     | Some ms \<Rightarrow> if distinct (segment_names ms) then Some ms else None)"

text \<open>
  Matching the escaped segments of a path, those after its first slash; a last empty segment is
  the slash at the end.
\<close>

fun mux_match :: "mux_segment list \<Rightarrow> string list \<Rightarrow> (string \<times> string) list option" where
  "mux_match [] ps = (if ps = [] then Some [] else None)"
| "mux_match (Subtree # ms) ps = (if ps \<noteq> [] then Some [] else None)"
| "mux_match (End # ms) ps = (if ps = [[]] then Some [] else None)"
| "mux_match (Multi n # ms) ps = (if ps \<noteq> [] then Some [(n, unescape_or_same (join_with ''/'' ps))] else None)"
| "mux_match (Lit s # ms) [] = None"
| "mux_match (Lit s # ms) (p # ps) =
     (if (p \<noteq> [] \<or> ps \<noteq> []) \<and> unescape_or_same p = s then mux_match ms ps else None)"
| "mux_match (One n # ms) [] = None"
| "mux_match (One n # ms) (p # ps) =
     (if (p \<noteq> [] \<or> ps \<noteq> []) \<and> unescape_or_same p \<noteq> ''/''
      then map_option ((#) (n, unescape_or_same p)) (mux_match ms ps) else None)"

text \<open>A path that ServeMux does not redirect to a cleaned one.\<close>

definition clean_segments :: "string list \<Rightarrow> bool" where
  "clean_segments ps \<longleftrightarrow> (\<forall>p \<in> set ps. p \<noteq> ''.'' \<and> p \<noteq> ''..'') \<and> (\<forall>p \<in> set (butlast ps). p \<noteq> [])"

section \<open>Registered routes\<close>

text \<open>The route of \<open>App.Handle\<close> and of \<open>Group.Handle\<close>, before its options.\<close>

definition handle_route :: "string \<Rightarrow> string \<Rightarrow> route" where
  "handle_route md p =
    (let md = to_upper (trim_space md); p = normalizePath p; pattern = routePattern md p
     in empty_route\<lparr>rt_Method := md, rt_Path := p, rt_Pattern := pattern,
          rt_Parameters := routeParameterNames pattern\<rparr>)"

definition group_route :: "string \<Rightarrow> string \<Rightarrow> string \<Rightarrow> route" where
  "group_route pre md p =
    (let md = to_upper (trim_space md); p = joinPath pre p; pattern = routePattern md p
     in empty_route\<lparr>rt_Method := md, rt_Path := p, rt_Pattern := pattern,
          rt_Parameters := routeParameterNames pattern\<rparr>)"

text \<open>\<open>Group.HandleHTTP\<close> and, without a prefix, \<open>App.HandleHTTP\<close>.\<close>

definition http_route :: "string \<Rightarrow> route" where
  "http_route pattern = (let r = routeFromHTTPPattern pattern
     in r\<lparr>rt_Parameters := routeParameterNames (rt_Pattern r)\<rparr>)"

definition group_http_pattern :: "string \<Rightarrow> string \<Rightarrow> string" where
  "group_http_pattern pre pattern =
    (let pattern = trim_space pattern
     in case index_byte pattern (CHR ''/'') of None \<Rightarrow> pattern
        | Some i \<Rightarrow> take i pattern @ joinPath pre (drop i pattern))"

definition group_http_route :: "string \<Rightarrow> string \<Rightarrow> route" where
  "group_http_route pre pattern = http_route (group_http_pattern pre pattern)"

section \<open>Escaping\<close>

lemma path_unescape_escape_append:
  "path_unescape (path_escape a @ s) = map_option ((@) a) (path_unescape s)"
proof (induction a)
  case Nil
  then show ?case by (cases "path_unescape s") (simp_all add: path_escape_def)
next
  case (Cons c a)
  then show ?case
    by (cases "path_unescaped c"; cases "c = CHR ''%''"; cases "path_unescape s") (simp_all add: path_escape_def)
qed

lemma unescape_escape [simp]: "unescape_or_same (path_escape s) = s"
  by (simp add: unescape_or_same_def path_unescape_escape)

lemma path_escape_inj: "path_escape s = path_escape t \<Longrightarrow> s = t"
  by (metis option.inject path_unescape_escape)

lemma path_escape_dots [simp]:
  "path_escape s = ''.'' \<longleftrightarrow> s = ''.''" "path_escape s = ''..'' \<longleftrightarrow> s = ''..''" "path_escape s = [] \<longleftrightarrow> s = []"
proof -
  have inj: "path_escape s = path_escape t \<longleftrightarrow> s = t" for t by (auto dest: path_escape_inj)
  have e: "path_escape ''.'' = ''.''" "path_escape ''..'' = ''..''" "path_escape [] = []"
    by (simp_all add: path_escape_def path_unescaped_def)
  show "path_escape s = ''.'' \<longleftrightarrow> s = ''.''" using inj [of "''.''"] by (simp only: e(1))
  show "path_escape s = ''..'' \<longleftrightarrow> s = ''..''" using inj [of "''..''"] by (simp only: e(2))
  show "path_escape s = [] \<longleftrightarrow> s = []" using inj [of "[]"] by (simp only: e(3))
qed

lemma unescape_join: "unescape_or_same (join_with ''/'' (map path_escape parts)) = join_with ''/'' parts"
proof -
  have "path_unescape (join_with ''/'' (map path_escape parts)) = Some (join_with ''/'' parts)"
  proof (induction parts rule: induct_list012)
    case (3 a b parts)
    then show ?case by (simp add: path_unescape_escape_append)
  qed (simp_all add: path_unescape_escape)
  then show ?thesis by (simp add: unescape_or_same_def)
qed

lemma path_unescape_Nil: "path_unescape s = Some [] \<Longrightarrow> s = []"
  by (induction s rule: path_unescape.induct) (auto split: if_splits list.splits option.splits)

lemma unescape_or_same_Nil: "s \<noteq> [] \<Longrightarrow> unescape_or_same s \<noteq> []"
  using path_unescape_Nil by (auto simp: unescape_or_same_def split: option.splits)

section \<open>Segments\<close>

lemma url_parts_Some:
  "url_parts w parts = Some out \<Longrightarrow> out = map path_escape parts \<and>
     (\<forall>p \<in> set parts. p \<noteq> ''.'' \<and> p \<noteq> ''..'' \<and> p \<noteq> ''/'' \<and> (\<not> w \<longrightarrow> p \<noteq> [])) \<and> (\<forall>p \<in> set (butlast parts). p \<noteq> [])"
proof (induction parts arbitrary: out)
  case (Cons part parts)
  have ok: "\<not> bad_part w (parts = []) part" using Cons.prems by (auto split: if_splits)
  with Cons.prems obtain out' where out: "url_parts w parts = Some out'" "out = path_escape part # out'" by auto
  show ?case using Cons.IH [OF out(1)] out(2) ok by (cases "parts = []") (auto simp: bad_part_def)
qed simp

lemma braced:
  assumes "has_prefix s ''{''" "has_suffix s ''}''"
  shows "s = ''{'' @ take (length s - 2) (drop 1 s) @ ''}''"
proof -
  obtain a where a: "s = ''{'' @ a" using assms(1) by (auto simp: has_prefix_iff prefix_def)
  obtain b where b: "s = b @ ''}''" using assms(2) by (auto simp: has_suffix_iff suffix_def)
  from a b have ne: "a \<noteq> []" by (cases b) auto
  have "last a = last s" using a ne by simp
  also have "\<dots> = CHR ''}''" using b by simp
  finally have "a = butlast a @ ''}''" using append_butlast_last_id [OF ne] by simp
  moreover have "take (length s - 2) (drop 1 s) = butlast a" using a by (simp add: butlast_conv_take)
  ultimately show ?thesis using a by simp
qed

text \<open>A literal or a single wildcard.\<close>

lemma url_segment_single:
  assumes "mux_segment_of l s = Some m" "url_segment name ps s = Inr out" "CHR ''/'' \<notin> set s"
    and "m = Lit x \<or> m = One x"
  shows "out \<noteq> [] \<and> CHR ''/'' \<notin> set out \<and> out \<noteq> ''.'' \<and> out \<noteq> ''..'' \<and>
    (m = Lit x \<longrightarrow> unescape_or_same out = x) \<and>
    (m = One x \<longrightarrow> unescape_or_same out \<noteq> ''/'' \<and> map_of ps x = Some (unescape_or_same out))"
proof (cases "CHR ''{'' \<in> set s")
  case False
  then have "\<not> has_prefix s ''{''" by (cases s) (auto simp: has_prefix_def)
  then have "url_segment name ps s = Inr (if unescape_or_same s \<noteq> ''.'' \<and> unescape_or_same s \<noteq> ''..''
      then path_escape (unescape_or_same s) else s)"
    by (simp add: url_segment_def unescape_or_same_def Let_def)
  with assms(2) have out: "out = (if unescape_or_same s \<noteq> ''.'' \<and> unescape_or_same s \<noteq> ''..'' then path_escape (unescape_or_same s) else s)"
    by (simp only: sum.inject)
  from assms(1,4) False have m: "m = Lit (unescape_or_same s)" "s \<noteq> []" "s \<noteq> ''.''" "s \<noteq> ''..''"
    by (auto simp: mux_segment_of_def split: if_splits)
  with assms(3,4) show ?thesis by (auto simp: out unescape_or_same_Nil path_escape_no_slash)
next
  case True
  define n where "n = take (length s - 2) (drop (Suc 0) s)"
  from assms(1,4) True have m: "m = One n" "wild_name n" "\<not> has_suffix n ''...''" "has_prefix s ''{''" "has_suffix s ''}''"
    by (auto simp: mux_segment_of_def Let_def n_def [symmetric] split: if_splits)
  with assms(2) obtain v parts where v: "map_of ps n = Some v" "url_parts False [v] = Some parts" "out = join_with ''/'' parts"
    by (auto simp: url_segment_def Let_def n_def [symmetric] split: option.splits)
  then have "out = path_escape v" "v \<noteq> []" "v \<noteq> ''.''" "v \<noteq> ''..''" "v \<noteq> ''/''"
    using url_parts_Some [OF v(2)] by auto
  with v(1) m(1) assms(4) show ?thesis by (auto simp: path_escape_no_slash)
qed

lemma url_segment_multi:
  assumes "mux_segment_of l s = Some (Multi n)" "url_segment name ps s = Inr out"
  shows "\<exists>parts. parts \<noteq> [] \<and> out = join_with ''/'' (map path_escape parts) \<and> map_of ps n = Some (join_with ''/'' parts) \<and>
    clean_segments (map path_escape parts)"
proof -
  define p where "p = take (length s - 2) (drop (Suc 0) s)"
  from assms(1) have m: "n = trim_suffix p ''...''" "has_suffix p ''...''" "has_prefix s ''{''" "has_suffix s ''}''"
    by (auto simp: mux_segment_of_def Let_def p_def [symmetric] split: if_splits)
  with assms(2) obtain v parts where v: "map_of ps n = Some v" "url_parts True (split_byte (CHR ''/'') v) = Some parts"
      "out = join_with ''/'' parts"
    by (auto simp: url_segment_def Let_def p_def [symmetric] split: option.splits)
  have "clean_segments (map path_escape (split_byte (CHR ''/'') v))"
    using url_parts_Some [OF v(2)] by (auto simp: clean_segments_def map_butlast [symmetric])
  with v url_parts_Some [OF v(2)] show ?thesis by (intro exI [of _ "split_byte (CHR ''/'') v"]) simp
qed

text \<open>The segments of the path of a route, where the pattern ends in \<open>{$}\<close>.\<close>

fun unend :: "string list \<Rightarrow> string list" where
  "unend [] = []"
| "unend [s] = [if s = ''{$}'' then [] else s]"
| "unend (s # t # ss) = s # unend (t # ss)"

lemma unend_not_Nil: "ss \<noteq> [] \<Longrightarrow> unend ss \<noteq> []"
  by (induction ss rule: unend.induct) simp_all

abbreviation out_segments :: "string list \<Rightarrow> string list" where
  "out_segments outs \<equiv> concat (map (split_byte (CHR ''/'')) outs)"

lemma clean_Cons: "p \<noteq> [] \<Longrightarrow> p \<noteq> ''.'' \<Longrightarrow> p \<noteq> ''..'' \<Longrightarrow> clean_segments ps \<Longrightarrow> clean_segments (p # ps)"
  by (auto simp: clean_segments_def)

lemma end_segment: "mux_segment_of l s = Some End \<Longrightarrow> s = ''{$}'' \<and> l"
proof -
  assume a: "mux_segment_of l s = Some End"
  then have "has_prefix s ''{''" "has_suffix s ''}''" "take (length s - 2) (drop 1 s) = ''$''" "l"
    by (auto simp: mux_segment_of_def Let_def split: if_splits)
  with braced [of s] show ?thesis by simp
qed

lemma subtree_segment: "mux_segment_of l s = Some Subtree \<Longrightarrow> s = [] \<and> l"
  by (auto simp: mux_segment_of_def Let_def split: if_splits)

lemma multi_last: "mux_segment_of l s = Some (Multi n) \<Longrightarrow> l"
  by (auto simp: mux_segment_of_def Let_def split: if_splits)

lemma not_end_segment: "mux_segment_of l s = Some m \<Longrightarrow> m \<noteq> End \<Longrightarrow> s \<noteq> ''{$}''"
  by (auto simp: mux_segment_of_def has_prefix_def has_suffix_def split: if_splits)

lemma empty_url_segment: "url_segment name ps [] = Inr []"
  by (simp add: url_segment_def has_prefix_def path_escape_def)

lemma url_segments_match:
  assumes "mux_parse_segments ss = Some ms" "url_segments name ps (unend ss) = Inr outs"
    and "\<forall>s \<in> set ss. CHR ''/'' \<notin> set s" "ss \<noteq> []"
  shows "\<exists>bs. mux_match ms (out_segments outs) = Some bs \<and> (\<forall>(n, v) \<in> set bs. map_of ps n = Some v) \<and>
    map fst bs = segment_names ms \<and> clean_segments (out_segments outs) \<and> out_segments outs \<noteq> [] \<and> outs \<noteq> []"
  using assms
proof (induction ss arbitrary: ms outs)
  case (Cons s ss)
  obtain m ms' where m: "mux_segment_of (ss = []) s = Some m" "mux_parse_segments ss = Some ms'" "ms = m # ms'"
    using Cons.prems(1) by (auto split: option.splits)
  have slash: "CHR ''/'' \<notin> set s" using Cons.prems(3) by simp
  show ?case
  proof (cases ss)
    case Nil
    then have ms: "ms = [m]" using m by simp
    show ?thesis
    proof (cases m)
      case Subtree
      then have "s = []" using subtree_segment m(1) by blast
      with Cons.prems(2) Nil have "outs = [[]]" by (auto simp: empty_url_segment)
      with Subtree show ?thesis by (simp add: ms segment_names_def clean_segments_def)
    next
      case End
      then have "s = ''{$}''" using end_segment m(1) by blast
      with Cons.prems(2) Nil have "outs = [[]]" by (auto simp: empty_url_segment)
      with End show ?thesis by (simp add: ms segment_names_def clean_segments_def)
    next
      case (Multi n)
      have "s \<noteq> ''{$}''" using not_end_segment [OF m(1)] Multi by simp
      with Cons.prems(2) Nil obtain out where out: "url_segment name ps s = Inr out" "outs = [out]"
        by (auto split: sum.splits)
      from url_segment_multi [OF m(1) [unfolded Multi] out(1)] obtain parts where
        p: "parts \<noteq> []" "out = join_with ''/'' (map path_escape parts)" "map_of ps n = Some (join_with ''/'' parts)"
          "clean_segments (map path_escape parts)" by blast
      have "split_byte (CHR ''/'') out = map path_escape parts"
        unfolding p(2) using p(1) path_escape_no_slash by (intro split_join) auto
      with p out Multi show ?thesis by (simp add: ms unescape_join segment_names_def)
    next
      case (Lit x)
      have "s \<noteq> ''{$}''" using not_end_segment [OF m(1)] Lit by simp
      with Cons.prems(2) Nil obtain out where out: "url_segment name ps s = Inr out" "outs = [out]"
        by (auto split: sum.splits)
      with url_segment_single [OF m(1) out(1) slash, of x] Lit show ?thesis
        by (simp add: ms split_byte_absent segment_names_def clean_segments_def)
    next
      case (One x)
      have "s \<noteq> ''{$}''" using not_end_segment [OF m(1)] One by simp
      with Cons.prems(2) Nil obtain out where out: "url_segment name ps s = Inr out" "outs = [out]"
        by (auto split: sum.splits)
      with url_segment_single [OF m(1) out(1) slash, of x] One show ?thesis
        by (simp add: ms split_byte_absent segment_names_def clean_segments_def)
    qed
  next
    case (Cons t ts)
    have "\<exists>x. m = Lit x \<or> m = One x"
      using m(1) Cons subtree_segment [of _ s] end_segment [of _ s] multi_last [of _ s] by (cases m) auto
    then obtain x where x: "m = Lit x \<or> m = One x" by blast
    obtain out outs' where out: "url_segment name ps s = Inr out" "url_segments name ps (unend ss) = Inr outs'"
        "outs = out # outs'"
      using Cons.prems(2) Cons by (auto split: sum.splits)
    note single = url_segment_single [OF m(1) out(1) slash x]
    obtain bs where bs: "mux_match ms' (out_segments outs') = Some bs" "\<forall>(n, v) \<in> set bs. map_of ps n = Some v"
      "map fst bs = segment_names ms'" "clean_segments (out_segments outs')" "out_segments outs' \<noteq> []" "outs' \<noteq> []"
      using Cons.IH [OF m(2) out(2)] Cons.prems(3) Cons by auto
    have ps: "out_segments outs = out # out_segments outs'"
      using single out(3) by (simp add: split_byte_absent)
    have clean: "clean_segments (out_segments outs)" unfolding ps using single bs(4) by (intro clean_Cons) auto
    from x show ?thesis
    proof
      assume "m = Lit x"
      with single bs clean ps out(3) m(3) show ?thesis
        by (intro exI [of _ bs]) (simp add: segment_names_def)
    next
      assume "m = One x"
      with single bs clean ps out(3) m(3) show ?thesis
        by (intro exI [of _ "(x, unescape_or_same out) # bs"]) (simp add: segment_names_def)
    qed
  qed
qed simp


section \<open>Names\<close>

lemma routeParameterNames_skip: "CHR ''{'' \<notin> set a \<Longrightarrow> routeParameterNames (a @ s) = routeParameterNames s"
proof -
  assume a: "CHR ''{'' \<notin> set a"
  show ?thesis
  proof (cases "CHR ''{'' \<in> set s")
    case True
    then obtain b t where s: "s = b @ CHR ''{'' # t" "CHR ''{'' \<notin> set b" by (meson split_list_first)
    then have "cut (a @ s) (CHR ''{'') = (a @ b, t, True)" "cut s (CHR ''{'') = (b, t, True)"
      using a cut_append [of "CHR ''{''" "a @ b" t] by simp_all
    then show ?thesis by (subst (1 2) routeParameterNames.simps) simp
  next
    case False
    with a have "cut (a @ s) (CHR ''{'') = (a @ s, [], False)" "cut s (CHR ''{'') = (s, [], False)" by simp_all
    then show ?thesis by (subst (1 2) routeParameterNames.simps) simp
  qed
qed

lemma routeParameterNames_brace:
  "CHR ''}'' \<notin> set n \<Longrightarrow> routeParameterNames (CHR ''{'' # n @ CHR ''}'' # s) = parameter_name n @ routeParameterNames s"
  using cut_append [of "CHR ''{''" "[]" "n @ CHR ''}'' # s"] by (subst routeParameterNames.simps) simp

lemma routeParameterNames_Nil [simp]: "routeParameterNames [] = []"
  by (subst routeParameterNames.simps) simp

lemma segment_name:
  assumes "mux_segment_of l s = Some m"
  shows "routeParameterNames (s @ t) = segment_names [m] @ routeParameterNames t"
proof (cases "CHR ''{'' \<in> set s")
  case False
  with assms have "segment_names [m] = []" by (auto simp: mux_segment_of_def segment_names_def split: if_splits)
  with False show ?thesis by (simp add: routeParameterNames_skip)
next
  case True
  define n where "n = take (length s - 2) (drop (Suc 0) s)"
  have pre: "has_prefix s ''{''" "has_suffix s ''}''"
    using assms True by (auto simp: mux_segment_of_def split: if_splits)
  then have s: "s = CHR ''{'' # n @ [CHR ''}'']" using braced [OF pre] by (simp add: n_def)
  consider "n = ''$''" "m = End" | "has_suffix n ''...''" "wild_name (trim_suffix n ''...'')" "m = Multi (trim_suffix n ''...'')"
    | "\<not> has_suffix n ''...''" "wild_name n" "m = One n"
    using assms True pre by (auto simp: mux_segment_of_def Let_def n_def [symmetric] split: if_splits)
  then show ?thesis
  proof cases
    case 1
    then show ?thesis
      using routeParameterNames_brace [of n t] s
      by (simp add: parameter_name_def segment_names_def trim_suffix_def has_suffix_def)
  next
    case 2
    then obtain a where a: "n = a @ ''...''" by (auto simp: has_suffix_iff suffix_def)
    with 2 have "trim_suffix n ''...'' = a" by (simp only: trim_suffix_append)
    with 2 a have "CHR ''}'' \<notin> set n" "a \<noteq> ''$''" "a \<noteq> []" by (auto simp: wild_name_def)
    with 2 \<open>trim_suffix n ''...'' = a\<close> show ?thesis
      using routeParameterNames_brace [of n t] s by (simp add: parameter_name_def segment_names_def)
  next
    case 3
    then have "CHR ''}'' \<notin> set n" "n \<noteq> ''$''" "n \<noteq> []" by (auto simp: wild_name_def)
    with 3 show ?thesis
      using routeParameterNames_brace [of n t] s by (simp add: parameter_name_def segment_names_def)
  qed
qed

lemma segment_names_Cons: "segment_names (m # ms) = segment_names [m] @ segment_names ms"
  by (simp add: segment_names_def)

lemma parameter_names_parse:
  "mux_parse_segments ss = Some ms \<Longrightarrow> routeParameterNames (join_with ''/'' ss) = segment_names ms"
proof (induction ss arbitrary: ms)
  case Nil
  then show ?case by (simp add: segment_names_def)
next
  case (Cons s ss)
  obtain m ms' where m: "mux_segment_of (ss = []) s = Some m" "mux_parse_segments ss = Some ms'" "ms = m # ms'"
    using Cons.prems by (auto split: option.splits)
  show ?case
  proof (cases "ss = []")
    case True
    with m segment_name [OF m(1), of "[]"] show ?thesis by (simp add: segment_names_def)
  next
    case False
    have "routeParameterNames (CHR ''/'' # join_with ''/'' ss) = routeParameterNames (join_with ''/'' ss)"
      using routeParameterNames_skip [of "''/''"] by simp
    with False Cons.IH [OF m(2)] segment_name [OF m(1)] m(3) show ?thesis
      by (simp add: join_with_Cons segment_names_Cons [of m ms'])
  qed
qed

section \<open>The path of a registered route\<close>

text \<open>
  The pattern is the path, with \<open>{$}\<close> added after a slash at its end, behind a method and host.
\<close>

definition registered :: "route \<Rightarrow> bool" where
  "registered r \<longleftrightarrow> rt_Parameters r = routeParameterNames (rt_Pattern r) \<and>
     (\<exists>before p. CHR ''/'' \<notin> set before \<and> rt_Path r = ''/'' @ p \<and>
        (rt_Pattern r = before @ ''/'' @ p \<or>
         (p = [] \<or> last p = CHR ''/'') \<and> rt_Pattern r = before @ ''/'' @ p @ ''{$}''))"

lemma normalizePath_slash: "\<exists>p'. normalizePath p = ''/'' @ p'"
  by (auto simp: normalizePath_def has_prefix_iff prefix_def)

lemma to_upper_no_slash: "CHR ''/'' \<notin> set s \<Longrightarrow> CHR ''/'' \<notin> set (to_upper s)"
proof -
  have "upper_char c \<noteq> CHR ''/'' \<or> c = CHR ''/''" for c
  proof (cases "97 \<le> (of_char c :: nat) \<and> (of_char c :: nat) \<le> 122")
    case True
    then have "((of_char c :: nat) - 32) mod 256 = of_char c - 32" by (intro mod_less) linarith
    with True have "(of_char (upper_char c) :: nat) = of_char c - 32" by (simp add: upper_char_def of_char_of)
    moreover have "65 \<le> (of_char c :: nat) - 32" using True by arith
    ultimately have "(of_char (upper_char c) :: nat) \<noteq> of_char CHR ''/''" by simp
    then show ?thesis by metis
  qed (auto simp: upper_char_def)
  then show "CHR ''/'' \<notin> set s \<Longrightarrow> CHR ''/'' \<notin> set (to_upper s)" by (fastforce simp: to_upper_def)
qed

lemma registered_pattern:
  assumes "CHR ''/'' \<notin> set md" "p = ''/'' @ p'"
    "rt_Path r = p" "rt_Pattern r = routePattern md p" "rt_Parameters r = routeParameterNames (rt_Pattern r)"
  shows "registered r"
proof -
  have before: "CHR ''/'' \<notin> set (to_upper md @ '' '')" using to_upper_no_slash [OF assms(1)] by simp
  show ?thesis
  proof (cases "md = []")
    case True
    with assms show ?thesis by (auto simp: registered_def routePattern_def intro!: exI [of _ "[]"])
  next
    case False
    have "p' = [] \<or> last p' = CHR ''/''" if "has_suffix p ''/''"
      using that assms(2) by (cases p' rule: rev_cases) (auto simp: has_suffix_iff suffix_def)
    with False assms before show ?thesis unfolding registered_def
      by (intro conjI exI [of _ "to_upper md @ '' ''"] exI [of _ p']) (auto simp: routePattern_def)
  qed
qed

lemma trim_suffix_slash: "trim_suffix (s @ ''/'' @ j) ''{$}'' = s @ ''/'' @ trim_suffix j ''{$}''"
proof (cases "has_suffix j ''{$}''")
  case True
  then obtain b where "j = b @ ''{$}''" by (auto simp: has_suffix_iff suffix_def)
  then show ?thesis using trim_suffix_append [of "s @ ''/'' @ b" "''{$}''"] trim_suffix_append [of b "''{$}''"] by simp
next
  case False
  have "\<not> has_suffix (s @ ''/'' @ j) ''{$}''"
  proof
    assume "has_suffix (s @ ''/'' @ j) ''{$}''"
    then obtain b where b: "(s @ ''/'') @ j = b @ ''{$}''" by (auto simp: has_suffix_iff suffix_def)
    then have "suffix j ''{$}'' \<or> suffix ''{$}'' j" by (metis suffix_same_cases suffixI)
    with False have "suffix j ''{$}''" "j \<noteq> ''{$}''" by (auto simp: has_suffix_iff)
    then have "j \<in> {[], ''}'', ''$}''}" by (auto simp: suffix_Cons)
    with b show False by (auto simp: append_eq_append_conv2 append_eq_Cons_conv)
  qed
  with False show ?thesis by simp
qed

text \<open>The segments of the path of a registered route are those of its pattern without its end marker.\<close>

lemma unend_join:
  assumes "mux_parse_segments ss = Some ms" "ss \<noteq> []"
  shows "trim_suffix (join_with ''/'' ss) ''{$}'' = join_with ''/'' (unend ss)"
  using assms
proof (induction ss arbitrary: ms rule: unend.induct)
  case (2 s)
  then obtain m where m: "mux_segment_of True s = Some m" by (auto split: option.splits)
  show ?case
  proof (cases "s = ''{$}''")
    case True
    then show ?thesis by (simp add: trim_suffix_def has_suffix_def)
  next
    case False
    have "\<not> has_suffix s ''{$}''"
    proof
      assume "has_suffix s ''{$}''"
      then obtain a where a: "s = a @ ''{$}''" by (auto simp: has_suffix_iff suffix_def)
      with False have ne: "a \<noteq> []" by auto
      have "has_prefix s ''{''" "has_suffix s ''}''" using m a by (auto simp: mux_segment_of_def split: if_splits)
      define n where "n = take (length s - 2) (drop (Suc 0) s)"
      have n: "n = tl a @ ''{$''" using a ne by (cases a) (simp_all add: n_def)
      then have "\<not> wild_name n" by (simp add: wild_name_def)
      moreover have "\<not> has_suffix n ''...''" using n by (auto simp: has_suffix_iff suffix_def)
      moreover have "n \<noteq> ''$''" using n by simp
      moreover have "CHR ''{'' \<in> set s" "s \<noteq> []" using a by simp_all
      ultimately show False using m by (auto simp: mux_segment_of_def Let_def n_def [symmetric] split: if_splits)
    qed
    with False show ?thesis by simp
  qed
next
  case (3 s t ss)
  obtain ms' where ms': "mux_parse_segments (t # ss) = Some ms'" using 3(2) by (auto split: option.splits)
  have "unend (t # ss) \<noteq> []" by (rule unend_not_Nil) simp
  then show ?case using 3(1) [OF ms'] trim_suffix_slash [of s] by (simp add: join_with_Cons)
qed simp


lemma split_slash: "split_byte (CHR ''/'') (''/'' @ p) = [] # split_byte (CHR ''/'') p"
  by simp

lemma split_outs:
  "outs \<noteq> [] \<Longrightarrow> split_byte (CHR ''/'') (join_with ''/'' outs) = out_segments outs"
  by (induction outs rule: induct_list012) (simp_all add: split_byte_join)

lemma unend_clean: "\<forall>s \<in> set ss. CHR ''/'' \<notin> set s \<Longrightarrow> \<forall>s \<in> set (unend ss). CHR ''/'' \<notin> set s"
  by (induction ss rule: unend.induct) auto

lemma trim_slash: "a \<noteq> [] \<Longrightarrow> \<exists>b. trim_suffix (CHR ''/'' # a) ''/'' = CHR ''/'' # b"
  by (cases a) (simp_all add: trim_suffix_def)

lemma joinPath_slash: "\<exists>p'. joinPath pre p = ''/'' @ p'"
proof (cases "pre = [] \<or> pre = ''/''")
  case True
  with normalizePath_slash [of p] show ?thesis by (auto simp: joinPath_def)
next
  case False
  obtain a where a: "normalizePath pre = CHR ''/'' # a" using normalizePath_slash [of pre] by auto
  with False have "a \<noteq> []" by (auto simp: normalizePath_def split: if_splits)
  with a trim_slash [of a] obtain b where "trim_suffix (normalizePath pre) ''/'' = CHR ''/'' # b" by auto
  with False show ?thesis by (simp add: joinPath_def Let_def)
qed

lemma map_of_same:
  assumes "distinct (map fst xs)" "distinct (map fst ys)" "length xs = length ys"
    "\<And>n v. (n, v) \<in> set xs \<Longrightarrow> map_of ys n = Some v"
  shows "map_of xs = map_of ys"
proof -
  have "set xs \<subseteq> set ys" using assms(4) by (auto dest: map_of_SomeD)
  moreover have "distinct xs" "distinct ys" using assms(1,2) by (simp_all add: distinct_map)
  then have "card (set xs) = card (set ys)" using assms(3) by (simp add: distinct_card)
  ultimately have "set xs = set ys" by (intro card_subset_eq) simp_all
  with assms(1,2) show ?thesis by (metis map_of_inject_set)
qed

text \<open>Both forms of a pattern give the segments of the path.\<close>

lemma registered_segments:
  assumes "registered r" "mux_parse (rt_Pattern r) = Some ms"
  obtains ss where "mux_parse_segments ss = Some ms" "ss \<noteq> []" "\<forall>s \<in> set ss. CHR ''/'' \<notin> set s"
    "trim_suffix (rt_Path r) ''{$}'' = ''/'' @ join_with ''/'' (unend ss)" "distinct (segment_names ms)"
    "rt_Parameters r = segment_names ms"
proof -
  obtain before p where r: "CHR ''/'' \<notin> set before" "rt_Path r = ''/'' @ p"
    "rt_Pattern r = before @ ''/'' @ p \<or> (p = [] \<or> last p = CHR ''/'') \<and> rt_Pattern r = before @ ''/'' @ p @ ''{$}''"
    "rt_Parameters r = routeParameterNames (rt_Pattern r)"
    using assms(1) by (auto simp: registered_def)
  define q where "q = (if rt_Pattern r = before @ ''/'' @ p then p else p @ ''{$}'')"
  have q: "rt_Pattern r = before @ CHR ''/'' # q" using r(3) by (auto simp: q_def)
  define ss where "ss = split_byte (CHR ''/'') q"
  have ms: "mux_parse_segments ss = Some ms" "distinct (segment_names ms)" "CHR ''{'' \<notin> set before"
    using assms(2) r(1) by (auto simp: mux_parse_def q ss_def split: if_splits option.splits)
  have ss: "ss \<noteq> []" "\<forall>s \<in> set ss. CHR ''/'' \<notin> set s" "join_with ''/'' ss = q"
    using join_split [of "CHR ''/''" q] by (auto simp: ss_def dest: split_byte_clean)
  have "trim_suffix (''/'' @ q) ''{$}'' = trim_suffix (''/'' @ p) ''{$}''"
  proof (cases "q = p")
    case False
    then have q2: "q = p @ ''{$}''" "p = [] \<or> last p = CHR ''/''" using r(3) by (auto simp: q_def split: if_splits)
    have "\<not> has_suffix (''/'' @ p) ''{$}''" using q2(2) by (cases p rule: rev_cases) (auto simp: has_suffix_iff suffix_def)
    moreover have "trim_suffix (''/'' @ q) ''{$}'' = ''/'' @ p"
      using trim_suffix_append [of "''/'' @ p" "''{$}''"] by (simp add: q2)
    ultimately show ?thesis by simp
  qed simp
  moreover have "trim_suffix (''/'' @ q) ''{$}'' = ''/'' @ trim_suffix q ''{$}''"
    using trim_suffix_slash [of "[]" q] by simp
  ultimately have "trim_suffix (rt_Path r) ''{$}'' = ''/'' @ join_with ''/'' (unend ss)"
    using r(2) unend_join [OF ms(1) ss(1)] ss(3) by simp
  moreover have "rt_Parameters r = segment_names ms"
    using routeParameterNames_skip [of "before @ ''/''" q] ms(3) parameter_names_parse [OF ms(1)] ss(3)
    by (simp add: r(4) q)
  ultimately show ?thesis using that ms ss by blast
qed


text \<open>Both ways of registering a route give a registered one.\<close>

lemma registered_routes:
  assumes "r = handle_route md p \<or> r = group_route pre md p" "CHR ''/'' \<notin> set md"
  shows "registered r"
proof -
  have "CHR ''/'' \<notin> set (to_upper (trim_space md))"
    using assms(2) set_trim_space [of md] by (intro to_upper_no_slash) blast
  with joinPath_slash [of pre p] show ?thesis
    using assms(1) normalizePath_slash [of p]
    by (elim disjE exE) (rule registered_pattern, auto simp: handle_route_def group_route_def Let_def empty_route_def)+
qed

section \<open>Properties\<close>


definition demo_route :: route where
  "demo_route = handle_route ''GET'' ''/files/{id}/{path...}''"

lemma demo_route_pattern: "rt_Pattern demo_route = ''GET /files/{id}/{path...}''"
  by (simp add: demo_route_def handle_route_def normalizePath_def has_prefix_def routePattern_def has_suffix_def
      to_upper_def upper_char_def visible_def Let_def)

lemma demo_route_parse:
  "mux_parse (rt_Pattern demo_route) = Some [Lit ''files'', One ''id'', Multi ''path'']"
  by (simp add: demo_route_pattern mux_parse_def cut_def mux_segment_of_def has_prefix_def has_suffix_def
      wild_name_def segment_names_def trim_suffix_def unescape_or_same_def)

lemma demo_route_names: "rt_Parameters demo_route = [''id'', ''path'']"
  using demo_route_pattern
  by (simp add: demo_route_def handle_route_def Let_def routeParameterNames.simps cut_def parameter_name_def
      trim_suffix_def has_suffix_def)


end
