(* ===== verification/Options.thy ===== *)
theory Options
  imports ClientIp
begin

text \<open>
  The options of an application, \<open>options.go\<close>. Pointers and functions an option may carry (loggers,
  contexts, protocols) are identities, with \<open>None\<close> for nil; durations are in nanoseconds.
\<close>

section \<open>Configuration\<close>

record config =
  cfg_logger :: "nat option"
  cfg_maxBodySize :: int
  cfg_maxHeaderBytes :: int
  cfg_disallowUnknown :: bool
  cfg_readHeaderTimeout :: int
  cfg_readTimeout :: int
  cfg_writeTimeout :: int
  cfg_idleTimeout :: int
  cfg_shutdownTimeout :: int
  cfg_optionErrors :: "goerr list"
  cfg_trustedProxies :: "ip_prefix list"
  cfg_baseContext :: "nat option"
  cfg_connContext :: "nat option"
  cfg_protocols :: "nat option"
  cfg_serverErrorLog :: "nat option"
  cfg_healthCheckTimeout :: int

abbreviation sec :: int where "sec \<equiv> 1000000000"

text \<open>\<open>http.DefaultMaxHeaderBytes\<close> is 1 MiB; \<open>slog.Default()\<close> is the logger 0.\<close>

definition defaultConfig :: config where
  "defaultConfig = \<lparr>cfg_logger = Some 0, cfg_maxBodySize = 16 * 2 ^ 20, cfg_maxHeaderBytes = 2 ^ 20,
     cfg_disallowUnknown = False, cfg_readHeaderTimeout = 5 * sec, cfg_readTimeout = 15 * sec,
     cfg_writeTimeout = 30 * sec, cfg_idleTimeout = 60 * sec, cfg_shutdownTimeout = 10 * sec,
     cfg_optionErrors = [], cfg_trustedProxies = [], cfg_baseContext = None, cfg_connContext = None,
     cfg_protocols = None, cfg_serverErrorLog = None, cfg_healthCheckTimeout = 2 * sec\<rparr>"

definition invalidOption :: "string \<Rightarrow> string \<Rightarrow> config \<Rightarrow> config" where
  "invalidOption name message c =
     c\<lparr>cfg_optionErrors := cfg_optionErrors c @ [Opaque (name @ '': '' @ message)]\<rparr>"

definition validate_config :: "config \<Rightarrow> goerr option" where
  "validate_config c = errors_Join (map Some (cfg_optionErrors c @
     (if cfg_readTimeout c > 0 \<and> cfg_readHeaderTimeout c > cfg_readTimeout c
      then [Opaque ''WithReadHeaderTimeout: must not exceed WithReadTimeout''] else [])))"

section \<open>Options\<close>

text \<open>\<open>Prefix.Masked\<close>: the address with the bits after the prefix cleared, and no zone.\<close>

definition Masked :: "ip_prefix \<Rightarrow> ip_prefix" where
  "Masked p = p\<lparr>pf_addr := (case pf_addr p of
     IPv4 w \<Rightarrow> IPv4 (push_bit (32 - pf_bits p) (drop_bit (32 - pf_bits p) w))
   | IPv6 w zone \<Rightarrow> IPv6 (push_bit (128 - pf_bits p) (drop_bit (128 - pf_bits p) w)) [])\<rparr>"

definition BitLen :: "ip_addr \<Rightarrow> nat" where
  "BitLen a = (case a of IPv4 _ \<Rightarrow> 32 | IPv6 _ _ \<Rightarrow> 128)"

text \<open>\<open>netip.PrefixFrom\<close> drops a zone.\<close>

definition PrefixFrom :: "ip_addr \<Rightarrow> nat \<Rightarrow> ip_prefix" where
  "PrefixFrom a n = \<lparr>pf_addr = (case a of IPv4 w \<Rightarrow> IPv4 w | IPv6 w zone \<Rightarrow> IPv6 w []), pf_bits = n\<rparr>"

definition trusted_proxy :: "addr_lib \<Rightarrow> (string \<Rightarrow> ip_prefix option) \<Rightarrow> string \<Rightarrow> config \<Rightarrow> config" where
  "trusted_proxy P parsePrefix v c =
    (let v = trim_space v
     in case parsePrefix v of
          Some p \<Rightarrow> c\<lparr>cfg_trustedProxies := cfg_trustedProxies c @ [Masked p]\<rparr>
        | None \<Rightarrow>
            (case parseAddr P v of
               None \<Rightarrow> invalidOption ''WithTrustedProxies'' (''invalid IP or CIDR '' @ v) c
             | Some a \<Rightarrow> c\<lparr>cfg_trustedProxies := cfg_trustedProxies c @ [PrefixFrom (Unmap a) (BitLen (Unmap a))]\<rparr>))"

datatype app_option =
    WithAppLogger "nat option"
  | WithMaxBodySize int
  | WithMaxHeaderBytes int
  | WithTrustedProxies "string list"
  | WithBaseContext "nat option"
  | WithConnContext "nat option"
  | WithHTTPProtocols "nat option"
  | WithServerErrorLog "nat option"
  | WithHealthCheckTimeout int
  | WithDisallowUnknownJSONFields bool
  | WithReadHeaderTimeout int
  | WithReadTimeout int
  | WithWriteTimeout int
  | WithIdleTimeout int
  | WithShutdownTimeout int

fun apply_app_option ::
  "addr_lib \<Rightarrow> (string \<Rightarrow> ip_prefix option) \<Rightarrow> app_option \<Rightarrow> config \<Rightarrow> config" where
  "apply_app_option P pp (WithAppLogger l) c =
     (if l = None then invalidOption ''WithLogger'' ''logger cannot be nil'' c else c\<lparr>cfg_logger := l\<rparr>)"
| "apply_app_option P pp (WithMaxBodySize n) c =
     (if n \<le> 0 then invalidOption ''WithMaxBodySize'' ''bytes must be greater than zero'' c
      else c\<lparr>cfg_maxBodySize := n\<rparr>)"
| "apply_app_option P pp (WithMaxHeaderBytes n) c =
     (if n \<le> 0 then invalidOption ''WithMaxHeaderBytes'' ''bytes must be greater than zero'' c
      else c\<lparr>cfg_maxHeaderBytes := n\<rparr>)"
| "apply_app_option P pp (WithTrustedProxies vs) c = fold (trusted_proxy P pp) vs c"
| "apply_app_option P pp (WithBaseContext f) c =
     (if f = None then invalidOption ''WithBaseContext'' ''function cannot be nil'' c else c\<lparr>cfg_baseContext := f\<rparr>)"
| "apply_app_option P pp (WithConnContext f) c =
     (if f = None then invalidOption ''WithConnContext'' ''function cannot be nil'' c else c\<lparr>cfg_connContext := f\<rparr>)"
| "apply_app_option P pp (WithHTTPProtocols p) c =
     (if p = None then invalidOption ''WithHTTPProtocols'' ''protocols cannot be nil'' c else c\<lparr>cfg_protocols := p\<rparr>)"
| "apply_app_option P pp (WithServerErrorLog l) c =
     (if l = None then invalidOption ''WithServerErrorLog'' ''logger cannot be nil'' c else c\<lparr>cfg_serverErrorLog := l\<rparr>)"
| "apply_app_option P pp (WithHealthCheckTimeout t) c =
     (if t \<le> 0 then invalidOption ''WithHealthCheckTimeout'' ''timeout must be greater than zero'' c
      else c\<lparr>cfg_healthCheckTimeout := t\<rparr>)"
| "apply_app_option P pp (WithDisallowUnknownJSONFields b) c = c\<lparr>cfg_disallowUnknown := b\<rparr>"
| "apply_app_option P pp (WithReadHeaderTimeout t) c =
     (if t < 0 then invalidOption ''WithReadHeaderTimeout'' ''timeout cannot be negative'' c
      else c\<lparr>cfg_readHeaderTimeout := t\<rparr>)"
| "apply_app_option P pp (WithReadTimeout t) c =
     (if t < 0 then invalidOption ''WithReadTimeout'' ''timeout cannot be negative'' c else c\<lparr>cfg_readTimeout := t\<rparr>)"
| "apply_app_option P pp (WithWriteTimeout t) c =
     (if t < 0 then invalidOption ''WithWriteTimeout'' ''timeout cannot be negative'' c else c\<lparr>cfg_writeTimeout := t\<rparr>)"
| "apply_app_option P pp (WithIdleTimeout t) c =
     (if t < 0 then invalidOption ''WithIdleTimeout'' ''timeout cannot be negative'' c else c\<lparr>cfg_idleTimeout := t\<rparr>)"
| "apply_app_option P pp (WithShutdownTimeout t) c =
     (if t \<le> 0 then invalidOption ''WithShutdownTimeout'' ''timeout must be greater than zero'' c
      else c\<lparr>cfg_shutdownTimeout := t\<rparr>)"

text \<open>The options of \<open>New\<close>, in order; a nil option is \<open>None\<close>.\<close>

fun new_config ::
  "addr_lib \<Rightarrow> (string \<Rightarrow> ip_prefix option) \<Rightarrow> app_option option list \<Rightarrow> config \<Rightarrow> config" where
  "new_config P pp [] c = c"
| "new_config P pp (opt # opts) c = new_config P pp opts (case opt of
     Some opt \<Rightarrow> apply_app_option P pp opt c
   | None \<Rightarrow> invalidOption ''Option'' ''option cannot be nil'' c)"

section \<open>Soundness of the options\<close>

text \<open>An option the documentation allows.\<close>

fun option_ok :: "addr_lib \<Rightarrow> (string \<Rightarrow> ip_prefix option) \<Rightarrow> app_option \<Rightarrow> bool" where
  "option_ok P pp (WithAppLogger l) = (l \<noteq> None)"
| "option_ok P pp (WithMaxBodySize n) = (n > 0)"
| "option_ok P pp (WithMaxHeaderBytes n) = (n > 0)"
| "option_ok P pp (WithTrustedProxies vs) =
     (\<forall>v \<in> set vs. pp (trim_space v) \<noteq> None \<or> parseAddr P (trim_space v) \<noteq> None)"
| "option_ok P pp (WithBaseContext f) = (f \<noteq> None)"
| "option_ok P pp (WithConnContext f) = (f \<noteq> None)"
| "option_ok P pp (WithHTTPProtocols p) = (p \<noteq> None)"
| "option_ok P pp (WithServerErrorLog l) = (l \<noteq> None)"
| "option_ok P pp (WithHealthCheckTimeout t) = (t > 0)"
| "option_ok P pp (WithDisallowUnknownJSONFields b) = True"
| "option_ok P pp (WithReadHeaderTimeout t) = (t \<ge> 0)"
| "option_ok P pp (WithReadTimeout t) = (t \<ge> 0)"
| "option_ok P pp (WithWriteTimeout t) = (t \<ge> 0)"
| "option_ok P pp (WithIdleTimeout t) = (t \<ge> 0)"
| "option_ok P pp (WithShutdownTimeout t) = (t > 0)"

definition prefix_ok :: "ip_prefix \<Rightarrow> bool" where
  "prefix_ok p \<longleftrightarrow> (case pf_addr p of
     IPv4 w \<Rightarrow> take_bit (32 - pf_bits p) w = 0
   | IPv6 w zone \<Rightarrow> zone = [] \<and> take_bit (128 - pf_bits p) w = 0)"

definition config_ok :: "config \<Rightarrow> bool" where
  "config_ok c \<longleftrightarrow> cfg_logger c \<noteq> None \<and> cfg_maxBodySize c > 0 \<and> cfg_maxHeaderBytes c > 0 \<and>
     cfg_readHeaderTimeout c \<ge> 0 \<and> cfg_readTimeout c \<ge> 0 \<and> cfg_writeTimeout c \<ge> 0 \<and> cfg_idleTimeout c \<ge> 0 \<and>
     cfg_shutdownTimeout c > 0 \<and> cfg_healthCheckTimeout c > 0 \<and> (\<forall>p \<in> set (cfg_trustedProxies c). prefix_ok p)"

lemma invalidOption_ok [simp]: "config_ok (invalidOption name message c) = config_ok c"
  by (simp add: config_ok_def invalidOption_def)

lemma take_push_drop [simp]: "take_bit n (push_bit n (drop_bit n (w :: 'a :: len word))) = 0"
  by (simp add: take_bit_push_bit)

lemma Masked_ok: "prefix_ok (Masked p)"
  by (simp add: prefix_ok_def Masked_def split: ip_addr.split)

lemma PrefixFrom_ok: "prefix_ok (PrefixFrom a (BitLen a))"
  by (simp add: prefix_ok_def PrefixFrom_def BitLen_def split: ip_addr.split)

lemma trusted_proxy_ok: "config_ok c \<Longrightarrow> config_ok (trusted_proxy P pp v c)"
  by (auto simp: trusted_proxy_def Let_def split: option.split)
    (auto simp: config_ok_def Masked_ok PrefixFrom_ok)

lemma trusted_proxies_ok: "config_ok c \<Longrightarrow> config_ok (fold (trusted_proxy P pp) vs c)"
  by (induction vs arbitrary: c) (simp_all add: trusted_proxy_ok)

lemma apply_app_option_ok: "config_ok c \<Longrightarrow> config_ok (apply_app_option P pp opt c)"
proof (cases opt)
  case (WithTrustedProxies vs)
  then show "config_ok c \<Longrightarrow> ?thesis" by (simp add: trusted_proxies_ok)
qed (simp_all add: config_ok_def invalidOption_def)

lemma new_config_ok: "config_ok c \<Longrightarrow> config_ok (new_config P pp opts c)"
proof (induction opts arbitrary: c)
  case (Cons opt opts)
  then show ?case by (cases opt) (simp_all add: apply_app_option_ok)
qed simp

lemma trusted_proxies_errors:
  "cfg_optionErrors (fold (trusted_proxy P pp) vs c) = [] \<longleftrightarrow> cfg_optionErrors c = [] \<and>
     (\<forall>v \<in> set vs. pp (trim_space v) \<noteq> None \<or> parseAddr P (trim_space v) \<noteq> None)"
proof (induction vs arbitrary: c)
  case (Cons v vs)
  have "cfg_optionErrors (trusted_proxy P pp v c) = [] \<longleftrightarrow> cfg_optionErrors c = [] \<and>
      (pp (trim_space v) \<noteq> None \<or> parseAddr P (trim_space v) \<noteq> None)"
    by (simp add: trusted_proxy_def invalidOption_def Let_def split: option.split)
  with Cons show ?case by auto
qed simp

lemma apply_app_option_errors:
  "cfg_optionErrors (apply_app_option P pp opt c) = [] \<longleftrightarrow> cfg_optionErrors c = [] \<and> option_ok P pp opt"
proof (cases opt)
  case (WithTrustedProxies vs)
  then show ?thesis by (simp add: trusted_proxies_errors)
qed (auto simp: invalidOption_def)

lemma new_config_errors:
  "cfg_optionErrors (new_config P pp opts c) = [] \<longleftrightarrow> cfg_optionErrors c = [] \<and>
     (\<forall>opt \<in> set opts. case opt of None \<Rightarrow> False | Some opt \<Rightarrow> option_ok P pp opt)"
proof (induction opts arbitrary: c)
  case (Cons opt opts)
  then show ?case
    by (cases opt) (auto simp: apply_app_option_errors invalidOption_def)
qed simp

lemma validate_config_None:
  "validate_config c = None \<longleftrightarrow> cfg_optionErrors c = [] \<and>
     \<not> (cfg_readTimeout c > 0 \<and> cfg_readHeaderTimeout c > cfg_readTimeout c)"
proof -
  have "set (map Some xs) \<subseteq> {None} \<longleftrightarrow> xs = []" for xs :: "goerr list" by (cases xs) auto
  then show ?thesis by (simp add: validate_config_def errors_Join_None del: set_map list.set_map)
qed

section \<open>Properties\<close>

text \<open>An application is accepted exactly when every option is one the documentation allows and the header
  timeout fits the read timeout; and then its limits and timeouts are usable and its trusted
  proxies are masked prefixes, whatever the order and number of the options.\<close>

theorem options_sound:
  "let c = new_config P pp opts defaultConfig in config_ok c \<and>
     (validate_config c = None \<longleftrightarrow>
       (\<forall>opt \<in> set opts. case opt of None \<Rightarrow> False | Some opt \<Rightarrow> option_ok P pp opt) \<and>
       (cfg_readTimeout c \<le> 0 \<or> cfg_readHeaderTimeout c \<le> cfg_readTimeout c))"
proof -
  have "config_ok defaultConfig" by (simp add: config_ok_def defaultConfig_def)
  moreover have "cfg_optionErrors defaultConfig = []" by (simp add: defaultConfig_def)
  ultimately show ?thesis
    by (auto simp: new_config_ok validate_config_None new_config_errors Let_def)
qed

theorem options_sound_witness:
  "validate_config (new_config demo_addr_lib (\<lambda>s. None) [Some (WithReadTimeout 1)] defaultConfig) \<noteq> None"
  using options_sound [of demo_addr_lib "\<lambda>s. None" "[Some (WithReadTimeout 1)]"]
  by (simp add: defaultConfig_def Let_def)

text \<open>
  A prefix given in the IPv4-mapped form, such as \<open>::ffff:10.0.0.0/104\<close>, is accepted, but it never
  matches: the address is unmapped before the comparison and the prefix is not.
\<close>

lemma mapped_prefix_never_trusts:
  assumes p: "pf_addr p = IPv6 w zone" "drop_bit 32 w = 0xFFFF" "96 \<le> pf_bits p" "pf_bits p \<le> 128"
  shows "\<not> isTrustedProxy [p] a"
proof -
  have *: "drop_bit 32 x = 0xFFFF" if "drop_bit (128 - pf_bits p) w = drop_bit (128 - pf_bits p) x" for x :: "128 word"
  proof -
    have "drop_bit (pf_bits p - 96) (drop_bit (128 - pf_bits p) w) = drop_bit (pf_bits p - 96) (drop_bit (128 - pf_bits p) x)"
      by (simp only: that)
    then have "drop_bit 32 w = drop_bit 32 x" using p(3,4) by (simp add: drop_bit_drop_bit)
    with p(2) show ?thesis by simp
  qed
  show ?thesis
  proof (cases a)
    case (IPv4 v)
    with p(1) show ?thesis by (simp add: isTrustedProxy_def prefix_contains_def Unmap_def)
  next
    case (IPv6 x z)
    show ?thesis
    proof (cases "drop_bit 32 x = 0xFFFF")
      case True
      with IPv6 p(1) show ?thesis by (simp add: isTrustedProxy_def prefix_contains_def Unmap_def)
    next
      case False
      with * [of x] have "drop_bit (128 - pf_bits p) w \<noteq> drop_bit (128 - pf_bits p) x" by blast
      with False IPv6 p(1) show ?thesis by (simp add: isTrustedProxy_def prefix_contains_def Unmap_def)
    qed
  qed
qed

end
