(* ===== verification/Context.thy ===== *)
theory Context
  imports Response Routing
begin

text \<open>
  The request context of \<open>context.go\<close> and the handlers and middleware of \<open>handler.go\<close>. A handler is
  a function on the context that gives the new context and how it ended, so the changes made before
  a panic are kept. The context holds the response writer of \<open>Response\<close>; what the application it
  points to answers (is it running?) is the field \<open>cx_running\<close>.
\<close>

section \<open>State\<close>

text \<open>What routing and the middleware look at; \<open>req_url\<close> is the whole \<open>url.URL\<close>.\<close>

record request =
  req_method :: string
  req_host :: string
  req_url :: string
  req_header :: header
  req_tls :: bool

text \<open>
  A value key is the pointer of a \<open>ValueKey\<close> or a string; a stored value carries its dynamic type.
  The values of the framework are strings and the request state of package \<open>auth\<close>.
\<close>

datatype value_key = PointerKey nat | StringKey string

datatype go_data = TextData string | IdentityData string "string list" bool

record go_value =
  val_type :: nat
  val_data :: go_data

text \<open>
  An after-response hook sees the response and the response error. The handler \<open>http.ServeMux\<close>
  answers with when no route is to run (not found, wrong method, redirect) is a list of calls on
  the writer it gets.
\<close>

type_synonym after_hook = "goerr option \<Rightarrow> response \<Rightarrow> response \<times> unit outcome"

datatype writer_call = SetHeader string string | CallWriteHeader int | CallWrite string

datatype mux_handler = RouteHandler string | OwnHandler "writer_call list"

record muxMatch =
  mm_found :: "(mux_handler \<times> string) option"
  mm_method :: string
  mm_host :: string
  mm_url :: string

record ctx =
  cx_request :: request
  cx_response :: response
  cx_route :: "route option"
  cx_routeErr :: "goerr option"
  cx_responseErr :: "goerr option"
  cx_match :: muxMatch
  cx_logger :: "(string \<times> string) list"
  cx_afterHooks :: "after_hook list"
  cx_finished :: bool
  cx_values :: "value_key \<Rightarrow> go_value option"
  cx_running :: bool

type_synonym 'a action = "ctx \<Rightarrow> ctx \<times> 'a outcome"
type_synonym handler = "goerr option action"
type_synonym middleware = "handler \<Rightarrow> handler"

definition newContext :: "bool \<Rightarrow> response \<Rightarrow> request \<Rightarrow> ctx" where
  "newContext running w rq = \<lparr>cx_request = rq, cx_response = w, cx_route = None, cx_routeErr = None,
     cx_responseErr = None, cx_match = \<lparr>mm_found = None, mm_method = [], mm_host = [], mm_url = []\<rparr>,
     cx_logger = [], cx_afterHooks = [], cx_finished = False, cx_values = (\<lambda>_. None), cx_running = running\<rparr>"

section \<open>Values\<close>

definition Set_value :: "string \<Rightarrow> go_value \<Rightarrow> ctx \<Rightarrow> ctx" where
  "Set_value key v c = c\<lparr>cx_values := (cx_values c)(StringKey key \<mapsto> v)\<rparr>"

definition Get_value :: "string \<Rightarrow> ctx \<Rightarrow> go_value option" where
  "Get_value key c = cx_values c (StringKey key)"

text \<open>A typed key is its pointer with the type it was created at.\<close>

definition ValueKey_Set :: "nat \<times> nat \<Rightarrow> go_data \<Rightarrow> ctx \<Rightarrow> ctx" where
  "ValueKey_Set key d c =
     c\<lparr>cx_values := (cx_values c)(PointerKey (fst key) \<mapsto> \<lparr>val_type = snd key, val_data = d\<rparr>)\<rparr>"

definition requestValue :: "(nat \<times> nat) option \<Rightarrow> ctx \<Rightarrow> go_data option" where
  "requestValue key c = (case key of None \<Rightarrow> None
     | Some (p, t) \<Rightarrow> (case cx_values c (PointerKey p) of None \<Rightarrow> None
         | Some v \<Rightarrow> if val_type v = t then Some (val_data v) else None))"

definition SetLogger :: "(string \<times> string) list option \<Rightarrow> ctx \<Rightarrow> ctx" where
  "SetLogger l c = (case l of None \<Rightarrow> c | Some l \<Rightarrow> c\<lparr>cx_logger := l\<rparr>)"

section \<open>Hooks\<close>

definition BeforeCommit :: "commit_hook option \<Rightarrow> ctx \<Rightarrow> ctx \<times> goerr option" where
  "BeforeCommit hook c = (case hook of
     None \<Rightarrow> (c, Some (Opaque ''vial: before-commit hook cannot be nil''))
   | Some hook \<Rightarrow> (case beforeCommitHook hook (cx_response c) of (r, ok) \<Rightarrow>
       (c\<lparr>cx_response := r\<rparr>, if ok then None else Some (Opaque ''vial: response already committed''))))"

definition AfterResponse :: "after_hook option \<Rightarrow> ctx \<Rightarrow> ctx \<times> goerr option" where
  "AfterResponse hook c = (case hook of
     None \<Rightarrow> (c, Some (Opaque ''vial: after-response hook cannot be nil''))
   | Some hook \<Rightarrow>
       if cx_finished c then (c, Some (Opaque ''vial: response processing already finished''))
       else (c\<lparr>cx_afterHooks := cx_afterHooks c @ [hook]\<rparr>, None))"

text \<open>A panic of a hook is recovered and the next one runs.\<close>

fun run_after :: "after_hook list \<Rightarrow> goerr option \<Rightarrow> response \<Rightarrow> response" where
  "run_after [] err r = r"
| "run_after (hook # hooks) err r = run_after hooks err (fst (hook err r))"

definition finishResponse :: "ctx \<Rightarrow> ctx" where
  "finishResponse c = c\<lparr>cx_finished := True, cx_afterHooks := [],
     cx_response := run_after (cx_afterHooks c) (cx_responseErr c) (cx_response c)\<rparr>"

section \<open>Responses\<close>

definition on_response :: "(response \<Rightarrow> response \<times> 'a outcome) \<Rightarrow> 'a action" where
  "on_response f c = (case f (cx_response c) of (r, x) \<Rightarrow> (c\<lparr>cx_response := r\<rparr>, x))"

definition edit_header :: "(header \<Rightarrow> header) \<Rightarrow> ctx \<Rightarrow> ctx" where
  "edit_header f c = c\<lparr>cx_response := (cx_response c)\<lparr>rs_header := f (rs_header (cx_response c))\<rparr>\<rparr>"

definition already_committed :: goerr where
  "already_committed = Opaque ''vial: response already committed''"

text \<open>A body with its content type and status; \<open>uw\<close> is what the underlying writer answers.\<close>

definition send_body :: "(string \<Rightarrow> nat \<times> goerr option) \<Rightarrow> string \<Rightarrow> int \<Rightarrow> string \<Rightarrow> handler" where
  "send_body uw ctype status body c =
    (case on_response (WriteHeader status) (edit_header (header_set ''Content-Type'' ctype) c) of
       (c, Panic msg) \<Rightarrow> (c, Panic msg)
     | (c, Return u) \<Rightarrow> (case on_response (response_Write uw body) c of
           (c, Panic msg) \<Rightarrow> (c, Panic msg)
         | (c, Return (n, err)) \<Rightarrow> (c, Return err)))"

text \<open>\<open>payload\<close> is the answer of \<open>json.Marshal\<close>.\<close>

definition ctx_JSON :: "(string \<Rightarrow> nat \<times> goerr option) \<Rightarrow> int \<Rightarrow> string result \<Rightarrow> handler" where
  "ctx_JSON uw status payload c =
    (if Committed (cx_response c) then (c, Return (Some already_committed))
     else case payload of
       Inl err \<Rightarrow> (c, Return (Some (Wrapf ''encode JSON response: '' err)))
     | Inr payload \<Rightarrow> send_body uw ''application/json; charset=utf-8'' status (payload @ [CHR 0x0A]) c)"

definition ctx_Text :: "(string \<Rightarrow> nat \<times> goerr option) \<Rightarrow> int \<Rightarrow> string \<Rightarrow> handler" where
  "ctx_Text uw status v c =
    (if Committed (cx_response c) then (c, Return (Some already_committed))
     else send_body uw ''text/plain; charset=utf-8'' status v c)"

definition NoContent :: "int \<Rightarrow> handler" where
  "NoContent status c =
    (if Committed (cx_response c) then (c, Return (Some already_committed))
     else case on_response (WriteHeader status) c of
         (c, Panic msg) \<Rightarrow> (c, Panic msg)
       | (c, Return u) \<Rightarrow> (c, Return None))"

section \<open>Chains\<close>

text \<open>The loops run from the last middleware to the first.\<close>

fun chain :: "'h \<Rightarrow> ('h \<Rightarrow> 'h) list \<Rightarrow> 'h" where
  "chain final [] = final"
| "chain final (m # ms) = m (chain final ms)"

fun chainHTTP :: "'h \<Rightarrow> ('h \<Rightarrow> 'h option) list \<Rightarrow> 'h option" where
  "chainHTTP final [] = Some final"
| "chainHTTP final (m # ms) = (case chainHTTP final ms of None \<Rightarrow> None | Some h \<Rightarrow> m h)"

section \<open>Error rendering\<close>

text \<open>
  \<open>renderHTTPError\<close>; \<open>enc\<close> is \<open>json.Encoder\<close> on the body, with its final newline, and its answer to
  a failed write is ignored.
\<close>

definition renderHTTPError ::
  "(string \<Rightarrow> nat \<times> goerr option) \<Rightarrow> (error_body \<Rightarrow> string) \<Rightarrow> bool \<Rightarrow> goerr \<Rightarrow> unit action" where
  "renderHTTPError uw enc problem err c =
    (if Committed (cx_response c) then (c, Return ())
     else case error_body_for problem err of (ctype, status, body) \<Rightarrow>
       (case send_body uw ctype status (enc body) c of
          (c, Panic msg) \<Rightarrow> (c, Panic msg)
        | (c, Return x) \<Rightarrow> (c, Return ())))"

definition defaultErrorHandler ::
  "(string \<Rightarrow> nat \<times> goerr option) \<Rightarrow> (error_body \<Rightarrow> string) \<Rightarrow> goerr \<Rightarrow> unit action" where
  "defaultErrorHandler uw enc err = renderHTTPError uw enc False err"

text \<open>
  The loop deletes each key under its canonical form, so a key that was stored in another form stays.
\<close>

definition del_all :: "header \<Rightarrow> header" where
  "del_all h k = (if canonical_key k = k then [] else h k)"

definition renderErrorSafely ::
  "(string \<Rightarrow> nat \<times> goerr option) \<Rightarrow> (goerr \<Rightarrow> unit action) \<Rightarrow> goerr \<Rightarrow> unit action" where
  "renderErrorSafely uw eh err c = (case eh err c of
     (c, Return u) \<Rightarrow> (c, Return ())
   | (c, Panic msg) \<Rightarrow>
       if Committed (cx_response c) then (c, Return ())
       else (case send_body uw ''text/plain; charset=utf-8'' 500 (''Internal Server Error'' @ [CHR 0x0A])
             (edit_header (\<lambda>h. header_set ''X-Content-Type-Options'' ''nosniff'' (del_all h)) c) of
           (c, Panic msg) \<Rightarrow> (c, Panic msg)
         | (c, Return x) \<Rightarrow> (c, Return ())))"

section \<open>What the operations keep\<close>

text \<open>
  The fields of a context and of its writer are private to the framework, so between two moments of
  a request they change only through the operations above. \<open>ctx_step\<close> is what all of them keep; a
  handler whose every run keeps it is \<open>framed\<close>. \<open>ok\<close> is a property of the routing cache.
\<close>

definition resp_step :: "response \<Rightarrow> response \<Rightarrow> bool" where
  "resp_step r r' \<longleftrightarrow> (resp_inv r \<longrightarrow> resp_inv r') \<and>
     (rs_wroteHeader r \<longrightarrow> rs_wroteHeader r' \<and> rs_status r' = rs_status r) \<and>
     prefix (rs_wire r) (rs_wire r') \<and> (rs_hijacked r \<longrightarrow> rs_hijacked r')"

definition ctx_step :: "(muxMatch \<Rightarrow> bool) \<Rightarrow> ctx \<Rightarrow> ctx \<Rightarrow> bool" where
  "ctx_step ok c c' \<longleftrightarrow> resp_step (cx_response c) (cx_response c') \<and> cx_finished c' = cx_finished c \<and>
     cx_responseErr c' = cx_responseErr c \<and> cx_running c' = cx_running c \<and>
     prefix (cx_afterHooks c) (cx_afterHooks c') \<and> (ok (cx_match c) \<longrightarrow> ok (cx_match c'))"

definition framed :: "(muxMatch \<Rightarrow> bool) \<Rightarrow> 'a action \<Rightarrow> bool" where
  "framed ok h \<longleftrightarrow> (\<forall>c. ctx_step ok c (fst (h c)))"

definition framed_middleware :: "(muxMatch \<Rightarrow> bool) \<Rightarrow> middleware \<Rightarrow> bool" where
  "framed_middleware ok m \<longleftrightarrow> (\<forall>h. framed ok h \<longrightarrow> framed ok (m h))"

named_theorems frame_intros "what keeps the private state of a context"

lemma resp_step_refl [simp]: "resp_step r r"
  by (simp add: resp_step_def)

lemma resp_step_trans: "resp_step r s \<Longrightarrow> resp_step s t \<Longrightarrow> resp_step r t"
  unfolding resp_step_def by (metis prefix_order.trans)

lemma ctx_step_refl [simp]: "ctx_step ok c c"
  by (simp add: ctx_step_def)

lemma ctx_step_trans [trans]: "ctx_step ok c d \<Longrightarrow> ctx_step ok d e \<Longrightarrow> ctx_step ok c e"
  unfolding ctx_step_def by (metis prefix_order.trans resp_step_trans)

lemma ctx_step_fields [simp]:
  "ctx_step ok c (d\<lparr>cx_request := rq\<rparr>) = ctx_step ok c d"
  "ctx_step ok c (d\<lparr>cx_route := rt\<rparr>) = ctx_step ok c d"
  "ctx_step ok c (d\<lparr>cx_routeErr := re\<rparr>) = ctx_step ok c d"
  "ctx_step ok c (d\<lparr>cx_values := vs\<rparr>) = ctx_step ok c d"
  "ctx_step ok c (d\<lparr>cx_logger := l\<rparr>) = ctx_step ok c d"
  by (simp_all add: ctx_step_def)

lemma ctx_step_response:
  "resp_step (cx_response c) r \<Longrightarrow> ctx_step ok c (c\<lparr>cx_response := r\<rparr>)"
  by (simp add: ctx_step_def)

lemma resp_step_header: "resp_step r (r\<lparr>rs_header := h\<rparr>)"
  by (simp add: resp_step_def)

lemma ctx_step_edit [frame_intros]: "ctx_step ok c (edit_header f c)"
  unfolding edit_header_def by (rule ctx_step_response) (rule resp_step_header)

lemma WriteHeader_step: 
  assumes "100 \<le> status" "status \<le> 999"
  shows "resp_step r (fst (WriteHeader status r))"
proof -
  have "prefix (rs_wire r) (rs_wire (fst (WriteHeader status r))) \<and>
      (rs_hijacked r \<longrightarrow> rs_hijacked (fst (WriteHeader status r)))"
    by (auto simp: WriteHeader_def underlying_WriteHeader_def runBeforeCommitHooks_def split: prod.split outcome.split option.split)
  moreover have "rs_wroteHeader r \<Longrightarrow> fst (WriteHeader status r) = r" by (simp add: WriteHeader_def)
  ultimately show ?thesis unfolding resp_step_def using WriteHeader_inv [OF _ assms] by auto
qed

lemma ensure_header_step: "resp_step r (fst (ensure_header r))"
  by (simp add: ensure_header_def WriteHeader_step)

lemma Write_step: "resp_step r (fst (response_Write uw d r))"
proof -
  obtain r' p where e: "ensure_header r = (r', p)" by fastforce
  then have s: "resp_step r r'" using ensure_header_step [of r] by simp
  have "resp_inv r \<longrightarrow> resp_inv (fst (response_Write uw d r))" using response_Write_inv by blast
  with s show ?thesis
    by (cases p) (auto simp: response_Write_def e resp_step_def split: prod.splits)
qed

lemma framed_on_response:
  "(\<And>r. resp_step r (fst (f r))) \<Longrightarrow> ctx_step ok c (fst (on_response f c))"
  by (simp add: on_response_def split_beta ctx_step_response)

lemma on_response_step:
  "on_response f c = (c', x) \<Longrightarrow> (\<And>r. resp_step r (fst (f r))) \<Longrightarrow> ctx_step ok c c'"
  using framed_on_response [of f ok c] by simp

lemma send_body_step [frame_intros]:
  assumes "100 \<le> status" "status \<le> 999"
  shows "ctx_step ok c (fst (send_body uw ctype status body c))"
proof -
  obtain c1 x where 1: "on_response (WriteHeader status) (edit_header (header_set ''Content-Type'' ctype) c) = (c1, x)"
    by fastforce
  have "ctx_step ok c (edit_header (header_set ''Content-Type'' ctype) c)" by (rule ctx_step_edit)
  also have "ctx_step ok \<dots> c1" by (rule on_response_step [OF 1]) (rule WriteHeader_step [OF assms])
  finally have c1: "ctx_step ok c c1" .
  obtain c2 y where 2: "on_response (response_Write uw body) c1 = (c2, y)" by fastforce
  have "ctx_step ok c1 c2" by (rule on_response_step [OF 2]) (rule Write_step)
  with c1 have "ctx_step ok c c2" by (rule ctx_step_trans)
  with c1 show ?thesis by (auto simp: send_body_def 1 2 split: outcome.split prod.split)
qed

text \<open>When it does not panic, a body commits the response.\<close>

lemma send_body_commits:
  assumes "send_body uw ctype status body c = (c', Return x)" "200 \<le> status" "status \<le> 999" "resp_inv (cx_response c)"
  shows "Committed (cx_response c')"
proof -
  let ?c0 = "edit_header (header_set ''Content-Type'' ctype) c"
  obtain r1 z where 1: "WriteHeader status (cx_response ?c0) = (r1, z)" by fastforce
  with assms(1) obtain u where z: "z = Return u"
    by (cases z) (auto simp: send_body_def on_response_def)
  have "\<not> rs_committing (cx_response ?c0)" using assms(4) by (simp add: edit_header_def resp_inv_def)
  then have "rs_wroteHeader r1" using WriteHeader_commits 1 z assms(2) by fastforce
  then have "rs_wroteHeader (fst (response_Write uw body r1))" using Write_step [of r1 uw body] by (simp add: resp_step_def)
  moreover have "cx_response c' = fst (response_Write uw body r1)"
    using assms(1) z by (auto simp: send_body_def on_response_def 1 split: prod.splits outcome.splits)
  ultimately show ?thesis by (simp add: Committed_def)
qed

lemma NoContent_step [frame_intros]: "100 \<le> status \<Longrightarrow> status \<le> 999 \<Longrightarrow> framed ok (NoContent status)"
  unfolding framed_def
proof
  fix c assume "100 \<le> status" "status \<le> 999"
  then have "ctx_step ok c (fst (on_response (WriteHeader status) c))"
    by (intro framed_on_response WriteHeader_step)
  then show "ctx_step ok c (fst (NoContent status c))"
    by (auto simp: NoContent_def split: prod.splits outcome.splits)
qed

lemma JSON_framed [frame_intros]: "100 \<le> status \<Longrightarrow> status \<le> 999 \<Longrightarrow> framed ok (ctx_JSON uw status payload)"
  by (simp add: framed_def ctx_JSON_def send_body_step split: sum.split)

lemma Text_framed [frame_intros]: "100 \<le> status \<Longrightarrow> status \<le> 999 \<Longrightarrow> framed ok (ctx_Text uw status v)"
  by (simp add: framed_def ctx_Text_def send_body_step)

lemma AfterResponse_step [frame_intros]: "ctx_step ok c (fst (AfterResponse hook c))"
  by (simp add: AfterResponse_def ctx_step_def split: option.split)

lemma BeforeCommit_step [frame_intros]: "ctx_step ok c (fst (BeforeCommit hook c))"
proof (cases hook)
  case (Some f)
  have "resp_step (cx_response c) (fst (beforeCommitHook f (cx_response c)))"
    by (simp add: beforeCommitHook_def resp_step_def)
  with Some show ?thesis by (auto simp: BeforeCommit_def split: prod.split intro!: ctx_step_response)
qed (simp add: BeforeCommit_def)

lemma framed_pre [frame_intros]:
  "framed ok h \<Longrightarrow> (\<And>c. ctx_step ok c (f c)) \<Longrightarrow> framed ok (\<lambda>c. h (f c))"
  unfolding framed_def by (blast intro: ctx_step_trans)

lemma ValueKey_Set_step [frame_intros]: "ctx_step ok c (ValueKey_Set k d c)"
  by (simp add: ValueKey_Set_def)

lemma SetLogger_step [frame_intros]: "ctx_step ok c (SetLogger l c)"
  by (simp add: SetLogger_def split: option.split)

lemma framed_at: "framed ok h \<Longrightarrow> ctx_step ok c d \<Longrightarrow> ctx_step ok c (fst (h d))"
  unfolding framed_def using ctx_step_trans by blast

lemma chain_framed [frame_intros]:
  "framed ok h \<Longrightarrow> (\<And>m. m \<in> set ms \<Longrightarrow> framed_middleware ok m) \<Longrightarrow> framed ok (chain h ms)"
  by (induction ms) (auto simp: framed_middleware_def)

lemma chain_append: "chain h (xs @ ys) = chain (chain h ys) xs"
  by (induction xs) simp_all

lemma error_status: "200 \<le> StatusCode err" "100 \<le> StatusCode err" "StatusCode err \<le> 999"
  using StatusCode_bounds [of err] by auto

end
