(* ===== verification/App.thy ===== *)
theory App
  imports Context Options
begin

text \<open>
  Registration: the application of \<open>app.go\<close>, its groups (\<open>group.go\<close>), its modules (\<open>module.go\<close>),
  the registration side of tasks (\<open>task.go\<close>), lifecycle hooks (\<open>lifecycle.go\<close>) and health endpoints
  (\<open>health.go\<close>), and \<open>Build\<close>, which validates and freezes it all. Lifecycle hooks and tasks are
  identities here, with \<open>None\<close> for nil. The trie of \<open>http.ServeMux\<close> is a parameter.
\<close>

section \<open>Routes with their handlers\<close>

record route_option =
  ro_name :: string
  ro_hasName :: bool
  ro_middleware :: "middleware list"

definition RouteName :: "string \<Rightarrow> route_option" where
  "RouteName name = \<lparr>ro_name = name, ro_hasName = True, ro_middleware = []\<rparr>"

definition non_nil :: "'a option list \<Rightarrow> 'a list" where
  "non_nil xs = concat (map (case_option [] (\<lambda>x. [x])) xs)"

definition RouteMiddleware :: "middleware option list \<Rightarrow> route_option" where
  "RouteMiddleware ms = \<lparr>ro_name = [], ro_hasName = False, ro_middleware = non_nil ms\<rparr>"

text \<open>A standard-library handler runs on the context's writer and request.\<close>

type_synonym raw_handler = "unit action"

record routeDefinition =
  rd_route :: route
  rd_handler :: "handler option"
  rd_http :: "raw_handler option"
  rd_middleware :: "middleware list"
  rd_hasName :: bool

fun apply_route_options :: "route_option list \<Rightarrow> routeDefinition \<Rightarrow> routeDefinition" where
  "apply_route_options [] d = d"
| "apply_route_options (opt # opts) d =
    (let d = (if ro_hasName opt
              then d\<lparr>rd_route := (rd_route d)\<lparr>rt_Name := ro_name opt\<rparr>, rd_hasName := True\<rparr> else d)
     in apply_route_options opts (d\<lparr>rd_middleware := rd_middleware d @ ro_middleware opt\<rparr>))"

text \<open>The routes of \<open>Routing\<close> come with their parameter names.\<close>

definition newRouteDefinition :: "route \<Rightarrow> route_option list \<Rightarrow> routeDefinition" where
  "newRouteDefinition r opts = apply_route_options opts
     \<lparr>rd_route = r, rd_handler = None, rd_http = None, rd_middleware = [], rd_hasName = False\<rparr>"

section \<open>The application\<close>

datatype applicationState =
    applicationCreated | applicationRegistering | applicationBuilt | applicationStarting
  | applicationRunning | applicationStopping | applicationStopped

definition state_rank :: "applicationState \<Rightarrow> nat" where
  "state_rank s = (case s of applicationCreated \<Rightarrow> 0 | applicationRegistering \<Rightarrow> 1 | applicationBuilt \<Rightarrow> 2
     | applicationStarting \<Rightarrow> 3 | applicationRunning \<Rightarrow> 4 | applicationStopping \<Rightarrow> 5 | applicationStopped \<Rightarrow> 6)"

record taskDefinition =
  td_name :: string
  td_task :: "nat option"
  td_critical :: bool

type_synonym error_handler = "goerr \<Rightarrow> unit action"

text \<open>
  What a server calls: from whether the application is running by then, the request and the header
  map of the underlying writer to what was written. \<open>HTTPMiddleware\<close> wraps it and may give nil.
\<close>

type_synonym http_handler = "bool \<Rightarrow> request \<Rightarrow> header \<Rightarrow> response \<times> unit outcome"

text \<open>The endpoints the mux was given, by pattern, with the route of each.\<close>

type_synonym mux_table = "(string \<times> route \<times> handler) list"

record app =
  app_config :: config
  app_routes :: "routeDefinition list"
  app_namedRoutes :: "string \<rightharpoonup> route"
  app_modules :: "string list"
  app_middleware :: "middleware list"
  app_httpMiddleware :: "(http_handler \<Rightarrow> http_handler option) list"
  app_errorHandler :: error_handler
  app_state :: applicationState
  app_buildErr :: "goerr option"
  app_table :: mux_table
  app_compiledHTTP :: "http_handler option"
  app_built :: bool
  app_startHooks :: "nat list"
  app_stopHooks :: "nat list"
  app_tasks :: "taskDefinition list"

definition new_app :: "error_handler \<Rightarrow> config \<Rightarrow> app" where
  "new_app eh cfg = \<lparr>app_config = cfg, app_routes = [], app_namedRoutes = (\<lambda>_. None), app_modules = [],
     app_middleware = [], app_httpMiddleware = [], app_errorHandler = eh, app_state = applicationCreated,
     app_buildErr = None, app_table = [], app_compiledHTTP = None, app_built = False, app_startHooks = [], app_stopHooks = [],
     app_tasks = []\<rparr>"

definition frozen :: "app \<Rightarrow> bool" where
  "frozen a \<longleftrightarrow> state_rank (app_state a) \<ge> state_rank applicationBuilt"

definition ensureMutable :: "app \<Rightarrow> app outcome" where
  "ensureMutable a = (if frozen a then Panic ''vial: application is already built; registration is immutable''
     else Return (a\<lparr>app_state := applicationRegistering\<rparr>))"

text \<open>A registration call on a mutable application.\<close>

definition register_with :: "(app \<Rightarrow> app) \<Rightarrow> app \<Rightarrow> app outcome" where
  "register_with f a = (case ensureMutable a of Panic msg \<Rightarrow> Panic msg | Return a \<Rightarrow> Return (f a))"

definition app_Use :: "middleware option list \<Rightarrow> app \<Rightarrow> app outcome" where
  "app_Use ms = register_with (\<lambda>a. a\<lparr>app_middleware := app_middleware a @ non_nil ms\<rparr>)"

definition UseHTTP :: "(http_handler \<Rightarrow> http_handler option) option list \<Rightarrow> app \<Rightarrow> app outcome" where
  "UseHTTP ms = register_with (\<lambda>a. a\<lparr>app_httpMiddleware := app_httpMiddleware a @ non_nil ms\<rparr>)"

definition SetErrorHandler :: "error_handler option \<Rightarrow> app \<Rightarrow> app outcome" where
  "SetErrorHandler eh = register_with (\<lambda>a. case eh of None \<Rightarrow> a | Some eh \<Rightarrow> a\<lparr>app_errorHandler := eh\<rparr>)"

definition OnStart :: "nat option list \<Rightarrow> app \<Rightarrow> app outcome" where
  "OnStart hooks = register_with (\<lambda>a. a\<lparr>app_startHooks := app_startHooks a @ non_nil hooks\<rparr>)"

definition OnStop :: "nat option list \<Rightarrow> app \<Rightarrow> app outcome" where
  "OnStop hooks = register_with (\<lambda>a. a\<lparr>app_stopHooks := app_stopHooks a @ non_nil hooks\<rparr>)"

text \<open>A task option is whether it was \<open>NonCritical()\<close>.\<close>

definition app_Go :: "string \<Rightarrow> nat option \<Rightarrow> bool list \<Rightarrow> app \<Rightarrow> app outcome" where
  "app_Go name task opts = register_with (\<lambda>a. a\<lparr>app_tasks := app_tasks a @
     [\<lparr>td_name = name, td_task = task, td_critical = \<not> list_ex id opts\<rparr>]\<rparr>)"

definition addRoute :: "routeDefinition \<Rightarrow> app \<Rightarrow> app outcome" where
  "addRoute d = register_with (\<lambda>a. a\<lparr>app_routes := app_routes a @ [d]\<rparr>)"

definition app_Handle :: "string \<Rightarrow> string \<Rightarrow> handler option \<Rightarrow> route_option list \<Rightarrow> app \<Rightarrow> app outcome" where
  "app_Handle method path h opts a =
    (if h = None then Panic ''vial: handler cannot be nil''
     else addRoute ((newRouteDefinition (handle_route method path) opts)\<lparr>rd_handler := h\<rparr>) a)"

definition app_HandleHTTP :: "string \<Rightarrow> raw_handler option \<Rightarrow> route_option list \<Rightarrow> app \<Rightarrow> app outcome" where
  "app_HandleHTTP pattern h opts a =
    (if h = None then Panic ''vial: HTTP handler cannot be nil''
     else addRoute ((newRouteDefinition (http_route pattern) opts)\<lparr>rd_http := h\<rparr>) a)"

text \<open>The shorthands for one method.\<close>

definition app_Get :: "string \<Rightarrow> handler option \<Rightarrow> route_option list \<Rightarrow> app \<Rightarrow> app outcome" where
  "app_Get path h opts = app_Handle ''GET'' path h opts"

definition app_Post :: "string \<Rightarrow> handler option \<Rightarrow> route_option list \<Rightarrow> app \<Rightarrow> app outcome" where
  "app_Post path h opts = app_Handle ''POST'' path h opts"

definition app_Put :: "string \<Rightarrow> handler option \<Rightarrow> route_option list \<Rightarrow> app \<Rightarrow> app outcome" where
  "app_Put path h opts = app_Handle ''PUT'' path h opts"

definition app_Patch :: "string \<Rightarrow> handler option \<Rightarrow> route_option list \<Rightarrow> app \<Rightarrow> app outcome" where
  "app_Patch path h opts = app_Handle ''PATCH'' path h opts"

definition app_Delete :: "string \<Rightarrow> handler option \<Rightarrow> route_option list \<Rightarrow> app \<Rightarrow> app outcome" where
  "app_Delete path h opts = app_Handle ''DELETE'' path h opts"

definition app_Options :: "string \<Rightarrow> handler option \<Rightarrow> route_option list \<Rightarrow> app \<Rightarrow> app outcome" where
  "app_Options path h opts = app_Handle ''OPTIONS'' path h opts"

section \<open>Groups\<close>

text \<open>A group holds its application by reference; its methods take it as an argument.\<close>

record group =
  gr_prefix :: string
  gr_middleware :: "middleware list"

definition app_Group :: "string \<Rightarrow> group" where
  "app_Group pre = \<lparr>gr_prefix = normalizeGroupPrefix pre, gr_middleware = []\<rparr>"

definition group_Group :: "string \<Rightarrow> group \<Rightarrow> group" where
  "group_Group pre g =
     \<lparr>gr_prefix = normalizeGroupPrefix (joinPath (gr_prefix g) pre), gr_middleware = gr_middleware g\<rparr>"

definition group_Use :: "middleware option list \<Rightarrow> group \<Rightarrow> app \<Rightarrow> (app \<times> group) outcome" where
  "group_Use ms g a = (case ensureMutable a of Panic msg \<Rightarrow> Panic msg
     | Return a \<Rightarrow> Return (a, g\<lparr>gr_middleware := gr_middleware g @ non_nil ms\<rparr>))"

definition group_Handle ::
  "string \<Rightarrow> string \<Rightarrow> handler option \<Rightarrow> route_option list \<Rightarrow> group \<Rightarrow> app \<Rightarrow> app outcome" where
  "group_Handle method path h opts g a =
    (if h = None then Panic ''vial: handler cannot be nil''
     else let d = (newRouteDefinition (group_route (gr_prefix g) method path) opts)\<lparr>rd_handler := h\<rparr>
          in addRoute (d\<lparr>rd_middleware := gr_middleware g @ rd_middleware d\<rparr>) a)"

definition group_HandleHTTP ::
  "string \<Rightarrow> raw_handler option \<Rightarrow> route_option list \<Rightarrow> group \<Rightarrow> app \<Rightarrow> app outcome" where
  "group_HandleHTTP pattern h opts g a =
    (if h = None then Panic ''vial: HTTP handler cannot be nil''
     else let d = (newRouteDefinition (group_http_route (gr_prefix g) pattern) opts)\<lparr>rd_http := h\<rparr>
          in addRoute (d\<lparr>rd_middleware := gr_middleware g @ rd_middleware d\<rparr>) a)"

definition group_Get :: "string \<Rightarrow> handler option \<Rightarrow> route_option list \<Rightarrow> group \<Rightarrow> app \<Rightarrow> app outcome" where
  "group_Get path h opts = group_Handle ''GET'' path h opts"

definition group_Post :: "string \<Rightarrow> handler option \<Rightarrow> route_option list \<Rightarrow> group \<Rightarrow> app \<Rightarrow> app outcome" where
  "group_Post path h opts = group_Handle ''POST'' path h opts"

definition group_Put :: "string \<Rightarrow> handler option \<Rightarrow> route_option list \<Rightarrow> group \<Rightarrow> app \<Rightarrow> app outcome" where
  "group_Put path h opts = group_Handle ''PUT'' path h opts"

definition group_Patch :: "string \<Rightarrow> handler option \<Rightarrow> route_option list \<Rightarrow> group \<Rightarrow> app \<Rightarrow> app outcome" where
  "group_Patch path h opts = group_Handle ''PATCH'' path h opts"

definition group_Delete :: "string \<Rightarrow> handler option \<Rightarrow> route_option list \<Rightarrow> group \<Rightarrow> app \<Rightarrow> app outcome" where
  "group_Delete path h opts = group_Handle ''DELETE'' path h opts"

definition group_Options :: "string \<Rightarrow> handler option \<Rightarrow> route_option list \<Rightarrow> group \<Rightarrow> app \<Rightarrow> app outcome" where
  "group_Options path h opts = group_Handle ''OPTIONS'' path h opts"

section \<open>Health endpoints\<close>

text \<open>A check is its answer; \<open>None\<close> is a nil function. The wait for its context is not modelled.\<close>

definition runHealthCheck :: "goerr option outcome option \<Rightarrow> goerr option" where
  "runHealthCheck check = (case check of None \<Rightarrow> Some (Opaque ''health check is nil'')
     | Some (Return err) \<Rightarrow> err
     | Some (Panic msg) \<Rightarrow> Some (Opaque ''health check panicked''))"

fun readiness_checks :: "goerr option outcome option list \<Rightarrow> handler" where
  "readiness_checks [] c = NoContent 204 c"
| "readiness_checks (check # checks) c =
     (if runHealthCheck check \<noteq> None then NoContent 503 c else readiness_checks checks c)"

definition readinessHandler :: "goerr option outcome option list \<Rightarrow> handler" where
  "readinessHandler checks c = (if \<not> cx_running c then NoContent 503 c else readiness_checks checks c)"

definition app_Health :: "string \<Rightarrow> app \<Rightarrow> app outcome" where
  "app_Health path = app_Get path (Some (NoContent 204)) []"

definition app_Readiness :: "string \<Rightarrow> goerr option outcome option list \<Rightarrow> app \<Rightarrow> app outcome" where
  "app_Readiness path checks = app_Get path (Some (readinessHandler checks)) []"

section \<open>Sequences of registrations\<close>

text \<open>
  The calls a program makes on an application, or a module on its registrar; \<open>n\<close> selects one of the
  groups created so far.
\<close>

datatype reg_call =
    RUse "middleware option list"
  | RUseHTTP "(http_handler \<Rightarrow> http_handler option) option list"
  | RSetErrorHandler "error_handler option"
  | RHandle string string "handler option" "route_option list"
  | RHandleHTTP string "raw_handler option" "route_option list"
  | RGroup string
  | RSubGroup nat string
  | RGroupUse nat "middleware option list"
  | RGroupHandle nat string string "handler option" "route_option list"
  | RGroupHandleHTTP nat string "raw_handler option" "route_option list"
  | ROnStart "nat option list"
  | ROnStop "nat option list"
  | RGo string "nat option" "bool list"
  | RHealth string
  | RReadiness string "goerr option outcome option list"

definition with_groups :: "group list \<Rightarrow> app outcome \<Rightarrow> (app \<times> group list) outcome" where
  "with_groups gs x = (case x of Panic msg \<Rightarrow> Panic msg | Return a \<Rightarrow> Return (a, gs))"

fun reg_exec :: "reg_call \<Rightarrow> app \<times> group list \<Rightarrow> (app \<times> group list) outcome" where
  "reg_exec (RUse ms) (a, gs) = with_groups gs (app_Use ms a)"
| "reg_exec (RUseHTTP ms) (a, gs) = with_groups gs (UseHTTP ms a)"
| "reg_exec (RSetErrorHandler eh) (a, gs) = with_groups gs (SetErrorHandler eh a)"
| "reg_exec (RHandle method path h opts) (a, gs) = with_groups gs (app_Handle method path h opts a)"
| "reg_exec (RHandleHTTP pattern h opts) (a, gs) = with_groups gs (app_HandleHTTP pattern h opts a)"
| "reg_exec (RGroup pre) (a, gs) = Return (a, gs @ [app_Group pre])"
| "reg_exec (RSubGroup n pre) (a, gs) = Return (a, gs @ (if n < length gs then [group_Group pre (gs ! n)] else []))"
| "reg_exec (RGroupUse n ms) (a, gs) =
     (if n < length gs then (case group_Use ms (gs ! n) a of Panic msg \<Rightarrow> Panic msg
        | Return (a, g) \<Rightarrow> Return (a, gs[n := g]))
      else Return (a, gs))"
| "reg_exec (RGroupHandle n method path h opts) (a, gs) =
     (if n < length gs then with_groups gs (group_Handle method path h opts (gs ! n) a) else Return (a, gs))"
| "reg_exec (RGroupHandleHTTP n pattern h opts) (a, gs) =
     (if n < length gs then with_groups gs (group_HandleHTTP pattern h opts (gs ! n) a) else Return (a, gs))"
| "reg_exec (ROnStart hooks) (a, gs) = with_groups gs (OnStart hooks a)"
| "reg_exec (ROnStop hooks) (a, gs) = with_groups gs (OnStop hooks a)"
| "reg_exec (RGo name task opts) (a, gs) = with_groups gs (app_Go name task opts a)"
| "reg_exec (RHealth path) (a, gs) = with_groups gs (app_Health path a)"
| "reg_exec (RReadiness path checks) (a, gs) = with_groups gs (app_Readiness path checks a)"

fun reg_script :: "reg_call list \<Rightarrow> app \<times> group list \<Rightarrow> (app \<times> group list) outcome" where
  "reg_script [] s = Return s"
| "reg_script (x # xs) s = (case reg_exec x s of Panic msg \<Rightarrow> Panic msg | Return s \<Rightarrow> reg_script xs s)"

section \<open>Modules\<close>

text \<open>
  A module is its name, the calls its \<open>Register\<close> makes on the registrar, and the error it returns.
  The registrar works on an application of its own; it qualifies the names of tasks.
\<close>

record module =
  md_name :: string
  md_calls :: "reg_call list"
  md_err :: "goerr option"

fun registrar_call :: "string \<Rightarrow> reg_call \<Rightarrow> reg_call" where
  "registrar_call name (RGo task f opts) = RGo (name @ ''.'' @ task) f opts"
| "registrar_call name x = x"

record moduleRegistration =
  mr_routes :: "routeDefinition list"
  mr_startHooks :: "nat list"
  mr_stopHooks :: "nat list"
  mr_tasks :: "taskDefinition list"

definition registrar_close :: "string \<Rightarrow> app \<Rightarrow> moduleRegistration" where
  "registrar_close name a =
     \<lparr>mr_routes = map (\<lambda>d. d\<lparr>rd_route := (rd_route d)\<lparr>rt_Module := name\<rparr>,
        rd_middleware := app_middleware a @ rd_middleware d\<rparr>) (app_routes a),
      mr_startHooks = app_startHooks a, mr_stopHooks = app_stopHooks a, mr_tasks = app_tasks a\<rparr>"

definition no_registration :: moduleRegistration where
  "no_registration = \<lparr>mr_routes = [], mr_startHooks = [], mr_stopHooks = [], mr_tasks = []\<rparr>"

definition add_registration :: "moduleRegistration \<Rightarrow> moduleRegistration \<Rightarrow> moduleRegistration" where
  "add_registration m n = \<lparr>mr_routes = mr_routes m @ mr_routes n, mr_startHooks = mr_startHooks m @ mr_startHooks n,
     mr_stopHooks = mr_stopHooks m @ mr_stopHooks n, mr_tasks = mr_tasks m @ mr_tasks n\<rparr>"

fun stage_modules :: "app \<Rightarrow> module option list \<Rightarrow> (string list \<times> moduleRegistration) result outcome" where
  "stage_modules staging [] = Return (Inr ([], no_registration))"
| "stage_modules staging (None # ms) = Return (Inl (Opaque ''vial: module cannot be nil''))"
| "stage_modules staging (Some m # ms) =
     (case reg_script (map (registrar_call (md_name m)) (md_calls m)) (staging, []) of
        Panic msg \<Rightarrow> Panic msg
      | Return (a, gs) \<Rightarrow>
          (case md_err m of Some err \<Rightarrow> Return (Inl (Wrapf (''register module '' @ md_name m @ '': '') err))
           | None \<Rightarrow> (case stage_modules staging ms of
                Return (Inr (names, reg)) \<Rightarrow>
                  Return (Inr (md_name m # names, add_registration (registrar_close (md_name m) a) reg))
              | x \<Rightarrow> x)))"

definition commit_modules :: "string list \<Rightarrow> moduleRegistration \<Rightarrow> app \<Rightarrow> app" where
  "commit_modules names reg a = a\<lparr>app_modules := app_modules a @ names, app_routes := app_routes a @ mr_routes reg,
     app_startHooks := app_startHooks a @ mr_startHooks reg, app_stopHooks := app_stopHooks a @ mr_stopHooks reg,
     app_tasks := app_tasks a @ mr_tasks reg\<rparr>"

text \<open>\<open>staging\<close> is \<open>New()\<close>. The application is locked again and tested again at the end.\<close>

definition app_Register :: "app \<Rightarrow> module option list \<Rightarrow> app \<Rightarrow> app \<times> goerr option outcome" where
  "app_Register staging ms a =
    (if frozen a then (a, Return (Some (Opaque ''vial: application is already built'')))
     else case stage_modules staging ms of
       Panic msg \<Rightarrow> (a, Panic msg)
     | Return (Inl err) \<Rightarrow> (a, Return (Some err))
     | Return (Inr (names, reg)) \<Rightarrow>
         (commit_modules names reg (if ms \<noteq> [] then a\<lparr>app_state := applicationRegistering\<rparr> else a), Return None))"

section \<open>Frozen applications\<close>

lemma register_with_frozen [simp]: "frozen a \<Longrightarrow>
   register_with f a = Panic ''vial: application is already built; registration is immutable''"
  by (simp add: register_with_def ensureMutable_def)

lemmas reg_defs = app_Use_def UseHTTP_def SetErrorHandler_def OnStart_def OnStop_def app_Go_def addRoute_def
  app_Handle_def app_HandleHTTP_def group_Handle_def group_HandleHTTP_def group_Use_def app_Health_def
  app_Get_def app_Readiness_def Let_def with_groups_def

text \<open>Every call on a frozen application panics, except the two that only make a group.\<close>

lemma reg_exec_frozen:
  "frozen a \<Longrightarrow> case reg_exec x (a, gs) of Panic msg \<Rightarrow> True | Return (a', gs') \<Rightarrow> a' = a"
  by (cases x) (auto simp: reg_defs ensureMutable_def)

text \<open>What a call keeps: it never freezes the application and never drops a route.\<close>

lemma register_with_Return: "register_with f a = Return a' \<Longrightarrow> a' = f (a\<lparr>app_state := applicationRegistering\<rparr>) \<and> \<not> frozen a"
  by (auto simp: register_with_def ensureMutable_def split: if_splits)

lemma not_frozen_registering [simp]: "app_state a = applicationRegistering \<Longrightarrow> \<not> frozen a"
  by (simp add: frozen_def state_rank_def)

lemma frozen_cong: "app_state a = app_state b \<Longrightarrow> frozen a = frozen b"
  by (simp add: frozen_def)

end
