(* ===== verification/Serve.thy ===== *)
theory Serve
  imports App
begin

text \<open>
  Serving a request: route lookup with its cache (\<open>route_match.go\<close>), the dispatcher, the compiled
  root handler and \<open>serveHTTP\<close> (\<open>app.go\<close>).
\<close>

section \<open>Lookup\<close>

text \<open>
  \<open>http.ServeMux\<close> for the patterns it was given: whether it panics on a further pattern, \<open>Handler\<close>
  (which looks at the method, the host and the URL of a request only) and the handler \<open>ServeHTTP\<close>
  runs. \<open>sl_write\<close> is the answer of the connection to a write.
\<close>

record server_lib =
  sl_conflict :: "string list \<Rightarrow> string \<Rightarrow> string option"
  sl_find :: "string list \<Rightarrow> string \<Rightarrow> string \<Rightarrow> string \<Rightarrow> mux_handler \<times> string"
  sl_serve :: "string list \<Rightarrow> request \<Rightarrow> mux_handler"
  sl_write :: "string \<Rightarrow> nat \<times> goerr option"

definition mux_Handler :: "server_lib \<Rightarrow> mux_table \<Rightarrow> request \<Rightarrow> mux_handler \<times> string" where
  "mux_Handler X t rq = sl_find X (map fst t) (req_method rq) (req_host rq) (req_url rq)"

definition resolve :: "server_lib \<Rightarrow> mux_table \<Rightarrow> ctx \<Rightarrow> ctx \<times> mux_handler \<times> string" where
  "resolve X t c =
    (let m = cx_match c; rq = cx_request c
     in case mm_found m of
          Some found \<Rightarrow>
            if mm_method m \<noteq> req_method rq \<or> mm_host m \<noteq> req_host rq \<or> mm_url m \<noteq> req_url rq
            then (c\<lparr>cx_match := \<lparr>mm_found = Some (mux_Handler X t rq), mm_method = req_method rq,
                    mm_host = req_host rq, mm_url = req_url rq\<rparr>\<rparr>, mux_Handler X t rq)
            else (c, found)
        | None \<Rightarrow> (c\<lparr>cx_match := \<lparr>mm_found = Some (mux_Handler X t rq), mm_method = req_method rq,
                    mm_host = req_host rq, mm_url = req_url rq\<rparr>\<rparr>, mux_Handler X t rq))"

text \<open>The \<open>routeMissWriter\<close> keeps the headers and the first status, and drops the body.\<close>

fun probe_calls :: "writer_call list \<Rightarrow> header \<Rightarrow> int \<Rightarrow> header \<times> int" where
  "probe_calls [] h status = (h, status)"
| "probe_calls (SetHeader k v # xs) h status = probe_calls xs (header_set k v h) status"
| "probe_calls (CallWriteHeader s # xs) h status = probe_calls xs h (if status = 0 then s else status)"
| "probe_calls (CallWrite d # xs) h status = probe_calls xs h (if status = 0 then 200 else status)"

text \<open>The handler of a route comes with its pattern, which is not empty.\<close>

definition routeMiss :: "mux_handler \<times> string \<Rightarrow> http_error option" where
  "routeMiss found = (case found of (h, pattern) \<Rightarrow>
     if pattern \<noteq> [] then None
     else case probe_calls (case h of OwnHandler calls \<Rightarrow> calls | RouteHandler p \<Rightarrow> []) empty_header 0 of
       (ph, status) \<Rightarrow>
         if status = 405 then Some (HTTPError 405 ''method_not_allowed'' (StatusText 405) None
           [(''Allow'', [header_get ph ''Allow''])])
         else Some (NotFoundHTTP ''not_found'' (StatusText 404)))"

section \<open>Dispatch\<close>

fun run_calls :: "(string \<Rightarrow> nat \<times> goerr option) \<Rightarrow> writer_call list \<Rightarrow> unit action" where
  "run_calls uw [] c = (c, Return ())"
| "run_calls uw (SetHeader k v # xs) c = run_calls uw xs (edit_header (header_set k v) c)"
| "run_calls uw (CallWriteHeader s # xs) c = (case on_response (WriteHeader s) c of
     (c, Panic msg) \<Rightarrow> (c, Panic msg) | (c, Return u) \<Rightarrow> run_calls uw xs c)"
| "run_calls uw (CallWrite d # xs) c = (case on_response (response_Write uw d) c of
     (c, Panic msg) \<Rightarrow> (c, Panic msg) | (c, Return x) \<Rightarrow> run_calls uw xs c)"

definition run_endpoint :: "route \<times> handler \<Rightarrow> unit action" where
  "run_endpoint e c = (case snd e (c\<lparr>cx_route := Some (fst e)\<rparr>) of
     (c, Panic msg) \<Rightarrow> (c, Panic msg)
   | (c, Return err) \<Rightarrow> (c\<lparr>cx_routeErr := err\<rparr>, Return ()))"

definition mux_ServeHTTP :: "server_lib \<Rightarrow> mux_table \<Rightarrow> unit action" where
  "mux_ServeHTTP X t c = (case sl_serve X (map fst t) (cx_request c) of
     OwnHandler calls \<Rightarrow> run_calls (sl_write X) calls c
   | RouteHandler p \<Rightarrow> (case map_of t p of None \<Rightarrow> (c, Return ()) | Some e \<Rightarrow> run_endpoint e c))"

definition dispatch :: "server_lib \<Rightarrow> mux_table \<Rightarrow> handler" where
  "dispatch X t c = (case resolve X t c of (c, found) \<Rightarrow>
     (case routeMiss found of
        Some err \<Rightarrow> (c, Return (Some (HTTPErr (Some err))))
      | None \<Rightarrow> (case mux_ServeHTTP X t c of
           (c, Panic msg) \<Rightarrow> (c, Panic msg)
         | (c, Return u) \<Rightarrow> (c, Return (cx_routeErr c)))))"

definition compiledRoot :: "server_lib \<Rightarrow> mux_table \<Rightarrow> middleware list \<Rightarrow> handler" where
  "compiledRoot X t ms c =
    (if ms = [] then dispatch X t c
     else case resolve X t c of (c, h, pattern) \<Rightarrow>
       chain (dispatch X t) ms
         (case map_of t pattern of None \<Rightarrow> c | Some e \<Rightarrow> c\<lparr>cx_route := Some (fst e)\<rparr>))"

section \<open>The request\<close>

definition commit_default :: "unit action" where
  "commit_default c =
    (if \<not> Committed (cx_response c) \<and> \<not> rs_hijacked (cx_response c) then on_response (WriteHeader 200) c
     else (c, Return ()))"

definition handle_request :: "server_lib \<Rightarrow> handler \<Rightarrow> error_handler \<Rightarrow> unit action" where
  "handle_request X entry eh c = (case entry c of
     (c, Panic msg) \<Rightarrow> (c, Panic msg)
   | (c, Return None) \<Rightarrow> commit_default c
   | (c, Return (Some err)) \<Rightarrow>
       (case renderErrorSafely (sl_write X) eh err
           (edit_header (applyHTTPErrorHeaders err) (c\<lparr>cx_responseErr := Some err\<rparr>)) of
          (c, Panic msg) \<Rightarrow> (c, Panic msg)
        | (c, Return u) \<Rightarrow> commit_default c))"

text \<open>The deferred function: the hooks run also when the request panics, and the panic goes on.\<close>

definition finish_request :: "ctx \<times> unit outcome \<Rightarrow> ctx \<times> unit outcome" where
  "finish_request x = (case x of
     (c, Return u) \<Rightarrow> (finishResponse c, Return u)
   | (c, Panic msg) \<Rightarrow>
       (finishResponse (c\<lparr>cx_responseErr := Some (Opaque (''panic: '' @ msg)),
          cx_response := (if Committed (cx_response c) then cx_response c
            else (cx_response c)\<lparr>rs_status := 500\<rparr>)\<rparr>), Panic msg))"

definition serve_context :: "server_lib \<Rightarrow> handler \<Rightarrow> error_handler \<Rightarrow> ctx \<Rightarrow> ctx \<times> unit outcome" where
  "serve_context X entry eh c = finish_request (handle_request X entry eh c)"

definition app_serveHTTP :: "server_lib \<Rightarrow> app \<Rightarrow> http_handler" where
  "app_serveHTTP X a running rq h =
    (case serve_context X (compiledRoot X (app_table a) (app_middleware a)) (app_errorHandler a)
       (newContext running (newResponse h) rq) of
      (c, x) \<Rightarrow> (cx_response c, x))"

section \<open>Frames\<close>

definition cache_ok :: "server_lib \<Rightarrow> mux_table \<Rightarrow> muxMatch \<Rightarrow> bool" where
  "cache_ok X t m \<longleftrightarrow> (case mm_found m of None \<Rightarrow> True
     | Some found \<Rightarrow> found = sl_find X (map fst t) (mm_method m) (mm_host m) (mm_url m))"

text \<open>The match of a lookup that is not cached.\<close>

definition fresh_match :: "server_lib \<Rightarrow> mux_table \<Rightarrow> request \<Rightarrow> muxMatch" where
  "fresh_match X t rq = \<lparr>mm_found = Some (mux_Handler X t rq), mm_method = req_method rq,
     mm_host = req_host rq, mm_url = req_url rq\<rparr>"

lemma cache_ok_fresh [simp]: "cache_ok X t (fresh_match X t rq)"
  by (simp add: cache_ok_def fresh_match_def mux_Handler_def)

lemma cache_ok_new [simp]: "cache_ok X t (cx_match (newContext running w rq))"
  by (simp add: cache_ok_def newContext_def)

text \<open>A correct cache makes the lookup what it would be without one.\<close>

lemma resolve_fresh:
  assumes "cache_ok X t (cx_match c)"
  shows "resolve X t c = (c\<lparr>cx_match := fresh_match X t (cx_request c)\<rparr>, mux_Handler X t (cx_request c))"
proof (cases "mm_found (cx_match c)")
  case None
  then show ?thesis by (simp add: resolve_def fresh_match_def Let_def)
next
  case (Some found)
  let ?m = "cx_match c" and ?rq = "cx_request c"
  show ?thesis
  proof (cases "mm_method ?m = req_method ?rq \<and> mm_host ?m = req_host ?rq \<and> mm_url ?m = req_url ?rq")
    case True
    with Some assms have "found = mux_Handler X t ?rq" by (simp add: cache_ok_def mux_Handler_def)
    with Some True have "fresh_match X t ?rq = ?m" by (simp add: fresh_match_def)
    with Some True \<open>found = _\<close> show ?thesis by (simp add: resolve_def Let_def)
  next
    case False
    with Some show ?thesis by (auto simp: resolve_def fresh_match_def Let_def)
  qed
qed

lemma resolve_step: "ctx_step (cache_ok X t) c (fst (resolve X t c))"
  by (auto simp: resolve_def Let_def ctx_step_def cache_ok_def mux_Handler_def split: option.split)

lemma run_calls_step:
  assumes "\<forall>s. CallWriteHeader s \<in> set calls \<longrightarrow> 100 \<le> s \<and> s \<le> 999"
  shows "ctx_step ok c (fst (run_calls uw calls c))"
  using assms
proof (induction calls arbitrary: c)
  case (Cons x xs)
  have IH: "ctx_step ok d (fst (run_calls uw xs d))" for d using Cons by simp
  show ?case
  proof (cases x)
    case (SetHeader k v)
    have "ctx_step ok c (edit_header (header_set k v) c)" by (rule ctx_step_edit)
    also note IH [of "edit_header (header_set k v) c"]
    finally show ?thesis using SetHeader by simp
  next
    case (CallWriteHeader s)
    obtain c1 y where 1: "on_response (WriteHeader s) c = (c1, y)" by fastforce
    have "ctx_step ok c c1"
      by (rule on_response_step [OF 1]) (use WriteHeader_step Cons.prems CallWriteHeader in auto)
    with ctx_step_trans [OF this IH [of c1]] CallWriteHeader 1 show ?thesis by (cases y) simp_all
  next
    case (CallWrite d)
    obtain c1 y where 1: "on_response (response_Write uw d) c = (c1, y)" by fastforce
    have "ctx_step ok c c1" by (rule on_response_step [OF 1]) (rule Write_step)
    with ctx_step_trans [OF this IH [of c1]] CallWrite 1 show ?thesis by (cases y) simp_all
  qed
qed simp

text \<open>What the dispatcher needs: framed endpoints, and valid statuses from the mux itself.\<close>

definition mux_ok :: "server_lib \<Rightarrow> mux_table \<Rightarrow> bool" where
  "mux_ok X t \<longleftrightarrow> (\<forall>(p, r, ep) \<in> set t. framed (cache_ok X t) ep) \<and>
     (\<forall>rq. case sl_serve X (map fst t) rq of RouteHandler p \<Rightarrow> True
        | OwnHandler calls \<Rightarrow> \<forall>s. CallWriteHeader s \<in> set calls \<longrightarrow> 100 \<le> s \<and> s \<le> 999)"

lemma run_endpoint_step:
  assumes "framed ok (snd e)"
  shows "ctx_step ok c (fst (run_endpoint e c))"
proof -
  have "ctx_step ok c (c\<lparr>cx_route := Some (fst e)\<rparr>)" by simp
  also have "ctx_step ok \<dots> (fst (snd e (c\<lparr>cx_route := Some (fst e)\<rparr>)))" using assms by (simp add: framed_def)
  finally show ?thesis by (auto simp: run_endpoint_def split: prod.split outcome.split)
qed

lemma mux_ServeHTTP_step:
  assumes "mux_ok X t"
  shows "ctx_step (cache_ok X t) c (fst (mux_ServeHTTP X t c))"
proof (cases "sl_serve X (map fst t) (cx_request c)")
  case (RouteHandler p)
  show ?thesis
  proof (cases "map_of t p")
    case (Some e)
    then have "(p, e) \<in> set t" by (rule map_of_SomeD)
    with assms have "framed (cache_ok X t) (snd e)" by (auto simp: mux_ok_def)
    with RouteHandler Some show ?thesis by (simp add: mux_ServeHTTP_def run_endpoint_step)
  qed (simp add: mux_ServeHTTP_def RouteHandler)
next
  case (OwnHandler calls)
  with assms have "\<forall>s. CallWriteHeader s \<in> set calls \<longrightarrow> 100 \<le> s \<and> s \<le> 999"
    by (auto simp: mux_ok_def split: mux_handler.splits)
  with OwnHandler show ?thesis by (simp add: mux_ServeHTTP_def run_calls_step)
qed

lemma dispatch_framed:
  assumes "mux_ok X t"
  shows "framed (cache_ok X t) (dispatch X t)"
  unfolding framed_def
proof
  fix c
  obtain c1 found where 1: "resolve X t c = (c1, found)" by (metis surj_pair)
  have s1: "ctx_step (cache_ok X t) c c1" using resolve_step [of X t c] 1 by simp
  have "ctx_step (cache_ok X t) c1 (fst (mux_ServeHTTP X t c1))" by (rule mux_ServeHTTP_step [OF assms])
  from ctx_step_trans [OF s1 this] s1 show "ctx_step (cache_ok X t) c (fst (dispatch X t c))"
    by (auto simp: dispatch_def 1 split: option.split prod.split outcome.split)
qed

lemma compiledRoot_framed:
  assumes "mux_ok X t" "\<And>m. m \<in> set ms \<Longrightarrow> framed_middleware (cache_ok X t) m"
  shows "framed (cache_ok X t) (compiledRoot X t ms)"
  unfolding framed_def
proof
  fix c
  show "ctx_step (cache_ok X t) c (fst (compiledRoot X t ms c))"
  proof (cases "ms = []")
    case True
    with dispatch_framed [OF assms(1)] show ?thesis by (simp add: compiledRoot_def framed_def)
  next
    case False
    obtain c1 h p where 1: "resolve X t c = (c1, h, p)" by (cases "resolve X t c") auto
    define c2 where "c2 = (case map_of t p of None \<Rightarrow> c1 | Some e \<Rightarrow> c1\<lparr>cx_route := Some (fst e)\<rparr>)"
    have "ctx_step (cache_ok X t) c c1" using resolve_step [of X t c] 1 by simp
    then have "ctx_step (cache_ok X t) c c2" by (simp add: c2_def split: option.split)
    also have "ctx_step (cache_ok X t) c2 (fst (chain (dispatch X t) ms c2))"
      using chain_framed [OF dispatch_framed [OF assms(1)] assms(2)] by (simp add: framed_def)
    finally show ?thesis using False by (simp add: compiledRoot_def 1 c2_def)
  qed
qed

lemma renderErrorSafely_step:
  assumes "framed ok (eh err)"
  shows "ctx_step ok c (fst (renderErrorSafely uw eh err c))"
proof -
  obtain c1 x where 1: "eh err c = (c1, x)" by fastforce
  with assms have s1: "ctx_step ok c c1" by (metis framed_def fst_conv)
  let ?c2 = "edit_header (\<lambda>h. header_set ''X-Content-Type-Options'' ''nosniff'' (del_all h)) c1"
  have "ctx_step ok c1 ?c2" by (rule ctx_step_edit)
  note s2 = ctx_step_trans [OF s1 ctx_step_trans [OF this send_body_step [of 500 ok ?c2]]]
  from s1 s2 show ?thesis
    by (auto simp: renderErrorSafely_def 1 split: outcome.split prod.split) (metis fst_conv)+
qed

section \<open>The end of a request\<close>

lemma commit_default_step: "ctx_step ok c (fst (commit_default c))"
proof -
  have "ctx_step ok c (fst (on_response (WriteHeader 200) c))"
    by (rule framed_on_response) (simp add: WriteHeader_step)
  then show ?thesis by (simp add: commit_default_def)
qed

lemma commit_default_commits:
  assumes "commit_default c = (c', Return u)" "resp_inv (cx_response c)"
  shows "Committed (cx_response c') \<or> rs_hijacked (cx_response c')"
proof (cases "\<not> Committed (cx_response c) \<and> \<not> rs_hijacked (cx_response c)")
  case True
  obtain r x where 1: "WriteHeader 200 (cx_response c) = (r, x)" by fastforce
  with True assms(1) have "x = Return u" "cx_response c' = r" by (auto simp: commit_default_def on_response_def)
  with WriteHeader_commits [of 200 "cx_response c" r] 1 assms(2) show ?thesis by (simp add: resp_inv_def Committed_def)
next
  case False
  then have "c' = c" using assms(1) by (auto simp: commit_default_def)
  with False show ?thesis by simp
qed

text \<open>After the root handler: the response error is what it returned, and the response is committed.\<close>

lemma handle_request_spec:
  assumes "framed ok entry" "\<And>err. framed ok (eh err)" "resp_inv (cx_response c)" "cx_responseErr c = None"
    and "handle_request X entry eh c = (c2, x)" "entry c = (c1, y)"
  shows "resp_step (cx_response c1) (cx_response c2) \<and> prefix (cx_afterHooks c1) (cx_afterHooks c2) \<and>
    (case x of Panic msg \<Rightarrow> True
     | Return u \<Rightarrow> resp_inv (cx_response c2) \<and> (Committed (cx_response c2) \<or> rs_hijacked (cx_response c2)) \<and>
        y = Return (cx_responseErr c2))"
proof -
  have s1: "ctx_step ok c c1" using assms(1,6) by (metis framed_def fst_conv)
  then have inv1: "resp_inv (cx_response c1)" and err1: "cx_responseErr c1 = None"
    using assms(3,4) by (simp_all add: ctx_step_def resp_step_def)
  have commits: "resp_step (cx_response d) (cx_response c2) \<and> prefix (cx_afterHooks d) (cx_afterHooks c2) \<and>
      (case x of Panic msg \<Rightarrow> True
       | Return u \<Rightarrow> resp_inv (cx_response c2) \<and> (Committed (cx_response c2) \<or> rs_hijacked (cx_response c2)) \<and>
          cx_responseErr c2 = cx_responseErr d)"
    if "commit_default d = (c2, x)" "resp_inv (cx_response d)" for d
  proof -
    have st: "ctx_step ok d c2" using commit_default_step [of ok d] that(1) by simp
    with that show ?thesis
      by (cases x) (auto simp: ctx_step_def resp_step_def dest: commit_default_commits)
  qed
  show ?thesis
  proof (cases y)
    case (Panic msg)
    with assms(5,6) show ?thesis by (auto simp: handle_request_def)
  next
    case y: (Return e)
    show ?thesis
    proof (cases e)
      case None
      with y assms(5,6) have "commit_default c1 = (c2, x)" by (simp add: handle_request_def)
      from commits [OF this inv1] y None err1 show ?thesis by (cases x) auto
    next
      case (Some err)
      define d where "d = edit_header (applyHTTPErrorHeaders err) (c1\<lparr>cx_responseErr := Some err\<rparr>)"
      obtain d1 z where d1: "renderErrorSafely (sl_write X) eh err d = (d1, z)" by fastforce
      then have st: "ctx_step ok d d1" using renderErrorSafely_step [of ok eh err d, OF assms(2)] by (metis fst_conv)
      have d: "cx_afterHooks d = cx_afterHooks c1" "cx_responseErr d = Some err" "resp_step (cx_response c1) (cx_response d)"
        by (simp_all add: d_def edit_header_def resp_step_header)
      with st inv1 have inv: "resp_inv (cx_response d1)" by (simp add: ctx_step_def resp_step_def)
      have err: "cx_responseErr d1 = Some err" "prefix (cx_afterHooks c1) (cx_afterHooks d1)"
          "resp_step (cx_response c1) (cx_response d1)"
        using st d by (auto simp: ctx_step_def intro: resp_step_trans)
      show ?thesis
      proof (cases z)
        case (Panic msg)
        with y Some assms(5,6) d1 have "c2 = d1 \<and> x = Panic msg" by (simp add: handle_request_def d_def)
        with err show ?thesis by simp
      next
        case (Return u)
        with y Some assms(5,6) d1 have "commit_default d1 = (c2, x)" by (simp add: handle_request_def d_def)
        from commits [OF this inv] y Some err show ?thesis
          by (cases x) (auto intro: resp_step_trans prefix_order.trans)
      qed
    qed
  qed
qed

section \<open>Properties\<close>

text \<open>C5. A request always finishes, whatever its handler, its middleware and the error renderer do with the
  public operations. When it returns, the response is committed or the connection was taken over, and the
  response error is what the handler returned. When it panics, the response reports status
  500 unless it was committed, and the panic is passed on. In both cases every after-response hook runs, in the
  order of registration, after everything that was written, and none is accepted afterwards.\<close>

theorem serve_complete:
  assumes "framed ok entry" "\<And>err. framed ok (eh err)" "resp_inv (cx_response c)" "cx_responseErr c = None"
    and "serve_context X entry eh c = (c', x)"
  shows "\<exists>r hooks. cx_response c' = run_after hooks (cx_responseErr c') r \<and>
    prefix (cx_afterHooks (fst (entry c))) hooks \<and> prefix (rs_wire (cx_response (fst (entry c)))) (rs_wire r) \<and>
    (\<forall>hook. AfterResponse hook c' = (c', snd (AfterResponse hook c')) \<and> snd (AfterResponse hook c') \<noteq> None) \<and>
    (case x of
       Return u \<Rightarrow> resp_inv r \<and> (Committed r \<or> rs_hijacked r) \<and> snd (entry c) = Return (cx_responseErr c')
     | Panic msg \<Rightarrow> cx_responseErr c' = Some (Opaque (''panic: '' @ msg)) \<and> (Committed r \<or> Status r = 500))"
proof -
  obtain c1 y where 1: "entry c = (c1, y)" by fastforce
  obtain c2 z where 2: "handle_request X entry eh c = (c2, z)" by fastforce
  note spec = handle_request_spec [OF assms(1,2,3,4) 2 1]
  have fin: "\<forall>hook. AfterResponse hook (finishResponse d) = (finishResponse d, snd (AfterResponse hook (finishResponse d))) \<and>
      snd (AfterResponse hook (finishResponse d)) \<noteq> None" for d
    by (simp add: AfterResponse_def finishResponse_def split: option.split)
  show ?thesis
  proof (cases z)
    case (Return u)
    with 2 assms(5) have c': "c' = finishResponse c2" "x = Return u"
      by (simp_all add: serve_context_def finish_request_def)
    with spec Return 1 fin [of c2] show ?thesis
      by (intro exI [of _ "cx_response c2"] exI [of _ "cx_afterHooks c2"]) (simp add: finishResponse_def resp_step_def)
  next
    case (Panic msg)
    define d where "d = c2\<lparr>cx_responseErr := Some (Opaque (''panic: '' @ msg)),
      cx_response := (if Committed (cx_response c2) then cx_response c2 else (cx_response c2)\<lparr>rs_status := 500\<rparr>)\<rparr>"
    have c': "c' = finishResponse d" "x = Panic msg"
      using 2 assms(5) Panic by (simp_all add: serve_context_def finish_request_def d_def)
    with spec Panic 1 fin [of d] show ?thesis
      by (intro exI [of _ "cx_response d"] exI [of _ "cx_afterHooks d"])
        (simp add: finishResponse_def d_def resp_step_def Committed_def Status_def)
  qed
qed

lemma renderHTTPError_framed [frame_intros]: "framed ok (renderHTTPError uw enc problem err)"
  unfolding framed_def
proof
  fix c
  obtain ctype status body where b: "error_body_for problem err = (ctype, status, body)"
    by (metis surj_pair)
  then have "status = StatusCode err" by (auto simp: error_body_for_def Let_def StatusCode_def split: if_splits)
  then have "ctx_step ok c (fst (send_body uw ctype status (enc body) c))"
    using error_status [of err] by (simp add: send_body_step)
  then show "ctx_step ok c (fst (renderHTTPError uw enc problem err c))"
    by (auto simp: renderHTTPError_def b split: prod.split outcome.split)
qed

definition demo_request_ctx :: ctx where
  "demo_request_ctx = newContext True (newResponse empty_header)
     \<lparr>req_method = ''GET'', req_host = ''h'', req_url = ''/'', req_header = empty_header, req_tls = False\<rparr>"

definition demo_server :: server_lib where
  "demo_server = \<lparr>sl_conflict = (\<lambda>ps p. if p \<in> set ps then Some ''conflict'' else None),
     sl_find = (\<lambda>ps md host url. if md @ '' '' @ url \<in> set ps then (RouteHandler (md @ '' '' @ url), md @ '' '' @ url)
       else (OwnHandler [SetHeader ''Allow'' ''PUT'', CallWriteHeader 405], [])),
     sl_serve = (\<lambda>ps rq. RouteHandler (req_method rq @ '' '' @ req_url rq)),
     sl_write = (\<lambda>d. (length d, None))\<rparr>"

theorem serve_complete_witness:
  "cx_responseErr (fst (serve_context demo_server (\<lambda>c. (c, Panic ''boom''))
     (defaultErrorHandler (sl_write demo_server) (\<lambda>b. ''{}'')) demo_request_ctx)) = Some (Opaque ''panic: boom'')"
proof -
  let ?eh = "defaultErrorHandler (sl_write demo_server) (\<lambda>b. ''{}'')"
  obtain c' x where s: "serve_context demo_server (\<lambda>c. (c, Panic ''boom'')) ?eh demo_request_ctx = (c', x)" by fastforce
  then have x: "x = Panic ''boom''" by (simp add: serve_context_def handle_request_def finish_request_def)
  have "framed (\<lambda>_. True) (\<lambda>c. (c, Panic ''boom'' :: goerr option outcome))" by (simp add: framed_def)
  moreover have "framed (\<lambda>_. True) (?eh err)" for err by (simp add: defaultErrorHandler_def frame_intros)
  moreover have "resp_inv (cx_response demo_request_ctx)" "cx_responseErr demo_request_ctx = None"
    by (simp_all add: demo_request_ctx_def newContext_def resp_inv_new)
  ultimately show ?thesis using serve_complete [OF _ _ _ _ s, of "\<lambda>_. True"] by (auto simp: s x)
qed

lemma send_body_wire:
  assumes "\<not> Committed (cx_response c)" "resp_inv (cx_response c)" "200 \<le> status" "status \<le> 999"
    and "rs_hooks (cx_response c) = map (\<lambda>f h. Return (f h)) fs" "uw body = (n, werr)"
  shows "\<exists>c'. send_body uw ctype status body c = (c', Return werr) \<and> Committed (cx_response c') \<and>
    cx_responseErr c' = cx_responseErr c \<and>
    rs_wire (cx_response c') = rs_wire (cx_response c) @
      [Head status (fold (\<lambda>f h. f h) fs (header_set ''Content-Type'' ctype (rs_header (cx_response c)))), Body (take n body)]"
  using assms
  by (simp add: send_body_def edit_header_def on_response_def WriteHeader_def Committed_def resp_inv_def
      runBeforeCommitHooks_def run_hooks_Return underlying_WriteHeader_def response_Write_def ensure_header_def)

lemma error_response:
  assumes "entry c = (c1, Return (Some err))" "\<not> Committed (cx_response c1)" "resp_inv (cx_response c1)"
    and "rs_hooks (cx_response c1) = map (\<lambda>f h. Return (f h)) fs"
    and "handle_request X entry (renderHTTPError (sl_write X) enc problem) c = (c2, x)"
    and "error_body_for problem err = (ctype, status, body)"
  shows "x = Return () \<and> status = StatusCode err \<and> cx_responseErr c2 = Some err \<and>
    rs_wire (cx_response c2) = rs_wire (cx_response c1) @
      [Head status (fold (\<lambda>f h. f h) fs (header_set ''Content-Type'' ctype
          (applyHTTPErrorHeaders err (rs_header (cx_response c1))))),
       Body (take (fst (sl_write X (enc body))) (enc body))]"
proof -
  define d where "d = edit_header (applyHTTPErrorHeaders err) (c1\<lparr>cx_responseErr := Some err\<rparr>)"
  have d: "rs_wire (cx_response d) = rs_wire (cx_response c1)" "\<not> Committed (cx_response d)"
    "rs_header (cx_response d) = applyHTTPErrorHeaders err (rs_header (cx_response c1))"
    "resp_inv (cx_response d)" "rs_hooks (cx_response d) = rs_hooks (cx_response c1)" "cx_responseErr d = Some err"
    using assms(2,3) by (simp_all add: d_def edit_header_def Committed_def)
  have st: "status = StatusCode err"
    using assms(6) by (auto simp: error_body_for_def Let_def StatusCode_def split: if_splits)
  obtain n werr where w: "sl_write X (enc body) = (n, werr)" by fastforce
  have hooks: "rs_hooks (cx_response d) = map (\<lambda>f h. Return (f h)) fs" using assms(4) d(5) by simp
  have range: "200 \<le> status" "status \<le> 999" using error_status [of err] st by simp_all
  obtain c' where c': "send_body (sl_write X) ctype status (enc body) d = (c', Return werr)"
      "Committed (cx_response c')" "cx_responseErr c' = Some err"
      "rs_wire (cx_response c') = rs_wire (cx_response c1) @
        [Head status (fold (\<lambda>f h. f h) fs (header_set ''Content-Type'' ctype
            (applyHTTPErrorHeaders err (rs_header (cx_response c1))))), Body (take n (enc body))]"
    using send_body_wire [where uw = "sl_write X" and body = "enc body", OF d(2,4) range hooks w, of ctype]
    unfolding d(1,3,6) by blast
  have "renderErrorSafely (sl_write X) (renderHTTPError (sl_write X) enc problem) err d = (c', Return ())"
    using d(2) c'(1) by (simp add: renderErrorSafely_def renderHTTPError_def assms(6))
  then have "(c2, x) = (c', Return ())"
    using assms(1,5) c'(2) by (simp add: handle_request_def d_def commit_default_def)
  with c' st w show ?thesis by simp
qed

text \<open>An error a handler returns before anything was sent becomes the response: the status and body of the
  error mapping in the chosen format, with the error's headers, and the commit
  hooks applied to them; nothing else is sent, and the hooks find the error in the context.\<close>

theorem error_rendered:
  assumes "entry c = (c1, Return (Some err))" "\<not> Committed (cx_response c1)" "resp_inv (cx_response c1)"
    and "rs_hooks (cx_response c1) = map (\<lambda>f h. Return (f h)) fs"
    and "handle_request X entry (renderHTTPError (sl_write X) enc problem) c = (c2, x)"
    and "error_body_for problem err = (ctype, status, body)"
  shows "x = Return () \<and> status = StatusCode err \<and> cx_responseErr c2 = Some err \<and>
    rs_wire (cx_response c2) = rs_wire (cx_response c1) @
      [Head status (fold (\<lambda>f h. f h) fs (header_set ''Content-Type'' ctype
          (applyHTTPErrorHeaders err (rs_header (cx_response c1))))),
       Body (take (fst (sl_write X (enc body))) (enc body))]"
  using assms by (rule error_response)

theorem error_rendered_witness:
  "snd (handle_request demo_server (\<lambda>c. (c, Return (Some (HTTPErr (Some (NotFoundHTTP ''x'' ''y''))))))
     (renderHTTPError (sl_write demo_server) (\<lambda>b. ''{}'') False) demo_request_ctx) = Return ()"
proof -
  let ?err = "HTTPErr (Some (NotFoundHTTP ''x'' ''y''))"
  obtain c2 x where h: "handle_request demo_server (\<lambda>c. (c, Return (Some ?err)))
     (renderHTTPError (sl_write demo_server) (\<lambda>b. ''{}'') False) demo_request_ctx = (c2, x)" by fastforce
  obtain ctype status body where b: "error_body_for False ?err = (ctype, status, body)" by (metis surj_pair)
  have "\<not> Committed (cx_response demo_request_ctx)" "resp_inv (cx_response demo_request_ctx)"
    "rs_hooks (cx_response demo_request_ctx) = map (\<lambda>f h. Return (f h)) []"
    by (simp_all add: demo_request_ctx_def newContext_def Committed_def newResponse_def resp_inv_new [unfolded newResponse_def])
  from error_rendered [OF refl this h b] h show ?thesis by simp
qed

text \<open>The dispatcher without a cache.\<close>

definition dispatch_uncached :: "server_lib \<Rightarrow> mux_table \<Rightarrow> handler" where
  "dispatch_uncached X t c = dispatch X t (c\<lparr>cx_match := fresh_match X t (cx_request c)\<rparr>)"

lemma dispatch_uncached: "cache_ok X t (cx_match c) \<Longrightarrow> dispatch X t c = dispatch_uncached X t c"
  by (simp add: dispatch_def dispatch_uncached_def resolve_fresh)

text \<open>
  A middleware that gets at the cache only through the next handler: given two framed handlers that
  agree on every context with a correct cache, it behaves the same with both there.
\<close>

definition cache_blind :: "(muxMatch \<Rightarrow> bool) \<Rightarrow> middleware \<Rightarrow> bool" where
  "cache_blind ok m \<longleftrightarrow> framed_middleware ok m \<and> (\<forall>h h'. framed ok h \<longrightarrow> framed ok h' \<longrightarrow>
     (\<forall>c. ok (cx_match c) \<longrightarrow> h c = h' c) \<longrightarrow> (\<forall>c. ok (cx_match c) \<longrightarrow> m h c = m h' c))"

lemma chain_blind:
  assumes "\<And>m. m \<in> set ms \<Longrightarrow> cache_blind ok m" "framed ok h" "framed ok h'"
    "\<And>c. ok (cx_match c) \<Longrightarrow> h c = h' c"
  shows "ok (cx_match c) \<Longrightarrow> chain h ms c = chain h' ms c"
  using assms(1)
proof (induction ms arbitrary: c)
  case Nil
  with assms(4) show ?case by simp
next
  case (Cons m ms)
  have fm: "framed ok (chain h ms)" "framed ok (chain h' ms)"
    using assms(2,3) Cons.prems(2) by (auto intro!: chain_framed simp: cache_blind_def)
  with Cons show ?case by (simp add: cache_blind_def)
qed

text \<open>C35. The routing cache is invisible: whatever the middleware rewrites in the request, a request is served
  exactly as if every dispatch looked its route up again.\<close>

theorem match_cache_transparent:
  assumes "mux_ok X t" "\<And>m. m \<in> set ms \<Longrightarrow> cache_blind (cache_ok X t) m" "ms \<noteq> []"
    and "mux_Handler X t (cx_request c) = (h, pattern)" "c = newContext running w rq"
  shows "compiledRoot X t ms c = chain (dispatch_uncached X t) ms
    (c\<lparr>cx_match := fresh_match X t rq, cx_route := (case map_of t pattern of None \<Rightarrow> None | Some e \<Rightarrow> Some (fst e))\<rparr>)"
proof -
  have ok: "cache_ok X t (cx_match c)" using assms(5) by simp
  have c: "cx_request c = rq" "cx_route c = None" using assms(5) by (simp_all add: newContext_def)
  have f: "framed (cache_ok X t) (dispatch X t)" by (rule dispatch_framed [OF assms(1)])
  have fu: "framed (cache_ok X t) (dispatch_uncached X t)"
    unfolding framed_def
  proof
    fix d
    have "ctx_step (cache_ok X t) d (d\<lparr>cx_match := fresh_match X t (cx_request d)\<rparr>)" by (simp add: ctx_step_def)
    also have "ctx_step (cache_ok X t) \<dots> (fst (dispatch_uncached X t d))"
      using f by (simp add: framed_def dispatch_uncached_def)
    finally show "ctx_step (cache_ok X t) d (fst (dispatch_uncached X t d))" .
  qed
  let ?d = "c\<lparr>cx_match := fresh_match X t rq, cx_route := (case map_of t pattern of None \<Rightarrow> None | Some e \<Rightarrow> Some (fst e))\<rparr>"
  have d: "?d = (case map_of t pattern of None \<Rightarrow> c\<lparr>cx_match := fresh_match X t rq\<rparr>
      | Some e \<Rightarrow> c\<lparr>cx_match := fresh_match X t rq, cx_route := Some (fst e)\<rparr>)"
    using c(2) by (cases c) (simp split: option.split)
  have "compiledRoot X t ms c = chain (dispatch X t) ms ?d"
    using assms(3,4) c(1) d by (simp add: compiledRoot_def resolve_fresh [OF ok])
  also have "\<dots> = chain (dispatch_uncached X t) ms ?d"
    by (rule chain_blind [OF assms(2) f fu dispatch_uncached]) simp_all
  finally show ?thesis .
qed

theorem match_cache_transparent_witness:
  "compiledRoot demo_server [] [\<lambda>h c. h (c\<lparr>cx_request := (cx_request c)\<lparr>req_url := ''/b''\<rparr>\<rparr>)] demo_request_ctx =
     dispatch_uncached demo_server [] (demo_request_ctx\<lparr>cx_match := fresh_match demo_server [] (cx_request demo_request_ctx),
       cx_request := (cx_request demo_request_ctx)\<lparr>req_url := ''/b''\<rparr>\<rparr>)"
proof -
  let ?m = "\<lambda>(h :: handler) c. h (c\<lparr>cx_request := (cx_request c)\<lparr>req_url := ''/b''\<rparr>\<rparr>)"
  have b: "cache_blind ok ?m" for ok
    unfolding cache_blind_def framed_middleware_def by (auto intro!: framed_pre)
  have o: "mux_ok demo_server []" by (simp add: mux_ok_def demo_server_def)
  obtain h p where hp: "mux_Handler demo_server [] (cx_request demo_request_ctx) = (h, p)" by fastforce
  show ?thesis
    using match_cache_transparent [OF o _ _ hp, of "[?m]"] b
    by (simp add: demo_request_ctx_def newContext_def)
qed

end
