(* ===== verification/Build.thy ===== *)
theory Build
  imports Serve
begin

text \<open>
  \<open>Build\<close> validates an application and freezes it (\<open>app.go\<close>, \<open>validateTasks\<close> of \<open>task.go\<close>), and the
  operations that rest on it: \<open>ServeHTTP\<close>, \<open>Routes\<close> and \<open>URL\<close>.
\<close>

section \<open>Validation\<close>

fun validate_modules :: "string list \<Rightarrow> string list \<Rightarrow> goerr option" where
  "validate_modules seen [] = None"
| "validate_modules seen (name # names) =
     (if \<not> validRegistrationName name then Some (Opaque (''invalid module name '' @ name))
      else if name \<in> set seen then Some (Opaque (''duplicate module name '' @ name))
      else validate_modules (name # seen) names)"

fun validate_tasks :: "string list \<Rightarrow> taskDefinition list \<Rightarrow> goerr option" where
  "validate_tasks seen [] = None"
| "validate_tasks seen (d # ds) =
     (if \<not> validRegistrationName (td_name d) then Some (Opaque (''invalid task name '' @ td_name d))
      else if td_task d = None then Some (Opaque (''task '' @ td_name d @ '' is nil''))
      else if td_name d \<in> set seen then Some (Opaque (''duplicate task name '' @ td_name d))
      else validate_tasks (td_name d # seen) ds)"

definition validateTasks :: "taskDefinition list \<Rightarrow> goerr option" where
  "validateTasks ds = validate_tasks [] ds"

section \<open>Endpoints\<close>

definition raw_endpoint :: "raw_handler \<Rightarrow> handler" where
  "raw_endpoint raw c = (case raw c of (c, Panic msg) \<Rightarrow> (c, Panic msg) | (c, Return u) \<Rightarrow> (c, Return None))"

text \<open>A definition has one of the two handlers; without any, the call of a nil handler panics.\<close>

definition base_endpoint :: "routeDefinition \<Rightarrow> handler" where
  "base_endpoint d = (case rd_handler d of Some h \<Rightarrow> h
     | None \<Rightarrow> (case rd_http d of Some raw \<Rightarrow> raw_endpoint raw
         | None \<Rightarrow> (\<lambda>c. (c, Panic ''nil pointer dereference''))))"

definition endpoint_of :: "routeDefinition \<Rightarrow> handler" where
  "endpoint_of d = chain (base_endpoint d) (rd_middleware d)"

definition counted :: "nat \<Rightarrow> routeDefinition \<Rightarrow> routeDefinition" where
  "counted n d = d\<lparr>rd_route := (rd_route d)\<lparr>rt_MiddlewareCount := n + length (rd_middleware d)\<rparr>\<rparr>"

definition route_error :: "server_lib \<Rightarrow> (string \<rightharpoonup> route) \<Rightarrow> mux_table \<Rightarrow> routeDefinition \<Rightarrow> goerr option" where
  "route_error X names t d =
    (let r = rd_route d
     in if rd_handler d \<noteq> None \<and> (rt_Method r = [] \<or> contains_any (rt_Method r) [CHR '' '', CHR 0x09, CHR 0x0D, CHR 0x0A])
        then Some (Opaque (''route '' @ rt_Path r @ '' has invalid method '' @ rt_Method r))
        else if rd_hasName d \<and> \<not> validRegistrationName (rt_Name r)
        then Some (Opaque (''route '' @ rt_Pattern r @ '' has invalid name '' @ rt_Name r))
        else if rd_hasName d \<and> names (rt_Name r) \<noteq> None
        then Some (Opaque (''duplicate route name '' @ rt_Name r))
        else (case sl_conflict X (map fst t) (rt_Pattern r) of None \<Rightarrow> None
          | Some msg \<Rightarrow> Some (Wrapf (''register route '' @ rt_Pattern r @ '': '') (Opaque msg))))"

text \<open>The loop over the routes; the counts of those it came to are kept also when one of them is refused.\<close>

fun build_routes :: "server_lib \<Rightarrow> nat \<Rightarrow> routeDefinition list \<Rightarrow> (string \<rightharpoonup> route) \<Rightarrow> mux_table \<Rightarrow>
    routeDefinition list \<times> ((string \<rightharpoonup> route) \<times> mux_table) result" where
  "build_routes X n [] names t = ([], Inr (names, t))"
| "build_routes X n (d # ds) names t =
    (let d = counted n d; r = rd_route d
     in case route_error X names t d of
          Some err \<Rightarrow> (d # ds, Inl err)
        | None \<Rightarrow>
            (case build_routes X n ds (if rd_hasName d then names(rt_Name r \<mapsto> r) else names)
                (t @ [(rt_Pattern r, r, endpoint_of d)]) of
               (ds, res) \<Rightarrow> (d # ds, res)))"

section \<open>Build\<close>

definition refuse :: "goerr \<Rightarrow> app \<Rightarrow> app \<times> goerr option" where
  "refuse err a = (a\<lparr>app_buildErr := Some err\<rparr>, Some err)"

definition Build :: "server_lib \<Rightarrow> app \<Rightarrow> app \<times> goerr option" where
  "Build X a =
    (if frozen a then (a, app_buildErr a)
     else
       let a = a\<lparr>app_state := applicationBuilt\<rparr>
       in case validate_config (app_config a) of
            Some err \<Rightarrow> refuse (Wrapf ''invalid application configuration: '' err) a
          | None \<Rightarrow>
         (case validate_modules [] (app_modules a) of Some err \<Rightarrow> refuse err a | None \<Rightarrow>
         (case validateTasks (app_tasks a) of Some err \<Rightarrow> refuse err a | None \<Rightarrow>
         (case build_routes X (length (app_middleware a)) (app_routes a) (\<lambda>_. None) [] of
            (ds, Inl err) \<Rightarrow> refuse err (a\<lparr>app_routes := ds\<rparr>)
          | (ds, Inr (names, t)) \<Rightarrow>
              let a = a\<lparr>app_routes := ds, app_table := t\<rparr>
              in case chainHTTP (app_serveHTTP X a) (app_httpMiddleware a) of
                   None \<Rightarrow> refuse (Opaque ''standard HTTP middleware returned a nil handler'') a
                 | Some serve \<Rightarrow>
                     (a\<lparr>app_compiledHTTP := Some serve, app_namedRoutes := names, app_built := True\<rparr>, None)))))"

section \<open>Operations of a built application\<close>

definition app_Routes :: "server_lib \<Rightarrow> app \<Rightarrow> app \<times> route list result" where
  "app_Routes X a = (case Build X a of
     (a, Some err) \<Rightarrow> (a, Inl err)
   | (a, None) \<Rightarrow> (a, Inr (map rd_route (app_routes a))))"

definition app_URL :: "server_lib \<Rightarrow> app \<Rightarrow> string \<Rightarrow> (string \<times> string) list \<Rightarrow> app \<times> string result" where
  "app_URL X a name ps = (case (if app_built a then (a, None) else Build X a) of
     (a, Some err) \<Rightarrow> (a, Inl err)
   | (a, None) \<Rightarrow> (a, route_URL (app_namedRoutes a) name ps))"

text \<open>\<open>http.Error\<close> with the fixed text.\<close>

definition initialization_failed :: "(string \<Rightarrow> nat \<times> goerr option) \<Rightarrow> header \<Rightarrow> response \<times> unit outcome" where
  "initialization_failed uw h = (case WriteHeader 500
       (newResponse (header_set ''Content-Type'' ''text/plain; charset=utf-8''
         (header_set ''X-Content-Type-Options'' ''nosniff'' (header_del ''Content-Length'' h)))) of
     (r, Panic msg) \<Rightarrow> (r, Panic msg)
   | (r, Return u) \<Rightarrow> drop_result (response_Write uw (''framework initialization failed'' @ [CHR 0x0A]) r))"

definition app_ServeHTTP :: "server_lib \<Rightarrow> app \<Rightarrow> request \<Rightarrow> header \<Rightarrow> app \<times> response \<times> unit outcome" where
  "app_ServeHTTP X a rq h = (case (if app_built a then (a, None) else Build X a) of
     (a, Some err) \<Rightarrow> (a, initialization_failed (sl_write X) h)
   | (a, None) \<Rightarrow> (case app_compiledHTTP a of
       None \<Rightarrow> (a, newResponse h, Panic ''nil pointer dereference'')
     | Some serve \<Rightarrow> (a, serve (app_state a = applicationRunning) rq h)))"

section \<open>What Build accepts\<close>

lemma validate_modules_None:
  "validate_modules seen names = None \<longleftrightarrow>
     (\<forall>n \<in> set names. validRegistrationName n) \<and> distinct names \<and> set names \<inter> set seen = {}"
  by (induction names arbitrary: seen) auto

lemma validate_tasks_None:
  "validate_tasks seen ds = None \<longleftrightarrow>
     (\<forall>d \<in> set ds. validRegistrationName (td_name d) \<and> td_task d \<noteq> None) \<and>
     distinct (map td_name ds) \<and> td_name ` set ds \<inter> set seen = {}"
  by (induction ds arbitrary: seen) auto

lemma counted_fields [simp]:
  "rt_Name (rd_route (counted n d)) = rt_Name (rd_route d)" "rt_Pattern (rd_route (counted n d)) = rt_Pattern (rd_route d)"
  "rt_Method (rd_route (counted n d)) = rt_Method (rd_route d)" "rd_hasName (counted n d) = rd_hasName d"
  "rd_handler (counted n d) = rd_handler d" "rd_middleware (counted n d) = rd_middleware d" "rd_http (counted n d) = rd_http d"
  by (simp_all add: counted_def)

abbreviation named :: "routeDefinition list \<Rightarrow> routeDefinition list" where "named \<equiv> filter rd_hasName"
abbreviation def_name :: "routeDefinition \<Rightarrow> string" where "def_name d \<equiv> rt_Name (rd_route d)"
abbreviation def_pattern :: "routeDefinition \<Rightarrow> string" where "def_pattern d \<equiv> rt_Pattern (rd_route d)"

definition method_ok :: "routeDefinition \<Rightarrow> bool" where
  "method_ok d \<longleftrightarrow> rd_handler d = None \<or> (rt_Method (rd_route d) \<noteq> [] \<and>
     \<not> contains_any (rt_Method (rd_route d)) [CHR '' '', CHR 0x09, CHR 0x0D, CHR 0x0A])"

text \<open>The routes are accepted after the patterns \<open>ps\<close>.\<close>

definition routes_ok :: "server_lib \<Rightarrow> string list \<Rightarrow> routeDefinition list \<Rightarrow> bool" where
  "routes_ok X ps ds \<longleftrightarrow> (\<forall>d \<in> set ds. method_ok d) \<and> (\<forall>d \<in> set (named ds). validRegistrationName (def_name d)) \<and>
     distinct (map def_name (named ds)) \<and>
     (\<forall>i < length ds. sl_conflict X (ps @ map def_pattern (take i ds)) (def_pattern (ds ! i)) = None)"

lemma routes_ok_Nil [simp]: "routes_ok X ps []"
  by (simp add: routes_ok_def)

lemma routes_ok_Cons:
  "routes_ok X ps (d # ds) \<longleftrightarrow> method_ok d \<and> (rd_hasName d \<longrightarrow> validRegistrationName (def_name d) \<and>
     def_name d \<notin> def_name ` set (named ds)) \<and> sl_conflict X ps (def_pattern d) = None \<and>
     routes_ok X (ps @ [def_pattern d]) ds"
proof -
  have "(\<forall>i < length (d # ds). sl_conflict X (ps @ map def_pattern (take i (d # ds))) (def_pattern ((d # ds) ! i)) = None) \<longleftrightarrow>
      sl_conflict X ps (def_pattern d) = None \<and>
      (\<forall>i < length ds. sl_conflict X ((ps @ [def_pattern d]) @ map def_pattern (take i ds)) (def_pattern (ds ! i)) = None)"
    unfolding length_Cons All_less_Suc2 by simp
  then show ?thesis unfolding routes_ok_def by auto
qed

lemma route_error_None:
  "route_error X names t d = None \<longleftrightarrow> method_ok d \<and>
     (rd_hasName d \<longrightarrow> validRegistrationName (def_name d) \<and> names (def_name d) = None) \<and>
     sl_conflict X (map fst t) (def_pattern d) = None"
  by (auto simp: route_error_def method_ok_def Let_def split: option.split)

definition table_of :: "routeDefinition list \<Rightarrow> mux_table" where
  "table_of ds = map (\<lambda>d. (def_pattern d, rd_route d, endpoint_of d)) ds"

definition names_of :: "routeDefinition list \<Rightarrow> string \<rightharpoonup> route" where
  "names_of ds = map_of (map (\<lambda>d. (def_name d, rd_route d)) (named ds))"

lemma table_of_simps [simp]:
  "table_of [] = []" "table_of (d # ds) = (def_pattern d, rd_route d, endpoint_of d) # table_of ds"
  by (simp_all add: table_of_def)

lemma names_of_simps [simp]:
  "names_of [] = (\<lambda>_. None)"
  "names_of (d # ds) = (if rd_hasName d then (names_of ds)(def_name d \<mapsto> rd_route d) else names_of ds)"
  by (simp_all add: names_of_def)

lemma dom_names_of: "dom (names_of ds) = def_name ` set (named ds)"
  by (simp add: names_of_def dom_map_of_conv_image_fst image_image)

lemma named_counted [simp]: "def_name ` set (named (map (counted n) ds)) = def_name ` set (named ds)"
  by (induction ds) auto

lemma map_add_update_absent: "k \<notin> dom m \<Longrightarrow> names(k \<mapsto> r) ++ m = names ++ m(k \<mapsto> r)"
  by (auto simp: map_add_def fun_eq_iff split: option.split)

lemma build_routes_Inr:
  "build_routes X n ds names t = (ds', Inr (names', t')) \<longleftrightarrow>
     routes_ok X (map fst t) ds \<and> dom names \<inter> def_name ` set (named ds) = {} \<and>
     ds' = map (counted n) ds \<and> t' = t @ table_of ds' \<and> names' = names ++ names_of ds'"
proof (induction ds arbitrary: names t ds')
  case Nil
  then show ?case by (auto simp: table_of_def names_of_def)
next
  case (Cons d ds)
  let ?d = "counted n d"
  have e: "endpoint_of ?d = endpoint_of d" by (simp add: endpoint_of_def base_endpoint_def split: option.split)
  have mo: "method_ok ?d = method_ok d" by (simp add: method_ok_def)
  have upd: "names(def_name d \<mapsto> r) ++ names_of (map (counted n) ds) =
      names ++ (names_of (map (counted n) ds))(def_name d \<mapsto> r)"
    if "def_name d \<notin> def_name ` set (named ds)" for r
    using that by (intro map_add_update_absent) (simp only: dom_names_of named_counted not_False_eq_True)
  show ?case
  proof (cases "route_error X names t ?d")
    case (Some err)
    then have "\<not> (routes_ok X (map fst t) (d # ds) \<and> dom names \<inter> def_name ` set (named (d # ds)) = {})"
      using route_error_None [of X names t ?d] by (auto simp: routes_ok_Cons mo split: if_splits)
    moreover have "build_routes X n (d # ds) names t \<noteq> (ds', Inr (names', t'))" using Some by (simp add: Let_def)
    ultimately show ?thesis by blast
  next
    case None
    note ok = None [unfolded route_error_None, unfolded mo counted_fields]
    obtain ds1 res where b: "build_routes X n ds (if rd_hasName d then names(def_name d \<mapsto> rd_route ?d) else names)
        (t @ [(def_pattern d, rd_route ?d, endpoint_of ?d)]) = (ds1, res)" by fastforce
    then have l: "build_routes X n (d # ds) names t = (?d # ds1, res)"
      using None by (cases "rd_hasName d") (simp_all add: Let_def)
    have "build_routes X n (d # ds) names t = (ds', Inr (names', t')) \<longleftrightarrow> (\<exists>ds2. ds' = ?d # ds2 \<and>
        build_routes X n ds (if rd_hasName d then names(def_name d \<mapsto> rd_route ?d) else names)
          (t @ [(def_pattern d, rd_route ?d, endpoint_of ?d)]) = (ds2, Inr (names', t')))"
      unfolding l b by auto
    also have "\<dots> \<longleftrightarrow> ds' = map (counted n) (d # ds) \<and> routes_ok X (map fst t @ [def_pattern d]) ds \<and>
        dom (if rd_hasName d then names(def_name d \<mapsto> rd_route ?d) else names) \<inter> def_name ` set (named ds) = {} \<and>
        t' = t @ table_of (map (counted n) (d # ds)) \<and>
        names' = (if rd_hasName d then names(def_name d \<mapsto> rd_route ?d) else names) ++ names_of (map (counted n) ds)"
      unfolding Cons.IH by (simp add: conj_comms)
    also have "\<dots> \<longleftrightarrow> routes_ok X (map fst t) (d # ds) \<and> dom names \<inter> def_name ` set (named (d # ds)) = {} \<and>
        ds' = map (counted n) (d # ds) \<and> t' = t @ table_of ds' \<and> names' = names ++ names_of ds'"
    proof (cases "rd_hasName d")
      case True
      with ok show ?thesis
        by (cases "def_name d \<in> def_name ` set (named ds)") (auto simp: routes_ok_Cons upd)
    next
      case False
      with ok show ?thesis by (auto simp: routes_ok_Cons)
    qed
    finally show ?thesis .
  qed
qed

section \<open>Reachable applications\<close>

text \<open>
  What a program and the lifecycle do with one application: registration calls that return, \<open>Register\<close>,
  \<open>Build\<close>, and the states a run goes through once it is built. \<open>staging\<close> is the application of a registrar.
\<close>

inductive app_reachable :: "server_lib \<Rightarrow> app \<Rightarrow> app \<Rightarrow> bool" for X staging where
  new: "app_reachable X staging (new_app eh cfg)"
| call: "app_reachable X staging a \<Longrightarrow> reg_exec x (a, gs) = Return (a', gs') \<Longrightarrow> app_reachable X staging a'"
| modules: "app_reachable X staging a \<Longrightarrow> app_Register staging ms a = (a', x) \<Longrightarrow> app_reachable X staging a'"
| build: "app_reachable X staging a \<Longrightarrow> Build X a = (a', e) \<Longrightarrow> app_reachable X staging a'"
| run: "app_reachable X staging a \<Longrightarrow> app_built a \<Longrightarrow> state_rank s > state_rank applicationBuilt \<Longrightarrow>
    app_reachable X staging (a\<lparr>app_state := s\<rparr>)"

definition app_inv :: "server_lib \<Rightarrow> app \<Rightarrow> bool" where
  "app_inv X a \<longleftrightarrow> (if \<not> frozen a then app_buildErr a = None \<and> \<not> app_built a
     else if \<not> app_built a then app_buildErr a \<noteq> None
     else app_buildErr a = None \<and> app_compiledHTTP a \<noteq> None \<and> routes_ok X [] (app_routes a) \<and>
       app_namedRoutes a = names_of (app_routes a) \<and> app_table a = table_of (app_routes a) \<and>
       distinct (app_modules a) \<and> distinct (map td_name (app_tasks a)))"

text \<open>A registration touches none of the fields \<open>Build\<close> sets.\<close>

lemma register_with_keeps:
  assumes "register_with f a = Return a'" "\<And>b. app_buildErr (f b) = app_buildErr b \<and> app_built (f b) = app_built b \<and> app_state (f b) = app_state b"
  shows "\<not> frozen a \<and> \<not> frozen a' \<and> app_buildErr a' = app_buildErr a \<and> app_built a' = app_built a"
  using register_with_Return [OF assms(1)] assms(2) by (simp add: frozen_def state_rank_def)

lemma reg_exec_keeps:
  assumes "reg_exec x (a, gs) = Return (a', gs')"
  shows "a' = a \<or> (\<not> frozen a \<and> \<not> frozen a' \<and> app_buildErr a' = app_buildErr a \<and> app_built a' = app_built a)"
proof -
  have r: "register_with f a = Return a' \<Longrightarrow>
      (\<And>b. app_buildErr (f b) = app_buildErr b \<and> app_built (f b) = app_built b \<and> app_state (f b) = app_state b) \<Longrightarrow> ?thesis" for f
    using register_with_keeps by blast
  from assms show ?thesis
  proof (cases x)
    case (RGroupUse n ms)
    with assms show ?thesis
      by (auto simp: group_Use_def ensureMutable_def frozen_def state_rank_def split: if_splits)
  qed (auto simp: reg_defs split: if_splits outcome.splits option.splits elim!: r)
qed

lemma Register_keeps:
  "app_Register staging ms a = (a', x) \<Longrightarrow>
   a' = a \<or> (\<not> frozen a \<and> \<not> frozen a' \<and> app_buildErr a' = app_buildErr a \<and> app_built a' = app_built a)"
  by (auto simp: app_Register_def commit_modules_def frozen_def state_rank_def
      split: if_splits outcome.splits sum.splits prod.splits)

lemma routes_ok_counted [simp]: "routes_ok X ps (map (counted n) ds) = routes_ok X ps ds"
proof (induction ds arbitrary: ps)
  case (Cons d ds)
  have "method_ok (counted n d) = method_ok d" by (simp add: method_ok_def)
  moreover have "{x \<in> counted n ` set ds. rd_hasName x} = counted n ` {x \<in> set ds. rd_hasName x}" by auto
  then have "def_name ` {x \<in> counted n ` set ds. rd_hasName x} = def_name ` {x \<in> set ds. rd_hasName x}"
    by (simp add: image_image)
  ultimately show ?case using Cons by (simp add: routes_ok_Cons)
qed simp

text \<open>The application whose handler \<open>Build\<close> compiles.\<close>

definition counted_app :: "app \<Rightarrow> app" where
  "counted_app a = (let ds = map (counted (length (app_middleware a))) (app_routes a)
     in a\<lparr>app_state := applicationBuilt, app_routes := ds, app_table := table_of ds\<rparr>)"

definition build_ok :: "server_lib \<Rightarrow> app \<Rightarrow> bool" where
  "build_ok X a \<longleftrightarrow> validate_config (app_config a) = None \<and>
     (\<forall>n \<in> set (app_modules a). validRegistrationName n) \<and> distinct (app_modules a) \<and>
     (\<forall>d \<in> set (app_tasks a). validRegistrationName (td_name d) \<and> td_task d \<noteq> None) \<and>
     distinct (map td_name (app_tasks a)) \<and> routes_ok X [] (app_routes a) \<and>
     chainHTTP (app_serveHTTP X (counted_app a)) (app_httpMiddleware a) \<noteq> None"

lemma Build_None:
  assumes "\<not> frozen a" "build_ok X a"
  shows "\<exists>serve. chainHTTP (app_serveHTTP X (counted_app a)) (app_httpMiddleware a) = Some serve \<and>
    Build X a = ((counted_app a)\<lparr>app_compiledHTTP := Some serve,
    app_namedRoutes := names_of (app_routes (counted_app a)), app_built := True\<rparr>, None)"
proof -
  have "build_routes X (length (app_middleware a)) (app_routes a) (\<lambda>_. None) [] =
      (app_routes (counted_app a), Inr (names_of (app_routes (counted_app a)), app_table (counted_app a)))"
    using assms(2) by (simp add: build_routes_Inr counted_app_def build_ok_def Let_def)
  moreover have "validate_modules [] (app_modules a) = None" "validateTasks (app_tasks a) = None"
    using assms(2) by (simp_all add: build_ok_def validate_modules_None validateTasks_def validate_tasks_None)
  moreover obtain serve where "chainHTTP (app_serveHTTP X (counted_app a)) (app_httpMiddleware a) = Some serve"
    using assms(2) by (auto simp: build_ok_def)
  ultimately show ?thesis using assms
    by (intro exI [of _ serve]) (simp add: Build_def build_ok_def Let_def counted_app_def)
qed

lemma Build_Some:
  assumes "\<not> frozen a" "\<not> build_ok X a"
  shows "snd (Build X a) \<noteq> None \<and> app_buildErr (fst (Build X a)) = snd (Build X a) \<and>
    app_state (fst (Build X a)) = applicationBuilt \<and> app_built (fst (Build X a)) = app_built a"
proof -
  obtain ds res where b: "build_routes X (length (app_middleware a)) (app_routes a) (\<lambda>_. None) [] = (ds, res)" by fastforce
  show ?thesis
  proof (cases res)
    case (Inl err)
    with assms(1) b show ?thesis
      by (cases "validate_config (app_config a)"; cases "validate_modules [] (app_modules a)";
          cases "validateTasks (app_tasks a)") (simp_all add: Build_def refuse_def Let_def)
  next
    case (Inr p)
    then obtain names t where r: "res = Inr (names, t)" by (cases p) auto
    with b r have s: "routes_ok X [] (app_routes a)" "ds = app_routes (counted_app a)" "t = app_table (counted_app a)"
      by (auto simp: build_routes_Inr counted_app_def Let_def)
    have m: "validate_modules [] (app_modules a) = None \<longleftrightarrow> (\<forall>n \<in> set (app_modules a). validRegistrationName n) \<and>
        distinct (app_modules a)"
      "validateTasks (app_tasks a) = None \<longleftrightarrow> (\<forall>d \<in> set (app_tasks a). validRegistrationName (td_name d) \<and> td_task d \<noteq> None) \<and>
        distinct (map td_name (app_tasks a))"
      by (auto simp: validate_modules_None validateTasks_def validate_tasks_None)
    from assms(2) s(1) m have "validate_config (app_config a) \<noteq> None \<or> validate_modules [] (app_modules a) \<noteq> None \<or>
        validateTasks (app_tasks a) \<noteq> None \<or> chainHTTP (app_serveHTTP X (counted_app a)) (app_httpMiddleware a) = None"
      by (auto simp: build_ok_def)
    with assms(1) b r s(2,3) show ?thesis
      by (cases "validate_config (app_config a)"; cases "validate_modules [] (app_modules a)";
          cases "validateTasks (app_tasks a)") (simp_all add: Build_def refuse_def Let_def counted_app_def)
  qed
qed

lemma frozen_state [simp]: "frozen (a\<lparr>app_state := s\<rparr>) \<longleftrightarrow> state_rank s \<ge> state_rank applicationBuilt"
  "app_state a = applicationBuilt \<Longrightarrow> frozen a"
  by (simp_all add: frozen_def)

lemma app_inv_build:
  assumes "app_inv X a"
  shows "app_inv X (fst (Build X a)) \<and> frozen (fst (Build X a)) \<and> app_buildErr (fst (Build X a)) = snd (Build X a)"
proof (cases "frozen a")
  case True
  with assms show ?thesis by (simp add: Build_def)
next
  case False
  with assms have i: "app_buildErr a = None" "\<not> app_built a" by (simp_all add: app_inv_def)
  show ?thesis
  proof (cases "build_ok X a")
    case True
    obtain serve where b: "Build X a = ((counted_app a)\<lparr>app_compiledHTTP := Some serve,
        app_namedRoutes := names_of (app_routes (counted_app a)), app_built := True\<rparr>, None)"
      using Build_None [OF False True] by blast
    from True i show ?thesis unfolding b
      by (simp add: app_inv_def build_ok_def counted_app_def Let_def frozen_def state_rank_def)
  next
    case no: False
    from Build_Some [OF False no] i show ?thesis by (simp add: app_inv_def)
  qed
qed

lemma app_reachable_inv: "app_reachable X staging a \<Longrightarrow> app_inv X a"
proof (induction rule: app_reachable.induct)
  case (new eh cfg)
  then show ?case by (simp add: app_inv_def new_app_def frozen_def state_rank_def)
next
  case (call a x gs a' gs')
  from reg_exec_keeps [OF call.hyps(2)] call.IH show ?case
    by (cases "a' = a") (simp_all add: app_inv_def)
next
  case (modules a ms a' x)
  from Register_keeps [OF modules.hyps(2)] modules.IH show ?case
    by (cases "a' = a") (simp_all add: app_inv_def)
next
  case (build a a' e)
  then show ?case using app_inv_build [of X a] by simp
next
  case (run a s)
  then show ?case by (auto simp: app_inv_def split: if_splits)
qed

section \<open>Modules\<close>

text \<open>The module's script runs to its end on the staging application \<open>staging\<close> and leaves \<open>s\<close>.\<close>

definition module_staged :: "app \<Rightarrow> module option \<Rightarrow> app \<Rightarrow> bool" where
  "module_staged staging m s \<longleftrightarrow> (case m of None \<Rightarrow> False
     | Some m \<Rightarrow> md_err m = None \<and> (\<exists>gs. reg_script (map (registrar_call (md_name m)) (md_calls m)) (staging, []) = Return (s, gs)))"

abbreviation staged :: "(moduleRegistration \<Rightarrow> 'a list) \<Rightarrow> module option list \<Rightarrow> app list \<Rightarrow> 'a list" where
  "staged f ms ss \<equiv> concat (map2 (\<lambda>m s. f (registrar_close (md_name (the m)) s)) ms ss)"

lemma stage_modules_Inr:
  "stage_modules staging ms = Return (Inr (names, reg)) \<Longrightarrow>
   \<exists>ss. list_all2 (module_staged staging) ms ss \<and> names = map (\<lambda>m. md_name (the m)) ms \<and>
     mr_routes reg = staged mr_routes ms ss \<and> mr_startHooks reg = staged mr_startHooks ms ss \<and>
     mr_stopHooks reg = staged mr_stopHooks ms ss \<and> mr_tasks reg = staged mr_tasks ms ss"
proof (induction ms arbitrary: names reg)
  case Nil
  then show ?case by (intro exI [of _ "[]"]) (auto simp: no_registration_def)
next
  case (Cons mo ms)
  then obtain m where m: "mo = Some m" by (cases mo) auto
  from Cons.prems m obtain a gs names' reg' where s:
      "reg_script (map (registrar_call (md_name m)) (md_calls m)) (staging, []) = Return (a, gs)" "md_err m = None"
      "stage_modules staging ms = Return (Inr (names', reg'))" "names = md_name m # names'"
      "reg = add_registration (registrar_close (md_name m) a) reg'"
    by (auto split: outcome.splits option.splits sum.splits prod.splits)
  from Cons.IH [OF s(3)] obtain ss where ss: "list_all2 (module_staged staging) ms ss" "names' = map (\<lambda>m. md_name (the m)) ms"
      "mr_routes reg' = staged mr_routes ms ss" "mr_startHooks reg' = staged mr_startHooks ms ss"
      "mr_stopHooks reg' = staged mr_stopHooks ms ss" "mr_tasks reg' = staged mr_tasks ms ss" by blast
  moreover have "module_staged staging mo a" using s(1,2) m by (simp add: module_staged_def)
  ultimately show ?case using s(4,5) m
    by (intro exI [of _ "a # ss"]) (simp add: add_registration_def)
qed

lemma distinct_take: "(\<And>j. j < length xs \<Longrightarrow> xs ! j \<notin> set (take j xs)) \<Longrightarrow> distinct xs"
proof (induction xs rule: rev_induct)
  case (snoc x xs)
  have "xs ! j \<notin> set (take j xs)" if "j < length xs" for j
    using snoc.prems [of j] that by (simp add: nth_append)
  with snoc.IH snoc.prems [of "length xs"] show ?case by simp
qed simp

section \<open>Examples\<close>

definition demo_eh :: error_handler where
  "demo_eh = defaultErrorHandler (sl_write demo_server) (\<lambda>b. ''{}'')"

definition demo_definition :: routeDefinition where
  "demo_definition = (newRouteDefinition (handle_route ''GET'' ''/x'') [])\<lparr>rd_handler := Some (NoContent 204)\<rparr>"

definition demo_app :: app where
  "demo_app = (new_app demo_eh defaultConfig)\<lparr>app_state := applicationRegistering, app_routes := [demo_definition]\<rparr>"

definition demo_module :: module where
  "demo_module = \<lparr>md_name = ''m'', md_calls = [ROnStart [Some 7, None]], md_err = None\<rparr>"

lemma demo_definition_fields: "def_pattern demo_definition = ''GET /x''" "rt_Method (rd_route demo_definition) = ''GET''"
  "\<not> rd_hasName demo_definition" "rd_handler demo_definition = Some (NoContent 204)" "rd_middleware demo_definition = []"
  by (simp_all add: demo_definition_def newRouteDefinition_def handle_route_def normalizePath_def has_prefix_def
      routePattern_def has_suffix_def to_upper_def upper_char_def visible_def Let_def)

lemma demo_app_not_frozen: "\<not> frozen demo_app"
  by (simp add: demo_app_def frozen_def state_rank_def)

lemma demo_app_reachable: "app_reachable X staging demo_app"
proof (rule app_reachable.call)
  show "app_reachable X staging (new_app demo_eh defaultConfig)" by (rule app_reachable.new)
  show "reg_exec (RHandle ''GET'' ''/x'' (Some (NoContent 204)) []) (new_app demo_eh defaultConfig, []) = Return (demo_app, [])"
    by (simp add: reg_defs register_with_def ensureMutable_def frozen_def state_rank_def new_app_def demo_app_def demo_definition_def)
qed

lemma demo_app_ok: "build_ok demo_server demo_app"
  by (simp add: build_ok_def demo_app_def new_app_def counted_app_def Let_def routes_ok_def method_ok_def
      demo_definition_fields contains_any_def validate_config_def defaultConfig_def errors_Join_def demo_server_def)

lemma demo_app_built:
  "\<exists>a. Build demo_server demo_app = (a, None) \<and> app_built a \<and> app_routes a = [counted 0 demo_definition] \<and>
     app_table a = [(''GET /x'', rd_route (counted 0 demo_definition), NoContent 204)]"
  using Build_None [OF demo_app_not_frozen demo_app_ok]
  by (auto simp: counted_app_def demo_app_def new_app_def Let_def demo_definition_fields endpoint_of_def base_endpoint_def)

section \<open>Properties\<close>

text \<open>\<open>Build\<close> accepts an application exactly when its options are valid, the names of its modules, tasks and
  named routes are valid and unique, every task has a function, every method is one, no pattern conflicts with an earlier
  one, and no native middleware gives nil. It then counts the middleware of each route and makes every named route available
  under its name.\<close>

theorem build_accepts:
  assumes "\<not> frozen a" "app_reachable X staging a" "Build X a = (a', e)"
  shows "(e = None \<longleftrightarrow> build_ok X a) \<and> app_built a' = (e = None) \<and> app_state a' = applicationBuilt \<and>
    (if e = None then app_routes a' = map (counted (length (app_middleware a))) (app_routes a) \<and>
       (\<forall>d \<in> set (named (app_routes a')). app_namedRoutes a' (def_name d) = Some (rd_route d))
     else app_buildErr a' = e)"
proof (cases "build_ok X a")
  case True
  obtain serve where b: "Build X a = ((counted_app a)\<lparr>app_compiledHTTP := Some serve,
      app_namedRoutes := names_of (app_routes (counted_app a)), app_built := True\<rparr>, None)"
    using Build_None [OF assms(1) True] by blast
  have d: "distinct (map def_name (named (app_routes (counted_app a))))"
    using True by (simp add: build_ok_def counted_app_def Let_def routes_ok_def filter_map o_def)
  have "names_of ds (def_name d) = Some (rd_route d)" if "distinct (map def_name (named ds))" "d \<in> set (named ds)" for d ds
    using that by (simp add: names_of_def map_of_eq_Some_iff o_def)
  from this [OF d] True b assms(3) show ?thesis by (auto simp: counted_app_def Let_def)
next
  case False
  with Build_Some [OF assms(1) False] app_reachable_inv [OF assms(2)] assms(1,3) show ?thesis
    by (auto simp: app_inv_def)
qed

theorem build_accepts_witness: "app_built (fst (Build demo_server demo_app))"
  using build_accepts [OF demo_app_not_frozen demo_app_reachable, of demo_server "fst (Build demo_server demo_app)"
      "snd (Build demo_server demo_app)"] demo_app_ok
  by auto

text \<open>Building is final. After \<open>Build\<close>, accepted or not, no registration has an effect, a module cannot be
  registered, and building again gives the same answer and changes nothing.\<close>

theorem build_freezes:
  assumes "app_reachable X staging a" "Build X a = (a', e)"
  shows "Build Y a' = (a', e) \<and>
    (case reg_exec x (a', gs) of Panic msg \<Rightarrow> True | Return (b, gs') \<Rightarrow> b = a') \<and>
    app_Register staging' ms a' = (a', Return (Some (Opaque ''vial: application is already built'')))"
proof -
  have "frozen a'" "app_buildErr a' = e"
    using app_inv_build [OF app_reachable_inv [OF assms(1)]] assms(2) by simp_all
  then show ?thesis using reg_exec_frozen [of a' x gs] by (simp add: Build_def app_Register_def)
qed

theorem build_freezes_witness:
  "app_Register demo_app [Some demo_module] (fst (Build demo_server demo_app)) =
     (fst (Build demo_server demo_app), Return (Some (Opaque ''vial: application is already built'')))"
  using build_freezes [OF demo_app_reachable, of demo_server "fst (Build demo_server demo_app)"
      "snd (Build demo_server demo_app)" demo_server "RUse []" "[]" demo_app "[Some demo_module]"]
  by simp

text \<open>Modules are registered all or nothing: \<open>Register\<close> either leaves the application as it was, with an error or a
  panic, or every module ran to its end and its routes, hooks and tasks
  are appended in order, each route with the module's name and behind the module's middleware.\<close>

theorem register_atomic:
  assumes "app_Register staging ms a = (a', x)"
  shows "if x \<noteq> Return None then a' = a else
    \<not> frozen a \<and> (\<exists>ss. list_all2 (module_staged staging) ms ss \<and>
      app_modules a' = app_modules a @ map (\<lambda>m. md_name (the m)) ms \<and>
      app_routes a' = app_routes a @ concat (map2 (\<lambda>m s. map (\<lambda>d. d\<lparr>rd_route := (rd_route d)\<lparr>rt_Module := md_name (the m)\<rparr>,
        rd_middleware := app_middleware s @ rd_middleware d\<rparr>) (app_routes s)) ms ss) \<and>
      app_startHooks a' = app_startHooks a @ concat (map app_startHooks ss) \<and>
      app_stopHooks a' = app_stopHooks a @ concat (map app_stopHooks ss) \<and>
      app_tasks a' = app_tasks a @ concat (map app_tasks ss))"
proof (cases "x = Return None")
  case False
  with assms show ?thesis
    by (auto simp: app_Register_def split: if_splits outcome.splits sum.splits prod.splits)
next
  case True
  with assms obtain names reg where s: "\<not> frozen a" "stage_modules staging ms = Return (Inr (names, reg))"
      "a' = commit_modules names reg (if ms \<noteq> [] then a\<lparr>app_state := applicationRegistering\<rparr> else a)"
    by (auto simp: app_Register_def split: if_splits outcome.splits sum.splits prod.splits)
  obtain ss where ss: "list_all2 (module_staged staging) ms ss" "names = map (\<lambda>m. md_name (the m)) ms"
      "mr_routes reg = staged mr_routes ms ss" "mr_startHooks reg = staged mr_startHooks ms ss"
      "mr_stopHooks reg = staged mr_stopHooks ms ss" "mr_tasks reg = staged mr_tasks ms ss"
    using stage_modules_Inr [OF s(2)] by blast
  have l: "length ms = length ss" using ss(1) by (rule list_all2_lengthD)
  then have m2: "map2 (\<lambda>m s. f s) ms ss = map f ss" for f :: "app \<Rightarrow> 'b"
    by (induction ms ss rule: list_induct2) simp_all
  have fields: "app_modules a' = app_modules a @ names" "app_routes a' = app_routes a @ mr_routes reg"
      "app_startHooks a' = app_startHooks a @ mr_startHooks reg" "app_stopHooks a' = app_stopHooks a @ mr_stopHooks reg"
      "app_tasks a' = app_tasks a @ mr_tasks reg"
    using s(3) by (simp_all add: commit_modules_def)
  have parts: "mr_startHooks reg = concat (map app_startHooks ss)" "mr_stopHooks reg = concat (map app_stopHooks ss)"
      "mr_tasks reg = concat (map app_tasks ss)"
    using ss(4-6) m2 [of app_startHooks] m2 [of app_stopHooks] m2 [of app_tasks] by (simp_all add: registrar_close_def)
  from True ss(1) s(1) show ?thesis
    unfolding fields parts ss(2,3) by (auto simp: registrar_close_def)
qed

theorem register_atomic_witness:
  "app_startHooks (fst (app_Register (new_app demo_eh defaultConfig) [Some demo_module] demo_app)) = [7]"
proof -
  let ?staging = "new_app demo_eh defaultConfig"
  obtain a' x where r: "app_Register ?staging [Some demo_module] demo_app = (a', x)" by fastforce
  have s: "reg_script [ROnStart [Some 7, None]] (?staging, []) =
      Return (?staging\<lparr>app_state := applicationRegistering, app_startHooks := [7]\<rparr>, [])"
    by (simp add: reg_defs register_with_def ensureMutable_def frozen_def state_rank_def new_app_def non_nil_def)
  then have x: "x = Return None"
    using r demo_app_not_frozen by (auto simp: app_Register_def demo_module_def)
  from register_atomic [OF r] x obtain ss where "list_all2 (module_staged ?staging) [Some demo_module] ss"
      "app_startHooks a' = app_startHooks demo_app @ concat (map app_startHooks ss)" by auto
  with s r show ?thesis
    by (auto simp: list_all2_Cons1 module_staged_def demo_module_def demo_app_def new_app_def)
qed



end
