(* ===== verification/Tasks.thy ===== *)
theory Tasks
  imports App
begin

text \<open>
  The supervisor of background tasks, \<open>task.go\<close>. One step of the relation is one action of one of its
  goroutines: a task's \<open>run\<close>, the \<open>monitor\<close>, the caller of \<open>Shutdown\<close>, and the environment (the
  context is cancelled, a task returns, the shutdown deadline passes). Channels are lists with their
  capacity; closing a closed channel sets \<open>sv_panicked\<close>.
\<close>

section \<open>Outcomes\<close>

datatype panic_value = PanicError goerr | PanicText string

record taskResult =
  tr_definition :: taskDefinition
  tr_err :: "goerr option"
  tr_panic :: "panic_value option"

text \<open>What a task's function does: it returns, or it panics.\<close>

definition executeTask :: "taskDefinition \<Rightarrow> panic_value + goerr option \<Rightarrow> taskResult" where
  "executeTask d x = (case x of
     Inl p \<Rightarrow> \<lparr>tr_definition = d, tr_err = None, tr_panic = Some p\<rparr>
   | Inr err \<Rightarrow> \<lparr>tr_definition = d, tr_err = err, tr_panic = None\<rparr>)"

definition taskOutcome :: "taskResult \<Rightarrow> bool \<Rightarrow> sentinel option \<Rightarrow> goerr option" where
  "taskOutcome r stopping ctxErr =
    (let name = td_name (tr_definition r)
     in case tr_panic r of
          Some (PanicError err) \<Rightarrow> Some (Wrapf (''background task '' @ name @ '' panicked: '') err)
        | Some (PanicText t) \<Rightarrow> Some (Opaque (''background task '' @ name @ '' panicked: '' @ t))
        | None \<Rightarrow> (case tr_err r of
            Some err \<Rightarrow>
              if stopping \<and> (case ctxErr of None \<Rightarrow> False | Some ce \<Rightarrow> errors_Is err ce) then None
              else Some (Wrapf (''background task '' @ name @ '' failed: '') err)
          | None \<Rightarrow> if \<not> stopping then Some (Opaque (''background task '' @ name @ '' exited unexpectedly'')) else None))"

section \<open>The supervisor\<close>

text \<open>A task's goroutine: in the function, about to send its result, ended.\<close>

datatype task_phase = Executing | Sending taskResult | Ended

text \<open>The monitor: in its loop with \<open>remaining\<close>, \<open>stopping\<close> and \<open>shutdownErr\<close>, or returned.\<close>

datatype monitor = Monitoring nat bool "goerr option" | MonitorFinished

datatype shutdown_call =
    NotCalled | AwaitFinished | AwaitMonitor | Expired | AwaitNil | Aborting goerr | Completing goerr
  | AwaitErr goerr | Returned "goerr option"

record supervisor =
  sv_tasks :: "taskDefinition list"
  sv_phase :: "string \<Rightarrow> task_phase"
  sv_running :: "string list"
  sv_results :: "taskResult list"
  sv_done :: "goerr option list"
  sv_completed :: bool
  sv_finished :: bool
  sv_abort :: bool
  sv_panicked :: bool
  sv_monitor :: monitor
  sv_shutdown :: shutdown_call
  sv_ctxErr :: "sentinel option"
  sv_expired :: bool

text \<open>\<open>newTaskSupervisor\<close> and \<open>Start\<close>.\<close>

definition sv_Start :: "taskDefinition list \<Rightarrow> supervisor" where
  "sv_Start ds = \<lparr>sv_tasks = ds, sv_phase = (\<lambda>_. Executing), sv_running = map td_name ds, sv_results = [],
     sv_done = [], sv_completed = False, sv_finished = False, sv_abort = False, sv_panicked = False,
     sv_monitor = Monitoring (length ds) False None, sv_shutdown = NotCalled, sv_ctxErr = None, sv_expired = False\<rparr>"

definition sv_complete :: "goerr option \<Rightarrow> supervisor \<Rightarrow> supervisor" where
  "sv_complete err s = (if sv_completed s then s else s\<lparr>sv_completed := True, sv_done := sv_done s @ [err]\<rparr>)"

definition close_finished :: "supervisor \<Rightarrow> supervisor" where
  "close_finished s = (if sv_finished s then s\<lparr>sv_panicked := True\<rparr> else s\<lparr>sv_finished := True\<rparr>)"

text \<open>\<open>run\<close> after the function, up to the send.\<close>

definition task_returned :: "taskDefinition \<Rightarrow> taskResult \<Rightarrow> supervisor \<Rightarrow> supervisor" where
  "task_returned d r s =
    (let s = s\<lparr>sv_phase := (sv_phase s)(td_name d := Sending r), sv_running := filter (\<lambda>n. n \<noteq> td_name d) (sv_running s)\<rparr>
     in if sv_running s = [] then close_finished s else s)"

text \<open>The case of the monitor's loop that takes a result.\<close>

definition monitor_result :: "nat \<Rightarrow> bool \<Rightarrow> goerr option \<Rightarrow> taskResult \<Rightarrow> supervisor \<Rightarrow> supervisor" where
  "monitor_result remaining stopping shutdownErr r s =
    (let stopping = (stopping \<or> sv_ctxErr s \<noteq> None)
     in case taskOutcome r stopping (sv_ctxErr s) of
          None \<Rightarrow> s\<lparr>sv_monitor := Monitoring (remaining - 1) stopping shutdownErr\<rparr>
        | Some err \<Rightarrow>
            if td_critical (tr_definition r) then
              if \<not> stopping then (sv_complete (Some err) s)\<lparr>sv_monitor := MonitorFinished\<rparr>
              else s\<lparr>sv_monitor := Monitoring (remaining - 1) stopping (errors_Join [shutdownErr, Some err])\<rparr>
            else s\<lparr>sv_monitor := Monitoring (remaining - 1) stopping shutdownErr\<rparr>)"

definition runningNames :: "supervisor \<Rightarrow> string list" where
  "runningNames s = filter (\<lambda>n. n \<in> set (sv_running s)) (map td_name (sv_tasks s))"

definition deadline_error :: "string list \<Rightarrow> goerr" where
  "deadline_error names = Opaque (''background tasks did not stop before shutdown deadline: '' @ join_with '', '' names)"

section \<open>Steps\<close>

text \<open>The environment's steps.\<close>

inductive env_step :: "supervisor \<Rightarrow> supervisor \<Rightarrow> bool" where
  cancel: "sv_ctxErr s = None \<Longrightarrow> env_step s (s\<lparr>sv_ctxErr := Some ce\<rparr>)"
| returns: "d \<in> set (sv_tasks s) \<Longrightarrow> sv_phase s (td_name d) = Executing \<Longrightarrow> env_step s (task_returned d (executeTask d x) s)"
| call: "sv_shutdown s = NotCalled \<Longrightarrow> env_step s (s\<lparr>sv_shutdown := AwaitFinished\<rparr>)"
| deadline: "\<not> sv_expired s \<Longrightarrow> env_step s (s\<lparr>sv_expired := True\<rparr>)"

text \<open>The supervisor's own steps.\<close>

inductive sv_step :: "supervisor \<Rightarrow> supervisor \<Rightarrow> bool" where
  send: "d \<in> set (sv_tasks s) \<Longrightarrow> sv_phase s (td_name d) = Sending r \<Longrightarrow> length (sv_results s) < length (sv_tasks s) \<Longrightarrow>
    sv_step s (s\<lparr>sv_phase := (sv_phase s)(td_name d := Ended), sv_results := sv_results s @ [r]\<rparr>)"
| mon_abort: "sv_monitor s = Monitoring n st e \<Longrightarrow> n > 0 \<Longrightarrow> sv_abort s \<Longrightarrow> sv_step s (s\<lparr>sv_monitor := MonitorFinished\<rparr>)"
| mon_context: "sv_monitor s = Monitoring n False e \<Longrightarrow> n > 0 \<Longrightarrow> sv_ctxErr s \<noteq> None \<Longrightarrow>
    sv_step s (s\<lparr>sv_monitor := Monitoring n True e\<rparr>)"
| mon_result: "sv_monitor s = Monitoring n st e \<Longrightarrow> n > 0 \<Longrightarrow> sv_results s = r # rs \<Longrightarrow>
    sv_step s (monitor_result n st e r (s\<lparr>sv_results := rs\<rparr>))"
| mon_end: "sv_monitor s = Monitoring 0 st e \<Longrightarrow> st \<or> sv_ctxErr s \<noteq> None \<Longrightarrow>
    sv_step s ((sv_complete e s)\<lparr>sv_monitor := MonitorFinished\<rparr>)"
| sd_finished: "sv_shutdown s = AwaitFinished \<Longrightarrow> sv_finished s \<Longrightarrow> sv_step s (s\<lparr>sv_shutdown := AwaitMonitor\<rparr>)"
| sd_expired: "sv_shutdown s = AwaitFinished \<or> sv_shutdown s = AwaitMonitor \<Longrightarrow> sv_expired s \<Longrightarrow>
    sv_step s (s\<lparr>sv_shutdown := Expired\<rparr>)"
| sd_return: "sv_shutdown s = AwaitMonitor \<or> sv_shutdown s = AwaitNil \<Longrightarrow> sv_monitor s = MonitorFinished \<Longrightarrow>
    sv_step s (s\<lparr>sv_shutdown := Returned None\<rparr>)"
| sd_names: "sv_shutdown s = Expired \<Longrightarrow>
    sv_step s (s\<lparr>sv_shutdown := if runningNames s = [] then AwaitNil else Aborting (deadline_error (runningNames s))\<rparr>)"
| sd_abort: "sv_shutdown s = Aborting err \<Longrightarrow> sv_step s (s\<lparr>sv_abort := True, sv_shutdown := Completing err\<rparr>)"
| sd_complete: "sv_shutdown s = Completing err \<Longrightarrow> sv_step s ((sv_complete None s)\<lparr>sv_shutdown := AwaitErr err\<rparr>)"
| sd_error: "sv_shutdown s = AwaitErr err \<Longrightarrow> sv_monitor s = MonitorFinished \<Longrightarrow>
    sv_step s (s\<lparr>sv_shutdown := Returned (Some err)\<rparr>)"

text \<open>\<open>Build\<close> has made the names unique.\<close>

inductive sv_reachable :: "taskDefinition list \<Rightarrow> supervisor \<Rightarrow> bool" for ds where
  start: "sv_reachable ds (sv_Start ds)"
| step: "sv_reachable ds s \<Longrightarrow> env_step s t \<or> sv_step s t \<Longrightarrow> sv_reachable ds t"

section \<open>Invariant\<close>

definition in_phase :: "(task_phase \<Rightarrow> bool) \<Rightarrow> supervisor \<Rightarrow> nat" where
  "in_phase P s = length (filter (\<lambda>d. P (sv_phase s (td_name d))) (sv_tasks s))"

abbreviation is_sending :: "task_phase \<Rightarrow> bool" where "is_sending p \<equiv> p \<noteq> Executing \<and> p \<noteq> Ended"

definition pending :: "supervisor \<Rightarrow> nat" where
  "pending s = in_phase (\<lambda>p. p = Executing) s + in_phase is_sending s + length (sv_results s)"

fun mon_ok :: "monitor \<Rightarrow> nat \<Rightarrow> bool" where
  "mon_ok (Monitoring n st e) k = (n = k)"
| "mon_ok MonitorFinished k = True"

fun call_ok :: "shutdown_call \<Rightarrow> bool \<Rightarrow> bool \<Rightarrow> bool \<Rightarrow> bool" where
  "call_ok (Completing err) abort completed finished = abort"
| "call_ok (AwaitErr err) abort completed finished = (abort \<and> completed)"
| "call_ok (Returned (Some err)) abort completed finished = (abort \<and> completed \<and> finished)"
| "call_ok (Returned None) abort completed finished = (\<not> abort \<and> finished)"
| "call_ok _ abort completed finished = (\<not> abort)"

lemma call_ok_mono: "call_ok c a b f \<Longrightarrow> (b \<longrightarrow> b') \<Longrightarrow> (f \<longrightarrow> f') \<Longrightarrow> call_ok c a b' f'"
  by (cases "(c, a, b, f)" rule: call_ok.cases) auto

definition done_ok :: "supervisor \<Rightarrow> bool" where
  "done_ok s \<longleftrightarrow> length (sv_done s) = (if sv_completed s then 1 else 0) \<and>
     (sv_monitor s = MonitorFinished \<longrightarrow> sv_completed s \<or> sv_abort s) \<and>
     call_ok (sv_shutdown s) (sv_abort s) (sv_completed s) (sv_monitor s = MonitorFinished)"

definition sv_inv :: "supervisor \<Rightarrow> bool" where
  "sv_inv s \<longleftrightarrow> \<not> sv_panicked s \<and> distinct (map td_name (sv_tasks s)) \<and>
     (\<forall>n. n \<in> set (sv_running s) \<longleftrightarrow> n \<in> td_name ` set (sv_tasks s) \<and> sv_phase s n = Executing) \<and>
     (sv_finished s \<longleftrightarrow> sv_running s = [] \<and> sv_tasks s \<noteq> []) \<and>
     pending s \<le> length (sv_tasks s) \<and>
     mon_ok (sv_monitor s) (pending s) \<and> done_ok s \<and>
     (sv_shutdown s \<in> {AwaitMonitor, AwaitNil} \<longrightarrow> sv_running s = [])"

lemma length_filter_upd:
  assumes "distinct (map f xs)" "d \<in> set xs"
  shows "length (filter (\<lambda>x. P ((g(f d := p)) (f x))) xs) + (if P (g (f d)) then 1 else 0) =
    length (filter (\<lambda>x. P (g (f x))) xs) + (if P p then 1 else 0)"
  using assms
proof (induction xs)
  case (Cons x xs)
  show ?case
  proof (cases "d = x")
    case True
    with Cons.prems(1) have "f d \<notin> f ` set xs" by simp
    then have "f y \<noteq> f d" if "y \<in> set xs" for y using that by (metis image_eqI)
    then have "filter (\<lambda>y. P ((g(f d := p)) (f y))) xs = filter (\<lambda>y. P (g (f y))) xs"
      by (intro filter_cong) auto
    with True show ?thesis by simp
  next
    case False
    with Cons.prems have "f x \<noteq> f d" by auto
    with False Cons show ?thesis by simp
  qed
qed simp

lemma in_phase_upd:
  assumes "distinct (map td_name (sv_tasks s))" "d \<in> set (sv_tasks s)" "sv_phase s (td_name d) = p0"
  shows "in_phase P (s\<lparr>sv_phase := (sv_phase s)(td_name d := p), sv_running := l, sv_results := q\<rparr>) + (if P p0 then 1 else 0) =
    in_phase P s + (if P p then 1 else 0)"
  using length_filter_upd [OF assms(1,2), of P "sv_phase s" p] assms(3) by (simp add: in_phase_def)

text \<open>Fields that the counts do not depend on.\<close>

lemma in_phase_frame [simp]:
  "in_phase P (s\<lparr>sv_running := l\<rparr>) = in_phase P s" "in_phase P (s\<lparr>sv_results := q\<rparr>) = in_phase P s"
  "in_phase P (s\<lparr>sv_completed := b\<rparr>) = in_phase P s" "in_phase P (s\<lparr>sv_done := dn\<rparr>) = in_phase P s"
  "in_phase P (s\<lparr>sv_finished := b\<rparr>) = in_phase P s" "in_phase P (s\<lparr>sv_panicked := b\<rparr>) = in_phase P s"
  "in_phase P (s\<lparr>sv_monitor := m\<rparr>) = in_phase P s" "in_phase P (s\<lparr>sv_shutdown := sd\<rparr>) = in_phase P s"
  "in_phase P (s\<lparr>sv_abort := b\<rparr>) = in_phase P s" "in_phase P (s\<lparr>sv_ctxErr := ce\<rparr>) = in_phase P s"
  "in_phase P (s\<lparr>sv_expired := b\<rparr>) = in_phase P s" "in_phase P (sv_complete err s) = in_phase P s"
  by (simp_all add: in_phase_def sv_complete_def)

lemma complete_fields [simp]:
  "sv_tasks (sv_complete err s) = sv_tasks s" "sv_phase (sv_complete err s) = sv_phase s" "sv_running (sv_complete err s) = sv_running s"
  "sv_results (sv_complete err s) = sv_results s" "sv_finished (sv_complete err s) = sv_finished s"
  "sv_abort (sv_complete err s) = sv_abort s" "sv_panicked (sv_complete err s) = sv_panicked s"
  "sv_monitor (sv_complete err s) = sv_monitor s" "sv_shutdown (sv_complete err s) = sv_shutdown s"
  "sv_ctxErr (sv_complete err s) = sv_ctxErr s" "sv_expired (sv_complete err s) = sv_expired s" "sv_completed (sv_complete err s)"
  by (simp_all add: sv_complete_def)

lemma done_ok_complete: "done_ok s \<Longrightarrow> length (sv_done (sv_complete err s)) = 1"
  by (auto simp: done_ok_def sv_complete_def)

text \<open>Taking a result: the monitor goes on with one less, or a critical failure ends it.\<close>

lemma monitor_result_cases:
  obtains (continue) st' e' where "monitor_result n st e r s = s\<lparr>sv_monitor := Monitoring (n - 1) st' e'\<rparr>"
      "st' = (st \<or> sv_ctxErr s \<noteq> None)"
  | (failed) err where "monitor_result n st e r s = (sv_complete (Some err) s)\<lparr>sv_monitor := MonitorFinished\<rparr>"
      "td_critical (tr_definition r)" "sv_ctxErr s = None" "\<not> st" "taskOutcome r False None = Some err"
proof (cases "taskOutcome r (st \<or> sv_ctxErr s \<noteq> None) (sv_ctxErr s)")
  case None
  then show ?thesis by (intro continue) (simp_all add: monitor_result_def Let_def)
next
  case (Some err)
  show ?thesis
  proof (cases "td_critical (tr_definition r) \<and> \<not> st \<and> sv_ctxErr s = None")
    case True
    with Some show ?thesis by (intro failed) (simp_all add: monitor_result_def Let_def)
  next
    case False
    then have "monitor_result n st e r s = s\<lparr>sv_monitor := Monitoring (n - 1) (st \<or> sv_ctxErr s \<noteq> None)
        (if td_critical (tr_definition r) then errors_Join [e, Some err] else e)\<rparr>"
      using Some unfolding monitor_result_def Let_def by simp
    then show ?thesis by (rule continue) simp
  qed
qed

lemma task_returned_inv:
  assumes "sv_inv s" "d \<in> set (sv_tasks s)" "sv_phase s (td_name d) = Executing"
  shows "sv_inv (task_returned d r s)"
proof -
  let ?t = "s\<lparr>sv_phase := (sv_phase s)(td_name d := Sending r), sv_running := filter (\<lambda>n. n \<noteq> td_name d) (sv_running s)\<rparr>"
  have dist: "distinct (map td_name (sv_tasks s))" using assms(1) by (simp add: sv_inv_def)
  have p: "in_phase (\<lambda>p. p = Executing) ?t + 1 = in_phase (\<lambda>p. p = Executing) s"
    "in_phase is_sending ?t = in_phase is_sending s + 1"
    using in_phase_upd [OF dist assms(2,3), where P = "\<lambda>p. p = Executing" and p = "Sending r" and q = "sv_results s"]
      in_phase_upd [OF dist assms(2,3), where P = is_sending and p = "Sending r" and q = "sv_results s"] by simp_all
  have "td_name d \<in> set (sv_running s)" using assms by (auto simp: sv_inv_def)
  then have nf: "\<not> sv_finished s" using assms(1) by (auto simp: sv_inv_def)
  have r: "n \<in> set (sv_running ?t) \<longleftrightarrow> n \<in> td_name ` set (sv_tasks s) \<and> sv_phase ?t n = Executing" for n
    using assms(1) by (auto simp: sv_inv_def)
  have d: "done_ok ?t" using assms(1) by (simp add: sv_inv_def done_ok_def)
  have pend: "pending ?t = pending s" using p by (simp add: pending_def)
  have same: "pending (?t\<lparr>sv_finished := True\<rparr>) = pending ?t" "done_ok (?t\<lparr>sv_finished := True\<rparr>) = done_ok ?t"
    by (simp_all add: pending_def done_ok_def)
  show ?thesis
  proof (cases "sv_running ?t = []")
    case True
    then have "task_returned d r s = ?t\<lparr>sv_finished := True\<rparr>"
      using nf by (simp add: task_returned_def Let_def close_finished_def)
    moreover have "sv_tasks s \<noteq> []" using assms(2) by auto
    ultimately show ?thesis using assms(1) r d pend same True unfolding sv_inv_def by simp
  next
    case False
    then have "task_returned d r s = ?t" by (simp add: task_returned_def Let_def)
    moreover have "sv_running s \<noteq> []" using \<open>td_name d \<in> set (sv_running s)\<close> by auto
    ultimately show ?thesis using assms(1) r d pend False nf unfolding sv_inv_def by simp
  qed
qed

lemma env_step_inv: "env_step s t \<Longrightarrow> sv_inv s \<Longrightarrow> sv_inv t"
proof (induction rule: env_step.induct)
  case (returns d s x)
  then show ?case by (intro task_returned_inv)
qed (auto simp: sv_inv_def pending_def done_ok_def)

lemma sv_step_inv: "sv_step s t \<Longrightarrow> sv_inv s \<Longrightarrow> sv_inv t"
proof (induction rule: sv_step.induct)
  case (send d s r)
  have dist: "distinct (map td_name (sv_tasks s))" using send.prems by (simp add: sv_inv_def)
  let ?t = "s\<lparr>sv_phase := (sv_phase s)(td_name d := Ended), sv_results := sv_results s @ [r]\<rparr>"
  have "in_phase (\<lambda>p. p = Executing) ?t = in_phase (\<lambda>p. p = Executing) s" "in_phase is_sending ?t + 1 = in_phase is_sending s"
    using in_phase_upd [OF dist send.hyps(1,2), where P = "\<lambda>p. p = Executing" and p = Ended and l = "sv_running s" and q = "sv_results s @ [r]"]
      in_phase_upd [OF dist send.hyps(1,2), where P = is_sending and p = Ended and l = "sv_running s" and q = "sv_results s @ [r]"]
    by simp_all
  then have p: "pending ?t = pending s" by (simp add: pending_def)
  have r: "sv_phase ?t n = Executing \<longleftrightarrow> sv_phase s n = Executing" for n using send.hyps(2) by auto
  have d: "done_ok ?t = done_ok s" by (simp add: done_ok_def)
  show ?case using send.prems unfolding sv_inv_def p d r by simp
next
  case (mon_result s n st e r rs)
  have "pending (s\<lparr>sv_results := rs\<rparr>) = pending s - 1" "pending s > 0"
    using mon_result.hyps(3) by (simp_all add: pending_def)
  then show ?case using mon_result
    by (cases rule: monitor_result_cases [of n st e r "s\<lparr>sv_results := rs\<rparr>"])
      (auto simp: sv_inv_def pending_def done_ok_def sv_complete_def intro: call_ok_mono)
next
  case (mon_end s st e)
  then show ?case by (auto simp: sv_inv_def pending_def done_ok_def sv_complete_def intro: call_ok_mono)
next
  case (sd_names s)
  have "sv_running s = []" if "runningNames s = []"
  proof (rule ccontr)
    assume "sv_running s \<noteq> []"
    then obtain n where "n \<in> set (sv_running s)" by (cases "sv_running s") auto
    with sd_names.prems that show False by (auto simp: sv_inv_def runningNames_def filter_empty_conv)
  qed
  with sd_names show ?case by (auto simp: sv_inv_def pending_def done_ok_def)
next
  case (sd_complete s err)
  then show ?case by (auto simp: sv_inv_def pending_def done_ok_def sv_complete_def)
qed (auto simp: sv_inv_def pending_def done_ok_def intro: call_ok_mono)

lemma sv_reachable_inv:
  assumes "sv_reachable ds s" "distinct (map td_name ds)"
  shows "sv_inv s"
  using assms(1)
proof (induction rule: sv_reachable.induct)
  case start
  with assms(2) show ?case by (simp add: sv_inv_def sv_Start_def pending_def in_phase_def done_ok_def)
next
  case (step s t)
  then show ?case using env_step_inv sv_step_inv by blast
qed

section \<open>Progress\<close>

fun call_rank :: "shutdown_call \<Rightarrow> nat" where
  "call_rank NotCalled = 8" | "call_rank AwaitFinished = 7" | "call_rank AwaitMonitor = 6" | "call_rank Expired = 5"
| "call_rank (Aborting err) = 4" | "call_rank (Completing err) = 3" | "call_rank (AwaitErr err) = 2"
| "call_rank AwaitNil = 1" | "call_rank (Returned x) = 0"

fun monitor_rank :: "monitor \<Rightarrow> nat" where
  "monitor_rank (Monitoring n st e) = (if st then 1 else 2)"
| "monitor_rank MonitorFinished = 0"

definition sv_measure :: "supervisor \<Rightarrow> nat" where
  "sv_measure s = 6 * in_phase (\<lambda>p. p = Executing) s + 4 * in_phase is_sending s + 3 * length (sv_results s) +
     monitor_rank (sv_monitor s) + call_rank (sv_shutdown s) + (if sv_ctxErr s = None then 1 else 0) +
     (if sv_expired s then 0 else 1)"

lemma env_step_decreases:
  assumes "env_step s t" "distinct (map td_name (sv_tasks s))"
  shows "sv_measure t < sv_measure s"
  using assms
proof (induction rule: env_step.induct)
  case (returns d s x)
  let ?r = "executeTask d x"
  let ?t = "s\<lparr>sv_phase := (sv_phase s)(td_name d := Sending ?r), sv_running := filter (\<lambda>n. n \<noteq> td_name d) (sv_running s)\<rparr>"
  have "in_phase (\<lambda>p. p = Executing) ?t + 1 = in_phase (\<lambda>p. p = Executing) s" "in_phase is_sending ?t = in_phase is_sending s + 1"
    using in_phase_upd [OF returns.prems returns.hyps, where P = "\<lambda>p. p = Executing" and p = "Sending ?r" and q = "sv_results s"]
      in_phase_upd [OF returns.prems returns.hyps, where P = is_sending and p = "Sending ?r" and q = "sv_results s"] by simp_all
  then have m: "sv_measure ?t < sv_measure s" by (simp add: sv_measure_def)
  have "sv_measure (task_returned d ?r s) = sv_measure ?t"
    by (simp add: task_returned_def Let_def close_finished_def sv_measure_def)
  with m show ?case by simp
qed (simp_all add: sv_measure_def)

lemma sv_step_decreases:
  assumes "sv_step s t" "distinct (map td_name (sv_tasks s))"
  shows "sv_measure t < sv_measure s"
  using assms
proof (induction rule: sv_step.induct)
  case (send d s r)
  have "in_phase (\<lambda>p. p = Executing) (s\<lparr>sv_phase := (sv_phase s)(td_name d := Ended), sv_results := sv_results s @ [r]\<rparr>) =
        in_phase (\<lambda>p. p = Executing) s"
      "in_phase is_sending (s\<lparr>sv_phase := (sv_phase s)(td_name d := Ended), sv_results := sv_results s @ [r]\<rparr>) + 1 = in_phase is_sending s"
    using in_phase_upd [OF send.prems send.hyps(1,2), where P = "\<lambda>p. p = Executing" and p = Ended and l = "sv_running s" and q = "sv_results s @ [r]"]
      in_phase_upd [OF send.prems send.hyps(1,2), where P = is_sending and p = Ended and l = "sv_running s" and q = "sv_results s @ [r]"]
    by simp_all
  then show ?case by (simp add: sv_measure_def)
next
  case (mon_result s n st e r rs)
  then show ?case
    by (cases rule: monitor_result_cases [of n st e r "s\<lparr>sv_results := rs\<rparr>"]) (auto simp: sv_measure_def)
next
  case (mon_end s st e)
  then show ?case by (auto simp: sv_measure_def)
qed (auto simp: sv_measure_def)

text \<open>The monitor goes on once the context is cancelled and no task runs any more.\<close>

lemma monitor_progress:
  assumes "sv_inv s" "sv_ctxErr s \<noteq> None" "sv_running s = [] \<or> sv_abort s" "sv_monitor s \<noteq> MonitorFinished"
  shows "\<exists>t. sv_step s t"
proof -
  obtain n st e where m: "sv_monitor s = Monitoring n st e" using assms(4) by (cases "sv_monitor s") auto
  show ?thesis
  proof (cases "n = 0")
    case True
    with mon_end [of s st e] m assms(2) show ?thesis by blast
  next
    case n: False
    show ?thesis
    proof (cases "sv_abort s \<or> sv_results s \<noteq> []")
      case True
      then show ?thesis using mon_abort [OF m] mon_result [OF m] n by (cases "sv_results s") auto
    next
      case False
      with assms(3) have run: "sv_running s = []" by simp
      have ex: "in_phase (\<lambda>p. p = Executing) s = 0"
        using assms(1) run by (auto simp: sv_inv_def in_phase_def filter_empty_conv)
      have "n = pending s" "pending s \<le> length (sv_tasks s)" using assms(1) m by (auto simp: sv_inv_def)
      with n False ex have snd: "in_phase is_sending s > 0" "length (sv_results s) < length (sv_tasks s)"
        by (auto simp: pending_def)
      then obtain d where d: "d \<in> set (sv_tasks s)" "is_sending (sv_phase s (td_name d))"
        by (auto simp: in_phase_def filter_empty_conv)
      then obtain r where "sv_phase s (td_name d) = Sending r" by (cases "sv_phase s (td_name d)") auto
      with send [OF d(1) _ snd(2)] show ?thesis by blast
    qed
  qed
qed

section \<open>Properties\<close>

text \<open>The supervisor never closes a channel twice and never blocks on one: whatever the order in which tasks return or
  panic and the context, the monitor and \<open>Shutdown\<close> act, at most one value is ever sent on \<open>Done\<close>, and exactly
  one once \<open>Shutdown\<close> has returned; an error of \<open>Shutdown\<close> means that the monitor was told to abort.\<close>

theorem supervisor_safe:
  assumes "sv_reachable ds s" "distinct (map td_name ds)"
  shows "\<not> sv_panicked s \<and> length (sv_done s) \<le> 1 \<and> length (sv_results s) \<le> length (sv_tasks s) \<and>
    (\<forall>x. sv_shutdown s = Returned x \<longrightarrow> length (sv_done s) = 1 \<and> sv_monitor s = MonitorFinished \<and> (x \<noteq> None) = sv_abort s)"
proof -
  have i: "sv_inv s" by (rule sv_reachable_inv [OF assms])
  then have "length (sv_results s) \<le> length (sv_tasks s)" by (simp add: sv_inv_def pending_def)
  moreover have "length (sv_done s) = 1 \<and> sv_monitor s = MonitorFinished \<and> (x \<noteq> None) = sv_abort s" if "sv_shutdown s = Returned x" for x
    using i that by (cases x) (auto simp: sv_inv_def done_ok_def)
  ultimately show ?thesis using i by (simp add: sv_inv_def done_ok_def)
qed

text \<open>C7. \<open>Shutdown\<close> returns. No run of the supervisor is infinite: every step decreases a measure. And once the
  context is cancelled and \<open>Shutdown\<close> was called, the supervisor can always go on until the call returns, as soon as
  every task has returned or the deadline has passed.\<close>

theorem shutdown_returns:
  assumes "sv_reachable ds s" "distinct (map td_name ds)"
  shows "(env_step s t \<or> sv_step s t \<longrightarrow> sv_measure t < sv_measure s) \<and>
    (sv_ctxErr s \<noteq> None \<and> sv_shutdown s \<noteq> NotCalled \<and> (\<forall>x. sv_shutdown s \<noteq> Returned x) \<and>
      (sv_expired s \<or> sv_tasks s \<noteq> [] \<and> sv_running s = []) \<longrightarrow> (\<exists>u. sv_step s u))"
proof (intro conjI impI)
  have i: "sv_inv s" by (rule sv_reachable_inv [OF assms])
  then have dist: "distinct (map td_name (sv_tasks s))" by (simp add: sv_inv_def)
  show "sv_measure t < sv_measure s" if "env_step s t \<or> sv_step s t"
    using that env_step_decreases sv_step_decreases dist by blast
  assume a: "sv_ctxErr s \<noteq> None \<and> sv_shutdown s \<noteq> NotCalled \<and> (\<forall>x. sv_shutdown s \<noteq> Returned x) \<and>
      (sv_expired s \<or> sv_tasks s \<noteq> [] \<and> sv_running s = [])"
  have mon: "\<exists>u. sv_step s u" if "sv_running s = [] \<or> sv_abort s" "sv_monitor s = MonitorFinished \<Longrightarrow> \<exists>u. sv_step s u"
    using monitor_progress [OF i _ that(1)] a that(2) by blast
  show "\<exists>u. sv_step s u"
  proof (cases "sv_shutdown s")
    case AwaitFinished
    show ?thesis
    proof (cases "sv_expired s")
      case True
      with sd_expired [of s] AwaitFinished show ?thesis by blast
    next
      case False
      with a i have "sv_finished s" by (simp add: sv_inv_def)
      with sd_finished [OF AwaitFinished] show ?thesis by blast
    qed
  next
    case AwaitMonitor
    with i have "sv_running s = []" by (simp add: sv_inv_def)
    with mon sd_return [of s] AwaitMonitor show ?thesis by blast
  next
    case AwaitNil
    with i have "sv_running s = []" by (simp add: sv_inv_def)
    with mon sd_return [of s] AwaitNil show ?thesis by blast
  next
    case (AwaitErr err)
    with i have "sv_abort s" by (simp add: sv_inv_def done_ok_def)
    with mon sd_error [OF AwaitErr] show ?thesis by blast
  qed (use a sd_names sd_abort sd_complete in blast)+
qed

definition quiet_inv :: "supervisor \<Rightarrow> bool" where
  "quiet_inv s \<longleftrightarrow> (\<forall>d \<in> set (sv_tasks s). \<not> td_critical d) \<and>
     (\<forall>r \<in> set (sv_results s). tr_definition r \<in> set (sv_tasks s)) \<and>
     (\<forall>d \<in> set (sv_tasks s). \<forall>r. sv_phase s (td_name d) = Sending r \<longrightarrow> tr_definition r \<in> set (sv_tasks s)) \<and>
     (\<forall>n st e. sv_monitor s = Monitoring n st e \<longrightarrow> e = None \<and> (st \<longrightarrow> sv_ctxErr s \<noteq> None)) \<and>
     set (sv_done s) \<subseteq> {None} \<and> (sv_done s \<noteq> [] \<longrightarrow> sv_ctxErr s \<noteq> None \<or> sv_abort s) \<and>
     (\<forall>err. sv_shutdown s = Completing err \<longrightarrow> sv_abort s)"

lemma quiet_env: "env_step s t \<Longrightarrow> quiet_inv s \<Longrightarrow> quiet_inv t"
proof (induction rule: env_step.induct)
  case (returns d s x)
  have "tr_definition (executeTask d x) = d" by (simp add: executeTask_def split: sum.split)
  with returns show ?case by (auto simp: quiet_inv_def task_returned_def close_finished_def Let_def)
qed (auto simp: quiet_inv_def)

lemma quiet_step: "sv_step s t \<Longrightarrow> quiet_inv s \<Longrightarrow> quiet_inv t"
proof (induction rule: sv_step.induct)
  case (mon_result s n st e r rs)
  then have "\<not> td_critical (tr_definition r)" by (auto simp: quiet_inv_def)
  with mon_result show ?case
    by (auto simp: quiet_inv_def monitor_result_def Let_def split: option.split)
qed (auto simp: quiet_inv_def sv_complete_def)

text \<open>Tasks that are not critical never stop the application: however they end, nothing is sent on \<open>Done\<close> before the
  context is cancelled (or \<open>Shutdown\<close> has given up on a task), and then only nil.\<close>

theorem noncritical_tasks:
  assumes "sv_reachable ds s" "\<forall>d \<in> set ds. \<not> td_critical d"
  shows "set (sv_done s) \<subseteq> {None} \<and> (sv_ctxErr s = None \<and> \<not> sv_abort s \<longrightarrow> sv_done s = [])"
proof -
  have "quiet_inv s"
    using assms(1)
  proof (induction rule: sv_reachable.induct)
    case start
    with assms(2) show ?case by (simp add: quiet_inv_def sv_Start_def)
  next
    case (step s t)
    then show ?case using quiet_env quiet_step by blast
  qed
  then show ?thesis by (auto simp: quiet_inv_def)
qed

definition demo_task :: taskDefinition where
  "demo_task = \<lparr>td_name = ''t'', td_task = Some 0, td_critical = False\<rparr>"

definition demo_failed :: supervisor where
  "demo_failed = task_returned demo_task (executeTask demo_task (Inr (Some (Opaque ''broken'')))) (sv_Start [demo_task])"

lemma demo_failed_reachable: "sv_reachable [demo_task] demo_failed"
  unfolding demo_failed_def
  by (rule sv_reachable.step [OF sv_reachable.start]) (rule disjI1, rule env_step.returns, simp_all add: sv_Start_def)

theorem noncritical_tasks_witness: "sv_done demo_failed = []"
proof -
  have "sv_ctxErr demo_failed = None" "\<not> sv_abort demo_failed"
    by (simp_all add: demo_failed_def task_returned_def close_finished_def sv_Start_def demo_task_def Let_def)
  with noncritical_tasks [OF demo_failed_reachable] show ?thesis by (simp add: demo_task_def)
qed

theorem supervisor_safe_witness: "\<not> sv_panicked demo_failed"
  using supervisor_safe [OF demo_failed_reachable] by simp

theorem shutdown_returns_witness:
  "\<exists>u. sv_step (demo_failed\<lparr>sv_ctxErr := Some ContextCanceled, sv_shutdown := AwaitFinished\<rparr>) u"
proof -
  have f: "sv_ctxErr demo_failed = None" "sv_shutdown demo_failed = NotCalled" "sv_running demo_failed = []"
      "sv_tasks demo_failed = [demo_task]"
    by (simp_all add: demo_failed_def task_returned_def close_finished_def sv_Start_def demo_task_def Let_def)
  have "sv_reachable [demo_task] (demo_failed\<lparr>sv_ctxErr := Some ContextCanceled\<rparr>)"
    by (rule sv_reachable.step [OF demo_failed_reachable]) (rule disjI1, rule env_step.cancel, rule f(1))
  then have "sv_reachable [demo_task] (demo_failed\<lparr>sv_ctxErr := Some ContextCanceled, sv_shutdown := AwaitFinished\<rparr>)"
    by (rule sv_reachable.step) (rule disjI1, rule env_step.call, simp add: f)
  from shutdown_returns [OF this] f show ?thesis by simp
qed

end
