(* ===== verification/Lifecycle.thy ===== *)
theory Lifecycle
  imports Build
begin

text \<open>
  A run of an application, \<open>runLifecycle\<close> of \<open>lifecycle.go\<close>. What the hooks, the components and the wait
  answer is the record \<open>life_env\<close>; the calls made on them are logged in order. A hook that panics
  ends the program and is not modelled.
\<close>

section \<open>Environment\<close>

text \<open>The parts \<open>runLifecycle\<close> starts; a component that is given may be nil.\<close>

datatype lifecycle_component = AsyncExecutorComponent | TaskSupervisorComponent | GivenComponent nat

text \<open>
  \<open>le_first\<close> is what ends the run: \<open>None\<close> when the context is done, otherwise the first value a
  component sends on \<open>Done\<close>. \<open>le_late\<close> are the values that arrive during the shutdown; when they run
  out, the deadline passes.
\<close>

record life_env =
  le_hook :: "nat \<Rightarrow> goerr option"
  le_start :: "lifecycle_component \<Rightarrow> goerr option"
  le_shutdown :: "lifecycle_component \<Rightarrow> goerr option"
  le_first :: "goerr option option"
  le_late :: "goerr option list"

datatype life_call = CallHook nat | CallStart lifecycle_component | CallShutdown lifecycle_component
  | EnterState applicationState

section \<open>The run\<close>

text \<open>The calls made and the error, with the position of the hook in its text.\<close>

fun start_hooks :: "life_env \<Rightarrow> nat \<Rightarrow> nat list \<Rightarrow> life_call list \<times> goerr option" where
  "start_hooks E i [] = ([], None)"
| "start_hooks E i (h # hs) = (case le_hook E h of
     Some err \<Rightarrow> ([CallHook h], Some (Wrapf (''startup hook '' @ show_nat (Suc i) @ '': '') err))
   | None \<Rightarrow> (case start_hooks E (Suc i) hs of (l, e) \<Rightarrow> (CallHook h # l, e)))"

text \<open>The calls, the components that were started, and the error.\<close>

fun start_components ::
  "life_env \<Rightarrow> nat \<Rightarrow> lifecycle_component option list \<Rightarrow> life_call list \<times> lifecycle_component list \<times> goerr option" where
  "start_components E i [] = ([], [], None)"
| "start_components E i (None # cs) = start_components E (Suc i) cs"
| "start_components E i (Some c # cs) = (case le_start E c of
     Some err \<Rightarrow> ([CallStart c], [], Some (Wrapf (''start component '' @ show_nat (Suc i) @ '': '') err))
   | None \<Rightarrow> (case start_components E (Suc i) cs of (l, started, e) \<Rightarrow> (CallStart c # l, c # started, e)))"

fun shutdown_components :: "life_env \<Rightarrow> lifecycle_component list \<Rightarrow> goerr option \<Rightarrow> goerr option" where
  "shutdown_components E [] err = err"
| "shutdown_components E (c # cs) err = shutdown_components E cs (errors_Join [err, le_shutdown E c])"

fun collect_results :: "nat \<Rightarrow> goerr option list \<Rightarrow> goerr option \<Rightarrow> goerr option" where
  "collect_results 0 rs err = err"
| "collect_results (Suc n) [] err = errors_Join [err, Some (Opaque ''components did not stop before shutdown deadline'')]"
| "collect_results (Suc n) (r # rs) err = collect_results n rs (errors_Join [err, r])"

text \<open>The stop hooks in reverse; \<open>n\<close> is how many are left.\<close>

fun stop_hooks :: "life_env \<Rightarrow> nat \<Rightarrow> nat list \<Rightarrow> goerr option \<Rightarrow> goerr option" where
  "stop_hooks E n [] err = err"
| "stop_hooks E n (h # hs) err = stop_hooks E (n - 1) hs
     (case le_hook E h of None \<Rightarrow> err
      | Some e \<Rightarrow> errors_Join [err, Some (Wrapf (''shutdown hook '' @ show_nat n @ '': '') e)])"

definition life_components :: "app \<Rightarrow> bool \<Rightarrow> lifecycle_component option list \<Rightarrow> lifecycle_component option list" where
  "life_components a async cs = (if async then [Some AsyncExecutorComponent] else []) @
     (if app_tasks a \<noteq> [] then [Some TaskSupervisorComponent] else []) @ cs"

definition setState :: "applicationState \<Rightarrow> app \<Rightarrow> app" where
  "setState s a = a\<lparr>app_state := s\<rparr>"

text \<open>\<open>async\<close>: the application has an executor with a lifecycle.\<close>

definition runLifecycle ::
  "server_lib \<Rightarrow> life_env \<Rightarrow> bool \<Rightarrow> lifecycle_component option list \<Rightarrow> app \<Rightarrow> app \<times> life_call list \<times> goerr option" where
  "runLifecycle X E async cs a = (case Build X a of
     (a, Some err) \<Rightarrow> (a, [], Some err)
   | (a, None) \<Rightarrow>
       if app_state a \<noteq> applicationBuilt then (a, [], Some (Opaque ''vial: application can only be run once''))
       else
         let cs = life_components a async cs;
             a = setState applicationStarting a;
             (l1, e1) = start_hooks E 0 (app_startHooks a);
             (l2, started, e2) = (if e1 = None then start_components E 0 cs else ([], [], e1));
             a = (if e2 = None then setState applicationRunning a else a);
             first = (if e2 = None \<and> started \<noteq> [] then le_first E else None);
             e3 = (case first of None \<Rightarrow> e2 | Some r \<Rightarrow> errors_Join [e2, r]);
             a = setState applicationStopping a;
             e4 = shutdown_components E (rev started) e3;
             e5 = collect_results (length started - (if first = None then 0 else 1)) (le_late E) e4;
             e6 = stop_hooks E (length (app_stopHooks a)) (rev (app_stopHooks a)) e5;
             a = setState applicationStopped a
         in (a, EnterState applicationStarting # l1 @ l2 @ (if e2 = None then [EnterState applicationRunning] else []) @
              EnterState applicationStopping # map CallShutdown (rev started) @
              map CallHook (rev (app_stopHooks a)) @ [EnterState applicationStopped], e6))"

section \<open>Errors\<close>

lemma Join_None [simp]: "errors_Join [a, b] = None \<longleftrightarrow> a = None \<and> b = None"
  by (simp add: errors_Join_None)

lemma shutdown_components_None:
  "shutdown_components E cs err = None \<longleftrightarrow> err = None \<and> (\<forall>c \<in> set cs. le_shutdown E c = None)"
  by (induction cs arbitrary: err) auto

lemma collect_results_None:
  "collect_results n rs err = None \<longleftrightarrow> err = None \<and> n \<le> length rs \<and> (\<forall>r \<in> set (take n rs). r = None)"
  by (induction n rs err rule: collect_results.induct) auto

lemma stop_hooks_None:
  "stop_hooks E n hs err = None \<longleftrightarrow> err = None \<and> (\<forall>h \<in> set hs. le_hook E h = None)"
  by (induction hs arbitrary: n err) (auto split: option.split)

lemma start_hooks_calls:
  assumes "start_hooks E i hs = (l, e)"
  shows "\<exists>k \<le> length hs. l = map CallHook (take k hs) \<and> (if e = None then k = length hs \<and> (\<forall>h \<in> set hs. le_hook E h = None)
    else 0 < k \<and> le_hook E (hs ! (k - 1)) \<noteq> None \<and> (\<forall>h \<in> set (take (k - 1) hs). le_hook E h = None))"
  using assms
proof (induction hs arbitrary: i l e)
  case (Cons h hs)
  show ?case
  proof (cases "le_hook E h")
    case None
    with Cons.prems obtain l' where l': "start_hooks E (Suc i) hs = (l', e)" "l = CallHook h # l'"
      by (auto split: prod.splits)
    from Cons.IH [OF l'(1)] obtain k where k: "k \<le> length hs" "l' = map CallHook (take k hs)"
        "if e = None then k = length hs \<and> (\<forall>h \<in> set hs. le_hook E h = None)
         else 0 < k \<and> le_hook E (hs ! (k - 1)) \<noteq> None \<and> (\<forall>h \<in> set (take (k - 1) hs). le_hook E h = None)" by blast
    with None l'(2) show ?thesis
      by (intro exI [of _ "Suc k"]) (cases k; auto split: if_splits)
  next
    case (Some err)
    with Cons.prems show ?thesis by (intro exI [of _ 1]) auto
  qed
qed simp

lemma start_components_calls:
  assumes "start_components E i cs = (l, started, e)"
  shows "prefix started (non_nil cs) \<and> (\<forall>c \<in> set started. le_start E c = None) \<and>
    (if e = None then started = non_nil cs \<and> l = map CallStart started
     else \<exists>c. prefix (started @ [c]) (non_nil cs) \<and> le_start E c \<noteq> None \<and> l = map CallStart (started @ [c]))"
  using assms
proof (induction E i cs arbitrary: l started e rule: start_components.induct)
  case (3 E i c cs)
  show ?case
  proof (cases "le_start E c")
    case None
    with 3 show ?thesis by (auto simp: non_nil_def split: prod.splits if_splits)
  next
    case (Some err)
    with 3 show ?thesis by (auto simp: non_nil_def)
  qed
qed (auto simp: non_nil_def)

lemma setState_simps [simp]:
  "app_startHooks (setState s a) = app_startHooks a" "app_stopHooks (setState s a) = app_stopHooks a"
  "app_state (setState s a) = s" "app_built (setState s a) = app_built a" "app_buildErr (setState s a) = app_buildErr a"
  by (simp_all add: setState_def)

text \<open>Everything starts: every start hook and every component answers nil.\<close>

definition all_start :: "life_env \<Rightarrow> app \<Rightarrow> lifecycle_component list \<Rightarrow> bool" where
  "all_start E a cs \<longleftrightarrow> (\<forall>h \<in> set (app_startHooks a). le_hook E h = None) \<and> (\<forall>c \<in> set cs. le_start E c = None)"

lemma start_phase:
  assumes h: "start_hooks E 0 (app_startHooks a) = (l1, e1)"
    and c: "(if e1 = None then start_components E 0 cs else ([], [], e1)) = (l2, started, e2)"
  shows "\<exists>k extra. k \<le> length (app_startHooks a) \<and> length extra \<le> 1 \<and> prefix (started @ extra) (non_nil cs) \<and>
    l1 @ l2 = map CallHook (take k (app_startHooks a)) @ map CallStart (started @ extra) \<and>
    (e2 = None \<longleftrightarrow> all_start E a (non_nil cs)) \<and>
    (e2 = None \<longrightarrow> k = length (app_startHooks a) \<and> started = non_nil cs \<and> extra = [])"
proof -
  obtain k where k: "k \<le> length (app_startHooks a)" "l1 = map CallHook (take k (app_startHooks a))"
      "if e1 = None then k = length (app_startHooks a) \<and> (\<forall>h \<in> set (app_startHooks a). le_hook E h = None)
       else 0 < k \<and> le_hook E (app_startHooks a ! (k - 1)) \<noteq> None \<and> (\<forall>h \<in> set (take (k - 1) (app_startHooks a)). le_hook E h = None)"
    using start_hooks_calls [OF h] by blast
  show ?thesis
  proof (cases "e1 = None")
    case True
    with c have s: "start_components E 0 cs = (l2, started, e2)" by simp
    show ?thesis
    proof (cases "e2 = None")
      case True
      with start_components_calls [OF s] k \<open>e1 = None\<close> show ?thesis
        by (intro exI [of _ k] exI [of _ "[]"]) (simp add: all_start_def)
    next
      case False
      with start_components_calls [OF s] obtain x where x: "prefix (started @ [x]) (non_nil cs)"
          "le_start E x \<noteq> None" "l2 = map CallStart (started @ [x])" by auto
      then have "x \<in> set (non_nil cs)" by (auto simp: prefix_def)
      with x k False \<open>e1 = None\<close> show ?thesis
        by (intro exI [of _ k] exI [of _ "[x]"]) (auto simp: all_start_def)
    qed
  next
    case False
    then have "app_startHooks a ! (k - 1) \<in> set (app_startHooks a)" "le_hook E (app_startHooks a ! (k - 1)) \<noteq> None"
      using k(1,3) by auto
    then have "\<not> all_start E a (non_nil cs)" by (auto simp: all_start_def)
    with k(1,2) c False show ?thesis by (intro exI [of _ k] exI [of _ "[]"]) auto
  qed
qed

text \<open>Everything stops: the components, within the deadline and without an error, and the stop hooks.\<close>

definition all_stop :: "life_env \<Rightarrow> app \<Rightarrow> lifecycle_component list \<Rightarrow> bool" where
  "all_stop E a cs \<longleftrightarrow> (\<forall>c \<in> set cs. le_shutdown E c = None) \<and> (\<forall>h \<in> set (app_stopHooks a). le_hook E h = None) \<and>
     (let first = (if cs = [] then None else le_first E); m = length cs - (if first = None then 0 else 1)
      in (first = None \<or> first = Some None) \<and> m \<le> length (le_late E) \<and> (\<forall>r \<in> set (take m (le_late E)). r = None))"

section \<open>Properties\<close>

text \<open>C12. A run calls the start hooks in order up to the first error, then starts the executor, the task supervisor and the
  given components in order up to the first error. It shuts down exactly the
  components that were started, in reverse order, then calls every stop hook in reverse order, and ends in the stopped state;
  afterwards the application cannot be run again. It returns nil exactly when nothing failed and every component stopped in time.\<close>

theorem lifecycle_order:
  assumes "Build X a = (b, None)" "app_state b = applicationBuilt" "runLifecycle X E async cs a = (a', calls, e)"
    and "comps = non_nil (life_components b async cs)"
  shows "\<exists>k started extra. k \<le> length (app_startHooks b) \<and> length extra \<le> 1 \<and> prefix (started @ extra) comps \<and>
    calls = EnterState applicationStarting # map CallHook (take k (app_startHooks b)) @ map CallStart (started @ extra) @
      (if all_start E b comps then [EnterState applicationRunning] else []) @
      EnterState applicationStopping # map CallShutdown (rev started) @ map CallHook (rev (app_stopHooks b)) @
      [EnterState applicationStopped] \<and>
    (all_start E b comps \<longrightarrow> k = length (app_startHooks b) \<and> started = comps \<and> extra = []) \<and>
    app_state a' = applicationStopped \<and> fst (snd (runLifecycle Y E' async' cs' a')) = [] \<and>
    snd (snd (runLifecycle Y E' async' cs' a')) \<noteq> None \<and>
    (e = None \<longleftrightarrow> all_start E b comps \<and> all_stop E b comps)"
proof -
  let ?sb = "setState applicationStarting b" and ?C = "life_components b async cs"
  obtain l1 e1 where h: "start_hooks E 0 (app_startHooks b) = (l1, e1)" by fastforce
  obtain l2 started e2 where c: "(if e1 = None then start_components E 0 ?C else ([], [], e1)) = (l2, started, e2)"
    by (metis surj_pair)
  define first where "first = (if e2 = None \<and> started \<noteq> [] then le_first E else None)"
  define e3 where "e3 = (case first of None \<Rightarrow> e2 | Some r \<Rightarrow> errors_Join [e2, r])"
  have run: "a' = setState applicationStopped (setState applicationStopping
      (if e2 = None then setState applicationRunning ?sb else ?sb))"
    "calls = EnterState applicationStarting # l1 @ l2 @ (if e2 = None then [EnterState applicationRunning] else []) @
      EnterState applicationStopping # map CallShutdown (rev started) @ map CallHook (rev (app_stopHooks b)) @
      [EnterState applicationStopped]"
    "e = stop_hooks E (length (app_stopHooks b)) (rev (app_stopHooks b))
      (collect_results (length started - (if first = None then 0 else 1)) (le_late E)
        (shutdown_components E (rev started) e3))"
    using assms(1,2,3) by (auto simp: runLifecycle_def Let_def h c first_def e3_def split: prod.splits if_splits option.splits)
  obtain k extra where s: "k \<le> length (app_startHooks b)" "length extra \<le> 1" "prefix (started @ extra) comps"
      "l1 @ l2 = map CallHook (take k (app_startHooks b)) @ map CallStart (started @ extra)"
      "e2 = None \<longleftrightarrow> all_start E b comps"
      "e2 = None \<longrightarrow> k = length (app_startHooks b) \<and> started = comps \<and> extra = []"
    using start_phase [OF h c] assms(4) by blast
  have "Build Y a' = (a', app_buildErr a')"
    using run(1) by (simp add: Build_def frozen_def state_rank_def)
  then have again: "fst (snd (runLifecycle Y E' async' cs' a')) = [] \<and> snd (snd (runLifecycle Y E' async' cs' a')) \<noteq> None"
    using run(1) by (auto simp: runLifecycle_def split: option.split)
  have "e = None \<longleftrightarrow> e2 = None \<and> (first = None \<or> first = Some None) \<and> (\<forall>h \<in> set (app_stopHooks b). le_hook E h = None) \<and>
      (\<forall>c \<in> set started. le_shutdown E c = None) \<and> length started - (if first = None then 0 else 1) \<le> length (le_late E) \<and>
      (\<forall>r \<in> set (take (length started - (if first = None then 0 else 1)) (le_late E)). r = None)"
    unfolding run(3) stop_hooks_None collect_results_None shutdown_components_None e3_def
    by (cases first) auto
  also have "\<dots> \<longleftrightarrow> e2 = None \<and> all_stop E b comps"
    using s(6) by (auto simp: all_stop_def first_def Let_def)
  finally have "e = None \<longleftrightarrow> all_start E b comps \<and> all_stop E b comps" using s(5) by simp
  with s run(1,2) again show ?thesis
    by (intro exI [of _ k] exI [of _ started] exI [of _ extra]) simp
qed

definition demo_life :: life_env where
  "demo_life = \<lparr>le_hook = (\<lambda>_. None), le_start = (\<lambda>_. None), le_shutdown = (\<lambda>_. None), le_first = None, le_late = [None]\<rparr>"

theorem lifecycle_order_witness:
  "snd (snd (runLifecycle demo_server demo_life False [None, Some (GivenComponent 0)] demo_app)) = None"
proof -
  obtain b where b: "Build demo_server demo_app = (b, None)" "app_built b" using demo_app_built by blast
  have s: "app_state b = applicationBuilt" "app_tasks b = []" "app_startHooks b = []" "app_stopHooks b = []"
    using Build_None [OF demo_app_not_frozen demo_app_ok] b(1)
    by (auto simp: counted_app_def demo_app_def new_app_def Let_def)
  obtain a' calls e where r: "runLifecycle demo_server demo_life False [None, Some (GivenComponent 0)] demo_app = (a', calls, e)"
    by (metis surj_pair)
  have "all_start demo_life b [GivenComponent 0] \<and> all_stop demo_life b [GivenComponent 0]"
    by (simp add: all_start_def all_stop_def demo_life_def s)
  with lifecycle_order [OF b(1) s(1) r refl, of demo_server demo_life False "[]"] r s(2) show ?thesis
    by (auto simp: life_components_def non_nil_def)
qed

end
