(* ===== verification/Middleware.thy ===== *)
theory Middleware
  imports Serve
begin

text \<open>
  Middleware of package \<open>middleware\<close> that acts on the request context: panic recovery
  (\<open>recovery.go\<close>), request identifiers (\<open>request_id.go\<close>), security headers (\<open>security_headers.go\<close>),
  trace identifiers (\<open>trace.go\<close>) and the level of the request log (\<open>logger.go\<close>).
\<close>

section \<open>Recovery\<close>

definition Recover :: middleware where
  "Recover nxt c = (case nxt c of
     (c, Panic msg) \<Rightarrow> (c, Return (Some (HTTPErr (Some (InternalServerError (Some (Opaque (''panic: '' @ msg))))))))
   | (c, Return err) \<Rightarrow> (c, Return err))"

section \<open>Request identifiers\<close>

definition hex_char :: "nat \<Rightarrow> char" where
  "hex_char n = (if n < 10 then char_of (48 + n) else char_of (87 + n))"

text \<open>\<open>hex.EncodeToString\<close> and the verb \<open>%x\<close>.\<close>

definition hex_encode :: "nat list \<Rightarrow> string" where
  "hex_encode bs = concat (map (\<lambda>b. [hex_char (b div 16), hex_char (b mod 16)]) bs)"

fun show_hex :: "nat \<Rightarrow> string" where
  "show_hex n = (if n < 16 then [hex_char n] else show_hex (n div 16) @ [hex_char (n mod 16)])"

declare show_hex.simps [simp del]

text \<open>\<open>random\<close> is what \<open>rand.Read\<close> gave, otherwise the clock and the counter are used.\<close>

definition newRequestID :: "nat list option \<Rightarrow> nat \<Rightarrow> nat \<Rightarrow> string" where
  "newRequestID random now sequence = (case random of
     Some bs \<Rightarrow> hex_encode bs
   | None \<Rightarrow> show_hex now @ ''-'' @ show_hex sequence)"

text \<open>The key \<open>RequestIDKey\<close> is the pointer 0 at type 0, the trace key the pointer 1.\<close>

definition RequestIDKey :: "nat \<times> nat" where "RequestIDKey = (0, 0)"

definition traceIDKey :: "nat \<times> nat" where "traceIDKey = (1, 0)"

definition choose_request_id :: "string \<Rightarrow> header \<Rightarrow> string" where
  "choose_request_id fresh h =
    (let i = trim_space (header_get h ''X-Request-ID'')
     in if i = [] \<or> length i > 128 \<or> contains_any i [CHR 0x0D, CHR 0x0A] then fresh else i)"

definition RequestID :: "string \<Rightarrow> middleware" where
  "RequestID fresh nxt c =
    (let i = choose_request_id fresh (req_header (cx_request c));
         c = ValueKey_Set RequestIDKey (TextData i) c;
         c = SetLogger (Some (cx_logger c @ [(''request_id'', i)])) c
     in nxt (edit_header (header_set ''X-Request-ID'' i) c))"

definition RequestIDFromContext :: "ctx \<Rightarrow> string" where
  "RequestIDFromContext c = (case requestValue (Some RequestIDKey) c of Some (TextData i) \<Rightarrow> i | _ \<Rightarrow> [])"

section \<open>Security headers\<close>

definition setHeaderDefault :: "string \<Rightarrow> string \<Rightarrow> header \<Rightarrow> header" where
  "setHeaderDefault name v h = (if header_get h name = [] then header_set name v h else h)"

definition quoted_keyword :: "string \<Rightarrow> string" where
  "quoted_keyword s = [CHR 0x27] @ s @ [CHR 0x27]"

definition defaultContentSecurityPolicy :: string where
  "defaultContentSecurityPolicy = ''default-src '' @ quoted_keyword ''self'' @ ''; object-src '' @ quoted_keyword ''none'' @
     ''; base-uri '' @ quoted_keyword ''self'' @ ''; frame-ancestors '' @ quoted_keyword ''none''"

definition security_defaults :: "bool \<Rightarrow> (string \<times> string) list" where
  "security_defaults tls =
     [(''Content-Security-Policy'', defaultContentSecurityPolicy), (''Referrer-Policy'', ''no-referrer''),
      (''X-Content-Type-Options'', ''nosniff''), (''X-Frame-Options'', ''DENY'')] @
     (if tls then [(''Strict-Transport-Security'', ''max-age=31536000'')] else [])"

definition set_security_headers :: "bool \<Rightarrow> header \<Rightarrow> header" where
  "set_security_headers tls h = fold (\<lambda>(k, v). setHeaderDefault k v) (security_defaults tls) h"

definition SecurityHeaders :: middleware where
  "SecurityHeaders nxt c = nxt (edit_header (set_security_headers (req_tls (cx_request c))) c)"

section \<open>Trace identifiers\<close>

definition validLowerHex :: "string \<Rightarrow> bool" where
  "validLowerHex v = (\<forall>c \<in> set v. is_digit c \<or> (97 \<le> (of_char c :: nat) \<and> (of_char c :: nat) \<le> 102))"

definition allZero :: "string \<Rightarrow> bool" where
  "allZero v \<longleftrightarrow> trim_chars ''0'' v = []"

definition slice :: "nat \<Rightarrow> nat \<Rightarrow> string \<Rightarrow> string" where
  "slice i j s = take (j - i) (drop i s)"

text \<open>A nil request has no header here.\<close>

definition W3CTraceID :: "header option \<Rightarrow> string" where
  "W3CTraceID h = (case h of None \<Rightarrow> []
   | Some h \<Rightarrow>
      let v = header_get h ''traceparent''
      in if length v \<noteq> 55 \<or> v ! 2 \<noteq> CHR ''-'' \<or> v ! 35 \<noteq> CHR ''-'' \<or> v ! 52 \<noteq> CHR ''-'' \<or> slice 0 2 v \<noteq> ''00'' then []
         else
           let traceID = slice 3 35 v; parentID = slice 36 52 v
           in if \<not> validLowerHex traceID \<or> allZero traceID \<or> \<not> validLowerHex parentID \<or> allZero parentID \<or>
                \<not> validLowerHex (drop 53 v) then []
              else traceID)"

definition normalizeTraceID :: "string \<Rightarrow> string" where
  "normalizeTraceID v =
    (if length v \<noteq> 32 then []
     else let v = to_lower v in if \<not> validLowerHex v \<or> allZero v then [] else v)"

definition TraceContext :: "(request \<Rightarrow> string) \<Rightarrow> middleware" where
  "TraceContext extract nxt c =
    (let i = normalizeTraceID (extract (cx_request c))
     in if i \<noteq> [] then
          let c = ValueKey_Set traceIDKey (TextData i) c
          in nxt (SetLogger (Some (cx_logger c @ [(''trace_id'', i)])) c)
        else nxt c)"

section \<open>The request log\<close>

datatype log_level = LevelInfo | LevelWarn | LevelError

text \<open>\<open>requestErr\<close>: the response error, or what the next handler returned.\<close>

definition request_log_level :: "int \<Rightarrow> goerr option \<Rightarrow> log_level" where
  "request_log_level status requestErr =
    (if status \<ge> 500 \<or> requestErr \<noteq> None \<and> status < 400 then LevelError
     else if status \<ge> 400 then LevelWarn
     else LevelInfo)"

section \<open>Frames\<close>

lemma fst_Recover [simp]: "fst (Recover h c) = fst (h c)"
  by (simp add: Recover_def split: prod.split outcome.split)

lemma Recover_framed [frame_intros]: "framed_middleware ok Recover"
  by (simp add: framed_middleware_def framed_def)

lemma edit_after_step: 
  assumes "ctx_step ok c d"
  shows "ctx_step ok c (edit_header f d)"
proof -
  note assms
  also have "ctx_step ok d (edit_header f d)" by (rule ctx_step_edit)
  finally show ?thesis .
qed

lemma RequestID_framed [frame_intros]: "framed_middleware ok (RequestID fresh)"
  unfolding framed_middleware_def
proof (intro allI impI)
  fix h :: handler assume h: "framed ok h"
  show "framed ok (RequestID fresh h)"
    unfolding framed_def RequestID_def Let_def
    by (intro allI framed_at [OF h] edit_after_step) (simp add: SetLogger_def ValueKey_Set_def)
qed

lemma SecurityHeaders_framed [frame_intros]: "framed_middleware ok SecurityHeaders"
  unfolding framed_middleware_def
proof (intro allI impI)
  fix h :: handler assume h: "framed ok h"
  show "framed ok (SecurityHeaders h)"
    unfolding framed_def SecurityHeaders_def by (intro allI framed_at [OF h] ctx_step_edit)
qed

lemma TraceContext_framed [frame_intros]: "framed_middleware ok (TraceContext extract)"
  unfolding framed_middleware_def
proof (intro allI impI)
  fix h :: handler assume h: "framed ok h"
  have "ctx_step ok c (fst (TraceContext extract h c))" for c
    by (simp add: TraceContext_def Let_def)
      (auto intro!: framed_at [OF h] simp: SetLogger_def ValueKey_Set_def)
  then show "framed ok (TraceContext extract h)" by (simp add: framed_def)
qed

section \<open>Lemmas\<close>

lemma hex_char_hex: "n < 16 \<Longrightarrow> is_digit (hex_char n) \<or> (97 \<le> (of_char (hex_char n) :: nat) \<and> (of_char (hex_char n) :: nat) \<le> 102)"
  by (auto simp: hex_char_def is_digit_def)

lemma hex_encode_hex: "\<forall>b \<in> set bs. b < 256 \<Longrightarrow> validLowerHex (hex_encode bs)"
  by (induction bs) (auto simp: hex_encode_def validLowerHex_def less_mult_imp_div_less intro!: hex_char_hex)

lemma show_hex_hex: "validLowerHex (show_hex n)"
proof (induction n rule: show_hex.induct)
  case (1 n)
  then show ?case using hex_char_hex [of "n mod 16"] hex_char_hex [of n]
    by (subst show_hex.simps) (auto simp: validLowerHex_def)
qed

lemma length_hex_encode: "length (hex_encode bs) = 2 * length bs"
  by (induction bs) (simp_all add: hex_encode_def)

lemma header_get_setHeaderDefault:
  "header_get (setHeaderDefault k v h) k' = (if canonical_key k' = canonical_key k \<and> header_get h k = [] then v else header_get h k')"
  by (auto simp: setHeaderDefault_def header_get_def header_set_def)

text \<open>The parts of a \<open>traceparent\<close> value.\<close>

lemma traceparent_parts:
  assumes "length v = 55"
  shows "v = slice 0 2 v @ v ! 2 # slice 3 35 v @ v ! 35 # slice 36 52 v @ v ! 52 # drop 53 v"
proof -
  have d: "drop 2 v = v ! 2 # drop 3 v" "drop 35 v = v ! 35 # drop 36 v" "drop 52 v = v ! 52 # drop 53 v"
    using assms Cons_nth_drop_Suc [of 2 v] Cons_nth_drop_Suc [of 35 v] Cons_nth_drop_Suc [of 52 v] by simp_all
  have "drop 3 v = take 32 (drop 3 v) @ drop 35 v" "drop 36 v = take 16 (drop 36 v) @ drop 52 v"
    using append_take_drop_id [of 32 "drop 3 v"] append_take_drop_id [of 16 "drop 36 v"] by simp_all
  then have "v = take 2 v @ v ! 2 # take 32 (drop 3 v) @ v ! 35 # take 16 (drop 36 v) @ v ! 52 # drop 53 v"
    using append_take_drop_id [of 2 v] d by simp
  then show ?thesis by (simp add: slice_def)
qed

lemma traceparent_slices:
  assumes "v = ''00'' @ CHR ''-'' # i @ CHR ''-'' # p @ CHR ''-'' # f" "length i = 32" "length p = 16" "length f = 2"
  shows "length v = 55 \<and> slice 0 2 v = ''00'' \<and> v ! 2 = CHR ''-'' \<and> slice 3 35 v = i \<and> v ! 35 = CHR ''-'' \<and>
    slice 36 52 v = p \<and> v ! 52 = CHR ''-'' \<and> drop 53 v = f"
  using assms by (simp add: slice_def nth_append numeral_eq_Suc)

section \<open>Properties\<close>

text \<open>A panic behind \<open>Recover\<close> before anything was sent becomes the response of a generic internal error: status 500 and a body that
  does not depend on the panic.\<close>

theorem recover_500:
  assumes "h c = (c1, Panic msg)" "\<not> Committed (cx_response c1)" "resp_inv (cx_response c1)"
    and "rs_hooks (cx_response c1) = map (\<lambda>f h. Return (f h)) fs"
    and "handle_request X (Recover h) (renderHTTPError (sl_write X) enc problem) c = (c2, x)"
    and "body = enc (if problem then ProblemResponse ''about:blank'' 500 ''Internal Server Error''
      ''An unexpected error occurred'' ''internal_server_error'' (\<lambda>_. None)
      else ErrorResponse ''internal_server_error'' ''An unexpected error occurred'' (\<lambda>_. None))"
  shows "x = Return () \<and> (\<exists>hd. rs_wire (cx_response c2) = rs_wire (cx_response c1) @
    [Head 500 hd, Body (take (fst (sl_write X body)) body)])"
proof -
  let ?err = "HTTPErr (Some (InternalServerError (Some (Opaque (''panic: '' @ msg)))))"
  have r: "Recover h c = (c1, Return (Some ?err))" using assms(1) by (simp add: Recover_def)
  have m: "mapHTTPError ?err = mapped 500 ''internal_server_error'' ''An unexpected error occurred''"
    by (simp add: mapHTTPError_def as_http_def InternalServerError_def WrapHTTPError_def map_http_error_def or_default_def)
  obtain ctype status b where b: "error_body_for problem ?err = (ctype, status, b)" by (metis surj_pair)
  have t: "StatusText 500 = ''Internal Server Error''" by (simp add: StatusText_def status_texts_def)
  have "status = 500 \<and> enc b = body"
  proof (cases problem)
    case True
    with b m t assms(6) show ?thesis by (simp add: error_body_for_def Let_def)
  next
    case False
    with b m assms(6) show ?thesis by (simp add: error_body_for_def Let_def)
  qed
  with error_response [OF r assms(2-5) b] show ?thesis by auto
qed

theorem recover_500_witness:
  "snd (handle_request demo_server (Recover (\<lambda>c. (c, Panic ''boom''))) (renderHTTPError (sl_write demo_server) (\<lambda>b. ''{}'') False)
     demo_request_ctx) = Return ()"
proof -
  obtain c2 x where h: "handle_request demo_server (Recover (\<lambda>c. (c, Panic ''boom'')))
     (renderHTTPError (sl_write demo_server) (\<lambda>b. ''{}'') False) demo_request_ctx = (c2, x)" by fastforce
  have "\<not> Committed (cx_response demo_request_ctx)" "resp_inv (cx_response demo_request_ctx)"
    "rs_hooks (cx_response demo_request_ctx) = map (\<lambda>f h. Return (f h)) []"
    by (simp_all add: demo_request_ctx_def newContext_def Committed_def newResponse_def resp_inv_new [unfolded newResponse_def])
  from recover_500 [OF refl this h refl] h show ?thesis by simp
qed

text \<open>
  A status that \<open>net/http\<close> refuses: the writer counts as committed before the panic, so after \<open>Recover\<close>
  the error is not rendered and nothing reaches the connection, which then gets an implicit 200.
\<close>

lemma recovered_invalid_status:
  assumes "status < 100 \<or> 999 < status" "c = newContext running (newResponse h0) rq"
    and "serve_context X (Recover (NoContent status)) (renderHTTPError (sl_write X) enc problem) c = (c', x)"
  shows "x = Return () \<and> Committed (cx_response c') \<and> rs_wire (cx_response c') = []"
proof -
  let ?c1 = "c\<lparr>cx_response := (newResponse h0)\<lparr>rs_status := status, rs_wroteHeader := True\<rparr>\<rparr>"
  have n: "NoContent status c = (?c1, Panic ''invalid WriteHeader code'')"
    using assms(1,2) by (auto simp: NoContent_def on_response_def WriteHeader_def runBeforeCommitHooks_def
        underlying_WriteHeader_def newContext_def newResponse_def Committed_def)
  have eh: "renderErrorSafely (sl_write X) (renderHTTPError (sl_write X) enc problem) err d = (d, Return ())"
    if "Committed (cx_response d)" for err d
    using that by (simp add: renderErrorSafely_def renderHTTPError_def)
  obtain err where "handle_request X (Recover (NoContent status)) (renderHTTPError (sl_write X) enc problem) c =
      (edit_header (applyHTTPErrorHeaders err) (?c1\<lparr>cx_responseErr := Some err\<rparr>), Return ())"
    by (simp add: handle_request_def Recover_def n eh commit_default_def edit_header_def Committed_def)
  with assms(2,3) show ?thesis
    by (auto simp: serve_context_def finish_request_def finishResponse_def edit_header_def newContext_def newResponse_def
        Committed_def)
qed

text \<open>Every request gets an identifier that is safe in a header and in a log line: not empty, without CR or LF, and either the
  trimmed incoming one, of at most 128 bytes, or a fresh one. The handler, the response header and the logger see the same.\<close>

theorem request_id_safe:
  assumes "case random of None \<Rightarrow> True | Some bs \<Rightarrow> bs \<noteq> [] \<and> (\<forall>b \<in> set bs. b < 256)"
  shows "\<exists>c' i. RequestID (newRequestID random now sequence) h c = h c' \<and> RequestIDFromContext c' = i \<and>
    header_get (rs_header (cx_response c')) ''X-Request-ID'' = i \<and> (''request_id'', i) \<in> set (cx_logger c') \<and>
    i \<noteq> [] \<and> CHR 0x0D \<notin> set i \<and> CHR 0x0A \<notin> set i \<and>
    (i = newRequestID random now sequence \<or> length i \<le> 128 \<and> i = trim_space (header_get (req_header (cx_request c)) ''X-Request-ID''))"
proof -
  let ?f = "newRequestID random now sequence"
  let ?i = "choose_request_id ?f (req_header (cx_request c))"
  have hex: "CHR 0x0D \<notin> set s \<and> CHR 0x0A \<notin> set s" if "validLowerHex s" for s
    using that by (auto simp: validLowerHex_def is_digit_def)
  have "show_hex n \<noteq> []" for n by (subst show_hex.simps) simp
  moreover have "hex_encode bs \<noteq> []" if "bs \<noteq> []" for bs using that length_hex_encode [of bs] by auto
  ultimately have f: "?f \<noteq> [] \<and> CHR 0x0D \<notin> set ?f \<and> CHR 0x0A \<notin> set ?f"
    using assms hex [OF hex_encode_hex] hex [OF show_hex_hex] by (auto simp: newRequestID_def split: option.split)
  have i: "?i \<noteq> [] \<and> CHR 0x0D \<notin> set ?i \<and> CHR 0x0A \<notin> set ?i \<and>
      (?i = ?f \<or> length ?i \<le> 128 \<and> ?i = trim_space (header_get (req_header (cx_request c)) ''X-Request-ID''))"
    using f by (auto simp: choose_request_id_def Let_def contains_any_def)
  have "RequestID ?f h c = h (edit_header (header_set ''X-Request-ID'' ?i)
      (SetLogger (Some (cx_logger (ValueKey_Set RequestIDKey (TextData ?i) c) @ [(''request_id'', ?i)])) (ValueKey_Set RequestIDKey (TextData ?i) c)))"
    by (simp add: RequestID_def Let_def)
  with i show ?thesis
    by (intro exI conjI) (assumption | simp add: RequestIDFromContext_def requestValue_def edit_header_def SetLogger_def
        ValueKey_Set_def RequestIDKey_def)+
qed

theorem request_id_safe_witness:
  "\<exists>c' i. RequestID (newRequestID (Some [0x0D, 255]) 0 0) (NoContent 204) demo_request_ctx = NoContent 204 c' \<and>
     header_get (rs_header (cx_response c')) ''X-Request-ID'' = i \<and> i \<noteq> []"
  using request_id_safe [of "Some [0x0D, 255]" 0 0 "NoContent 204" demo_request_ctx] by auto

text \<open>The security headers are defaults: each of them is present with its value unless the handler chain had already set
  one, which is kept, and no other header changes.\<close>

theorem security_headers_default:
  "header_get (set_security_headers tls h) k =
     (case map_of (map (\<lambda>(k, v). (canonical_key k, v)) (security_defaults tls)) (canonical_key k) of
        None \<Rightarrow> header_get h k
      | Some v \<Rightarrow> if header_get h k = [] then v else header_get h k)"
proof -
  have canon: "canonical_key ''Content-Security-Policy'' = ''Content-Security-Policy''"
    "canonical_key ''Referrer-Policy'' = ''Referrer-Policy''" "canonical_key ''X-Content-Type-Options'' = ''X-Content-Type-Options''"
    "canonical_key ''X-Frame-Options'' = ''X-Frame-Options''"
    "canonical_key ''Strict-Transport-Security'' = ''Strict-Transport-Security''"
    by (simp_all add: canonical_key_def is_token_byte_def is_letter_def upper_char_def lower_char_def)
  show ?thesis
    by (simp add: set_security_headers_def security_defaults_def header_get_setHeaderDefault canon split: option.split)
      (auto simp: canon header_get_def)
qed

text \<open>\<open>W3CTraceID\<close> returns a trace identifier exactly when the \<open>traceparent\<close> header is a well-formed version 00 value: lower-case
  hexadecimal fields of 32, 16 and 2 digits, with neither identifier all zero.\<close>

theorem trace_id_spec:
  assumes "i \<noteq> []"
  shows "W3CTraceID (Some h) = i \<longleftrightarrow> (\<exists>p f. header_get h ''traceparent'' = ''00'' @ CHR ''-'' # i @ CHR ''-'' # p @ CHR ''-'' # f \<and>
    length i = 32 \<and> length p = 16 \<and> length f = 2 \<and> validLowerHex (i @ p @ f) \<and> \<not> allZero i \<and> \<not> allZero p)"
proof
  let ?v = "header_get h ''traceparent''"
  assume w: "W3CTraceID (Some h) = i"
  then have v: "length ?v = 55" "?v ! 2 = CHR ''-''" "?v ! 35 = CHR ''-''" "?v ! 52 = CHR ''-''" "slice 0 2 ?v = ''00''"
      "validLowerHex (slice 3 35 ?v)" "\<not> allZero (slice 3 35 ?v)" "validLowerHex (slice 36 52 ?v)" "\<not> allZero (slice 36 52 ?v)"
      "validLowerHex (drop 53 ?v)" "slice 3 35 ?v = i"
    using assms by (auto simp: W3CTraceID_def Let_def split: if_splits)
  have "length (slice 3 35 ?v) = 32" "length (slice 36 52 ?v) = 16" "length (drop 53 ?v) = 2" using v(1) by (simp_all add: slice_def)
  with v traceparent_parts [OF v(1)] show "\<exists>p f. ?v = ''00'' @ CHR ''-'' # i @ CHR ''-'' # p @ CHR ''-'' # f \<and>
      length i = 32 \<and> length p = 16 \<and> length f = 2 \<and> validLowerHex (i @ p @ f) \<and> \<not> allZero i \<and> \<not> allZero p"
    by (intro exI [of _ "slice 36 52 ?v"] exI [of _ "drop 53 ?v"]) (auto simp: validLowerHex_def)
next
  assume "\<exists>p f. header_get h ''traceparent'' = ''00'' @ CHR ''-'' # i @ CHR ''-'' # p @ CHR ''-'' # f \<and>
      length i = 32 \<and> length p = 16 \<and> length f = 2 \<and> validLowerHex (i @ p @ f) \<and> \<not> allZero i \<and> \<not> allZero p"
  then obtain p f where v: "header_get h ''traceparent'' = ''00'' @ CHR ''-'' # i @ CHR ''-'' # p @ CHR ''-'' # f"
      "length i = 32" "length p = 16" "length f = 2" "validLowerHex (i @ p @ f)" "\<not> allZero i" "\<not> allZero p" by blast
  then have "validLowerHex i" "validLowerHex p" "validLowerHex f" by (auto simp: validLowerHex_def)
  with traceparent_slices [OF v(1-4)] v(6,7) show "W3CTraceID (Some h) = i"
    by (simp add: W3CTraceID_def Let_def)
qed

theorem trace_id_spec_witness:
  "W3CTraceID (Some (header_set ''traceparent'' ''00-0af7651916cd43dd8448eb211c80319c-b7ad6b7169203331-01'' empty_header)) =
     ''0af7651916cd43dd8448eb211c80319c''"
proof (subst trace_id_spec, simp, intro exI conjI)
  show "header_get (header_set ''traceparent'' ''00-0af7651916cd43dd8448eb211c80319c-b7ad6b7169203331-01'' empty_header) ''traceparent'' =
    ''00'' @ CHR ''-'' # ''0af7651916cd43dd8448eb211c80319c'' @ CHR ''-'' # ''b7ad6b7169203331'' @ CHR ''-'' # ''01''" by simp
qed (simp_all add: validLowerHex_def is_digit_def allZero_def trim_chars_def)

end
