(* ===== verification/Auth.thy ===== *)
theory Auth
  imports Context
begin

text \<open>
  Package \<open>auth\<close>: the middleware that resolves the identity of a caller and the guards that require
  grants (\<open>auth/auth.go\<close>). The authenticator of the application is an argument.
\<close>

section \<open>Identities\<close>

record identity =
  id_subject :: string
  id_grants :: "string list"

definition no_identity :: identity where
  "no_identity = \<lparr>id_subject = [], id_grants = []\<rparr>"

definition identity_Has :: "identity \<Rightarrow> string \<Rightarrow> bool" where
  "identity_Has i grant = list_ex (\<lambda>current. current = grant) (id_grants i)"

type_synonym authenticator = "(identity \<times> bool \<times> goerr option) action"

text \<open>The loop over the grants, with the map \<open>seen\<close>.\<close>

fun normalize_grants :: "string list \<Rightarrow> string list \<Rightarrow> string list result" where
  "normalize_grants seen [] = Inr []"
| "normalize_grants seen (g # gs) =
     (if g = [] \<or> trim_space g \<noteq> g then Inl (Opaque ''auth: identity grants must be non-empty and trimmed'')
      else if g \<in> set seen then normalize_grants seen gs
      else (case normalize_grants (g # seen) gs of Inl err \<Rightarrow> Inl err | Inr rest \<Rightarrow> Inr (g # rest)))"

definition normalizeIdentity :: "identity \<Rightarrow> identity result" where
  "normalizeIdentity i =
    (if id_subject i = [] \<or> trim_space (id_subject i) \<noteq> id_subject i then
       Inl (Opaque ''auth: authenticated identity requires a non-empty trimmed subject'')
     else (case normalize_grants [] (id_grants i) of Inl err \<Rightarrow> Inl err
       | Inr gs \<Rightarrow> Inr \<lparr>id_subject = id_subject i, id_grants = gs\<rparr>))"

section \<open>The challenge\<close>

text \<open>The first loop: \<open>None\<close> when it returns false, otherwise \<open>schemeEnd\<close>, with \<open>n\<close> the length of the value.\<close>

fun challenge_scheme :: "nat \<Rightarrow> string \<Rightarrow> nat \<Rightarrow> nat \<Rightarrow> nat option" where
  "challenge_scheme n [] i schemeEnd = Some schemeEnd"
| "challenge_scheme n (c # cs) i schemeEnd =
     (if c = CHR 0x0D \<or> c = CHR 0x0A \<or> c = CHR 0x7F \<or> ((of_char c :: nat) < 32 \<and> c \<noteq> CHR 0x09) then None
      else challenge_scheme n cs (Suc i)
        (if (c = CHR '' '' \<or> c = CHR 0x09 \<or> c = CHR '','') \<and> schemeEnd = n then i else schemeEnd))"

definition validChallenge :: "string \<Rightarrow> bool" where
  "validChallenge v =
    (if v = [] \<or> trim_space v \<noteq> v then False
     else (case challenge_scheme (length v) v 0 (length v) of None \<Rightarrow> False
       | Some schemeEnd \<Rightarrow> schemeEnd \<noteq> 0 \<and> list_all is_token_byte (take schemeEnd v)))"

section \<open>The manager\<close>

record auth_config =
  ac_authenticate :: "authenticator option"
  ac_challenge :: string

record auth_manager =
  am_authenticate :: authenticator
  am_challenge :: string
  am_valueKey :: "nat \<times> nat"

text \<open>\<open>p\<close> is the pointer of the new key; the type of request states is 1, that of strings 0.\<close>

definition auth_New :: "nat \<Rightarrow> auth_config \<Rightarrow> auth_manager result" where
  "auth_New p cfg = (case ac_authenticate cfg of
     None \<Rightarrow> Inl (Opaque ''auth: authenticator is required'')
   | Some f \<Rightarrow>
       if \<not> validChallenge (ac_challenge cfg) then
         Inl (Opaque ''auth: Challenge must be a non-empty HTTP header value'')
       else Inr \<lparr>am_authenticate = f, am_challenge = ac_challenge cfg, am_valueKey = (p, 1)\<rparr>)"

definition auth_unauthorized :: "auth_manager \<Rightarrow> string \<Rightarrow> string \<Rightarrow> goerr" where
  "auth_unauthorized mg code message = HTTPErr (Some (case Unauthorized code message of
     HTTPError status code message cause _ \<Rightarrow>
       HTTPError status code message cause [(canonical_key ''WWW-Authenticate'', [am_challenge mg])]))"

definition request_state :: "identity \<Rightarrow> bool \<Rightarrow> go_data" where
  "request_state i authenticated = IdentityData (id_subject i) (id_grants i) authenticated"

definition auth_Middleware :: "auth_manager \<Rightarrow> middleware" where
  "auth_Middleware mg nxt c = (case am_authenticate mg c of
     (c, Panic msg) \<Rightarrow> (c, Panic msg)
   | (c, Return (i, authenticated, err)) \<Rightarrow>
       if (case err of None \<Rightarrow> False | Some err \<Rightarrow> errors_Is err ErrInvalidCredentials) then
         (c, Return (Some (auth_unauthorized mg ''invalid_credentials'' ''Credentials are invalid'')))
       else (case err of
           Some err \<Rightarrow> (c, Return (Some (Wrapf ''auth: authenticate request: '' err)))
         | None \<Rightarrow>
             if \<not> authenticated then
               if id_subject i \<noteq> [] \<or> length (id_grants i) \<noteq> 0 then
                 (c, Return (Some (Opaque ''auth: authenticator returned an identity without authentication'')))
               else nxt (ValueKey_Set (am_valueKey mg) (request_state no_identity False) c)
             else (case normalizeIdentity i of
                 Inl err \<Rightarrow> (c, Return (Some err))
               | Inr i \<Rightarrow> nxt (ValueKey_Set (am_valueKey mg) (request_state i True) c))))"

text \<open>The typed lookup, which both readers make.\<close>

definition auth_state :: "auth_manager \<Rightarrow> ctx \<Rightarrow> (identity \<times> bool) option" where
  "auth_state mg c = (case requestValue (Some (am_valueKey mg)) c of
     Some (IdentityData s gs authenticated) \<Rightarrow> Some (\<lparr>id_subject = s, id_grants = gs\<rparr>, authenticated)
   | _ \<Rightarrow> None)"

definition auth_From :: "auth_manager \<Rightarrow> ctx option \<Rightarrow> identity \<times> bool" where
  "auth_From mg c = (case c of None \<Rightarrow> (no_identity, False)
   | Some c \<Rightarrow> (case auth_state mg c of
       None \<Rightarrow> (no_identity, False)
     | Some (i, authenticated) \<Rightarrow> if \<not> authenticated then (no_identity, False) else (i, True)))"

fun missing_grant :: "identity \<Rightarrow> string list \<Rightarrow> bool" where
  "missing_grant i [] = False"
| "missing_grant i (g # gs) = (if \<not> identity_Has i g then True else missing_grant i gs)"

definition auth_Require :: "auth_manager \<Rightarrow> string list \<Rightarrow> middleware" where
  "auth_Require mg grants nxt c = (case auth_state mg c of
     None \<Rightarrow> (c, Return (Some (Sentinel ErrAuthUnavailable)))
   | Some (i, authenticated) \<Rightarrow>
       if \<not> authenticated then
         (c, Return (Some (auth_unauthorized mg ''authentication_required'' ''Authentication is required'')))
       else if missing_grant i grants then
         (c, Return (Some (HTTPErr (Some (ForbiddenHTTP ''insufficient_grant''
            ''The authenticated identity is not permitted'')))))
       else nxt c)"

section \<open>Lemmas\<close>

lemma missing_grant_iff: "missing_grant i gs \<longleftrightarrow> \<not> set gs \<subseteq> set (id_grants i)"
  by (induction gs) (auto simp: identity_Has_def list_ex_iff)

lemma normalize_grants_Inr:
  "normalize_grants seen gs = Inr gs' \<Longrightarrow>
     set gs' = set gs - set seen \<and> distinct gs' \<and> (\<forall>g \<in> set gs. g \<noteq> [] \<and> trim_space g = g)"
proof (induction gs arbitrary: seen gs')
  case (Cons g gs)
  then have ok: "g \<noteq> []" "trim_space g = g" by (auto split: if_splits)
  show ?case
  proof (cases "g \<in> set seen")
    case True
    with Cons.prems ok have "normalize_grants seen gs = Inr gs'" by simp
    from Cons.IH [OF this] True ok show ?thesis by auto
  next
    case False
    with Cons.prems ok obtain rest where rest: "normalize_grants (g # seen) gs = Inr rest" "gs' = g # rest"
      by (auto split: sum.splits)
    from Cons.IH [OF rest(1)] False ok rest(2) show ?thesis by auto
  qed
qed simp

lemma normalizeIdentity_Inr:
  assumes "normalizeIdentity i = Inr i'"
  shows "id_subject i' = id_subject i" "id_subject i \<noteq> []" "set (id_grants i') = set (id_grants i)" "distinct (id_grants i')"
  using assms normalize_grants_Inr [of "[]" "id_grants i"]
  by (auto simp: normalizeIdentity_def split: if_splits sum.splits)

lemma challenge_scheme_chars:
  "challenge_scheme n v i e = Some k \<Longrightarrow> c \<in> set v \<Longrightarrow> c \<noteq> CHR 0x0D \<and> c \<noteq> CHR 0x0A"
  by (induction n v i e rule: challenge_scheme.induct) (auto split: if_splits)

lemma validChallenge_chars: "validChallenge v \<Longrightarrow> c \<in> set v \<Longrightarrow> c \<noteq> CHR 0x0D \<and> c \<noteq> CHR 0x0A"
  using challenge_scheme_chars by (fastforce simp: validChallenge_def split: if_splits option.splits)

lemma auth_state_Set: "auth_state mg (ValueKey_Set (am_valueKey mg) (request_state i b) c) = Some (i, b)"
  by (simp add: auth_state_def requestValue_def ValueKey_Set_def request_state_def prod.case_eq_if)

lemma key_www: "canonical_key ''WWW-Authenticate'' = ''Www-Authenticate''" "canonical_key ''Www-Authenticate'' = ''Www-Authenticate''"
  by code_simp+

lemma auth_unauthorized_eq:
  "auth_unauthorized mg code msg = HTTPErr (Some (HTTPError 401 code msg None [(''Www-Authenticate'', [am_challenge mg])]))"
  by (simp add: auth_unauthorized_def Unauthorized_def NewHTTPError_def key_www)

lemma unauthorized_status: "StatusCode (auth_unauthorized mg code msg) = 401"
  by (simp add: auth_unauthorized_eq StatusCode_def mapHTTPError_def as_http_def map_http_error_def mapped_def)

lemma forbidden_status: "StatusCode (HTTPErr (Some (ForbiddenHTTP code msg))) = 403"
  by (simp add: ForbiddenHTTP_def NewHTTPError_def StatusCode_def mapHTTPError_def as_http_def map_http_error_def mapped_def)

lemma unauthorized_header:
  "header_get (applyHTTPErrorHeaders (auth_unauthorized mg code msg) h) ''WWW-Authenticate'' = am_challenge mg"
  by (simp add: auth_unauthorized_eq applyHTTPErrorHeaders_def header_get_def as_http_def errors_Is_def key_www)

lemma auth_Require_framed [frame_intros]: "framed_middleware ok (auth_Require mg grants)"
  by (auto simp: framed_middleware_def framed_def auth_Require_def split: option.split)

lemma auth_Middleware_framed [frame_intros]:
  assumes "framed ok (am_authenticate mg)"
  shows "framed_middleware ok (auth_Middleware mg)"
  unfolding framed_middleware_def
proof (intro allI impI)
  fix h :: handler assume h: "framed ok h"
  have "ctx_step ok c (fst (auth_Middleware mg h c))" for c
  proof -
    obtain d x where d: "am_authenticate mg c = (d, x)" by fastforce
    then have "ctx_step ok c d" using assms by (metis framed_def fst_conv)
    moreover from this have "ctx_step ok c (fst (h (ValueKey_Set k v d)))" for k v
      by (intro framed_at [OF h]) (rule ctx_step_trans [OF _ ValueKey_Set_step])
    ultimately show ?thesis
      by (auto simp: auth_Middleware_def d split: outcome.split prod.split option.split sum.split)
  qed
  then show "framed ok (auth_Middleware mg h)" by (simp add: framed_def)
qed

section \<open>Properties\<close>

text \<open>C15. A handler behind the middleware and a guard runs exactly when the authenticator verified the caller, the identity is well
  formed and has every required grant. It then finds that identity in the context, and nothing was written before it.
  Otherwise the request ends with an error and nothing was written, whatever the handler would do.\<close>

theorem auth_guarded:
  assumes run: "am_authenticate mg c = (c1, Return (i, authenticated, err))"
  shows "if err = None \<and> authenticated \<and> normalizeIdentity i \<in> range Inr \<and> set grants \<subseteq> set (id_grants i)
    then \<exists>i' c2. auth_Middleware mg (auth_Require mg grants h) c = h c2 \<and> auth_From mg (Some c2) = (i', True) \<and>
      id_subject i' = id_subject i \<and> set (id_grants i') = set (id_grants i) \<and> distinct (id_grants i') \<and>
      cx_request c2 = cx_request c1 \<and> cx_response c2 = cx_response c1
    else \<exists>e c2. auth_Middleware mg (auth_Require mg grants h) c = (c2, Return (Some e)) \<and>
      cx_response c2 = cx_response c1"
proof (cases "err = None \<and> authenticated \<and> normalizeIdentity i \<in> range Inr")
  case True
  then obtain i' where i': "normalizeIdentity i = Inr i'" by blast
  let ?c2 = "ValueKey_Set (am_valueKey mg) (request_state i' True) c1"
  have "auth_Middleware mg (auth_Require mg grants h) c = auth_Require mg grants h ?c2"
    using run True i' by (simp add: auth_Middleware_def)
  moreover have "cx_request ?c2 = cx_request c1" "cx_response ?c2 = cx_response c1" by (simp_all add: ValueKey_Set_def)
  moreover have st: "auth_state mg ?c2 = Some (i', True)" by (rule auth_state_Set)
  moreover note i = normalizeIdentity_Inr [OF i']
  ultimately show ?thesis
  proof (cases "set grants \<subseteq> set (id_grants i)")
    case sub: True
    then have "auth_Middleware mg (auth_Require mg grants h) c = h ?c2"
      using \<open>auth_Middleware mg _ c = _\<close> st i(3) by (simp add: auth_Require_def missing_grant_iff)
    moreover have "auth_From mg (Some ?c2) = (i', True)" using st by (simp add: auth_From_def)
    ultimately have "\<exists>i' c2. auth_Middleware mg (auth_Require mg grants h) c = h c2 \<and> auth_From mg (Some c2) = (i', True) \<and>
        id_subject i' = id_subject i \<and> set (id_grants i') = set (id_grants i) \<and> distinct (id_grants i') \<and>
        cx_request c2 = cx_request c1 \<and> cx_response c2 = cx_response c1"
      using i(1,3,4) \<open>cx_request ?c2 = _\<close> \<open>cx_response ?c2 = _\<close> by blast
    with True sub show ?thesis by simp
  next
    case False
    then have "missing_grant i' grants" using i(3) by (simp add: missing_grant_iff)
    with False st \<open>auth_Middleware mg _ c = _\<close> \<open>cx_response ?c2 = _\<close> show ?thesis by (auto simp: auth_Require_def)
  qed
next
  case False
  have "\<exists>e c2. auth_Middleware mg (auth_Require mg grants h) c = (c2, Return (Some e)) \<and> cx_response c2 = cx_response c1"
  proof (cases "err = None \<and> \<not> authenticated \<and> id_subject i = [] \<and> id_grants i = []")
    case True
    then show ?thesis using run by (simp add: auth_Middleware_def auth_Require_def auth_state_Set) (simp add: ValueKey_Set_def)
  next
    case other: False
    show ?thesis
    proof (cases "normalizeIdentity i")
      case (Inl e)
      with run False other show ?thesis by (cases err) (auto simp: auth_Middleware_def)
    next
      case (Inr i')
      with run False other show ?thesis by (cases err) (auto simp: auth_Middleware_def)
    qed
  qed
  with False show ?thesis by auto
qed

text \<open>Rejections are told apart: without valid credentials the client gets the status 401 with the configured challenge, which has
  no line break, with an identity that lacks a grant the status 403, and a guard without the middleware fails closed.\<close>

theorem auth_rejections:
  assumes new: "auth_New p cfg = Inr mg"
  shows "am_challenge mg = ac_challenge cfg \<and> CHR 0x0D \<notin> set (am_challenge mg) \<and> CHR 0x0A \<notin> set (am_challenge mg) \<and>
    (\<forall>c c1 i ok e h hdr. am_authenticate mg c = (c1, Return (i, ok, Some e)) \<and> errors_Is e ErrInvalidCredentials \<longrightarrow>
      (\<exists>e'. auth_Middleware mg h c = (c1, Return (Some e')) \<and> StatusCode e' = 401 \<and>
         header_get (applyHTTPErrorHeaders e' hdr) ''WWW-Authenticate'' = ac_challenge cfg)) \<and>
    (\<forall>c c1 h grants hdr. am_authenticate mg c = (c1, Return (no_identity, False, None)) \<longrightarrow>
      (\<exists>e' c2. auth_Middleware mg (auth_Require mg grants h) c = (c2, Return (Some e')) \<and> StatusCode e' = 401 \<and>
         header_get (applyHTTPErrorHeaders e' hdr) ''WWW-Authenticate'' = ac_challenge cfg)) \<and>
    (\<forall>c h grants i. auth_From mg (Some c) = (i, True) \<and> \<not> set grants \<subseteq> set (id_grants i) \<longrightarrow>
      (\<exists>e'. auth_Require mg grants h c = (c, Return (Some e')) \<and> StatusCode e' = 403)) \<and>
    (\<forall>c h grants. cx_values c (PointerKey p) = None \<longrightarrow>
      auth_Require mg grants h c = (c, Return (Some (Sentinel ErrAuthUnavailable))))"
proof -
  have mg: "am_challenge mg = ac_challenge cfg" "validChallenge (ac_challenge cfg)" "am_valueKey mg = (p, 1)"
    using new by (auto simp: auth_New_def split: option.splits if_splits)
  have "CHR 0x0D \<notin> set (am_challenge mg)" "CHR 0x0A \<notin> set (am_challenge mg)"
    using validChallenge_chars [OF mg(2)] mg(1) by auto
  moreover have "\<exists>e'. auth_Middleware mg h c = (c1, Return (Some e')) \<and> StatusCode e' = 401 \<and>
      header_get (applyHTTPErrorHeaders e' hdr) ''WWW-Authenticate'' = ac_challenge cfg"
    if "am_authenticate mg c = (c1, Return (i, ok, Some e))" "errors_Is e ErrInvalidCredentials" for c c1 i ok e h hdr
    using that by (auto simp: auth_Middleware_def unauthorized_status unauthorized_header mg(1))
  moreover have "\<exists>e' c2. auth_Middleware mg (auth_Require mg grants h) c = (c2, Return (Some e')) \<and> StatusCode e' = 401 \<and>
      header_get (applyHTTPErrorHeaders e' hdr) ''WWW-Authenticate'' = ac_challenge cfg"
    if "am_authenticate mg c = (c1, Return (no_identity, False, None))" for c c1 h grants hdr
    using that by (simp add: auth_Middleware_def auth_Require_def auth_state_Set unauthorized_status unauthorized_header mg(1))
      (simp add: no_identity_def)
  moreover have "\<exists>e'. auth_Require mg grants h c = (c, Return (Some e')) \<and> StatusCode e' = 403"
    if "auth_From mg (Some c) = (i, True)" "\<not> set grants \<subseteq> set (id_grants i)" for c h grants i
    using that by (auto simp: auth_From_def auth_Require_def missing_grant_iff forbidden_status split: option.splits if_splits)
  moreover have "auth_Require mg grants h c = (c, Return (Some (Sentinel ErrAuthUnavailable)))"
    if "cx_values c (PointerKey p) = None" for c h grants
    using that by (simp add: auth_Require_def auth_state_def requestValue_def mg(3))
  ultimately show ?thesis using mg(1) by blast
qed

text \<open>An authenticator that accepts everybody as \<open>u\<close> with the grant \<open>read\<close>.\<close>

definition demo_identity :: identity where
  "demo_identity = \<lparr>id_subject = ''u'', id_grants = [''read'', ''read'']\<rparr>"

definition demo_auth :: auth_manager where
  "demo_auth = \<lparr>am_authenticate = (\<lambda>c. (c, Return (demo_identity, True, None))), am_challenge = ''Bearer'', am_valueKey = (7, 1)\<rparr>"

definition demo_auth_ctx :: ctx where
  "demo_auth_ctx = newContext True (newResponse empty_header) \<lparr>req_method = ''GET'', req_host = ''a'', req_url = ''/'',
     req_header = empty_header, req_tls = False\<rparr>"

lemma demo_normalized: "normalizeIdentity demo_identity = Inr \<lparr>id_subject = ''u'', id_grants = [''read'']\<rparr>"
proof -
  have "trim_space ''u'' = ''u''" "trim_space ''read'' = ''read''" by code_simp+
  then show ?thesis by (simp add: normalizeIdentity_def demo_identity_def)
qed

theorem auth_guarded_witness:
  "\<exists>i' c2. auth_Middleware demo_auth (auth_Require demo_auth [''read''] (NoContent 204)) demo_auth_ctx = NoContent 204 c2 \<and>
     auth_From demo_auth (Some c2) = (i', True) \<and> id_subject i' = ''u''"
  using auth_guarded [of demo_auth demo_auth_ctx demo_auth_ctx demo_identity True None "[''read'']" "NoContent 204"]
    demo_normalized
  by (auto simp: demo_auth_def demo_identity_def)

theorem auth_rejections_witness: "CHR 0x0A \<notin> set (am_challenge demo_auth)"
proof -
  have "validChallenge ''Bearer''" by code_simp
  then have "auth_New 7 \<lparr>ac_authenticate = Some (am_authenticate demo_auth), ac_challenge = ''Bearer''\<rparr> = Inr demo_auth"
    by (simp add: auth_New_def demo_auth_def)
  from auth_rejections [OF this] show ?thesis by blast
qed

end
