(* ===== verification/Binding.thy ===== *)
theory Binding
  imports Errors
begin

text \<open>
  Binding of requests to structs, \<open>binding.go\<close> and \<open>BindJSON\<close> of \<open>context.go\<close>. What the code learns by
  reflection is data here: the fields of the destination's type with their tags, and its values, with
  the variables that pointers lead to in a store, since a pointer may be shared.
\<close>

section \<open>Types and values\<close>

text \<open>
  \<open>TextT k\<close> is a type whose pointer implements \<open>encoding.TextUnmarshaler\<close>, as does that of a slice type
  with a mark. \<open>IntT\<close>, \<open>UintT\<close> and \<open>FloatT\<close> come with their width in bits.
\<close>

datatype go_type =
    StringT | BoolT | IntT nat | UintT nat | FloatT nat | SliceT "nat option" go_type | PointerT go_type | TextT nat | OtherT nat

text \<open>The address in a pointer is an index of the store. Floats and texts are given by their printed form.\<close>

datatype go_val =
    StringV string | BoolV bool | IntV int | UintV nat | FloatV string | SliceV "go_val list"
  | PointerV "nat option" | TextV string | OtherV string

type_synonym store = "go_val list"

fun zero_val :: "go_type \<Rightarrow> go_val" where
  "zero_val StringT = StringV []"
| "zero_val BoolT = BoolV False"
| "zero_val (IntT n) = IntV 0"
| "zero_val (UintT n) = UintV 0"
| "zero_val (FloatT n) = FloatV ''0''"
| "zero_val (SliceT k t) = SliceV []"
| "zero_val (PointerT t) = PointerV None"
| "zero_val (TextT k) = TextV []"
| "zero_val (OtherT k) = OtherV []"

section \<open>Scalars\<close>

text \<open>\<open>strconv.ParseBool\<close>, \<open>ParseInt\<close> and \<open>ParseUint\<close> in base 10.\<close>

definition ParseBool :: "string \<Rightarrow> bool option" where
  "ParseBool s = (if s \<in> {''1'', ''t'', ''T'', ''true'', ''TRUE'', ''True''} then Some True
     else if s \<in> {''0'', ''f'', ''F'', ''false'', ''FALSE'', ''False''} then Some False else None)"

definition ParseUint :: "string \<Rightarrow> nat \<Rightarrow> nat option" where
  "ParseUint s bits = (case read_nat s of None \<Rightarrow> None | Some n \<Rightarrow> if n < 2 ^ bits then Some n else None)"

definition ParseInt :: "string \<Rightarrow> nat \<Rightarrow> int option" where
  "ParseInt s bits =
    (let negative = (s \<noteq> [] \<and> hd s = CHR ''-'');
         digits = (if s \<noteq> [] \<and> (hd s = CHR ''+'' \<or> hd s = CHR ''-'') then tl s else s)
     in case read_nat digits of None \<Rightarrow> None
        | Some n \<Rightarrow>
            if \<not> negative \<and> n \<ge> 2 ^ (bits - 1) then None
            else if negative \<and> n > 2 ^ (bits - 1) then None
            else Some (if negative then - int n else int n))"

lemma ParseInt_range: "ParseInt v n = Some i \<Longrightarrow> - (2 ^ (n - 1)) \<le> i \<and> i < 2 ^ (n - 1)"
proof -
  assume "ParseInt v n = Some i"
  then obtain k where k: "\<not> (v \<noteq> [] \<and> hd v = CHR ''-'') \<longrightarrow> k < 2 ^ (n - 1)" "(v \<noteq> [] \<and> hd v = CHR ''-'') \<longrightarrow> k \<le> 2 ^ (n - 1)"
    and i: "i = (if v \<noteq> [] \<and> hd v = CHR ''-'' then - int k else int k)"
    by (auto simp: ParseInt_def Let_def split: option.splits if_splits)
  have e: "int (2 ^ (n - 1)) = (2 :: int) ^ (n - 1)" and p: "(0 :: int) < 2 ^ (n - 1)" by simp_all
  show ?thesis
  proof (cases "v \<noteq> [] \<and> hd v = CHR ''-''")
    case True
    with k(2) have "int k \<le> 2 ^ (n - 1)" using e by (metis of_nat_le_iff)
    moreover from True i have "i = - int k" by simp
    ultimately show ?thesis using p by linarith
  next
    case False
    with k(1) have "int k < 2 ^ (n - 1)" using e by (metis of_nat_less_iff)
    moreover have "i = int k" using False i by (simp only: if_False)
    ultimately show ?thesis using p by linarith
  qed
qed

text \<open>
  What the binding relies on: \<open>strconv.ParseFloat\<close> (printed), \<open>UnmarshalText\<close> of a type, \<open>mime.ParseMediaType\<close>.
\<close>

record bind_lib =
  bl_parseFloat :: "string \<Rightarrow> nat \<Rightarrow> string option"
  bl_unmarshalText :: "nat \<Rightarrow> string \<Rightarrow> string result"
  bl_parseMediaType :: "string \<Rightarrow> string option"

definition parse_error :: "string \<Rightarrow> string \<Rightarrow> goerr" where
  "parse_error f s = Opaque (''strconv.'' @ f @ '': parsing '' @ s)"

text \<open>The state is the store with the variable that is set; a failure keeps what was set before.\<close>

fun setScalar :: "bind_lib \<Rightarrow> go_type \<Rightarrow> string \<Rightarrow> store \<times> go_val \<Rightarrow> (store \<times> go_val) \<times> goerr option" where
  "setScalar L (PointerT t) v (s, x) =
    (case (case x of PointerV (Some a) \<Rightarrow> (s, a) | _ \<Rightarrow> (s @ [zero_val t], length s)) of (s, a) \<Rightarrow>
      (case setScalar L t v (s, s ! a) of ((s, y), err) \<Rightarrow> ((s[a := y], PointerV (Some a)), err)))"
| "setScalar L (TextT k) v (s, x) = (case bl_unmarshalText L k v of
     Inl err \<Rightarrow> ((s, x), Some err) | Inr y \<Rightarrow> ((s, TextV y), None))"
| "setScalar L StringT v (s, x) = ((s, StringV v), None)"
| "setScalar L BoolT v (s, x) = (case ParseBool v of
     None \<Rightarrow> ((s, x), Some (parse_error ''ParseBool'' v)) | Some b \<Rightarrow> ((s, BoolV b), None))"
| "setScalar L (IntT n) v (s, x) = (case ParseInt v n of
     None \<Rightarrow> ((s, x), Some (parse_error ''ParseInt'' v)) | Some i \<Rightarrow> ((s, IntV i), None))"
| "setScalar L (UintT n) v (s, x) = (case ParseUint v n of
     None \<Rightarrow> ((s, x), Some (parse_error ''ParseUint'' v)) | Some i \<Rightarrow> ((s, UintV i), None))"
| "setScalar L (FloatT n) v (s, x) = (case bl_parseFloat L v n of
     None \<Rightarrow> ((s, x), Some (parse_error ''ParseFloat'' v)) | Some f \<Rightarrow> ((s, FloatV f), None))"
| "setScalar L (SliceT k t) v (s, x) = (case k of
     None \<Rightarrow> ((s, x), Some (Opaque ''unsupported type''))
   | Some k \<Rightarrow> (case bl_unmarshalText L k v of Inl err \<Rightarrow> ((s, x), Some err) | Inr y \<Rightarrow> ((s, TextV y), None)))"
| "setScalar L (OtherT k) v (s, x) = ((s, x), Some (Opaque ''unsupported type''))"

text \<open>The loop over the elements of the new slice.\<close>

fun set_elements :: "bind_lib \<Rightarrow> go_type \<Rightarrow> string list \<Rightarrow> store \<Rightarrow> store \<times> go_val list result" where
  "set_elements L t [] s = (s, Inr [])"
| "set_elements L t (v # vs) s = (case setScalar L t v (s, zero_val t) of
     ((s, x), Some err) \<Rightarrow> (s, Inl err)
   | ((s, x), None) \<Rightarrow> (case set_elements L t vs s of
        (s, Inl err) \<Rightarrow> (s, Inl err) | (s, Inr xs) \<Rightarrow> (s, Inr (x # xs))))"

definition setField :: "bind_lib \<Rightarrow> go_type \<Rightarrow> string list \<Rightarrow> store \<times> go_val \<Rightarrow> (store \<times> go_val) \<times> goerr option" where
  "setField L t vs sx = (case t of
     SliceT k e \<Rightarrow> (case set_elements L e vs (fst sx) of
        (s, Inl err) \<Rightarrow> ((s, snd sx), Some err) | (s, Inr xs) \<Rightarrow> ((s, SliceV xs), None))
   | _ \<Rightarrow> (case vs of [] \<Rightarrow> (sx, None) | v # _ \<Rightarrow> setScalar L t v sx))"

section \<open>Metadata\<close>

text \<open>A field of a struct type; \<open>sf_tag\<close> is \<open>Tag.Lookup\<close>.\<close>

record struct_field =
  sf_exported :: bool
  sf_tag :: "string \<rightharpoonup> string"
  sf_type :: go_type

definition tag_Get :: "struct_field \<Rightarrow> string \<Rightarrow> string" where
  "tag_Get f source = (case sf_tag f source of None \<Rightarrow> [] | Some v \<Rightarrow> v)"

definition bindingSources :: "string list" where
  "bindingSources = [''path'', ''query'', ''header'', ''cookie'', ''form'']"

text \<open>The name a field is bound to in a source; \<open>None\<close> when it is skipped.\<close>

definition source_name :: "struct_field \<Rightarrow> string \<Rightarrow> string option" where
  "source_name f source = (case cut (tag_Get f source) (CHR '','') of (name, _, _) \<Rightarrow>
     if name = [] \<or> name = ''-'' then None else Some name)"

record bindingMetadata =
  bm_fields :: "string \<Rightarrow> (nat \<times> string) list"
  bm_implicit :: "nat list"

text \<open>The loop over the sources of one field, with \<open>explicitSource\<close>.\<close>

fun bind_sources :: "struct_field \<Rightarrow> nat \<Rightarrow> string list \<Rightarrow> bool \<Rightarrow> bindingMetadata \<Rightarrow> bool \<times> bindingMetadata" where
  "bind_sources f i [] explicit m = (explicit, m)"
| "bind_sources f i (source # sources) explicit m = (case source_name f source of
     None \<Rightarrow> bind_sources f i sources explicit m
   | Some name \<Rightarrow> bind_sources f i sources True
       (m\<lparr>bm_fields := (bm_fields m)(source := bm_fields m source @ [(i, name)])\<rparr>))"

fun metadata_loop :: "nat \<Rightarrow> struct_field list \<Rightarrow> bindingMetadata \<Rightarrow> bindingMetadata" where
  "metadata_loop i [] m = m"
| "metadata_loop i (f # fs) m =
    (if \<not> sf_exported f then metadata_loop (Suc i) fs m
     else case bind_sources f i bindingSources False m of (explicit, m) \<Rightarrow>
       metadata_loop (Suc i) fs
         (if explicit \<and> sf_tag f ''json'' = None then m\<lparr>bm_implicit := bm_implicit m @ [i]\<rparr> else m))"

definition bindingMetadataFor :: "struct_field list \<Rightarrow> bindingMetadata" where
  "bindingMetadataFor fs = metadata_loop 0 fs \<lparr>bm_fields = (\<lambda>_. []), bm_implicit = []\<rparr>"

section \<open>Destinations\<close>

text \<open>
  What a destination is, as both tests of the code see it. The state of a binding is the values of
  the struct (or of what else the pointer leads to), the store, and the readers put around the body.
\<close>

datatype destination = NilDestination | NonPointer | NilPointer | PointerToOther | PointerToStruct "struct_field list"

record bind_state =
  bd_values :: "go_val list"
  bd_store :: store
  bd_bodyLimited :: bool
  bd_readers :: "int list"

definition bindingFault :: "string \<Rightarrow> string \<Rightarrow> goerr \<Rightarrow> goerr" where
  "bindingFault code message err = FaultErr (Some (case err of
     BindErr (Some b) \<Rightarrow> FaultError InvalidArgument code message [binding_field b \<mapsto> ''invalid value''] (Some err)
   | _ \<Rightarrow> fault_Wrap InvalidArgument code message (Some err)))"

text \<open>The loop over the fields of one source.\<close>

fun bind_loop :: "bind_lib \<Rightarrow> struct_field list \<Rightarrow> string \<Rightarrow> string \<Rightarrow> string \<Rightarrow> (string \<Rightarrow> string list option) \<Rightarrow>
    (nat \<times> string) list \<Rightarrow> bind_state \<Rightarrow> bind_state \<times> goerr option" where
  "bind_loop L fs source code message look [] b = (b, None)"
| "bind_loop L fs source code message look ((i, name) # rest) b = (case look name of
     None \<Rightarrow> bind_loop L fs source code message look rest b
   | Some raw \<Rightarrow> (case setField L (sf_type (fs ! i)) raw (bd_store b, bd_values b ! i) of ((s, x), err) \<Rightarrow>
       let b = b\<lparr>bd_store := s, bd_values := (bd_values b)[i := x]\<rparr>
       in case err of
            Some err \<Rightarrow> (b, Some (bindingFault code message (BindErr (Some (BindingError source name (Some err))))))
          | None \<Rightarrow> bind_loop L fs source code message look rest b))"

definition bindRequestValues :: "bind_lib \<Rightarrow> destination \<Rightarrow> string \<Rightarrow> string \<Rightarrow> string \<Rightarrow>
    (string \<Rightarrow> string list option) \<Rightarrow> bind_state \<Rightarrow> bind_state \<times> goerr option" where
  "bindRequestValues L dest source code message look b = (case dest of
     PointerToStruct fs \<Rightarrow> bind_loop L fs source code message look (bm_fields (bindingMetadataFor fs) source) b
   | _ \<Rightarrow> (b, Some (bindingFault code message (Opaque (source @ '' destination must be a non-nil pointer to a struct'')))))"

section \<open>Sources\<close>

text \<open>
  The request. The answers of the parsers: \<open>json.Decoder\<close> (with \<open>DisallowUnknownFields\<close>) on the
  destination and then on what is left, and \<open>ParseForm\<close> or, for \<open>True\<close>, \<open>ParseMultipartForm\<close>; the
  pair is whether the limit of the body was hit, with the error. A \<open>JsonTypeError\<close> names a field and has the text
  of the error.
\<close>

datatype json_answer = JsonOk | JsonEOF goerr | JsonTooLarge goerr | JsonTypeError string string | JsonError goerr

record bind_request =
  br_header :: header
  br_query :: "string \<rightharpoonup> string list"
  br_path :: "string \<Rightarrow> string"
  br_cookies :: "(string \<times> string) list"
  br_json :: "bool \<Rightarrow> go_val list \<Rightarrow> store \<Rightarrow> go_val list \<times> store \<times> json_answer"
  br_trailing :: json_answer
  br_form :: "bool \<Rightarrow> (bool \<times> goerr) + (string \<rightharpoonup> string list)"

definition bindPath :: "bind_lib \<Rightarrow> bind_request \<Rightarrow> destination \<Rightarrow> bind_state \<Rightarrow> bind_state \<times> goerr option" where
  "bindPath L rq dest = bindRequestValues L dest ''path'' ''invalid_path'' ''Path parameters contain invalid values''
     (\<lambda>name. let v = br_path rq name in if v \<noteq> [] then Some [v] else None)"

definition bindValues :: "bind_lib \<Rightarrow> destination \<Rightarrow> string \<Rightarrow> string \<Rightarrow> string \<Rightarrow> (string \<rightharpoonup> string list) \<Rightarrow>
    bind_state \<Rightarrow> bind_state \<times> goerr option" where
  "bindValues L dest source code message vals = bindRequestValues L dest source code message (\<lambda>name. vals name)"

definition bindQuery :: "bind_lib \<Rightarrow> bind_request \<Rightarrow> destination \<Rightarrow> bind_state \<Rightarrow> bind_state \<times> goerr option" where
  "bindQuery L rq dest = bindValues L dest ''query'' ''invalid_query'' ''Query parameters contain invalid values'' (br_query rq)"

definition bindHeader :: "bind_lib \<Rightarrow> bind_request \<Rightarrow> destination \<Rightarrow> bind_state \<Rightarrow> bind_state \<times> goerr option" where
  "bindHeader L rq dest = bindRequestValues L dest ''header'' ''invalid_header'' ''Request headers contain invalid values''
     (\<lambda>name. let vs = header_values (br_header rq) name in if vs \<noteq> [] then Some vs else None)"

definition bindCookie :: "bind_lib \<Rightarrow> bind_request \<Rightarrow> destination \<Rightarrow> bind_state \<Rightarrow> bind_state \<times> goerr option" where
  "bindCookie L rq dest = bindRequestValues L dest ''cookie'' ''invalid_cookie'' ''Request cookies contain invalid values''
     (\<lambda>name. let vs = map snd (filter (\<lambda>c. fst c = name) (br_cookies rq)) in if vs \<noteq> [] then Some vs else None)"

text \<open>\<open>limitBody\<close>; \<open>limit\<close> is the configured size.\<close>

definition limitBody :: "int \<Rightarrow> bind_state \<Rightarrow> bind_state" where
  "limitBody limit b = (if bd_bodyLimited b then b else b\<lparr>bd_readers := limit # bd_readers b, bd_bodyLimited := True\<rparr>)"

definition formParseError :: "bool \<times> goerr \<Rightarrow> string \<Rightarrow> string \<Rightarrow> goerr" where
  "formParseError e code message = HTTPErr (Some (case e of (tooLarge, err) \<Rightarrow>
     if tooLarge then RequestEntityTooLarge ''request_body_too_large'' ''Request body exceeds the configured limit''
     else WrapHTTPError 400 code message (Some err)))"

definition unsupported_media :: "string \<Rightarrow> goerr" where
  "unsupported_media message = HTTPErr (Some (UnsupportedMediaType ''unsupported_media_type'' message))"

definition parseForm :: "bind_lib \<Rightarrow> int \<Rightarrow> bind_request \<Rightarrow> bind_state \<Rightarrow> bind_state \<times> (string \<rightharpoonup> string list) result" where
  "parseForm L limit rq b = (case bl_parseMediaType L (header_get (br_header rq) ''Content-Type'') of
     None \<Rightarrow> (b, Inl (unsupported_media ''Content-Type must be application/x-www-form-urlencoded or multipart/form-data''))
   | Some m \<Rightarrow>
       if m \<noteq> ''application/x-www-form-urlencoded'' \<and> m \<noteq> ''multipart/form-data'' then
         (b, Inl (unsupported_media ''Content-Type must be application/x-www-form-urlencoded or multipart/form-data''))
       else
         let b = limitBody limit b
         in case br_form rq (m = ''multipart/form-data'') of
              Inl err \<Rightarrow> (b, Inl (formParseError err ''invalid_form'' ''Form contains invalid data''))
            | Inr vals \<Rightarrow> (b, Inr vals))"

definition bindForm :: "bind_lib \<Rightarrow> int \<Rightarrow> bind_request \<Rightarrow> destination \<Rightarrow> bind_state \<Rightarrow> bind_state \<times> goerr option" where
  "bindForm L limit rq dest b = (case parseForm L limit rq b of
     (b, Inl err) \<Rightarrow> (b, Some err)
   | (b, Inr vals) \<Rightarrow> bindValues L dest ''form'' ''invalid_form'' ''Form contains invalid values'' vals b)"

definition FormValue :: "bind_lib \<Rightarrow> int \<Rightarrow> bind_request \<Rightarrow> string \<Rightarrow> bind_state \<Rightarrow> bind_state \<times> string result" where
  "FormValue L limit rq name b = (case parseForm L limit rq b of
     (b, Inl err) \<Rightarrow> (b, Inl err)
   | (b, Inr vals) \<Rightarrow> (b, Inr (case vals name of None \<Rightarrow> [] | Some [] \<Rightarrow> [] | Some (v # _) \<Rightarrow> v)))"

definition parseMultipartForm :: "bind_lib \<Rightarrow> int \<Rightarrow> bind_request \<Rightarrow> bind_state \<Rightarrow> bind_state \<times> goerr option" where
  "parseMultipartForm L limit rq b =
    (if bl_parseMediaType L (header_get (br_header rq) ''Content-Type'') \<noteq> Some ''multipart/form-data'' then
       (b, Some (unsupported_media ''Content-Type must be multipart/form-data''))
     else
       let b = limitBody limit b
       in case br_form rq True of
            Inl err \<Rightarrow> (b, Some (formParseError err ''invalid_multipart'' ''Multipart form is invalid''))
          | Inr vals \<Rightarrow> (b, None))"

text \<open>\<open>file\<close> is the answer of \<open>Request.FormFile\<close>: with an error, whether it is \<open>http.ErrMissingFile\<close>.\<close>

definition FormFile :: "bind_lib \<Rightarrow> int \<Rightarrow> bind_request \<Rightarrow> (string \<Rightarrow> (bool \<times> goerr) + 'f) \<Rightarrow> string \<Rightarrow> bind_state \<Rightarrow> bind_state \<times> 'f result" where
  "FormFile L limit rq file name b = (case parseMultipartForm L limit rq b of
     (b, Some err) \<Rightarrow> (b, Inl err)
   | (b, None) \<Rightarrow> (b, case file name of
       Inl (missing, err) \<Rightarrow> Inl (HTTPErr (Some
         (if missing then BadRequest ''missing_file'' (''Form file '' @ [CHR 0x22] @ name @ [CHR 0x22] @ '' is required'')
          else WrapHTTPError 400 ''invalid_multipart'' ''Multipart form is invalid'' (Some err))))
     | Inr f \<Rightarrow> Inr f))"

section \<open>JSON\<close>

definition is_json :: "string \<Rightarrow> bool" where
  "is_json m \<longleftrightarrow> m = ''application/json'' \<or> has_suffix m ''+json''"

definition json_error :: "json_answer \<Rightarrow> goerr option" where
  "json_error a = (case a of
     JsonOk \<Rightarrow> None
   | JsonEOF err \<Rightarrow> Some (HTTPErr (Some (BadRequest ''empty_body'' ''Request body must contain JSON'')))
   | JsonTooLarge err \<Rightarrow> Some (HTTPErr (Some (RequestEntityTooLarge ''request_body_too_large''
        ''Request body exceeds the configured limit'')))
   | JsonTypeError field err \<Rightarrow>
       if field \<noteq> [] then Some (bindingFault ''invalid_json'' ''Request body contains invalid JSON''
         (BindErr (Some (BindingError ''json'' field (Some (Opaque err))))))
       else Some (HTTPErr (Some (WrapHTTPError 400 ''invalid_json'' ''Request body contains invalid JSON'' (Some (Opaque err)))))
   | JsonError err \<Rightarrow>
       Some (HTTPErr (Some (WrapHTTPError 400 ''invalid_json'' ''Request body contains invalid JSON'' (Some err)))))"

definition trailing_error :: "json_answer \<Rightarrow> goerr option" where
  "trailing_error a = (let invalid = (\<lambda>err. Some (HTTPErr (Some (WrapHTTPError 400 ''invalid_json''
       ''Request body contains invalid trailing data'' (Some err)))))
     in case a of
       JsonEOF err \<Rightarrow> None
     | JsonOk \<Rightarrow> Some (HTTPErr (Some (BadRequest ''multiple_json_values'' ''Request body must contain one JSON value'')))
     | JsonTooLarge err \<Rightarrow> invalid err
     | JsonTypeError field err \<Rightarrow> invalid (Opaque err)
     | JsonError err \<Rightarrow> invalid err)"

definition bindJSON :: "bind_lib \<Rightarrow> int \<Rightarrow> bool \<Rightarrow> bind_request \<Rightarrow> destination \<Rightarrow> bind_state \<Rightarrow> bind_state \<times> goerr option" where
  "bindJSON L limit disallow rq dest b =
    (if dest = NilDestination then
       (b, Some (HTTPErr (Some (BadRequest ''invalid_destination'' ''JSON destination cannot be nil''))))
     else if dest = NonPointer \<or> dest = NilPointer then
       (b, Some (HTTPErr (Some (BadRequest ''invalid_destination'' ''JSON destination must be a non-nil pointer''))))
     else
       let ct = header_get (br_header rq) ''Content-Type''
       in if ct \<noteq> [] \<and> (case bl_parseMediaType L ct of None \<Rightarrow> True | Some m \<Rightarrow> \<not> is_json m) then
            (b, Some (unsupported_media ''Content-Type must be application/json''))
          else
            let b = limitBody limit b
            in case br_json rq disallow (bd_values b) (bd_store b) of (vs, s, a) \<Rightarrow>
                 let b = b\<lparr>bd_values := vs, bd_store := s\<rparr>
                 in case json_error a of Some err \<Rightarrow> (b, Some err)
                    | None \<Rightarrow> (b, trailing_error (br_trailing rq)))"

text \<open>The saved fields are copies of the values: of a pointer, not of what it leads to.\<close>

fun restore_fields :: "nat list \<Rightarrow> go_val list \<Rightarrow> go_val list \<Rightarrow> go_val list" where
  "restore_fields [] saved vs = vs"
| "restore_fields (i # is) saved vs = restore_fields is saved (vs[i := saved ! i])"

definition bindJSONPreservingExplicitFields ::
  "bind_lib \<Rightarrow> int \<Rightarrow> bool \<Rightarrow> bind_request \<Rightarrow> destination \<Rightarrow> bind_state \<Rightarrow> bind_state \<times> goerr option" where
  "bindJSONPreservingExplicitFields L limit disallow rq dest b = (case dest of
     PointerToStruct fs \<Rightarrow> (case bindJSON L limit disallow rq dest b of (b', err) \<Rightarrow>
       (b'\<lparr>bd_values := restore_fields (bm_implicit (bindingMetadataFor fs)) (bd_values b) (bd_values b')\<rparr>, err))
   | _ \<Rightarrow> bindJSON L limit disallow rq dest b)"

section \<open>Validation and the public operations\<close>

text \<open>\<open>validator\<close> is what \<open>Validate\<close> answers, when the destination has it.\<close>

definition validateBinding :: "(go_val list \<Rightarrow> store \<Rightarrow> goerr option) option \<Rightarrow> bind_state \<Rightarrow> goerr option" where
  "validateBinding validator b = (case validator of None \<Rightarrow> None
   | Some validate \<Rightarrow> (case validate (bd_values b) (bd_store b) of None \<Rightarrow> None
       | Some err \<Rightarrow> (case as_fault err of
            Some (Some f) \<Rightarrow> Some err
          | _ \<Rightarrow> Some (FaultErr (Some (fault_Wrap InvalidArgument ''validation_failed'' ''Request values are invalid'' (Some err)))))))"

text \<open>The first error ends a sequence.\<close>

fun bind_seq :: "('s \<Rightarrow> 's \<times> goerr option) list \<Rightarrow> 's \<Rightarrow> 's \<times> goerr option" where
  "bind_seq [] b = (b, None)"
| "bind_seq (f # fs) b = (case f b of (b, Some err) \<Rightarrow> (b, Some err) | (b, None) \<Rightarrow> bind_seq fs b)"

definition bind_validated ::
  "(bind_state \<Rightarrow> bind_state \<times> goerr option) \<Rightarrow> (go_val list \<Rightarrow> store \<Rightarrow> goerr option) option \<Rightarrow> bind_state \<Rightarrow> bind_state \<times> goerr option" where
  "bind_validated f validator b = (case f b of (b, Some err) \<Rightarrow> (b, Some err) | (b, None) \<Rightarrow> (b, validateBinding validator b))"

definition BindJSON where "BindJSON L limit disallow rq dest = bind_validated (bindJSON L limit disallow rq dest)"
definition BindPath where "BindPath L rq dest = bind_validated (bindPath L rq dest)"
definition BindQuery where "BindQuery L rq dest = bind_validated (bindQuery L rq dest)"
definition BindHeader where "BindHeader L rq dest = bind_validated (bindHeader L rq dest)"
definition BindCookie where "BindCookie L rq dest = bind_validated (bindCookie L rq dest)"
definition BindForm where "BindForm L limit rq dest = bind_validated (bindForm L limit rq dest)"

definition bind_body :: "bind_lib \<Rightarrow> int \<Rightarrow> bool \<Rightarrow> bind_request \<Rightarrow> destination \<Rightarrow> bind_state \<Rightarrow> bind_state \<times> goerr option" where
  "bind_body L limit disallow rq dest b =
    (let ct = header_get (br_header rq) ''Content-Type''
     in if ct = [] then (b, None)
        else case bl_parseMediaType L ct of
            None \<Rightarrow> (b, Some (unsupported_media ''Content-Type is invalid''))
          | Some m \<Rightarrow>
              if is_json m then bindJSONPreservingExplicitFields L limit disallow rq dest b
              else if m = ''application/x-www-form-urlencoded'' \<or> m = ''multipart/form-data'' then bindForm L limit rq dest b
              else (b, Some (unsupported_media ''Content-Type is not supported for binding'')))"

definition Bind :: "bind_lib \<Rightarrow> int \<Rightarrow> bool \<Rightarrow> bind_request \<Rightarrow> destination \<Rightarrow>
    (go_val list \<Rightarrow> store \<Rightarrow> goerr option) option \<Rightarrow> bind_state \<Rightarrow> bind_state \<times> goerr option" where
  "Bind L limit disallow rq dest = bind_validated (bind_seq
     [bind_body L limit disallow rq dest, bindCookie L rq dest, bindHeader L rq dest, bindQuery L rq dest, bindPath L rq dest])"

end
