(* ===== verification/BindingProperties.thy ===== *)
theory BindingProperties
  imports Binding
begin

text \<open>
  What the binding of \<open>Binding\<close> keeps and gives: the values stay well typed, which source a field gets
  its value from, which fields a JSON body cannot reach, and the statuses of the errors.
\<close>

section \<open>Typing\<close>

text \<open>The types of the variables of the store are a list \<open>ST\<close>, which only grows.\<close>

primrec has_type :: "go_type list \<Rightarrow> go_type \<Rightarrow> go_val \<Rightarrow> bool" where
  "has_type ST StringT x = (case x of StringV v \<Rightarrow> True | _ \<Rightarrow> False)"
| "has_type ST BoolT x = (case x of BoolV v \<Rightarrow> True | _ \<Rightarrow> False)"
| "has_type ST (IntT n) x = (case x of IntV i \<Rightarrow> - (2 ^ (n - 1)) \<le> i \<and> i < 2 ^ (n - 1) | _ \<Rightarrow> False)"
| "has_type ST (UintT n) x = (case x of UintV m \<Rightarrow> m < 2 ^ n | _ \<Rightarrow> False)"
| "has_type ST (FloatT n) x = (case x of FloatV v \<Rightarrow> True | _ \<Rightarrow> False)"
| "has_type ST (SliceT k t) x = (case x of SliceV xs \<Rightarrow> list_all (has_type ST t) xs | TextV v \<Rightarrow> k \<noteq> None | _ \<Rightarrow> False)"
| "has_type ST (PointerT t) x = (case x of PointerV p \<Rightarrow> (case p of None \<Rightarrow> True | Some a \<Rightarrow> a < length ST \<and> ST ! a = t) | _ \<Rightarrow> False)"
| "has_type ST (TextT k) x = (case x of TextV v \<Rightarrow> True | _ \<Rightarrow> False)"
| "has_type ST (OtherT k) x = (case x of OtherV v \<Rightarrow> True | _ \<Rightarrow> False)"

definition store_ok :: "go_type list \<Rightarrow> store \<Rightarrow> bool" where
  "store_ok ST s \<longleftrightarrow> list_all2 (has_type ST) ST s"

definition bind_ok :: "struct_field list \<Rightarrow> go_type list \<Rightarrow> bind_state \<Rightarrow> bool" where
  "bind_ok fs ST b \<longleftrightarrow> store_ok ST (bd_store b) \<and> list_all2 (has_type ST) (map sf_type fs) (bd_values b)"

lemma has_type_mono: "has_type ST t x \<Longrightarrow> has_type (ST @ E) t x"
  by (induction t arbitrary: x) (auto simp: nth_append list_all_iff split: go_val.splits option.splits)

lemma has_types_mono: "list_all2 (has_type ST) ts xs \<Longrightarrow> list_all2 (has_type (ST @ E)) ts xs"
  by (erule list_all2_mono) (rule has_type_mono)

lemma zero_val_type [simp]: "has_type ST t (zero_val t)"
  by (cases t) simp_all

lemma store_ok_append: "store_ok ST s \<Longrightarrow> has_type (ST @ [t]) t x \<Longrightarrow> store_ok (ST @ [t]) (s @ [x])"
  unfolding store_ok_def by (rule list_all2_appendI [OF has_types_mono]) simp_all

lemma store_ok_update: "store_ok ST s \<Longrightarrow> a < length ST \<Longrightarrow> has_type ST (ST ! a) x \<Longrightarrow> store_ok ST (s[a := x])"
  unfolding store_ok_def by (simp add: list_all2_conv_all_nth nth_list_update)

lemma store_ok_nth: "store_ok ST s \<Longrightarrow> a < length ST \<Longrightarrow> has_type ST (ST ! a) (s ! a) \<and> length s = length ST"
  unfolding store_ok_def by (simp add: list_all2_conv_all_nth)

lemma setScalar_typed:
  assumes "store_ok ST s" "has_type ST t x" "setScalar L t v (s, x) = ((s', x'), err)"
  shows "\<exists>E. store_ok (ST @ E) s' \<and> has_type (ST @ E) t x'"
  using assms
proof (induction t arbitrary: ST s x s' x' err)
  case (PointerT t)
  obtain s1 a where 1: "(case x of PointerV (Some a) \<Rightarrow> (s, a) | _ \<Rightarrow> (s @ [zero_val t], length s)) = (s1, a)" by fastforce
  obtain s2 y e where 2: "setScalar L t v (s1, s1 ! a) = ((s2, y), e)" by (metis prod.exhaust)
  have eq: "s' = s2[a := y]" "x' = PointerV (Some a)" using PointerT.prems(3) by (simp_all add: 1 2)
  have "\<exists>E. store_ok (ST @ E) s1 \<and> a < length (ST @ E) \<and> (ST @ E) ! a = t"
  proof (cases "\<exists>b. x = PointerV (Some b)")
    case True
    with 1 PointerT.prems show ?thesis by (auto intro!: exI [of _ "[]"])
  next
    case False
    with PointerT.prems(2) have x: "x = PointerV None" by (auto split: go_val.splits option.splits)
    moreover have "length s = length ST" using PointerT.prems(1) by (simp add: store_ok_def list_all2_lengthD)
    ultimately show ?thesis using 1 store_ok_append [OF PointerT.prems(1), of t "zero_val t"]
      by (auto simp: nth_append intro!: exI [of _ "[t]"])
  qed
  then obtain E1 where E1: "store_ok (ST @ E1) s1" "a < length (ST @ E1)" "(ST @ E1) ! a = t" by blast
  with store_ok_nth have "has_type (ST @ E1) t (s1 ! a)" by blast
  from PointerT.IH [OF E1(1) this 2] obtain E2 where E2: "store_ok ((ST @ E1) @ E2) s2" "has_type ((ST @ E1) @ E2) t y" by blast
  moreover have a: "a < length ((ST @ E1) @ E2)" "((ST @ E1) @ E2) ! a = t"
    using E1(2,3) nth_append_left [OF E1(2), of E2] by simp_all
  ultimately have "store_ok ((ST @ E1) @ E2) s'" using store_ok_update eq(1) by simp
  then have "store_ok (ST @ (E1 @ E2)) s' \<and> has_type (ST @ (E1 @ E2)) (PointerT t) x'"
    using a eq(2) by simp
  then show ?case by blast
next
  case (SliceT k t)
  then show ?case by (intro exI [of _ "[]"]) (auto split: option.splits sum.splits)
next
  case (IntT n)
  then show ?case using ParseInt_range by (intro exI [of _ "[]"]) (auto simp del: One_nat_def split: option.splits)
qed (auto intro!: exI [of _ "[]"] simp: ParseUint_def split: option.splits sum.splits if_splits)

lemma set_elements_typed:
  assumes "store_ok ST s" "set_elements L t vs s = (s', r)"
  shows "\<exists>E. store_ok (ST @ E) s' \<and> (case r of Inl err \<Rightarrow> True | Inr xs \<Rightarrow> list_all (has_type (ST @ E) t) xs)"
  using assms
proof (induction vs arbitrary: ST s s' r)
  case Nil
  then show ?case by (auto intro!: exI [of _ "[]"])
next
  case (Cons v vs)
  obtain s1 x e where 1: "setScalar L t v (s, zero_val t) = ((s1, x), e)" by (metis prod.exhaust)
  then obtain E1 where E1: "store_ok (ST @ E1) s1" "has_type (ST @ E1) t x"
    using setScalar_typed [OF Cons.prems(1) zero_val_type] by blast
  show ?case
  proof (cases e)
    case None
    obtain s2 r2 where 2: "set_elements L t vs s1 = (s2, r2)" by fastforce
    from Cons.IH [OF E1(1) this] obtain E2 where E2: "store_ok ((ST @ E1) @ E2) s2"
      "case r2 of Inl err \<Rightarrow> True | Inr xs \<Rightarrow> list_all (has_type ((ST @ E1) @ E2) t) xs" by blast
    have "has_type ((ST @ E1) @ E2) t x" using E1(2) by (rule has_type_mono)
    with E2 Cons.prems(2) 1 2 None show ?thesis by (intro exI [of _ "E1 @ E2"]) (auto split: sum.splits)
  next
    case (Some err)
    with Cons.prems(2) 1 E1 show ?thesis by auto
  qed
qed

lemma setField_typed:
  assumes "store_ok ST s" "has_type ST t x" "setField L t vs (s, x) = ((s', x'), err)"
  shows "\<exists>E. store_ok (ST @ E) s' \<and> has_type (ST @ E) t x'"
proof (cases "\<exists>k e. t = SliceT k e")
  case True
  then obtain k e where t: "t = SliceT k e" by blast
  obtain s1 r where 1: "set_elements L e vs s = (s1, r)" by fastforce
  from set_elements_typed [OF assms(1) this] obtain E where
    E: "store_ok (ST @ E) s1" "case r of Inl err \<Rightarrow> True | Inr xs \<Rightarrow> list_all (has_type (ST @ E) e) xs" by blast
  have "has_type (ST @ E) t x" using assms(2) by (rule has_type_mono)
  with E assms(3) show ?thesis by (intro exI [of _ E]) (auto simp: setField_def t 1 split: sum.splits)
next
  case False
  then have eq: "setField L t vs (s, x) = (case vs of [] \<Rightarrow> ((s, x), None) | v # _ \<Rightarrow> setScalar L t v (s, x))"
    by (cases t; cases vs) (auto simp: setField_def)
  show ?thesis
  proof (cases vs)
    case Nil
    with assms eq show ?thesis by (auto intro!: exI [of _ "[]"])
  next
    case (Cons v us)
    with assms(3) eq have "setScalar L t v (s, x) = ((s', x'), err)" by simp
    with assms(1,2) show ?thesis by (rule setScalar_typed)
  qed
qed

text \<open>Every operation takes a well-typed state to one that is well typed in a longer list.\<close>

definition typed_step :: "struct_field list \<Rightarrow> (bind_state \<Rightarrow> bind_state \<times> goerr option) \<Rightarrow> bool" where
  "typed_step fs f \<longleftrightarrow> (\<forall>ST b. bind_ok fs ST b \<longrightarrow> (\<exists>E. bind_ok fs (ST @ E) (fst (f b))))"

lemma bind_loop_typed:
  assumes "\<forall>(i, name) \<in> set l. i < length fs" "bind_ok fs ST b"
  shows "\<exists>E. bind_ok fs (ST @ E) (fst (bind_loop L fs source code message look l b))"
  using assms
proof (induction l arbitrary: ST b)
  case Nil
  then show ?case by (auto intro!: exI [of _ "[]"])
next
  case (Cons a l)
  obtain i name where a: "a = (i, name)" by fastforce
  show ?case
  proof (cases "look name")
    case None
    with Cons a show ?thesis by auto
  next
    case (Some raw)
    obtain s x e where 1: "setField L (sf_type (fs ! i)) raw (bd_store b, bd_values b ! i) = ((s, x), e)" by (metis prod.exhaust)
    have i: "i < length fs" using Cons.prems(1) a by simp
    have st: "store_ok ST (bd_store b)" and vs: "list_all2 (has_type ST) (map sf_type fs) (bd_values b)"
      using Cons.prems(2) by (simp_all add: bind_ok_def)
    have "has_type ST (sf_type (fs ! i)) (bd_values b ! i)" using list_all2_nthD [OF vs, of i] i by simp
    from setField_typed [OF st this 1] obtain E where E: "store_ok (ST @ E) s" "has_type (ST @ E) (sf_type (fs ! i)) x" by blast
    let ?b = "b\<lparr>bd_store := s, bd_values := (bd_values b)[i := x]\<rparr>"
    have "list_all2 (has_type (ST @ E)) (map sf_type fs) ((bd_values b)[i := x])"
      using has_types_mono [OF vs, of E] E(2) i by (auto simp: list_all2_conv_all_nth nth_list_update)
    with E(1) have b': "bind_ok fs (ST @ E) ?b" by (simp add: bind_ok_def)
    show ?thesis
    proof (cases e)
      case None
      with Cons.IH [OF _ b'] Cons.prems(1) obtain E2 where
        "bind_ok fs ((ST @ E) @ E2) (fst (bind_loop L fs source code message look l ?b))" by auto
      then have "bind_ok fs (ST @ (E @ E2)) (fst (bind_loop L fs source code message look (a # l) b))"
        using a Some 1 None by simp
      then show ?thesis by blast
    next
      case (Some err)
      with b' a 1 \<open>look name = Some raw\<close> show ?thesis by (intro exI [of _ E]) simp
    qed
  qed
qed

lemma typed_step_seq:
  assumes "\<forall>f \<in> set gs. typed_step fs f"
  shows "typed_step fs (bind_seq gs)"
  unfolding typed_step_def
proof (intro allI impI)
  fix ST b assume "bind_ok fs ST b"
  with assms show "\<exists>E. bind_ok fs (ST @ E) (fst (bind_seq gs b))"
  proof (induction gs arbitrary: ST b)
    case Nil
    then show ?case by (auto intro!: exI [of _ "[]"])
  next
    case (Cons g gs)
    obtain b1 e where 1: "g b = (b1, e)" by fastforce
    have "typed_step fs g" using Cons.prems(1) by simp
    with Cons.prems(2) have "\<exists>E. bind_ok fs (ST @ E) (fst (g b))" unfolding typed_step_def by blast
    with 1 obtain E where E: "bind_ok fs (ST @ E) b1" by auto
    show ?case
    proof (cases e)
      case None
      from Cons.IH [OF _ E] Cons.prems(1) obtain E2 where "bind_ok fs ((ST @ E) @ E2) (fst (bind_seq gs b1))" by auto
      then have "bind_ok fs (ST @ (E @ E2)) (fst (bind_seq (g # gs) b))" using 1 None by simp
      then show ?thesis by blast
    next
      case (Some err)
      with 1 E show ?thesis by (intro exI [of _ E]) simp
    qed
  qed
qed

section \<open>Metadata\<close>

lemma bind_sources_spec:
  "bind_sources f i ss ex m = (ex', m') \<Longrightarrow>
     ex' = (ex \<or> (\<exists>s \<in> set ss. source_name f s \<noteq> None)) \<and> bm_implicit m' = bm_implicit m \<and>
     (distinct ss \<longrightarrow> bm_fields m' src = bm_fields m src @
        (if src \<in> set ss then (case source_name f src of None \<Rightarrow> [] | Some n \<Rightarrow> [(i, n)]) else []))"
  by (induction f i ss ex m arbitrary: ex' m' rule: bind_sources.induct) (auto split: option.splits)

lemma distinct_sources [simp]: "distinct bindingSources"
  by (simp add: bindingSources_def)

definition explicit_source :: "struct_field \<Rightarrow> bool" where
  "explicit_source f \<longleftrightarrow> (\<exists>s \<in> set bindingSources. source_name f s \<noteq> None)"

definition bound_name :: "struct_field \<Rightarrow> string \<Rightarrow> string option" where
  "bound_name f src = (if sf_exported f then source_name f src else None)"

definition implicit_field :: "struct_field \<Rightarrow> bool" where
  "implicit_field f \<longleftrightarrow> sf_exported f \<and> explicit_source f \<and> sf_tag f ''json'' = None"

lemma metadata_loop_spec:
  assumes "src \<in> set bindingSources"
  shows "bm_fields (metadata_loop k fs m) src = bm_fields m src @
      map (\<lambda>(i, f). (i, the (bound_name f src))) (filter (\<lambda>(i, f). bound_name f src \<noteq> None) (enumerate k fs)) \<and>
    bm_implicit (metadata_loop k fs m) = bm_implicit m @ map fst (filter (\<lambda>(i, f). implicit_field f) (enumerate k fs))"
proof (induction fs arbitrary: k m)
  case (Cons f fs)
  show ?case
  proof (cases "sf_exported f")
    case True
    obtain ex m1 where 1: "bind_sources f k bindingSources False m = (ex, m1)" by fastforce
    note spec = bind_sources_spec [OF this, of src]
    from True 1 spec assms Cons show ?thesis
      by (auto simp: bound_name_def implicit_field_def explicit_source_def)
  next
    case False
    with Cons show ?thesis by (simp add: bound_name_def implicit_field_def)
  qed
qed simp

lemma metadata_fields:
  assumes "src \<in> set bindingSources"
  shows "(i, n) \<in> set (bm_fields (bindingMetadataFor fs) src) \<longleftrightarrow> i < length fs \<and> bound_name (fs ! i) src = Some n"
    and "distinct (map fst (bm_fields (bindingMetadataFor fs) src))"
proof -
  have e: "bm_fields (bindingMetadataFor fs) src =
      map (\<lambda>(i, f). (i, the (bound_name f src))) (filter (\<lambda>(i, f). bound_name f src \<noteq> None) (enumerate 0 fs))"
    using metadata_loop_spec [OF assms, of 0 fs] by (simp add: bindingMetadataFor_def)
  show "(i, n) \<in> set (bm_fields (bindingMetadataFor fs) src) \<longleftrightarrow> i < length fs \<and> bound_name (fs ! i) src = Some n"
    unfolding e by (force simp: in_set_enumerate_eq image_iff)
  have "map fst (bm_fields (bindingMetadataFor fs) src) =
      map fst (filter (\<lambda>(i, f). bound_name f src \<noteq> None) (enumerate 0 fs))"
    unfolding e by (simp add: split_beta)
  then show "distinct (map fst (bm_fields (bindingMetadataFor fs) src))"
    by (simp add: distinct_map_filter)
qed

lemma metadata_implicit: "i \<in> set (bm_implicit (bindingMetadataFor fs)) \<longleftrightarrow> i < length fs \<and> implicit_field (fs ! i)"
proof -
  have "bm_implicit (bindingMetadataFor fs) = map fst (filter (\<lambda>(i, f). implicit_field f) (enumerate 0 fs))"
    using metadata_loop_spec [of "''path''" 0 fs] by (simp add: bindingMetadataFor_def bindingSources_def)
  then show ?thesis by (force simp: in_set_enumerate_eq image_iff)
qed

section \<open>Values\<close>

text \<open>Fields without pointers: their new value depends on the raw values only.\<close>

primrec plain :: "go_type \<Rightarrow> bool" where
  "plain StringT = True" | "plain BoolT = True" | "plain (IntT n) = True" | "plain (UintT n) = True" | "plain (FloatT n) = True"
| "plain (SliceT k t) = plain t" | "plain (PointerT t) = False" | "plain (TextT k) = True" | "plain (OtherT k) = True"

definition field_value :: "bind_lib \<Rightarrow> go_type \<Rightarrow> string list \<Rightarrow> go_val" where
  "field_value L t raw = snd (fst (setField L t raw ([], zero_val t)))"

lemma setScalar_plain:
  "plain t \<Longrightarrow> setScalar L t v (s, x) = ((s', y), e) \<Longrightarrow>
     s' = s \<and> (e = None \<longrightarrow> setScalar L t v (u, z) = ((u, y), None))"
  by (cases t) (auto split: option.splits sum.splits)

lemma set_elements_plain:
  "plain t \<Longrightarrow> set_elements L t vs s = (s', r) \<Longrightarrow> s' = s \<and> (r = Inr xs \<longrightarrow> set_elements L t vs u = (u, Inr xs))"
proof (induction vs arbitrary: s s' r xs u)
  case (Cons v vs)
  obtain s1 x e where 1: "setScalar L t v (s, zero_val t) = ((s1, x), e)" by (metis prod.exhaust)
  note p = setScalar_plain [OF Cons.prems(1) 1]
  obtain s2 r2 where 2: "set_elements L t vs s = (s2, r2)" by fastforce
  from p Cons.prems(2) 1 2 Cons.IH [OF Cons.prems(1) 2] show ?case
    by (cases e; cases r2) (auto split: prod.splits)
qed auto

lemma setField_plain:
  assumes "plain t" "raw \<noteq> []" "setField L t raw (s, x) = ((s', y), None)"
  shows "y = field_value L t raw"
proof (cases "\<exists>k e. t = SliceT k e")
  case True
  then obtain k e where t: "t = SliceT k e" by blast
  with assms obtain xs where "set_elements L e raw s = (s', Inr xs)" "y = SliceV xs"
    by (auto simp: setField_def split: sum.splits prod.splits)
  with set_elements_plain [of e L raw s s' "Inr xs" xs "[]"] assms(1) t show ?thesis
    by (simp add: field_value_def setField_def)
next
  case False
  obtain v vs where raw: "raw = v # vs" using assms(2) by (cases raw) auto
  with False have eq: "setField L t raw sx = setScalar L t v sx" for sx by (cases t) (auto simp: setField_def)
  with setScalar_plain [of t L v s x s' y None "[]" "zero_val t"] assms show ?thesis by (simp add: field_value_def)
qed

section \<open>Sources\<close>

text \<open>What a source has for a name, and for a field.\<close>

definition look_up :: "bind_request \<Rightarrow> string \<Rightarrow> string \<Rightarrow> string list option" where
  "look_up rq source name =
    (if source = ''path'' then (if br_path rq name \<noteq> [] then Some [br_path rq name] else None)
     else if source = ''query'' then br_query rq name
     else if source = ''header'' then (let vs = header_values (br_header rq) name in if vs \<noteq> [] then Some vs else None)
     else if source = ''cookie'' then
       (let vs = map snd (filter (\<lambda>c. fst c = name) (br_cookies rq)) in if vs \<noteq> [] then Some vs else None)
     else None)"

definition source_raw :: "bind_request \<Rightarrow> struct_field \<Rightarrow> string \<Rightarrow> string list option" where
  "source_raw rq f source = Option.bind (bound_name f source) (look_up rq source)"

text \<open>The source with the highest precedence that has the field.\<close>

fun first_raw :: "bind_request \<Rightarrow> struct_field \<Rightarrow> string list \<Rightarrow> string list option" where
  "first_raw rq f [] = None"
| "first_raw rq f (source # sources) = (case source_raw rq f source of Some raw \<Rightarrow> Some raw | None \<Rightarrow> first_raw rq f sources)"

lemma bind_loop_value:
  assumes "distinct (map fst l)" "bind_loop L fs source code message look l b = (b', e)" "i < length (bd_values b)"
  shows "length (bd_values b') = length (bd_values b) \<and>
    ((\<forall>n. (i, n) \<in> set l \<longrightarrow> look n = None) \<longrightarrow> bd_values b' ! i = bd_values b ! i) \<and>
    (e = None \<longrightarrow> (\<forall>n raw. (i, n) \<in> set l \<and> look n = Some raw \<and> raw \<noteq> [] \<and> plain (sf_type (fs ! i)) \<longrightarrow>
       bd_values b' ! i = field_value L (sf_type (fs ! i)) raw))"
  using assms
proof (induction l arbitrary: b)
  case (Cons a l)
  obtain j m where a: "a = (j, m)" by fastforce
  show ?case
  proof (cases "look m")
    case None
    with Cons a show ?thesis by auto
  next
    case (Some raw)
    obtain s x e1 where 1: "setField L (sf_type (fs ! j)) raw (bd_store b, bd_values b ! j) = ((s, x), e1)" by (metis prod.exhaust)
    let ?b = "b\<lparr>bd_store := s, bd_values := (bd_values b)[j := x]\<rparr>"
    show ?thesis
    proof (cases e1)
      case None
      have eq: "bind_loop L fs source code message look l ?b = (b', e)" using Cons.prems(2) a Some 1 None by simp
      have d: "distinct (map fst l)" and v: "bd_values ?b = (bd_values b)[j := x]" and il: "i < length (bd_values ?b)"
        using Cons.prems(1,3) by simp_all
      note c = Cons.IH [OF d eq il, unfolded v length_list_update]
      note IH = c [THEN conjunct1] c [THEN conjunct2, THEN conjunct1] c [THEN conjunct2, THEN conjunct2]
      show ?thesis
      proof (cases "i = j")
        case True
        have "(i, n) \<notin> set l" for n using Cons.prems(1) a True by force
        moreover have "plain (sf_type (fs ! i)) \<Longrightarrow> raw \<noteq> [] \<Longrightarrow> x = field_value L (sf_type (fs ! i)) raw"
          using setField_plain 1 None True by blast
        ultimately show ?thesis using IH Some a True Cons.prems(3) by auto
      next
        case False
        with IH a show ?thesis by auto
      qed
    next
      case err: (Some err)
      with Cons.prems(2) a Some 1 have "b' = ?b" "e \<noteq> None" by auto
      with Some a show ?thesis by (cases "i = j") auto
    qed
  qed
qed simp

definition source_step :: "bind_request \<Rightarrow> struct_field list \<Rightarrow> bind_lib \<Rightarrow> string \<Rightarrow> (bind_state \<Rightarrow> bind_state \<times> goerr option) \<Rightarrow> bool" where
  "source_step rq fs L source f \<longleftrightarrow> (\<forall>b b' e i. f b = (b', e) \<and> i < length fs \<and> length (bd_values b) = length fs \<longrightarrow>
     length (bd_values b') = length fs \<and>
     (source_raw rq (fs ! i) source = None \<longrightarrow> bd_values b' ! i = bd_values b ! i) \<and>
     (\<forall>raw. e = None \<and> source_raw rq (fs ! i) source = Some raw \<and> raw \<noteq> [] \<and> plain (sf_type (fs ! i)) \<longrightarrow>
       bd_values b' ! i = field_value L (sf_type (fs ! i)) raw))"

lemma bindRequestValues_step:
  assumes "source \<in> set bindingSources" "look = look_up rq source"
  shows "source_step rq fs L source (bindRequestValues L (PointerToStruct fs) source code message look)"
  unfolding source_step_def
proof (intro allI impI, elim conjE)
  fix b b' e i
  assume "bindRequestValues L (PointerToStruct fs) source code message look b = (b', e)"
    and i: "i < length fs" "length (bd_values b) = length fs"
  then have "bind_loop L fs source code message look (bm_fields (bindingMetadataFor fs) source) b = (b', e)"
    by (simp add: bindRequestValues_def)
  note v = bind_loop_value [OF metadata_fields(2) [OF assms(1)] this, of i]
  have n: "(i, n) \<in> set (bm_fields (bindingMetadataFor fs) source) \<longleftrightarrow> bound_name (fs ! i) source = Some n" for n
    using metadata_fields(1) [OF assms(1)] i(1) by simp
  show "length (bd_values b') = length fs \<and>
     (source_raw rq (fs ! i) source = None \<longrightarrow> bd_values b' ! i = bd_values b ! i) \<and>
     (\<forall>raw. e = None \<and> source_raw rq (fs ! i) source = Some raw \<and> raw \<noteq> [] \<and> plain (sf_type (fs ! i)) \<longrightarrow>
       bd_values b' ! i = field_value L (sf_type (fs ! i)) raw)"
    using v i unfolding n assms(2) source_raw_def by (cases "bound_name (fs ! i) source") auto
qed

lemma sources_step:
  "source_step rq fs L ''path'' (bindPath L rq (PointerToStruct fs))"
  "source_step rq fs L ''query'' (bindQuery L rq (PointerToStruct fs))"
  "source_step rq fs L ''header'' (bindHeader L rq (PointerToStruct fs))"
  "source_step rq fs L ''cookie'' (bindCookie L rq (PointerToStruct fs))"
  unfolding bindPath_def bindQuery_def bindHeader_def bindCookie_def bindValues_def
  by (rule bindRequestValues_step; simp add: bindingSources_def look_up_def fun_eq_iff Let_def)+

lemma first_raw_snoc:
  "first_raw rq f (xs @ [s]) = (case first_raw rq f xs of Some raw \<Rightarrow> Some raw | None \<Rightarrow> source_raw rq f s)"
  by (induction xs) (auto split: option.split)

lemma source_raw_nonempty: "\<forall>n. br_query rq n \<noteq> Some [] \<Longrightarrow> source_raw rq f s = Some raw \<Longrightarrow> raw \<noteq> []"
  by (cases "bound_name f s") (auto simp: source_raw_def look_up_def Let_def split: if_splits)

text \<open>A sequence of sources, the last with the highest precedence.\<close>

lemma bind_seq_sources:
  assumes "list_all2 (source_step rq fs L) sources gs" "bind_seq gs b = (b', e)"
    "i < length fs" "length (bd_values b) = length fs"
  shows "length (bd_values b') = length fs \<and>
    (first_raw rq (fs ! i) (rev sources) = None \<longrightarrow> bd_values b' ! i = bd_values b ! i) \<and>
    (\<forall>raw. e = None \<and> first_raw rq (fs ! i) (rev sources) = Some raw \<and> plain (sf_type (fs ! i)) \<and>
       (\<forall>n. br_query rq n \<noteq> Some []) \<longrightarrow> bd_values b' ! i = field_value L (sf_type (fs ! i)) raw)"
  using assms
proof (induction sources gs arbitrary: b rule: list_all2_induct)
  case (Cons src srcs g gs)
  obtain b1 e1 where 1: "g b = (b1, e1)" by fastforce
  from Cons.hyps(1) [unfolded source_step_def, rule_format, OF conjI [OF 1 conjI [OF Cons.prems(2,3)]]]
  have len: "length (bd_values b1) = length fs"
    and keep: "source_raw rq (fs ! i) src = None \<longrightarrow> bd_values b1 ! i = bd_values b ! i"
    and set: "\<forall>raw. e1 = None \<and> source_raw rq (fs ! i) src = Some raw \<and> raw \<noteq> [] \<and> plain (sf_type (fs ! i)) \<longrightarrow>
       bd_values b1 ! i = field_value L (sf_type (fs ! i)) raw" by blast+
  show ?case
  proof (cases e1)
    case None
    with Cons.prems(1) 1 have rest: "bind_seq gs b1 = (b', e)" by simp
    note c = Cons.IH [OF rest Cons.prems(2) len]
    note r = c [THEN conjunct1] c [THEN conjunct2, THEN conjunct1] c [THEN conjunct2, THEN conjunct2]
    show ?thesis
    proof (cases "first_raw rq (fs ! i) (rev srcs)")
      case none: None
      then have "bd_values b' ! i = bd_values b1 ! i" using r(2) by blast
      with none keep set None r(1) source_raw_nonempty show ?thesis by (auto simp: first_raw_snoc)
    next
      case (Some raw)
      with r show ?thesis by (simp add: first_raw_snoc)
    qed
  next
    case (Some err)
    with Cons.prems(1) 1 have "b' = b1" "e = Some err" by auto
    with len keep show ?thesis by (simp add: first_raw_snoc split: option.split)
  qed
qed simp

section \<open>The body\<close>

lemma restore_fields_spec:
  "i < length vs \<Longrightarrow> length (restore_fields is saved vs) = length vs \<and>
     restore_fields is saved vs ! i = (if i \<in> set is then saved ! i else vs ! i)"
  by (induction "is" arbitrary: vs) (auto simp: nth_list_update)

text \<open>The sources after the body, as \<open>Bind\<close> runs them.\<close>

definition bind_rest :: "bind_lib \<Rightarrow> bind_request \<Rightarrow> destination \<Rightarrow> bind_state \<Rightarrow> bind_state \<times> goerr option" where
  "bind_rest L rq dest = bind_seq [bindCookie L rq dest, bindHeader L rq dest, bindQuery L rq dest, bindPath L rq dest]"

abbreviation precedence :: "string list" where "precedence \<equiv> [''path'', ''query'', ''header'', ''cookie'']"

lemma Bind_split:
  "fst (Bind L limit disallow rq dest validator b) =
     (case bind_body L limit disallow rq dest b of (b1, Some err) \<Rightarrow> b1 | (b1, None) \<Rightarrow> fst (bind_rest L rq dest b1))"
  "snd (Bind L limit disallow rq dest validator b) =
     (case bind_body L limit disallow rq dest b of (b1, Some err) \<Rightarrow> Some err
      | (b1, None) \<Rightarrow> (case bind_rest L rq dest b1 of (b2, Some err) \<Rightarrow> Some err | (b2, None) \<Rightarrow> validateBinding validator b2))"
  by (simp_all add: Bind_def bind_validated_def bind_rest_def split: prod.split option.split)

lemma bind_rest_sources:
  assumes "bind_rest L rq (PointerToStruct fs) b = (b', e)" "i < length fs" "length (bd_values b) = length fs"
  shows "(first_raw rq (fs ! i) precedence = None \<longrightarrow> bd_values b' ! i = bd_values b ! i) \<and>
    (\<forall>raw. e = None \<and> first_raw rq (fs ! i) precedence = Some raw \<and> plain (sf_type (fs ! i)) \<and>
       (\<forall>n. br_query rq n \<noteq> Some []) \<longrightarrow> bd_values b' ! i = field_value L (sf_type (fs ! i)) raw)"
proof -
  have "list_all2 (source_step rq fs L) [''cookie'', ''header'', ''query'', ''path'']
      [bindCookie L rq (PointerToStruct fs), bindHeader L rq (PointerToStruct fs), bindQuery L rq (PointerToStruct fs),
       bindPath L rq (PointerToStruct fs)]"
    using sources_step by (simp only: list_all2_Cons list_all2_Nil simp_thms)
  from bind_seq_sources [OF this assms(1) [unfolded bind_rest_def] assms(2,3)]
  show ?thesis unfolding rev.simps append.simps by (rule conjunct2)
qed

text \<open>The decoder fills the destination in place, so the number of fields stays.\<close>

definition decodes_in_place :: "bind_request \<Rightarrow> bool" where
  "decodes_in_place rq \<longleftrightarrow> (\<forall>disallow vs s. length (fst (br_json rq disallow vs s)) = length vs)"

lemma bindJSON_length:
  "decodes_in_place rq \<Longrightarrow> length (bd_values (fst (bindJSON L limit disallow rq dest b))) = length (bd_values b)"
  unfolding decodes_in_place_def
  by (auto simp: bindJSON_def Let_def limitBody_def split: prod.split option.split) (metis fst_conv)+

lemma bindValues_length:
  assumes "length (bd_values b) = length fs"
  shows "length (bd_values (fst (bindValues L (PointerToStruct fs) ''form'' code message vals b))) = length fs"
proof (cases fs)
  case Nil
  have "bm_fields (bindingMetadataFor []) ''form'' = []" by (simp add: bindingMetadataFor_def)
  with assms Nil show ?thesis by (simp add: bindValues_def bindRequestValues_def)
next
  case (Cons f fs')
  have "''form'' \<in> set bindingSources" by (simp add: bindingSources_def)
  note d = metadata_fields(2) [OF this, of fs]
  obtain b' e where 1: "bind_loop L fs ''form'' code message (\<lambda>n. vals n) (bm_fields (bindingMetadataFor fs) ''form'') b = (b', e)"
    by fastforce
  from bind_loop_value [OF d this, of 0] assms Cons have "length (bd_values b') = length fs" by simp
  with 1 show ?thesis by (simp add: bindValues_def bindRequestValues_def)
qed

lemma bind_body_length:
  assumes "decodes_in_place rq" "length (bd_values b) = length fs"
  shows "length (bd_values (fst (bind_body L limit disallow rq (PointerToStruct fs) b))) = length fs"
proof -
  let ?f = "fst (parseForm L limit rq b)"
  have "bd_values ?f = bd_values b"
    by (simp add: parseForm_def limitBody_def Let_def split: option.split sum.split)
  then have form: "length (bd_values (fst (bindForm L limit rq (PointerToStruct fs) b))) = length fs"
    using assms(2) bindValues_length [of ?f fs] by (auto simp: bindForm_def split: prod.split sum.split)
  obtain b1 e where 1: "bindJSON L limit disallow rq (PointerToStruct fs) b = (b1, e)" by fastforce
  with bindJSON_length [OF assms(1)] have l: "length (bd_values b1) = length fs" by (metis assms(2) fst_conv)
  have "length (restore_fields is saved vs) = length vs" for "is" saved and vs :: "go_val list"
    by (induction "is" arbitrary: vs) simp_all
  with 1 l form assms(2) show ?thesis
    by (simp add: bind_body_def bindJSONPreservingExplicitFields_def Let_def split: option.split)
qed

section \<open>Properties\<close>

text \<open>C18. A successful \<open>Bind\<close> gives a field without pointers the value from the first of path, query, headers and cookies that has it,
  and from the body only when none of them has it.\<close>

theorem bind_precedence:
  assumes "Bind L limit disallow rq (PointerToStruct fs) validator b = (b', None)"
    and "i < length fs" "length (bd_values b) = length fs" "plain (sf_type (fs ! i))"
    and "decodes_in_place rq" and "\<forall>n. br_query rq n \<noteq> Some []"
  shows "bd_values b' ! i = (case first_raw rq (fs ! i) [''path'', ''query'', ''header'', ''cookie''] of
      Some raw \<Rightarrow> field_value L (sf_type (fs ! i)) raw
    | None \<Rightarrow> bd_values (fst (bind_body L limit disallow rq (PointerToStruct fs) b)) ! i)"
proof -
  obtain b1 e1 where 1: "bind_body L limit disallow rq (PointerToStruct fs) b = (b1, e1)" by fastforce
  with assms(1) Bind_split(2) [of L limit disallow rq "PointerToStruct fs" validator b] have "e1 = None" by (cases e1) auto
  moreover obtain b2 e2 where 2: "bind_rest L rq (PointerToStruct fs) b1 = (b2, e2)" by fastforce
  ultimately have "e2 = None" "b' = b2"
    using assms(1) 1 Bind_split [of L limit disallow rq "PointerToStruct fs" validator b] by (auto split: option.splits)
  moreover have "length (bd_values b1) = length fs" using bind_body_length [OF assms(5,3)] 1 by (metis fst_conv)
  note bind_rest_sources [OF 2 assms(2) this]
  ultimately show ?thesis using 1 assms(4,6) by (simp split: option.split)
qed


text \<open>The decoder respects the types of what it fills.\<close>

definition decodes_typed :: "bind_request \<Rightarrow> struct_field list \<Rightarrow> bool" where
  "decodes_typed rq fs \<longleftrightarrow> (\<forall>disallow ST vs s vs' s' a. br_json rq disallow vs s = (vs', s', a) \<and>
     list_all2 (has_type ST) (map sf_type fs) vs \<and> store_ok ST s \<longrightarrow>
     (\<exists>E. list_all2 (has_type (ST @ E)) (map sf_type fs) vs' \<and> store_ok (ST @ E) s'))"

lemma bindRequestValues_typed:
  assumes "source \<in> set bindingSources"
  shows "typed_step fs (bindRequestValues L (PointerToStruct fs) source code message look)"
  unfolding typed_step_def bindRequestValues_def
  using metadata_fields(1) [OF assms] by (auto intro!: bind_loop_typed)

lemma bind_ok_limit [simp]: "bind_ok fs ST (limitBody limit b) = bind_ok fs ST b"
  by (simp add: bind_ok_def limitBody_def)

lemma bindForm_typed: "typed_step fs (bindForm L limit rq (PointerToStruct fs))"
  unfolding typed_step_def
proof (intro allI impI)
  fix ST b assume b: "bind_ok fs ST b"
  obtain b1 r where 1: "parseForm L limit rq b = (b1, r)" by fastforce
  with b have b1: "bind_ok fs ST b1"
    by (auto simp: parseForm_def Let_def split: option.splits if_splits sum.splits)
  have "typed_step fs (bindValues L (PointerToStruct fs) ''form'' ''invalid_form'' ''Form contains invalid values'' vals)" for vals
    unfolding bindValues_def by (rule bindRequestValues_typed) (simp add: bindingSources_def)
  with b1 have "\<exists>E. bind_ok fs (ST @ E) (fst (bindValues L (PointerToStruct fs) ''form'' ''invalid_form''
      ''Form contains invalid values'' vals b1))" for vals
    unfolding typed_step_def by blast
  with b1 1 show "\<exists>E. bind_ok fs (ST @ E) (fst (bindForm L limit rq (PointerToStruct fs) b))"
    by (cases r) (auto simp: bindForm_def intro: exI [of _ "[]"])
qed

lemma restore_fields_typed:
  "list_all2 P ts saved \<Longrightarrow> list_all2 P ts vs \<Longrightarrow> list_all2 P ts (restore_fields is saved vs)"
proof (induction "is" arbitrary: vs)
  case (Cons i "is")
  have "list_all2 P ts (vs[i := saved ! i])"
    using Cons.prems by (cases "i < length vs") (auto simp: list_all2_conv_all_nth nth_list_update)
  with Cons show ?case by simp
qed simp

lemma bindJSON_typed:
  assumes "decodes_typed rq fs" "bind_ok fs ST b" "bindJSON L limit disallow rq (PointerToStruct fs) b = (b', err)"
  shows "\<exists>E. bind_ok fs (ST @ E) b'"
proof -
  let ?b = "limitBody limit b"
  obtain vs s a where 1: "br_json rq disallow (bd_values ?b) (bd_store ?b) = (vs, s, a)" by (metis prod.exhaust)
  have "bind_ok fs ST ?b" using assms(2) by simp
  then obtain E where "list_all2 (has_type (ST @ E)) (map sf_type fs) vs" "store_ok (ST @ E) s"
    using assms(1) 1 unfolding decodes_typed_def bind_ok_def by blast
  then have E: "bind_ok fs (ST @ E) (?b\<lparr>bd_values := vs, bd_store := s\<rparr>)" by (simp add: bind_ok_def)
  have "b' = b \<or> b' = ?b\<lparr>bd_values := vs, bd_store := s\<rparr>"
    using assms(3) by (auto simp: bindJSON_def Let_def 1 split: if_splits option.splits)
  with E assms(2) show ?thesis by (auto intro: exI [of _ "[]"])
qed

lemma bind_body_typed:
  assumes "decodes_typed rq fs"
  shows "typed_step fs (bind_body L limit disallow rq (PointerToStruct fs))"
  unfolding typed_step_def
proof (intro allI impI)
  fix ST b assume b: "bind_ok fs ST b"
  obtain b' e where 1: "bindJSON L limit disallow rq (PointerToStruct fs) b = (b', e)" by fastforce
  from bindJSON_typed [OF assms b 1] obtain E where E: "bind_ok fs (ST @ E) b'" by blast
  have "list_all2 (has_type (ST @ E)) (map sf_type fs) (bd_values b)"
    using b by (intro has_types_mono) (simp add: bind_ok_def)
  then have json: "bind_ok fs (ST @ E) (fst (bindJSONPreservingExplicitFields L limit disallow rq (PointerToStruct fs) b))"
    using E 1 by (simp add: bindJSONPreservingExplicitFields_def bind_ok_def restore_fields_typed)
  have "\<exists>E. bind_ok fs (ST @ E) (fst (bindForm L limit rq (PointerToStruct fs) b))"
    using bindForm_typed b unfolding typed_step_def by blast
  with json b show "\<exists>E. bind_ok fs (ST @ E) (fst (bind_body L limit disallow rq (PointerToStruct fs) b))"
    by (auto simp: bind_body_def Let_def split: option.split intro: exI [of _ "[]"])
qed

text \<open>C19. Whatever a request holds, \<open>Bind\<close> leaves every variable with a value of its type: an integer within the width of its field,
  a pointer to a variable of its type. That is so after an error as well.\<close>

theorem bind_typed:
  assumes "bind_ok fs ST b" and "decodes_typed rq fs"
  shows "\<exists>E. bind_ok fs (ST @ E) (fst (Bind L limit disallow rq (PointerToStruct fs) validator b))"
proof -
  have src: "typed_step fs (bindCookie L rq (PointerToStruct fs))" "typed_step fs (bindHeader L rq (PointerToStruct fs))"
    "typed_step fs (bindQuery L rq (PointerToStruct fs))" "typed_step fs (bindPath L rq (PointerToStruct fs))"
    unfolding bindCookie_def bindHeader_def bindQuery_def bindValues_def bindPath_def
    by (rule bindRequestValues_typed; simp add: bindingSources_def)+
  have "typed_step fs (bind_seq [bind_body L limit disallow rq (PointerToStruct fs), bindCookie L rq (PointerToStruct fs),
      bindHeader L rq (PointerToStruct fs), bindQuery L rq (PointerToStruct fs), bindPath L rq (PointerToStruct fs)])"
    by (rule typed_step_seq) (use src bind_body_typed [OF assms(2)] in auto)
  then obtain E where "bind_ok fs (ST @ E) (fst (bind_seq [bind_body L limit disallow rq (PointerToStruct fs),
      bindCookie L rq (PointerToStruct fs), bindHeader L rq (PointerToStruct fs), bindQuery L rq (PointerToStruct fs),
      bindPath L rq (PointerToStruct fs)] b))" using assms(1) unfolding typed_step_def by blast
  then show ?thesis
    by (intro exI [of _ E]) (auto simp: Bind_def bind_validated_def simp del: bind_seq.simps split: prod.splits option.splits)
qed

section \<open>Errors\<close>

definition opaque_errors :: "bind_lib \<Rightarrow> bool" where
  "opaque_errors L \<longleftrightarrow> (\<forall>k v e. bl_unmarshalText L k v = Inl e \<longrightarrow> e \<in> range Opaque)"

definition bind_status :: "goerr \<Rightarrow> bool" where
  "bind_status e \<longleftrightarrow> StatusCode e = 400 \<or> StatusCode e = 413 \<or> StatusCode e = 415"

lemma bind_statuses [simp]:
  "bind_status (HTTPErr (Some (BadRequest code msg)))" "bind_status (HTTPErr (Some (WrapHTTPError 400 code msg cause)))"
  "bind_status (HTTPErr (Some (RequestEntityTooLarge code msg)))" "bind_status (unsupported_media msg)"
proof -
  have as: "as_http (HTTPErr (Some e)) = Some (Some e)" for e
    by (cases e; cases "http_cause e") (auto simp: as_http_def)
  show "bind_status (HTTPErr (Some (BadRequest code msg)))" "bind_status (HTTPErr (Some (WrapHTTPError 400 code msg cause)))"
    "bind_status (HTTPErr (Some (RequestEntityTooLarge code msg)))" "bind_status (unsupported_media msg)"
    by (simp_all add: bind_status_def unsupported_media_def StatusCode_def mapHTTPError_def as map_http_error_def mapped_def
        BadRequest_def WrapHTTPError_def RequestEntityTooLarge_def UnsupportedMediaType_def NewHTTPError_def)
qed

lemma bindingFault_status [simp]:
  "bind_status (bindingFault code msg (Opaque t))"
  "bind_status (bindingFault code msg (BindErr (Some (BindingError source name (Some (Opaque t))))))"
  by (simp_all add: bind_status_def bindingFault_def fault_Wrap_def StatusCode_def mapHTTPError_def as_http_def as_op_def as_fault_def
      map_async_error_def errors_Is_def map_fault_error_def mapped_def)

lemma setScalar_error:
  "opaque_errors L \<Longrightarrow> setScalar L t v (s, x) = (r, Some e) \<Longrightarrow> e \<in> range Opaque"
  by (induction t arbitrary: s x r)
    (auto simp: opaque_errors_def parse_error_def split: option.splits sum.splits prod.splits)

lemma set_elements_error:
  "opaque_errors L \<Longrightarrow> set_elements L t vs s = (s', Inl e) \<Longrightarrow> e \<in> range Opaque"
  by (induction vs arbitrary: s s') (auto split: prod.splits option.splits sum.splits dest: setScalar_error)

lemma setField_error:
  "opaque_errors L \<Longrightarrow> setField L t vs (s, x) = (r, Some e) \<Longrightarrow> e \<in> range Opaque"
  unfolding setField_def
  by (cases t; cases vs) (auto split: prod.splits sum.splits simp del: setScalar.simps set_elements.simps dest: setScalar_error set_elements_error)

lemma bind_loop_error:
  assumes "opaque_errors L"
  shows "bind_loop L fs source code message look l b = (b', Some e) \<Longrightarrow> bind_status e"
  by (induction l arbitrary: b)
    (auto simp: Let_def split: option.splits prod.splits dest!: setField_error [OF assms])

lemma bindRequestValues_error:
  "opaque_errors L \<Longrightarrow> bindRequestValues L dest source code message look b = (b', Some e) \<Longrightarrow> bind_status e"
  by (auto simp: bindRequestValues_def split: destination.splits dest: bind_loop_error)

lemma bindJSON_error: "bindJSON L limit disallow rq dest b = (b', Some e) \<Longrightarrow> bind_status e"
  by (auto simp: bindJSON_def json_error_def trailing_error_def Let_def
      split: if_splits option.splits prod.splits json_answer.splits)

lemma bindForm_error: "opaque_errors L \<Longrightarrow> bindForm L limit rq dest b = (b', Some e) \<Longrightarrow> bind_status e"
  by (auto simp: bindForm_def bindValues_def parseForm_def formParseError_def Let_def
      split: option.splits prod.splits sum.splits if_splits dest: bindRequestValues_error)

lemma bind_body_error: "opaque_errors L \<Longrightarrow> bind_body L limit disallow rq dest b = (b', Some e) \<Longrightarrow> bind_status e"
  by (auto simp: bind_body_def bindJSONPreservingExplicitFields_def Let_def
      split: if_splits option.splits prod.splits destination.splits dest: bindJSON_error bindForm_error)

lemma bind_rest_error: "opaque_errors L \<Longrightarrow> bind_rest L rq dest b = (b', Some e) \<Longrightarrow> bind_status e"
  by (auto simp: bind_rest_def bindPath_def bindQuery_def bindHeader_def bindCookie_def bindValues_def
      split: option.splits prod.splits dest: bindRequestValues_error)

text \<open>What is wrong with a request is answered as the client's error: a failed \<open>Bind\<close> has the status 400, 413 or 415 unless it comes
  from the validator, and an error of the validator that is no fault has the code \<open>validation_failed\<close>.\<close>

theorem bind_error_status:
  assumes "opaque_errors L" and "snd (Bind L limit disallow rq dest validator b) = Some e"
  shows "StatusCode e = 400 \<or> StatusCode e = 413 \<or> StatusCode e = 415 \<or>
    (\<exists>validate vs s e'. validator = Some validate \<and> validate vs s = Some e' \<and>
       e = (if as_fault e' \<in> range (\<lambda>f. Some (Some f)) then e'
            else FaultErr (Some (fault_Wrap InvalidArgument ''validation_failed'' ''Request values are invalid'' (Some e')))))"
proof -
  obtain b1 e1 where 1: "bind_body L limit disallow rq dest b = (b1, e1)" by fastforce
  obtain b2 e2 where 2: "bind_rest L rq dest b1 = (b2, e2)" by fastforce
  have "bind_status e \<or> validateBinding validator b2 = Some e"
    using assms(2) 1 2 bind_body_error [OF assms(1), of limit disallow rq dest b b1]
      bind_rest_error [OF assms(1), of rq dest b1 b2]
    by (auto simp: Bind_split(2) split: option.splits)
  moreover have "\<exists>validate vs s e'. validator = Some validate \<and> validate vs s = Some e' \<and>
       e = (if as_fault e' \<in> range (\<lambda>f. Some (Some f)) then e'
            else FaultErr (Some (fault_Wrap InvalidArgument ''validation_failed'' ''Request values are invalid'' (Some e'))))"
    if v: "validateBinding validator b2 = Some e"
  proof -
    from v obtain validate e' where w: "validator = Some validate" "validate (bd_values b2) (bd_store b2) = Some e'"
      by (auto simp: validateBinding_def split: option.splits)
    with v have "e = (if as_fault e' \<in> range (\<lambda>f. Some (Some f)) then e'
            else FaultErr (Some (fault_Wrap InvalidArgument ''validation_failed'' ''Request values are invalid'' (Some e'))))"
      by (auto simp: validateBinding_def split: option.splits)
    with w show ?thesis by blast
  qed
  ultimately show ?thesis unfolding bind_status_def by blast
qed

section \<open>A field behind a pointer\<close>

text \<open>
  What is kept of a field is its variable, so a pointer the destination had before still leads to
  what the decoder wrote: \<open>json\<close> writes through a pointer that is not nil.
\<close>

definition demo_pointer_field :: struct_field where
  "demo_pointer_field = \<lparr>sf_exported = True, sf_tag = [''query'' \<mapsto> ''owner''], sf_type = PointerT StringT\<rparr>"

definition demo_bind_lib :: bind_lib where
  "demo_bind_lib = \<lparr>bl_parseFloat = (\<lambda>v n. None), bl_unmarshalText = (\<lambda>k v. Inr v), bl_parseMediaType = Some\<rparr>"

definition demo_json :: "bool \<Rightarrow> go_val list \<Rightarrow> store \<Rightarrow> go_val list \<times> store \<times> json_answer" where
  "demo_json d vs s = (case vs of [PointerV (Some a)] \<Rightarrow> (vs, s[a := StringV ''mallory''], JsonOk) | _ \<Rightarrow> (vs, s, JsonOk))"

definition demo_bind_request :: bind_request where
  "demo_bind_request = \<lparr>br_header = header_set ''Content-Type'' ''application/json'' empty_header, br_query = (\<lambda>n. None),
     br_path = (\<lambda>n. []), br_cookies = [], br_json = demo_json, br_trailing = JsonEOF (Sentinel IoEOF),
     br_form = (\<lambda>m. Inr (\<lambda>n. None))\<rparr>"

definition demo_bind_state :: bind_state where
  "demo_bind_state = \<lparr>bd_values = [PointerV (Some 0)], bd_store = [StringV ''alice''], bd_bodyLimited = False, bd_readers = []\<rparr>"

lemma json_writes_through_pointer:
  "implicit_field demo_pointer_field \<and>
   (case bind_body demo_bind_lib 100 False demo_bind_request (PointerToStruct [demo_pointer_field]) demo_bind_state of
      (b, err) \<Rightarrow> err = None \<and> bd_values b = [PointerV (Some 0)] \<and> bd_store b = [StringV ''mallory''])"
proof -
  have h: "header_get (br_header demo_bind_request) ''Content-Type'' = ''application/json''" by code_simp
  have f: "implicit_field demo_pointer_field"
    by (simp add: implicit_field_def explicit_source_def source_name_def tag_Get_def demo_pointer_field_def bindingSources_def cut_def)
  with metadata_implicit [of 0 "[demo_pointer_field]"] have "0 \<in> set (bm_implicit (bindingMetadataFor [demo_pointer_field]))" by simp
  have r: "restore_fields is [x] [x] = [x]" for "is" and x :: go_val
    by (induction "is") (auto simp: list_update_nonempty split: nat.split)
  from f show ?thesis
    by (simp add: bind_body_def h demo_bind_lib_def is_json_def bindJSONPreservingExplicitFields_def bindJSON_def Let_def
        limitBody_def) (simp add: demo_bind_request_def demo_bind_state_def demo_json_def json_error_def trailing_error_def r)
qed

section \<open>Witnesses\<close>

text \<open>A field of eight bits with a name in the path and in the query, in a request that has both.\<close>

definition demo_id_field :: struct_field where
  "demo_id_field = \<lparr>sf_exported = True, sf_tag = [''path'' \<mapsto> ''id'', ''query'' \<mapsto> ''id''], sf_type = IntT 8\<rparr>"

definition demo_id_request :: "string \<Rightarrow> bind_request" where
  "demo_id_request v = \<lparr>br_header = empty_header, br_query = [''id'' \<mapsto> [''5'']], br_path = (\<lambda>n. v), br_cookies = [],
     br_json = demo_json, br_trailing = JsonEOF (Sentinel IoEOF), br_form = (\<lambda>m. Inr (\<lambda>n. None))\<rparr>"

definition demo_id_state :: bind_state where
  "demo_id_state = \<lparr>bd_values = [IntV 0], bd_store = [], bd_bodyLimited = False, bd_readers = []\<rparr>"

lemma demo_parse: "ParseInt ''5'' 8 = Some 5" "ParseInt ''7'' 8 = Some 7" "ParseInt ''300'' 8 = None"
  by code_simp+

lemma demo_type: "sf_type demo_id_field = IntT 8"
  by (simp add: demo_id_field_def)

lemma demo_id_metadata: "bindingMetadataFor [demo_id_field] =
    \<lparr>bm_fields = (\<lambda>_. [])(''path'' := [(0, ''id'')], ''query'' := [(0, ''id'')]), bm_implicit = [0]\<rparr>"
  by (simp add: bindingMetadataFor_def bindingSources_def source_name_def tag_Get_def demo_id_field_def cut_def)

lemma demo_Bind: "Bind demo_bind_lib 100 False (demo_id_request ''7'') (PointerToStruct [demo_id_field]) None demo_id_state =
    (demo_id_state\<lparr>bd_values := [IntV 7]\<rparr>, None)"
  by (simp add: Bind_def bind_validated_def bind_body_def demo_id_request_def demo_id_state_def header_get_def empty_header_def
      bindPath_def bindQuery_def bindHeader_def bindCookie_def bindValues_def bindRequestValues_def demo_id_metadata setField_def
      demo_parse validateBinding_def demo_type Let_def)

theorem bind_precedence_witness:
  "field_value demo_bind_lib (IntT 8) [''7''] = IntV 7"
proof -
  have "source_raw (demo_id_request ''7'') demo_id_field ''path'' = Some [''7'']"
    by (simp add: source_raw_def bound_name_def source_name_def tag_Get_def demo_id_field_def cut_def look_up_def demo_id_request_def)
  with bind_precedence [OF demo_Bind, of 0]
  show ?thesis by (simp add: demo_id_state_def demo_id_field_def demo_id_request_def decodes_in_place_def demo_json_def
      split: list.split go_val.split option.split)
qed


theorem bind_typed_witness:
  "\<exists>E. bind_ok [demo_id_field] ([] @ E)
     (fst (Bind demo_bind_lib 100 False (demo_id_request ''300'') (PointerToStruct [demo_id_field]) None demo_id_state))"
proof (rule bind_typed)
  show "bind_ok [demo_id_field] [] demo_id_state"
    by (simp add: bind_ok_def store_ok_def demo_id_state_def demo_id_field_def)
  have vs: "list_all2 (has_type ST) [sf_type demo_id_field] vs \<Longrightarrow> \<exists>i. vs = [IntV i] \<and> -128 \<le> i \<and> i < 128" for ST vs
    by (cases "hd vs") (auto simp: list_all2_Cons1 demo_type)
  show "decodes_typed (demo_id_request ''300'') [demo_id_field]"
    unfolding decodes_typed_def
    by (auto simp: demo_id_request_def demo_json_def demo_type dest!: vs [unfolded demo_type] intro!: exI [of _ "[]"])
qed

theorem bind_error_status_witness:
  "bind_status (bindingFault ''invalid_path'' ''Path parameters contain invalid values''
     (BindErr (Some (BindingError ''path'' ''id'' (Some (parse_error ''ParseInt'' ''300''))))))"
proof -
  have "snd (Bind demo_bind_lib 100 False (demo_id_request ''300'') (PointerToStruct [demo_id_field]) None demo_id_state) =
    Some (bindingFault ''invalid_path'' ''Path parameters contain invalid values''
     (BindErr (Some (BindingError ''path'' ''id'' (Some (parse_error ''ParseInt'' ''300''))))))"
    by (simp add: Bind_def bind_validated_def bind_body_def demo_id_request_def demo_id_state_def header_get_def empty_header_def
      bindPath_def bindQuery_def bindHeader_def bindCookie_def bindValues_def bindRequestValues_def demo_id_metadata setField_def
      demo_parse validateBinding_def demo_type Let_def)
  moreover have "opaque_errors demo_bind_lib" by (simp add: opaque_errors_def demo_bind_lib_def)
  ultimately show ?thesis using bind_error_status unfolding bind_status_def by blast
qed

end
