(* ===== verification/Sqlkit.thy ===== *)
theory Sqlkit
  imports Errors "HOL-Library.Sublist"
begin

text \<open>
  Package \<open>sqlkit\<close>: transactions (\<open>InTx\<close>) and the migrator with its database lock (\<open>sqlkit.go\<close>,
  \<open>lock.go\<close>). What the database and the file system answer is a parameter; the contents of the
  database are a state, of which a transaction changes a copy.
\<close>

section \<open>Transactions\<close>

text \<open>
  The answers to \<open>BeginTx\<close>, \<open>Commit\<close> and \<open>Rollback\<close>. A commit that reports an error may have taken
  effect (\<open>te_kept\<close>). \<open>te_rolled\<close> gives what is left of the old contents and the copy when the
  transaction does not commit: the old contents, unless the engine commits some statements at once.
\<close>

record 'd tx_env =
  te_begin :: "goerr option"
  te_commit :: "goerr option"
  te_kept :: bool
  te_rollback :: "goerr option"
  te_rolled :: "'d \<Rightarrow> 'd \<Rightarrow> 'd"

definition inTx :: "'d tx_env \<Rightarrow> ('d \<Rightarrow> 'd \<times> goerr option outcome) \<Rightarrow> 'd \<Rightarrow> 'd \<times> goerr option outcome" where
  "inTx E fn d = (case te_begin E of
     Some err \<Rightarrow> (d, Return (Some (Wrapf ''sqlkit: begin transaction: '' err)))
   | None \<Rightarrow> (case fn d of
       (w, Panic msg) \<Rightarrow> (te_rolled E d w, Panic msg)
     | (w, Return (Some err)) \<Rightarrow> (te_rolled E d w, Return (case te_rollback E of
           None \<Rightarrow> Some err
         | Some rollbackErr \<Rightarrow>
             if \<not> errors_Is rollbackErr SqlTxDone
             then errors_Join [Some err, Some (Wrapf ''sqlkit: rollback transaction: '' rollbackErr)] else Some err))
     | (w, Return None) \<Rightarrow> (case te_commit E of
           None \<Rightarrow> (w, Return None)
         | Some commitErr \<Rightarrow> (if te_kept E then w else te_rolled E d w,
             Return (Some (Wrapf ''sqlkit: commit transaction: '' commitErr))))))"

text \<open>The arguments that may be nil are optional or tested.\<close>

definition InTx :: "bool \<Rightarrow> bool \<Rightarrow> 'd tx_env \<Rightarrow> ('d \<Rightarrow> 'd \<times> goerr option outcome) option \<Rightarrow> 'd \<Rightarrow> 'd \<times> goerr option outcome" where
  "InTx nilContext nilDatabase E fn d =
    (if nilContext then (d, Return (Some (Opaque ''sqlkit: nil context'')))
     else if nilDatabase then (d, Return (Some (Opaque ''sqlkit: nil database'')))
     else case fn of None \<Rightarrow> (d, Return (Some (Opaque ''sqlkit: nil transaction function'')))
       | Some fn \<Rightarrow> inTx E fn d)"

section \<open>The migrator\<close>

text \<open>
  The contents of a database: the rows of the table of migrations and the scripts that took effect.
\<close>

record database =
  db_rows :: "(string \<times> string) list"
  db_scripts :: "string list"

datatype dialect = PostgreSQL | MySQL | OtherDialect string

text \<open>An entry of the directory: its name and whether it is a directory. \<open>ReadDir\<close> sorts them.\<close>

type_synonym dir_entry = "string \<times> bool"

record migration_env =
  me_conn :: "goerr option"
  me_close :: "goerr option"
  me_getLock :: "(goerr option \<times> int option) list"
  me_advisory :: "goerr option"
  me_unlock :: "goerr option"
  me_create :: "goerr option"
  me_query :: "goerr option"
  me_scan :: "string \<times> string \<Rightarrow> goerr option"
  me_rowsErr :: "goerr option"
  me_rowsClose :: "goerr option"
  me_readDir :: "dir_entry list result"
  me_readFile :: "string \<Rightarrow> string result"
  me_sha256 :: "string \<Rightarrow> string"
  me_tx :: "string \<Rightarrow> database tx_env"
  me_exec :: "string \<Rightarrow> goerr option"
  me_insert :: "string \<Rightarrow> goerr option"

text \<open>\<open>NewMigrator\<close>; \<open>validPath\<close> is \<open>fs.ValidPath\<close>, \<open>sub\<close> the answer of \<open>fs.Sub\<close>. The result is the dialect.\<close>

definition NewMigrator ::
  "(string \<Rightarrow> bool) \<Rightarrow> (string \<Rightarrow> goerr option) \<Rightarrow> bool \<Rightarrow> bool \<Rightarrow> string \<Rightarrow> dialect list \<Rightarrow> dialect result" where
  "NewMigrator validPath sub nilDatabase nilSource directory dialects =
    (if nilDatabase then Inl (Opaque ''sqlkit: nil database'')
     else if nilSource then Inl (Opaque ''sqlkit: nil migration source'')
     else if length dialects > 1 then Inl (Opaque ''sqlkit: expected at most one dialect'')
     else
       let dialect = (case dialects of [] \<Rightarrow> PostgreSQL | d # _ \<Rightarrow> d);
           directory = (if directory = [] then ''.'' else directory)
       in case dialect of
            OtherDialect name \<Rightarrow> Inl (Opaque (''sqlkit: unsupported migration dialect '' @ name))
          | _ \<Rightarrow>
            if \<not> validPath directory then Inl (Opaque (''sqlkit: invalid migration directory '' @ directory))
            else case sub directory of
                Some err \<Rightarrow> Inl (Wrapf (''sqlkit: open migration directory '' @ directory @ '': '') err)
              | None \<Rightarrow> Inr dialect)"

definition validMigrationName :: "string \<Rightarrow> bool" where
  "validMigrationName name =
    (if name = ''.sql'' \<or> \<not> has_suffix name ''.sql'' then False
     else list_all (\<lambda>c. is_letter c \<or> is_digit c \<or> c = CHR ''.'' \<or> c = CHR ''_'' \<or> c = CHR ''-'') name)"

text \<open>The scan of the rows into a map, and the errors after it.\<close>

fun scan_rows :: "(string \<times> string \<Rightarrow> goerr option) \<Rightarrow> (string \<times> string) list \<Rightarrow> (string \<rightharpoonup> string) \<Rightarrow> (string \<rightharpoonup> string) result" where
  "scan_rows scan [] m = Inr m"
| "scan_rows scan ((v, c) # rows) m = (case scan (v, c) of
     Some err \<Rightarrow> Inl (Wrapf ''sqlkit: scan applied migration: '' err)
   | None \<Rightarrow> scan_rows scan rows (m(v \<mapsto> c)))"

definition migrator_applied :: "migration_env \<Rightarrow> database \<Rightarrow> (string \<rightharpoonup> string) result" where
  "migrator_applied E db = (case me_query E of
     Some err \<Rightarrow> Inl (Wrapf ''sqlkit: list applied migrations: '' err)
   | None \<Rightarrow> (case scan_rows (me_scan E) (db_rows db) (\<lambda>_. None) of
       Inl err \<Rightarrow> Inl err
     | Inr applied \<Rightarrow> (case me_rowsErr E of
         Some err \<Rightarrow> Inl (Wrapf ''sqlkit: read applied migrations: '' err)
       | None \<Rightarrow> (case me_rowsClose E of
           Some err \<Rightarrow> Inl (Wrapf ''sqlkit: close applied migrations: '' err)
         | None \<Rightarrow> Inr applied))))"

text \<open>
  The statement that records a migration is built from its name and checksum. It breaks the primary
  key when the version is there already.
\<close>

definition insert_query :: "string \<Rightarrow> string \<Rightarrow> string" where
  "insert_query name checksum = ''INSERT INTO vial_schema_migrations (version, checksum, applied_at) VALUES ('' @
     [CHR 0x27] @ name @ [CHR 0x27] @ '', '' @ [CHR 0x27] @ checksum @ [CHR 0x27] @ '', CURRENT_TIMESTAMP)''"

definition migration_tx :: "migration_env \<Rightarrow> string \<Rightarrow> string \<Rightarrow> string \<Rightarrow> database \<Rightarrow> database \<times> goerr option outcome" where
  "migration_tx E name contents checksum d = (case me_exec E contents of
     Some err \<Rightarrow> (d, Return (Some (Wrapf (''apply migration '' @ name @ '': '') err)))
   | None \<Rightarrow>
       let d = d\<lparr>db_scripts := db_scripts d @ [contents]\<rparr>
       in if name \<in> fst ` set (db_rows d) then
            (d, Return (Some (Wrapf (''record migration '' @ name @ '': '') (Opaque ''duplicate key''))))
          else (case me_insert E (insert_query name checksum) of
              Some err \<Rightarrow> (d, Return (Some (Wrapf (''record migration '' @ name @ '': '') err)))
            | None \<Rightarrow> (d\<lparr>db_rows := db_rows d @ [(name, checksum)]\<rparr>, Return None)))"

text \<open>The body of the loop over the entries.\<close>

definition migrate_entry :: "migration_env \<Rightarrow> (string \<rightharpoonup> string) \<Rightarrow> dir_entry \<Rightarrow> database \<Rightarrow> database \<times> goerr option" where
  "migrate_entry E applied entry d = (case entry of (name, isDir) \<Rightarrow>
     if isDir \<or> \<not> has_suffix name ''.sql'' then (d, None)
     else if \<not> validMigrationName name then (d, Some (Opaque (''sqlkit: invalid migration filename '' @ name)))
     else case me_readFile E name of
       Inl err \<Rightarrow> (d, Some (Wrapf (''sqlkit: read migration '' @ name @ '': '') err))
     | Inr contents \<Rightarrow>
         if trim_space contents = [] then (d, Some (Opaque (''sqlkit: migration '' @ name @ '' is empty'')))
         else
           let checksum = me_sha256 E contents
           in case applied name of
                Some previous \<Rightarrow>
                  if previous \<noteq> checksum then (d, Some (Opaque (''sqlkit: migration '' @ name @ '' changed after it was applied'')))
                  else (d, None)
              | None \<Rightarrow> (case inTx (me_tx E name) (migration_tx E name contents checksum) d of
                    (d, Return err) \<Rightarrow> (d, err)
                  | (d, Panic msg) \<Rightarrow> (d, None)))"

fun migrate_entries :: "migration_env \<Rightarrow> (string \<rightharpoonup> string) \<Rightarrow> dir_entry list \<Rightarrow> database \<Rightarrow> database \<times> goerr option" where
  "migrate_entries E applied [] d = (d, None)"
| "migrate_entries E applied (entry # entries) d = (case migrate_entry E applied entry d of
     (d, Some err) \<Rightarrow> (d, Some err)
   | (d, None) \<Rightarrow> migrate_entries E applied entries d)"

definition migrate :: "migration_env \<Rightarrow> database \<Rightarrow> database \<times> goerr option" where
  "migrate E d = (case me_create E of
     Some err \<Rightarrow> (d, Some (Wrapf ''sqlkit: create migrations table: '' err))
   | None \<Rightarrow> (case migrator_applied E d of
       Inl err \<Rightarrow> (d, Some err)
     | Inr applied \<Rightarrow> (case me_readDir E of
         Inl err \<Rightarrow> (d, Some (Wrapf ''sqlkit: read migrations: '' err))
       | Inr entries \<Rightarrow> migrate_entries E applied entries d)))"

section \<open>The lock\<close>

text \<open>
  The loop around \<open>GET_LOCK\<close>: each answer is the error of the scan and the value, NULL for \<open>None\<close>. The
  result is \<open>None\<close> while no answer ends the loop.
\<close>

fun mysql_lock :: "(goerr option \<times> int option) list \<Rightarrow> goerr option option" where
  "mysql_lock [] = None"
| "mysql_lock ((err, acquired) # rest) =
    (if err \<noteq> None \<or> acquired = None then
       Some (Some (Wrapf ''sqlkit: acquire migration lock: ''
         (case err of None \<Rightarrow> Opaque ''GET_LOCK returned NULL'' | Some err \<Rightarrow> err)))
     else if acquired = Some 1 then Some None
     else mysql_lock rest)"

definition migrator_lock :: "migration_env \<Rightarrow> dialect \<Rightarrow> goerr option option" where
  "migrator_lock E dialect =
    (if dialect = MySQL then mysql_lock (me_getLock E)
     else Some (map_option (Wrapf ''sqlkit: acquire PostgreSQL migration lock: '') (me_advisory E)))"

definition migrator_unlock :: "migration_env \<Rightarrow> goerr option" where
  "migrator_unlock E = map_option (Wrapf ''sqlkit: release migration lock: '') (me_unlock E)"

definition close_connection :: "migration_env \<Rightarrow> goerr option \<Rightarrow> goerr option" where
  "close_connection E err = (case me_close E of None \<Rightarrow> err
   | Some closeErr \<Rightarrow>
       if \<not> errors_Is closeErr SqlConnDone
       then errors_Join [err, Some (Wrapf ''sqlkit: close migration connection: '' closeErr)] else err)"

text \<open>\<open>Migrate\<close>; \<open>None\<close> when the lock is never got.\<close>

definition Migrate :: "migration_env \<Rightarrow> bool \<Rightarrow> dialect option \<Rightarrow> database \<Rightarrow> (database \<times> goerr option) option" where
  "Migrate E nilContext migrator d =
    (if nilContext then Some (d, Some (Opaque ''sqlkit: nil context''))
     else case migrator of None \<Rightarrow> Some (d, Some (Opaque ''sqlkit: nil migrator''))
       | Some dialect \<Rightarrow> (case me_conn E of
           Some err \<Rightarrow> Some (d, Some (Wrapf ''sqlkit: acquire migration connection: '' err))
         | None \<Rightarrow> (case migrator_lock E dialect of
             None \<Rightarrow> None
           | Some (Some err) \<Rightarrow> Some (d, close_connection E (Some err))
           | Some None \<Rightarrow> (case migrate E d of
               (d, err) \<Rightarrow> Some (d, close_connection E (errors_Join [err, migrator_unlock E]))))))"

section \<open>Several runs\<close>

text \<open>
  Processes that run the migrator on one database. A session that holds the lock loses it when it
  ends, also when its connection breaks, which can be at any time between two transactions.
\<close>

datatype run_phase = WaitingForLock | HoldingLock | Applying "string \<rightharpoonup> string" "dir_entry list" | RunEnded

record run_system =
  rs_db :: database
  rs_holder :: "nat option"
  rs_phase :: "nat \<Rightarrow> run_phase"

definition end_run :: "nat \<Rightarrow> run_system \<Rightarrow> run_system" where
  "end_run i s = s\<lparr>rs_holder := None, rs_phase := (rs_phase s)(i := RunEnded)\<rparr>"

inductive run_step :: "(nat \<Rightarrow> migration_env) \<Rightarrow> run_system \<Rightarrow> run_system \<Rightarrow> bool" for E where
  acquire: "rs_holder s = None \<Longrightarrow> rs_phase s i = WaitingForLock \<Longrightarrow>
    run_step E s (s\<lparr>rs_holder := Some i, rs_phase := (rs_phase s)(i := HoldingLock)\<rparr>)"
| read: "rs_phase s i = HoldingLock \<Longrightarrow> migrator_applied (E i) (rs_db s) = Inr applied \<Longrightarrow> me_readDir (E i) = Inr entries \<Longrightarrow>
    run_step E s (s\<lparr>rs_phase := (rs_phase s)(i := Applying applied entries)\<rparr>)"
| entry: "rs_phase s i = Applying applied (e # es) \<Longrightarrow> migrate_entry (E i) applied e (rs_db s) = (d, None) \<Longrightarrow>
    run_step E s (s\<lparr>rs_db := d, rs_phase := (rs_phase s)(i := Applying applied es)\<rparr>)"
| entry_error: "rs_phase s i = Applying applied (e # es) \<Longrightarrow> migrate_entry (E i) applied e (rs_db s) = (d, Some err) \<Longrightarrow>
    run_step E s (end_run i (s\<lparr>rs_db := d\<rparr>))"
| ended: "rs_phase s i = HoldingLock \<or> rs_phase s i = Applying applied entries \<Longrightarrow> run_step E s (end_run i s)"

inductive run_reachable :: "(nat \<Rightarrow> migration_env) \<Rightarrow> database \<Rightarrow> run_system \<Rightarrow> bool" for E d where
  start: "run_reachable E d \<lparr>rs_db = d, rs_holder = None, rs_phase = (\<lambda>_. WaitingForLock)\<rparr>"
| step: "run_reachable E d s \<Longrightarrow> run_step E s t \<Longrightarrow> run_reachable E d t"

section \<open>One migration\<close>

definition transactional :: "'d tx_env \<Rightarrow> bool" where
  "transactional T \<longleftrightarrow> (\<forall>d w. te_rolled T d w = d)"

definition versions :: "database \<Rightarrow> string set" where
  "versions d = fst ` set (db_rows d)"

text \<open>The database after the migrations \<open>new\<close>, given by name and contents.\<close>

definition extended :: "migration_env \<Rightarrow> (string \<times> string) list \<Rightarrow> database \<Rightarrow> database" where
  "extended E new d = d\<lparr>db_rows := db_rows d @ map (\<lambda>(n, c). (n, me_sha256 E c)) new, db_scripts := db_scripts d @ map snd new\<rparr>"

definition migration_file :: "dir_entry \<Rightarrow> bool" where
  "migration_file e \<longleftrightarrow> \<not> snd e \<and> has_suffix (fst e) ''.sql''"

definition pending_names :: "database \<Rightarrow> dir_entry list \<Rightarrow> string list" where
  "pending_names d es = map fst (filter (\<lambda>e. migration_file e \<and> fst e \<notin> versions d) es)"

lemma extended_Nil [simp]: "extended E [] d = d"
  by (simp add: extended_def)

lemma extended_Cons: "extended E (x # xs) d = extended E xs (extended E [x] d)"
  by (simp add: extended_def)

lemma extended_one [simp]: "extended E [x] d \<noteq> d" "d \<noteq> extended E [x] d"
proof -
  have "length (db_rows (extended E [x] d)) \<noteq> length (db_rows d)" by (simp add: extended_def)
  then show "extended E [x] d \<noteq> d" "d \<noteq> extended E [x] d" by metis+
qed

lemma versions_extended [simp]: "versions (extended E new d) = versions d \<union> fst ` set new"
  by (force simp: versions_def extended_def)

lemma inTx_result:
  assumes "inTx T fn d = (d', r)"
  shows "(\<exists>w. fn d = (w, Return None) \<and> te_begin T = None \<and> d' = w \<and> (te_commit T = None \<and> r = Return None \<or> te_kept T \<and> r \<noteq> Return None)) \<or>
    (\<exists>w. d' = te_rolled T d w \<or> d' = d) \<and> r \<noteq> Return None"
  using assms by (auto simp: inTx_def errors_Join_def split: option.splits prod.splits outcome.splits if_splits)

lemma migration_tx_None:
  "migration_tx E n c k d = (w, Return None) \<longleftrightarrow> me_exec E c = None \<and> n \<notin> versions d \<and> me_insert E (insert_query n k) = None \<and>
     w = d\<lparr>db_scripts := db_scripts d @ [c], db_rows := db_rows d @ [(n, k)]\<rparr>"
  by (auto simp: migration_tx_def Let_def versions_def split: option.split)

lemma migrate_entry_result:
  assumes "transactional (me_tx E (fst e))" "migrate_entry E applied e d = (d', err)"
  shows "(d' = d \<or> (\<exists>c. me_readFile E (fst e) = Inr c \<and> migration_file e \<and> validMigrationName (fst e) \<and> applied (fst e) = None \<and>
      fst e \<notin> versions d \<and> d' = extended E [(fst e, c)] d)) \<and>
    (err = None \<and> migration_file e \<longrightarrow> (\<exists>c. me_readFile E (fst e) = Inr c \<and>
       (applied (fst e) = Some (me_sha256 E c) \<and> d' = d \<or> applied (fst e) = None \<and> fst e \<notin> versions d \<and> d' = extended E [(fst e, c)] d))) \<and>
    (\<not> migration_file e \<longrightarrow> d' = d)"
proof -
  obtain n dir where e: "e = (n, dir)" by fastforce
  show ?thesis
  proof (cases "migration_file e \<and> validMigrationName n \<and> applied n = None")
    case True
    show ?thesis
    proof (cases "me_readFile E n")
      case (Inr c)
      obtain d1 r where 1: "inTx (me_tx E n) (migration_tx E n c (me_sha256 E c)) d = (d1, r)" by fastforce
      have w: "extended E [(n, c)] d = d\<lparr>db_scripts := db_scripts d @ [c], db_rows := db_rows d @ [(n, me_sha256 E c)]\<rparr>"
        by (simp add: extended_def)
      have np: "r \<noteq> Panic msg" for msg
        using 1 by (auto simp: inTx_def migration_tx_def Let_def split: option.splits if_splits)
      from inTx_result [OF 1] assms(1) have
        "d1 = d \<and> r \<noteq> Return None \<or> n \<notin> versions d \<and> d1 = extended E [(n, c)] d"
        unfolding w by (auto simp: migration_tx_None transactional_def e)
      with assms(2) True Inr 1 np e show ?thesis
        by (cases r) (auto simp: migrate_entry_def migration_file_def Let_def split: if_splits)
    next
      case (Inl err)
      with assms(2) True e show ?thesis by (auto simp: migrate_entry_def migration_file_def)
    qed
  next
    case False
    with assms(2) e show ?thesis
      by (auto simp: migrate_entry_def migration_file_def Let_def split: if_splits sum.splits option.splits)
  qed
qed

section \<open>All migrations\<close>

text \<open>What the map of applied migrations says is in the table.\<close>

definition applied_ok :: "(string \<rightharpoonup> string) \<Rightarrow> dir_entry list \<Rightarrow> database \<Rightarrow> bool" where
  "applied_ok applied es d \<longleftrightarrow> (\<forall>e \<in> set es. case applied (fst e) of
     None \<Rightarrow> fst e \<notin> versions d | Some k \<Rightarrow> (fst e, k) \<in> set (db_rows d))"

lemma scan_rows_spec:
  "scan_rows scan rows m = Inr m' \<Longrightarrow> (m' v = None \<longleftrightarrow> m v = None \<and> v \<notin> fst ` set rows) \<and>
     (m' v = Some k \<longrightarrow> (v, k) \<in> set rows \<or> m v = Some k)"
proof (induction rows arbitrary: m)
  case (Cons r rows)
  obtain v1 c where r: "r = (v1, c)" by fastforce
  with Cons.prems have "scan_rows scan rows (m(v1 \<mapsto> c)) = Inr m'" by (auto split: option.splits)
  from Cons.IH [OF this] r show ?case by (auto split: if_splits)
qed simp

lemma applied_ok_start: "migrator_applied E d = Inr applied \<Longrightarrow> applied_ok applied es d"
  using scan_rows_spec [of "me_scan E" "db_rows d" "\<lambda>_. None" applied]
  by (auto simp: migrator_applied_def applied_ok_def versions_def split: option.splits sum.splits)

lemma applied_ok_extended:
  "applied_ok applied es d \<Longrightarrow> \<forall>x \<in> set new. fst x \<notin> fst ` set es \<Longrightarrow> applied_ok applied es (extended E new d)"
  by (force simp: applied_ok_def versions_def extended_def split: option.splits)

lemma applied_ok_tl: "applied_ok applied (e # es) d \<Longrightarrow> applied_ok applied es d"
  by (simp add: applied_ok_def)

lemma pending_cong: "\<forall>e \<in> set es. fst e \<in> versions d \<longleftrightarrow> fst e \<in> versions d' \<Longrightarrow> pending_names d es = pending_names d' es"
  unfolding pending_names_def by (auto intro!: arg_cong [where f = "map fst"] filter_cong)

definition recorded :: "migration_env \<Rightarrow> dir_entry list \<Rightarrow> database \<Rightarrow> bool" where
  "recorded E es d \<longleftrightarrow> (\<forall>e \<in> set es. migration_file e \<longrightarrow>
     (\<exists>c. me_readFile E (fst e) = Inr c \<and> (fst e, me_sha256 E c) \<in> set (db_rows d)))"

definition new_files_ok :: "migration_env \<Rightarrow> (string \<times> string) list \<Rightarrow> bool" where
  "new_files_ok E new \<longleftrightarrow> (\<forall>(n, c) \<in> set new. me_readFile E n = Inr c \<and> validMigrationName n)"

lemma migrate_entries_result:
  assumes "\<forall>n. transactional (me_tx E n)" "distinct (map fst es)" "applied_ok applied es d"
    "migrate_entries E applied es d = (d', err)"
  shows "\<exists>new. d' = extended E new d \<and> prefix (map fst new) (pending_names d es) \<and> new_files_ok E new \<and>
    (err = None \<longrightarrow> map fst new = pending_names d es \<and> recorded E es d')"
  using assms(2-4)
proof (induction es arbitrary: d)
  case Nil
  then show ?case by (auto intro!: exI [of _ "[]"] simp: pending_names_def recorded_def new_files_ok_def)
next
  case (Cons e es)
  obtain d1 e1 where 1: "migrate_entry E applied e d = (d1, e1)" by fastforce
  have tx: "transactional (me_tx E (fst e))" using assms(1) by blast
  note r = migrate_entry_result [OF tx 1]
  have ap: "case applied (fst e) of None \<Rightarrow> fst e \<notin> versions d | Some k \<Rightarrow> (fst e, k) \<in> set (db_rows d)"
    using Cons.prems(2) by (simp add: applied_ok_def)
  show ?case
  proof (cases "\<exists>c. d1 = extended E [(fst e, c)] d \<and> d1 \<noteq> d")
    case True
    then obtain c where d1: "d1 = extended E [(fst e, c)] d" "d1 \<noteq> d" by blast
    with r obtain c' where c': "me_readFile E (fst e) = Inr c'" "migration_file e" "validMigrationName (fst e)"
      "fst e \<notin> versions d" "d1 = extended E [(fst e, c')] d" by blast
    have "fst e \<notin> fst ` set es" using Cons.prems(1) by simp
    then have p: "pending_names d (e # es) = fst e # pending_names d1 es"
    proof -
      have "fst x \<noteq> fst e" if "x \<in> set es" for x using that \<open>fst e \<notin> fst ` set es\<close> by (metis imageI)
      then have "pending_names d es = pending_names d1 es" by (intro pending_cong) (simp add: c'(5))
      with c'(2,4) show ?thesis by (simp add: pending_names_def)
    qed
    have one: "new_files_ok E [(fst e, c')]" using c' by (simp add: new_files_ok_def)
    show ?thesis
    proof (cases e1)
      case None
      have "applied_ok applied es d1"
        unfolding c'(5) by (rule applied_ok_extended [OF applied_ok_tl [OF Cons.prems(2)]])
          (use \<open>fst e \<notin> fst ` set es\<close> in simp)
      moreover have "migrate_entries E applied es d1 = (d', err)" using Cons.prems(3) 1 None by simp
      ultimately obtain new where n: "d' = extended E new d1" "prefix (map fst new) (pending_names d1 es)" "new_files_ok E new"
        "err = None \<longrightarrow> map fst new = pending_names d1 es \<and> recorded E es d'"
        using Cons.IH [of d1] Cons.prems(1) by auto
      have "(fst e, me_sha256 E c') \<in> set (db_rows d')" by (simp add: n(1) c'(5) extended_def)
      then have "recorded E es d' \<Longrightarrow> recorded E (e # es) d'" using c'(1) by (simp add: recorded_def)
      moreover have "d' = extended E ((fst e, c') # new) d" by (simp only: n(1) c'(5) extended_Cons [of E "(fst e, c')" new d])
      moreover have "new_files_ok E ((fst e, c') # new)" using n(3) one by (simp add: new_files_ok_def)
      moreover have "prefix (map fst ((fst e, c') # new)) (pending_names d (e # es))" using n(2) p by simp
      moreover have "err = None \<longrightarrow> map fst ((fst e, c') # new) = pending_names d (e # es) \<and> recorded E es d'"
        using n(4) p by simp
      ultimately show ?thesis by blast
    next
      case (Some x)
      with Cons.prems(3) 1 have "d' = d1" "err = Some x" by auto
      with c' p one show ?thesis by (intro exI [of _ "[(fst e, c')]"]) simp
    qed
  next
    case False
    with r have d1: "d1 = d" by blast
    show ?thesis
    proof (cases e1)
      case None
      have rest: "migrate_entries E applied es d = (d', err)" using Cons.prems(3) 1 None d1 by simp
      have skip: "migration_file e \<Longrightarrow> fst e \<in> versions d \<and> (\<exists>c. me_readFile E (fst e) = Inr c \<and> (fst e, me_sha256 E c) \<in> set (db_rows d))"
      proof -
        assume "migration_file e"
        with r None d1 obtain c where c: "me_readFile E (fst e) = Inr c" "applied (fst e) = Some (me_sha256 E c)" by auto
        with ap have "(fst e, me_sha256 E c) \<in> set (db_rows d)" by simp
        moreover from this have "fst e \<in> versions d" unfolding versions_def by (metis fst_conv imageI)
        ultimately show ?thesis using c(1) by blast
      qed
      then have p: "pending_names d (e # es) = pending_names d es" by (auto simp: pending_names_def)
      from Cons.IH [OF _ applied_ok_tl [OF Cons.prems(2)] rest] Cons.prems(1) obtain new where n: "d' = extended E new d"
        "prefix (map fst new) (pending_names d es)" "new_files_ok E new"
        "err = None \<longrightarrow> map fst new = pending_names d es \<and> recorded E es d'" by auto
      have "set (db_rows d) \<subseteq> set (db_rows d')" by (auto simp: n(1) extended_def)
      with skip have "recorded E es d' \<Longrightarrow> recorded E (e # es) d'" by (auto simp: recorded_def)
      with n p show ?thesis by (intro exI [of _ new]) simp
    next
      case (Some x)
      with Cons.prems(3) 1 d1 have "d' = d" "err = Some x" by auto
      then show ?thesis by (intro exI [of _ "[]"]) (simp add: new_files_ok_def)
    qed
  qed
qed

section \<open>Interleaved runs\<close>

abbreviation in_lock :: "run_phase \<Rightarrow> bool" where "in_lock p \<equiv> p \<noteq> WaitingForLock \<and> p \<noteq> RunEnded"

text \<open>The rows and the scripts that were added belong together.\<close>

definition grown :: "(nat \<Rightarrow> migration_env) \<Rightarrow> database \<Rightarrow> database \<Rightarrow> bool" where
  "grown E d0 d \<longleftrightarrow> (\<exists>R S. db_rows d = db_rows d0 @ R \<and> db_scripts d = db_scripts d0 @ S \<and>
     list_all2 (\<lambda>r c. \<exists>i. me_readFile (E i) (fst r) = Inr c \<and> snd r = me_sha256 (E i) c) R S)"

definition run_inv :: "(nat \<Rightarrow> migration_env) \<Rightarrow> database \<Rightarrow> run_system \<Rightarrow> bool" where
  "run_inv E d0 s \<longleftrightarrow> (\<forall>i. in_lock (rs_phase s i) \<longleftrightarrow> rs_holder s = Some i) \<and>
     (\<forall>i applied es. rs_phase s i = Applying applied es \<longrightarrow> distinct (map fst es) \<and> applied_ok applied es (rs_db s)) \<and>
     distinct (map fst (db_rows (rs_db s))) \<and> grown E d0 (rs_db s)"

lemma grown_refl [simp]: "grown E d d"
  by (auto simp: grown_def intro!: exI [of _ "[]"])

lemma grown_extended:
  assumes "grown E d0 d" "me_readFile (E i) n = Inr c"
  shows "grown E d0 (extended (E i) [(n, c)] d)"
proof -
  obtain R S where "db_rows d = db_rows d0 @ R" "db_scripts d = db_scripts d0 @ S"
    "list_all2 (\<lambda>r c. \<exists>i. me_readFile (E i) (fst r) = Inr c \<and> snd r = me_sha256 (E i) c) R S"
    using assms(1) by (auto simp: grown_def)
  with assms(2) show ?thesis unfolding grown_def
    by (intro exI [of _ "R @ [(n, me_sha256 (E i) c)]"] exI [of _ "S @ [c]"])
      (auto simp: extended_def intro!: list_all2_appendI)
qed

lemma run_inv_end: "run_inv E d0 s \<Longrightarrow> in_lock (rs_phase s i) \<Longrightarrow> run_inv E d0 (end_run i s)"
  unfolding run_inv_def end_run_def by (auto split: if_splits)

text \<open>The database after an entry, while the process holds the lock.\<close>

lemma run_inv_entry:
  assumes "run_inv E d0 s" "rs_phase s i = Applying applied (e # es)" "\<forall>n. transactional (me_tx (E i) n)"
    "migrate_entry (E i) applied e (rs_db s) = (d, err)"
  shows "run_inv E d0 (s\<lparr>rs_db := d, rs_phase := (rs_phase s)(i := Applying applied es)\<rparr>)"
proof -
  have tx: "transactional (me_tx (E i) (fst e))" using assms(3) by blast
  have ap: "applied_ok applied (e # es) (rs_db s)" "distinct (map fst (e # es))"
    using assms(1,2) unfolding run_inv_def by blast+
  have others: "rs_phase s j \<noteq> Applying a l" if "j \<noteq> i" for j a l
    using assms(1,2) that unfolding run_inv_def by (metis option.inject run_phase.distinct(3,5,7,9,11))
  have "distinct (map fst (db_rows d)) \<and> grown E d0 d \<and> applied_ok applied es d"
  proof (cases "d = rs_db s")
    case True
    with assms(1) ap applied_ok_tl show ?thesis by (auto simp: run_inv_def)
  next
    case False
    with migrate_entry_result [OF tx assms(4)] obtain c where
      c: "me_readFile (E i) (fst e) = Inr c" "fst e \<notin> versions (rs_db s)" "d = extended (E i) [(fst e, c)] (rs_db s)" by blast
    have "distinct (map fst (db_rows d))" using assms(1) c(2) by (auto simp: run_inv_def c(3) extended_def versions_def)
    moreover have "grown E d0 d" unfolding c(3) using assms(1) c(1) by (intro grown_extended) (simp_all add: run_inv_def)
    moreover have "applied_ok applied es d"
      unfolding c(3) by (rule applied_ok_extended [OF applied_ok_tl [OF ap(1)]]) (use ap(2) in simp)
    ultimately show ?thesis by blast
  qed
  then show ?thesis using assms(1,2) ap(2) others unfolding run_inv_def by (auto split: if_splits)
qed

lemma run_step_inv:
  assumes "run_step E s t" "run_inv E d0 s" "\<forall>i n. transactional (me_tx (E i) n)"
    "\<forall>i es. me_readDir (E i) = Inr es \<longrightarrow> distinct (map fst es)"
  shows "run_inv E d0 t"
  using assms(1)
proof cases
  case (acquire i)
  with assms(2) show ?thesis unfolding run_inv_def by (auto split: if_splits)
next
  case (read i applied entries)
  moreover have "applied_ok applied entries (rs_db s)" by (rule applied_ok_start [OF read(3)])
  ultimately show ?thesis using assms(2,4) unfolding run_inv_def by (auto split: if_splits)
next
  case (entry i applied e es d)
  with run_inv_entry [OF assms(2)] assms(3) show ?thesis by simp
next
  case (entry_error i applied e es d err)
  let ?u = "s\<lparr>rs_db := d, rs_phase := (rs_phase s)(i := Applying applied es)\<rparr>"
  have "run_inv E d0 ?u" by (rule run_inv_entry [OF assms(2) entry_error(2) _ entry_error(3)]) (use assms(3) in blast)
  then have "run_inv E d0 (end_run i ?u)" by (rule run_inv_end) simp
  moreover have "end_run i ?u = end_run i (s\<lparr>rs_db := d\<rparr>)" by (simp add: end_run_def)
  ultimately show ?thesis using entry_error(1) by simp
next
  case (ended i applied entries)
  with run_inv_end [OF assms(2), of i] show ?thesis by auto
qed

lemma run_reachable_inv:
  assumes "run_reachable E d0 s" "\<forall>i n. transactional (me_tx (E i) n)"
    "\<forall>i es. me_readDir (E i) = Inr es \<longrightarrow> distinct (map fst es)" "distinct (map fst (db_rows d0))"
  shows "run_inv E d0 s"
  using assms(1)
proof induction
  case start
  then show ?case using assms(4) by (simp add: run_inv_def)
next
  case (step s t)
  then show ?case using run_step_inv assms(2,3) by blast
qed

section \<open>Properties\<close>


text \<open>A run of the migrator appends to the table, in the order of the file names, a prefix of the migrations that were not applied, and
  executes exactly their scripts, each once. Nothing applied before is run again, and a failure leaves the migrations before it.
  When it returns nil every migration file is recorded with the checksum of its contents.\<close>

theorem migrate_applies:
  assumes "\<forall>n. transactional (me_tx E n)" and "me_readDir E = Inr es" "distinct (map fst es)"
    and "Migrate E nilContext migrator d = Some (d', err)" and "distinct (map fst (db_rows d))"
  shows "\<exists>new. d' = extended E new d \<and> prefix (map fst new) (pending_names d es) \<and> new_files_ok E new \<and>
    distinct (map fst (db_rows d')) \<and>
    (err = None \<longrightarrow> map fst new = pending_names d es \<and> recorded E es d')"
proof -
  obtain d1 e1 where 1: "migrate E d = (d1, e1)" by fastforce
  have "\<exists>new. d1 = extended E new d \<and> prefix (map fst new) (pending_names d es) \<and> new_files_ok E new \<and>
      (e1 = None \<longrightarrow> map fst new = pending_names d es \<and> recorded E es d1)"
  proof (cases "migrator_applied E d")
    case (Inr applied)
    with 1 assms(2) show ?thesis
      using migrate_entries_result [OF assms(1,3) applied_ok_start [OF Inr]]
      by (cases "me_create E") (auto simp: migrate_def new_files_ok_def intro: exI [of _ "[]"])
  next
    case (Inl e)
    with 1 show ?thesis by (cases "me_create E") (auto simp: migrate_def new_files_ok_def intro!: exI [of _ "[]"])
  qed
  then obtain new where n: "d1 = extended E new d" "prefix (map fst new) (pending_names d es)" "new_files_ok E new"
    "e1 = None \<longrightarrow> map fst new = pending_names d es \<and> recorded E es d1" by blast
  have m: "d' = d \<and> err \<noteq> None \<or> d' = d1 \<and> (err = None \<longrightarrow> e1 = None)"
    using assms(4) 1 by (auto simp: Migrate_def close_connection_def errors_Join_def split: if_splits option.splits)
  have "distinct (pending_names d es)" "set (pending_names d es) \<inter> versions d = {}"
    using assms(3) by (auto simp: pending_names_def distinct_map_filter)
  then have "distinct (map fst new)" "fst ` set new \<inter> versions d = {}"
    using n(2) set_mono_prefix [OF n(2)] by (auto simp: prefix_def)
  then have "distinct (map fst (db_rows d1))"
    using assms(5) by (auto simp: n(1) extended_def versions_def split_beta comp_def)
  with m n assms(5) show ?thesis
    by (elim disjE) (auto simp: new_files_ok_def intro: exI [of _ "[]"])
qed


text \<open>The statement that records a migration is one statement with its two values: the name of a valid migration has no quote,
  backslash or semicolon.\<close>

lemma validMigrationName_chars:
  "validMigrationName n \<Longrightarrow> c \<in> set n \<Longrightarrow> c \<noteq> CHR 0x27 \<and> c \<noteq> CHR 0x5C \<and> c \<noteq> CHR '';'' \<and> c \<noteq> CHR ''/''"
  by (auto simp: validMigrationName_def list_all_iff is_letter_def is_digit_def split: if_splits)

section \<open>Witnesses\<close>

definition demo_tx :: "'d tx_env" where
  "demo_tx = \<lparr>te_begin = None, te_commit = None, te_kept = False, te_rollback = None, te_rolled = (\<lambda>d w. d)\<rparr>"

definition demo_migrations :: migration_env where
  "demo_migrations = \<lparr>me_conn = None, me_close = None, me_getLock = [(None, Some 0), (None, Some 1)], me_advisory = None, me_unlock = None,
     me_create = None, me_query = None, me_scan = (\<lambda>_. None), me_rowsErr = None, me_rowsClose = None,
     me_readDir = Inr [(''1.sql'', False), (''2.sql'', False)], me_readFile = (\<lambda>n. Inr n), me_sha256 = (\<lambda>c. c),
     me_tx = (\<lambda>_. demo_tx), me_exec = (\<lambda>_. None), me_insert = (\<lambda>_. None)\<rparr>"

definition demo_database :: database where
  "demo_database = \<lparr>db_rows = [(''1.sql'', ''1.sql'')], db_scripts = [''1.sql'']\<rparr>"

lemma demo_transactional [simp]: "transactional demo_tx" "me_tx demo_migrations n = demo_tx"
  by (simp_all add: transactional_def demo_tx_def demo_migrations_def)

lemma demo_files: "validMigrationName ''1.sql''" "validMigrationName ''2.sql''" "has_suffix ''1.sql'' ''.sql''" "has_suffix ''2.sql'' ''.sql''"
  "trim_space ''1.sql'' = ''1.sql''" "trim_space ''2.sql'' = ''2.sql''"
  by code_simp+

lemma demo_Migrate: "Migrate demo_migrations False (Some MySQL) demo_database =
    Some (\<lparr>db_rows = [(''1.sql'', ''1.sql''), (''2.sql'', ''2.sql'')], db_scripts = [''1.sql'', ''2.sql'']\<rparr>, None)"
  by (simp add: Migrate_def migrator_lock_def migrator_unlock_def close_connection_def migrate_def migrator_applied_def demo_migrations_def
      demo_database_def migrate_entry_def demo_files inTx_def demo_tx_def migration_tx_def Let_def errors_Join_def)


theorem migrate_applies_witness:
  "recorded demo_migrations [(''1.sql'', False), (''2.sql'', False)]
     \<lparr>db_rows = [(''1.sql'', ''1.sql''), (''2.sql'', ''2.sql'')], db_scripts = [''1.sql'', ''2.sql'']\<rparr>"
  using migrate_applies [OF _ _ _ demo_Migrate, of "[(''1.sql'', False), (''2.sql'', False)]"]
  by (auto simp: demo_database_def) (auto simp: demo_migrations_def)


end
