(* ===== verification/HttpMetrics.thy ===== *)
theory HttpMetrics
  imports Context "HOL-Library.Word" "HOL-Library.Char_ord" "HOL-Library.List_Lexorder" "HOL-Library.Multiset" "HOL-Library.Product_Lexorder"
begin

text \<open>
  HTTP metrics, \<open>middleware/http_metrics.go\<close>: the series kept per method, route and status, the gauge
  of active requests and the exposition text. Durations are what \<open>Duration.Seconds\<close> gave, with the
  addition of the floating-point unit as a parameter.
\<close>

section \<open>State\<close>

record httpMetricKey =
  mk_method :: string
  mk_route :: string
  mk_status :: int

record httpMetricSeries =
  se_requests :: "64 word"
  se_duration :: rat
  se_bucketHits :: "64 word list"

text \<open>The map \<open>series\<close> with its entries in some order, nil for the empty list.\<close>

record httpMetrics =
  hm_series :: "(httpMetricKey \<times> httpMetricSeries) list"
  hm_active :: "64 word"

definition httpDurationBuckets :: "rat list" where
  "httpDurationBuckets = [1/200, 1/100, 1/40, 1/20, 1/10, 1/4, 1/2, 1, 5/2, 5, 10]"

definition zero_series :: httpMetricSeries where
  "zero_series = \<lparr>se_requests = 0, se_duration = 0, se_bucketHits = replicate (length httpDurationBuckets) 0\<rparr>"

section \<open>Observation\<close>

definition metricMethod :: "string \<Rightarrow> string" where
  "metricMethod m = (let method = to_upper m
     in if method \<in> {''CONNECT'', ''DELETE'', ''GET'', ''HEAD'', ''OPTIONS'', ''PATCH'', ''POST'', ''PUT'', ''TRACE''}
        then method else ''OTHER'')"

definition metric_key :: "string \<Rightarrow> route option \<Rightarrow> int \<Rightarrow> httpMetricKey" where
  "metric_key method r status = (case r of
     None \<Rightarrow> \<lparr>mk_method = metricMethod method, mk_route = ''unmatched'', mk_status = status\<rparr>
   | Some r \<Rightarrow> \<lparr>mk_method = (if rt_Method r \<noteq> [] then rt_Method r else metricMethod method),
       mk_route = rt_Pattern r, mk_status = status\<rparr>)"

text \<open>The loop over the buckets; \<open>fadd\<close> adds two durations.\<close>

definition hit_buckets :: "rat \<Rightarrow> 64 word list \<Rightarrow> 64 word list" where
  "hit_buckets seconds hits = map2 (\<lambda>bound h. if seconds \<le> bound then h + 1 else h) httpDurationBuckets hits"

definition observe_series :: "(rat \<Rightarrow> rat \<Rightarrow> rat) \<Rightarrow> rat \<Rightarrow> httpMetricSeries \<Rightarrow> httpMetricSeries" where
  "observe_series fadd seconds s = \<lparr>se_requests = se_requests s + 1, se_duration = fadd (se_duration s) seconds,
     se_bucketHits = hit_buckets seconds (se_bucketHits s)\<rparr>"

definition observe :: "(rat \<Rightarrow> rat \<Rightarrow> rat) \<Rightarrow> httpMetricKey \<Rightarrow> rat \<Rightarrow> httpMetrics \<Rightarrow> httpMetrics" where
  "observe fadd key seconds m =
    (let s = (case map_of (hm_series m) key of None \<Rightarrow> zero_series | Some s \<Rightarrow> s)
     in m\<lparr>hm_series := alist_put key (observe_series fadd seconds s) (hm_series m)\<rparr>)"

section \<open>The middleware\<close>

text \<open>
  The two moments of a request: it is counted as active when it arrives, and at once no longer when
  its hook is refused; the hook, run when the response has ended, counts it off and observes it
  (\<open>metrics_finish\<close>). A hook of the model acts on the response only, so the recorder is threaded
  beside the context and \<open>hook\<close> is the hook's action on the response.
\<close>

definition metrics_Middleware :: "after_hook \<Rightarrow> handler \<Rightarrow> ctx \<Rightarrow> httpMetrics \<Rightarrow> (ctx \<times> goerr option outcome) \<times> httpMetrics" where
  "metrics_Middleware hook next c m = (let m = m\<lparr>hm_active := hm_active m + 1\<rparr> in
     case AfterResponse (Some hook) c of
       (c, Some err) \<Rightarrow> ((c, Return (Some err)), m\<lparr>hm_active := hm_active m - 1\<rparr>)
     | (c, None) \<Rightarrow> (next c, m))"

definition metrics_finish :: "(rat \<Rightarrow> rat \<Rightarrow> rat) \<Rightarrow> httpMetricKey \<Rightarrow> rat \<Rightarrow> httpMetrics \<Rightarrow> httpMetrics" where
  "metrics_finish fadd key seconds m = observe fadd key seconds (m\<lparr>hm_active := hm_active m - 1\<rparr>)"

section \<open>The snapshot\<close>

text \<open>\<open>sort.Slice\<close> sorts by method, route and status; strings compare by bytes.\<close>

definition key_order :: "httpMetricKey \<Rightarrow> string \<times> string \<times> int" where
  "key_order k = (mk_method k, mk_route k, mk_status k)"

definition snapshot_series :: "httpMetrics \<Rightarrow> (httpMetricKey \<times> httpMetricSeries) list" where
  "snapshot_series m = sort_key (\<lambda>x. key_order (fst x)) (hm_series m)"

section \<open>The text\<close>

definition newline :: string where "newline = [CHR 0x0A]"
definition quote :: string where "quote = [CHR 0x22]"

fun escapeMetricLabel :: "string \<Rightarrow> string" where
  "escapeMetricLabel [] = []"
| "escapeMetricLabel (c # cs) =
    (if c = CHR 0x5C then [CHR 0x5C, CHR 0x5C] else if c = CHR 0x0A then [CHR 0x5C, CHR ''n'']
     else if c = CHR 0x22 then [CHR 0x5C, CHR 0x22] else [c]) @ escapeMetricLabel cs"

definition metricLabelsWithoutClose :: "httpMetricKey \<Rightarrow> string" where
  "metricLabelsWithoutClose k = ''{method='' @ quote @ escapeMetricLabel (mk_method k) @ quote @ '',route='' @ quote @
     escapeMetricLabel (mk_route k) @ quote @ '',status='' @ quote @ show_int (mk_status k) @ quote"

definition metricLabels :: "httpMetricKey \<Rightarrow> string" where
  "metricLabels k = metricLabelsWithoutClose k @ ''}''"

definition show_word :: "64 word \<Rightarrow> string" where
  "show_word w = show_nat (unat w)"

text \<open>\<open>fmt\<close> is \<open>strconv.FormatFloat\<close>; the gauge is printed as a signed number.\<close>

definition bucket_line :: "string \<Rightarrow> string \<Rightarrow> 64 word \<Rightarrow> string" where
  "bucket_line labels bound n = ''vial_http_request_duration_seconds_bucket'' @ labels @ '',le='' @ quote @ bound @ quote @ ''} '' @
     show_word n @ newline"

definition series_text :: "(rat \<Rightarrow> string) \<Rightarrow> httpMetricKey \<times> httpMetricSeries \<Rightarrow> string" where
  "series_text fmt x = (case x of (k, s) \<Rightarrow>
     concat (map2 (\<lambda>bound n. bucket_line (metricLabelsWithoutClose k) (fmt bound) n) httpDurationBuckets (se_bucketHits s)) @
     bucket_line (metricLabelsWithoutClose k) ''+Inf'' (se_requests s) @
     ''vial_http_request_duration_seconds_sum'' @ metricLabels k @ '' '' @ fmt (se_duration s) @ newline @
     ''vial_http_request_duration_seconds_count'' @ metricLabels k @ '' '' @ show_word (se_requests s) @ newline)"

definition metrics_text :: "(rat \<Rightarrow> string) \<Rightarrow> httpMetrics \<Rightarrow> string" where
  "metrics_text fmt m =
    ''# HELP vial_http_requests Completed HTTP requests.'' @ newline @ ''# TYPE vial_http_requests counter'' @ newline @
    concat (map (\<lambda>(k, s). ''vial_http_requests_total'' @ metricLabels k @ '' '' @ show_word (se_requests s) @ newline) (snapshot_series m)) @
    ''# HELP vial_http_request_duration_seconds Request handler duration.'' @ newline @
    ''# TYPE vial_http_request_duration_seconds histogram'' @ newline @
    concat (map (series_text fmt) (snapshot_series m)) @
    ''# HELP vial_http_requests_active HTTP requests currently executing.'' @ newline @
    ''# TYPE vial_http_requests_active gauge'' @ newline @
    ''vial_http_requests_active '' @ show_int (sint (hm_active m)) @ newline @ ''# EOF'' @ newline"

definition metrics_Handler :: "(string \<Rightarrow> nat \<times> goerr option) \<Rightarrow> (rat \<Rightarrow> string) \<Rightarrow> httpMetrics \<Rightarrow> handler" where
  "metrics_Handler uw fmt m c =
    (if Committed (cx_response c) then (c, Return (Some already_committed))
     else send_body uw ''application/openmetrics-text; version=1.0.0; charset=utf-8'' 200 (metrics_text fmt m) c)"

section \<open>Counting\<close>

definition no_metrics :: httpMetrics where
  "no_metrics = \<lparr>hm_series = [], hm_active = 0\<rparr>"

text \<open>The observations of a run, each with its key and duration.\<close>

fun observe_all :: "(rat \<Rightarrow> rat \<Rightarrow> rat) \<Rightarrow> (httpMetricKey \<times> rat) list \<Rightarrow> httpMetrics \<Rightarrow> httpMetrics" where
  "observe_all fadd [] m = m"
| "observe_all fadd ((k, d) # obs) m = observe_all fadd obs (observe fadd k d m)"

definition snapshot_after :: "(rat \<Rightarrow> rat \<Rightarrow> rat) \<Rightarrow> (httpMetricKey \<times> rat) list \<Rightarrow> (httpMetricKey \<times> httpMetricSeries) list" where
  "snapshot_after fadd obs = snapshot_series (observe_all fadd obs no_metrics)"

definition of_key :: "httpMetricKey \<Rightarrow> (httpMetricKey \<times> rat) list \<Rightarrow> rat list" where
  "of_key k obs = map snd (filter (\<lambda>x. fst x = k) obs)"

definition at_most :: "rat \<Rightarrow> rat list \<Rightarrow> nat" where
  "at_most bound ds = length (filter (\<lambda>d. d \<le> bound) ds)"

text \<open>A series that counts the durations \<open>ds\<close>.\<close>

definition counts :: "rat list \<Rightarrow> httpMetricSeries \<Rightarrow> bool" where
  "counts ds s \<longleftrightarrow> se_requests s = of_nat (length ds) \<and>
     se_bucketHits s = map (\<lambda>bound. of_nat (at_most bound ds)) httpDurationBuckets"

definition slot_ok :: "rat list \<Rightarrow> httpMetricSeries option \<Rightarrow> bool" where
  "slot_ok ds x = (case x of None \<Rightarrow> ds = [] | Some s \<Rightarrow> ds \<noteq> [] \<and> counts ds s)"

definition series_ok :: "(httpMetricKey \<times> rat) list \<Rightarrow> httpMetrics \<Rightarrow> bool" where
  "series_ok obs m \<longleftrightarrow> distinct (keys (hm_series m)) \<and> (\<forall>k. slot_ok (of_key k obs) (map_of (hm_series m) k))"

lemma counts_zero: "counts [] zero_series"
  by (simp add: counts_def zero_series_def at_most_def map_replicate_const)

lemma counts_observe:
  assumes "counts ds s"
  shows "counts (ds @ [d]) (observe_series fadd d s)"
proof -
  have "map2 (\<lambda>bound h. if d \<le> bound then h + 1 else h) bs (map (\<lambda>bound. of_nat (at_most bound ds)) bs) =
      map (\<lambda>bound. (of_nat (at_most bound (ds @ [d])) :: 64 word)) bs" for bs
    by (induction bs) (simp_all add: at_most_def)
  with assms show ?thesis by (simp add: counts_def observe_series_def hit_buckets_def)
qed

lemma of_key_snoc: "of_key k (obs @ [(k', d)]) = of_key k obs @ (if k' = k then [d] else [])"
  by (simp add: of_key_def)

lemma slot_ok_observe:
  assumes "slot_ok ds x"
  shows "slot_ok (ds @ [d]) (Some (observe_series fadd d (case x of None \<Rightarrow> zero_series | Some s \<Rightarrow> s)))"
  using assms counts_observe [OF counts_zero, of d fadd]
  by (cases x) (simp_all add: slot_ok_def counts_observe)

lemma observe_ok:
  assumes "series_ok obs m"
  shows "series_ok (obs @ [(k, d)]) (observe fadd k d m)"
  using assms slot_ok_observe [of "of_key k obs" "map_of (hm_series m) k" d fadd]
  by (simp add: series_ok_def observe_def Let_def of_key_snoc)

lemma observe_all_ok: "series_ok obs m \<Longrightarrow> series_ok (obs @ obs') (observe_all fadd obs' m)"
proof (induction obs' arbitrary: obs m)
  case (Cons x obs')
  obtain k d where x: "x = (k, d)" by fastforce
  from Cons.IH [OF observe_ok [OF Cons.prems, of k d fadd]] x show ?case by simp
qed simp

lemma at_most_mono: "a \<le> b \<Longrightarrow> at_most a ds \<le> at_most b ds"
  unfolding at_most_def by (induction ds) auto

lemma at_most_length: "at_most a ds \<le> length ds"
  by (simp add: at_most_def)

lemma inj_key_order: "key_order a = key_order b \<Longrightarrow> a = b"
  by (simp add: key_order_def httpMetricKey.equality)

section \<open>Reading labels\<close>

text \<open>How a reader of the exposition format takes a quoted value: up to the closing quote, with the escapes undone.\<close>

fun read_quoted :: "string \<Rightarrow> (string \<times> string) option" where
  "read_quoted [] = None"
| "read_quoted (c # cs) =
    (if c = CHR 0x22 then Some ([], cs)
     else if c = CHR 0x5C then (case cs of
         [] \<Rightarrow> None
       | e # rest \<Rightarrow> map_option (\<lambda>(v, r). ((if e = CHR ''n'' then CHR 0x0A else e) # v, r)) (read_quoted rest))
     else map_option (\<lambda>(v, r). (c # v, r)) (read_quoted cs))"

definition expect :: "string \<Rightarrow> string \<Rightarrow> string option" where
  "expect pre s = (if has_prefix s pre then Some (drop (length pre) s) else None)"

definition read_label :: "string \<Rightarrow> string \<Rightarrow> (string \<times> string) option" where
  "read_label pre s = Option.bind (expect (pre @ quote) s) read_quoted"

definition read_labels :: "string \<Rightarrow> (string \<times> string \<times> string) option" where
  "read_labels s = (case read_label ''{method='' s of None \<Rightarrow> None
     | Some (m, s) \<Rightarrow> (case read_label '',route='' s of None \<Rightarrow> None
       | Some (r, s) \<Rightarrow> (case read_label '',status='' s of None \<Rightarrow> None
         | Some (st, s) \<Rightarrow> if s = ''}'' then Some (m, r, st) else None)))"

lemma read_quoted_escape: "read_quoted (escapeMetricLabel v @ CHR 0x22 # rest) = Some (v, rest)"
  by (induction v) auto

lemma read_label_escape: "read_label pre (pre @ quote @ escapeMetricLabel v @ quote @ rest) = Some (v, rest)"
  by (simp add: read_label_def expect_def has_prefix_def quote_def read_quoted_escape)

lemma escape_plain: "(\<And>c. c \<in> set v \<Longrightarrow> c \<noteq> CHR 0x5C \<and> c \<noteq> CHR 0x0A \<and> c \<noteq> CHR 0x22) \<Longrightarrow> escapeMetricLabel v = v"
  by (induction v) auto

lemma show_int_plain: "c \<in> set (show_int i) \<Longrightarrow> c \<noteq> CHR 0x5C \<and> c \<noteq> CHR 0x0A \<and> c \<noteq> CHR 0x22"
  using set_show_nat [of c "nat (- i)"] set_show_nat [of c "nat i"]
  by (auto simp: show_int_def is_digit_def split: if_splits)

lemma escape_show_int: "escapeMetricLabel (show_int i) = show_int i"
  by (rule escape_plain) (rule show_int_plain)

section \<open>Properties\<close>

text \<open>
  Whatever method and route a series is for, quotes, backslashes and newlines included, a reader of the
  exposition gets back from its labels exactly the method, the route and the status: no
  label value can end its quotes or add a label.
\<close>

theorem metrics_labels_roundtrip:
  "read_labels (metricLabels k) = Some (mk_method k, mk_route k, show_int (mk_status k))"
proof -
  have "metricLabels k = ''{method='' @ quote @ escapeMetricLabel (mk_method k) @ quote @ '',route='' @ quote @
     escapeMetricLabel (mk_route k) @ quote @ '',status='' @ quote @ escapeMetricLabel (show_int (mk_status k)) @ quote @ ''}''"
    by (simp only: metricLabels_def metricLabelsWithoutClose_def append_assoc escape_show_int)
  then show ?thesis by (simp only: read_labels_def read_label_escape option.case prod.case) simp
qed

text \<open>
  After any sequence of observations from the empty recorder the snapshot is sorted by method, route
  and status and has exactly one series for every key observed, and each series holds the number
  of its observations, and for each bucket the number of those that took at most its bound
  (both modulo 2 to the power 64, the width of the counters).
\<close>

theorem metrics_counts:
  "sorted (map (key_order \<circ> fst) (snapshot_after fadd obs)) \<and> distinct (map fst (snapshot_after fadd obs)) \<and>
   fst ` set (snapshot_after fadd obs) = fst ` set obs \<and>
   (case map_of (snapshot_after fadd obs) k of None \<Rightarrow> of_key k obs = []
    | Some s \<Rightarrow> se_requests s = of_nat (length (of_key k obs)) \<and>
        se_bucketHits s = map (\<lambda>bound. of_nat (at_most bound (of_key k obs))) httpDurationBuckets)"
proof -
  let ?m = "observe_all fadd obs no_metrics" and ?s = "snapshot_after fadd obs"
  have "series_ok [] no_metrics" by (simp add: series_ok_def no_metrics_def slot_ok_def of_key_def keys_def)
  from observe_all_ok [OF this, of obs fadd] have ok: "series_ok obs ?m" by simp
  then have dist: "distinct (map fst (hm_series ?m))" by (simp add: series_ok_def keys_def)
  have perm: "mset ?s = mset (hm_series ?m)" by (simp add: snapshot_after_def snapshot_series_def)
  then have "distinct (map fst ?s)" using dist by (metis mset_map mset_eq_imp_distinct_iff)
  moreover from this dist have look: "map_of ?s = map_of (hm_series ?m)"
    using mset_eq_setD [OF perm] by (intro map_of_eqI) (auto simp: map_of_eq_Some_iff)
  moreover have slot: "slot_ok (of_key k obs) (map_of ?s k)" for k using ok look by (simp add: series_ok_def)
  moreover have "fst ` set ?s = fst ` set obs"
  proof (rule set_eqI)
    fix k
    have "k \<in> fst ` set ?s \<longleftrightarrow> map_of ?s k \<noteq> None" by (simp add: map_of_eq_None_iff)
    also have "\<dots> \<longleftrightarrow> of_key k obs \<noteq> []" using slot [of k] by (cases "map_of ?s k") (simp_all add: slot_ok_def)
    also have "\<dots> \<longleftrightarrow> k \<in> fst ` set obs" by (force simp: of_key_def filter_empty_conv)
    finally show "k \<in> fst ` set ?s \<longleftrightarrow> k \<in> fst ` set obs" .
  qed
  moreover have "sorted (map (key_order \<circ> fst) ?s)"
    by (simp add: snapshot_after_def snapshot_series_def comp_def)
  moreover have "case map_of ?s k of None \<Rightarrow> of_key k obs = []
    | Some s \<Rightarrow> se_requests s = of_nat (length (of_key k obs)) \<and>
        se_bucketHits s = map (\<lambda>bound. of_nat (at_most bound (of_key k obs))) httpDurationBuckets"
    using slot [of k] by (cases "map_of ?s k") (simp_all add: slot_ok_def counts_def)
  ultimately show ?thesis by blast
qed

end
