(* ===== verification/Load.thy ===== *)
theory Load
  imports Errors "HOL-Library.Word" "HOL-Library.Multiset"
begin

text \<open>
  Load checks, \<open>internal/load/load.go\<close>: the validation of a run, its workers, the counters they share
  with the latency histogram, and the thresholds and the summary of a result. Durations are in
  nanoseconds; the clock is monotonic, so a latency is a natural number. Formatting and
  floating-point rounding are parameters.
\<close>

section \<open>Configuration\<close>

definition int64 :: "int \<Rightarrow> int" where
  "int64 i = sint (word_of_int i :: 64 word)"

definition latencyBucketCount :: nat where "latencyBucketCount = 10000"
definition statusCount :: nat where "statusCount = 1000"
definition maxWorkerRamp :: int where "maxWorkerRamp = 1000000000"

record load_config =
  lc_URL :: string
  lc_Workers :: int
  lc_Duration :: int
  lc_Timeout :: int

text \<open>\<open>parse\<close> is \<open>url.ParseRequestURI\<close>: the scheme and the host.\<close>

definition validateConfig :: "(string \<Rightarrow> (string \<times> string) option) \<Rightarrow> load_config \<Rightarrow> goerr option" where
  "validateConfig parse cfg =
    (if (case parse (lc_URL cfg) of None \<Rightarrow> True
         | Some (scheme, host) \<Rightarrow> host = [] \<or> (scheme \<noteq> ''http'' \<and> scheme \<noteq> ''https'')) then
       Some (Opaque ''load URL must be an absolute HTTP or HTTPS URL'')
     else if lc_Workers cfg < 1 \<or> lc_Workers cfg > 10000 then
       Some (Opaque ''load workers must be between 1 and 10000'')
     else if lc_Duration cfg \<le> 0 then Some (Opaque ''load duration must be positive'')
     else if lc_Timeout cfg \<le> 0 then Some (Opaque ''load request timeout must be positive'')
     else None)"

definition workerStartDelay :: "int \<Rightarrow> int \<Rightarrow> int \<Rightarrow> int" where
  "workerStartDelay worker workers duration =
    (let ramp = min (duration div 10) maxWorkerRamp in int64 (worker * ramp) div workers)"

section \<open>Counters\<close>

record load_metrics =
  lm_requests :: "64 word"
  lm_errors :: "64 word"
  lm_statusCodes :: "64 word list"
  lm_latencies :: "64 word list"
  lm_bucketWidth :: int

definition newMetrics :: "int \<Rightarrow> load_metrics" where
  "newMetrics timeout =
    (let width = timeout div (int latencyBucketCount - 1);
         width = (if timeout mod (int latencyBucketCount - 1) \<noteq> 0 then width + 1 else width);
         width = (if width < 1000 then 1000 else width)
     in \<lparr>lm_requests = 0, lm_errors = 0, lm_statusCodes = replicate statusCount 0,
         lm_latencies = replicate latencyBucketCount 0, lm_bucketWidth = width\<rparr>)"

definition bump :: "nat \<Rightarrow> 64 word list \<Rightarrow> 64 word list" where
  "bump i xs = xs[i := xs ! i + 1]"

text \<open>A sample: the status, whether the request failed, and the latency.\<close>

type_synonym sample = "int \<times> bool \<times> nat"

definition latency_bucket :: "int \<Rightarrow> nat \<Rightarrow> nat" where
  "latency_bucket width latency = (let bucket = nat (int latency div width)
     in if bucket \<ge> latencyBucketCount then latencyBucketCount - 1 else bucket)"

definition load_record :: "load_metrics \<Rightarrow> sample \<Rightarrow> load_metrics" where
  "load_record m x = (case x of (status, failed, latency) \<Rightarrow>
     let m = m\<lparr>lm_requests := lm_requests m + 1\<rparr>;
         m = (if failed then m\<lparr>lm_errors := lm_errors m + 1\<rparr>
              else if status > 0 \<and> status < int statusCount
                   then m\<lparr>lm_statusCodes := bump (nat status) (lm_statusCodes m)\<rparr>
              else m)
     in m\<lparr>lm_latencies := bump (latency_bucket (lm_bucketWidth m) latency) (lm_latencies m)\<rparr>)"

section \<open>Results\<close>

record load_result =
  lr_Elapsed :: int
  lr_Requests :: "64 word"
  lr_Errors :: "64 word"
  lr_StatusCodes :: "(nat \<times> 64 word) list"
  lr_LatencyP50 :: int
  lr_LatencyP95 :: int
  lr_LatencyP99 :: int

fun quantile_loop :: "int \<Rightarrow> 64 word \<Rightarrow> 64 word list \<Rightarrow> nat \<Rightarrow> 64 word \<Rightarrow> int" where
  "quantile_loop width target [] index seen = int64 (int index * width)"
| "quantile_loop width target (x # xs) index seen =
    (let seen = seen + x
     in if seen \<ge> target then int64 (int (index + 1) * width)
        else quantile_loop width target xs (index + 1) seen)"

definition quantile :: "load_metrics \<Rightarrow> 64 word \<Rightarrow> 64 word \<Rightarrow> int" where
  "quantile m n percentile =
    (if n = 0 then 0
     else quantile_loop (lm_bucketWidth m) ((n * percentile + 99) div 100) (lm_latencies m) 0 0)"

definition load_result :: "load_metrics \<Rightarrow> int \<Rightarrow> load_result" where
  "load_result m elapsed = \<lparr>lr_Elapsed = elapsed, lr_Requests = lm_requests m, lr_Errors = lm_errors m,
     lr_StatusCodes = filter (\<lambda>(s, n). n > 0) (enumerate 0 (lm_statusCodes m)),
     lr_LatencyP50 = quantile m (lm_requests m) 50,
     lr_LatencyP95 = quantile m (lm_requests m) 95,
     lr_LatencyP99 = quantile m (lm_requests m) 99\<rparr>"

definition Failures :: "load_result \<Rightarrow> 64 word" where
  "Failures r = foldl (\<lambda>failures (s, n). if s \<ge> 400 then failures + n else failures) (lr_Errors r) (lr_StatusCodes r)"

text \<open>\<open>fl\<close> is the rounding of the floating-point unit.\<close>

definition ErrorRate :: "(rat \<Rightarrow> rat) \<Rightarrow> load_result \<Rightarrow> rat" where
  "ErrorRate fl r = (if lr_Requests r = 0 then 0
     else fl (fl (fl (of_nat (unat (Failures r))) * 100) / fl (of_nat (unat (lr_Requests r)))))"

definition Throughput :: "(rat \<Rightarrow> rat) \<Rightarrow> (int \<Rightarrow> rat) \<Rightarrow> load_result \<Rightarrow> rat" where
  "Throughput fl seconds r = (if lr_Elapsed r \<le> 0 then 0
     else fl (fl (of_nat (unat (lr_Requests r))) / seconds (lr_Elapsed r)))"

section \<open>Thresholds\<close>

datatype go_float = NaN | Inf bool | Finite rat

record thresholds =
  th_MaxErrorRate :: go_float
  th_MaxP95 :: int

text \<open>The formats \<open>%.2f\<close> of a number and \<open>%s\<close> of a duration.\<close>

record formats =
  fm_rate :: "rat \<Rightarrow> string"
  fm_duration :: "int \<Rightarrow> string"

definition Check :: "formats \<Rightarrow> (rat \<Rightarrow> rat) \<Rightarrow> load_result \<Rightarrow> thresholds \<Rightarrow> goerr option" where
  "Check F fl r t = (case th_MaxErrorRate t of
     Finite limit \<Rightarrow>
       if limit < 0 \<and> limit \<noteq> - 1 \<or> limit > 100 then
         Some (Opaque ''max error rate must be between 0 and 100, or -1 to disable'')
       else if th_MaxP95 t < 0 then Some (Opaque ''max p95 cannot be negative'')
       else
         let failures =
           (if limit \<ge> 0 \<and> ErrorRate fl r > limit
            then [''error rate '' @ fm_rate F (ErrorRate fl r) @ ''% exceeds '' @ fm_rate F limit @ ''%''] else []) @
           (if th_MaxP95 t > 0 \<and> lr_LatencyP95 r > th_MaxP95 t
            then [''p95 '' @ fm_duration F (lr_LatencyP95 r) @ '' exceeds '' @ fm_duration F (th_MaxP95 t)] else [])
         in if failures \<noteq> [] then Some (Opaque (''load thresholds failed: '' @ join_with ''; '' failures)) else None
   | _ \<Rightarrow> Some (Opaque ''max error rate must be between 0 and 100, or -1 to disable''))"

section \<open>The summary\<close>

text \<open>\<open>ms\<close> and \<open>us\<close> print a duration rounded to milliseconds and microseconds.\<close>

definition summary_text ::
  "formats \<Rightarrow> (int \<Rightarrow> string) \<Rightarrow> (int \<Rightarrow> string) \<Rightarrow> (rat \<Rightarrow> rat) \<Rightarrow> (int \<Rightarrow> rat) \<Rightarrow> load_result \<Rightarrow> string" where
  "summary_text F ms us fl seconds r = (let nl = [CHR 0x0A]; count = (\<lambda>w :: 64 word. show_nat (unat w)) in
     ''Requests: '' @ count (lr_Requests r) @ nl @
     ''Duration: '' @ ms (lr_Elapsed r) @ nl @
     ''Throughput: '' @ fm_rate F (Throughput fl seconds r) @ '' req/s'' @ nl @
     ''Errors: transport='' @ count (lr_Errors r) @ '' total='' @ count (Failures r) @
       '' ('' @ fm_rate F (ErrorRate fl r) @ ''%)'' @ nl @
     ''Latency: p50='' @ us (lr_LatencyP50 r) @ '' p95='' @ us (lr_LatencyP95 r) @ '' p99='' @ us (lr_LatencyP99 r) @ nl @
     ''Status:'' @ (if lr_StatusCodes r = [] then '' none'' else []) @
     concat (map (\<lambda>(s, n). '' '' @ show_nat s @ ''='' @ count n) (lr_StatusCodes r)) @ nl)"

definition WriteSummary :: "(string \<Rightarrow> goerr option) \<Rightarrow> string \<Rightarrow> goerr option" where
  "WriteSummary write summary = map_option (Wrapf ''write load summary: '') (write summary)"

section \<open>A run\<close>

text \<open>
  What \<open>measureRequest\<close> meets: a request that cannot be built, an error of the client, or a response
  with its status, the errors of reading and closing the body, and the latency.
\<close>

datatype request_answer = NotBuilt | ClientError nat | Answered int bool bool nat

fun measureRequest :: "request_answer \<Rightarrow> sample" where
  "measureRequest NotBuilt = (0, True, 0)"
| "measureRequest (ClientError latency) = (0, True, latency)"
| "measureRequest (Answered status readErr closeErr latency) = (status, readErr \<or> closeErr, latency)"

text \<open>
  The loop of a worker: the clock and whether the context is cancelled at every test, and the
  answer to the request that follows.
\<close>

fun worker_loop :: "int \<Rightarrow> (int \<times> bool \<times> request_answer) list \<Rightarrow> sample list" where
  "worker_loop deadline [] = []"
| "worker_loop deadline ((now, cancelled, a) # rest) =
    (if now < deadline \<and> \<not> cancelled then measureRequest a # worker_loop deadline rest else [])"

text \<open>A worker that has a start delay first waits for its timer or the end of the context (\<open>early\<close>).\<close>

definition load_worker :: "int \<Rightarrow> int \<Rightarrow> bool \<Rightarrow> (int \<times> bool \<times> request_answer) list \<Rightarrow> sample list" where
  "load_worker delay deadline early tests = (if delay > 0 \<and> early then [] else worker_loop deadline tests)"

text \<open>
  \<open>Run\<close>: \<open>early i\<close> and \<open>tests i\<close> are what worker \<open>i\<close> meets. The counters are atomic, and the order in which the
  workers record does not matter (\<open>load_record_order\<close>), so they record one after the other here.
\<close>

definition load_Run :: "(string \<Rightarrow> (string \<times> string) option) \<Rightarrow> load_config \<Rightarrow> int \<Rightarrow> int \<Rightarrow>
    (nat \<Rightarrow> bool) \<Rightarrow> (nat \<Rightarrow> (int \<times> bool \<times> request_answer) list) \<Rightarrow> goerr option \<Rightarrow> goerr + load_result \<times> goerr option" where
  "load_Run parse cfg started elapsed early tests ctxErr = (case validateConfig parse cfg of
     Some err \<Rightarrow> Inl err
   | None \<Rightarrow>
       let deadline = started + lc_Duration cfg;
           samples = concat (map (\<lambda>i. load_worker (workerStartDelay (int i) (lc_Workers cfg) (lc_Duration cfg)) deadline
             (early i) (tests i)) [0..<nat (lc_Workers cfg)])
       in Inr (load_result (foldl load_record (newMetrics (lc_Timeout cfg)) samples) elapsed, ctxErr))"

section \<open>The counters\<close>

definition bad_sample :: "sample \<Rightarrow> bool" where
  "bad_sample x \<longleftrightarrow> fst (snd x) \<or> 400 \<le> fst x \<and> fst x < 1000"

definition recorded_status :: "nat \<Rightarrow> sample \<Rightarrow> bool" where
  "recorded_status s x \<longleftrightarrow> \<not> fst (snd x) \<and> fst x = int s \<and> 0 < s \<and> s < statusCount"

definition how_many :: "('a \<Rightarrow> bool) \<Rightarrow> 'a list \<Rightarrow> nat" where
  "how_many P xs = length (filter P xs)"

lemma how_many_Nil [simp]: "how_many P [] = 0" by (simp add: how_many_def)

lemma how_many_snoc [simp]: "how_many P (xs @ [x]) = how_many P xs + (if P x then 1 else 0)"
  by (simp add: how_many_def)

lemma length_bump [simp]: "length (bump i xs) = length xs" by (simp add: bump_def)

lemma nth_bump: "j < length xs \<Longrightarrow> bump i xs ! j = (if i = j then xs ! j + 1 else xs ! j)"
  by (simp add: bump_def nth_list_update)

lemma latency_bucket_less: "latency_bucket width l < latencyBucketCount"
  by (simp add: latency_bucket_def Let_def latencyBucketCount_def)

lemma load_record_simps:
  "lm_requests (load_record m x) = lm_requests m + 1"
  "lm_errors (load_record m x) = lm_errors m + (if fst (snd x) then 1 else 0)"
  "lm_bucketWidth (load_record m x) = lm_bucketWidth m"
  "lm_latencies (load_record m x) = bump (latency_bucket (lm_bucketWidth m) (snd (snd x))) (lm_latencies m)"
  "lm_statusCodes (load_record m x) = (if \<not> fst (snd x) \<and> fst x > 0 \<and> fst x < int statusCount
     then bump (nat (fst x)) (lm_statusCodes m) else lm_statusCodes m)"
  by (auto simp: load_record_def Let_def split: prod.split)

text \<open>The samples of different workers may be recorded in any order.\<close>

lemma bump_commute: "bump i (bump j xs) = bump j (bump i xs)"
  by (rule nth_equalityI) (auto simp: nth_bump)

lemma load_record_order: "load_record (load_record m x) y = load_record (load_record m y) x"
  by (rule load_metrics.equality) (auto simp: load_record_simps bump_commute)

lemma load_counters:
  "lm_requests (foldl load_record (newMetrics t) xs) = of_nat (length xs) \<and>
   lm_errors (foldl load_record (newMetrics t) xs) = of_nat (how_many (\<lambda>x. fst (snd x)) xs) \<and>
   lm_bucketWidth (foldl load_record (newMetrics t) xs) = lm_bucketWidth (newMetrics t) \<and>
   length (lm_statusCodes (foldl load_record (newMetrics t) xs)) = statusCount \<and>
   length (lm_latencies (foldl load_record (newMetrics t) xs)) = latencyBucketCount"
  by (induction xs rule: rev_induct) (simp_all add: load_record_simps newMetrics_def Let_def)

lemma load_statuses:
  assumes "s < statusCount"
  shows "lm_statusCodes (foldl load_record (newMetrics t) xs) ! s = of_nat (how_many (recorded_status s) xs)"
proof (induction xs rule: rev_induct)
  case Nil
  then show ?case using assms by (simp add: newMetrics_def Let_def)
next
  case (snoc x xs)
  have "length (lm_statusCodes (foldl load_record (newMetrics t) xs)) = statusCount" using load_counters by blast
  with snoc assms show ?case by (auto simp: load_record_simps nth_bump recorded_status_def)
qed

lemma load_latencies:
  assumes "b < latencyBucketCount"
  shows "lm_latencies (foldl load_record (newMetrics t) xs) ! b =
    of_nat (how_many (\<lambda>x. latency_bucket (lm_bucketWidth (newMetrics t)) (snd (snd x)) = b) xs)"
proof (induction xs rule: rev_induct)
  case Nil
  then show ?case using assms by (simp add: newMetrics_def Let_def)
next
  case (snoc x xs)
  have "length (lm_latencies (foldl load_record (newMetrics t) xs)) = latencyBucketCount"
    "lm_bucketWidth (foldl load_record (newMetrics t) xs) = lm_bucketWidth (newMetrics t)" using load_counters by blast+
  with snoc assms show ?case by (simp add: load_record_simps nth_bump)
qed

section \<open>Failures\<close>

definition failing :: "nat \<times> 64 word \<Rightarrow> 64 word" where
  "failing x = (if fst x \<ge> 400 then snd x else 0)"

lemma Failures_sum: "foldl (\<lambda>failures (s, n). if s \<ge> 400 then failures + n else failures) e xs = e + sum_list (map failing xs)"
  by (induction xs arbitrary: e) (auto simp: failing_def)

lemma failing_filter: "sum_list (map failing (filter (\<lambda>(s, n). n > 0) xs)) = sum_list (map failing xs)"
  by (induction xs) (auto simp: failing_def word_gt_0)

lemma failing_bump: "i < length xs \<Longrightarrow>
  sum_list (map failing (enumerate k (bump i xs))) = sum_list (map failing (enumerate k xs)) + (if k + i \<ge> 400 then 1 else 0)"
proof (induction xs arbitrary: i k)
  case (Cons x xs)
  show ?case
  proof (cases i)
    case (Suc j)
    with Cons.IH [of j "Suc k"] Cons.prems show ?thesis by (simp add: bump_def failing_def)
  qed (simp add: bump_def failing_def)
qed simp

lemma failing_zero: "sum_list (map failing (enumerate k (replicate n 0))) = 0"
  by (induction n arbitrary: k) (simp_all add: failing_def)

lemma load_failures:
  "lm_errors (foldl load_record (newMetrics t) xs) + sum_list (map failing (enumerate 0 (lm_statusCodes (foldl load_record (newMetrics t) xs)))) =
   of_nat (how_many bad_sample xs)"
proof (induction xs rule: rev_induct)
  case Nil
  then show ?case by (simp add: newMetrics_def Let_def failing_zero)
next
  case (snoc x xs)
  let ?m = "foldl load_record (newMetrics t) xs"
  have len: "length (lm_statusCodes ?m) = statusCount" using load_counters by blast
  have "sum_list (map failing (enumerate 0 (lm_statusCodes (load_record ?m x)))) =
      sum_list (map failing (enumerate 0 (lm_statusCodes ?m))) + (if \<not> fst (snd x) \<and> 400 \<le> fst x \<and> fst x < 1000 then 1 else 0)"
    by (auto simp: load_record_simps failing_bump len statusCount_def nat_le_iff)
  with snoc show ?case by (auto simp: load_record_simps bad_sample_def)
qed

section \<open>Quantiles\<close>

text \<open>How many elements of a sorted list are at most a bound tells which positions are.\<close>

lemma sorted_count:
  fixes bs :: "'a::linorder list"
  shows "sorted bs \<Longrightarrow> k < length bs \<Longrightarrow> k < how_many (\<lambda>x. x \<le> b) bs \<longleftrightarrow> bs ! k \<le> b"
proof (induction bs arbitrary: k)
  case (Cons x bs)
  show ?case
  proof (cases "x \<le> b")
    case True
    with Cons show ?thesis by (cases k) (simp_all add: how_many_def)
  next
    case False
    have none: "\<forall>y \<in> set (x # bs). \<not> y \<le> b" using False Cons.prems(1) by auto
    then have "filter (\<lambda>y. y \<le> b) (x # bs) = []" by (rule filter_False)
    moreover have "\<not> (x # bs) ! k \<le> b" using none nth_mem [OF Cons.prems(2)] by blast
    ultimately show ?thesis by (simp only: how_many_def list.size) simp
  qed
qed simp

lemma how_many_sort [simp]: "how_many P (sort xs) = how_many P xs"
  by (metis how_many_def mset_filter mset_sort size_mset)

lemma how_many_atMost: "how_many (\<lambda>x. f x \<le> b) xs = (\<Sum>b' \<le> b. how_many (\<lambda>x. f x = b') xs)" for f :: "'a \<Rightarrow> nat"
proof (induction b)
  case (Suc b)
  have "how_many (\<lambda>x. f x \<le> Suc b) xs = how_many (\<lambda>x. f x \<le> b) xs + how_many (\<lambda>x. f x = Suc b) xs"
    by (induction xs) (auto simp: how_many_def)
  with Suc show ?case by simp
qed simp

lemma word_of_nat_le: "n < 2 ^ 64 \<Longrightarrow> (of_nat t :: 64 word) \<le> of_nat n \<longleftrightarrow> t mod 2 ^ 64 \<le> n"
  by (simp add: word_le_nat_alt unat_of_nat)

lemma quantile_loop_finds:
  assumes "i \<le> j" "j < N" "t < 2 ^ 64" "(\<Sum>b < N. c b) < 2 ^ 64"
    and "t \<le> (\<Sum>b \<le> j. c b)" "\<And>b. b < j \<Longrightarrow> (\<Sum>b' \<le> b. c b') < t"
  shows "quantile_loop width (of_nat t) (map (\<lambda>b. of_nat (c b)) [i..<N]) i (of_nat (\<Sum>b < i. c b)) = int64 (int (j + 1) * width)"
  using assms(1)
proof (induction "j - i" arbitrary: i)
  case 0
  then have ij: "i = j" by simp
  have "(\<Sum>b \<le> j. c b) \<le> (\<Sum>b < N. c b)" using assms(2) by (intro sum_mono2) auto
  then have "(of_nat t :: 64 word) \<le> of_nat (\<Sum>b \<le> j. c b)" using assms(3-5) by (simp only: word_of_nat_le mod_less)
  moreover have "(\<Sum>b \<le> j. c b) = (\<Sum>b < i. c b) + c i" by (simp add: ij lessThan_Suc_atMost [symmetric])
  ultimately show ?case using ij assms(2) by (simp add: upt_conv_Cons)
next
  case (Suc d)
  then have ij: "i < j" by simp
  have "(\<Sum>b \<le> i. c b) \<le> (\<Sum>b < N. c b)" using assms(2) ij by (intro sum_mono2) auto
  then have "\<not> (of_nat t :: 64 word) \<le> of_nat (\<Sum>b \<le> i. c b)"
    using assms(3,4) assms(6) [OF ij] by (simp only: word_of_nat_le mod_less)
  moreover have e: "(\<Sum>b \<le> i. c b) = (\<Sum>b < i. c b) + c i" by (simp add: lessThan_Suc_atMost [symmetric])
  moreover have "quantile_loop width (of_nat t) (map (\<lambda>b. of_nat (c b)) [Suc i..<N]) (Suc i) (of_nat (\<Sum>b < Suc i. c b)) = int64 (int (j + 1) * width)"
    by (rule Suc(1)) (use Suc(2) ij in auto)
  ultimately show ?case using ij assms(2) by (simp add: upt_conv_Cons)
qed

lemma int64_small: "- (2 ^ 63) \<le> i \<Longrightarrow> i < 2 ^ 63 \<Longrightarrow> int64 i = i"
  unfolding int64_def by (simp add: sint_sbintrunc' signed_take_bit_int_eq_self)

lemma bucketWidth_bounds:
  assumes "0 < timeout" "timeout \<le> 2 ^ 62"
  shows "0 < lm_bucketWidth (newMetrics timeout)" "timeout \<le> 9999 * lm_bucketWidth (newMetrics timeout)"
    "lm_bucketWidth (newMetrics timeout) * 10000 < 2 ^ 63"
proof -
  let ?q = "timeout div 9999" and ?r = "timeout mod 9999"
  let ?w = "if ?r \<noteq> 0 then ?q + 1 else ?q"
  have "9999 * ?q + ?r = timeout" "0 \<le> ?r" "?r < 9999" by simp_all
  then have w: "timeout \<le> 9999 * ?w" "?w * 10000 < 2 ^ 63" "0 < ?w" using assms by (auto split: if_splits)
  then show "0 < lm_bucketWidth (newMetrics timeout)" "timeout \<le> 9999 * lm_bucketWidth (newMetrics timeout)"
    "lm_bucketWidth (newMetrics timeout) * 10000 < 2 ^ 63"
    by (auto simp: newMetrics_def Let_def latencyBucketCount_def)
qed

lemma latency_bucket_mono: "0 < width \<Longrightarrow> mono (latency_bucket width)"
proof (rule monoI)
  fix x y :: nat
  assume "0 < width" "x \<le> y"
  then have "nat (int x div width) \<le> nat (int y div width)" by (intro nat_mono zdiv_mono1) auto
  then show "latency_bucket width x \<le> latency_bucket width y"
    by (auto simp: latency_bucket_def Let_def latencyBucketCount_def simp del: nat_le_eq_zle)
qed

text \<open>The histogram's quantile as a nearest-rank quantile over the buckets.\<close>

lemma quantile_buckets:
  fixes xs :: "sample list" and timeout :: int
  defines "m \<equiv> foldl load_record (newMetrics timeout) xs" and "width \<equiv> lm_bucketWidth (newMetrics timeout)"
  assumes "xs \<noteq> []" "length xs * 100 + 99 < 2 ^ 64" "1 \<le> p" "p \<le> 100"
  shows "quantile m (lm_requests m) (of_nat p) =
    int64 (int (sort (map (latency_bucket width \<circ> snd \<circ> snd) xs) ! ((length xs * p + 99) div 100 - 1) + 1) * width)"
proof -
  let ?f = "latency_bucket width \<circ> snd \<circ> snd"
  let ?bs = "sort (map ?f xs)" and ?t = "(length xs * p + 99) div 100"
  let ?c = "\<lambda>b. how_many (\<lambda>x. ?f x = b) xs"
  let ?j = "?bs ! (?t - 1)"
  have len: "length xs * p \<le> length xs * 100" using assms(6) by simp
  have t: "1 \<le> ?t" "?t \<le> length xs"
  proof -
    have "1 \<le> length xs * p" using assms(3,5) by (simp add: Suc_le_eq)
    then have "100 div 100 \<le> ?t" by (intro div_le_mono) simp
    then show "1 \<le> ?t" by simp
    have "?t \<le> (length xs * 100 + 99) div 100" using len by (intro div_le_mono) simp
    then show "?t \<le> length xs" by simp
  qed
  have cum: "(\<Sum>b' \<le> b. ?c b') = how_many (\<lambda>x. x \<le> b) ?bs" for b
  proof -
    have "(\<Sum>b' \<le> b. ?c b') = how_many (\<lambda>x. ?f x \<le> b) xs" by (rule how_many_atMost [symmetric])
    also have "\<dots> = how_many (\<lambda>x. x \<le> b) (map ?f xs)" by (simp add: how_many_def filter_map comp_def)
    finally show ?thesis by simp
  qed
  have reach: "?t \<le> (\<Sum>b' \<le> b. ?c b') \<longleftrightarrow> ?j \<le> b" for b
  proof -
    have "?t \<le> how_many (\<lambda>x. x \<le> b) ?bs \<longleftrightarrow> ?t - 1 < how_many (\<lambda>x. x \<le> b) ?bs" using t(1) by linarith
    also have "\<dots> \<longleftrightarrow> ?j \<le> b" by (rule sorted_count) (use t in auto)
    finally show ?thesis by (simp only: cum)
  qed
  have "?j \<in> set ?bs" by (rule nth_mem) (use t in auto)
  then have jN: "?j < latencyBucketCount" using latency_bucket_less by auto
  have sumN: "(\<Sum>b < latencyBucketCount. ?c b) < 2 ^ 64"
  proof -
    have "(\<Sum>b < latencyBucketCount. ?c b) = (\<Sum>b' \<le> latencyBucketCount - 1. ?c b')"
      by (rule sum.cong) (auto simp: latencyBucketCount_def)
    also have "\<dots> \<le> length ?bs" unfolding cum by (simp add: how_many_def del: length_sort)
    finally show ?thesis using assms(4) by simp
  qed
  note counters = load_counters [of timeout xs, folded m_def width_def]
  have "lm_latencies m = map (\<lambda>b. of_nat (?c b)) [0..<latencyBucketCount]"
    using counters load_latencies [of _ timeout xs, folded m_def width_def] by (intro nth_equalityI) (auto simp: comp_def)
  moreover have "(lm_requests m * of_nat p + 99) div 100 = (of_nat ?t :: 64 word)"
  proof -
    have req: "lm_requests m = of_nat (length xs)" using counters by blast
    have "lm_requests m * of_nat p + 99 = (of_nat (length xs * p + 99) :: 64 word)" by (simp add: req)
    moreover have "unat (of_nat (length xs * p + 99) :: 64 word) = length xs * p + 99"
      using le_less_trans [OF add_right_mono [OF len, of 99] assms(4)] unfolding unat_of_nat by simp
    ultimately show ?thesis by (simp only: word_arith_nat_div) simp
  qed
  moreover have "lm_requests m \<noteq> 0"
  proof
    assume "lm_requests m = 0"
    then have "unat (of_nat (length xs) :: 64 word) = 0" using counters by simp
    then show False using assms(3,4) by (simp add: unat_of_nat)
  qed
  moreover have "quantile_loop width (of_nat ?t) (map (\<lambda>b. of_nat (?c b)) [0..<latencyBucketCount]) 0 (of_nat (\<Sum>b < 0. ?c b)) =
      int64 (int (?j + 1) * width)"
    by (rule quantile_loop_finds) (use t jN sumN assms(4) reach in \<open>auto simp: not_le [symmetric] simp del: of_nat_sum\<close>)
  ultimately show ?thesis using counters by (simp add: quantile_def)
qed

section \<open>Properties\<close>

text \<open>
  After a run has recorded the samples \<open>xs\<close>, in whatever order, the result counts the requests and the
  transport errors, has an entry for a status exactly when a response with it was read, with their number, and
  \<open>Failures\<close> is the number of samples that failed or had a status from 400 to 999 (all modulo 2 to the
  power 64).
\<close>

theorem load_accounting:
  "lr_Requests (load_result (foldl load_record (newMetrics t) xs) elapsed) = of_nat (length xs) \<and>
   lr_Errors (load_result (foldl load_record (newMetrics t) xs) elapsed) = of_nat (how_many (\<lambda>x. fst (snd x)) xs) \<and>
   Failures (load_result (foldl load_record (newMetrics t) xs) elapsed) = of_nat (how_many bad_sample xs) \<and>
   set (lr_StatusCodes (load_result (foldl load_record (newMetrics t) xs) elapsed)) =
     {(s, n). s < statusCount \<and> n = of_nat (how_many (recorded_status s) xs) \<and> n > 0}"
proof -
  let ?m = "foldl load_record (newMetrics t) xs"
  have "length (lm_statusCodes ?m) = statusCount" using load_counters by blast
  then have "set (enumerate 0 (lm_statusCodes ?m)) = {(s, n). s < statusCount \<and> n = of_nat (how_many (recorded_status s) xs)}"
    by (auto simp: in_set_enumerate_eq load_statuses)
  then have "set (lr_StatusCodes (load_result ?m elapsed)) =
      {(s, n). s < statusCount \<and> n = of_nat (how_many (recorded_status s) xs) \<and> n > 0}"
    by (auto simp: load_result_def)
  moreover have "Failures (load_result ?m elapsed) = of_nat (how_many bad_sample xs)"
    by (simp only: Failures_def load_result_def load_result.simps Failures_sum failing_filter load_failures)
  ultimately show ?thesis using load_counters [of t xs] by (simp add: load_result_def)
qed

text \<open>
  C22. A percentile of the result is the nearest-rank percentile of the recorded latencies, rounded up
  to the end of its bucket: with \<open>L\<close> the sample of rank \<open>ceil (n * p / 100)\<close> in ascending order, the result is
  above \<open>L\<close> and exceeds it by at most a bucket when \<open>L\<close> is within the timeout, and otherwise it is the
  end of the last bucket.
  It holds up to a timeout of 146 years (2 to the power 62 nanoseconds); near the largest duration the
  product with the width overflows.
\<close>

theorem load_quantile:
  fixes xs :: "sample list"
  assumes "0 < timeout" "timeout \<le> 2 ^ 62" "xs \<noteq> []" "length xs * 100 + 99 < 2 ^ 64" "1 \<le> p" "p \<le> 100"
  shows "let m = foldl load_record (newMetrics timeout) xs;
      L = sort (map (snd \<circ> snd) xs) ! ((length xs * p + 99) div 100 - 1);
      q = quantile m (lm_requests m) (of_nat p)
    in q \<le> 10000 * lm_bucketWidth m \<and>
      (if int L \<le> timeout then int L < q \<and> q \<le> int L + lm_bucketWidth m else q = (latency_bucket (lm_bucketWidth m) L + 1) * lm_bucketWidth m)"
proof -
  let ?m = "foldl load_record (newMetrics timeout) xs" and ?w = "lm_bucketWidth (newMetrics timeout)"
  let ?i = "(length xs * p + 99) div 100 - 1"
  let ?L = "sort (map (snd \<circ> snd) xs) ! ?i"
  have w: "0 < ?w" "timeout \<le> 9999 * ?w" "?w * 10000 < 2 ^ 63" by (rule bucketWidth_bounds; rule assms)+
  have width: "lm_bucketWidth ?m = ?w" using load_counters by blast
  have "length xs * p \<le> length xs * 100" using assms(6) by simp
  then have "(length xs * p + 99) div 100 \<le> (length xs * 100 + 99) div 100" by (intro div_le_mono) simp
  moreover have "0 < length xs" using assms(3) by simp
  moreover have "k \<le> n \<Longrightarrow> 0 < n \<Longrightarrow> k - 1 < n" for k n :: nat by arith
  ultimately have i: "?i < length (map (snd \<circ> snd) xs)" by simp
  have "sort (map (latency_bucket ?w \<circ> snd \<circ> snd) xs) = map (latency_bucket ?w) (sort (map (snd \<circ> snd) xs))"
  proof (rule properties_for_sort)
    show "mset (map (latency_bucket ?w) (sort (map (snd \<circ> snd) xs))) = mset (map (latency_bucket ?w \<circ> snd \<circ> snd) xs)"
      by (simp add: multiset.map_comp comp_assoc)
    show "sorted (map (latency_bucket ?w) (sort (map (snd \<circ> snd) xs)))"
      using latency_bucket_mono [OF w(1)] sorted_sort [of "map (snd \<circ> snd) xs"]
      by (auto simp: sorted_iff_nth_mono monoD)
  qed
  with i have "sort (map (latency_bucket ?w \<circ> snd \<circ> snd) xs) ! ?i = latency_bucket ?w ?L" by simp
  with quantile_buckets [OF assms(3-6), of timeout]
  have q: "quantile ?m (lm_requests ?m) (of_nat p) = int64 (int (latency_bucket ?w ?L + 1) * ?w)" by simp
  have b: "int (latency_bucket ?w ?L + 1) \<le> 10000" using latency_bucket_less [of ?w ?L] by (simp add: latencyBucketCount_def)
  then have le: "int (latency_bucket ?w ?L + 1) * ?w \<le> 10000 * ?w" using w(1) by (intro mult_right_mono) auto
  have q': "quantile ?m (lm_requests ?m) (of_nat p) = int (latency_bucket ?w ?L + 1) * ?w"
    unfolding q
  proof (rule int64_small)
    show "- (2 ^ 63) \<le> int (latency_bucket ?w ?L + 1) * ?w"
      by (rule order_trans [of _ 0]) (use w(1) in simp_all)
    show "int (latency_bucket ?w ?L + 1) * ?w < 2 ^ 63" using le w(3) by linarith
  qed
  have in_range: "latency_bucket ?w ?L = nat (int ?L div ?w)" if "int ?L \<le> timeout"
  proof -
    have "int ?L div ?w \<le> (9999 * ?w) div ?w" using that w by (intro zdiv_mono1) auto
    also have "\<dots> = 9999" using w(1) by simp
    finally show ?thesis by (simp add: latency_bucket_def Let_def latencyBucketCount_def)
  qed
  have "int ?L < quantile ?m (lm_requests ?m) (of_nat p) \<and> quantile ?m (lm_requests ?m) (of_nat p) \<le> int ?L + ?w" if "int ?L \<le> timeout"
  proof -
    have "int ?L = ?w * (int ?L div ?w) + int ?L mod ?w" by simp
    moreover have "0 \<le> int ?L mod ?w" "int ?L mod ?w < ?w" using w(1) by simp_all
    moreover have "quantile ?m (lm_requests ?m) (of_nat p) = ?w * (int ?L div ?w) + ?w"
      using in_range [OF that] w(1) by (simp add: q' pos_imp_zdiv_nonneg_iff algebra_simps)
    ultimately show ?thesis by linarith
  qed
  with le show ?thesis by (simp add: Let_def width q')
qed

theorem load_quantile_witness:
  "let m = foldl load_record (newMetrics 1000000000) [(200, False, 5000000), (500, False, 1000), (0, True, 30000000)];
      q = quantile m (lm_requests m) 50
    in 5000000 < q \<and> q \<le> 5000000 + lm_bucketWidth m"
proof -
  have "sort (map (snd \<circ> snd) [(200, False, 5000000), (500, False, 1000), (0, True, 30000000) :: sample]) ! 1 = 5000000"
    by (simp add: sort_key_def)
  with load_quantile [of 1000000000 "[(200, False, 5000000), (500, False, 1000), (0, True, 30000000)]" 50]
  show ?thesis by (simp add: Let_def)
qed

end
