(* ===== verification/DevWatch.thy ===== *)
theory DevWatch
  imports Errors
begin

text \<open>
  The source watcher of the development loop: the ignore rules (\<open>internal/dev/ignore.go\<close>), the scan
  of the source tree and the report of changes (\<open>internal/dev/watcher.go\<close>). Paths are those of Unix;
  the functions of \<open>path\<close> and \<open>path/filepath\<close> are parameters, and a source tree is what a walk finds
  in it.
\<close>

section \<open>Paths\<close>

text \<open>\<open>pl_match\<close> is \<open>path.Match\<close>, \<open>None\<close> for \<open>ErrBadPattern\<close>; \<open>pl_rel\<close> is \<open>None\<close> when \<open>Rel\<close> gives an error.\<close>

record path_lib =
  pl_clean :: "string \<Rightarrow> string"
  pl_rel :: "string \<Rightarrow> string \<Rightarrow> string option"
  pl_base :: "string \<Rightarrow> string"
  pl_ext :: "string \<Rightarrow> string"
  pl_join :: "string \<Rightarrow> string \<Rightarrow> string"
  pl_abs :: "string \<Rightarrow> string result"
  pl_match :: "string \<Rightarrow> string \<Rightarrow> bool option"

definition trim_prefix :: "string \<Rightarrow> string \<Rightarrow> string" where
  "trim_prefix s pre = (if has_prefix s pre then drop (length pre) s else s)"

section \<open>Ignored paths\<close>

definition defaultIgnoredNames :: "string list" where
  "defaultIgnoredNames = [''.git'', ''.vial'', ''vendor'', ''node_modules'', ''tmp'', ''dist'']"

record ignoreMatcher =
  im_root :: string
  im_extras :: "string list"

fun normalize_extras :: "path_lib \<Rightarrow> string list \<Rightarrow> string list" where
  "normalize_extras L [] = []"
| "normalize_extras L (extra # rest) =
    (let extra = pl_clean L (trim_space extra)
     in if extra = [] \<or> extra = ''.'' then normalize_extras L rest
        else trim_prefix extra ''./'' # normalize_extras L rest)"

definition newIgnoreMatcher :: "path_lib \<Rightarrow> string \<Rightarrow> string list \<Rightarrow> ignoreMatcher" where
  "newIgnoreMatcher L dir extras = \<lparr>im_root = pl_clean L dir, im_extras = normalize_extras L extras\<rparr>"

fun match_extras :: "string \<Rightarrow> string list \<Rightarrow> string list \<Rightarrow> bool" where
  "match_extras relative parts [] = False"
| "match_extras relative parts (extra # rest) =
    (if CHR ''/'' \<notin> set extra then
       if extra \<in> set parts then True else match_extras relative parts rest
     else if relative = extra \<or> has_prefix relative (extra @ ''/'') then True
     else match_extras relative parts rest)"

definition ignore_Match :: "path_lib \<Rightarrow> ignoreMatcher \<Rightarrow> string \<Rightarrow> bool" where
  "ignore_Match L m file = (case pl_rel L (im_root m) (pl_clean L file) of
     None \<Rightarrow> True
   | Some relative \<Rightarrow>
       if relative = ''..'' \<or> has_prefix relative ''../'' then True
       else if relative = ''.'' then False
       else
         let parts = split_byte (CHR ''/'') relative
         in if list_ex (\<lambda>part. part \<in> set defaultIgnoredNames) parts then True
            else match_extras relative parts (im_extras m))"

section \<open>The watcher\<close>

record fileFingerprint =
  ff_size :: int
  ff_modifiedAt :: int
  ff_mode :: nat

type_synonym snapshot = "(string \<times> fileFingerprint) list"

definition changesCapacity :: nat where "changesCapacity = 32"
definition errorsCapacity :: nat where "errorsCapacity = 8"

text \<open>The watcher; the channels are the lists of what they hold.\<close>

record watcher =
  wa_root :: string
  wa_ignore :: ignoreMatcher
  wa_patterns :: "string list"
  wa_snapshot :: snapshot
  wa_changes :: "string list"
  wa_errors :: "goerr list"

definition isRelevantSource :: "path_lib \<Rightarrow> string \<Rightarrow> bool" where
  "isRelevantSource L file =
    (let base = pl_base L file
     in if base = ''go.mod'' \<or> base = ''go.sum'' \<or> base = ''go.work'' \<or> base = ''go.work.sum'' then True
        else equal_fold (pl_ext L base) ''.go'')"

definition reportError :: "goerr \<Rightarrow> goerr list \<Rightarrow> goerr list" where
  "reportError err errs = (if length errs < errorsCapacity then errs @ [err] else errs)"

definition reportChange :: "string \<Rightarrow> string list \<Rightarrow> string list" where
  "reportChange file changes = (if length changes < changesCapacity then changes @ [file] else changes)"

text \<open>The loop over the patterns, with the channel of errors.\<close>

fun match_patterns :: "path_lib \<Rightarrow> string \<Rightarrow> string \<Rightarrow> string list \<Rightarrow> goerr list \<Rightarrow> bool \<times> goerr list" where
  "match_patterns L file relative [] errs = (False, errs)"
| "match_patterns L file relative (pattern # rest) errs =
    (let name = (if CHR ''/'' \<notin> set pattern then pl_base L file else relative)
     in case pl_match L pattern name of
          None \<Rightarrow> match_patterns L file relative rest
            (reportError (Wrapf (''match watch pattern '' @ pattern @ '': '') (Opaque ''syntax error in pattern'')) errs)
        | Some True \<Rightarrow> (True, errs)
        | Some False \<Rightarrow> match_patterns L file relative rest errs)"

definition relevant :: "path_lib \<Rightarrow> watcher \<Rightarrow> string \<Rightarrow> goerr list \<Rightarrow> bool \<times> goerr list" where
  "relevant L w file errs =
    (if isRelevantSource L file then (True, errs)
     else if wa_patterns w = [] then (False, errs)
     else case pl_rel L (wa_root w) file of None \<Rightarrow> (False, errs)
       | Some relative \<Rightarrow> match_patterns L file relative (wa_patterns w) errs)"

section \<open>The scan\<close>

text \<open>
  What \<open>filepath.WalkDir\<close> meets: a file with the answer of \<open>entry.Info\<close>, or a directory with the answer of its
  reading and its entries in order. A file may be gone when it is looked at.
\<close>

datatype fs_fault = Gone | Fault goerr

datatype fs_node =
    FileNode "fs_fault + fileFingerprint"
  | DirNode "fs_fault option" "(string \<times> fs_node) list"

datatype fs_tree = NoTree fs_fault | Tree fs_node

type_synonym scan_state = "snapshot \<times> goerr list"

definition visit_file :: "path_lib \<Rightarrow> watcher \<Rightarrow> string \<Rightarrow> fs_fault + fileFingerprint \<Rightarrow> scan_state \<Rightarrow> scan_state \<times> goerr option" where
  "visit_file L w file info st = (case st of (snap, errs) \<Rightarrow>
     if ignore_Match L (wa_ignore w) file then ((snap, errs), None)
     else case relevant L w file errs of
       (False, errs) \<Rightarrow> ((snap, errs), None)
     | (True, errs) \<Rightarrow> (case info of
           Inl Gone \<Rightarrow> ((snap, errs), None)
         | Inl (Fault err) \<Rightarrow> ((snap, errs), Some err)
         | Inr fp \<Rightarrow> ((alist_put file fp snap, errs), None)))"

fun walk :: "path_lib \<Rightarrow> watcher \<Rightarrow> string \<Rightarrow> fs_node \<Rightarrow> scan_state \<Rightarrow> scan_state \<times> goerr option"
  and walk_entries :: "path_lib \<Rightarrow> watcher \<Rightarrow> string \<Rightarrow> (string \<times> fs_node) list \<Rightarrow> scan_state \<Rightarrow> scan_state \<times> goerr option" where
  "walk L w file (FileNode info) st = visit_file L w file info st"
| "walk L w file (DirNode fault entries) st =
    (if ignore_Match L (wa_ignore w) file then (st, None)
     else case fault of
       Some (Fault err) \<Rightarrow> (st, Some err)
     | _ \<Rightarrow> walk_entries L w file entries st)"
| "walk_entries L w dir [] st = (st, None)"
| "walk_entries L w dir ((name, node) # rest) st = (case walk L w (pl_join L dir name) node st of
     (st, Some err) \<Rightarrow> (st, Some err)
   | (st, None) \<Rightarrow> walk_entries L w dir rest st)"

definition scan :: "path_lib \<Rightarrow> watcher \<Rightarrow> fs_tree \<Rightarrow> goerr list \<times> snapshot result" where
  "scan L w tree = (case tree of
     NoTree Gone \<Rightarrow> (wa_errors w, Inr [])
   | NoTree (Fault err) \<Rightarrow> (wa_errors w, Inl err)
   | Tree node \<Rightarrow> (case walk L w (wa_root w) node ([], wa_errors w) of
         ((snap, errs), Some err) \<Rightarrow> (errs, Inl err)
       | ((snap, errs), None) \<Rightarrow> (errs, Inr snap)))"

text \<open>
  The paths that a scan reports: those of the current snapshot that are new or different, then
  those that are gone. A map is walked in no fixed order, which \<open>order\<close> gives.
\<close>

definition changed_paths :: "snapshot \<Rightarrow> snapshot \<Rightarrow> string list" where
  "changed_paths old cur =
     map fst (filter (\<lambda>(file, fp). map_of old file \<noteq> Some fp) cur) @
     filter (\<lambda>file. map_of cur file = None) (keys old)"

definition scanForChanges :: "path_lib \<Rightarrow> (string list \<Rightarrow> string list) \<Rightarrow> fs_tree \<Rightarrow> watcher \<Rightarrow> watcher" where
  "scanForChanges L order tree w = (case scan L w tree of
     (errs, Inl err) \<Rightarrow> w\<lparr>wa_errors := reportError err errs\<rparr>
   | (errs, Inr cur) \<Rightarrow> w\<lparr>wa_errors := errs, wa_snapshot := cur,
       wa_changes := foldl (\<lambda>changes file. reportChange file changes) (wa_changes w) (order (changed_paths (wa_snapshot w) cur))\<rparr>)"

section \<open>Creation\<close>

definition normalize_pattern :: "string \<Rightarrow> string" where
  "normalize_pattern pattern =
     trim_prefix (map (\<lambda>c. if c = CHR 0x5C then CHR ''/'' else c) (trim_space pattern)) ''./''"

fun watch_patterns :: "path_lib \<Rightarrow> string list \<Rightarrow> string list result" where
  "watch_patterns L [] = Inr []"
| "watch_patterns L (pattern # rest) =
    (let pattern = normalize_pattern pattern
     in if pl_match L pattern [] = None \<or> pattern = [] \<or> has_prefix pattern ''/'' \<or> ''..'' \<in> set (split_byte (CHR ''/'') pattern)
        then Inl (Opaque (''invalid watch pattern '' @ pattern @ '': use a relative path or filename pattern''))
        else case watch_patterns L rest of Inl err \<Rightarrow> Inl err | Inr ps \<Rightarrow> Inr (pattern # ps))"

definition NewWatcher :: "path_lib \<Rightarrow> string \<Rightarrow> string list \<Rightarrow> string list \<Rightarrow> fs_tree \<Rightarrow> watcher result" where
  "NewWatcher L dir excludes patterns tree = (case pl_abs L dir of
     Inl err \<Rightarrow> Inl err
   | Inr absolute \<Rightarrow> (case watch_patterns L patterns of
       Inl err \<Rightarrow> Inl err
     | Inr ps \<Rightarrow>
         let w = \<lparr>wa_root = absolute, wa_ignore = newIgnoreMatcher L absolute excludes, wa_patterns = ps,
                   wa_snapshot = [], wa_changes = [], wa_errors = []\<rparr>
         in case scan L w tree of
              (errs, Inl err) \<Rightarrow> Inl err
            | (errs, Inr snap) \<Rightarrow> Inr (w\<lparr>wa_errors := errs, wa_snapshot := snap\<rparr>)))"

end
