(* ===== verification/DevRunner.thy ===== *)
theory DevRunner
  imports Errors "HOL-Library.Word"
begin

text \<open>
  The runner of the development loop: its configuration (\<open>internal/dev/config.go\<close>), the builder and the
  resolution of a package (\<open>builder.go\<close>), the child process (\<open>process.go\<close>) and the replacement of the
  application (\<open>runner.go\<close>). The answers of the operating system are parameters. \<open>os.Remove\<close> is taken
  to succeed, as the code ignores its error.
\<close>

section \<open>Configuration\<close>

text \<open>What \<open>os.Stat\<close> answers. Readers, writers and environments are identities.\<close>

datatype stat_answer = NotExist | StatError goerr | IsDirectory | IsFile

record dev_config =
  dc_Root :: string
  dc_Target :: string
  dc_AppArgs :: "string list"
  dc_Debounce :: int
  dc_RestartTimeout :: int
  dc_Excludes :: "string list"
  dc_WatchPatterns :: "string list"
  dc_Verbose :: bool
  dc_Stdin :: "nat option"
  dc_Stdout :: "nat option"
  dc_Stderr :: "nat option"
  dc_Env :: "string list option"

record os_lib =
  os_Getwd :: "string result"
  os_Abs :: "string \<Rightarrow> string result"
  os_Stat :: "string \<Rightarrow> stat_answer"
  os_Stdin :: nat
  os_Stdout :: nat
  os_Stderr :: nat
  os_Environ :: "string list"

definition DefaultDebounce :: int where "DefaultDebounce = 250000000"
definition DefaultRestartTimeout :: int where "DefaultRestartTimeout = 3000000000"

definition set_default :: "'a \<Rightarrow> 'a option \<Rightarrow> 'a option" where
  "set_default d x = (case x of None \<Rightarrow> Some d | Some y \<Rightarrow> Some y)"

definition fill_defaults :: "os_lib \<Rightarrow> string \<Rightarrow> dev_config \<Rightarrow> dev_config" where
  "fill_defaults O' dir cfg = cfg\<lparr>dc_Root := dir,
     dc_Target := (if dc_Target cfg = [] then ''.'' else dc_Target cfg),
     dc_Debounce := (if dc_Debounce cfg \<le> 0 then DefaultDebounce else dc_Debounce cfg),
     dc_RestartTimeout := (if dc_RestartTimeout cfg \<le> 0 then DefaultRestartTimeout else dc_RestartTimeout cfg),
     dc_Stdin := set_default (os_Stdin O') (dc_Stdin cfg),
     dc_Stdout := set_default (os_Stdout O') (dc_Stdout cfg),
     dc_Stderr := set_default (os_Stderr O') (dc_Stderr cfg),
     dc_Env := set_default (os_Environ O') (dc_Env cfg)\<rparr>"

definition withDefaults :: "os_lib \<Rightarrow> dev_config \<Rightarrow> dev_config result" where
  "withDefaults O' cfg = (case (if dc_Root cfg = [] then os_Getwd O' else Inr (dc_Root cfg)) of
     Inl err \<Rightarrow> Inl err
   | Inr dir \<Rightarrow> (case os_Abs O' dir of
       Inl err \<Rightarrow> Inl (Wrapf ''resolve project root: '' err)
     | Inr absolute \<Rightarrow> (case os_Stat O' absolute of
         NotExist \<Rightarrow> Inl (Wrapf ''inspect project root: '' (Opaque ''file does not exist''))
       | StatError err \<Rightarrow> Inl (Wrapf ''inspect project root: '' err)
       | IsFile \<Rightarrow> Inl (Opaque (''project root is not a directory: '' @ absolute))
       | IsDirectory \<Rightarrow> Inr (fill_defaults O' absolute cfg))))"

section \<open>Resolving a package\<close>

text \<open>
  A cleaned absolute path is the list of its elements, the last one first, so that \<open>filepath.Dir\<close> is
  the tail and \<open>filepath.Rel\<close> from an ancestor drops it. The loop ends at the root of the file system, the
  empty list.
\<close>

fun show_path :: "string list \<Rightarrow> string" where
  "show_path [] = ''/''"
| "show_path [x] = ''/'' @ x"
| "show_path (x # y # xs) = show_path (y # xs) @ ''/'' @ x"

text \<open>The result \<open>None\<close> is the end of the loop without a module; \<open>below\<close> are the elements of the candidate below the directory.\<close>

fun find_module :: "(string list \<Rightarrow> stat_answer) \<Rightarrow> string list \<Rightarrow> string list \<Rightarrow> (string list \<times> string list) option result" where
  "find_module stat directory below = (case stat (''go.mod'' # directory) of
     IsFile \<Rightarrow> Inr (Some (directory, below))
   | StatError err \<Rightarrow> Inl (Wrapf ''inspect Go module: '' err)
   | _ \<Rightarrow> (case directory of [] \<Rightarrow> Inr None | x # parent \<Rightarrow> find_module stat parent (x # below)))"

text \<open>\<open>locate\<close> joins a target to the absolute root and cleans it, with \<open>IsAbs\<close>.\<close>

definition ResolvePackage :: "string result \<Rightarrow> (string \<Rightarrow> string result) \<Rightarrow> (string list \<Rightarrow> stat_answer) \<Rightarrow>
    (string \<Rightarrow> string \<Rightarrow> string list) \<Rightarrow> string \<Rightarrow> string \<Rightarrow> (string \<times> string) result" where
  "ResolvePackage getwd makeAbsolute stat locate dir target =
    (case (if dir = [] then getwd else Inr dir) of
       Inl err \<Rightarrow> Inl (Wrapf ''resolve working directory: '' err)
     | Inr dir \<Rightarrow> (case makeAbsolute dir of
         Inl err \<Rightarrow> Inl (Wrapf ''resolve package root: '' err)
       | Inr absolute \<Rightarrow>
           let target = (if target = [] then ''.'' else target);
               candidate = locate absolute target
           in case stat candidate of
                NotExist \<Rightarrow> Inr (absolute, target)
              | StatError err \<Rightarrow> Inl (Wrapf ''inspect package target: '' err)
              | IsFile \<Rightarrow> Inr (absolute, target)
              | IsDirectory \<Rightarrow> (case find_module stat candidate [] of
                    Inl err \<Rightarrow> Inl err
                  | Inr None \<Rightarrow> Inr (absolute, target)
                  | Inr (Some (directory, [])) \<Rightarrow> Inr (show_path directory, ''.'')
                  | Inr (Some (directory, below)) \<Rightarrow> Inr (show_path directory, ''./'' @ join_with ''/'' below))))"

section \<open>State\<close>

text \<open>
  The runner with what is left of it outside: the executables on disk, the processes that have not
  exited and the number of the next process. \<open>dr_armed\<close> is the debounce timer.
\<close>

record dev_runner =
  dr_sequence :: "64 word"
  dr_process :: "nat option"
  dr_binary :: string
  dr_armed :: bool
  dr_files :: "string list"
  dr_alive :: "nat list"
  dr_next :: nat

definition remove_file :: "string \<Rightarrow> dev_runner \<Rightarrow> dev_runner" where
  "remove_file file r = r\<lparr>dr_files := filter (\<lambda>f. f \<noteq> file) (dr_files r)\<rparr>"

text \<open>Writing a line of output, named by its fixed part, gives an error or not.\<close>

type_synonym dev_output = "string \<Rightarrow> goerr option"

section \<open>Building\<close>

text \<open>\<open>be_path\<close> gives the output path for the number of a build, from the process, the time and the number.\<close>

record build_env =
  be_resolve :: "(string \<times> string) result"
  be_mkdir :: "goerr option"
  be_path :: "64 word \<Rightarrow> string"
  be_go :: "goerr option"

definition pad6 :: "nat \<Rightarrow> string" where
  "pad6 n = replicate (6 - length (show_nat n)) (CHR ''0'') @ show_nat n"

definition executable_name :: "nat \<Rightarrow> int \<Rightarrow> bool \<Rightarrow> 64 word \<Rightarrow> string" where
  "executable_name pid now windows n =
     ''app-'' @ show_nat pid @ ''-'' @ show_int now @ ''-'' @ pad6 (unat n) @ (if windows then ''.exe'' else [])"

definition builder_Build :: "build_env \<Rightarrow> dev_output \<Rightarrow> string \<Rightarrow> dev_runner \<Rightarrow> dev_runner \<times> string result" where
  "builder_Build E out target r = (case be_resolve E of
     Inl err \<Rightarrow> (r, Inl err)
   | Inr _ \<Rightarrow> (case be_mkdir E of
       Some err \<Rightarrow> (r, Inl (Wrapf ''create build directory: '' err))
     | None \<Rightarrow>
         let r = r\<lparr>dr_sequence := dr_sequence r + 1\<rparr>; path = be_path E (dr_sequence r)
         in case out (''[vial] building '' @ target) of
              Some err \<Rightarrow> (r, Inl (Wrapf ''write build status: '' err))
            | None \<Rightarrow> (case be_go E of
                Some err \<Rightarrow> (remove_file path r, Inl (Wrapf ''go build: '' err))
              | None \<Rightarrow>
                  let r = r\<lparr>dr_files := path # filter (\<lambda>f. f \<noteq> path) (dr_files r)\<rparr>
                  in case out ''[vial] build successful'' of
                       Some err \<Rightarrow> (remove_file path r, Inl (Wrapf ''write build status: '' err))
                     | None \<Rightarrow> (r, Inr path))))"

section \<open>Processes\<close>

text \<open>
  What \<open>Stop\<close> meets: whether the process has exited already, whether it exits on the interrupt in time, the answer
  to the kill (with whether it is \<open>os.ErrProcessDone\<close>), and whether it exits after it in time.
\<close>

record stop_env =
  so_done :: bool
  so_exits :: bool
  so_kill :: "(bool \<times> goerr) option"
  so_killed :: bool

definition process_Stop :: "stop_env \<Rightarrow> goerr option" where
  "process_Stop S = (if so_done S then None else if so_exits S then None
     else case so_kill S of
       Some (False, err) \<Rightarrow> Some (Wrapf ''kill application process: '' err)
     | _ \<Rightarrow> if so_killed S then None else Some (Opaque ''application process did not exit after kill''))"

text \<open>The process \<open>p\<close> has exited when \<open>Stop\<close> gives no error.\<close>

definition stop_process :: "stop_env \<Rightarrow> nat \<Rightarrow> dev_runner \<Rightarrow> dev_runner \<times> goerr option" where
  "stop_process S p r = (case process_Stop S of
     None \<Rightarrow> (r\<lparr>dr_alive := filter (\<lambda>q. q \<noteq> p) (dr_alive r)\<rparr>, None)
   | Some err \<Rightarrow> (r, Some err))"

text \<open>An executable that is not on disk does not start.\<close>

definition StartProcess :: "goerr option \<Rightarrow> string \<Rightarrow> dev_runner \<Rightarrow> dev_runner \<times> nat result" where
  "StartProcess answer executable r =
    (if executable \<notin> set (dr_files r) then (r, Inl (Wrapf ''start application: '' (Opaque ''no such file or directory'')))
     else case answer of
       Some err \<Rightarrow> (r, Inl (Wrapf ''start application: '' err))
     | None \<Rightarrow> (r\<lparr>dr_alive := dr_next r # dr_alive r, dr_next := dr_next r + 1\<rparr>, Inr (dr_next r)))"

section \<open>Replacing the application\<close>

record swap_env =
  sw_build :: build_env
  sw_stop :: stop_env
  sw_start :: "goerr option"
  sw_restore :: "goerr option"

definition write_output :: "dev_output \<Rightarrow> string \<Rightarrow> goerr option \<Rightarrow> goerr option" where
  "write_output out line outputErr = (case out line of None \<Rightarrow> outputErr
   | Some err \<Rightarrow> errors_Join [outputErr, Some (Wrapf ''write runner output: '' err)])"

text \<open>The branch of a new application that does not start.\<close>

definition restore_previous :: "swap_env \<Rightarrow> dev_output \<Rightarrow> string \<Rightarrow> dev_runner \<times> goerr option \<Rightarrow> dev_runner \<times> goerr option" where
  "restore_previous E out oldBinary st = (case st of (r, outputErr) \<Rightarrow>
     if oldBinary \<noteq> [] then
       let outputErr = write_output out ''[vial] attempting to restore previous application'' outputErr
       in case StartProcess (sw_restore E) oldBinary r of
            (r, Inl err) \<Rightarrow> (r, write_output out ''[vial] restore failed'' outputErr)
          | (r, Inr p) \<Rightarrow> (r\<lparr>dr_process := Some p, dr_binary := oldBinary\<rparr>, outputErr)
     else (r, outputErr))"

text \<open>The part after the build: \<open>None\<close> of the first result when the previous application could not be stopped.\<close>

definition stop_previous :: "swap_env \<Rightarrow> dev_output \<Rightarrow> dev_runner \<times> goerr option \<Rightarrow> (dev_runner \<times> goerr option) \<times> bool" where
  "stop_previous E out st = (case st of (r, outputErr) \<Rightarrow> (case dr_process r of
     None \<Rightarrow> ((r, outputErr), True)
   | Some p \<Rightarrow>
       let outputErr = write_output out ''[vial] stopping previous application'' outputErr
       in case stop_process (sw_stop E) p r of
            (r, Some err) \<Rightarrow> ((r, write_output out ''[vial] could not stop previous application'' outputErr), False)
          | (r, None) \<Rightarrow> ((r\<lparr>dr_process := None, dr_binary := []\<rparr>, outputErr), True)))"

definition start_candidate :: "swap_env \<Rightarrow> dev_output \<Rightarrow> string \<Rightarrow> string \<Rightarrow> dev_runner \<times> goerr option \<Rightarrow> dev_runner \<times> goerr option" where
  "start_candidate E out candidate oldBinary st = (case st of (r, outputErr) \<Rightarrow>
     (case StartProcess (sw_start E) candidate r of
        (r, Inl err) \<Rightarrow>
          restore_previous E out oldBinary
            (remove_file candidate r, write_output out ''[vial] could not start new application'' outputErr)
      | (r, Inr p) \<Rightarrow>
          let r = r\<lparr>dr_process := Some p, dr_binary := candidate\<rparr>;
              outputErr = write_output out ''[vial] application started'' outputErr
          in (if oldBinary \<noteq> [] \<and> oldBinary \<noteq> candidate then remove_file oldBinary r else r, outputErr)))"

definition rebuildAndSwap :: "swap_env \<Rightarrow> dev_output \<Rightarrow> string \<Rightarrow> dev_runner \<Rightarrow> dev_runner \<times> goerr option" where
  "rebuildAndSwap E out target r = (case builder_Build (sw_build E) out target r of
     (r, Inl err) \<Rightarrow> (r, write_output out ''[vial] build failed; last successful application remains running'' None)
   | (r, Inr candidate) \<Rightarrow>
       let oldBinary = dr_binary r
       in case stop_previous E out (r, None) of
            ((r, outputErr), False) \<Rightarrow> (remove_file candidate r, outputErr)
          | (st, True) \<Rightarrow> start_candidate E out candidate oldBinary st)"

section \<open>The loop\<close>

text \<open>One function for each case of the \<open>select\<close>; an error ends the loop.\<close>

definition on_change :: "bool \<Rightarrow> dev_output \<Rightarrow> string \<Rightarrow> dev_runner \<Rightarrow> dev_runner \<times> goerr option" where
  "on_change verbose out file r =
    (case (if verbose then out (''[vial] change detected: '' @ file) else None) of
       Some err \<Rightarrow> (r, Some (Wrapf ''write runner status: '' err))
     | None \<Rightarrow> (r\<lparr>dr_armed := True\<rparr>, None))"

definition begin_rebuild :: "dev_output \<Rightarrow> dev_runner \<Rightarrow> dev_runner \<times> goerr option" where
  "begin_rebuild out r = (r\<lparr>dr_armed := False\<rparr>,
     map_option (Wrapf ''write runner status: '') (out ''[vial] source change detected; rebuilding''))"

definition on_debounce :: "swap_env \<Rightarrow> dev_output \<Rightarrow> string \<Rightarrow> dev_runner \<Rightarrow> dev_runner \<times> goerr option" where
  "on_debounce E out target r = (case begin_rebuild out r of
     (r, Some err) \<Rightarrow> (r, Some err) | (r, None) \<Rightarrow> rebuildAndSwap E out target r)"

definition on_watch_error :: "dev_output \<Rightarrow> goerr option \<Rightarrow> dev_runner \<Rightarrow> dev_runner \<times> goerr option" where
  "on_watch_error out err r = (case err of None \<Rightarrow> (r, None)
   | Some _ \<Rightarrow> (r, map_option (Wrapf ''write runner error: '') (out ''[vial] watcher error'')))"

definition on_exit :: "dev_output \<Rightarrow> goerr option \<Rightarrow> dev_runner \<Rightarrow> dev_runner \<times> goerr option" where
  "on_exit out err r =
    (let written = (case err of
         Some _ \<Rightarrow> map_option (Wrapf ''write runner error: '') (out ''[vial] application exited with an error'')
       | None \<Rightarrow> map_option (Wrapf ''write runner status: '') (out ''[vial] application exited''))
     in case written of
          Some err \<Rightarrow> (r, Some err)
        | None \<Rightarrow>
            let exitedBinary = dr_binary r; r = r\<lparr>dr_process := None, dr_binary := []\<rparr>
            in (if exitedBinary \<noteq> [] then remove_file exitedBinary r else r, None))"

definition stopCurrent :: "stop_env \<Rightarrow> dev_output \<Rightarrow> dev_runner \<Rightarrow> dev_runner \<times> goerr option" where
  "stopCurrent S out r = (case dr_process r of None \<Rightarrow> (r, None)
   | Some p \<Rightarrow>
       let stopErr = errors_Join [None, map_option (Wrapf ''write runner status: '') (out ''[vial] stopping application'')]
       in case stop_process S p r of (r, err) \<Rightarrow>
            let stopErr = (case err of None \<Rightarrow> stopErr
                  | Some err \<Rightarrow>
                      let stopErr = errors_Join [stopErr, Some (Wrapf ''stop application: '' err)]
                      in case out ''[vial] stop failed'' of None \<Rightarrow> stopErr
                         | Some writeErr \<Rightarrow> errors_Join [stopErr, Some (Wrapf ''write runner error: '' writeErr)]);
                r = (if dr_binary r \<noteq> [] then remove_file (dr_binary r) r else r)
            in (r\<lparr>dr_process := None, dr_binary := []\<rparr>, stopErr))"

text \<open>What \<open>Run\<close> returns when the loop or the first build ended with \<open>err\<close>; \<open>Close\<close> of the watcher gives no error.\<close>

definition end_Run :: "stop_env \<Rightarrow> dev_output \<Rightarrow> goerr option \<Rightarrow> dev_runner \<Rightarrow> dev_runner \<times> goerr option" where
  "end_Run S out err r = (case stopCurrent S out r of (r, stopErr) \<Rightarrow> (r, errors_Join [errors_Join [err, stopErr], None]))"

section \<open>Lemmas\<close>

lemma remove_file_simps [simp]:
  "dr_process (remove_file f r) = dr_process r" "dr_binary (remove_file f r) = dr_binary r"
  "dr_alive (remove_file f r) = dr_alive r" "dr_next (remove_file f r) = dr_next r" "dr_armed (remove_file f r) = dr_armed r"
  "set (dr_files (remove_file f r)) = set (dr_files r) - {f}"
  by (auto simp: remove_file_def)

text \<open>
  What holds of the runner between two cases of the loop: the only process that may be alive is its
  own; process numbers are fresh; and the executable of its process is on disk.
\<close>

definition runner_inv :: "dev_runner \<Rightarrow> bool" where
  "runner_inv r \<longleftrightarrow> set (dr_alive r) \<subseteq> set_option (dr_process r) \<and> (dr_process r = None) = (dr_binary r = []) \<and>
     (dr_binary r = [] \<or> dr_binary r \<in> set (dr_files r))"

text \<open>The output path of a build is not empty and is not the executable that is in use.\<close>

definition fresh_path :: "build_env \<Rightarrow> dev_runner \<Rightarrow> bool" where
  "fresh_path E r \<longleftrightarrow> be_path E (dr_sequence r + 1) \<noteq> [] \<and> be_path E (dr_sequence r + 1) \<noteq> dr_binary r"

lemma builder_Build_result:
  assumes "builder_Build E out target r = (r', x)"
  shows "dr_process r' = dr_process r \<and> dr_binary r' = dr_binary r \<and> dr_alive r' = dr_alive r \<and> dr_next r' = dr_next r \<and> dr_armed r' = dr_armed r \<and>
    (case x of
       Inl err \<Rightarrow> set (dr_files r') = set (dr_files r) \<or> set (dr_files r') = set (dr_files r) - {be_path E (dr_sequence r + 1)}
     | Inr path \<Rightarrow> path = be_path E (dr_sequence r + 1) \<and> set (dr_files r') = insert path (set (dr_files r)))"
  using assms by (auto simp: builder_Build_def Let_def split: sum.splits option.splits)

lemma StartProcess_result:
  assumes "StartProcess a file r = (r', x)"
  shows "case x of Inl err \<Rightarrow> r' = r
    | Inr p \<Rightarrow> p = dr_next r \<and> file \<in> set (dr_files r) \<and> r' = r\<lparr>dr_alive := p # dr_alive r, dr_next := p + 1\<rparr>"
  using assms by (auto simp: StartProcess_def split: if_splits option.splits)

text \<open>What a rebuild leaves: which application runs, and which executables stay on disk.\<close>

lemma stop_previous_result:
  assumes "stop_previous E out (r, e) = ((r', e'), ok)" "runner_inv r"
  shows "dr_files r' = dr_files r \<and>
    (if ok then dr_process r' = None \<and> dr_binary r' = [] \<and> dr_alive r' = []
     else dr_process r' = dr_process r \<and> dr_binary r' = dr_binary r \<and> dr_alive r' = dr_alive r \<and> dr_process r \<noteq> None)"
  using assms by (auto simp: stop_previous_def stop_process_def runner_inv_def Let_def filter_empty_conv split: option.splits prod.splits)

lemma start_candidate_result:
  assumes "start_candidate E out candidate oldBinary (r, e) = (r', e')"
    and "dr_process r = None" "dr_binary r = []" "dr_alive r = []" "candidate \<noteq> []" "candidate \<noteq> oldBinary"
    "candidate \<in> set (dr_files r)" "oldBinary = [] \<or> oldBinary \<in> set (dr_files r)"
  shows "runner_inv r' \<and> (sw_start E = None \<or> oldBinary \<noteq> [] \<and> sw_restore E = None \<longrightarrow> (\<exists>p. dr_process r' = Some p \<and> p \<in> set (dr_alive r'))) \<and>
    (if sw_start E = None then dr_binary r' = candidate \<and> set (dr_files r') = set (dr_files r) - (if oldBinary = [] then {} else {oldBinary})
     else set (dr_files r') = set (dr_files r) - {candidate} \<and> (oldBinary \<noteq> [] \<and> sw_restore E = None \<longrightarrow> dr_binary r' = oldBinary) \<and>
       (oldBinary = [] \<or> sw_restore E \<noteq> None \<longrightarrow> dr_process r' = None \<and> dr_binary r' = []))"
proof (cases "sw_start E")
  case None
  with assms have "StartProcess (sw_start E) candidate r = (r\<lparr>dr_alive := [dr_next r], dr_next := dr_next r + 1\<rparr>, Inr (dr_next r))"
    by (simp add: StartProcess_def)
  with assms None show ?thesis
    by (auto simp: start_candidate_def Let_def runner_inv_def remove_file_def split: if_splits)
next
  case (Some err)
  with assms have start: "StartProcess (sw_start E) candidate r = (r, Inl (Wrapf ''start application: '' err))"
    by (simp add: StartProcess_def)
  show ?thesis
  proof (cases "oldBinary = []")
    case True
    with assms Some start show ?thesis
      by (auto simp: start_candidate_def restore_previous_def runner_inv_def)
  next
    case False
    then have "oldBinary \<in> set (dr_files (remove_file candidate r))" using assms by auto
    then have "StartProcess (sw_restore E) oldBinary (remove_file candidate r) = (case sw_restore E of
        Some err \<Rightarrow> (remove_file candidate r, Inl (Wrapf ''start application: '' err))
      | None \<Rightarrow> ((remove_file candidate r)\<lparr>dr_alive := [dr_next r], dr_next := dr_next r + 1\<rparr>, Inr (dr_next r)))"
      using assms by (cases "sw_restore E") (simp_all add: StartProcess_def)
    with False assms Some start show ?thesis
      by (auto simp: start_candidate_def restore_previous_def runner_inv_def Let_def split: option.splits)
  qed
qed

definition runs :: "dev_runner \<Rightarrow> bool" where
  "runs r \<longleftrightarrow> (\<exists>p. dr_process r = Some p \<and> p \<in> set (dr_alive r))"

text \<open>The executables that are on disk without being in use.\<close>

definition stale :: "dev_runner \<Rightarrow> string set" where
  "stale r = set (dr_files r) - {dr_binary r} - {[]}"

lemma rebuild_result:
  assumes "rebuildAndSwap E out target r = (r', e)" "runner_inv r" "fresh_path (sw_build E) r"
  shows "runner_inv r' \<and> (runs r \<and> (sw_start E = None \<or> sw_restore E = None) \<longrightarrow> runs r') \<and>
    (sw_start E = None \<or> sw_restore E = None \<longrightarrow> stale r' \<subseteq> stale r)"
proof -
  let ?c = "be_path (sw_build E) (dr_sequence r + 1)"
  obtain r1 x where 1: "builder_Build (sw_build E) out target r = (r1, x)" by fastforce
  note b = builder_Build_result [OF 1]
  have c: "?c \<noteq> []" "?c \<noteq> dr_binary r" using assms(3) by (auto simp: fresh_path_def)
  show ?thesis
  proof (cases x)
    case (Inl err)
    with assms(1) 1 have "r' = r1" by (simp add: rebuildAndSwap_def)
    with b Inl c assms(2) show ?thesis by (auto simp: runner_inv_def runs_def stale_def)
  next
    case (Inr path)
    with b have path: "path = ?c" "set (dr_files r1) = insert ?c (set (dr_files r))" by simp_all
    have inv1: "runner_inv r1" using assms(2) b path by (auto simp: runner_inv_def)
    obtain r2 e2 ok where 2: "stop_previous E out (r1, None) = ((r2, e2), ok)" by (metis surj_pair)
    note s = stop_previous_result [OF 2 inv1]
    show ?thesis
    proof (cases ok)
      case False
      with assms(1) 1 2 Inr path have "r' = remove_file ?c r2" by (simp add: rebuildAndSwap_def Let_def)
      with s False b path c assms(2) show ?thesis by (auto simp: runner_inv_def runs_def stale_def)
    next
      case True
      with assms(1) 1 2 Inr path have st: "start_candidate E out ?c (dr_binary r1) (r2, e2) = (r', e)"
        by (simp add: rebuildAndSwap_def Let_def)
      have "runner_inv r' \<and> (sw_start E = None \<or> dr_binary r1 \<noteq> [] \<and> sw_restore E = None \<longrightarrow> (\<exists>p. dr_process r' = Some p \<and> p \<in> set (dr_alive r'))) \<and>
        (if sw_start E = None then dr_binary r' = ?c \<and> set (dr_files r') = set (dr_files r2) - (if dr_binary r1 = [] then {} else {dr_binary r1})
         else set (dr_files r') = set (dr_files r2) - {?c} \<and> (dr_binary r1 \<noteq> [] \<and> sw_restore E = None \<longrightarrow> dr_binary r' = dr_binary r1) \<and>
           (dr_binary r1 = [] \<or> sw_restore E \<noteq> None \<longrightarrow> dr_process r' = None \<and> dr_binary r' = []))"
        by (rule start_candidate_result [OF st]) (use s True c b path inv1 in \<open>auto simp: runner_inv_def\<close>)
      moreover have "runs r \<Longrightarrow> dr_binary r1 \<noteq> []" using assms(2) b by (auto simp: runs_def runner_inv_def)
      ultimately show ?thesis using s True b path c by (auto simp: runs_def stale_def split: if_splits)
    qed
  qed
qed

text \<open>The module found is that of the nearest directory, and the two results name the candidate again.\<close>

lemma find_module_nearest:
  assumes "find_module stat directory below = Inr (Some (d, b))"
  shows "rev b @ d = rev below @ directory \<and> stat (''go.mod'' # d) = IsFile \<and>
    (\<forall>n. n < length directory - length d \<longrightarrow> stat (''go.mod'' # drop n directory) \<in> {NotExist, IsDirectory})"
  using assms
proof (induction stat directory below rule: find_module.induct)
  case (1 stat directory below)
  show ?case
  proof (cases "stat (''go.mod'' # directory) = IsFile")
    case True
    with "1.prems" show ?thesis by simp
  next
    case False
    with "1.prems" obtain x parent where dir: "directory = x # parent" "find_module stat parent (x # below) = Inr (Some (d, b))"
      "stat (''go.mod'' # directory) \<in> {NotExist, IsDirectory}"
      by (auto split: stat_answer.splits list.splits)
    then have ih: "rev b @ d = rev (x # below) @ parent \<and> stat (''go.mod'' # d) = IsFile \<and>
        (\<forall>n. n < length parent - length d \<longrightarrow> stat (''go.mod'' # drop n parent) \<in> {NotExist, IsDirectory})"
      using 1(1,2) by (cases "stat (''go.mod'' # directory)") auto
    have "stat (''go.mod'' # drop n directory) \<in> {NotExist, IsDirectory}" if "n < length directory - length d" for n
      using that ih dir(1,3) by (cases n) auto
    with ih dir(1) show ?thesis by simp
  qed
qed

end
