(* ===== verification/DevLoop.thy ===== *)
theory DevLoop
  imports DevWatch DevRunner "HOL-Library.Multiset"
begin

text \<open>
  The development loop: the goroutine of the watcher and the loop of \<open>Run\<close> (\<open>internal/dev/runner.go\<close>) with
  the editor of the sources and the child process beside them, as one step relation.
\<close>

section \<open>The system\<close>

datatype dev_phase = Starting | Rebuilding | Selecting | Ended

text \<open>
  \<open>ds_seen\<close> is the history of what a scan finds in the tree, the newest first, and \<open>ds_built\<close> what it found when the
  last build began; the code has neither.
\<close>

record dev_system =
  ds_tree :: fs_tree
  ds_watcher :: watcher
  ds_runner :: dev_runner
  ds_phase :: dev_phase
  ds_seen :: "(string \<rightharpoonup> fileFingerprint) list"
  ds_built :: "string \<rightharpoonup> fileFingerprint"

definition tree_view :: "path_lib \<Rightarrow> watcher \<Rightarrow> fs_tree \<Rightarrow> (string \<rightharpoonup> fileFingerprint) option" where
  "tree_view L w tree = (case snd (scan L w tree) of Inl _ \<Rightarrow> None | Inr snap \<Rightarrow> Some (map_of snap))"

definition new_runner :: dev_runner where
  "new_runner = \<lparr>dr_sequence = 0, dr_process = None, dr_binary = [], dr_armed = False, dr_files = [], dr_alive = [], dr_next = 0\<rparr>"

text \<open>The end of \<open>Run\<close> closes the watcher: its loop has stopped when \<open>Close\<close> returns.\<close>

definition end_loop :: "stop_env \<Rightarrow> dev_output \<Rightarrow> goerr option \<Rightarrow> dev_system \<Rightarrow> dev_system" where
  "end_loop S out err s = s\<lparr>ds_runner := fst (end_Run S out err (ds_runner s)), ds_phase := Ended\<rparr>"

definition next_phase :: "stop_env \<Rightarrow> dev_output \<Rightarrow> dev_phase \<Rightarrow> dev_runner \<times> goerr option \<Rightarrow> dev_system \<Rightarrow> dev_system" where
  "next_phase S out phase x s = (case x of
     (r, None) \<Rightarrow> s\<lparr>ds_runner := r, ds_phase := phase\<rparr>
   | (r, Some err) \<Rightarrow> end_loop S out (Some err) (s\<lparr>ds_runner := r\<rparr>))"

text \<open>
  An edit that a scan can see gives files that no earlier scan could see: the time of modification
  tells them apart. A scan takes the tree at one moment. \<open>R\<close> are the answers a rebuild can meet.
\<close>

inductive dev_step :: "path_lib \<Rightarrow> bool \<Rightarrow> string \<Rightarrow> (swap_env \<Rightarrow> bool) \<Rightarrow> dev_system \<Rightarrow> dev_system \<Rightarrow> bool"
  for L verbose target R where
  edit: "tree_view L (ds_watcher s) t = Some v \<Longrightarrow> v \<notin> set (ds_seen s) \<Longrightarrow>
    dev_step L verbose target R s (s\<lparr>ds_tree := t, ds_seen := v # ds_seen s\<rparr>)"
| edit_unseen: "tree_view L (ds_watcher s) t = tree_view L (ds_watcher s) (ds_tree s) \<Longrightarrow>
    dev_step L verbose target R s (s\<lparr>ds_tree := t\<rparr>)"
| tick: "ds_phase s \<noteq> Ended \<Longrightarrow> (\<And>xs. mset (order xs) = mset xs) \<Longrightarrow>
    dev_step L verbose target R s (s\<lparr>ds_watcher := scanForChanges L order (ds_tree s) (ds_watcher s)\<rparr>)"
| tick_fails: "ds_phase s \<noteq> Ended \<Longrightarrow> tree_view L (ds_watcher s) t = None \<Longrightarrow>
    dev_step L verbose target R s (s\<lparr>ds_watcher := scanForChanges L order t (ds_watcher s)\<rparr>)"
| first_build: "ds_phase s = Starting \<Longrightarrow>
    dev_step L verbose target R s (s\<lparr>ds_phase := Rebuilding, ds_built := hd (ds_seen s)\<rparr>)"
| built: "ds_phase s = Rebuilding \<Longrightarrow> R E \<Longrightarrow> fresh_path (sw_build E) (ds_runner s) \<Longrightarrow>
    dev_step L verbose target R s (next_phase S out Selecting (rebuildAndSwap E out target (ds_runner s)) s)"
| change: "ds_phase s = Selecting \<Longrightarrow> wa_changes (ds_watcher s) = file # rest \<Longrightarrow>
    dev_step L verbose target R s (next_phase S out Selecting (on_change verbose out file (ds_runner s))
      (s\<lparr>ds_watcher := (ds_watcher s)\<lparr>wa_changes := rest\<rparr>\<rparr>))"
| debounced: "ds_phase s = Selecting \<Longrightarrow> dr_armed (ds_runner s) \<Longrightarrow>
    dev_step L verbose target R s (next_phase S out Rebuilding (begin_rebuild out (ds_runner s)) (s\<lparr>ds_built := hd (ds_seen s)\<rparr>))"
| watch_error: "ds_phase s = Selecting \<Longrightarrow> wa_errors (ds_watcher s) = err # rest \<Longrightarrow>
    dev_step L verbose target R s (next_phase S out Selecting (on_watch_error out (Some err) (ds_runner s))
      (s\<lparr>ds_watcher := (ds_watcher s)\<lparr>wa_errors := rest\<rparr>\<rparr>))"
| process_done: "ds_phase s = Selecting \<Longrightarrow> dr_process (ds_runner s) = Some p \<Longrightarrow> p \<notin> set (dr_alive (ds_runner s)) \<Longrightarrow>
    dev_step L verbose target R s (next_phase S out Selecting (on_exit out err (ds_runner s)) s)"
| cancelled: "ds_phase s = Selecting \<Longrightarrow> dev_step L verbose target R s (end_loop S out None s)"
| exits: "dev_step L verbose target R s
    (s\<lparr>ds_runner := (ds_runner s)\<lparr>dr_alive := filter (\<lambda>q. q \<noteq> p) (dr_alive (ds_runner s))\<rparr>\<rparr>)"

inductive dev_reachable :: "path_lib \<Rightarrow> bool \<Rightarrow> string \<Rightarrow> (swap_env \<Rightarrow> bool) \<Rightarrow> dev_system \<Rightarrow> bool" for L verbose target R where
  start: "NewWatcher L dir excludes patterns tree = Inr w \<Longrightarrow> dev_reachable L verbose target R
     \<lparr>ds_tree = tree, ds_watcher = w, ds_runner = new_runner, ds_phase = Starting, ds_seen = [map_of (wa_snapshot w)], ds_built = Map.empty\<rparr>"
| step: "dev_reachable L verbose target R s \<Longrightarrow> dev_step L verbose target R s s' \<Longrightarrow> dev_reachable L verbose target R s'"

section \<open>What a scan finds\<close>

text \<open>The snapshot of a scan depends on the configuration of the watcher only.\<close>

definition same_config :: "watcher \<Rightarrow> watcher \<Rightarrow> bool" where
  "same_config w w' \<longleftrightarrow> wa_root w' = wa_root w \<and> wa_ignore w' = wa_ignore w \<and> wa_patterns w' = wa_patterns w"

lemma match_patterns_errs: "fst (match_patterns L file relative ps errs) = fst (match_patterns L file relative ps errs')"
  by (induction ps arbitrary: errs errs') (auto simp: Let_def split: option.splits bool.splits)

lemma relevant_errs: "same_config w w' \<Longrightarrow> fst (relevant L w' p errs') = fst (relevant L w p errs)"
  using match_patterns_errs by (auto simp: relevant_def same_config_def split: option.splits)

definition same_result :: "scan_state \<times> goerr option \<Rightarrow> scan_state \<times> goerr option \<Rightarrow> bool" where
  "same_result x y \<longleftrightarrow> fst (fst x) = fst (fst y) \<and> snd x = snd y"

lemma visit_file_errs:
  assumes "same_config w w'" "fst st = fst st'"
  shows "same_result (visit_file L w p info st) (visit_file L w' p info st')"
proof -
  obtain b e where 1: "relevant L w p (snd st) = (b, e)" by fastforce
  obtain b' e' where 2: "relevant L w' p (snd st') = (b', e')" by fastforce
  have "b' = b" using relevant_errs [OF assms(1), of L p "snd st'" "snd st"] 1 2 by simp
  with 1 2 assms show ?thesis
    by (cases b; cases st; cases st')
      (auto simp: visit_file_def same_config_def same_result_def split: sum.splits fs_fault.splits)
qed

lemma walk_errs:
  shows "same_config w w' \<Longrightarrow> fst st = fst st' \<Longrightarrow> same_result (walk L w p node st) (walk L w' p node st')"
    and "same_config w w' \<Longrightarrow> fst st = fst st' \<Longrightarrow> same_result (walk_entries L w p entries st) (walk_entries L w' p entries st')"
proof (induction L w p node st and L w p entries st arbitrary: st' and st' rule: walk_walk_entries.induct)
  case (1 L w p info st)
  then show ?case by (simp add: visit_file_errs)
next
  case (2 L w p fault entries st)
  show ?case
  proof (cases "ignore_Match L (wa_ignore w) p")
    case True
    with 2 show ?thesis by (simp add: same_config_def same_result_def)
  next
    case False
    with 2 show ?thesis
      by (auto simp: same_config_def same_result_def split: option.splits fs_fault.splits)
  qed
next
  case (3 L w p st)
  then show ?case by (simp add: same_result_def)
next
  case (4 L w p name node rest st)
  obtain s1 e1 where 1: "walk L w (pl_join L p name) node st = (s1, e1)" by fastforce
  obtain s2 e2 where 2: "walk L w' (pl_join L p name) node st' = (s2, e2)" by fastforce
  from "4.IH"(1) [OF "4.prems"] 1 2 have e: "e1 = e2" "fst s1 = fst s2" by (simp_all add: same_result_def)
  show ?case
  proof (cases e1)
    case None
    with "4.IH"(2) [OF 1 [symmetric]] "4.prems" e 1 2 show ?thesis by simp
  next
    case (Some err)
    moreover have "e2 = Some err" using e Some by simp
    ultimately show ?thesis using e(2) 1 2 by (simp add: same_result_def)
  qed
qed

lemma scan_errs: "same_config w w' \<Longrightarrow> snd (scan L w tree) = snd (scan L w' tree)"
proof (cases tree)
  case (Tree node)
  assume c: "same_config w w'"
  then have "same_result (walk L w (wa_root w) node ([], wa_errors w)) (walk L w' (wa_root w) node ([], wa_errors w'))"
    by (rule walk_errs(1)) simp
  with c Tree show ?thesis by (auto simp: scan_def same_result_def same_config_def split: prod.splits option.splits)
qed (auto simp: scan_def split: fs_fault.splits)

lemma tree_view_config: "same_config w w' \<Longrightarrow> tree_view L w' tree = tree_view L w tree"
  using scan_errs by (metis tree_view_def)

section \<open>What a scan reports\<close>

lemma changed_paths_view:
  assumes "changed_paths old cur = []"
  shows "map_of old = map_of cur"
proof
  fix p
  have new: "map_of old (fst x) = Some (snd x)" if "x \<in> set cur" for x
    using assms that by (auto simp: changed_paths_def filter_empty_conv)
  have gone: "map_of cur p \<noteq> None" if "p \<in> set (keys old)" for p
    using assms that by (auto simp: changed_paths_def filter_empty_conv)
  show "map_of old p = map_of cur p"
  proof (cases "map_of cur p")
    case None
    then have "p \<notin> set (keys old)" using gone by blast
    then have "map_of old p = None" by (simp add: keys_def map_of_eq_None_iff)
    then show ?thesis using None by simp
  next
    case (Some fp)
    then show ?thesis using new [OF map_of_SomeD [OF Some]] by simp
  qed
qed

lemma report_changes:
  "foldl (\<lambda>changes p. reportChange p changes) q ps = [] \<longleftrightarrow> q = [] \<and> ps = []"
  "length q \<le> changesCapacity \<Longrightarrow> length (foldl (\<lambda>changes p. reportChange p changes) q ps) \<le> changesCapacity"
  by (induction ps arbitrary: q) (auto simp: reportChange_def changesCapacity_def)

lemma scanForChanges_result:
  assumes "\<And>xs. mset (order xs) = mset xs" "length (wa_changes w) \<le> changesCapacity"
  shows "same_config w (scanForChanges L order tree w) \<and> length (wa_changes (scanForChanges L order tree w)) \<le> changesCapacity \<and>
    (case tree_view L w tree of
       None \<Rightarrow> wa_snapshot (scanForChanges L order tree w) = wa_snapshot w \<and> wa_changes (scanForChanges L order tree w) = wa_changes w
     | Some v \<Rightarrow> map_of (wa_snapshot (scanForChanges L order tree w)) = v \<and>
         (wa_changes (scanForChanges L order tree w) = [] \<longrightarrow> wa_changes w = [] \<and> map_of (wa_snapshot w) = v))"
proof -
  obtain errs x where x: "scan L w tree = (errs, x)" by fastforce
  show ?thesis
  proof (cases x)
    case (Inl err)
    with x assms(2) show ?thesis by (simp add: scanForChanges_def tree_view_def same_config_def)
  next
    case (Inr cur)
    have "order ps = [] \<longleftrightarrow> ps = []" for ps using assms(1) [of ps] by auto
    with x Inr assms(2) show ?thesis
      by (auto simp: scanForChanges_def tree_view_def same_config_def report_changes dest: changed_paths_view)
  qed
qed

section \<open>No change is lost\<close>

definition up_to_date :: "dev_system \<Rightarrow> bool" where
  "up_to_date s \<longleftrightarrow> (\<exists>newer older. ds_seen s = newer @ ds_built s # older \<and> map_of (wa_snapshot (ds_watcher s)) \<in> set (ds_built s # older))"

definition quiet :: "dev_system \<Rightarrow> bool" where
  "quiet s \<longleftrightarrow> wa_changes (ds_watcher s) = [] \<and> \<not> dr_armed (ds_runner s)"

definition loop_inv :: "path_lib \<Rightarrow> dev_system \<Rightarrow> bool" where
  "loop_inv L s \<longleftrightarrow> ds_seen s \<noteq> [] \<and> distinct (ds_seen s) \<and> tree_view L (ds_watcher s) (ds_tree s) = Some (hd (ds_seen s)) \<and>
     map_of (wa_snapshot (ds_watcher s)) \<in> set (ds_seen s) \<and> length (wa_changes (ds_watcher s)) \<le> changesCapacity \<and>
     (ds_phase s \<noteq> Starting \<and> ds_phase s \<noteq> Ended \<and> quiet s \<longrightarrow> up_to_date s)"

lemma armed_kept [simp]:
  "dr_armed (fst (rebuildAndSwap E out target r)) = dr_armed r"
  "dr_armed (fst (on_watch_error out err r)) = dr_armed r"
  "dr_armed (fst (on_exit out err r)) = dr_armed r"
proof -
  have stop: "dr_armed (fst (stop_process S p q)) = dr_armed q" for S p q
    by (simp add: stop_process_def split: option.split)
  have start: "dr_armed (fst (StartProcess a f q)) = dr_armed q" for a f q
    by (simp add: StartProcess_def split: option.split)
  have restore: "dr_armed (fst (restore_previous E out b (q, e))) = dr_armed q" for b q e
    using start [of "sw_restore E" b q] by (auto simp: restore_previous_def Let_def split: prod.splits sum.splits)
  have previous: "dr_armed (fst (fst (stop_previous E out (q, e)))) = dr_armed q" for q e
    using stop [of "sw_stop E" _ q] by (auto simp: stop_previous_def Let_def split: prod.splits option.splits) (metis fst_conv)+
  have candidate: "dr_armed (fst (start_candidate E out c b (q, e))) = dr_armed q" for c b q e
    using start [of "sw_start E" c q] by (auto simp: start_candidate_def Let_def restore split: prod.splits sum.splits)
  obtain r1 x where 1: "builder_Build (sw_build E) out target r = (r1, x)" by fastforce
  obtain r2 e2 ok where 2: "stop_previous E out (r1, None) = ((r2, e2), ok)" by (metis surj_pair)
  have "dr_armed r1 = dr_armed r" using builder_Build_result [OF 1] by simp
  moreover have "dr_armed r2 = dr_armed r1" using previous [of r1 None] 2 by simp
  ultimately show "dr_armed (fst (rebuildAndSwap E out target r)) = dr_armed r"
    using candidate [of _ "dr_binary r1" r2 e2] 1 2 by (auto simp: rebuildAndSwap_def Let_def split: sum.splits bool.splits)
  show "dr_armed (fst (on_watch_error out err r)) = dr_armed r" by (simp add: on_watch_error_def split: option.split)
  show "dr_armed (fst (on_exit out err r)) = dr_armed r" by (auto simp: on_exit_def Let_def split: option.split)
qed

lemma next_phase_simps [simp]:
  "ds_tree (next_phase S out ph x s) = ds_tree s" "ds_watcher (next_phase S out ph x s) = ds_watcher s"
  "ds_seen (next_phase S out ph x s) = ds_seen s" "ds_built (next_phase S out ph x s) = ds_built s"
  by (auto simp: next_phase_def end_loop_def split: prod.splits option.splits)

lemma next_phase_runner:
  "ds_phase (next_phase S out ph x s) \<noteq> Ended \<Longrightarrow> snd x = None \<and> ds_runner (next_phase S out ph x s) = fst x \<and> ds_phase (next_phase S out ph x s) = ph"
  by (auto simp: next_phase_def end_loop_def split: prod.splits option.splits)

lemma loop_inv_next:
  assumes "loop_inv L s" "tree_view L w (ds_tree s) = tree_view L (ds_watcher s) (ds_tree s)" "wa_snapshot w = wa_snapshot (ds_watcher s)"
    "length (wa_changes w) \<le> changesCapacity"
    "snd x = None \<Longrightarrow> wa_changes w = [] \<Longrightarrow> \<not> dr_armed (fst x) \<Longrightarrow> up_to_date (s\<lparr>ds_watcher := w, ds_built := b\<rparr>)"
  shows "loop_inv L (next_phase S out ph x (s\<lparr>ds_watcher := w, ds_built := b\<rparr>))"
proof -
  let ?s = "next_phase S out ph x (s\<lparr>ds_watcher := w, ds_built := b\<rparr>)"
  have "up_to_date ?s" if "ds_phase ?s \<noteq> Ended" "quiet ?s"
    using assms(5) that next_phase_runner [OF that(1)] by (simp add: quiet_def up_to_date_def)
  with assms(1-4) show ?thesis by (simp add: loop_inv_def)
qed

lemma scan_fails:
  assumes "tree_view L w t = None"
  shows "same_config w (scanForChanges L order t w) \<and> wa_snapshot (scanForChanges L order t w) = wa_snapshot w \<and>
    wa_changes (scanForChanges L order t w) = wa_changes w"
  using assms by (auto simp: tree_view_def scanForChanges_def same_config_def split: sum.splits prod.splits)

lemma up_to_date_begin: "loop_inv L s \<Longrightarrow> map_of (wa_snapshot w) \<in> set (ds_seen s) \<Longrightarrow> up_to_date (s\<lparr>ds_watcher := w, ds_built := hd (ds_seen s)\<rparr>)"
  unfolding up_to_date_def loop_inv_def by (rule exI [of _ "[]"], rule exI [of _ "tl (ds_seen s)"]) auto

lemma up_to_date_first: "loop_inv L s \<Longrightarrow> up_to_date (s\<lparr>ds_phase := ph, ds_built := hd (ds_seen s)\<rparr>)"
  unfolding up_to_date_def loop_inv_def by (rule exI [of _ "[]"], rule exI [of _ "tl (ds_seen s)"]) auto

lemma loop_inv_step:
  assumes "dev_step L verbose target R s s'" "loop_inv L s"
  shows "loop_inv L s'"
  using assms
proof cases
  case (edit t v)
  have "up_to_date s'" if "up_to_date s"
  proof -
    from that obtain newer older where "ds_seen s = newer @ ds_built s # older"
      "map_of (wa_snapshot (ds_watcher s)) \<in> set (ds_built s # older)" by (auto simp: up_to_date_def)
    then show ?thesis using edit by (auto simp: up_to_date_def intro: exI [of _ "v # newer"])
  qed
  with edit assms(2) show ?thesis by (auto simp: loop_inv_def quiet_def)
next
  case (edit_unseen t)
  with assms(2) show ?thesis by (simp add: loop_inv_def quiet_def up_to_date_def)
next
  case (tick order)
  let ?w = "scanForChanges L order (ds_tree s) (ds_watcher s)"
  have len: "length (wa_changes (ds_watcher s)) \<le> changesCapacity" using assms(2) by (simp add: loop_inv_def)
  have v: "tree_view L (ds_watcher s) (ds_tree s) = Some (hd (ds_seen s))" using assms(2) by (simp add: loop_inv_def)
  from scanForChanges_result [OF tick(3) len, of L "ds_tree s"] v
  have r: "same_config (ds_watcher s) ?w" "length (wa_changes ?w) \<le> changesCapacity" "map_of (wa_snapshot ?w) = hd (ds_seen s)"
    "wa_changes ?w = [] \<Longrightarrow> wa_changes (ds_watcher s) = [] \<and> map_of (wa_snapshot (ds_watcher s)) = hd (ds_seen s)" by simp_all
  have "up_to_date s'" if "quiet s'" "ds_phase s \<noteq> Starting"
  proof -
    have "quiet s" "map_of (wa_snapshot (ds_watcher s)) = hd (ds_seen s)" using that r(4) tick(1) by (simp_all add: quiet_def)
    with assms(2) that tick have "up_to_date s" by (simp add: loop_inv_def)
    then show ?thesis using tick(1) r(3) \<open>map_of (wa_snapshot (ds_watcher s)) = hd (ds_seen s)\<close> by (simp add: up_to_date_def)
  qed
  with tick r assms(2) tree_view_config [OF r(1)] show ?thesis by (simp add: loop_inv_def)
next
  case (tick_fails t order)
  note same = scan_fails [OF tick_fails(3), of order]
  note view = tree_view_config [OF conjunct1 [OF same], of L "ds_tree s"]
  from same view assms(2) tick_fails show ?thesis by (simp add: loop_inv_def quiet_def up_to_date_def)
next
  case first_build
  with assms(2) up_to_date_first [OF assms(2)] show ?thesis by (simp add: loop_inv_def)
next
  case (built E S out)
  have "loop_inv L (next_phase S out Selecting (rebuildAndSwap E out target (ds_runner s)) (s\<lparr>ds_watcher := ds_watcher s, ds_built := ds_built s\<rparr>))"
    by (rule loop_inv_next) (use built assms(2) in \<open>auto simp: loop_inv_def quiet_def\<close>)
  with built show ?thesis by simp
next
  case (change p rest S out)
  let ?w = "(ds_watcher s)\<lparr>wa_changes := rest\<rparr>"
  have "tree_view L ?w (ds_tree s) = tree_view L (ds_watcher s) (ds_tree s)" by (rule tree_view_config) (simp add: same_config_def)
  moreover have "snd (on_change verbose out p (ds_runner s)) = None \<Longrightarrow> dr_armed (fst (on_change verbose out p (ds_runner s)))"
    by (auto simp: on_change_def split: option.splits)
  ultimately have "loop_inv L (next_phase S out Selecting (on_change verbose out p (ds_runner s)) (s\<lparr>ds_watcher := ?w, ds_built := ds_built s\<rparr>))"
    by (intro loop_inv_next) (use change assms(2) in \<open>auto simp: loop_inv_def\<close>)
  with change show ?thesis by simp
next
  case (debounced S out)
  have "loop_inv L (next_phase S out Rebuilding (begin_rebuild out (ds_runner s)) (s\<lparr>ds_watcher := ds_watcher s, ds_built := hd (ds_seen s)\<rparr>))"
    by (rule loop_inv_next [OF assms(2)])
      (use debounced assms(2) up_to_date_begin [OF assms(2), of "ds_watcher s"] in \<open>auto simp: loop_inv_def\<close>)
  with debounced show ?thesis by simp
next
  case (watch_error err rest S out)
  let ?w = "(ds_watcher s)\<lparr>wa_errors := rest\<rparr>"
  have "tree_view L ?w (ds_tree s) = tree_view L (ds_watcher s) (ds_tree s)" by (rule tree_view_config) (simp add: same_config_def)
  then have "loop_inv L (next_phase S out Selecting (on_watch_error out (Some err) (ds_runner s)) (s\<lparr>ds_watcher := ?w, ds_built := ds_built s\<rparr>))"
    by (intro loop_inv_next) (use watch_error assms(2) in \<open>auto simp: loop_inv_def quiet_def up_to_date_def\<close>)
  with watch_error show ?thesis by simp
next
  case (process_done p S out err)
  have "loop_inv L (next_phase S out Selecting (on_exit out err (ds_runner s)) (s\<lparr>ds_watcher := ds_watcher s, ds_built := ds_built s\<rparr>))"
    by (rule loop_inv_next) (use process_done assms(2) in \<open>auto simp: loop_inv_def quiet_def\<close>)
  with process_done show ?thesis by simp
next
  case (cancelled S out)
  with assms(2) show ?thesis by (simp add: loop_inv_def end_loop_def)
next
  case (exits p)
  with assms(2) show ?thesis by (simp add: loop_inv_def quiet_def up_to_date_def)
qed

lemma NewWatcher_view:
  assumes "NewWatcher L dir excludes patterns tree = Inr w"
  shows "tree_view L w tree = Some (map_of (wa_snapshot w)) \<and> wa_changes w = []"
proof -
  from assms obtain w0 errs snap where w: "scan L w0 tree = (errs, Inr snap)" "w = w0\<lparr>wa_errors := errs, wa_snapshot := snap\<rparr>" "wa_changes w0 = []"
    by (auto simp: NewWatcher_def Let_def split: sum.splits prod.splits)
  have "same_config w0 w" using w(2) by (simp add: same_config_def)
  from tree_view_config [OF this, of L tree] w show ?thesis by (simp add: tree_view_def)
qed

lemma reachable_loop_inv: "dev_reachable L verbose target R s \<Longrightarrow> loop_inv L s"
proof (induction rule: dev_reachable.induct)
  case (start dir excludes patterns tree w)
  from NewWatcher_view [OF start] show ?case by (simp add: loop_inv_def changesCapacity_def)
next
  case (step s s')
  from loop_inv_step [OF step(2,3)] show ?case .
qed

section \<open>Processes and executables\<close>

definition keep_inv :: "(swap_env \<Rightarrow> bool) \<Rightarrow> dev_system \<Rightarrow> bool" where
  "keep_inv R s \<longleftrightarrow> ds_phase s = Ended \<or> runner_inv (ds_runner s) \<and>
     ((\<forall>E. R E \<longrightarrow> sw_start E = None \<or> sw_restore E = None) \<longrightarrow> stale (ds_runner s) = {})"

lemma keep_inv_next:
  assumes "runner_inv (fst x)" "stale (fst x) \<subseteq> stale (ds_runner s)" "keep_inv R s" "ds_phase s \<noteq> Ended"
  shows "keep_inv R (next_phase S out ph x s')"
  using assms next_phase_runner [of S out ph x s'] by (auto simp: keep_inv_def)

lemma runner_inv_armed [simp]:
  "runner_inv (r\<lparr>dr_armed := b\<rparr>) = runner_inv r" "stale (r\<lparr>dr_armed := b\<rparr>) = stale r"
  by (simp_all add: runner_inv_def stale_def)

lemma on_exit_inv:
  assumes "runner_inv r" "dr_process r = Some p" "p \<notin> set (dr_alive r)"
  shows "runner_inv (fst (on_exit out err r)) \<and> stale (fst (on_exit out err r)) \<subseteq> stale r"
proof -
  have "dr_alive r = []" using assms by (cases "dr_alive r") (auto simp: runner_inv_def)
  with assms show ?thesis by (auto simp: on_exit_def Let_def runner_inv_def stale_def split: option.splits)
qed

lemma keep_inv_step:
  assumes "dev_step L verbose target R s s'" "keep_inv R s"
  shows "keep_inv R s'"
  using assms
proof cases
  case (built E S out)
  obtain r' e where r: "rebuildAndSwap E out target (ds_runner s) = (r', e)" by fastforce
  have "runner_inv (ds_runner s)" using built assms(2) by (simp add: keep_inv_def)
  from rebuild_result [OF r this built(4)] built(3) assms(2) built(2) r next_phase_runner [of S out Selecting "(r', e)" s]
  show ?thesis unfolding built(1) r by (auto simp: keep_inv_def)
next
  case (change p rest S out)
  show ?thesis unfolding change(1)
    by (rule keep_inv_next [OF _ _ assms(2)]) (use change assms(2) in \<open>auto simp: keep_inv_def on_change_def split: option.splits\<close>)
next
  case (debounced S out)
  show ?thesis unfolding debounced(1)
    by (rule keep_inv_next [OF _ _ assms(2)]) (use debounced assms(2) in \<open>auto simp: keep_inv_def begin_rebuild_def\<close>)
next
  case (watch_error err rest S out)
  show ?thesis unfolding watch_error(1)
    by (rule keep_inv_next [OF _ _ assms(2)]) (use watch_error assms(2) in \<open>auto simp: keep_inv_def on_watch_error_def\<close>)
next
  case (process_done p S out err)
  then have "runner_inv (ds_runner s)" using assms(2) by (simp add: keep_inv_def)
  from on_exit_inv [OF this process_done(3,4), of out err] show ?thesis unfolding process_done(1)
    by (intro keep_inv_next [OF _ _ assms(2)]) (use process_done in auto)
next
  case (exits p)
  with assms(2) show ?thesis by (auto simp: keep_inv_def runner_inv_def stale_def)
qed (auto simp: keep_inv_def end_loop_def)

lemma reachable_keep_inv: "dev_reachable L verbose target R s \<Longrightarrow> keep_inv R s"
proof (induction rule: dev_reachable.induct)
  case (step s s')
  from keep_inv_step [OF step(2,3)] show ?case .
qed (simp add: keep_inv_def new_runner_def runner_inv_def stale_def)

section \<open>Properties\<close>

definition demo_paths :: path_lib where
  "demo_paths = \<lparr>pl_clean = (\<lambda>p. p), pl_rel = (\<lambda>d p. Some (if p = d then ''.'' else drop (length d + 1) p)),
     pl_base = (\<lambda>p. last (split_byte (CHR ''/'') p)), pl_ext = (\<lambda>p. ''.'' @ last (split_byte (CHR ''.'') p)),
     pl_join = (\<lambda>d n. d @ ''/'' @ n), pl_abs = Inr, pl_match = (\<lambda>_ _. None)\<rparr>"

definition demo_tree :: "int \<Rightarrow> fs_tree" where
  "demo_tree time = Tree (DirNode None [(''main.go'', FileNode (Inr \<lparr>ff_size = 1, ff_modifiedAt = time, ff_mode = 0\<rparr>))])"

definition demo_watcher :: watcher where
  "demo_watcher = \<lparr>wa_root = ''/p'', wa_ignore = \<lparr>im_root = ''/p'', im_extras = []\<rparr>, wa_patterns = [],
     wa_snapshot = [(''/p/main.go'', \<lparr>ff_size = 1, ff_modifiedAt = 7, ff_mode = 0\<rparr>)], wa_changes = [], wa_errors = []\<rparr>"

definition demo_swap :: swap_env where
  "demo_swap = \<lparr>sw_build = \<lparr>be_resolve = Inr (''/p'', ''.''), be_mkdir = None, be_path = (\<lambda>n. if n = 1 then ''app-1'' else ''app-2''), be_go = None\<rparr>,
     sw_stop = \<lparr>so_done = False, so_exits = True, so_kill = None, so_killed = False\<rparr>, sw_start = None, sw_restore = None\<rparr>"

lemma demo_rules:
  "ignore_Match demo_paths \<lparr>im_root = ''/p'', im_extras = []\<rparr> ''/p'' = False"
  "ignore_Match demo_paths \<lparr>im_root = ''/p'', im_extras = []\<rparr> ''/p/main.go'' = False"
  "isRelevantSource demo_paths ''/p/main.go'' = True"
  by code_simp+

lemma demo_scan:
  assumes "wa_root w = ''/p''" "wa_ignore w = \<lparr>im_root = ''/p'', im_extras = []\<rparr>"
  shows "scan demo_paths w (demo_tree time) = (wa_errors w, Inr [(''/p/main.go'', \<lparr>ff_size = 1, ff_modifiedAt = time, ff_mode = 0\<rparr>)])"
proof -
  have "pl_join demo_paths ''/p'' ''main.go'' = ''/p/main.go''" by (simp add: demo_paths_def)
  with assms show ?thesis
    by (simp add: scan_def demo_tree_def visit_file_def relevant_def demo_rules alist_put_def alist_del_def)
qed

lemma demo_watcher_new: "NewWatcher demo_paths ''/p'' [] [] (demo_tree 7) = Inr demo_watcher"
proof -
  have "pl_abs demo_paths ''/p'' = Inr ''/p''" "newIgnoreMatcher demo_paths ''/p'' [] = \<lparr>im_root = ''/p'', im_extras = []\<rparr>"
    by (simp_all add: demo_paths_def newIgnoreMatcher_def)
  then show ?thesis by (simp add: NewWatcher_def Let_def demo_scan demo_watcher_def)
qed

definition demo_loop :: "dev_phase \<Rightarrow> dev_runner \<Rightarrow> dev_system" where
  "demo_loop ph r = \<lparr>ds_tree = demo_tree 7, ds_watcher = demo_watcher, ds_runner = r, ds_phase = ph,
     ds_seen = [map_of (wa_snapshot demo_watcher)],
     ds_built = (if ph = Starting then Map.empty else map_of (wa_snapshot demo_watcher))\<rparr>"

definition demo_running :: dev_runner where
  "demo_running = fst (rebuildAndSwap demo_swap (\<lambda>_. None) ''.'' new_runner)"

lemma demo_build: "rebuildAndSwap demo_swap (\<lambda>_. None) ''.'' new_runner = (demo_running, None)"
  by (simp add: demo_running_def rebuildAndSwap_def builder_Build_def demo_swap_def new_runner_def Let_def stop_previous_def
    start_candidate_def StartProcess_def write_output_def)

lemma demo_reachable:
  assumes "R demo_swap"
  shows "dev_reachable demo_paths False ''.'' R (demo_loop Rebuilding new_runner)"
    "dev_reachable demo_paths False ''.'' R (demo_loop Selecting demo_running)"
proof -
  have 0: "dev_reachable demo_paths False ''.'' R (demo_loop Starting new_runner)"
    using dev_reachable.start [OF demo_watcher_new, where R = R and verbose = False and target = "''.''"] by (simp add: demo_loop_def)
  have "(demo_loop Starting new_runner)\<lparr>ds_phase := Rebuilding, ds_built := hd (ds_seen (demo_loop Starting new_runner))\<rparr> = demo_loop Rebuilding new_runner"
    by (simp add: demo_loop_def)
  moreover have "ds_phase (demo_loop Starting new_runner) = Starting" by (simp add: demo_loop_def)
  note dev_step.first_build [OF this, where L = demo_paths and verbose = False and target = "''.''" and R = R]
  ultimately show 1: "dev_reachable demo_paths False ''.'' R (demo_loop Rebuilding new_runner)"
    using dev_reachable.step [OF 0] by metis
  let ?s = "demo_loop Rebuilding new_runner"
  have p: "ds_phase ?s = Rebuilding" "ds_runner ?s = new_runner" by (simp_all add: demo_loop_def)
  have f: "fresh_path (sw_build demo_swap) (ds_runner ?s)" unfolding p by (simp add: fresh_path_def demo_swap_def new_runner_def)
  have "next_phase (sw_stop demo_swap) (\<lambda>_. None) Selecting (rebuildAndSwap demo_swap (\<lambda>_. None) ''.'' (ds_runner ?s)) ?s = demo_loop Selecting demo_running"
    by (simp add: p demo_build next_phase_def) (simp add: demo_loop_def)
  with dev_reachable.step [OF 1 dev_step.built [where L = demo_paths and verbose = False and target = "''.''" and S = "sw_stop demo_swap" and out = "\<lambda>_. None", of ?s R demo_swap, OF p(1) assms f]]
  show "dev_reachable demo_paths False ''.'' R (demo_loop Selecting demo_running)" by simp
qed

text \<open>The sources are edited, the watcher sees it and the timer fires.\<close>

definition demo_edited :: dev_system where
  "demo_edited = (demo_loop Selecting demo_running)\<lparr>ds_tree := demo_tree 8,
     ds_seen := map_of [(''/p/main.go'', \<lparr>ff_size = 1, ff_modifiedAt = 8, ff_mode = 0\<rparr>)] # ds_seen (demo_loop Selecting demo_running)\<rparr>"

definition demo_rebuilding :: dev_system where
  "demo_rebuilding = demo_edited\<lparr>
     ds_watcher := demo_watcher\<lparr>wa_snapshot := [(''/p/main.go'', \<lparr>ff_size = 1, ff_modifiedAt = 8, ff_mode = 0\<rparr>)]\<rparr>,
     ds_built := hd (ds_seen demo_edited), ds_runner := demo_running\<lparr>dr_armed := False\<rparr>, ds_phase := Rebuilding\<rparr>"

lemma demo_edit:
  assumes "R demo_swap"
  shows "dev_reachable demo_paths False ''.'' R demo_edited"
proof -
  let ?s = "demo_loop Selecting demo_running" and ?v = "map_of [(''/p/main.go'', \<lparr>ff_size = 1, ff_modifiedAt = 8, ff_mode = 0 :: nat\<rparr>)]"
  have "tree_view demo_paths (ds_watcher ?s) (demo_tree 8) = Some ?v"
    by (simp add: tree_view_def demo_loop_def demo_watcher_def demo_scan)
  moreover have "?v \<noteq> map_of (wa_snapshot demo_watcher)"
  proof
    assume "?v = map_of (wa_snapshot demo_watcher)"
    from fun_cong [OF this, of "''/p/main.go''"] show False by (simp add: demo_watcher_def)
  qed
  then have "?v \<notin> set (ds_seen ?s)" by (simp add: demo_loop_def)
  ultimately have "dev_step demo_paths False ''.'' R ?s demo_edited"
    unfolding demo_edited_def by (rule dev_step.edit)
  with demo_reachable(2) [of R, OF assms] show ?thesis by (rule dev_reachable.step)
qed

lemma demo_rebuild:
  assumes "R demo_swap"
  shows "dev_reachable demo_paths False ''.'' R demo_rebuilding"
proof -
  let ?fp = "\<lparr>ff_size = 1, ff_modifiedAt = 8, ff_mode = 0\<rparr>"
  let ?w = "\<lambda>q. demo_watcher\<lparr>wa_snapshot := [(''/p/main.go'', ?fp)], wa_changes := q\<rparr>"
  let ?none = "\<lambda>_ :: string. None :: goerr option"
  have e: "ds_phase demo_edited = Selecting" "ds_watcher demo_edited = demo_watcher" "ds_tree demo_edited = demo_tree 8" "ds_runner demo_edited = demo_running"
    by (simp_all add: demo_edited_def demo_loop_def)
  have scan: "scanForChanges demo_paths (\<lambda>xs. xs) (demo_tree 8) demo_watcher = ?w [''/p/main.go'']"
    by (simp add: scanForChanges_def demo_scan demo_watcher_def changed_paths_def keys_def reportChange_def changesCapacity_def)
  let ?s2 = "demo_edited\<lparr>ds_watcher := ?w [''/p/main.go'']\<rparr>"
  have "dev_step demo_paths False ''.'' R demo_edited ?s2"
    using dev_step.tick [of demo_edited "\<lambda>xs. xs" demo_paths False "''.''" R] by (simp add: e scan)
  with demo_edit [of R, OF assms] have 2: "dev_reachable demo_paths False ''.'' R ?s2" by (rule dev_reachable.step)
  let ?s3 = "demo_edited\<lparr>ds_watcher := ?w [], ds_runner := demo_running\<lparr>dr_armed := True\<rparr>, ds_phase := Selecting\<rparr>"
  have "dev_step demo_paths False ''.'' R ?s2 ?s3"
    using dev_step.change [of ?s2 "''/p/main.go''" "[]" demo_paths False "''.''" R "sw_stop demo_swap" ?none]
    by (simp add: e on_change_def next_phase_def)
  with 2 have 3: "dev_reachable demo_paths False ''.'' R ?s3" by (rule dev_reachable.step)
  have "dev_step demo_paths False ''.'' R ?s3 demo_rebuilding"
    using dev_step.debounced [of ?s3 demo_paths False "''.''" R "sw_stop demo_swap" ?none]
    by (simp add: e begin_rebuild_def next_phase_def demo_rebuilding_def demo_watcher_def)
  with 3 show ?thesis by (rule dev_reachable.step)
qed

text \<open>
  C20. No change is lost: whenever the loop waits with no change queued and no debounce timer running, and the watcher
  has seen the sources as they are now, the last build began after the last edit, so that it read these
  sources. This although bursts of changes are dropped when the channel is full, edits happen while a
  build runs, and scans fail in between.
\<close>

theorem dev_no_lost_change:
  assumes "dev_reachable L verbose target R s" "ds_phase s = Selecting"
    and "wa_changes (ds_watcher s) = []" "\<not> dr_armed (ds_runner s)"
    and "tree_view L (ds_watcher s) (ds_tree s) = Some (map_of (wa_snapshot (ds_watcher s)))"
  shows "tree_view L (ds_watcher s) (ds_tree s) = Some (ds_built s)"
proof -
  have inv: "loop_inv L s" using assms(1) by (rule reachable_loop_inv)
  with assms have "up_to_date s" by (simp add: loop_inv_def quiet_def)
  then obtain newer older where seen: "ds_seen s = newer @ ds_built s # older"
    "map_of (wa_snapshot (ds_watcher s)) \<in> set (ds_built s # older)" by (auto simp: up_to_date_def)
  have now: "hd (ds_seen s) = map_of (wa_snapshot (ds_watcher s))" "distinct (ds_seen s)" using inv assms(5) by (simp_all add: loop_inv_def)
  have "newer = []"
  proof (rule ccontr)
    assume "newer \<noteq> []"
    then have "hd (ds_seen s) \<in> set newer" using seen(1) by simp
    with now seen show False by auto
  qed
  with now(1) seen(1) assms(5) show ?thesis by simp
qed

theorem dev_no_lost_change_witness:
  "tree_view demo_paths (ds_watcher (demo_loop Selecting demo_running)) (ds_tree (demo_loop Selecting demo_running)) =
    Some (ds_built (demo_loop Selecting demo_running))"
proof (rule dev_no_lost_change [OF demo_reachable(2) [of "\<lambda>_. True"]])
  show "wa_changes (ds_watcher (demo_loop Selecting demo_running)) = []" by (simp add: demo_loop_def demo_watcher_def)
  have "dr_armed demo_running = dr_armed new_runner" unfolding demo_running_def by (rule armed_kept)
  then show "\<not> dr_armed (ds_runner (demo_loop Selecting demo_running))" by (simp add: demo_loop_def new_runner_def)
  show "tree_view demo_paths (ds_watcher (demo_loop Selecting demo_running)) (ds_tree (demo_loop Selecting demo_running)) =
      Some (map_of (wa_snapshot (ds_watcher (demo_loop Selecting demo_running))))"
    using NewWatcher_view [OF demo_watcher_new] by (simp add: demo_loop_def)
qed (simp_all add: demo_loop_def)

text \<open>
  C21. Until the loop ends, the only process that can be alive is the one the runner holds, so that two
  applications never run side by side; the executable of this process is on disk; and as long as no restore of a
  previous application failed, no other executable is left on disk.
\<close>

theorem dev_single_process:
  assumes "dev_reachable L verbose target R s" "ds_phase s \<noteq> Ended"
  shows "set (dr_alive (ds_runner s)) \<subseteq> set_option (dr_process (ds_runner s)) \<and>
    (dr_process (ds_runner s) \<noteq> None \<longrightarrow> dr_binary (ds_runner s) \<in> set (dr_files (ds_runner s))) \<and>
    ((\<forall>E. R E \<longrightarrow> sw_start E = None \<or> sw_restore E = None) \<longrightarrow> stale (ds_runner s) = {})"
  using reachable_keep_inv [OF assms(1)] assms(2) by (auto simp: keep_inv_def runner_inv_def)

theorem dev_single_process_witness:
  "set (dr_alive demo_running) \<subseteq> set_option (dr_process demo_running) \<and> stale demo_running = {}"
  using dev_single_process [OF demo_reachable(2) [of "\<lambda>E. E = demo_swap"]] by (simp add: demo_loop_def demo_swap_def)

text \<open>
  The last good application keeps running: a rebuild that finds an application running leaves one running, whatever
  fails, unless both the start of the new application and that of the previous one fail; and when the
  build fails it is the same process.
\<close>

theorem dev_keeps_running:
  assumes "dev_reachable L verbose target R s" "ds_phase s = Rebuilding" "runs (ds_runner s)"
    and "fresh_path (sw_build E) (ds_runner s)" "sw_start E = None \<or> sw_restore E = None"
  shows "runs (fst (rebuildAndSwap E out target (ds_runner s))) \<and>
    (be_go (sw_build E) \<noteq> None \<longrightarrow>
      dr_process (fst (rebuildAndSwap E out target (ds_runner s))) = dr_process (ds_runner s) \<and>
      dr_binary (fst (rebuildAndSwap E out target (ds_runner s))) = dr_binary (ds_runner s))"
proof -
  obtain r' e where r: "rebuildAndSwap E out target (ds_runner s) = (r', e)" by fastforce
  have inv: "runner_inv (ds_runner s)" using reachable_keep_inv [OF assms(1)] assms(2) by (simp add: keep_inv_def)
  have "dr_process r' = dr_process (ds_runner s) \<and> dr_binary r' = dr_binary (ds_runner s)" if bad: "be_go (sw_build E) \<noteq> None"
  proof -
    obtain r1 x where 1: "builder_Build (sw_build E) out target (ds_runner s) = (r1, x)" by fastforce
    then obtain err where "x = Inl err" using bad by (auto simp: builder_Build_def Let_def split: sum.splits option.splits)
    with r 1 builder_Build_result [OF 1] show ?thesis by (simp add: rebuildAndSwap_def)
  qed
  with rebuild_result [OF r inv assms(4)] assms(3,5) r show ?thesis by simp
qed

theorem dev_keeps_running_witness:
  "runs (fst (rebuildAndSwap (demo_swap\<lparr>sw_start := Some (Opaque ''exec'')\<rparr>) (\<lambda>_. None) ''.'' (ds_runner demo_rebuilding)))"
proof -
  have r: "ds_runner demo_rebuilding = demo_running\<lparr>dr_armed := False\<rparr>" by (simp add: demo_rebuilding_def)
  have d: "runs demo_running" "dr_binary demo_running = ''app-1''" "dr_sequence demo_running = 1"
    by (simp_all add: demo_running_def runs_def rebuildAndSwap_def builder_Build_def demo_swap_def new_runner_def Let_def stop_previous_def
      start_candidate_def StartProcess_def write_output_def)
  then have "fresh_path (sw_build demo_swap) (demo_running\<lparr>dr_armed := False\<rparr>)"
    by (simp add: fresh_path_def demo_swap_def)
  with dev_keeps_running [OF demo_rebuild [of "\<lambda>_. True"], of "demo_swap\<lparr>sw_start := Some (Opaque ''exec'')\<rparr>" "\<lambda>_. None"] d(1) r
  show ?thesis by (simp add: demo_rebuilding_def runs_def) (simp add: demo_swap_def)
qed

text \<open>
  When neither the new application nor the previous one starts, the executable of the previous one stays
  on disk with nothing that refers to it.
\<close>

lemma failed_restore_leaves_executable:
  assumes "fresh_path (sw_build E) r" "runner_inv r" "runs r" "sw_start E \<noteq> None" "sw_restore E \<noteq> None"
    "be_resolve (sw_build E) = Inr x" "be_mkdir (sw_build E) = None" "be_go (sw_build E) = None" "so_exits (sw_stop E)"
  shows "dr_binary r \<in> stale (fst (rebuildAndSwap E (\<lambda>_. None) target r))"
proof -
  let ?c = "be_path (sw_build E) (dr_sequence r + 1)"
  from assms(3) obtain p where p: "dr_process r = Some p" by (auto simp: runs_def)
  with assms(2) have b: "dr_binary r \<noteq> []" "dr_binary r \<in> set (dr_files r)" by (auto simp: runner_inv_def)
  from assms(1) have c: "?c \<noteq> []" "?c \<noteq> dr_binary r" by (simp_all add: fresh_path_def)
  from assms(4,5) obtain e1 e2 where "sw_start E = Some e1" "sw_restore E = Some e2" by blast
  moreover have "process_Stop (sw_stop E) = None" using assms(9) by (simp add: process_Stop_def)
  ultimately show ?thesis using assms(6-8) p b c
    by (simp add: rebuildAndSwap_def builder_Build_def Let_def stop_previous_def stop_process_def start_candidate_def
      StartProcess_def restore_previous_def write_output_def remove_file_def stale_def)
qed

end
