(* ===== verification/ApiSchema.thy ===== *)
theory ApiSchema
  imports Errors "HOL-Library.Multiset" "HOL-Library.Char_ord" "HOL-Library.List_Lexorder" "HOL-Library.Product_Lexorder"
begin

text \<open>
  JSON schemas of Go types, \<open>openapi/schema.go\<close>. Types are nodes of a graph, since they may be
  recursive: what the code learns by reflection of a type is the record at its node. The recursion of
  the code runs on fuel, with \<open>None\<close> for a run that has not ended; \<open>schema_terminates\<close> gives fuel that is
  enough.
\<close>

section \<open>Types\<close>

record struct_tag =
  st_name :: string
  st_type :: nat
  st_exported :: bool
  st_anonymous :: bool
  st_tags :: "string \<Rightarrow> string option"

datatype go_kind =
    KBool | KInt | KInt8 | KInt16 | KInt32 | KInt64 | KUint | KUint8 | KUint16 | KUint32 | KUint64 | KUintptr
  | KFloat32 | KFloat64 | KString | KPointer nat | KSlice nat | KArray nat nat | KMap nat | KInterface
  | KStruct "struct_tag list" | KOther

text \<open>
  \<open>ty_named\<close> is whether the type has a name; the marshaler flags are \<open>hasMarshaler\<close>, for the type or its
  pointer.
\<close>

record go_type_info =
  ty_kind :: go_kind
  ty_named :: bool
  ty_text :: string
  ty_time :: bool
  ty_rawMessage :: bool
  ty_jsonMarshaler :: bool
  ty_textMarshaler :: bool

type_synonym type_graph = "nat \<Rightarrow> go_type_info"

text \<open>A schema is a JSON value; a Go map becomes an object with its keys in some order.\<close>

datatype json = JObj "(string \<times> json) list" | JArr "json list" | JStr string | JNum int | JBool bool

definition tag_of :: "struct_tag \<Rightarrow> string \<Rightarrow> string" where
  "tag_of f key = (case st_tags f key of None \<Rightarrow> [] | Some t \<Rightarrow> t)"

definition tagName :: "string \<Rightarrow> string" where
  "tagName tag = fst (cut tag (CHR '',''))"

definition requiredField :: "struct_tag \<Rightarrow> bool" where
  "requiredField f = list_ex (\<lambda>opt. trim_space opt = ''required'') (split_byte (CHR '','') (tag_of f ''openapi''))"

section \<open>The fields of a struct\<close>

record jsonField =
  jf_name :: string
  jf_field :: struct_tag
  jf_index :: "nat list"
  jf_tagged :: bool

text \<open>\<open>letter\<close> is \<open>unicode.IsLetter\<close> or \<open>unicode.IsDigit\<close> of a character.\<close>

definition validJSONFieldName :: "(char \<Rightarrow> bool) \<Rightarrow> string \<Rightarrow> bool" where
  "validJSONFieldName letter name = list_all (\<lambda>c. c \<in> set '' !#$%&()*+-./:;<=>?@[]^_{|}~'' \<or> letter c) name"

definition underlying :: "type_graph \<Rightarrow> nat \<Rightarrow> nat" where
  "underlying G t = (case ty_kind (G t) of KPointer e \<Rightarrow> e | _ \<Rightarrow> t)"

definition is_struct :: "type_graph \<Rightarrow> nat \<Rightarrow> bool" where
  "is_struct G t = (case ty_kind (G t) of KStruct _ \<Rightarrow> True | _ \<Rightarrow> False)"

text \<open>One field; \<open>collect\<close> is the collection of the fields of an embedded struct.\<close>

definition collectJSONField :: "(char \<Rightarrow> bool) \<Rightarrow> type_graph \<Rightarrow> (nat \<Rightarrow> nat list \<Rightarrow> jsonField list result option) \<Rightarrow>
    struct_tag \<Rightarrow> nat list \<Rightarrow> jsonField list result option" where
  "collectJSONField letter G collect f index =
    (let u = underlying G (st_type f); tag = tag_of f ''json''; name = tagName tag
     in if \<not> st_exported f \<and> (\<not> st_anonymous f \<or> \<not> is_struct G u) then Some (Inr [])
        else if tag = ''-'' then Some (Inr [])
        else if \<not> validJSONFieldName letter name then
          Some (Inl (Opaque (''field '' @ st_name f @ '' has a nonportable JSON tag '' @ tag @ ''; use a valid tag or an explicit body schema'')))
        else if st_anonymous f \<and> name = [] \<and> is_struct G u then collect u index
        else Some (Inr [\<lparr>jf_name = (if name = [] then st_name f else name), jf_field = f, jf_index = index, jf_tagged = (name \<noteq> [])\<rparr>]))"

fun collect_fields :: "(struct_tag \<Rightarrow> nat list \<Rightarrow> jsonField list result option) \<Rightarrow> nat list \<Rightarrow> nat \<Rightarrow> struct_tag list \<Rightarrow>
    jsonField list result option" where
  "collect_fields one parent i [] = Some (Inr [])"
| "collect_fields one parent i (f # fs) = (case one f (parent @ [i]) of
     None \<Rightarrow> None
   | Some (Inl err) \<Rightarrow> Some (Inl err)
   | Some (Inr candidates) \<Rightarrow> (case collect_fields one parent (Suc i) fs of
         None \<Rightarrow> None | Some (Inl err) \<Rightarrow> Some (Inl err) | Some (Inr rest) \<Rightarrow> Some (Inr (candidates @ rest))))"

primrec collectJSONFields :: "(char \<Rightarrow> bool) \<Rightarrow> type_graph \<Rightarrow> nat \<Rightarrow> nat list \<Rightarrow> nat \<Rightarrow> nat list \<Rightarrow> jsonField list result option" where
  "collectJSONFields letter G 0 visiting t parent = None"
| "collectJSONFields letter G (Suc n) visiting t parent =
    (if t \<in> set visiting then Some (Inr [])
     else case ty_kind (G t) of
       KStruct fs \<Rightarrow> collect_fields (collectJSONField letter G (collectJSONFields letter G n (t # visiting))) parent 0 fs
     | _ \<Rightarrow> Some (Inr []))"

text \<open>\<open>compareJSONFields\<close>, as the relation of not being after; \<open>slices.SortFunc\<close> is taken to be stable.\<close>

fun string_before :: "string \<Rightarrow> string \<Rightarrow> bool" where
  "string_before [] ys = True"
| "string_before (x # xs) [] = False"
| "string_before (x # xs) (y # ys) = (if x = y then string_before xs ys else (of_char x :: nat) < of_char y)"

definition jsonField_before :: "jsonField \<Rightarrow> jsonField \<Rightarrow> bool" where
  "jsonField_before a b =
    (if jf_name a \<noteq> jf_name b then string_before (jf_name a) (jf_name b)
     else if length (jf_index a) \<noteq> length (jf_index b) then length (jf_index a) < length (jf_index b)
     else jf_tagged a \<or> \<not> jf_tagged b)"

fun index_before :: "nat list \<Rightarrow> nat list \<Rightarrow> bool" where
  "index_before [] ys = True"
| "index_before (x # xs) [] = False"
| "index_before (x # xs) (y # ys) = (if x = y then index_before xs ys else x < y)"

fun sorted_insert :: "('a \<Rightarrow> 'a \<Rightarrow> bool) \<Rightarrow> 'a \<Rightarrow> 'a list \<Rightarrow> 'a list" where
  "sorted_insert before x [] = [x]"
| "sorted_insert before x (y # ys) = (if before x y then x # y # ys else y # sorted_insert before x ys)"

definition sort_func :: "('a \<Rightarrow> 'a \<Rightarrow> bool) \<Rightarrow> 'a list \<Rightarrow> 'a list" where
  "sort_func before xs = foldr (sorted_insert before) xs []"

text \<open>The loop over the groups of one name: the first wins when nothing contests it.\<close>

definition uncontested :: "jsonField \<Rightarrow> jsonField list \<Rightarrow> bool" where
  "uncontested first rest = (case rest of [] \<Rightarrow> True
   | second # _ \<Rightarrow> jf_name second \<noteq> jf_name first \<or> length (jf_index first) < length (jf_index second) \<or> jf_tagged first \<noteq> jf_tagged second)"

function select_fields :: "jsonField list \<Rightarrow> jsonField list" where
  "select_fields [] = []"
| "select_fields (first # rest) =
    (if uncontested first rest then [first] else []) @ select_fields (dropWhile (\<lambda>f. jf_name f = jf_name first) rest)"
  by pat_completeness auto
termination by (relation "measure length") (auto simp: le_imp_less_Suc length_dropWhile_le)

definition jsonFields :: "(char \<Rightarrow> bool) \<Rightarrow> type_graph \<Rightarrow> nat \<Rightarrow> nat \<Rightarrow> jsonField list result option" where
  "jsonFields letter G n t = (case collectJSONFields letter G n [] t [] of
     None \<Rightarrow> None
   | Some (Inl err) \<Rightarrow> Some (Inl err)
   | Some (Inr fs) \<Rightarrow>
       Some (Inr (sort_func (\<lambda>a b. index_before (jf_index a) (jf_index b)) (select_fields (sort_func jsonField_before fs)))))"

section \<open>Schemas\<close>

definition or_null :: "json \<Rightarrow> json" where
  "or_null j = JObj [(''anyOf'', JArr [j, JObj [(''type'', JStr ''null'')]])]"

definition type_schema :: "string \<Rightarrow> json" where
  "type_schema t = JObj [(''type'', JStr t)]"

definition primitiveSchema :: "go_kind \<Rightarrow> json option" where
  "primitiveSchema k = (case k of
     KBool \<Rightarrow> Some (type_schema ''boolean'')
   | KInt \<Rightarrow> Some (type_schema ''integer'')
   | KInt8 \<Rightarrow> Some (JObj [(''type'', JStr ''integer''), (''format'', JStr ''int32'')])
   | KInt16 \<Rightarrow> Some (JObj [(''type'', JStr ''integer''), (''format'', JStr ''int32'')])
   | KInt32 \<Rightarrow> Some (JObj [(''type'', JStr ''integer''), (''format'', JStr ''int32'')])
   | KInt64 \<Rightarrow> Some (JObj [(''type'', JStr ''integer''), (''format'', JStr ''int64'')])
   | KFloat32 \<Rightarrow> Some (JObj [(''type'', JStr ''number''), (''format'', JStr ''float'')])
   | KFloat64 \<Rightarrow> Some (JObj [(''type'', JStr ''number''), (''format'', JStr ''double'')])
   | KString \<Rightarrow> Some (type_schema ''string'')
   | _ \<Rightarrow> if k \<in> {KUint, KUint8, KUint16, KUint32, KUint64, KUintptr}
          then Some (JObj [(''type'', JStr ''integer''), (''minimum'', JNum 0)]) else None)"

text \<open>In the rest \<open>rec\<close> is \<open>schemaFor\<close> on the current \<open>visiting\<close>, or with it as an argument.\<close>

type_synonym schema_rec = "nat list \<Rightarrow> nat \<Rightarrow> json result option"

definition map_schema :: "(json \<Rightarrow> json) \<Rightarrow> json result option \<Rightarrow> json result option" where
  "map_schema f x = map_option (map_sum id f) x"

definition stringable :: "go_kind \<Rightarrow> bool" where
  "stringable k \<longleftrightarrow> primitiveSchema k \<noteq> None"

definition jsonFieldSchema :: "type_graph \<Rightarrow> schema_rec \<Rightarrow> nat list \<Rightarrow> struct_tag \<Rightarrow> json result option" where
  "jsonFieldSchema G rec visiting f =
    (let options = fst (snd (cut (tag_of f ''json'') (CHR '','')));
         t = st_type f;
         valueType = (if \<not> ty_named (G t) then underlying G t else t)
     in if ''string'' \<in> set (split_byte (CHR '','') options) \<and> \<not> ty_jsonMarshaler (G t) \<and> stringable (ty_kind (G valueType)) then
          Some (Inr (case ty_kind (G t) of KPointer _ \<Rightarrow> or_null (type_schema ''string'') | _ \<Rightarrow> type_schema ''string''))
        else rec visiting t)"

fun field_schemas :: "(struct_tag \<Rightarrow> json result option) \<Rightarrow> jsonField list \<Rightarrow> (string \<times> json) list result option" where
  "field_schemas one [] = Some (Inr [])"
| "field_schemas one (f # fs) = (case one (jf_field f) of
     None \<Rightarrow> None
   | Some (Inl err) \<Rightarrow> Some (Inl (Wrapf (''field '' @ jf_name f @ '': '') err))
   | Some (Inr property) \<Rightarrow> (case field_schemas one fs of
         None \<Rightarrow> None | Some (Inl err) \<Rightarrow> Some (Inl err) | Some (Inr rest) \<Rightarrow> Some (Inr ((jf_name f, property) # rest))))"

definition object_schema :: "(string \<times> json) list \<Rightarrow> string list \<Rightarrow> json" where
  "object_schema properties required = JObj ([(''type'', JStr ''object''), (''properties'', JObj properties)] @
     (if required \<noteq> [] then [(''required'', JArr (map JStr required))] else []))"

definition structSchema :: "(char \<Rightarrow> bool) \<Rightarrow> type_graph \<Rightarrow> nat \<Rightarrow> schema_rec \<Rightarrow> nat list \<Rightarrow> nat \<Rightarrow> json result option" where
  "structSchema letter G n rec visiting t =
    (if t \<in> set visiting then Some (Inr (type_schema ''object''))
     else case jsonFields letter G n t of
       None \<Rightarrow> None
     | Some (Inl err) \<Rightarrow> Some (Inl err)
     | Some (Inr fs) \<Rightarrow> (case field_schemas (jsonFieldSchema G rec (t # visiting)) fs of
           None \<Rightarrow> None
         | Some (Inl err) \<Rightarrow> Some (Inl err)
         | Some (Inr properties) \<Rightarrow> Some (Inr (object_schema properties (map jf_name (filter (\<lambda>f. requiredField (jf_field f)) fs))))))"

definition complexSchema :: "(char \<Rightarrow> bool) \<Rightarrow> type_graph \<Rightarrow> nat \<Rightarrow> schema_rec \<Rightarrow> nat list \<Rightarrow> nat \<Rightarrow> json result option" where
  "complexSchema letter G n rec visiting t = (case ty_kind (G t) of
     KSlice e \<Rightarrow>
       if ty_kind (G e) = KUint8 then Some (Inr (JObj [(''type'', JStr ''string''), (''contentEncoding'', JStr ''base64'')]))
       else map_schema (\<lambda>items. JObj [(''type'', JStr ''array''), (''items'', items)]) (rec visiting e)
   | KArray e len \<Rightarrow> map_schema (\<lambda>items. JObj [(''type'', JStr ''array''), (''items'', items),
       (''minItems'', JNum (int len)), (''maxItems'', JNum (int len))]) (rec visiting e)
   | KMap e \<Rightarrow> map_schema (\<lambda>v. JObj [(''type'', JStr ''object''), (''additionalProperties'', v)]) (rec visiting e)
   | KInterface \<Rightarrow> Some (Inr (JObj []))
   | KStruct _ \<Rightarrow> structSchema letter G n rec visiting t
   | _ \<Rightarrow> Some (Inl (Opaque (''unsupported Go type '' @ ty_text (G t)))))"

definition schema_step :: "(char \<Rightarrow> bool) \<Rightarrow> type_graph \<Rightarrow> nat \<Rightarrow> schema_rec \<Rightarrow> nat list \<Rightarrow> nat \<Rightarrow> json result option" where
  "schema_step letter G n rec visiting t = (case ty_kind (G t) of
     KPointer e \<Rightarrow> map_schema or_null (rec visiting e)
   | k \<Rightarrow>
       if ty_time (G t) then Some (Inr (JObj [(''type'', JStr ''string''), (''format'', JStr ''date-time'')]))
       else if ty_rawMessage (G t) then Some (Inr (JObj []))
       else if ty_jsonMarshaler (G t) then Some (Inr (JObj []))
       else if ty_textMarshaler (G t) then Some (Inr (type_schema ''string''))
       else case primitiveSchema k of
         Some schema \<Rightarrow> Some (Inr schema)
       | None \<Rightarrow> complexSchema letter G n rec visiting t)"

primrec schemaFor :: "(char \<Rightarrow> bool) \<Rightarrow> type_graph \<Rightarrow> nat \<Rightarrow> schema_rec" where
  "schemaFor letter G 0 = (\<lambda>_ _. None)"
| "schemaFor letter G (Suc n) = schema_step letter G n (schemaFor letter G n)"

section \<open>Termination\<close>

text \<open>
  The types a type refers to: its elements, and the types of its fields. \<open>rank\<close> goes down along the edges
  that do not pass through a struct, so that every cycle passes through one.
\<close>

definition element :: "go_kind \<Rightarrow> nat option" where
  "element k = (case k of KPointer e \<Rightarrow> Some e | KSlice e \<Rightarrow> Some e | KArray e _ \<Rightarrow> Some e | KMap e \<Rightarrow> Some e | _ \<Rightarrow> None)"

definition field_types :: "go_kind \<Rightarrow> nat set" where
  "field_types k = (case k of KStruct fs \<Rightarrow> st_type ` set fs | _ \<Rightarrow> {})"

definition closed_types :: "type_graph \<Rightarrow> nat set \<Rightarrow> bool" where
  "closed_types G T \<longleftrightarrow> finite T \<and> (\<forall>t \<in> T. set_option (element (ty_kind (G t))) \<subseteq> T \<and> field_types (ty_kind (G t)) \<subseteq> T)"

definition ranked :: "type_graph \<Rightarrow> nat set \<Rightarrow> (nat \<Rightarrow> nat) \<Rightarrow> bool" where
  "ranked G T rank \<longleftrightarrow> (\<forall>t \<in> T. \<forall>e \<in> set_option (element (ty_kind (G t))). is_struct G e \<or> rank e < rank t)"

definition structs :: "type_graph \<Rightarrow> nat set \<Rightarrow> nat set" where
  "structs G T = {t \<in> T. is_struct G t}"

lemma finite_structs [simp]: "closed_types G T \<Longrightarrow> finite (structs G T)"
  by (simp add: structs_def closed_types_def)

lemma structs_visit:
  assumes "closed_types G T" "t \<in> structs G T" "t \<notin> set visiting"
  shows "Suc (card (structs G T - set (t # visiting))) = card (structs G T - set visiting)"
proof -
  have "structs G T - set (t # visiting) = (structs G T - set visiting) - {t}" by auto
  moreover have "finite (structs G T - set visiting)" "t \<in> structs G T - set visiting" using assms by simp_all
  ultimately show ?thesis by (simp only: card_Suc_Diff1)
qed

lemma closed_element: "closed_types G T \<Longrightarrow> t \<in> T \<Longrightarrow> element (ty_kind (G t)) = Some e \<Longrightarrow> e \<in> T"
  by (fastforce simp: closed_types_def)

lemma closed_field: "closed_types G T \<Longrightarrow> t \<in> T \<Longrightarrow> ty_kind (G t) = KStruct fs \<Longrightarrow> f \<in> set fs \<Longrightarrow> st_type f \<in> T"
proof -
  assume a: "closed_types G T" "t \<in> T" "ty_kind (G t) = KStruct fs" "f \<in> set fs"
  then have "field_types (ty_kind (G t)) \<subseteq> T" unfolding closed_types_def by blast
  with a(3,4) show ?thesis by (auto simp: field_types_def)
qed

lemma underlying_closed:
  assumes "closed_types G T" "t \<in> T"
  shows "underlying G t \<in> T"
  using assms closed_element [OF assms] by (cases "ty_kind (G t)") (simp_all add: underlying_def element_def)

lemma collect_fields_ends:
  assumes "\<And>f i. f \<in> set fs \<Longrightarrow> one f (parent @ [i]) \<noteq> None"
  shows "collect_fields one parent i fs \<noteq> None"
  using assms
proof (induction fs arbitrary: i)
  case (Cons f fs)
  then have "collect_fields one parent (Suc i) fs \<noteq> None" "one f (parent @ [i]) \<noteq> None" by auto
  then show ?case by (auto split: sum.splits)
qed simp

lemma collect_fields_all:
  assumes "collect_fields one parent i fs = Some (Inr xs)" "\<And>f ix ys. f \<in> set fs \<Longrightarrow> one f ix = Some (Inr ys) \<Longrightarrow> \<forall>y \<in> set ys. P y"
  shows "\<forall>x \<in> set xs. P x"
  using assms
proof (induction fs arbitrary: i xs)
  case (Cons f fs)
  from Cons.prems(1) obtain ys zs where 1: "one f (parent @ [i]) = Some (Inr ys)" "collect_fields one parent (Suc i) fs = Some (Inr zs)" "xs = ys @ zs"
    by (auto split: option.splits sum.splits)
  have "\<forall>y \<in> set ys. P y" using Cons.prems(2) [OF _ 1(1)] by simp
  moreover have "\<forall>z \<in> set zs. P z" by (rule Cons.IH [OF 1(2)]) (use Cons.prems(2) in auto)
  ultimately show ?case using 1(3) by auto
qed simp

lemma collect_ends:
  assumes "closed_types G T" "t \<in> T" "card (structs G T - set visiting) < n"
  shows "collectJSONFields letter G n visiting t parent \<noteq> None"
  using assms(2,3)
proof (induction n arbitrary: visiting t parent)
  case (Suc n)
  show ?case
  proof (cases "t \<notin> set visiting \<and> is_struct G t")
    case True
    then obtain fs where fs: "ty_kind (G t) = KStruct fs" by (auto simp: is_struct_def split: go_kind.splits)
    have t: "t \<in> structs G T" using True Suc.prems by (simp add: structs_def)
    have less: "card (structs G T - set (t # visiting)) < n" using structs_visit [OF assms(1) t, of visiting] True Suc.prems(2) by linarith
    have "collect_fields (collectJSONField letter G (collectJSONFields letter G n (t # visiting))) parent 0 fs \<noteq> None"
    proof (rule collect_fields_ends)
      fix f i
      assume "f \<in> set fs"
      then have "st_type f \<in> T" by (rule closed_field [OF assms(1) Suc.prems(1) fs])
      then have "underlying G (st_type f) \<in> T" by (rule underlying_closed [OF assms(1)])
      from Suc.IH [OF this less]
      show "collectJSONField letter G (collectJSONFields letter G n (t # visiting)) f (parent @ [i]) \<noteq> None"
        by (simp add: collectJSONField_def Let_def)
    qed
    with True fs show ?thesis by simp
  qed (auto simp: is_struct_def split: go_kind.splits)
qed simp

lemma collect_types:
  assumes "closed_types G T" "t \<in> T" "collectJSONFields letter G n visiting t parent = Some (Inr fs)"
  shows "\<forall>f \<in> set fs. st_type (jf_field f) \<in> T"
  using assms(2,3)
proof (induction n arbitrary: visiting t parent fs)
  case (Suc n)
  show ?case
  proof (cases "t \<notin> set visiting \<and> is_struct G t")
    case True
    then obtain gs where gs: "ty_kind (G t) = KStruct gs" by (auto simp: is_struct_def split: go_kind.splits)
    have c: "collect_fields (collectJSONField letter G (collectJSONFields letter G n (t # visiting))) parent 0 gs = Some (Inr fs)"
      using Suc.prems(2) True gs by simp
    show ?thesis
    proof (rule collect_fields_all [OF c])
      fix f ix ys
      assume f: "f \<in> set gs" and one: "collectJSONField letter G (collectJSONFields letter G n (t # visiting)) f ix = Some (Inr ys)"
      have T: "st_type f \<in> T" using f by (rule closed_field [OF assms(1) Suc.prems(1) gs])
      show "\<forall>y \<in> set ys. st_type (jf_field y) \<in> T"
        using one T Suc.IH [OF underlying_closed [OF assms(1) T]]
        by (auto simp: collectJSONField_def Let_def split: if_splits)
    qed
  next
    case False
    with Suc.prems(2) have "fs = []" by (auto simp: is_struct_def split: if_splits go_kind.splits)
    then show ?thesis by simp
  qed
qed simp

lemma set_sort_func [simp]: "set (sort_func before xs) = set xs"
proof -
  have insert: "set (sorted_insert before x ys) = insert x (set ys)" for x ys
    by (induction ys) auto
  show ?thesis unfolding sort_func_def by (induction xs) (simp_all add: insert)
qed

lemma set_select_fields: "set (select_fields xs) \<subseteq> set xs"
proof (induction xs rule: select_fields.induct)
  case (2 first rest)
  then show ?case using set_dropWhileD by (fastforce split: if_splits)
qed simp

lemma jsonFields_ends:
  assumes "closed_types G T" "t \<in> T" "card (structs G T) < n"
  shows "jsonFields letter G n t \<noteq> None"
proof -
  have "card (structs G T - set []) < n" using assms(3) by simp
  from collect_ends [OF assms(1,2) this, of letter "[]"] show ?thesis by (auto simp: jsonFields_def split: option.splits sum.splits)
qed

lemma jsonFields_types:
  assumes "closed_types G T" "t \<in> T" "jsonFields letter G n t = Some (Inr fs)"
  shows "\<forall>f \<in> set fs. st_type (jf_field f) \<in> T"
proof -
  from assms(3) obtain gs where gs: "collectJSONFields letter G n [] t [] = Some (Inr gs)" "set fs \<subseteq> set gs"
    using set_select_fields [of "sort_func jsonField_before _"] by (fastforce simp: jsonFields_def split: option.splits sum.splits)
  from collect_types [OF assms(1,2) gs(1)] gs(2) show ?thesis by blast
qed

lemma field_schemas_ends: "(\<And>f. f \<in> set fs \<Longrightarrow> one (jf_field f) \<noteq> None) \<Longrightarrow> field_schemas one fs \<noteq> None"
proof (induction fs)
  case (Cons f fs)
  then have "field_schemas one fs \<noteq> None" "one (jf_field f) \<noteq> None" by auto
  then show ?case by (auto split: sum.splits)
qed simp

definition own_rank :: "type_graph \<Rightarrow> (nat \<Rightarrow> nat) \<Rightarrow> nat \<Rightarrow> nat" where
  "own_rank G rank t = (if is_struct G t then 0 else Suc (rank t))"

definition schema_fuel :: "type_graph \<Rightarrow> nat set \<Rightarrow> (nat \<Rightarrow> nat) \<Rightarrow> nat \<Rightarrow> nat list \<Rightarrow> nat \<Rightarrow> nat" where
  "schema_fuel G T rank R visiting t = card (structs G T - set visiting) * (R + 2) + own_rank G rank t + card (structs G T) + 2"

lemma schema_fuel_element:
  assumes "ranked G T rank" "t \<in> T" "element (ty_kind (G t)) = Some e" "schema_fuel G T rank R visiting t \<le> Suc n"
  shows "schema_fuel G T rank R visiting e \<le> n"
proof -
  have "\<not> is_struct G t" using assms(3) by (auto simp: element_def is_struct_def split: go_kind.splits)
  moreover have "is_struct G e \<or> rank e < rank t" using assms(1-3) by (auto simp: ranked_def)
  ultimately show ?thesis using assms(4) by (auto simp: schema_fuel_def own_rank_def)
qed

lemma schema_fuel_struct:
  assumes "closed_types G T" "t \<in> T" "is_struct G t" "t \<notin> set visiting" "\<forall>t \<in> T. rank t \<le> R" "u \<in> T"
    "schema_fuel G T rank R visiting t \<le> Suc n"
  shows "schema_fuel G T rank R (t # visiting) u \<le> n"
proof -
  have "t \<in> structs G T" using assms(2,3) by (simp add: structs_def)
  then have "card (structs G T - set visiting) = Suc (card (structs G T - set (t # visiting)))"
    using structs_visit [OF assms(1)] assms(4) by simp
  moreover have "own_rank G rank u \<le> R + 1" using assms(5,6) by (simp add: own_rank_def)
  ultimately show ?thesis using assms(7) by (simp add: schema_fuel_def)
qed

lemma schemaFor_ends:
  assumes "closed_types G T" "ranked G T rank" "\<forall>t \<in> T. rank t \<le> R"
    and "t \<in> T" "schema_fuel G T rank R visiting t \<le> n"
  shows "schemaFor letter G n visiting t \<noteq> None"
  using assms(4,5)
proof (induction n arbitrary: visiting t)
  case 0
  then show ?case by (simp add: schema_fuel_def)
next
  case (Suc n)
  have elem: "schemaFor letter G n visiting e \<noteq> None" if "element (ty_kind (G t)) = Some e" for e
    using Suc.IH [OF closed_element [OF assms(1) Suc.prems(1) that] schema_fuel_element [OF assms(2) Suc.prems(1) that Suc.prems(2)]] .
  have fields: "schemaFor letter G n (t # visiting) (st_type f) \<noteq> None"
    if "is_struct G t" "t \<notin> set visiting" "st_type f \<in> T" for f
    using Suc.IH [OF that(3) schema_fuel_struct [OF assms(1) Suc.prems(1) that(1,2) assms(3) that(3) Suc.prems(2)]] .
  have struct: "structSchema letter G n (schemaFor letter G n) visiting t \<noteq> None" if "is_struct G t"
  proof (cases "t \<in> set visiting")
    case False
    have "card (structs G T) < n" using Suc.prems(2) by (simp add: schema_fuel_def)
    then obtain x where x: "jsonFields letter G n t = Some x" using jsonFields_ends [OF assms(1) Suc.prems(1)] by blast
    show ?thesis
    proof (cases x)
      case (Inr fs)
      have "field_schemas (jsonFieldSchema G (schemaFor letter G n) (t # visiting)) fs \<noteq> None"
      proof (rule field_schemas_ends)
        fix f
        assume "f \<in> set fs"
        then have "st_type (jf_field f) \<in> T" using jsonFields_types [OF assms(1) Suc.prems(1)] x Inr by blast
        from fields [OF that False this] show "jsonFieldSchema G (schemaFor letter G n) (t # visiting) (jf_field f) \<noteq> None"
          by (simp add: jsonFieldSchema_def Let_def)
      qed
      then show ?thesis using False x Inr by (auto simp: structSchema_def split: sum.splits)
    qed (use False x in \<open>simp add: structSchema_def\<close>)
  qed (simp add: structSchema_def)
  show ?case using elem struct
    by (cases "ty_kind (G t)") (auto simp: schema_step_def complexSchema_def map_schema_def element_def is_struct_def split: option.splits)
qed

section \<open>More fuel changes no result\<close>

lemma collect_fields_more:
  assumes "\<And>f ix r. one f ix = Some r \<Longrightarrow> one' f ix = Some r" "collect_fields one parent i fs = Some r"
  shows "collect_fields one' parent i fs = Some r"
  using assms(2)
proof (induction fs arbitrary: i r)
  case (Cons f fs)
  then obtain x where x: "one f (parent @ [i]) = Some x" by (cases "one f (parent @ [i])") auto
  note x' = assms(1) [OF x]
  show ?case
  proof (cases x)
    case (Inr ys)
    with Cons.prems x obtain y where "collect_fields one parent (Suc i) fs = Some y" by (cases "collect_fields one parent (Suc i) fs") auto
    with Cons.IH [OF this] Cons.prems x x' Inr show ?thesis by simp
  qed (use Cons.prems x x' in auto)
qed simp

lemma collect_more: "collectJSONFields letter G n visiting t parent = Some r \<Longrightarrow> collectJSONFields letter G (Suc n) visiting t parent = Some r"
proof (induction n arbitrary: visiting t parent r)
  case (Suc n)
  show ?case
  proof (cases "t \<notin> set visiting \<and> is_struct G t")
    case True
    then obtain fs where fs: "ty_kind (G t) = KStruct fs" by (auto simp: is_struct_def split: go_kind.splits)
    have "collectJSONField letter G (collectJSONFields letter G n (t # visiting)) f ix = Some r \<Longrightarrow>
        collectJSONField letter G (collectJSONFields letter G (Suc n) (t # visiting)) f ix = Some r" for f ix r
      using Suc.IH by (auto simp: collectJSONField_def Let_def simp del: collectJSONFields.simps split: if_splits)
    from collect_fields_more [OF this] Suc.prems True fs
    have "collect_fields (collectJSONField letter G (collectJSONFields letter G (Suc n) (t # visiting))) parent 0 fs = Some r" by simp
    with True fs show ?thesis by (simp only: collectJSONFields.simps(2) [of _ _ "Suc n"]) simp
  qed (use Suc.prems in \<open>auto simp: is_struct_def split: go_kind.splits\<close>)
qed simp

lemma jsonFields_more:
  assumes "jsonFields letter G n t = Some r"
  shows "jsonFields letter G (Suc n) t = Some r"
proof -
  from assms obtain x where "collectJSONFields letter G n [] t [] = Some x"
    by (cases "collectJSONFields letter G n [] t []") (auto simp: jsonFields_def)
  with assms collect_more [OF this] show ?thesis by (simp add: jsonFields_def del: collectJSONFields.simps)
qed

lemma field_schemas_more:
  assumes "\<And>f r. one f = Some r \<Longrightarrow> one' f = Some r" "field_schemas one fs = Some r"
  shows "field_schemas one' fs = Some r"
  using assms(2)
proof (induction fs arbitrary: r)
  case (Cons f fs)
  then obtain x where x: "one (jf_field f) = Some x" by (cases "one (jf_field f)") auto
  note x' = assms(1) [OF x]
  show ?case
  proof (cases x)
    case (Inr ys)
    with Cons.prems x obtain y where "field_schemas one fs = Some y" by (cases "field_schemas one fs") auto
    with Cons.IH [OF this] Cons.prems x x' Inr show ?thesis by simp
  qed (use Cons.prems x x' in auto)
qed simp

lemma map_schema_more: "(\<And>r. x = Some r \<Longrightarrow> y = Some r) \<Longrightarrow> map_schema f x = Some r \<Longrightarrow> map_schema f y = Some r"
  by (cases x) (simp_all add: map_schema_def)

lemma structSchema_more:
  assumes "\<And>v t r. rec v t = Some r \<Longrightarrow> rec' v t = Some r" "structSchema letter G n rec visiting t = Some r"
  shows "structSchema letter G (Suc n) rec' visiting t = Some r"
proof (cases "t \<in> set visiting")
  case False
  with assms(2) obtain x where x: "jsonFields letter G n t = Some x" by (cases "jsonFields letter G n t") (auto simp: structSchema_def)
  note x' = jsonFields_more [OF x]
  show ?thesis
  proof (cases x)
    case (Inr fs)
    from assms(2) False x Inr obtain y where y: "field_schemas (jsonFieldSchema G rec (t # visiting)) fs = Some y"
      by (cases "field_schemas (jsonFieldSchema G rec (t # visiting)) fs") (auto simp: structSchema_def)
    have "jsonFieldSchema G rec v f = Some r \<Longrightarrow> jsonFieldSchema G rec' v f = Some r" for v f r
      using assms(1) by (auto simp: jsonFieldSchema_def Let_def split: if_splits)
    from field_schemas_more [OF this y] assms(2) False x x' y Inr show ?thesis by (simp add: structSchema_def)
  qed (use assms(2) False x x' in \<open>simp add: structSchema_def\<close>)
qed (use assms(2) in \<open>simp add: structSchema_def\<close>)

lemma schemaFor_Suc: "schemaFor letter G n visiting t = Some r \<Longrightarrow> schemaFor letter G (Suc n) visiting t = Some r"
proof (induction n arbitrary: visiting t r)
  case (Suc n)
  have elem: "map_schema f (schemaFor letter G n visiting e) = Some r \<Longrightarrow> map_schema f (schemaFor letter G (Suc n) visiting e) = Some r" for f e r
    using Suc.IH by (rule map_schema_more)
  have struct: "structSchema letter G n (schemaFor letter G n) visiting t = Some r \<Longrightarrow>
      structSchema letter G (Suc n) (schemaFor letter G (Suc n)) visiting t = Some r" for r
    using Suc.IH by (rule structSchema_more)
  from Suc.prems have "schema_step letter G n (schemaFor letter G n) visiting t = Some r" by simp
  then have "schema_step letter G (Suc n) (schemaFor letter G (Suc n)) visiting t = Some r"
    using elem struct
    by (cases "ty_kind (G t)")
      (auto simp: schema_step_def complexSchema_def simp del: schemaFor.simps split: option.splits if_splits)
  then show ?case by (simp only: schemaFor.simps(2) [of _ _ "Suc n"])
qed simp

lemma schemaFor_more: "schemaFor letter G n visiting t = Some r \<Longrightarrow> n \<le> k \<Longrightarrow> schemaFor letter G k visiting t = Some r"
proof (induction k)
  case (Suc k)
  then show ?case using schemaFor_Suc by (cases "n = Suc k") (auto simp del: schemaFor.simps)
qed simp

section \<open>Dominant fields\<close>

text \<open>
  The rule of \<open>encoding/json\<close> for embedded structs: of the fields of one name, one dominates when every
  other lies deeper, or as deep and without a tag where it has one.
\<close>

definition dominant :: "jsonField list \<Rightarrow> jsonField \<Rightarrow> bool" where
  "dominant cs f \<longleftrightarrow> (\<forall>g \<in> set cs. g \<noteq> f \<and> jf_name g = jf_name f \<longrightarrow>
     length (jf_index f) < length (jf_index g) \<or> length (jf_index f) = length (jf_index g) \<and> jf_tagged f \<and> \<not> jf_tagged g)"

definition field_key :: "jsonField \<Rightarrow> string \<times> nat \<times> bool" where
  "field_key f = (jf_name f, length (jf_index f), \<not> jf_tagged f)"

lemma string_before_le: "string_before xs ys \<longleftrightarrow> xs \<le> ys"
  by (induction xs ys rule: string_before.induct) (auto simp: less_char_def)

lemma index_before_le: "index_before xs ys \<longleftrightarrow> xs \<le> ys"
  by (induction xs ys rule: index_before.induct) auto

lemma jsonField_before_key: "jsonField_before a b \<longleftrightarrow> field_key a \<le> field_key b"
  by (auto simp: jsonField_before_def field_key_def string_before_le less_le)

lemma sort_func_key: "(\<And>a b. before a b \<longleftrightarrow> k a \<le> k b) \<Longrightarrow> sort_func before xs = sort_key k xs" for k :: "'a \<Rightarrow> 'b::linorder"
proof -
  assume b: "\<And>a b. before a b \<longleftrightarrow> k a \<le> k b"
  have "sorted_insert before x ys = insort_key k x ys" for x ys by (induction ys) (simp_all add: b)
  then have "sorted_insert before = insort_key k" by (intro ext)
  then show ?thesis by (simp add: sort_func_def sort_key_def)
qed

lemma dominant_key: "dominant cs f \<longleftrightarrow> (\<forall>g \<in> set cs. g \<noteq> f \<and> jf_name g = jf_name f \<longrightarrow> field_key f < field_key g)"
  by (auto simp: dominant_def field_key_def)

lemma uncontested_key:
  assumes "\<And>g. g \<in> set rest \<Longrightarrow> field_key first \<le> field_key g" "sorted (map field_key rest)"
  shows "uncontested first rest \<longleftrightarrow> (\<forall>g \<in> set rest. jf_name g = jf_name first \<longrightarrow> field_key first < field_key g)"
proof (cases rest)
  case (Cons second more)
  have le: "field_key first \<le> field_key second" using assms(1) Cons by simp
  show ?thesis
  proof (cases "jf_name second = jf_name first")
    case True
    have "uncontested first rest \<longleftrightarrow> field_key first < field_key second"
      using le True Cons by (auto simp: uncontested_def field_key_def)
    also have "\<dots> \<longleftrightarrow> (\<forall>g \<in> set rest. jf_name g = jf_name first \<longrightarrow> field_key first < field_key g)"
      using assms(2) True Cons by auto
    finally show ?thesis .
  next
    case False
    have "jf_name g \<noteq> jf_name first" if "g \<in> set rest" for g
    proof -
      have "field_key second \<le> field_key g" using that assms(2) Cons by auto
      with le False show ?thesis by (auto simp: field_key_def)
    qed
    with False Cons show ?thesis by (simp add: uncontested_def)
  qed
qed (simp add: uncontested_def)

lemma later_names:
  assumes "sorted (map field_key (first # rest))" "g \<in> set (dropWhile (\<lambda>f. jf_name f = jf_name first) rest)"
  shows "jf_name g \<noteq> jf_name first"
proof
  let ?d = "dropWhile (\<lambda>f. jf_name f = jf_name first) rest"
  assume same: "jf_name g = jf_name first"
  obtain h hs where d: "?d = h # hs" using assms(2) by (cases ?d) auto
  then have "jf_name h \<noteq> jf_name first" by (meson dropWhile_eq_Cons_conv)
  moreover have "h \<in> set rest" using d by (metis list.set_intros(1) set_dropWhileD)
  then have "field_key first \<le> field_key h" using assms(1) by simp
  moreover have "sorted (map field_key ?d)" using assms(1)
    by (simp add: dropWhile_eq_drop drop_map [symmetric] sorted_wrt_drop)
  then have "field_key h \<le> field_key g" using assms(2) d by auto
  ultimately show False using same by (auto simp: field_key_def)
qed

lemma select_fields_dominant:
  assumes "sorted (map field_key xs)" "distinct xs"
  shows "set (select_fields xs) = {f \<in> set xs. dominant xs f} \<and> distinct (map jf_name (select_fields xs))"
  using assms
proof (induction xs rule: select_fields.induct)
  case (2 first rest)
  let ?d = "dropWhile (\<lambda>f. jf_name f = jf_name first) rest"
  have sorted: "sorted (map field_key rest)" "\<And>g. g \<in> set rest \<Longrightarrow> field_key first \<le> field_key g" using "2.prems"(1) by simp_all
  have "sorted (map field_key ?d)" "distinct ?d"
    using "2.prems" by (simp_all add: dropWhile_eq_drop drop_map [symmetric] sorted_wrt_drop)
  note ih = "2.IH" [OF this]
  have later: "g \<in> set ?d \<longleftrightarrow> g \<in> set rest \<and> jf_name g \<noteq> jf_name first" for g
  proof
    assume "g \<in> set ?d"
    then show "g \<in> set rest \<and> jf_name g \<noteq> jf_name first" using later_names [OF "2.prems"(1)] by (blast dest: set_dropWhileD)
  next
    assume g: "g \<in> set rest \<and> jf_name g \<noteq> jf_name first"
    have "set rest = set (takeWhile (\<lambda>f. jf_name f = jf_name first) rest) \<union> set ?d"
      by (simp only: set_append [symmetric] takeWhile_dropWhile_id)
    with g show "g \<in> set ?d" by (blast dest: set_takeWhileD)
  qed
  have first: "uncontested first rest \<longleftrightarrow> dominant (first # rest) first"
    using uncontested_key [OF sorted(2,1)] "2.prems"(2) by (auto simp: dominant_key)
  have same: "\<not> dominant (first # rest) f" if "f \<in> set rest" "jf_name f = jf_name first" for f
  proof -
    have "first \<noteq> f" using that(1) "2.prems"(2) by auto
    moreover have "\<not> field_key f < field_key first" using sorted(2) [OF that(1)] by (simp add: not_less)
    ultimately show ?thesis using that(2) by (auto simp: dominant_key)
  qed
  have other: "dominant (first # rest) f \<longleftrightarrow> dominant ?d f" if "f \<in> set ?d" for f
    using that later by (auto simp: dominant_key)
  have all: "set (select_fields (first # rest)) = (if uncontested first rest then {first} else {}) \<union> {f \<in> set ?d. dominant ?d f}"
    using ih by simp
  have "f \<in> set (select_fields (first # rest)) \<longleftrightarrow> f \<in> set (first # rest) \<and> dominant (first # rest) f" for f
  proof (cases "f = first")
    case True
    then have "f \<notin> set ?d" using later by blast
    with True first all show ?thesis by simp
  next
    case False
    then have "f \<in> set (select_fields (first # rest)) \<longleftrightarrow> f \<in> set ?d \<and> dominant ?d f" unfolding all by simp
    also have "\<dots> \<longleftrightarrow> f \<in> set rest \<and> dominant (first # rest) f" using other [of f] same [of f] later [of f] by blast
    finally show ?thesis using False by simp
  qed
  then have "set (select_fields (first # rest)) = {f \<in> set (first # rest). dominant (first # rest) f}" by blast
  moreover have "jf_name first \<notin> set (map jf_name (select_fields ?d))"
    using set_select_fields [of ?d] later by (auto simp: image_iff)
  then have "distinct (map jf_name (select_fields (first # rest)))" using ih by simp
  ultimately show ?case by blast
qed simp

lemma collect_fields_index:
  assumes "collect_fields one parent i fs = Some (Inr xs)"
    and "\<And>f ix ys. one f ix = Some (Inr ys) \<Longrightarrow> distinct (map jf_index ys) \<and> (\<forall>y \<in> set ys. \<exists>rest. jf_index y = ix @ rest)"
  shows "distinct (map jf_index xs) \<and> (\<forall>x \<in> set xs. \<exists>j \<ge> i. \<exists>rest. jf_index x = parent @ j # rest)"
  using assms(1)
proof (induction fs arbitrary: i xs)
  case (Cons f fs)
  from Cons.prems obtain ys zs where 1: "one f (parent @ [i]) = Some (Inr ys)" "collect_fields one parent (Suc i) fs = Some (Inr zs)" "xs = ys @ zs"
    by (auto split: option.splits sum.splits)
  note ys = assms(2) [OF 1(1)] and zs = Cons.IH [OF 1(2)]
  have "jf_index y \<noteq> jf_index z" if "y \<in> set ys" "z \<in> set zs" for y z
  proof -
    from ys that(1) obtain r1 where "jf_index y = parent @ i # r1" by auto
    moreover from zs that(2) obtain j r2 where "j \<ge> Suc i" "jf_index z = parent @ j # r2" by auto
    ultimately show ?thesis by auto
  qed
  then have "distinct (map jf_index xs)" using ys zs 1(3) by (auto simp: distinct_map)
  moreover have "\<exists>j \<ge> i. \<exists>rest. jf_index x = parent @ j # rest" if "x \<in> set xs" for x
    using that ys zs 1(3) by (fastforce intro: Suc_leD)
  ultimately show ?case by blast
qed simp

lemma collect_index:
  "collectJSONFields letter G n visiting t parent = Some (Inr xs) \<Longrightarrow>
   distinct (map jf_index xs) \<and> (\<forall>x \<in> set xs. \<exists>rest. jf_index x = parent @ rest)"
proof (induction n arbitrary: visiting t parent xs)
  case (Suc n)
  show ?case
  proof (cases "t \<notin> set visiting \<and> is_struct G t")
    case True
    then obtain fs where fs: "ty_kind (G t) = KStruct fs" by (auto simp: is_struct_def split: go_kind.splits)
    let ?one = "collectJSONField letter G (collectJSONFields letter G n (t # visiting))"
    have c: "collect_fields ?one parent 0 fs = Some (Inr xs)" using Suc.prems True fs by simp
    have "distinct (map jf_index ys) \<and> (\<forall>y \<in> set ys. \<exists>rest. jf_index y = ix @ rest)" if "?one f ix = Some (Inr ys)" for f ix ys
      using that Suc.IH by (auto simp: collectJSONField_def Let_def split: if_splits)
    then have "distinct (map jf_index xs) \<and> (\<forall>x \<in> set xs. \<exists>j \<ge> 0. \<exists>rest. jf_index x = parent @ j # rest)"
      by (rule collect_fields_index [OF c])
    then show ?thesis by blast
  next
    case False
    with Suc.prems have "xs = []" by (auto simp: is_struct_def split: if_splits go_kind.splits)
    then show ?thesis by simp
  qed
qed simp

section \<open>Properties\<close>

text \<open>
  C23. The fields of a JSON object are those the rule of \<open>encoding/json\<close> selects: of the fields of a struct
  and the structs it embeds, exactly the dominant ones, each name once, in the order of the declaration.
\<close>

theorem json_fields_dominant:
  assumes "collectJSONFields letter G n [] t [] = Some (Inr cs)" "jsonFields letter G n t = Some (Inr fs)"
  shows "set fs = {f \<in> set cs. dominant cs f} \<and> distinct (map jf_name fs) \<and> sorted (map jf_index fs)"
proof -
  let ?s = "sort_key field_key cs"
  have "sort_func jsonField_before cs = ?s" by (rule sort_func_key) (rule jsonField_before_key)
  with assms have fs: "fs = sort_func (\<lambda>a b. index_before (jf_index a) (jf_index b)) (select_fields ?s)"
    by (simp add: jsonFields_def)
  have sorted_fs: "fs = sort_key jf_index (select_fields ?s)" unfolding fs by (rule sort_func_key) (rule index_before_le)
  have "distinct cs" using collect_index [OF assms(1)] by (simp add: distinct_map)
  then have "distinct ?s" "sorted (map field_key ?s)" by simp_all
  from select_fields_dominant [OF this(2,1)]
  have "set (select_fields ?s) = {f \<in> set cs. dominant ?s f}" "distinct (map jf_name (select_fields ?s))" by simp_all
  moreover have "dominant ?s f \<longleftrightarrow> dominant cs f" for f by (simp add: dominant_def)
  moreover have "distinct (map jf_name fs) \<longleftrightarrow> distinct (map jf_name (select_fields ?s))"
    unfolding sorted_fs by (metis mset_map mset_sort mset_eq_imp_distinct_iff)
  ultimately show ?thesis by (simp add: sorted_fs)
qed

text \<open>
  C25. The schema of a type is found after finitely many calls when every cycle of its types passes through a struct:
  with the fuel \<open>schema_fuel\<close> there is a result, and more fuel does not change it.
\<close>

theorem schema_terminates:
  assumes "closed_types G T" "ranked G T rank" "\<forall>t \<in> T. rank t \<le> R" "t \<in> T" "schema_fuel G T rank R [] t \<le> n"
  shows "\<exists>r. schemaFor letter G n [] t = Some r \<and> schemaFor letter G (n + k) [] t = Some r"
proof -
  obtain r where r: "schemaFor letter G n [] t = Some r" using schemaFor_ends [OF assms] by blast
  have "schemaFor letter G (n + k) [] t = Some r" by (rule schemaFor_more [OF r]) simp
  with r show ?thesis by (intro exI conjI)
qed

definition plain_type :: "go_kind \<Rightarrow> bool \<Rightarrow> go_type_info" where
  "plain_type k named = \<lparr>ty_kind = k, ty_named = named, ty_text = [], ty_time = False, ty_rawMessage = False,
     ty_jsonMarshaler = False, ty_textMarshaler = False\<rparr>"

definition plain_field :: "string \<Rightarrow> nat \<Rightarrow> struct_tag" where
  "plain_field name t = \<lparr>st_name = name, st_type = t, st_exported = True, st_anonymous = False, st_tags = (\<lambda>_. None)\<rparr>"

text \<open>A linked list: \<open>type Node struct { Next *Node; Value string }\<close>, and a slice type of itself.\<close>

definition demo_types :: type_graph where
  "demo_types t = (if t = 0 then plain_type (KStruct [plain_field ''Next'' 1, plain_field ''Value'' 2]) True
     else if t = 1 then plain_type (KPointer 0) False
     else if t = 2 then plain_type KString True
     else plain_type (KSlice t) True)"

theorem json_fields_dominant_witness:
  "let fs = [\<lparr>jf_name = ''Next'', jf_field = plain_field ''Next'' 1, jf_index = [0], jf_tagged = False\<rparr>,
             \<lparr>jf_name = ''Value'', jf_field = plain_field ''Value'' 2, jf_index = [1], jf_tagged = False\<rparr>]
   in set fs = {f \<in> set fs. dominant fs f} \<and> distinct (map jf_name fs) \<and> sorted (map jf_index fs)"
proof -
  let ?fs = "[\<lparr>jf_name = ''Next'', jf_field = plain_field ''Next'' 1, jf_index = [0], jf_tagged = False\<rparr>,
             \<lparr>jf_name = ''Value'', jf_field = plain_field ''Value'' 2, jf_index = [1], jf_tagged = False\<rparr>]"
  have c: "collectJSONFields (\<lambda>_. True) demo_types (Suc 0) [] 0 [] = Some (Inr ?fs)"
    by (simp add: demo_types_def plain_type_def plain_field_def collectJSONField_def tag_of_def tagName_def cut_def validJSONFieldName_def
      is_struct_def underlying_def)
  then have "jsonFields (\<lambda>_. True) demo_types (Suc 0) 0 = Some (Inr ?fs)"
    by (simp add: jsonFields_def sort_func_def jsonField_before_def uncontested_def)
  from json_fields_dominant [OF c this] show ?thesis by (simp only: Let_def)
qed

theorem schema_terminates_witness:
  "\<exists>r. schemaFor (\<lambda>_. True) demo_types 9 [] 0 = Some r \<and> schemaFor (\<lambda>_. True) demo_types 99 [] 0 = Some r"
proof -
  have s: "structs demo_types {0, 1, 2} = {0}"
    by (auto simp: structs_def is_struct_def demo_types_def plain_type_def)
  have "closed_types demo_types {0, 1, 2}" "ranked demo_types {0, 1, 2} (\<lambda>_. 0)"
    by (simp_all add: closed_types_def ranked_def demo_types_def plain_type_def plain_field_def element_def field_types_def is_struct_def)
  moreover have "schema_fuel demo_types {0, 1, 2} (\<lambda>_. 0) 0 [] 0 \<le> 9"
    unfolding schema_fuel_def s own_rank_def by simp
  ultimately show ?thesis using schema_terminates [of demo_types "{0, 1, 2}" "\<lambda>_. 0" 0 0 9 "\<lambda>_. True" 90] by simp
qed

text \<open>
  A slice type whose elements are of the type itself has no schema after any number of calls: \<open>visiting\<close> holds
  structs only, so that the recursion of the code never ends.
\<close>

lemma recursive_slice_diverges: "schemaFor letter demo_types n visiting 3 = None"
proof (induction n)
  case (Suc n)
  have "ty_kind (demo_types 3) = KSlice 3" by (simp add: demo_types_def plain_type_def)
  with Suc show ?case
    by (simp add: schema_step_def complexSchema_def primitiveSchema_def map_schema_def) (simp add: demo_types_def plain_type_def)
qed simp

end
