(* ===== verification/ApiDocument.thy ===== *)
theory ApiDocument
  imports ApiSchema Routing Binding
begin

text \<open>
  OpenAPI documents, \<open>openapi/config.go\<close>, \<open>openapi.go\<close>, \<open>request.go\<close>, \<open>parameters.go\<close> and \<open>handler.go\<close>: the
  validation of a configuration, the operations of an application's routes, their parameters, bodies and
  responses, and the paths with their alternatives. The JSON encoder and the media type parser are
  parameters.
\<close>

section \<open>Configuration\<close>

text \<open>A nil slice, schema or value is \<open>None\<close>; values are known by the node of their type.\<close>

type_synonym security_requirement = "(string \<times> string list) list"

record api_response =
  ar_Description :: string
  ar_Body :: "nat option"
  ar_Schema :: "string option"
  ar_ContentType :: string

record api_operation =
  ao_Summary :: string
  ao_Description :: string
  ao_Tags :: "string list"
  ao_Request :: "nat option"
  ao_RequestSchema :: "string option"
  ao_RequestContentType :: string
  ao_RequestRequired :: bool
  ao_Responses :: "(int \<times> api_response) list"
  ao_Security :: "security_requirement list option"
  ao_Hidden :: bool

record security_scheme =
  sc_Type :: string
  sc_Description :: string
  sc_Scheme :: string
  sc_BearerFormat :: string
  sc_Name :: string
  sc_In :: string

record api_config =
  ap_Title :: string
  ap_Version :: string
  ap_Description :: string
  ap_Operations :: "(string \<times> api_operation) list"
  ap_SecuritySchemes :: "(string \<times> security_scheme) list"
  ap_Security :: "security_requirement list option"

text \<open>\<open>al_media\<close> is \<open>mime.ParseMediaType\<close>, \<open>al_valid\<close> is \<open>json.Valid\<close>; \<open>al_fuel\<close> is the fuel of the schemas.\<close>

record api_lib =
  al_media :: "string \<Rightarrow> string option"
  al_valid :: "string \<Rightarrow> bool"
  al_letter :: "char \<Rightarrow> bool"
  al_graph :: type_graph
  al_fuel :: nat

definition empty_schema :: "string option \<Rightarrow> bool" where
  "empty_schema s \<longleftrightarrow> s = None \<or> s = Some []"

definition validateSchema :: "api_lib \<Rightarrow> string option \<Rightarrow> goerr option" where
  "validateSchema L schema = (case schema of None \<Rightarrow> None
   | Some s \<Rightarrow> (let trimmed = trim_space s
       in if \<not> al_valid L s \<or> (\<not> has_prefix trimmed ''{'' \<and> trimmed \<noteq> ''true'' \<and> trimmed \<noteq> ''false'')
          then Some (Opaque ''expected a JSON Schema object or boolean'') else None))"

text \<open>The first error of a loop.\<close>

fun first_error :: "('a \<Rightarrow> goerr option) \<Rightarrow> 'a list \<Rightarrow> goerr option" where
  "first_error f [] = None"
| "first_error f (x # xs) = (case f x of Some err \<Rightarrow> Some err | None \<Rightarrow> first_error f xs)"

fun or_else :: "goerr option list \<Rightarrow> goerr option" where
  "or_else [] = None"
| "or_else (x # xs) = (case x of Some err \<Rightarrow> Some err | None \<Rightarrow> or_else xs)"

definition validate_response :: "api_lib \<Rightarrow> int \<times> api_response \<Rightarrow> goerr option" where
  "validate_response L x = (case x of (status, r) \<Rightarrow> or_else
     [map_option (Wrapf (''response '' @ show_int status @ '' schema: '')) (validateSchema L (ar_Schema r)),
      if status < 100 \<or> status > 599 then Some (Opaque (''invalid response status '' @ show_int status)) else None,
      if ar_ContentType r \<noteq> [] \<and> al_media L (ar_ContentType r) = None
      then Some (Opaque (''invalid response content type '' @ ar_ContentType r)) else None])"

definition validateOperation :: "api_lib \<Rightarrow> api_operation \<Rightarrow> goerr option" where
  "validateOperation L o' = or_else
     [map_option (Wrapf ''request schema: '') (validateSchema L (ao_RequestSchema o')),
      if ao_Request o' = None \<and> empty_schema (ao_RequestSchema o') \<and> ao_RequestContentType o' \<noteq> []
      then Some (Opaque ''content type without a request'') else None,
      if ao_RequestContentType o' \<noteq> [] \<and> al_media L (ao_RequestContentType o') = None
      then Some (Opaque (''invalid request content type '' @ ao_RequestContentType o')) else None,
      first_error (validate_response L) (ao_Responses o')]"

definition validateSecurityScheme :: "string \<Rightarrow> security_scheme \<Rightarrow> goerr option" where
  "validateSecurityScheme name s =
    (if sc_Type s = ''http'' then
       (if trim_space (sc_Scheme s) = [] then Some (Opaque (''openapi: HTTP security scheme '' @ name @ '' requires a scheme'')) else None)
     else if sc_Type s = ''apiKey'' then
       (if trim_space (sc_Name s) = [] then Some (Opaque (''openapi: API-key security scheme '' @ name @ '' requires a name''))
        else if sc_In s \<noteq> ''header'' \<and> sc_In s \<noteq> ''query'' \<and> sc_In s \<noteq> ''cookie''
        then Some (Opaque (''openapi: API-key security scheme '' @ name @ '' has invalid location '' @ sc_In s)) else None)
     else Some (Opaque (''openapi: security scheme '' @ name @ '' has unsupported type '' @ sc_Type s)))"

definition validate_requirement :: "(string \<times> security_scheme) list \<Rightarrow> string \<times> string list \<Rightarrow> goerr option" where
  "validate_requirement schemes x = (case x of (name, scopes) \<Rightarrow>
     if map_of schemes name = None then Some (Opaque (''security requirement references unknown scheme '' @ name))
     else if scopes \<noteq> [] then Some (Opaque (''security scheme '' @ name @ '' does not accept OAuth scopes'')) else None)"

definition validateSecurityRequirements :: "security_requirement list option \<Rightarrow> (string \<times> security_scheme) list \<Rightarrow> goerr option" where
  "validateSecurityRequirements reqs schemes =
     first_error (first_error (validate_requirement schemes)) (case reqs of None \<Rightarrow> [] | Some rs \<Rightarrow> rs)"

definition api_validateConfig :: "api_lib \<Rightarrow> api_config \<Rightarrow> goerr option" where
  "api_validateConfig L cfg = or_else
     [if trim_space (ap_Title cfg) = [] \<or> trim_space (ap_Version cfg) = []
      then Some (Opaque ''openapi: title and version are required'') else None,
      first_error (\<lambda>(name, o'). if trim_space name = [] then Some (Opaque ''openapi: operation route name is required'')
        else map_option (Wrapf (''openapi: operation '' @ name @ '': '')) (validateOperation L o')) (ap_Operations cfg),
      first_error (\<lambda>(name, s). if trim_space name = [] then Some (Opaque ''openapi: security scheme name is required'')
        else validateSecurityScheme name s) (ap_SecuritySchemes cfg),
      validateSecurityRequirements (ap_Security cfg) (ap_SecuritySchemes cfg),
      first_error (\<lambda>(name, o'). map_option (Wrapf (''openapi: operation '' @ name @ '': ''))
        (validateSecurityRequirements (ao_Security o') (ap_SecuritySchemes cfg))) (ap_Operations cfg)]"

section \<open>Documents\<close>

datatype body_schema = RawSchema string | InferredSchema json

record parameter_doc =
  pd_Name :: string
  pd_In :: string
  pd_Required :: bool
  pd_Schema :: json

record request_body_doc =
  rb_Required :: bool
  rb_Content :: "(string \<times> body_schema) list"

record response_doc =
  rs_Description :: string
  rs_Content :: "(string \<times> body_schema) list"

record operation_fields =
  of_OperationID :: string
  of_Summary :: string
  of_Description :: string
  of_Tags :: "string list"
  of_Parameters :: "parameter_doc list"
  of_RequestBody :: "request_body_doc option"
  of_Responses :: "(string \<times> response_doc) list"
  of_Security :: "security_requirement list option"
  of_Pattern :: string

datatype operation_doc = OperationDoc (doc_fields: operation_fields) (doc_alternatives: "operation_doc list")

section \<open>Parameters\<close>

definition parameterKey :: "string \<Rightarrow> string \<Rightarrow> string" where
  "parameterKey source name = source @ [CHR 0x00] @ (if source = ''header'' then to_lower name else name)"

text \<open>\<open>None\<close> is a schema that is not found.\<close>

definition describeParameter :: "api_lib \<Rightarrow> struct_tag \<Rightarrow> string \<Rightarrow> string \<Rightarrow> string list \<Rightarrow> parameter_doc result option" where
  "describeParameter L f name source pathParameters =
    (if source = ''path'' \<and> name \<notin> set pathParameters then
       Some (Inl (Opaque (''request path field '' @ name @ '' is not present in the route'')))
     else case schemaFor (al_letter L) (al_graph L) (al_fuel L) [] (st_type f) of
       None \<Rightarrow> None
     | Some (Inl err) \<Rightarrow> Some (Inl (Wrapf (''request field '' @ st_name f @ '': '') err))
     | Some (Inr schema) \<Rightarrow> Some (Inr \<lparr>pd_Name = name, pd_In = source,
         pd_Required = (source = ''path'' \<or> requiredField f), pd_Schema = schema\<rparr>))"

text \<open>The parameters with the index of each key; a later field replaces an earlier one of its key.\<close>

type_synonym parameter_state = "parameter_doc list \<times> (string \<times> nat) list"

definition put_parameter :: "string \<Rightarrow> parameter_doc \<Rightarrow> parameter_state \<Rightarrow> parameter_state" where
  "put_parameter key p st = (case st of (ps, indexes) \<Rightarrow>
     (case map_of indexes key of
        Some existing \<Rightarrow> (ps[existing := p], indexes)
      | None \<Rightarrow> (ps @ [p], alist_put key (length ps) indexes)))"

fun field_parameters :: "api_lib \<Rightarrow> struct_tag \<Rightarrow> string list \<Rightarrow> string list \<Rightarrow> parameter_state \<Rightarrow> parameter_state result option" where
  "field_parameters L f pathParameters [] st = Some (Inr st)"
| "field_parameters L f pathParameters (source # sources) st =
    (let name = tagName (tag_of f source)
     in if name = [] \<or> name = ''-'' then field_parameters L f pathParameters sources st
        else case describeParameter L f name source pathParameters of
          None \<Rightarrow> None
        | Some (Inl err) \<Rightarrow> Some (Inl err)
        | Some (Inr p) \<Rightarrow> field_parameters L f pathParameters sources (put_parameter (parameterKey source name) p st))"

fun struct_parameters :: "api_lib \<Rightarrow> string list \<Rightarrow> struct_tag list \<Rightarrow> parameter_state \<Rightarrow> parameter_state result option" where
  "struct_parameters L pathParameters [] st = Some (Inr st)"
| "struct_parameters L pathParameters (f # fs) st =
    (if \<not> st_exported f then struct_parameters L pathParameters fs st
     else case field_parameters L f pathParameters [''path'', ''query'', ''header'', ''cookie''] st of
       None \<Rightarrow> None
     | Some (Inl err) \<Rightarrow> Some (Inl err)
     | Some (Inr st) \<Rightarrow> struct_parameters L pathParameters fs st)"

definition describeParameters :: "api_lib \<Rightarrow> nat option \<Rightarrow> string list \<Rightarrow> parameter_state \<Rightarrow> parameter_doc list result option" where
  "describeParameters L requestType pathParameters st = (case requestType of
     None \<Rightarrow> Some (Inr (fst st))
   | Some t \<Rightarrow> (case ty_kind (al_graph L t) of
       KStruct fs \<Rightarrow> map_option (map_sum id fst) (struct_parameters L pathParameters fs st)
     | _ \<Rightarrow> Some (Inr (fst st))))"

section \<open>Request bodies\<close>

definition explicit_source_tag :: "struct_tag \<Rightarrow> bool" where
  "explicit_source_tag f = list_ex (\<lambda>source. let candidate = tagName (tag_of f source) in candidate \<noteq> [] \<and> candidate \<noteq> ''-'')
     [''path'', ''query'', ''header'', ''cookie'', ''form'']"

text \<open>The name of a field in the body; \<open>None\<close> when it is not in it.\<close>

definition requestFieldName :: "struct_tag \<Rightarrow> bool \<Rightarrow> string option" where
  "requestFieldName f form =
    (if form then
       let name = tagName (tag_of f ''form'') in if name \<noteq> [] \<and> name \<noteq> ''-'' then Some name else None
     else
       let jsonTag = tag_of f ''json''; name = tagName jsonTag
       in if jsonTag = ''-'' then None
          else if explicit_source_tag f \<and> st_tags f ''json'' = None then None
          else Some (if name = [] then st_name f else name))"

definition requestFields :: "api_lib \<Rightarrow> nat \<Rightarrow> struct_tag list \<Rightarrow> bool \<Rightarrow> (string \<times> struct_tag) list result option" where
  "requestFields L t fs form =
    (if \<not> form then map_option (map_sum id (\<lambda>js. map (\<lambda>j. (jf_name j, jf_field j))
         (filter (\<lambda>j. requestFieldName (fs ! hd (jf_index j)) False \<noteq> None) js)))
       (jsonFields (al_letter L) (al_graph L) (al_fuel L) t)
     else Some (Inr (concat (map (\<lambda>f. case requestFieldName f True of
         None \<Rightarrow> [] | Some name \<Rightarrow> if st_exported f then [(name, f)] else []) fs))))"

text \<open>The loop over the fields: the map of the properties and the list of the required names.\<close>

fun property_loop :: "(struct_tag \<Rightarrow> json result option) \<Rightarrow> (string \<times> struct_tag) list \<Rightarrow>
    (string \<times> json) list \<times> string list \<Rightarrow> ((string \<times> json) list \<times> string list) result option" where
  "property_loop one [] st = Some (Inr st)"
| "property_loop one ((name, f) # fs) st = (case one f of
     None \<Rightarrow> None
   | Some (Inl err) \<Rightarrow> Some (Inl (Wrapf (''request field '' @ name @ '': '') err))
   | Some (Inr schema) \<Rightarrow> property_loop one fs
       (alist_put name schema (fst st), if requiredField f then snd st @ [name] else snd st))"

definition requestProperties :: "api_lib \<Rightarrow> nat \<Rightarrow> struct_tag list \<Rightarrow> bool \<Rightarrow> ((string \<times> json) list \<times> string list) result option" where
  "requestProperties L t fs form =
    (let schema = schemaFor (al_letter L) (al_graph L) (al_fuel L);
         one = (\<lambda>f. if form then schema [] (st_type f) else jsonFieldSchema (al_graph L) schema [] f)
     in case requestFields L t fs form of
          None \<Rightarrow> None
        | Some (Inl err) \<Rightarrow> Some (Inl err)
        | Some (Inr gs) \<Rightarrow> property_loop one gs ([], []))"

text \<open>The schema of the body of a type; \<open>None\<close> inside when there is no body.\<close>

definition requestSchema :: "api_lib \<Rightarrow> nat \<Rightarrow> string \<Rightarrow> json option result option" where
  "requestSchema L t contentType =
    (let schema = map_option (map_sum id Some) (schemaFor (al_letter L) (al_graph L) (al_fuel L) [] t)
     in case ty_kind (al_graph L t) of
       KStruct fs \<Rightarrow> (case al_media L contentType of
           None \<Rightarrow> Some (Inl (Opaque (''invalid request content type '' @ contentType)))
         | Some mediaType \<Rightarrow>
             let form = (mediaType = ''application/x-www-form-urlencoded'' \<or> mediaType = ''multipart/form-data'')
             in if \<not> form \<and> (ty_jsonMarshaler (al_graph L t) \<or> ty_textMarshaler (al_graph L t)) then schema
                else case requestProperties L t fs form of
                    None \<Rightarrow> None
                  | Some (Inl err) \<Rightarrow> Some (Inl err)
                  | Some (Inr (properties, required)) \<Rightarrow> Some (Inr (if properties = [] then None
                      else Some (object_schema properties required))))
     | _ \<Rightarrow> schema)"

definition describeRequestBody :: "api_lib \<Rightarrow> nat option \<Rightarrow> api_operation \<Rightarrow> request_body_doc option result option" where
  "describeRequestBody L requestType o' =
    (let contentType = (if ao_RequestContentType o' = [] then ''application/json'' else ao_RequestContentType o');
         body = (\<lambda>schema. Some \<lparr>rb_Required = ao_RequestRequired o', rb_Content = [(contentType, schema)]\<rparr>)
     in case ao_RequestSchema o' of
          Some (c # cs) \<Rightarrow> Some (Inr (body (RawSchema (c # cs))))
        | _ \<Rightarrow> (case requestType of
              None \<Rightarrow> Some (Inr None)
            | Some t \<Rightarrow> (case requestSchema L t contentType of
                None \<Rightarrow> None
              | Some (Inl err) \<Rightarrow> Some (Inl err)
              | Some (Inr None) \<Rightarrow> Some (Inr None)
              | Some (Inr (Some inferred)) \<Rightarrow> Some (Inr (body (InferredSchema inferred))))))"

primrec strip_pointers :: "type_graph \<Rightarrow> nat \<Rightarrow> nat \<Rightarrow> nat option" where
  "strip_pointers G 0 t = None"
| "strip_pointers G (Suc n) t = (case ty_kind (G t) of KPointer e \<Rightarrow> strip_pointers G n e | _ \<Rightarrow> Some t)"

definition route_parameters :: "string list \<Rightarrow> parameter_state" where
  "route_parameters names = foldl (\<lambda>(ps, indexes) name.
     (ps @ [\<lparr>pd_Name = name, pd_In = ''path'', pd_Required = True, pd_Schema = type_schema ''string''\<rparr>],
      alist_put (''path'' @ [CHR 0x00] @ name) (length ps) indexes)) ([], []) names"

definition describeRequest :: "api_lib \<Rightarrow> route \<Rightarrow> api_operation \<Rightarrow> (parameter_doc list \<times> request_body_doc option) result option" where
  "describeRequest L r o' =
    (let st = route_parameters (rt_Parameters r)
     in if ao_Request o' = None \<and> empty_schema (ao_RequestSchema o') then Some (Inr (fst st, None))
        else case (case ao_Request o' of None \<Rightarrow> Some None
                   | Some t \<Rightarrow> map_option Some (strip_pointers (al_graph L) (al_fuel L) t)) of
          None \<Rightarrow> None
        | Some requestType \<Rightarrow> (case describeParameters L requestType (rt_Parameters r) st of
            None \<Rightarrow> None
          | Some (Inl err) \<Rightarrow> Some (Inl err)
          | Some (Inr ps) \<Rightarrow> (case describeRequestBody L requestType o' of
              None \<Rightarrow> None
            | Some (Inl err) \<Rightarrow> Some (Inl err)
            | Some (Inr body) \<Rightarrow> Some (Inr (ps, body)))))"

section \<open>Responses\<close>

definition responseSchema :: "api_lib \<Rightarrow> api_response \<Rightarrow> body_schema result option" where
  "responseSchema L r = (case ar_Schema r of
     Some (c # cs) \<Rightarrow> Some (Inr (RawSchema (c # cs)))
   | _ \<Rightarrow> (case ar_Body r of
       None \<Rightarrow> Some (Inr (InferredSchema (JObj [])))
     | Some t \<Rightarrow> map_option (map_sum id InferredSchema) (schemaFor (al_letter L) (al_graph L) (al_fuel L) [] t)))"

definition response_description :: "int \<Rightarrow> api_response \<Rightarrow> string" where
  "response_description status r =
    (let d = ar_Description r; d = (if d = [] then StatusText status else d) in if d = [] then ''Response'' else d)"

definition describeResponse :: "api_lib \<Rightarrow> int \<Rightarrow> api_response \<Rightarrow> response_doc result option" where
  "describeResponse L status r =
    (if ar_Body r = None \<and> ar_ContentType r = [] \<and> empty_schema (ar_Schema r) then
       Some (Inr \<lparr>rs_Description = response_description status r, rs_Content = []\<rparr>)
     else case responseSchema L r of
       None \<Rightarrow> None
     | Some (Inl err) \<Rightarrow> Some (Inl (Wrapf (''response '' @ show_int status @ '': '') err))
     | Some (Inr schema) \<Rightarrow>
         let contentType = (if ar_ContentType r = [] then ''application/json'' else ar_ContentType r)
         in if al_media L contentType = None then Some (Inl (Opaque (''invalid response content type '' @ contentType)))
            else Some (Inr \<lparr>rs_Description = response_description status r, rs_Content = [(contentType, schema)]\<rparr>))"

fun response_loop :: "api_lib \<Rightarrow> (int \<times> api_response) list \<Rightarrow> (string \<times> response_doc) list result option" where
  "response_loop L [] = Some (Inr [])"
| "response_loop L ((status, r) # rest) =
    (if status < 100 \<or> status > 599 then Some (Inl (Opaque (''invalid response status '' @ show_int status)))
     else case describeResponse L status r of
       None \<Rightarrow> None
     | Some (Inl err) \<Rightarrow> Some (Inl err)
     | Some (Inr d) \<Rightarrow> (case response_loop L rest of
           None \<Rightarrow> None | Some (Inl err) \<Rightarrow> Some (Inl err) | Some (Inr ds) \<Rightarrow> Some (Inr ((show_int status, d) # ds))))"

definition describeResponses :: "api_lib \<Rightarrow> (int \<times> api_response) list \<Rightarrow> (string \<times> response_doc) list result option" where
  "describeResponses L configured =
    (if configured = [] then Some (Inr [(''200'', \<lparr>rs_Description = StatusText 200, rs_Content = []\<rparr>)])
     else response_loop L configured)"

section \<open>Paths\<close>

definition supportedMethods :: "string list" where
  "supportedMethods = [''delete'', ''get'', ''head'', ''options'', ''patch'', ''post'', ''put'', ''trace'']"

definition documentedRoute :: "route \<Rightarrow> bool \<Rightarrow> bool \<Rightarrow> bool result" where
  "documentedRoute r hidden configured =
    (if hidden then Inr False
     else if rt_Method r = [] then
       (if configured then Inl (Opaque (''openapi: configured route '' @ rt_Name r @ '' has no HTTP method'')) else Inr False)
     else if to_lower (rt_Method r) \<notin> set supportedMethods then
       Inl (Opaque (''openapi: route '' @ rt_Pattern r @ '' uses unsupported method '' @ rt_Method r))
     else Inr True)"

definition catchAllPath :: "string \<Rightarrow> bool" where
  "catchAllPath path \<longleftrightarrow> has_suffix path ''/'' \<or> has_suffix path ''...}''"

text \<open>\<open>strings.ReplaceAll(path, "{$}", "")\<close>.\<close>

function remove_ends :: "string \<Rightarrow> string" where
  "remove_ends [] = []"
| "remove_ends (c # cs) = (if has_prefix (c # cs) ''{$}'' then remove_ends (drop 3 (c # cs)) else c # remove_ends cs)"
  by pat_completeness auto
termination by (relation "measure length") auto

text \<open>The loop of \<open>documentPath\<close>.\<close>

function document_loop :: "string \<Rightarrow> string" where
  "document_loop path = (case index_byte path (CHR ''{'') of
     None \<Rightarrow> path
   | Some start \<Rightarrow> (case index_byte (drop start path) (CHR ''}'') of
       None \<Rightarrow> path
     | Some endOffset \<Rightarrow>
         let e = start + endOffset; name = trim_suffix (take (e - (start + 1)) (drop (start + 1) path)) ''...''
         in take (start + 1) path @ name @ ''}'' @ document_loop (drop (e + 1) path)))"
  by pat_completeness auto
termination
proof (relation "measure length", simp)
  fix path start endOffset e name
  assume "index_byte path (CHR ''{'') = Some start" "e = start + endOffset"
  then show "(drop (e + 1) path, path) \<in> measure length" by (auto dest: index_byte_Some)
qed

declare document_loop.simps [simp del]

definition documentPath :: "string \<Rightarrow> string" where
  "documentPath path = document_loop (remove_ends path)"

definition generateOperation :: "api_lib \<Rightarrow> route \<Rightarrow> api_operation \<Rightarrow> operation_doc result option" where
  "generateOperation L r o' = (case describeRequest L r o' of
     None \<Rightarrow> None
   | Some (Inl err) \<Rightarrow> Some (Inl (Wrapf (''openapi: route '' @ rt_Pattern r @ '': '') err))
   | Some (Inr (ps, body)) \<Rightarrow> (case describeResponses L (ao_Responses o') of
       None \<Rightarrow> None
     | Some (Inl err) \<Rightarrow> Some (Inl (Wrapf (''openapi: route '' @ rt_Pattern r @ '': '') err))
     | Some (Inr responses) \<Rightarrow> Some (Inr (OperationDoc
         \<lparr>of_OperationID = rt_Name r, of_Summary = ao_Summary o', of_Description = ao_Description o',
           of_Tags = (if ao_Tags o' = [] \<and> rt_Module r \<noteq> [] then [rt_Module r] else ao_Tags o'),
           of_Parameters = ps, of_RequestBody = body, of_Responses = responses,
           of_Security = ao_Security o', of_Pattern = []\<rparr> []))))"

definition with_pattern :: "string \<Rightarrow> operation_doc \<Rightarrow> operation_doc" where
  "with_pattern p d = OperationDoc ((doc_fields d)\<lparr>of_Pattern := p\<rparr>) (doc_alternatives d)"

text \<open>
  The paths by path and method, and the primary route of each. The code keeps a map of maps, whose inner maps
  are never empty, and joins the method and the path to the key of the second map.
\<close>

type_synonym api_key = "string \<times> string"
type_synonym api_paths = "(api_key \<times> operation_doc) list \<times> (api_key \<times> route) list"

definition addPathOperation :: "api_paths \<Rightarrow> route \<Rightarrow> operation_doc \<Rightarrow> api_paths" where
  "addPathOperation st r generated = (case st of (paths, primaryRoutes) \<Rightarrow>
     let key = (documentPath (rt_Path r), to_lower (rt_Method r))
     in case map_of paths key of
          None \<Rightarrow> (alist_put key generated paths, alist_put key r primaryRoutes)
        | Some primary \<Rightarrow>
            let previousRoute = (case map_of primaryRoutes key of Some r \<Rightarrow> r | None \<Rightarrow> empty_route)
            in if catchAllPath (rt_Pattern previousRoute) \<and> \<not> catchAllPath (rt_Pattern r) then
                 let demoted = OperationDoc ((doc_fields primary)\<lparr>of_Pattern := rt_Pattern previousRoute\<rparr>) []
                 in (alist_put key (OperationDoc (doc_fields generated) (demoted # doc_alternatives primary)) paths,
                     alist_put key r primaryRoutes)
               else (alist_put key (OperationDoc (doc_fields primary)
                       (doc_alternatives primary @ [with_pattern (rt_Pattern r) generated])) paths, primaryRoutes))"

definition zero_operation :: api_operation where
  "zero_operation = \<lparr>ao_Summary = [], ao_Description = [], ao_Tags = [], ao_Request = None, ao_RequestSchema = None,
     ao_RequestContentType = [], ao_RequestRequired = False, ao_Responses = [], ao_Security = None, ao_Hidden = False\<rparr>"

text \<open>The loop over the routes; the third component are the names seen.\<close>

fun path_loop :: "api_lib \<Rightarrow> api_config \<Rightarrow> route list \<Rightarrow> api_paths \<times> string list \<Rightarrow> (api_paths \<times> string list) result option" where
  "path_loop L cfg [] st = Some (Inr st)"
| "path_loop L cfg (r # rs) st =
    (let configured = map_of (ap_Operations cfg) (rt_Name r);
         o' = (case configured of None \<Rightarrow> zero_operation | Some o' \<Rightarrow> o');
         seen = (if configured = None then snd st else rt_Name r # snd st)
     in case documentedRoute r (ao_Hidden o') (configured \<noteq> None) of
          Inl err \<Rightarrow> Some (Inl err)
        | Inr False \<Rightarrow> path_loop L cfg rs (fst st, seen)
        | Inr True \<Rightarrow> (case generateOperation L r o' of
            None \<Rightarrow> None
          | Some (Inl err) \<Rightarrow> Some (Inl err)
          | Some (Inr generated) \<Rightarrow> path_loop L cfg rs (addPathOperation (fst st) r generated, seen)))"

definition generatePaths :: "api_lib \<Rightarrow> route list \<Rightarrow> api_config \<Rightarrow> (api_key \<times> operation_doc) list result option" where
  "generatePaths L routes cfg = (case path_loop L cfg routes (([], []), []) of
     None \<Rightarrow> None
   | Some (Inl err) \<Rightarrow> Some (Inl err)
   | Some (Inr ((paths, _), seen)) \<Rightarrow> (case find (\<lambda>name. name \<notin> set seen) (keys (ap_Operations cfg)) of
         Some name \<Rightarrow> Some (Inl (Opaque (''openapi: operation '' @ name @ '' does not match a named route'')))
       | None \<Rightarrow> Some (Inr paths)))"

section \<open>The document\<close>

text \<open>\<open>omitempty\<close> fields that are not set are empty strings. A scheme is written with the fields of its type.\<close>

definition securitySchemeDocument :: "security_scheme \<Rightarrow> security_scheme" where
  "securitySchemeDocument s =
    (if sc_Type s = ''http'' then \<lparr>sc_Type = sc_Type s, sc_Description = sc_Description s, sc_Scheme = sc_Scheme s,
        sc_BearerFormat = sc_BearerFormat s, sc_Name = [], sc_In = []\<rparr>
     else \<lparr>sc_Type = sc_Type s, sc_Description = sc_Description s, sc_Scheme = [], sc_BearerFormat = [],
        sc_Name = sc_Name s, sc_In = sc_In s\<rparr>)"

record api_document =
  dm_OpenAPI :: string
  dm_Dialect :: string
  dm_Title :: string
  dm_Version :: string
  dm_Description :: string
  dm_Paths :: "(api_key \<times> operation_doc) list"
  dm_Components :: "(string \<times> security_scheme) list option"
  dm_Security :: "security_requirement list option"

definition configComponents :: "api_config \<Rightarrow> (string \<times> security_scheme) list option" where
  "configComponents cfg = (if ap_SecuritySchemes cfg = [] then None
     else Some (map (\<lambda>(name, s). (name, securitySchemeDocument s)) (ap_SecuritySchemes cfg)))"

definition api_document :: "api_config \<Rightarrow> (api_key \<times> operation_doc) list \<Rightarrow> api_document" where
  "api_document cfg paths = \<lparr>dm_OpenAPI = ''3.1.0'', dm_Dialect = ''https://json-schema.org/draft/2020-12/schema'',
     dm_Title = ap_Title cfg, dm_Version = ap_Version cfg, dm_Description = ap_Description cfg, dm_Paths = paths,
     dm_Components = configComponents cfg, dm_Security = ap_Security cfg\<rparr>"

text \<open>\<open>routes\<close> is what \<open>App.Routes\<close> gives, \<open>None\<close> for a nil application; \<open>encode\<close> is \<open>json.MarshalIndent\<close>.\<close>

definition Generate :: "api_lib \<Rightarrow> (api_document \<Rightarrow> string result) \<Rightarrow> route list result option \<Rightarrow> api_config \<Rightarrow> string result option" where
  "Generate L encode routes cfg = (case routes of
     None \<Rightarrow> Some (Inl (Opaque ''openapi: nil application''))
   | Some routes \<Rightarrow> (case api_validateConfig L cfg of
       Some err \<Rightarrow> Some (Inl err)
     | None \<Rightarrow> (case routes of
         Inl err \<Rightarrow> Some (Inl (Wrapf ''openapi: build application: '' err))
       | Inr routes \<Rightarrow> (case generatePaths L routes cfg of
           None \<Rightarrow> None
         | Some (Inl err) \<Rightarrow> Some (Inl err)
         | Some (Inr paths) \<Rightarrow> (case encode (api_document cfg paths) of
             Inl err \<Rightarrow> Some (Inl (Wrapf ''openapi: encode document: '' err))
           | Inr encoded \<Rightarrow> Some (Inr (encoded @ [CHR 0x0A])))))))"

section \<open>The handler\<close>

text \<open>The \<open>sync.Once\<close> with what \<open>Generate\<close> gave the first time.\<close>

definition newDocumentHandler :: "api_lib \<Rightarrow> bool \<Rightarrow> api_config \<Rightarrow> api_config result" where
  "newDocumentHandler L nilApp cfg = (if nilApp then Inl (Opaque ''openapi: nil application'')
     else case api_validateConfig L cfg of Some err \<Rightarrow> Inl err | None \<Rightarrow> Inr cfg)"

definition document_load :: "string result \<Rightarrow> string result option \<Rightarrow> string result option \<times> goerr option" where
  "document_load generated once =
    (let x = (case once of None \<Rightarrow> generated | Some x \<Rightarrow> x)
     in (Some x, case x of Inl err \<Rightarrow> Some err | Inr _ \<Rightarrow> None))"

text \<open>The status, the content type and the body of the answer.\<close>

definition document_ServeHTTP :: "string result \<Rightarrow> string result option \<Rightarrow> string result option \<times> int \<times> string \<times> string" where
  "document_ServeHTTP generated once = (case document_load generated once of
     (once, Some err) \<Rightarrow> (once, 500, ''text/plain; charset=utf-8'', ''OpenAPI document unavailable'' @ [CHR 0x0A])
   | (once, None) \<Rightarrow> (once, 200, ''application/vnd.oai.openapi+json;version=3.1'',
       case once of Some (Inr d) \<Rightarrow> d | _ \<Rightarrow> []))"

text \<open>The pattern \<open>Mount\<close> registers its handler with; it also loads the document on start.\<close>

definition Mount :: "api_lib \<Rightarrow> bool \<Rightarrow> string \<Rightarrow> api_config \<Rightarrow> string result" where
  "Mount L nilApp path cfg =
    (if \<not> has_prefix path ''/'' \<or> contains_any path [CHR '' '', CHR 0x09, CHR 0x0D, CHR 0x0A, CHR ''?'', CHR ''#''] then
       Inl (Opaque (''openapi: invalid documentation path '' @ path))
     else case newDocumentHandler L nilApp cfg of Inl err \<Rightarrow> Inl err | Inr _ \<Rightarrow> Inr (''GET '' @ path))"

section \<open>Routes and their operations\<close>

text \<open>The routes that are documented, each with the operation generated for it.\<close>

fun path_docs :: "api_lib \<Rightarrow> api_config \<Rightarrow> route list \<Rightarrow> (route \<times> operation_doc) list" where
  "path_docs L cfg [] = []"
| "path_docs L cfg (r # rs) =
    (let configured = map_of (ap_Operations cfg) (rt_Name r);
         o' = (case configured of None \<Rightarrow> zero_operation | Some o' \<Rightarrow> o')
     in case (documentedRoute r (ao_Hidden o') (configured \<noteq> None), generateOperation L r o') of
          (Inr True, Some (Inr d)) \<Rightarrow> (r, d) # path_docs L cfg rs
        | _ \<Rightarrow> path_docs L cfg rs)"

definition route_key :: "route \<Rightarrow> api_key" where
  "route_key r = (documentPath (rt_Path r), to_lower (rt_Method r))"

definition patterned :: "route \<times> operation_doc \<Rightarrow> operation_fields" where
  "patterned x = (doc_fields (snd x))\<lparr>of_Pattern := rt_Pattern (fst x)\<rparr>"

definition of_api_key :: "api_key \<Rightarrow> (route \<times> operation_doc) list \<Rightarrow> (route \<times> operation_doc) list" where
  "of_api_key key xs = filter (\<lambda>x. route_key (fst x) = key) xs"

text \<open>The entry \<open>doc\<close> of a key with the routes \<open>ds\<close>, the primary one among them.\<close>

definition entry_ok :: "(route \<times> operation_doc) list \<Rightarrow> operation_doc \<Rightarrow> route \<times> operation_doc \<Rightarrow> bool" where
  "entry_ok ds doc x \<longleftrightarrow> x \<in> set ds \<and> doc_fields doc = doc_fields (snd x) \<and>
     add_mset (patterned x) (mset (map doc_fields (doc_alternatives doc))) = mset (map patterned ds) \<and>
     (catchAllPath (rt_Pattern (fst x)) \<longrightarrow> (\<forall>y \<in> set ds. catchAllPath (rt_Pattern (fst y))))"

definition path_slot :: "(route \<times> operation_doc) list \<Rightarrow> operation_doc option \<Rightarrow> route option \<Rightarrow> bool" where
  "path_slot ds doc primary = (case doc of None \<Rightarrow> ds = []
   | Some doc \<Rightarrow> (\<exists>x. primary = Some (fst x) \<and> entry_ok ds doc x))"

definition paths_inv :: "(route \<times> operation_doc) list \<Rightarrow> api_paths \<Rightarrow> bool" where
  "paths_inv xs st \<longleftrightarrow> (\<forall>key. path_slot (of_api_key key xs) (map_of (fst st) key) (map_of (snd st) key))"

lemma generated_plain: "generateOperation L r o' = Some (Inr d) \<Longrightarrow> doc_alternatives d = [] \<and> of_Pattern (doc_fields d) = []"
  by (auto simp: generateOperation_def split: option.splits sum.splits prod.splits)

lemma path_docs_plain: "x \<in> set (path_docs L cfg rs) \<Longrightarrow> doc_alternatives (snd x) = []"
  by (induction rs) (auto simp: Let_def generated_plain split: option.splits sum.splits bool.splits)

lemma path_loop_docs:
  "path_loop L cfg rs st = Some (Inr st') \<Longrightarrow> fst st' = foldl (\<lambda>st x. addPathOperation st (fst x) (snd x)) (fst st) (path_docs L cfg rs)"
  by (induction rs arbitrary: st) (auto simp: Let_def split: option.splits sum.splits bool.splits)

lemma of_api_key_snoc: "of_api_key key (xs @ [x]) = of_api_key key xs @ (if route_key (fst x) = key then [x] else [])"
  by (simp add: of_api_key_def)

lemma paths_inv_slot: "paths_inv xs st \<Longrightarrow> path_slot (of_api_key key xs) (map_of (fst st) key) (map_of (snd st) key)"
  unfolding paths_inv_def by (rule spec)

lemma paths_inv_put:
  assumes "paths_inv xs (paths, primaries)" "entry_ok (of_api_key (route_key r) (xs @ [(r, d)])) doc x"
  shows "paths_inv (xs @ [(r, d)]) (alist_put (route_key r) doc paths, alist_put (route_key r) (fst x) primaries)"
proof -
  have "path_slot (of_api_key key (xs @ [(r, d)])) (map_of (alist_put (route_key r) doc paths) key)
      (map_of (alist_put (route_key r) (fst x) primaries) key)" for key
  proof (cases "key = route_key r")
    case True
    with assms(2) show ?thesis by (simp add: path_slot_def) (rule exI [of _ "snd x"], simp)
  next
    case False
    then have "of_api_key key (xs @ [(r, d)]) = of_api_key key xs" by (simp add: of_api_key_snoc)
    with False paths_inv_slot [OF assms(1), of key] show ?thesis by simp
  qed
  then show ?thesis unfolding paths_inv_def fst_conv snd_conv by (rule allI)
qed

lemma addPath_inv:
  assumes "paths_inv xs st" "doc_alternatives d = []"
  shows "paths_inv (xs @ [(r, d)]) (addPathOperation st r d)"
proof -
  obtain paths primaries where st: "st = (paths, primaries)" by fastforce
  let ?k = "route_key r"
  have slot: "path_slot (of_api_key ?k xs) (map_of paths ?k) (map_of primaries ?k)" using paths_inv_slot [OF assms(1), of ?k] by (simp add: st)
  note put = paths_inv_put [OF assms(1) [unfolded st]]
  show ?thesis
  proof (cases "map_of paths ?k")
    case None
    with slot have "of_api_key ?k xs = []" by (simp add: path_slot_def)
    then have "entry_ok (of_api_key ?k (xs @ [(r, d)])) d (r, d)" using assms(2) by (simp add: entry_ok_def of_api_key_snoc)
    from put [OF this] None show ?thesis by (simp add: addPathOperation_def st Let_def route_key_def [symmetric])
  next
    case (Some primary)
    with slot obtain x where x: "map_of primaries ?k = Some (fst x)" "entry_ok (of_api_key ?k xs) primary x"
      by (auto simp: path_slot_def)
    show ?thesis
    proof (cases "catchAllPath (rt_Pattern (fst x)) \<and> \<not> catchAllPath (rt_Pattern r)")
      case True
      let ?doc = "OperationDoc (doc_fields d) (OperationDoc ((doc_fields primary)\<lparr>of_Pattern := rt_Pattern (fst x)\<rparr>) [] # doc_alternatives primary)"
      have "entry_ok (of_api_key ?k (xs @ [(r, d)])) ?doc (r, d)"
        using x(2) True by (auto simp: entry_ok_def of_api_key_snoc patterned_def)
      from put [OF this] Some x(1) True show ?thesis
        by (simp add: addPathOperation_def st Let_def route_key_def [symmetric])
    next
      case False
      let ?doc = "OperationDoc (doc_fields primary) (doc_alternatives primary @ [with_pattern (rt_Pattern r) d])"
      have "entry_ok (of_api_key ?k (xs @ [(r, d)])) ?doc x"
        using x(2) False by (auto simp: entry_ok_def of_api_key_snoc patterned_def with_pattern_def add_mset_commute)
      then have "paths_inv (xs @ [(r, d)]) (alist_put ?k ?doc paths, alist_put ?k (fst x) primaries)" by (rule put)
      then have "paths_inv (xs @ [(r, d)]) (alist_put ?k ?doc paths, primaries)"
        using x(1) by (auto simp: paths_inv_def fun_upd_idem)
      with Some x(1) False show ?thesis by (auto simp: addPathOperation_def st Let_def route_key_def [symmetric])
    qed
  qed
qed

lemma paths_inv_all:
  assumes "\<And>x. x \<in> set xs \<Longrightarrow> doc_alternatives (snd x) = []"
  shows "paths_inv xs (foldl (\<lambda>st x. addPathOperation st (fst x) (snd x)) ([], []) xs)"
  using assms
proof (induction xs rule: rev_induct)
  case Nil
  then show ?case by (simp add: paths_inv_def of_api_key_def path_slot_def)
next
  case (snoc x xs)
  then have "paths_inv (xs @ [(fst x, snd x)]) (addPathOperation (foldl (\<lambda>st x. addPathOperation st (fst x) (snd x)) ([], []) xs) (fst x) (snd x))"
    by (intro addPath_inv) auto
  then show ?case by simp
qed

section \<open>Documented paths\<close>

lemma remove_ends_skip: "CHR ''{'' \<notin> set a \<Longrightarrow> remove_ends (a @ s) = a @ remove_ends s"
  by (induction a) (auto simp: has_prefix_def)

lemma remove_ends_end: "remove_ends (''{$}'' @ s) = remove_ends s"
  by (simp add: has_prefix_def)

lemma remove_ends_brace:
  assumes "CHR ''{'' \<notin> set n" "CHR ''}'' \<notin> set n" "n \<noteq> ''$''"
  shows "remove_ends (CHR ''{'' # n @ CHR ''}'' # s) = CHR ''{'' # n @ CHR ''}'' # remove_ends s"
proof -
  have "\<not> has_prefix (CHR ''{'' # n @ CHR ''}'' # s) ''{$}''"
  proof
    assume "has_prefix (CHR ''{'' # n @ CHR ''}'' # s) ''{$}''"
    then obtain t where "n @ CHR ''}'' # s = CHR ''$'' # CHR ''}'' # t" by (auto simp: has_prefix_iff prefix_def)
    with assms(2,3) show False by (cases n; cases "tl n") auto
  qed
  moreover have "remove_ends ((n @ ''}'') @ s) = (n @ ''}'') @ remove_ends s" by (rule remove_ends_skip) (use assms in simp)
  ultimately show ?thesis by simp
qed

lemma remove_ends_last: "a = [] \<or> last a = CHR ''/'' \<Longrightarrow> remove_ends (a @ ''{$}'') = remove_ends a"
proof (induction a rule: remove_ends.induct)
  case 1
  then show ?case by (simp add: has_prefix_def)
next
  case (2 c cs)
  show ?case
  proof (cases "has_prefix (c # cs) ''{$}''")
    case True
    then obtain t where t: "c # cs = ''{$}'' @ t" by (auto simp: has_prefix_iff prefix_def)
    with "2.prems" have "t = [] \<or> last t = CHR ''/''" by (cases t) auto
    with "2.IH"(1) [OF True] t show ?thesis by (simp add: has_prefix_def)
  next
    case False
    have "\<not> has_prefix ((c # cs) @ ''{$}'') ''{$}''"
    proof
      assume p: "has_prefix ((c # cs) @ ''{$}'') ''{$}''"
      show False
      proof (cases cs)
        case Nil
        with p "2.prems" show ?thesis by (auto simp: has_prefix_def)
      next
        case (Cons d ds)
        with p False "2.prems" show ?thesis by (cases ds) (auto simp: has_prefix_def)
      qed
    qed
    moreover have "cs = [] \<or> last cs = CHR ''/''" using "2.prems" by (auto split: if_splits)
    ultimately show ?thesis using "2.IH"(2) [OF False] False by simp
  qed
qed

declare remove_ends.simps(2) [simp del]

lemma document_loop_skip: "CHR ''{'' \<notin> set a \<Longrightarrow> document_loop (a @ s) = a @ document_loop s"
proof -
  assume a: "CHR ''{'' \<notin> set a"
  show ?thesis
  proof (cases "index_byte s (CHR ''{'')")
    case None
    with a have "index_byte (a @ s) (CHR ''{'') = None" by simp
    with None show ?thesis by (simp only: document_loop.simps [of "a @ s"] document_loop.simps [of s] option.case)
  next
    case (Some k)
    have "index_byte (a @ s) (CHR ''{'') = Some (length a + k)" using a Some by (induction a) auto
    with Some show ?thesis
      by (cases "index_byte (drop k s) (CHR ''}'')")
        (simp_all add: document_loop.simps [of "a @ s"] document_loop.simps [of s] Let_def add.assoc del: index_byte_None)
  qed
qed

lemma document_loop_brace:
  assumes "CHR ''}'' \<notin> set n"
  shows "document_loop (CHR ''{'' # n @ CHR ''}'' # s) = CHR ''{'' # trim_suffix n ''...'' @ CHR ''}'' # document_loop s"
proof -
  have "index_byte (n @ CHR ''}'' # s) (CHR ''}'') = Some (length n)" using assms by (induction n) auto
  then show ?thesis by (subst document_loop.simps) (simp add: Let_def)
qed

lemma document_segment:
  assumes "mux_segment_of l s = Some m"
  shows "\<exists>d. (\<forall>t. documentPath (s @ t) = d @ documentPath t) \<and> (\<forall>u. routeParameterNames (d @ u) = segment_names [m] @ routeParameterNames u)"
proof (cases "CHR ''{'' \<in> set s")
  case False
  with segment_name [OF assms] show ?thesis
    by (intro exI [of _ s]) (simp add: documentPath_def remove_ends_skip document_loop_skip)
next
  case True
  define n where "n = take (length s - 2) (drop (Suc 0) s)"
  have pre: "has_prefix s ''{''" "has_suffix s ''}''"
    using assms True by (auto simp: mux_segment_of_def split: if_splits)
  then have s: "s = CHR ''{'' # n @ [CHR ''}'']" using braced [OF pre] by (simp add: n_def)
  consider "n = ''$''" "m = End" | "has_suffix n ''...''" "wild_name (trim_suffix n ''...'')" "m = Multi (trim_suffix n ''...'')"
    | "\<not> has_suffix n ''...''" "wild_name n" "m = One n"
    using assms True pre by (auto simp: mux_segment_of_def Let_def n_def [symmetric] split: if_splits)
  then show ?thesis
  proof cases
    case 1
    then show ?thesis using remove_ends_end [unfolded append_Cons append_Nil]
      by (intro exI [of _ "[]"]) (simp add: s documentPath_def segment_names_def)
  next
    case 2
    then obtain a where a: "n = a @ ''...''" by (auto simp: has_suffix_iff suffix_def)
    with 2 have w: "wild_name a" "m = Multi a" "trim_suffix n ''...'' = a" by (simp_all only: trim_suffix_append)
    have n: "CHR ''{'' \<notin> set n" "CHR ''}'' \<notin> set n" "n \<noteq> ''$''" using w a by (auto simp: wild_name_def)
    have "documentPath (s @ t) = (CHR ''{'' # a @ ''}'') @ documentPath t" for t
      using n by (simp add: s documentPath_def remove_ends_brace document_loop_brace w)
    moreover have "routeParameterNames ((CHR ''{'' # a @ ''}'') @ u) = segment_names [m] @ routeParameterNames u" for u
    proof -
      have "mux_segment_of True (CHR ''{'' # a @ ''}'') = Some (One a)" if "\<not> has_suffix a ''...''"
        using that w by (auto simp: mux_segment_of_def has_prefix_def has_suffix_def wild_name_def Let_def)
      moreover have "\<not> has_suffix a ''...''" using w(1) by (auto simp: has_suffix_iff suffix_def wild_name_def)
      ultimately show ?thesis using segment_name [of True "CHR ''{'' # a @ ''}''" "One a" u] w(2) by (simp add: segment_names_def)
    qed
    ultimately show ?thesis by blast
  next
    case 3
    have n: "CHR ''{'' \<notin> set n" "CHR ''}'' \<notin> set n" "n \<noteq> ''$''" using 3 by (auto simp: wild_name_def)
    have "documentPath (s @ t) = s @ documentPath t" for t
      using n 3 by (simp add: s documentPath_def remove_ends_brace document_loop_brace)
    with segment_name [OF assms] show ?thesis by blast
  qed
qed

lemma documentPath_slash: "documentPath (CHR ''/'' # t) = CHR ''/'' # documentPath t"
  using remove_ends_skip [of "''/''" t] document_loop_skip [of "''/''"] by (simp add: documentPath_def)

lemma document_segments:
  "mux_parse_segments ss = Some ms \<Longrightarrow> routeParameterNames (documentPath (join_with ''/'' ss)) = segment_names ms"
proof (induction ss arbitrary: ms)
  case Nil
  then show ?case by (simp add: documentPath_def document_loop.simps segment_names_def)
next
  case (Cons s ss)
  from Cons.prems obtain m ms' where m: "mux_segment_of (ss = []) s = Some m" "mux_parse_segments ss = Some ms'" "ms = m # ms'"
    by (auto split: option.splits)
  from document_segment [OF m(1)] obtain d where d: "\<And>t. documentPath (s @ t) = d @ documentPath t"
    "\<And>u. routeParameterNames (d @ u) = segment_names [m] @ routeParameterNames u" by blast
  have names: "segment_names ms = segment_names [m] @ segment_names ms'" by (simp add: m segment_names_def)
  show ?case
  proof (cases ss)
    case Nil
    with m have "ms' = []" by simp
    with Nil d(1) [of "[]"] d(2) [of "documentPath []"] names show ?thesis
      by (simp add: documentPath_def document_loop.simps segment_names_def)
  next
    case (Cons x xs)
    have "documentPath (join_with ''/'' (s # ss)) = d @ CHR ''/'' # documentPath (join_with ''/'' ss)"
      using Cons d(1) [of "CHR ''/'' # join_with ''/'' ss"] by (simp add: documentPath_slash)
    then show ?thesis using Cons.IH [OF m(2)] d(2) names routeParameterNames_skip [of "''/''"] by simp
  qed
qed

section \<open>Properties\<close>

text \<open>
  C24. No documented route is lost and none is made up: the entry of a path and method exists exactly when a
  route has this key, and its alternatives together with the primary one are the operations
  generated for these routes, each with its pattern. A catch-all route is the primary one only when every route of
  the key is a catch-all.
\<close>

theorem api_paths_complete:
  assumes "generatePaths L routes cfg = Some (Inr paths)"
  shows "let ds = of_api_key key (path_docs L cfg routes) in
    case map_of paths key of
      None \<Rightarrow> ds = []
    | Some doc \<Rightarrow> (\<exists>x. x \<in> set ds \<and> doc_fields doc = doc_fields (snd x) \<and>
        add_mset (patterned x) (mset (map doc_fields (doc_alternatives doc))) = mset (map patterned ds) \<and>
        (catchAllPath (rt_Pattern (fst x)) \<longrightarrow> (\<forall>y \<in> set ds. catchAllPath (rt_Pattern (fst y)))))"
proof -
  from assms obtain primaries seen where "path_loop L cfg routes (([], []), []) = Some (Inr ((paths, primaries), seen))"
    by (auto simp: generatePaths_def split: option.splits sum.splits prod.splits)
  from path_loop_docs [OF this]
  have st: "(paths, primaries) = foldl (\<lambda>st x. addPathOperation st (fst x) (snd x)) ([], []) (path_docs L cfg routes)" by simp
  have "paths_inv (path_docs L cfg routes) (paths, primaries)"
    unfolding st by (rule paths_inv_all) (rule path_docs_plain)
  from paths_inv_slot [OF this, of key] show ?thesis
    by (auto simp: path_slot_def entry_ok_def Let_def split: option.splits)
qed

definition demo_api_lib :: api_lib where
  "demo_api_lib = \<lparr>al_media = Some, al_valid = (\<lambda>s. True), al_letter = (\<lambda>c. True),
     al_graph = (\<lambda>t. go_type_info.make KString False [] False False False False), al_fuel = 10\<rparr>"

definition demo_api_config :: api_config where
  "demo_api_config = \<lparr>ap_Title = ''T'', ap_Version = ''1'', ap_Description = [], ap_Operations = [], ap_SecuritySchemes = [],
     ap_Security = None\<rparr>"

text \<open>Two routes of one documented path.\<close>

definition demo_api_routes :: "route list" where
  "demo_api_routes = [handle_route ''GET'' ''/f/{p...}'', handle_route ''GET'' ''/f/{p}'']"

lemma demo_api_operations: "ap_Operations demo_api_config = []"
  by (simp add: demo_api_config_def)

lemmas demo_api_defs = demo_api_operations zero_operation_def documentedRoute_def generateOperation_def describeRequest_def
  describeResponses_def empty_schema_def supportedMethods_def

text \<open>The document of a route with one parameter of its path and no configuration.\<close>

definition demo_operation :: operation_doc where
  "demo_operation = OperationDoc \<lparr>of_OperationID = [], of_Summary = [], of_Description = [], of_Tags = [],
     of_Parameters = [\<lparr>pd_Name = ''p'', pd_In = ''path'', pd_Required = True, pd_Schema = type_schema ''string''\<rparr>],
     of_RequestBody = None, of_Responses = [(''200'', \<lparr>rs_Description = StatusText 200, rs_Content = []\<rparr>)],
     of_Security = None, of_Pattern = []\<rparr> []"

lemma demo_route_fields:
  assumes "q = ''p'' \<or> q = ''p...''"
  defines "r \<equiv> handle_route ''GET'' (''/f/{'' @ q @ ''}'')"
  shows "rt_Method r = ''GET''" "rt_Name r = []" "rt_Module r = []" "rt_Parameters r = [''p'']"
    "rt_Path r = ''/f/{'' @ q @ ''}''"
  using assms(1)
  by (auto simp: r_def handle_route_def normalizePath_def has_prefix_def routePattern_def has_suffix_def empty_route_def
      to_upper_def upper_char_def visible_def Let_def routeParameterNames.simps cut_def parameter_name_def trim_suffix_def)

lemma demo_documentPath: "documentPath ''/f/{p...}'' = ''/f/{p}''" "documentPath ''/f/{p}'' = ''/f/{p}''"
  by (simp_all add: documentPath_def document_loop.simps remove_ends.simps has_prefix_def trim_suffix_def has_suffix_def)

lemma demo_to_lower: "to_lower ''GET'' = ''get''"
  by code_simp

lemma demo_api_step:
  assumes "q = ''p'' \<or> q = ''p...''"
  shows "path_docs demo_api_lib demo_api_config (handle_route ''GET'' (''/f/{'' @ q @ ''}'') # rs) =
      (handle_route ''GET'' (''/f/{'' @ q @ ''}''), demo_operation) # path_docs demo_api_lib demo_api_config rs"
    "path_loop demo_api_lib demo_api_config (handle_route ''GET'' (''/f/{'' @ q @ ''}'') # rs) st =
      path_loop demo_api_lib demo_api_config rs
        (addPathOperation (fst st) (handle_route ''GET'' (''/f/{'' @ q @ ''}'')) demo_operation, snd st)"
  using demo_route_fields [OF assms]
  by (simp_all add: demo_api_defs demo_operation_def route_parameters_def demo_to_lower Let_def)

lemma demo_api_paths:
  "\<exists>paths. generatePaths demo_api_lib demo_api_routes demo_api_config = Some (Inr paths)"
  using demo_api_step [of "''p''"] demo_api_step [of "''p...''"]
  by (simp add: demo_api_routes_def generatePaths_def demo_api_operations keys_def split: prod.split del: path_loop.simps(2))

lemma demo_api_docs:
  "length (of_api_key (''/f/{p}'', ''get'') (path_docs demo_api_lib demo_api_config demo_api_routes)) = 2"
  using demo_api_step [of "''p''"] demo_api_step [of "''p...''"] demo_route_fields [of "''p''"] demo_route_fields [of "''p...''"]
  by (simp add: demo_api_routes_def of_api_key_def route_key_def demo_documentPath demo_to_lower del: path_docs.simps(2) path_loop.simps(2))

theorem api_paths_complete_witness:
  "\<exists>paths doc. generatePaths demo_api_lib demo_api_routes demo_api_config = Some (Inr paths) \<and>
     map_of paths (''/f/{p}'', ''get'') = Some doc \<and> length (doc_alternatives doc) = 1"
proof -
  obtain paths where p: "generatePaths demo_api_lib demo_api_routes demo_api_config = Some (Inr paths)"
    using demo_api_paths by blast
  let ?ds = "of_api_key (''/f/{p}'', ''get'') (path_docs demo_api_lib demo_api_config demo_api_routes)"
  from api_paths_complete [OF p, of "(''/f/{p}'', ''get'')"] demo_api_docs
  obtain doc x where d: "map_of paths (''/f/{p}'', ''get'') = Some doc"
    "add_mset (patterned x) (mset (map doc_fields (doc_alternatives doc))) = mset (map patterned ?ds)"
    by (fastforce simp: Let_def split: option.splits)
  from arg_cong [OF d(2), of size] demo_api_docs have "length (doc_alternatives doc) = 1" by simp
  with p d(1) show ?thesis by blast
qed

text \<open>
  The document names the parameters of the route: in the path of the document of a route that \<open>App.Handle\<close> or
  \<open>Group.Handle\<close> registers and ServeMux accepts, the names in braces are the route's parameters, in their order.
\<close>

theorem api_path_parameters:
  assumes "r = handle_route md p \<or> r = group_route pre md p" "CHR ''/'' \<notin> set md"
    and "mux_parse (rt_Pattern r) = Some ms"
  shows "routeParameterNames (documentPath (rt_Path r)) = rt_Parameters r"
proof -
  have reg: "registered r" by (rule registered_routes [OF assms(1,2)])
  then obtain before p where r: "CHR ''/'' \<notin> set before" "rt_Path r = ''/'' @ p"
    "rt_Pattern r = before @ ''/'' @ p \<or> (p = [] \<or> last p = CHR ''/'') \<and> rt_Pattern r = before @ ''/'' @ p @ ''{$}''"
    by (auto simp: registered_def)
  define q where "q = (if rt_Pattern r = before @ ''/'' @ p then p else p @ ''{$}'')"
  have q: "rt_Pattern r = before @ CHR ''/'' # q" using r(3) by (auto simp: q_def)
  define ss where "ss = split_byte (CHR ''/'') q"
  have ms: "mux_parse_segments ss = Some ms"
    using assms(3) r(1) by (auto simp: mux_parse_def q ss_def split: if_splits option.splits)
  have "remove_ends p = remove_ends q" using r(3) remove_ends_last [of p] by (auto simp: q_def)
  then have "documentPath (rt_Path r) = CHR ''/'' # documentPath q"
    using r(2) documentPath_slash [of p] by (simp add: documentPath_def)
  moreover have "routeParameterNames (documentPath q) = segment_names ms"
    using document_segments [OF ms] join_split [of "CHR ''/''" q] by (simp add: ss_def)
  moreover have "rt_Parameters r = segment_names ms" using registered_segments [OF reg assms(3)] by blast
  ultimately show ?thesis using routeParameterNames_skip [of "''/''"] by simp
qed

theorem api_path_parameters_witness:
  "routeParameterNames (documentPath (rt_Path demo_route)) = [''id'', ''path'']"
  using api_path_parameters [OF disjI1 [OF demo_route_def] _ demo_route_parse] by (simp add: demo_route_names)

end
