(* ===== verification/Config.thy ===== *)
theory Config
  imports Binding "HOL-Library.Word"
begin

text \<open>
  Typed configuration, \<open>config/config.go\<close> and \<open>config/http.go\<close>: JSON files in their order, then the environment, then
  the validator. The type of the destination, which the code walks by reflection, is data here, and so are its
  values; a pointer owns what it leads to, and types are not recursive. Files, the JSON decoder, durations, floats and
  \<open>UnmarshalText\<close> are parameters.
\<close>

section \<open>Types and values\<close>

text \<open>
  \<open>TextC k\<close> is a type other than a struct whose pointer implements \<open>encoding.TextUnmarshaler\<close>, as does
  that of a struct type with a mark; \<open>OtherC\<close> is any type that text cannot set.
\<close>

datatype cfg_type =
    StringC | BoolC | IntC nat | UintC nat | FloatC nat | DurationC | TextC nat | PointerC cfg_type
  | StructC "nat option" "cfg_field list" | OtherC nat
and cfg_field = CfgField (cf_name: string) (cf_exported: bool) (cf_env: "string option") (cf_type: cfg_type)

datatype cfg_val =
    StringW string | BoolW bool | IntW int | UintW nat | FloatW string | TextW string | NilW | PtrW cfg_val
  | StructW "cfg_val list" | OtherW string

lemma field_type_size [termination_simp]: "f \<in> set fs \<Longrightarrow> size (cf_type f) < Suc (size_list size fs)"
proof (induction fs)
  case (Cons g fs)
  have "size (cf_type g) < Suc (size g)" by (cases g) simp
  with Cons show ?case by auto
qed simp

fun cfg_zero :: "cfg_type \<Rightarrow> cfg_val" where
  "cfg_zero StringC = StringW []"
| "cfg_zero BoolC = BoolW False"
| "cfg_zero (IntC n) = IntW 0"
| "cfg_zero (UintC n) = UintW 0"
| "cfg_zero (FloatC n) = FloatW ''0''"
| "cfg_zero DurationC = IntW 0"
| "cfg_zero (TextC k) = TextW []"
| "cfg_zero (PointerC t) = NilW"
| "cfg_zero (StructC k fs) = StructW (map (\<lambda>f. cfg_zero (cf_type f)) fs)"
| "cfg_zero (OtherC k) = OtherW []"

text \<open>\<open>UnmarshalText\<close> may change its receiver before it fails. \<open>cl_typeText\<close> is the printed form of a type.\<close>

record cfg_lib =
  cl_parseFloat :: "string \<Rightarrow> nat \<Rightarrow> string option"
  cl_parseDuration :: "string \<Rightarrow> int option"
  cl_unmarshalText :: "nat \<Rightarrow> string \<Rightarrow> cfg_val \<Rightarrow> cfg_val \<times> goerr option"
  cl_typeText :: "cfg_type \<Rightarrow> string"

section \<open>The environment\<close>

text \<open>
  A pointer to a type with \<open>UnmarshalText\<close> is the receiver of this method itself, so both cases of the code for a
  pointer set the variable it leads to.
\<close>

fun setText :: "cfg_lib \<Rightarrow> cfg_type \<Rightarrow> string \<Rightarrow> cfg_val \<Rightarrow> cfg_val \<times> goerr option" where
  "setText L (PointerC t) s v = (case setText L t s (case v of PtrW w \<Rightarrow> w | _ \<Rightarrow> cfg_zero t) of (w, err) \<Rightarrow> (PtrW w, err))"
| "setText L (TextC k) s v = cl_unmarshalText L k s v"
| "setText L (StructC k fs) s v = (case k of
     Some k \<Rightarrow> cl_unmarshalText L k s v | None \<Rightarrow> (v, Some (Opaque (''unsupported type '' @ cl_typeText L (StructC None fs)))))"
| "setText L DurationC s v = (case cl_parseDuration L s of
     None \<Rightarrow> (v, Some (Opaque (''time: invalid duration '' @ s))) | Some d \<Rightarrow> (IntW d, None))"
| "setText L StringC s v = (StringW s, None)"
| "setText L BoolC s v = (case ParseBool s of None \<Rightarrow> (v, Some (parse_error ''ParseBool'' s)) | Some b \<Rightarrow> (BoolW b, None))"
| "setText L (IntC n) s v = (case ParseInt s n of None \<Rightarrow> (v, Some (parse_error ''ParseInt'' s)) | Some i \<Rightarrow> (IntW i, None))"
| "setText L (UintC n) s v = (case ParseUint s n of None \<Rightarrow> (v, Some (parse_error ''ParseUint'' s)) | Some i \<Rightarrow> (UintW i, None))"
| "setText L (FloatC n) s v = (case cl_parseFloat L s n of None \<Rightarrow> (v, Some (parse_error ''ParseFloat'' s)) | Some x \<Rightarrow> (FloatW x, None))"
| "setText L (OtherC k) s v = (v, Some (Opaque (''unsupported type '' @ cl_typeText L (OtherC k))))"

definition field_path :: "string \<Rightarrow> string \<Rightarrow> string" where
  "field_path pre name = (if pre \<noteq> [] then pre @ ''.'' @ name else name)"

definition empty_env_error :: "string \<Rightarrow> goerr" where
  "empty_env_error path = Opaque (''config: field '' @ path @ '' has an empty environment variable name'')"

definition invalid_env_error :: "cfg_lib \<Rightarrow> string \<Rightarrow> string \<Rightarrow> cfg_type \<Rightarrow> goerr" where
  "invalid_env_error L name path t =
     Opaque (''config: environment variable '' @ name @ '' for field '' @ path @ '' is not valid for '' @ cl_typeText L t)"

text \<open>The loop over the fields, one field, and the struct behind a field without a tag.\<close>

fun loadStructEnvironment :: "cfg_lib \<Rightarrow> (string \<rightharpoonup> string) \<Rightarrow> cfg_field list \<Rightarrow> string \<Rightarrow> cfg_val list \<Rightarrow> cfg_val list \<times> goerr option"
and load_field :: "cfg_lib \<Rightarrow> (string \<rightharpoonup> string) \<Rightarrow> cfg_field \<Rightarrow> string \<Rightarrow> cfg_val \<Rightarrow> cfg_val \<times> goerr option"
and load_nested :: "cfg_lib \<Rightarrow> (string \<rightharpoonup> string) \<Rightarrow> cfg_type \<Rightarrow> string \<Rightarrow> cfg_val \<Rightarrow> cfg_val \<times> goerr option" where
  "loadStructEnvironment L env (f # fs) pre (v # vs) = (case load_field L env f pre v of
     (v, Some err) \<Rightarrow> (v # vs, Some err)
   | (v, None) \<Rightarrow> (case loadStructEnvironment L env fs pre vs of (vs, err) \<Rightarrow> (v # vs, err)))"
| "loadStructEnvironment L env fs pre vs = (vs, None)"
| "load_field L env (CfgField fieldName exported tag t) pre v =
    (if \<not> exported then (v, None)
     else let path = field_path pre fieldName in case tag of
       Some name \<Rightarrow>
         if name = ''-'' then (v, None)
         else if name = [] then (v, Some (empty_env_error path))
         else (case env name of
             None \<Rightarrow> (v, None)
           | Some s \<Rightarrow> (case setText L t s v of (v, err) \<Rightarrow> (v, if err = None then None else Some (invalid_env_error L name path t))))
     | None \<Rightarrow> load_nested L env t path v)"
| "load_nested L env (StructC k fs) path v = (case v of
     StructW vs \<Rightarrow> (case loadStructEnvironment L env fs path vs of (vs, err) \<Rightarrow> (StructW vs, err)) | _ \<Rightarrow> (v, None))"
| "load_nested L env (PointerC t) path v = (case (t, v) of
     (StructC k fs, PtrW (StructW vs)) \<Rightarrow> (case loadStructEnvironment L env fs path vs of (vs, err) \<Rightarrow> (PtrW (StructW vs), err))
   | _ \<Rightarrow> (v, None))"
| "load_nested L env t path v = (v, None)"

text \<open>The map of the environment: of entries with one name the last counts.\<close>

definition environ_map :: "string list \<Rightarrow> string \<rightharpoonup> string" where
  "environ_map environ = foldl (\<lambda>values entry. case cut entry (CHR ''='') of
     (key, v, ok) \<Rightarrow> if ok then values(key \<mapsto> v) else values) Map.empty environ"

definition loadEnvironment :: "cfg_lib \<Rightarrow> cfg_field list \<Rightarrow> string list \<Rightarrow> cfg_val list \<Rightarrow> cfg_val list \<times> goerr option" where
  "loadEnvironment L fs environ vs = loadStructEnvironment L (environ_map environ) fs [] vs"

section \<open>Files\<close>

text \<open>
  \<open>fo_open\<close> fails with whether the file does not exist; \<open>fo_decode\<close> decodes the first JSON value of a
  file into the destination, strictly, and may change it before it fails; \<open>fo_extra\<close> is the second call of the decoder.
\<close>

datatype extra_value = NoMore | OneMore | BadRest goerr

record 'f file_ops =
  fo_open :: "string \<Rightarrow> (bool \<times> goerr) + 'f"
  fo_decode :: "'f \<Rightarrow> cfg_val list \<Rightarrow> cfg_val list \<times> goerr option"
  fo_extra :: "'f \<Rightarrow> extra_value"
  fo_close :: "'f \<Rightarrow> goerr option"

type_synonym file_source = "string \<times> bool"

definition loadJSON :: "'f file_ops \<Rightarrow> file_source \<Rightarrow> cfg_val list \<Rightarrow> cfg_val list \<times> goerr option" where
  "loadJSON F source vs = (case source of (path, optional) \<Rightarrow> (case fo_open F path of
     Inl (notExist, err) \<Rightarrow> (vs, if optional \<and> notExist then None else Some (Wrapf (''config: open file '' @ path @ '': '') err))
   | Inr file \<Rightarrow>
       let (vs, decoded) = fo_decode F file vs;
           resultErr = (case decoded of
             Some err \<Rightarrow> Some (Wrapf (''config: decode file '' @ path @ '': '') err)
           | None \<Rightarrow> (case fo_extra F file of
                 NoMore \<Rightarrow> None
               | OneMore \<Rightarrow> Some (Opaque (''config: decode file '' @ path @ '': multiple JSON values''))
               | BadRest err \<Rightarrow> Some (Wrapf (''config: decode file '' @ path @ '': '') err)))
       in (vs, case fo_close F file of None \<Rightarrow> resultErr
               | Some err \<Rightarrow> errors_Join [resultErr, Some (Wrapf (''config: close file '' @ path @ '': '') err)])))"

fun load_files :: "'f file_ops \<Rightarrow> file_source list \<Rightarrow> cfg_val list \<Rightarrow> cfg_val list \<times> goerr option" where
  "load_files F [] vs = (vs, None)"
| "load_files F (source # sources) vs =
    (if fst source = [] then (vs, Some (Opaque ''config: file path cannot be empty''))
     else case loadJSON F source vs of
       (vs, Some err) \<Rightarrow> (vs, Some err)
     | (vs, None) \<Rightarrow> load_files F sources vs)"

section \<open>Load\<close>

datatype cfg_option = NilOption | FileOption string | OptionalFileOption string | EnvironOption "string list"

record load_settings =
  ls_files :: "file_source list"
  ls_environ :: "string list"

definition apply_load_option :: "load_settings \<Rightarrow> cfg_option \<Rightarrow> load_settings" where
  "apply_load_option st o' = (case o' of
     NilOption \<Rightarrow> st
   | FileOption path \<Rightarrow> st\<lparr>ls_files := ls_files st @ [(path, False)]\<rparr>
   | OptionalFileOption path \<Rightarrow> st\<lparr>ls_files := ls_files st @ [(path, True)]\<rparr>
   | EnvironOption values \<Rightarrow> st\<lparr>ls_environ := values\<rparr>)"

definition load_settings_of :: "string list \<Rightarrow> cfg_option list \<Rightarrow> load_settings" where
  "load_settings_of osEnviron options = foldl apply_load_option \<lparr>ls_files = [], ls_environ = osEnviron\<rparr> options"

text \<open>\<open>None\<close> is a destination that is no pointer to a struct; a validator may change the destination.\<close>

definition config_Load :: "cfg_lib \<Rightarrow> 'f file_ops \<Rightarrow> string list \<Rightarrow> (cfg_val list \<Rightarrow> cfg_val list \<times> goerr option) option \<Rightarrow>
    cfg_field list option \<Rightarrow> cfg_option list \<Rightarrow> cfg_val list \<Rightarrow> cfg_val list \<times> goerr option" where
  "config_Load L F osEnviron validator dest options vs = (case dest of
     None \<Rightarrow> (vs, Some (Opaque ''config: destination must be a non-nil pointer to a struct''))
   | Some fs \<Rightarrow>
       let st = load_settings_of osEnviron options
       in case load_files F (ls_files st) vs of
         (vs, Some err) \<Rightarrow> (vs, Some err)
       | (vs, None) \<Rightarrow> (case loadEnvironment L fs (ls_environ st) vs of
           (vs, Some err) \<Rightarrow> (vs, Some err)
         | (vs, None) \<Rightarrow> (case validator of
             None \<Rightarrow> (vs, None)
           | Some Validate \<Rightarrow> (case Validate vs of
               (vs, Some err) \<Rightarrow> (vs, Some (Wrapf ''config: validation failed: '' err))
             | (vs, None) \<Rightarrow> (vs, None)))))"

section \<open>The HTTP listener\<close>

record cfg_HTTP =
  ch_Host :: string
  ch_Port :: "16 word"

definition defaultHTTPHost :: string where "defaultHTTPHost = ''127.0.0.1''"
definition defaultHTTPPort :: "16 word" where "defaultHTTPPort = 8080"

text \<open>\<open>net.JoinHostPort\<close> puts a host with a colon in brackets.\<close>

definition JoinHostPort :: "string \<Rightarrow> string \<Rightarrow> string" where
  "JoinHostPort host port = (if CHR '':'' \<in> set host then ''['' @ host @ '']:'' @ port else host @ '':'' @ port)"

definition Address :: "cfg_HTTP \<Rightarrow> string" where
  "Address c =
    (let host = (if ch_Host c = [] then defaultHTTPHost else ch_Host c);
         port = (if ch_Port c = 0 then defaultHTTPPort else ch_Port c)
     in JoinHostPort host (show_nat (unat port)))"

section \<open>Fields by their path\<close>

text \<open>
  The struct that a field without a tag leads to, and the field at a path of indexes: every step but the last goes through
  exported fields without a tag, to structs or through pointers that are not nil.
\<close>

definition inner_struct :: "cfg_type \<Rightarrow> cfg_val \<Rightarrow> (cfg_field list \<times> cfg_val list) option" where
  "inner_struct t v = (case (t, v) of
     (StructC k fs, StructW vs) \<Rightarrow> Some (fs, vs)
   | (PointerC (StructC k fs), PtrW (StructW vs)) \<Rightarrow> Some (fs, vs)
   | _ \<Rightarrow> None)"

fun field_at :: "cfg_field list \<Rightarrow> cfg_val list \<Rightarrow> nat list \<Rightarrow> (cfg_field \<times> cfg_val) option" where
  "field_at fs vs [] = None"
| "field_at fs vs (i # p) =
    (if length fs \<le> i \<or> length vs \<le> i \<or> \<not> cf_exported (fs ! i) then None
     else if p = [] then Some (fs ! i, vs ! i)
     else if cf_env (fs ! i) \<noteq> None then None
     else (case inner_struct (cf_type (fs ! i)) (vs ! i) of None \<Rightarrow> None | Some (fs, vs) \<Rightarrow> field_at fs vs p))"

text \<open>What the environment makes of the field \<open>f\<close>: \<open>v\<close> was its value, \<open>w\<close> is the new one.\<close>

definition env_sets :: "cfg_lib \<Rightarrow> (string \<rightharpoonup> string) \<Rightarrow> cfg_field \<Rightarrow> cfg_val \<Rightarrow> cfg_val \<Rightarrow> bool" where
  "env_sets L env f v w = (case cf_env f of
     Some name \<Rightarrow> (if name = ''-'' \<or> env name = None then w = v
                   else name \<noteq> [] \<and> setText L (cf_type f) (the (env name)) v = (w, None))
   | None \<Rightarrow> inner_struct (cf_type f) v = None \<longrightarrow> w = v)"

lemma load_nested_inner:
  "load_nested L env t path v = (w, err) \<Longrightarrow>
    (case inner_struct t v of None \<Rightarrow> w = v \<and> err = None
     | Some (fs, vs) \<Rightarrow> \<exists>ws. loadStructEnvironment L env fs path vs = (ws, err) \<and> inner_struct t w = Some (fs, ws))"
proof (cases t)
  case (PointerC u)
  assume "load_nested L env t path v = (w, err)"
  with PointerC show ?thesis
    by (cases u; cases v) (auto simp: inner_struct_def split: prod.splits cfg_val.splits)
qed (cases v; auto simp: inner_struct_def split: prod.splits)+

lemma load_struct_nth:
  assumes "loadStructEnvironment L env fs pre vs = (ws, None)"
  shows "length ws = length vs \<and> (\<forall>i. i < length fs \<longrightarrow> i < length vs \<longrightarrow> load_field L env (fs ! i) pre (vs ! i) = (ws ! i, None))"
  using assms
proof (induction fs arbitrary: vs ws)
  case (Cons f fs)
  show ?case
  proof (cases vs)
    case Nil
    with Cons.prems show ?thesis by simp
  next
    case (Cons v vs')
    with Cons.prems obtain w ws' where w: "load_field L env f pre v = (w, None)" "loadStructEnvironment L env fs pre vs' = (ws', None)" "ws = w # ws'"
      by (auto split: prod.splits option.splits)
    from Cons.IH [OF w(2)] w Cons show ?thesis by (auto simp: nth_Cons split: nat.splits)
  qed
qed simp

lemma load_field_sets:
  assumes "load_field L env f pre v = (w, None)" "cf_exported f"
  shows "env_sets L env f v w"
    and "cf_env f = None \<Longrightarrow> load_nested L env (cf_type f) (field_path pre (cf_name f)) v = (w, None)"
proof -
  show n: "load_nested L env (cf_type f) (field_path pre (cf_name f)) v = (w, None)" if "cf_env f = None"
    using assms that by (cases f) simp
  show "env_sets L env f v w"
  proof (cases "cf_env f")
    case None
    with load_nested_inner [OF n [OF None]] show ?thesis by (auto simp: env_sets_def split: option.splits)
  next
    case (Some name)
    with assms show ?thesis
      by (cases f) (auto simp: env_sets_def Let_def split: if_splits option.splits prod.splits)
  qed
qed

lemma load_struct_at:
  assumes "loadStructEnvironment L env fs pre vs = (ws, None)" "field_at fs vs p = Some (f, v)"
  shows "\<exists>w. field_at fs ws p = Some (f, w) \<and> env_sets L env f v w"
  using assms
proof (induction fs vs p arbitrary: pre ws rule: field_at.induct)
  case (2 fs vs i p)
  have i: "i < length fs" "i < length vs" "cf_exported (fs ! i)" using "2.prems"(2) by (auto split: if_splits)
  note nth = load_struct_nth [OF "2.prems"(1)]
  with i have one: "load_field L env (fs ! i) pre (vs ! i) = (ws ! i, None)" "length ws = length vs" by auto
  show ?case
  proof (cases "p = []")
    case True
    with i one load_field_sets(1) [OF one(1) i(3)] "2.prems"(2) show ?thesis by simp
  next
    case False
    with i "2.prems"(2) obtain gs us where s: "cf_env (fs ! i) = None" "inner_struct (cf_type (fs ! i)) (vs ! i) = Some (gs, us)"
        "field_at gs us p = Some (f, v)"
      by (auto split: if_splits option.splits)
    from load_nested_inner [OF load_field_sets(2) [OF one(1) i(3) s(1)]] s(2)
    obtain us' where u: "loadStructEnvironment L env gs (field_path pre (cf_name (fs ! i))) us = (us', None)"
        "inner_struct (cf_type (fs ! i)) (ws ! i) = Some (gs, us')" by auto
    have "\<exists>w. field_at gs us' p = Some (f, w) \<and> env_sets L env f v w"
      by (rule "2.IH" [OF _ False _ s(2) refl u(1) s(3)]) (use i s in auto)
    with i one s u False show ?thesis by auto
  qed
qed simp

section \<open>Errors of the environment\<close>

text \<open>The errors a type can give: they depend on names and types and on no value.\<close>

fun env_errors :: "cfg_lib \<Rightarrow> cfg_field list \<Rightarrow> string \<Rightarrow> goerr list"
and field_errors :: "cfg_lib \<Rightarrow> cfg_field \<Rightarrow> string \<Rightarrow> goerr list"
and nested_errors :: "cfg_lib \<Rightarrow> cfg_type \<Rightarrow> string \<Rightarrow> goerr list" where
  "env_errors L [] pre = []"
| "env_errors L (f # fs) pre = field_errors L f pre @ env_errors L fs pre"
| "field_errors L (CfgField fieldName exported tag t) pre =
    (let path = field_path pre fieldName in if \<not> exported then [] else case tag of
       Some name \<Rightarrow> [if name = [] then empty_env_error path else invalid_env_error L name path t]
     | None \<Rightarrow> nested_errors L t path)"
| "nested_errors L (StructC k fs) path = env_errors L fs path"
| "nested_errors L (PointerC t) path = (case t of StructC k fs \<Rightarrow> env_errors L fs path | _ \<Rightarrow> [])"
| "nested_errors L t path = []"

lemma load_errors:
  "loadStructEnvironment L env fs pre vs = (ws, Some err) \<Longrightarrow> err \<in> set (env_errors L fs pre)"
  "load_field L env f pre v = (w, Some err) \<Longrightarrow> err \<in> set (field_errors L f pre)"
  "load_nested L env t pre v = (w, Some err) \<Longrightarrow> err \<in> set (nested_errors L t pre)"
proof (induction fs pre vs and f pre v and t pre v arbitrary: ws and w and w rule: loadStructEnvironment_load_field_load_nested.induct)
  case (5 L env t path v)
  then show ?case by (cases t; cases v) (auto split: prod.splits cfg_val.splits)
qed (auto simp: Let_def split: prod.splits option.splits if_splits cfg_val.splits)

section \<open>Typing\<close>

definition text_mark :: "cfg_type \<Rightarrow> nat option" where
  "text_mark t = (case t of TextC k \<Rightarrow> Some k | StructC k fs \<Rightarrow> k | _ \<Rightarrow> None)"

fun cfg_typed :: "cfg_type \<Rightarrow> cfg_val \<Rightarrow> bool" where
  "cfg_typed StringC v = (case v of StringW s \<Rightarrow> True | _ \<Rightarrow> False)"
| "cfg_typed BoolC v = (case v of BoolW b \<Rightarrow> True | _ \<Rightarrow> False)"
| "cfg_typed (IntC n) v = (case v of IntW i \<Rightarrow> - (2 ^ (n - 1)) \<le> i \<and> i < 2 ^ (n - 1) | _ \<Rightarrow> False)"
| "cfg_typed (UintC n) v = (case v of UintW m \<Rightarrow> m < 2 ^ n | _ \<Rightarrow> False)"
| "cfg_typed (FloatC n) v = (case v of FloatW s \<Rightarrow> True | _ \<Rightarrow> False)"
| "cfg_typed DurationC v = (case v of IntW i \<Rightarrow> - (2 ^ 63) \<le> i \<and> i < 2 ^ 63 | _ \<Rightarrow> False)"
| "cfg_typed (TextC k) v = (case v of TextW s \<Rightarrow> True | _ \<Rightarrow> False)"
| "cfg_typed (PointerC t) v = (case v of NilW \<Rightarrow> True | PtrW w \<Rightarrow> cfg_typed t w | _ \<Rightarrow> False)"
| "cfg_typed (StructC k fs) v = (case v of
     StructW vs \<Rightarrow> length vs = length fs \<and> list_all (\<lambda>f. \<forall>i < length fs. f = fs ! i \<longrightarrow> cfg_typed (cf_type f) (vs ! i)) fs | _ \<Rightarrow> False)"
| "cfg_typed (OtherC k) v = (case v of OtherW s \<Rightarrow> True | _ \<Rightarrow> False)"

definition fields_typed :: "cfg_field list \<Rightarrow> cfg_val list \<Rightarrow> bool" where
  "fields_typed fs vs \<longleftrightarrow> list_all2 (\<lambda>f v. cfg_typed (cf_type f) v) fs vs"

lemma typed_struct: "cfg_typed (StructC k fs) v \<longleftrightarrow> (\<exists>vs. v = StructW vs \<and> fields_typed fs vs)"
  by (cases v) (auto simp: fields_typed_def list_all2_conv_all_nth list_all_length)

declare cfg_typed.simps(9) [simp del] typed_struct [simp]

lemma typed_fields [simp]:
  "fields_typed [] vs \<longleftrightarrow> vs = []" "fields_typed fs [] \<longleftrightarrow> fs = []"
  "fields_typed (f # fs) (v # vs) \<longleftrightarrow> cfg_typed (cf_type f) v \<and> fields_typed fs vs"
  by (auto simp: fields_typed_def)

lemma typed_zero: "cfg_typed t (cfg_zero t)"
proof (induction t rule: cfg_zero.induct)
  case (9 k fs)
  then show ?case by (simp add: fields_typed_def list_all2_conv_all_nth)
qed simp_all

text \<open>What the standard library promises: \<open>UnmarshalText\<close> keeps the type, durations have 64 bits.\<close>

definition lib_typed :: "cfg_lib \<Rightarrow> bool" where
  "lib_typed L \<longleftrightarrow> (\<forall>t k s v. text_mark t = Some k \<longrightarrow> cfg_typed t v \<longrightarrow> cfg_typed t (fst (cl_unmarshalText L k s v))) \<and>
     (\<forall>s d. cl_parseDuration L s = Some d \<longrightarrow> - (2 ^ 63) \<le> d \<and> d < 2 ^ 63)"

lemma lib_typed_text: "lib_typed L \<Longrightarrow> text_mark t = Some k \<Longrightarrow> cfg_typed t v \<Longrightarrow> cfg_typed t (fst (cl_unmarshalText L k s v))"
  by (simp add: lib_typed_def)

lemma setText_typed:
  "lib_typed L \<Longrightarrow> cfg_typed t v \<Longrightarrow> cfg_typed t (fst (setText L t s v))"
proof (induction L t s v rule: setText.induct)
  case (1 L t s v)
  then have "cfg_typed t (case v of PtrW w \<Rightarrow> w | _ \<Rightarrow> cfg_zero t)" by (auto simp: typed_zero split: cfg_val.splits)
  from "1.IH" [OF "1.prems"(1) this] show ?case
    by (cases "setText L t s (case v of PtrW w \<Rightarrow> w | _ \<Rightarrow> cfg_zero t)") simp
next
  case (2 L k s v)
  then show ?case using lib_typed_text [of L "TextC k" k v s] by (simp add: text_mark_def)
next
  case (3 L k fs s v)
  then show ?case using lib_typed_text [of L "StructC k fs" _ v s] by (cases k) (simp_all add: text_mark_def)
next
  case (4 L s v)
  then show ?case by (auto simp: lib_typed_def split: option.split)
next
  case (7 L n s v)
  then show ?case using ParseInt_range [of s n] by (auto split: option.split)
next
  case (8 L n s v)
  then show ?case by (auto simp: ParseUint_def split: option.splits if_splits)
qed (auto split: option.split)

lemma setText_result: "setText L t s v = (w, err) \<Longrightarrow> lib_typed L \<Longrightarrow> cfg_typed t v \<Longrightarrow> cfg_typed t w"
  using setText_typed [of L t v s] by simp

lemma load_typed:
  "lib_typed L \<Longrightarrow> fields_typed fs vs \<Longrightarrow> fields_typed fs (fst (loadStructEnvironment L env fs pre vs))"
  "lib_typed L \<Longrightarrow> cfg_typed (cf_type f) v \<Longrightarrow> cfg_typed (cf_type f) (fst (load_field L env f pre v))"
  "lib_typed L \<Longrightarrow> cfg_typed t v \<Longrightarrow> cfg_typed t (fst (load_nested L env t pre v))"
proof (induction fs pre vs and f pre v and t pre v rule: loadStructEnvironment_load_field_load_nested.induct)
  case (1 L env f fs pre v vs)
  obtain w err where w: "load_field L env f pre v = (w, err)" by fastforce
  with 1 have "cfg_typed (cf_type f) w" by simp
  moreover have "fields_typed fs (fst (loadStructEnvironment L env fs pre vs))" if "err = None"
    using "1.IH"(2) [OF w [symmetric] that] "1.prems" by simp
  ultimately show ?case using w "1.prems" by (cases err) (simp_all add: case_prod_beta)
next
  case (3 L env fieldName exported tag t pre v)
  then show ?case
    by (cases tag) (auto simp: Let_def split: prod.split option.split dest: setText_result)
next
  case (4 L env k fs path v)
  then obtain vs where "v = StructW vs" "fields_typed fs vs" by auto
  with 4 show ?case by (simp add: case_prod_beta)
next
  case (5 L env t path v)
  show ?case
  proof (cases "\<exists>k fs us. t = StructC k fs \<and> v = PtrW (StructW us)")
    case True
    with 5 show ?thesis by (auto simp: case_prod_beta)
  next
    case False
    then have "load_nested L env (PointerC t) path v = (v, None)" by (cases t; cases v) (auto split: cfg_val.split)
    with "5.prems" show ?thesis by simp
  qed
qed simp_all

section \<open>Properties\<close>


text \<open>
  C27. The loader does not leak secrets of the environment: an error of \<open>Load\<close> comes from a file, from the
  validator, or is one of a list that is determined by the names and types of the fields alone.
\<close>

theorem config_hides_environment:
  assumes "config_Load L F osEnviron validator (Some fs) options vs = (ws, Some err)"
  shows "snd (load_files F (ls_files (load_settings_of osEnviron options)) vs) = Some err \<or>
    err \<in> set (env_errors L fs []) \<or> (\<exists>e. err = Wrapf ''config: validation failed: '' e)"
  using assms load_errors(1)
  by (fastforce simp: config_Load_def loadEnvironment_def Let_def split: prod.splits option.splits)

text \<open>The environment keeps the destination well typed, with integers in their range, also when it fails.\<close>

theorem config_typed:
  assumes "lib_typed L" "fields_typed fs vs"
  shows "fields_typed fs (fst (loadEnvironment L fs environ vs))"
  unfolding loadEnvironment_def by (rule load_typed(1) [OF assms])

text \<open>Errors of the JSON decoder are kept as they are; they may show a value of the file.\<close>

lemma decode_error_kept:
  assumes "fo_open F path = Inr file" "fo_decode F file vs = (ws, Some err)" "fo_close F file = None"
  shows "loadJSON F (path, optional) vs = (ws, Some (Wrapf (''config: decode file '' @ path @ '': '') err))"
  using assms by (simp add: loadJSON_def)

section \<open>A configuration\<close>

definition demo_cfg_lib :: cfg_lib where
  "demo_cfg_lib = \<lparr>cl_parseFloat = (\<lambda>s n. Some s), cl_parseDuration = (\<lambda>s. None), cl_unmarshalText = (\<lambda>k s v. (v, None)),
     cl_typeText = (\<lambda>t. ''type'')\<rparr>"

definition demo_files :: "unit file_ops" where
  "demo_files = \<lparr>fo_open = (\<lambda>path. Inr ()), fo_decode = (\<lambda>f vs. (vs, None)), fo_extra = (\<lambda>f. NoMore), fo_close = (\<lambda>f. None)\<rparr>"

definition demo_http :: cfg_type where
  "demo_http = StructC None [CfgField ''Host'' True (Some ''HOST'') StringC, CfgField ''Port'' True (Some ''PORT'') (UintC 16)]"

definition demo_fields :: "cfg_field list" where
  "demo_fields = [CfgField ''Name'' True None StringC, CfgField ''HTTP'' True None demo_http]"

definition demo_values :: "cfg_val list" where
  "demo_values = [StringW ''app'', StructW [StringW ''h'', UintW 1]]"

lemma demo_parse_port: "ParseUint ''80'' 16 = Some 80" "ParseUint ''secret'' 16 = None"
proof -
  have "read_nat ''80'' = Some 80" "read_nat ''secret'' = None" by (code_simp, code_simp)
  then show "ParseUint ''80'' 16 = Some 80" "ParseUint ''secret'' 16 = None" by (simp_all add: ParseUint_def)
qed

lemma demo_environ: "environ_map [''PORT=1'', ''PORT=80''] = [''PORT'' \<mapsto> ''80'']" "environ_map [''PORT=secret''] = [''PORT'' \<mapsto> ''secret'']"
  by (simp_all add: environ_map_def cut_def)

lemmas demo_cfg_defs = config_Load_def loadEnvironment_def load_settings_of_def apply_load_option_def demo_environ demo_parse_port
  demo_fields_def demo_http_def demo_values_def demo_files_def loadJSON_def field_path_def Let_def

lemma demo_config_loads:
  "config_Load demo_cfg_lib demo_files [] None (Some demo_fields) [FileOption ''f'', EnvironOption [''PORT=1'', ''PORT=80'']] demo_values =
    ([StringW ''app'', StructW [StringW ''h'', UintW 80]], None)"
  by (simp add: demo_cfg_defs)


lemma demo_config_fails:
  "config_Load demo_cfg_lib demo_files [] None (Some demo_fields) [EnvironOption [''PORT=secret'']] demo_values =
    (demo_values, Some (invalid_env_error demo_cfg_lib ''PORT'' ''HTTP.Port'' (UintC 16)))"
  by (simp add: demo_cfg_defs)

theorem config_hides_environment_witness:
  "snd (load_files demo_files [] demo_values) = Some (invalid_env_error demo_cfg_lib ''PORT'' ''HTTP.Port'' (UintC 16)) \<or>
   invalid_env_error demo_cfg_lib ''PORT'' ''HTTP.Port'' (UintC 16) \<in> set (env_errors demo_cfg_lib demo_fields []) \<or>
   (\<exists>e. invalid_env_error demo_cfg_lib ''PORT'' ''HTTP.Port'' (UintC 16) = Wrapf ''config: validation failed: '' e)"
  using config_hides_environment [OF demo_config_fails] by (simp add: load_settings_of_def apply_load_option_def)

lemma demo_lib_typed: "lib_typed demo_cfg_lib"
  by (simp add: lib_typed_def demo_cfg_lib_def)

theorem config_typed_witness:
  "fields_typed demo_fields (fst (loadEnvironment demo_cfg_lib demo_fields [''PORT=80''] demo_values))"
  by (rule config_typed [OF demo_lib_typed]) (simp add: demo_fields_def demo_values_def demo_http_def)

end
