(* ===== verification/Server.thy ===== *)
theory Server
  imports Lifecycle
begin

text \<open>
  Running an application, \<open>server.go\<close>: \<open>Run\<close> with its inspection modes, \<open>Serve\<close> and the HTTP component of the
  lifecycle. The environment, files, the listener and \<open>http.Server\<close> are answers; the calls made on
  them are logged in order, together with those of the lifecycle.
\<close>

section \<open>The HTTP component\<close>

text \<open>
  What \<open>http.Server\<close> and the listener answer. \<open>ha_serve\<close> is what \<open>Serve\<close> of the server returned, \<open>None\<close> for
  \<open>http.ErrServerClosed\<close>; \<open>ha_listenerClose\<close> comes with whether it is \<open>net.ErrClosed\<close>.
\<close>

record http_answers =
  ha_serve :: "goerr option"
  ha_shutdown :: "goerr option"
  ha_close :: "goerr option"
  ha_listenerClose :: "(bool \<times> goerr) option"

text \<open>The value the goroutine of \<open>Start\<close> sends on \<open>Done\<close>.\<close>

definition component_result :: "http_answers \<Rightarrow> goerr option" where
  "component_result H = map_option (Wrapf ''serve HTTP: '') (ha_serve H)"

definition component_Shutdown :: "http_answers \<Rightarrow> goerr option" where
  "component_Shutdown H = (case ha_shutdown H of
     None \<Rightarrow> None
   | Some err \<Rightarrow> errors_Join [Some (Wrapf ''graceful shutdown: '' err), ha_close H])"

text \<open>The HTTP server is the one component given to the lifecycle; \<open>Start\<close> answers nil.\<close>

abbreviation http_component :: lifecycle_component where
  "http_component \<equiv> GivenComponent 0"

definition with_http :: "http_answers \<Rightarrow> life_env \<Rightarrow> life_env" where
  "with_http H E = E\<lparr>le_start := (le_start E)(http_component := None),
     le_shutdown := (le_shutdown E)(http_component := component_Shutdown H)\<rparr>"

section \<open>Serve\<close>

datatype run_call = WriteFile string string | Listen string | LifeCall life_call | CloseListener

definition close_listener :: "http_answers \<Rightarrow> goerr option \<Rightarrow> goerr option" where
  "close_listener H serveErr = (case ha_listenerClose H of
     Some (False, err) \<Rightarrow> errors_Join [serveErr, Some (Wrapf ''close listener: '' err)]
   | _ \<Rightarrow> serveErr)"

definition app_Serve ::
  "server_lib \<Rightarrow> life_env \<Rightarrow> http_answers \<Rightarrow> bool \<Rightarrow> bool \<Rightarrow> app \<Rightarrow> app \<times> run_call list \<times> goerr option" where
  "app_Serve X E H async listener a =
    (if \<not> listener then (a, [], Some (Opaque ''Serve listener: listener cannot be nil''))
     else case Build X a of
       (a, Some err) \<Rightarrow> (a, [], Some err)
     | (a, None) \<Rightarrow> (case runLifecycle X (with_http H E) async [Some http_component] a of
         (a, calls, err) \<Rightarrow> (a, map LifeCall calls @ [CloseListener], close_listener H err)))"

section \<open>Inspection\<close>

text \<open>The response writer of an inspection, and the calls that reach it from the response of the framework.\<close>

record inspectionResponse =
  ir_status :: int
  ir_body :: string

definition inspection_WriteHeader :: "int \<Rightarrow> inspectionResponse \<Rightarrow> inspectionResponse" where
  "inspection_WriteHeader status r =
    (if ir_status r = 0 \<and> (status \<ge> 200 \<or> status = 101) then r\<lparr>ir_status := status\<rparr> else r)"

definition inspection_Write :: "string \<Rightarrow> inspectionResponse \<Rightarrow> inspectionResponse" where
  "inspection_Write data r = (let r = inspection_WriteHeader 200 r in r\<lparr>ir_body := ir_body r @ data\<rparr>)"

definition inspection_call :: "wire_event \<Rightarrow> inspectionResponse \<Rightarrow> inspectionResponse" where
  "inspection_call w r = (case w of
     Informational status \<Rightarrow> inspection_WriteHeader status r
   | Head status h \<Rightarrow> inspection_WriteHeader status r
   | Body data \<Rightarrow> inspection_Write data r)"

definition inspection_of :: "wire_event list \<Rightarrow> inspectionResponse" where
  "inspection_of w = fold inspection_call w \<lparr>ir_status = 0, ir_body = []\<rparr>"

section \<open>Run\<close>

text \<open>
  The variables of the environment and the operating system; \<open>rl_parseRequestURI\<close> gives whether the URL is absolute and its
  host, \<open>rl_request\<close> is \<open>http.NewRequestWithContext\<close> for \<open>GET\<close>.
\<close>

record run_lib =
  rl_inspectionOutput :: string
  rl_inspectionPath :: string
  rl_routesOutput :: string
  rl_parseRequestURI :: "string \<Rightarrow> (bool \<times> string) option"
  rl_request :: "string \<Rightarrow> request result"
  rl_marshalRoutes :: "route list \<Rightarrow> string result"
  rl_writeFile :: "string \<Rightarrow> string \<Rightarrow> goerr option"
  rl_splitHostPort :: "string \<Rightarrow> goerr option"
  rl_listen :: "string \<Rightarrow> goerr option"

definition inspection_path_ok :: "run_lib \<Rightarrow> string \<Rightarrow> bool" where
  "inspection_path_ok R path = (case rl_parseRequestURI R path of
     None \<Rightarrow> False
   | Some (isAbs, host) \<Rightarrow> \<not> (isAbs \<or> host \<noteq> [] \<or> \<not> has_prefix path ''/'' \<or> has_prefix path ''//'' \<or>
       contains_any path [CHR '' '', CHR 0x09, CHR 0x0D, CHR 0x0A, CHR ''#'']))"

definition writeHTTPInspection ::
  "server_lib \<Rightarrow> run_lib \<Rightarrow> string \<Rightarrow> string \<Rightarrow> app \<Rightarrow> app \<times> run_call list \<times> goerr option outcome" where
  "writeHTTPInspection X R path target a =
    (if \<not> inspection_path_ok R path then (a, [], Return (Some (Opaque (''inspect HTTP path '' @ path @ '': invalid path''))))
     else case Build X a of
       (a, Some err) \<Rightarrow> (a, [], Return (Some err))
     | (a, None) \<Rightarrow> (case rl_request R (''http://localhost'' @ path) of
         Inl err \<Rightarrow> (a, [], Return (Some (Wrapf (''inspect HTTP path '' @ path @ '': invalid path: '') err)))
       | Inr rq \<Rightarrow> (case app_ServeHTTP X a rq empty_header of
           (a, r, Panic msg) \<Rightarrow> (a, [], Panic msg)
         | (a, r, Return u) \<Rightarrow>
             let response = inspection_of (rs_wire r)
             in if ir_status response < 200 \<or> ir_status response \<ge> 300 then
                  (a, [], Return (Some (Opaque (''inspect GET '' @ path @ '': status '' @ show_int (ir_status response)))))
                else (a, [WriteFile target (ir_body response)],
                  Return (map_option (Wrapf ''write HTTP inspection: '') (rl_writeFile R target (ir_body response)))))))"

definition app_Run ::
  "server_lib \<Rightarrow> run_lib \<Rightarrow> life_env \<Rightarrow> http_answers \<Rightarrow> bool \<Rightarrow> string \<Rightarrow> app \<Rightarrow> app \<times> run_call list \<times> goerr option outcome" where
  "app_Run X R E H async address a =
    (if rl_inspectionOutput R \<noteq> [] then writeHTTPInspection X R (rl_inspectionPath R) (rl_inspectionOutput R) a
     else if rl_routesOutput R \<noteq> [] then
       (case app_Routes X a of
          (a, Inl err) \<Rightarrow> (a, [], Return (Some err))
        | (a, Inr routes) \<Rightarrow> (case rl_marshalRoutes R routes of
            Inl err \<Rightarrow> (a, [], Return (Some (Wrapf ''encode routes: '' err)))
          | Inr data \<Rightarrow> (a, [WriteFile (rl_routesOutput R) (data @ [CHR 0x0A])],
              Return (map_option (Wrapf ''write routes: '') (rl_writeFile R (rl_routesOutput R) (data @ [CHR 0x0A]))))))
     else if trim_space address = [] then (a, [], Return (Some (Opaque ''Run address: address cannot be empty'')))
     else case rl_splitHostPort R address of
       Some err \<Rightarrow> (a, [], Return (Some (Wrapf (''Run address '' @ address @ '': '') err)))
     | None \<Rightarrow> (case Build X a of
         (a, Some err) \<Rightarrow> (a, [], Return (Some err))
       | (a, None) \<Rightarrow> (case rl_listen R address of
           Some err \<Rightarrow> (a, [Listen address], Return (Some (Wrapf (''listen on '' @ address @ '': '') err)))
         | None \<Rightarrow> (case app_Serve X E H async True a of (a, calls, err) \<Rightarrow> (a, Listen address # calls, Return err)))))"

section \<open>What an inspection records\<close>

text \<open>The status a client sees: that of the first final header, 200 when the body comes first.\<close>

fun final_status :: "wire_event list \<Rightarrow> int" where
  "final_status [] = 0"
| "final_status (Informational s # w) = (if s \<ge> 200 \<or> s = 101 then s else final_status w)"
| "final_status (Head s h # w) = (if s \<ge> 200 \<or> s = 101 then s else final_status w)"
| "final_status (Body d # w) = 200"

fun body_bytes :: "wire_event list \<Rightarrow> string" where
  "body_bytes [] = []"
| "body_bytes (Body d # w) = d @ body_bytes w"
| "body_bytes (x # w) = body_bytes w"

lemma inspection_fold:
  "fold inspection_call w r = \<lparr>ir_status = (if ir_status r = 0 then final_status w else ir_status r),
     ir_body = ir_body r @ body_bytes w\<rparr>"
  by (induction w arbitrary: r rule: body_bytes.induct)
    (auto simp: inspection_call_def inspection_WriteHeader_def inspection_Write_def Let_def)

lemma inspection_of_wire: "inspection_of w = \<lparr>ir_status = final_status w, ir_body = body_bytes w\<rparr>"
  by (simp add: inspection_of_def inspection_fold)

lemma body_bytes_append [simp]: "body_bytes (v @ w) = body_bytes v @ body_bytes w"
  by (induction v rule: body_bytes.induct) simp_all

lemma Build_again:
  assumes "app_reachable X staging a" "Build X a = (a', None)"
  shows "Build X a' = (a', None)"
  using app_inv_build [OF app_reachable_inv [OF assms(1)]] assms(2) by (simp add: Build_def)

section \<open>Properties\<close>

text \<open>
  C28. A run never leaks its listener. \<open>Run\<close> either does not listen, and then at most one inspection file is
  written; or it listens, and then, when this succeeds, it runs the lifecycle and closes the listener exactly once, after every
  call of the lifecycle, whatever fails.
\<close>

theorem run_closes_listener:
  assumes "app_reachable X staging a" "app_Run X R E H async address a = (a', calls, x)"
  shows "calls = [] \<or> (\<exists>file data. calls = [WriteFile file data] \<and> file \<in> {rl_inspectionOutput R, rl_routesOutput R}) \<or>
    calls = [Listen address] \<and> rl_listen R address \<noteq> None \<or>
    rl_listen R address = None \<and> (\<exists>ls. calls = Listen address # map LifeCall ls @ [CloseListener])"
proof (cases "rl_inspectionOutput R \<noteq> [] \<or> rl_routesOutput R \<noteq> []")
  case True
  with assms(2) show ?thesis
    by (auto simp: app_Run_def writeHTTPInspection_def Let_def split: if_splits prod.splits option.splits sum.splits outcome.splits)
next
  case False
  then have m: "rl_inspectionOutput R = []" "rl_routesOutput R = []" by simp_all
  obtain b e where b: "Build X a = (b, e)" by fastforce
  show ?thesis
  proof (cases "trim_space address = [] \<or> rl_splitHostPort R address \<noteq> None \<or> e \<noteq> None")
    case True
    with assms(2) m b have "calls = []" by (auto simp: app_Run_def split: if_splits option.splits)
    then show ?thesis by simp
  next
    case False
    then have e: "trim_space address \<noteq> []" "rl_splitHostPort R address = None" "e = None" by simp_all
    with b have again: "Build X b = (b, None)" using Build_again [OF assms(1)] by simp
    show ?thesis
    proof (cases "rl_listen R address")
      case None
      obtain c ls err where "runLifecycle X (with_http H E) async [Some http_component] b = (c, ls, err)"
        using prod_cases3 by blast
      with None assms(2) m b e again show ?thesis by (auto simp: app_Run_def app_Serve_def)
    next
      case (Some err)
      with assms(2) m b e show ?thesis by (simp add: app_Run_def)
    qed
  qed
qed

text \<open>
  An inspection writes what a client would get: the file holds the bytes of the body of the response to the
  request, and it is written exactly when the status of the response is a success.
\<close>

theorem inspection_exact:
  assumes "writeHTTPInspection X R path target a = (a', calls, Return err)"
    and "inspection_path_ok R path" "Build X a = (b, None)" "rl_request R (''http://localhost'' @ path) = Inr rq"
    and "app_ServeHTTP X b rq empty_header = (b', r, Return u)"
  shows "if 200 \<le> final_status (rs_wire r) \<and> final_status (rs_wire r) < 300
    then calls = [WriteFile target (body_bytes (rs_wire r))] \<and>
      (err = None \<longleftrightarrow> rl_writeFile R target (body_bytes (rs_wire r)) = None)
    else calls = [] \<and> err \<noteq> None"
  using assms by (auto simp: writeHTTPInspection_def inspection_of_wire Let_def split: if_splits)

text \<open>The status an inspection records is the one the framework reports for the response.\<close>

lemma final_status_wire:
  assumes "resp_inv r" "rs_wroteHeader r" "rs_status r \<ge> 200 \<or> rs_status r = 101" "\<forall>i. Informational i \<in> set (rs_wire r) \<longrightarrow> i < 200 \<and> i \<noteq> 101"
  shows "final_status (rs_wire r) = rs_status r"
proof -
  from assms(1,2) obtain infos h bodies where w: "rs_wire r = map Informational infos @ Head (rs_status r) h # map Body bodies"
    by (auto simp: resp_inv_def wire_ok_def)
  have "\<forall>i \<in> set infos. i < 200 \<and> i \<noteq> 101" using assms(4) w by auto
  then have "final_status (map Informational infos @ Head (rs_status r) h # map Body bodies) = rs_status r"
    using assms(3) by (induction infos) auto
  with w show ?thesis by simp
qed

section \<open>A run\<close>

definition demo_run :: run_lib where
  "demo_run = \<lparr>rl_inspectionOutput = [], rl_inspectionPath = [], rl_routesOutput = [], rl_parseRequestURI = (\<lambda>p. Some (False, [])),
     rl_request = (\<lambda>u. Inr \<lparr>req_method = ''GET'', req_host = ''localhost'', req_url = ''/x'', req_header = empty_header, req_tls = False\<rparr>),
     rl_marshalRoutes = (\<lambda>rs. Inr []), rl_writeFile = (\<lambda>f d. None), rl_splitHostPort = (\<lambda>a. None), rl_listen = (\<lambda>a. None)\<rparr>"

definition demo_http_answers :: http_answers where
  "demo_http_answers = \<lparr>ha_serve = None, ha_shutdown = None, ha_close = None, ha_listenerClose = None\<rparr>"

lemma demo_run_fields: "rl_inspectionOutput demo_run = []" "rl_routesOutput demo_run = []" "rl_splitHostPort demo_run a = None"
  "rl_listen demo_run a = None" "trim_space '':80'' = '':80''"
  by (simp_all add: demo_run_def) code_simp

theorem run_closes_listener_witness:
  "\<exists>ls. fst (snd (app_Run demo_server demo_run demo_life demo_http_answers False '':80'' demo_app)) =
     Listen '':80'' # map LifeCall ls @ [CloseListener]"
proof -
  obtain a' calls x where r: "app_Run demo_server demo_run demo_life demo_http_answers False '':80'' demo_app = (a', calls, x)"
    using prod_cases3 by blast
  obtain b where b: "Build demo_server demo_app = (b, None)" using demo_app_built by auto
  have "calls \<noteq> []" "\<And>f d. calls \<noteq> [WriteFile f d]"
    using r b Build_again [OF demo_app_reachable b]
    by (auto simp: app_Run_def app_Serve_def demo_run_fields split: prod.splits)
  with run_closes_listener [OF demo_app_reachable r] r show ?thesis by (auto simp: demo_run_fields)
qed

text \<open>An inspection of a route that answers 204.\<close>

lemma demo_inspection_path: "inspection_path_ok demo_run ''/x''"
  by (simp add: inspection_path_ok_def demo_run_def has_prefix_def contains_any_def)

definition demo_inspected :: request where
  "demo_inspected = \<lparr>req_method = ''GET'', req_host = ''localhost'', req_url = ''/x'', req_header = empty_header, req_tls = False\<rparr>"

lemma demo_inspection_answer:
  "\<exists>a r u. Build demo_server demo_app = (a, None) \<and> app_ServeHTTP demo_server a demo_inspected empty_header = (a, r, Return u) \<and>
    final_status (rs_wire r) = 204"
proof -
  obtain serve where s: "chainHTTP (app_serveHTTP demo_server (counted_app demo_app)) (app_httpMiddleware demo_app) = Some serve"
    "Build demo_server demo_app = ((counted_app demo_app)\<lparr>app_compiledHTTP := Some serve,
      app_namedRoutes := names_of (app_routes (counted_app demo_app)), app_built := True\<rparr>, None)"
    using Build_None [OF demo_app_not_frozen demo_app_ok] by blast
  have f: "app_httpMiddleware demo_app = []" "app_middleware (counted_app demo_app) = []"
    "app_table (counted_app demo_app) = [(''GET /x'', rd_route (counted 0 demo_definition), NoContent 204)]"
    by (simp_all add: demo_app_def new_app_def counted_app_def table_of_def Let_def demo_definition_fields endpoint_of_def
        base_endpoint_def)
  have "\<exists>r u. serve running demo_inspected empty_header = (r, Return u) \<and> final_status (rs_wire r) = 204" for running
    using s(1)
    by (auto simp: f app_serveHTTP_def serve_context_def finish_request_def handle_request_def compiledRoot_def
        dispatch_def resolve_def newContext_def newResponse_def Let_def mux_Handler_def demo_server_def demo_inspected_def
        routeMiss_def mux_ServeHTTP_def run_endpoint_def NoContent_def Committed_def on_response_def WriteHeader_def
        runBeforeCommitHooks_def underlying_WriteHeader_def commit_default_def finishResponse_def split: option.splits prod.splits)
  with s(2) show ?thesis by (auto simp: app_ServeHTTP_def)
qed

theorem inspection_exact_witness:
  "\<exists>r :: response. final_status (rs_wire r) = 204 \<and>
    fst (snd (writeHTTPInspection demo_server demo_run ''/x'' ''out'' demo_app)) = [WriteFile ''out'' (body_bytes (rs_wire r))]"
proof -
  obtain a r u where a: "Build demo_server demo_app = (a, None)"
    "app_ServeHTTP demo_server a demo_inspected empty_header = (a, r, Return u)" "final_status (rs_wire r) = 204"
    using demo_inspection_answer by blast
  have q: "rl_request demo_run (''http://localhost'' @ ''/x'') = Inr demo_inspected" by (simp add: demo_run_def demo_inspected_def)
  obtain a' calls err where w: "writeHTTPInspection demo_server demo_run ''/x'' ''out'' demo_app = (a', calls, Return err)"
    using a q demo_inspection_path by (fastforce simp: writeHTTPInspection_def Let_def)
  have "calls = [WriteFile ''out'' (body_bytes (rs_wire r))]"
    using inspection_exact [OF w demo_inspection_path a(1) q a(2)] a(3) by simp
  with a(3) show ?thesis by (intro exI [of _ r]) (simp add: w)
qed

end
