(* ===== verification/Command.thy ===== *)
theory Command
  imports Server
begin

text \<open>
  The command \<open>vial\<close>, \<open>cmd/vial/main.go\<close> and \<open>production.go\<close>: the inspection of an application by running it, the
  commands that report on it, and the creation of a project. The package \<open>flag\<close>, processes, files and the JSON
  decoder are answers; the calls that change something are logged in order. \<open>vial dev\<close> and \<open>vial load\<close> run
  the models of \<open>DevLoop\<close> and \<open>Load\<close>.
\<close>

section \<open>Arguments and the environment\<close>

definition routesOutputEnvironment :: string where "routesOutputEnvironment = ''VIAL_ROUTES_OUTPUT''"
definition httpInspectionOutputEnvironment :: string where "httpInspectionOutputEnvironment = ''VIAL_HTTP_INSPECTION_OUTPUT''"
definition httpInspectionPathEnvironment :: string where "httpInspectionPathEnvironment = ''VIAL_HTTP_INSPECTION_PATH''"

fun splitApplicationArguments :: "string list \<Rightarrow> string list \<times> string list" where
  "splitApplicationArguments [] = ([], [])"
| "splitApplicationArguments (a # rest) =
    (if a = ''--'' then ([], rest) else case splitApplicationArguments rest of (fw, app) \<Rightarrow> (a # fw, app))"

definition inspectionEnvironment :: "string list \<Rightarrow> string list" where
  "inspectionEnvironment environment = filter (\<lambda>v. \<not> (has_prefix v (routesOutputEnvironment @ ''='') \<or>
     has_prefix v (httpInspectionOutputEnvironment @ ''='') \<or> has_prefix v (httpInspectionPathEnvironment @ ''=''))) environment"

section \<open>Inspection of an application\<close>

datatype cmd_call =
    CreateFile string | RemoveFile string | MakeTempDir string | RemoveAllDir string | BuildApp string string string
  | RunApp string "string list" string "string list" | MakeDirs string | WriteTo string string | RenameTo string string
  | Print string

text \<open>
  The answers of the package resolution of \<open>DevRunner\<close>, of files and of processes. \<open>io_run\<close> comes with
  whether the deadline had passed.
\<close>

record inspect_os =
  io_resolve :: "string \<Rightarrow> (string \<times> string) result"
  io_createTemp :: "string result"
  io_closeTemp :: "goerr option"
  io_mkdirTemp :: "string result"
  io_join :: "string \<Rightarrow> string \<Rightarrow> string"
  io_build :: "goerr option"
  io_environ :: "string list"
  io_run :: "(goerr \<times> goerr option) option"
  io_read :: "string result"

text \<open>The environment of the application: the variables of inspections are taken out and set anew.\<close>

definition app_environment :: "string list \<Rightarrow> string \<Rightarrow> string \<Rightarrow> string list \<Rightarrow> string list" where
  "app_environment environ outputEnvironment outputPath extra =
     inspectionEnvironment environ @ [outputEnvironment @ ''='' @ outputPath] @ extra"

definition read_output :: "inspect_os \<Rightarrow> string result" where
  "read_output O' = (case io_read O' of
     Inl err \<Rightarrow> Inl (Wrapf ''read inspection output: '' err)
   | Inr data \<Rightarrow> if trim_space data = [] then Inl (Opaque ''application did not call App.Run; use App.Routes directly'') else Inr data)"

definition build_and_run ::
  "inspect_os \<Rightarrow> string \<Rightarrow> string \<Rightarrow> string list \<Rightarrow> string list \<Rightarrow> string \<Rightarrow> cmd_call list \<times> string result" where
  "build_and_run O' dir target args env buildDirectory =
    (let executable = io_join O' buildDirectory ''application.exe'';
         build = BuildApp dir executable target; run = RunApp executable args dir env
     in case io_build O' of
       Some err \<Rightarrow> ([build], Inl (Wrapf ''inspect application build: '' err))
     | None \<Rightarrow> (case io_run O' of
         Some (err, Some deadline) \<Rightarrow> ([build, run], Inl (Wrapf
           ''inspect application timed out after 10s; update the application's Vial library to support inspection: '' deadline))
       | Some (err, None) \<Rightarrow> ([build, run], Inl (Wrapf ''inspect application: '' err))
       | None \<Rightarrow> ([build, run], read_output O')))"

definition inspect_into ::
  "inspect_os \<Rightarrow> string \<Rightarrow> string \<Rightarrow> string list \<Rightarrow> string list \<Rightarrow> cmd_call list \<times> string result" where
  "inspect_into O' dir target args env = (case io_closeTemp O' of
     Some err \<Rightarrow> ([], Inl (Wrapf ''close inspection output: '' err))
   | None \<Rightarrow> (case io_mkdirTemp O' of
       Inl err \<Rightarrow> ([], Inl (Wrapf ''create inspection build directory: '' err))
     | Inr buildDirectory \<Rightarrow> (case build_and_run O' dir target args env buildDirectory of
         (calls, res) \<Rightarrow> (MakeTempDir buildDirectory # calls @ [RemoveAllDir buildDirectory], res))))"

definition inspectOutput :: "inspect_os \<Rightarrow> string \<Rightarrow> string list \<Rightarrow> string \<Rightarrow> string list \<Rightarrow> cmd_call list \<times> string result" where
  "inspectOutput O' target args outputEnvironment extra = (case io_resolve O' target of
     Inl err \<Rightarrow> ([], Inl err)
   | Inr (dir, resolvedTarget) \<Rightarrow> (case io_createTemp O' of
       Inl err \<Rightarrow> ([], Inl (Wrapf ''create inspection output: '' err))
     | Inr outputPath \<Rightarrow>
         (case inspect_into O' dir resolvedTarget args (app_environment (io_environ O') outputEnvironment outputPath extra) of
            (calls, res) \<Rightarrow> (CreateFile outputPath # calls @ [RemoveFile outputPath], res))))"

definition inspectApplication ::
  "inspect_os \<Rightarrow> (string \<Rightarrow> route list result) \<Rightarrow> string \<Rightarrow> string list \<Rightarrow> cmd_call list \<times> route list result" where
  "inspectApplication O' decode target args = (case inspectOutput O' target args routesOutputEnvironment [] of
     (calls, Inl err) \<Rightarrow> (calls, Inl err)
   | (calls, Inr data) \<Rightarrow> (calls, case decode data of
       Inl err \<Rightarrow> Inl (Wrapf ''decode inspection output: '' err) | Inr routes \<Rightarrow> Inr routes))"

section \<open>Commands\<close>

text \<open>\<open>parse\<close> is \<open>flags.Parse\<close>: an error, or the values of the flags and the other arguments.\<close>

definition one_package :: "string list \<Rightarrow> string result" where
  "one_package rest = (if length rest > 1 then
       Inl (Opaque (''expected at most one Go package, received '' @ show_nat (length rest)))
     else Inr (case rest of [] \<Rightarrow> ''.'' | target # _ \<Rightarrow> target))"

definition parseInspectionArguments ::
  "string \<Rightarrow> (string list \<Rightarrow> (bool \<times> string list) result) \<Rightarrow> string list \<Rightarrow> (string \<times> string list \<times> bool) result" where
  "parseInspectionArguments name parse arguments = (case splitApplicationArguments arguments of (fw, args) \<Rightarrow>
     (case parse fw of
        Inl err \<Rightarrow> Inl (Wrapf (''parse '' @ name @ '' arguments: '') err)
      | Inr (json, rest) \<Rightarrow> (case one_package rest of Inl err \<Rightarrow> Inl err | Inr target \<Rightarrow> Inr (target, args, json))))"

text \<open>What is printed, with the answer of the writer; JSON values come as their text.\<close>

type_synonym cmd_out = "string \<Rightarrow> goerr option"

definition say :: "cmd_out \<Rightarrow> string \<Rightarrow> string \<Rightarrow> cmd_call list \<times> goerr option" where
  "say out what line = ([Print (line @ [CHR 0x0A])], map_option (Wrapf what) (out (line @ [CHR 0x0A])))"

definition valid_json :: string where
  "valid_json = ''{'' @ [CHR 0x0A] @ ''  '' @ [CHR 0x22] @ ''valid'' @ [CHR 0x22] @ '': true'' @ [CHR 0x0A] @ ''}'' @ [CHR 0x0A]"

definition runConfig ::
  "inspect_os \<Rightarrow> (string \<Rightarrow> route list result) \<Rightarrow> cmd_out \<Rightarrow> (string list \<Rightarrow> (bool \<times> string list) result) \<Rightarrow> string list \<Rightarrow>
    cmd_call list \<times> goerr option" where
  "runConfig O' decode out parse arguments = (case parseInspectionArguments ''config'' parse arguments of
     Inl err \<Rightarrow> ([], Some (Wrapf ''inspect configuration: '' err))
   | Inr (target, args, json) \<Rightarrow> (case inspectApplication O' decode target args of
       (calls, Inl err) \<Rightarrow> (calls, Some err)
     | (calls, Inr _) \<Rightarrow>
         if json then (calls @ [Print valid_json], out valid_json)
         else (case say out ''write config result: '' ''vial config: ok'' of (c, err) \<Rightarrow> (calls @ c, err))))"

definition runDoctor ::
  "inspect_os \<Rightarrow> (string \<Rightarrow> route list result) \<Rightarrow> cmd_out \<Rightarrow> (nat \<Rightarrow> nat \<Rightarrow> string) \<Rightarrow>
    (string list \<Rightarrow> (bool \<times> string list) result) \<Rightarrow> string list \<Rightarrow> cmd_call list \<times> goerr option" where
  "runDoctor O' decode out report parse arguments = (case parseInspectionArguments ''doctor'' parse arguments of
     Inl err \<Rightarrow> ([], Some err)
   | Inr (target, args, json) \<Rightarrow> (case inspectApplication O' decode target args of
       (calls, Inl err) \<Rightarrow> (calls, Some err)
     | (calls, Inr routes) \<Rightarrow>
         if json then
           let line = report (length routes) (length (filter (\<lambda>r. rt_Name r \<noteq> []) routes))
           in (calls @ [Print line], out line)
         else (case say out ''write doctor result: '' (''vial doctor: ok (routes: '' @ show_nat (length routes) @ '')'') of
           (c, err) \<Rightarrow> (calls @ c, err))))"

text \<open>The rows of the table; \<open>tabwriter\<close> aligns them when they are flushed.\<close>

definition route_row :: "route \<Rightarrow> string list" where
  "route_row r = [if rt_Method r = [] then ''*'' else rt_Method r, rt_Path r,
     if rt_Name r = [] then ''-'' else rt_Name r, if rt_Module r = [] then ''-'' else rt_Module r]"

definition route_table :: "route list \<Rightarrow> string list list" where
  "route_table routes = [''METHOD'', ''PATH'', ''NAME'', ''MODULE''] # map route_row routes"

definition runRoutes ::
  "inspect_os \<Rightarrow> (string \<Rightarrow> route list result) \<Rightarrow> cmd_out \<Rightarrow> (bool \<Rightarrow> route list \<Rightarrow> string) \<Rightarrow>
    (string list \<Rightarrow> (bool \<times> string list) result) \<Rightarrow> string list \<Rightarrow> cmd_call list \<times> goerr option" where
  "runRoutes O' decode out show_routes parse arguments = (case splitApplicationArguments arguments of (fw, args) \<Rightarrow>
     (case parse fw of
        Inl err \<Rightarrow> ([], Some err)
      | Inr (json, rest) \<Rightarrow> (case one_package rest of
          Inl err \<Rightarrow> ([], Some err)
        | Inr target \<Rightarrow> (case inspectApplication O' decode target args of
            (calls, Inl err) \<Rightarrow> (calls, Some err)
          | (calls, Inr routes) \<Rightarrow> (calls @ [Print (show_routes json routes)], out (show_routes json routes))))))"

text \<open>
  \<open>parse\<close> gives the two flags and the other arguments; \<open>decode\<close> is the version in the document, \<open>write\<close>
  and \<open>stdout\<close> are the answers of the file and of the writer.
\<close>

definition runOpenAPI ::
  "inspect_os \<Rightarrow> (string \<Rightarrow> string result) \<Rightarrow> (string \<Rightarrow> nat \<times> goerr option) \<Rightarrow> (string \<Rightarrow> string \<Rightarrow> goerr option) \<Rightarrow>
    (string list \<Rightarrow> (string \<times> string \<times> string list) result) \<Rightarrow> string list \<Rightarrow> cmd_call list \<times> goerr option" where
  "runOpenAPI O' decode stdout write parse arguments = (case splitApplicationArguments arguments of (fw, args) \<Rightarrow>
     (case parse fw of
        Inl err \<Rightarrow> ([], Some err)
      | Inr (docPath, outputPath, rest) \<Rightarrow> (case one_package rest of
          Inl err \<Rightarrow> ([], Some err)
        | Inr target \<Rightarrow>
          if outputPath = [] then ([], Some (Opaque ''output path cannot be empty''))
          else (case inspectOutput O' target args httpInspectionOutputEnvironment [httpInspectionPathEnvironment @ ''='' @ docPath] of
            (calls, Inl err) \<Rightarrow> (calls, Some err)
          | (calls, Inr data) \<Rightarrow> (case decode data of
              Inl err \<Rightarrow> (calls, Some (Wrapf ''decode OpenAPI document: '' err))
            | Inr v \<Rightarrow>
                if \<not> has_prefix v ''3.1.'' then
                  (calls, Some (Opaque (''endpoint returned OpenAPI version '' @ v @ ''; version 3.1 is required'')))
                else if outputPath \<noteq> ''-'' then
                  (calls @ [WriteTo outputPath data], map_option (Wrapf ''write OpenAPI document: '') (write outputPath data))
                else (calls @ [Print data], (case stdout data of
                    (n, Some err) \<Rightarrow> Some (Wrapf ''write OpenAPI document: '' err)
                  | (n, None) \<Rightarrow> if n \<noteq> length data then Some (Wrapf ''write OpenAPI document: '' (Opaque ''short write'')) else None)))))))"

section \<open>New projects\<close>

definition module_char :: "char \<Rightarrow> bool" where
  "module_char c \<longleftrightarrow> is_letter c \<or> is_digit c \<or> c \<in> set ''-._~/''"

definition validModulePath :: "string \<Rightarrow> bool" where
  "validModulePath m \<longleftrightarrow> m \<noteq> [] \<and> m = trim_space m \<and> list_all module_char m \<and>
     list_all (\<lambda>segment. segment \<noteq> [] \<and> segment \<noteq> ''.'' \<and> segment \<noteq> ''..'') (split_byte (CHR ''/'') m)"

definition goMod :: "string \<Rightarrow> string \<Rightarrow> string" where
  "goMod m moduleVersion = ''module '' @ m @ [CHR 0x0A, CHR 0x0A] @ ''go 1.26.6'' @ [CHR 0x0A, CHR 0x0A] @
     ''require github.com/jrgf/go-vial '' @ moduleVersion @ [CHR 0x0A]"

text \<open>\<open>no_stat\<close> is what \<open>os.Stat\<close> answers on the directory; \<open>no_write\<close> answers on a name in the staging directory.\<close>

datatype stat_result = Exists | Absent | StatFailed goerr

record new_os =
  no_abs :: "string result"
  no_stat :: stat_result
  no_base :: string
  no_dir :: string
  no_mkdirAll :: "goerr option"
  no_mkdirTemp :: "string result"
  no_join :: "string \<Rightarrow> string \<Rightarrow> string"
  no_write :: "string \<Rightarrow> goerr option"
  no_rename :: "goerr option"

fun write_project :: "new_os \<Rightarrow> string \<Rightarrow> (string \<times> string) list \<Rightarrow> cmd_call list \<times> goerr option" where
  "write_project N temporary [] = ([], None)"
| "write_project N temporary ((name, contents) # files) =
    (let call = WriteTo (no_join N temporary name) contents
     in case no_write N name of
       Some err \<Rightarrow> ([call], Some (Wrapf (''write '' @ name @ '': '') err))
     | None \<Rightarrow> (case write_project N temporary files of (calls, err) \<Rightarrow> (call # calls, err)))"

text \<open>From the staging directory on, with its deferred removal; \<open>out\<close> prints the result, \<open>json\<close> is its text with \<open>--json\<close>.\<close>

definition stage_project :: "new_os \<Rightarrow> cmd_out \<Rightarrow> string option \<Rightarrow> string \<Rightarrow> (string \<times> string) list \<Rightarrow> string \<Rightarrow> cmd_call list \<times> goerr option" where
  "stage_project N out json directory files temporary = (case write_project N temporary files of
     (calls, Some err) \<Rightarrow> (calls @ [RemoveAllDir temporary], Some err)
   | (calls, None) \<Rightarrow> (case no_rename N of
       Some err \<Rightarrow> (calls @ [RenameTo temporary directory, RemoveAllDir temporary], Some (Wrapf ''create project: '' err))
     | None \<Rightarrow> (case (case json of
             Some text \<Rightarrow> ([Print text], out text)
           | None \<Rightarrow> say out ''write new project result: '' (''created '' @ directory)) of
         (c, err) \<Rightarrow> (calls @ [RenameTo temporary directory] @ c @ [RemoveAllDir temporary], err))))"

text \<open>
  \<open>main\<close> is the generated program; a map gives the two files in any order, here as \<open>reverse\<close>; \<open>text\<close> is
  the JSON form of the result.
\<close>

definition runNew ::
  "new_os \<Rightarrow> cmd_out \<Rightarrow> (string \<Rightarrow> string \<Rightarrow> string \<Rightarrow> string) \<Rightarrow> string \<Rightarrow> string \<Rightarrow> bool \<Rightarrow>
    (string list \<Rightarrow> (string \<times> bool \<times> string list) result) \<Rightarrow> string list \<Rightarrow>
    cmd_call list \<times> goerr option" where
  "runNew N out text main version reverse parse arguments = (case parse arguments of
     Inl err \<Rightarrow> ([], Some err)
   | Inr (modulePath, json, rest) \<Rightarrow>
     if length rest \<noteq> 1 then ([], Some (Opaque (''expected one project directory, received '' @ show_nat (length rest))))
     else case no_abs N of
       Inl err \<Rightarrow> ([], Some (Wrapf ''resolve project directory: '' err))
     | Inr directory \<Rightarrow> (case no_stat N of
         Exists \<Rightarrow> ([], Some (Opaque (''project directory '' @ directory @ '' already exists'')))
       | StatFailed err \<Rightarrow> ([], Some (Wrapf ''inspect project directory: '' err))
       | Absent \<Rightarrow>
         let m = (if modulePath = [] then no_base N else modulePath)
         in if \<not> validModulePath m then ([], Some (Opaque (''invalid Go module path '' @ m)))
            else case no_mkdirAll N of
              Some err \<Rightarrow> ([MakeDirs (no_dir N)], Some (Wrapf ''create project parent: '' err))
            | None \<Rightarrow> (case no_mkdirTemp N of
                Inl err \<Rightarrow> ([MakeDirs (no_dir N)], Some (Wrapf ''create project staging directory: '' err))
              | Inr temporary \<Rightarrow>
                  let moduleVersion = CHR ''v'' # (if has_prefix version ''v'' then tl version else version);
                      files = [(''go.mod'', goMod m moduleVersion), (''main.go'', main)]
                  in case stage_project N out (if json then Some (text directory m moduleVersion) else None) directory (if reverse then rev files else files) temporary of
                    (calls, err) \<Rightarrow> (MakeDirs (no_dir N) # MakeTempDir temporary # calls, err))))"

section \<open>The program\<close>

text \<open>\<open>usage\<close>: the error is \<open>flag.ErrHelp\<close>.\<close>

definition commandExitCode :: "(bool \<times> goerr) option \<Rightarrow> nat" where
  "commandExitCode err = (case err of None \<Rightarrow> 0 | Some (isHelp, _) \<Rightarrow> if isHelp then 0 else 1)"

datatype command = PrintUsage | RunNew "string list" | RunDev "string list" | RunRoutes "string list" | RunDoctor "string list"
  | RunConfig "string list" | RunOpenAPI "string list" | RunLoad "string list" | PrintVersion "string list" | UnknownCommand string

definition command_of :: "string list \<Rightarrow> command" where
  "command_of arguments = (case arguments of
     [] \<Rightarrow> PrintUsage
   | c # rest \<Rightarrow>
       if c = ''new'' then RunNew rest else if c = ''dev'' then RunDev rest
       else if c = ''routes'' then RunRoutes rest else if c = ''doctor'' then RunDoctor rest
       else if c = ''config'' then RunConfig rest else if c = ''openapi'' then RunOpenAPI rest
       else if c = ''load'' then RunLoad rest
       else if c \<in> {''version'', ''--version'', ''-v''} then PrintVersion rest
       else if c \<in> {''help'', ''--help'', ''-h''} then PrintUsage
       else UnknownCommand c)"

text \<open>\<open>json\<close> is the text of the versions as JSON.\<close>

definition printVersion :: "(string \<Rightarrow> string) \<Rightarrow> string \<Rightarrow> string \<Rightarrow> string \<Rightarrow> string \<Rightarrow> string list \<Rightarrow> string result" where
  "printVersion json version commit buildGoVersion runtimeVersion arguments =
    (let goVersion = (if buildGoVersion = [] then runtimeVersion else buildGoVersion)
     in if arguments = [] then Inr version
        else if arguments = [''--help''] \<or> arguments = [''-h''] then Inr ''Usage: vial version [--verbose|--json]''
        else if arguments = [''--json''] then Inr (json goVersion)
        else if arguments \<noteq> [''--verbose''] then Inl (Opaque ''usage: vial version [--verbose|--json]'')
        else Inr (''version='' @ version @ [CHR 0x0A] @ ''commit='' @ commit @ [CHR 0x0A] @ ''go='' @ goVersion))"

section \<open>What an inspected application sees\<close>

text \<open>\<open>os.Getenv\<close> of a process that was given this environment.\<close>

definition getenv :: "string list \<Rightarrow> string \<Rightarrow> string" where
  "getenv env name = (case find (\<lambda>v. has_prefix v (name @ ''='')) env of None \<Rightarrow> [] | Some v \<Rightarrow> drop (Suc (length name)) v)"

definition reads_environment :: "run_lib \<Rightarrow> string list \<Rightarrow> bool" where
  "reads_environment R env \<longleftrightarrow> rl_inspectionOutput R = getenv env httpInspectionOutputEnvironment \<and>
     rl_inspectionPath R = getenv env httpInspectionPathEnvironment \<and> rl_routesOutput R = getenv env routesOutputEnvironment"

lemmas environment_names = routesOutputEnvironment_def httpInspectionOutputEnvironment_def httpInspectionPathEnvironment_def

lemma has_prefix_append [simp]: "has_prefix (p @ s) p"
  by (simp add: has_prefix_iff)

lemma getenv_filtered:
  assumes "name \<in> {routesOutputEnvironment, httpInspectionOutputEnvironment, httpInspectionPathEnvironment}"
  shows "getenv (inspectionEnvironment env @ rest) name = getenv rest name"
proof -
  have "find (\<lambda>v. has_prefix v (name @ ''='')) (inspectionEnvironment env) = None"
    using assms by (auto simp: find_None_iff inspectionEnvironment_def)
  moreover have "find P xs = None \<Longrightarrow> find P (xs @ rest) = find P rest" for P and xs :: "string list"
    by (induction xs) (auto split: if_splits)
  ultimately have "find (\<lambda>v. has_prefix v (name @ ''='')) (inspectionEnvironment env @ rest) = find (\<lambda>v. has_prefix v (name @ ''='')) rest"
    by blast
  then show ?thesis by (simp add: getenv_def)
qed

lemma getenv_set: "getenv ((name @ ''='' @ v) # rest) name = v"
proof -
  have "has_prefix (name @ ''='' @ v) (name @ ''='')" by (simp add: has_prefix_iff prefix_def)
  then show ?thesis by (simp add: getenv_def)
qed

lemma getenv_other:
  assumes "name \<noteq> other" "CHR ''='' \<notin> set name" "CHR ''='' \<notin> set other"
  shows "getenv ((other @ ''='' @ v) # rest) name = getenv rest name"
proof -
  have "\<not> has_prefix (other @ ''='' @ v) (name @ ''='')"
  proof
    assume "has_prefix (other @ ''='' @ v) (name @ ''='')"
    then obtain t where "other @ CHR ''='' # v = name @ CHR ''='' # t" by (auto simp: has_prefix_iff prefix_def)
    from arg_cong [OF this, of "\<lambda>s. fst (cut s (CHR ''=''))"] assms show False by simp
  qed
  then show ?thesis by (simp add: getenv_def)
qed

lemma getenv_Nil [simp]: "getenv [] name = []"
  by (simp add: getenv_def)

lemma app_environment_vars:
  assumes "var = routesOutputEnvironment \<and> extra = [] \<or>
    var = httpInspectionOutputEnvironment \<and> extra = [httpInspectionPathEnvironment @ ''='' @ path]"
  shows "getenv (app_environment env var tmp extra) var = tmp"
    "var = httpInspectionOutputEnvironment \<Longrightarrow> getenv (app_environment env var tmp extra) httpInspectionPathEnvironment = path"
    "var = routesOutputEnvironment \<Longrightarrow> getenv (app_environment env var tmp extra) httpInspectionOutputEnvironment = []"
  using assms getenv_set [of var tmp extra] getenv_set [of httpInspectionPathEnvironment path "[]"]
    getenv_other [of httpInspectionPathEnvironment httpInspectionOutputEnvironment tmp extra]
    getenv_other [of httpInspectionOutputEnvironment routesOutputEnvironment tmp "[]"]
  by (auto simp: app_environment_def getenv_filtered) (simp_all add: environment_names)

section \<open>What an inspection leaves behind\<close>

lemma inspectOutput_shape:
  assumes "inspectOutput O' target args var extra = (calls, res)"
  shows "calls = [] \<or> (\<exists>tmp dir mid. io_createTemp O' = Inr tmp \<and> calls = CreateFile tmp # mid @ [RemoveFile tmp] \<and>
    (mid = [] \<or> (\<exists>build exe resolved run. mid = MakeTempDir build # BuildApp dir exe resolved # run @ [RemoveAllDir build] \<and>
      (run = [] \<or> run = [RunApp exe args dir (app_environment (io_environ O') var tmp extra)]))))"
proof (cases "io_resolve O' target")
  case (Inl err)
  with assms show ?thesis by (simp add: inspectOutput_def)
next
  case (Inr dt)
  obtain dir resolved where dt: "io_resolve O' target = Inr (dir, resolved)" using Inr by (cases dt) auto
  show ?thesis
  proof (cases "io_createTemp O'")
    case (Inl err)
    with assms dt show ?thesis by (simp add: inspectOutput_def)
  next
    case (Inr tmp)
    let ?env = "app_environment (io_environ O') var tmp extra"
    obtain mid r where m: "inspect_into O' dir resolved args ?env = (mid, r)" by fastforce
    have "mid = [] \<or> (\<exists>build exe resolved run. mid = MakeTempDir build # BuildApp dir exe resolved # run @ [RemoveAllDir build] \<and>
        (run = [] \<or> run = [RunApp exe args dir ?env]))"
      using m by (auto simp: inspect_into_def build_and_run_def Let_def split: option.splits sum.splits prod.splits)
    with assms dt Inr m show ?thesis
      by (intro disjI2 exI [of _ tmp] exI [of _ dir] exI [of _ mid]) (simp add: inspectOutput_def)
  qed
qed

section \<open>Properties\<close>

text \<open>
  An inspection removes what it made: the calls of \<open>inspectOutput\<close> either change nothing, or create a file and remove
  it at the end, and in between build in a directory that is removed, whatever fails.
\<close>

theorem inspection_cleans_up:
  "let calls = fst (inspectOutput O' target args var extra) in
    calls = [] \<or> (\<exists>tmp mid. calls = CreateFile tmp # mid @ [RemoveFile tmp] \<and>
      (mid = [] \<or> (\<exists>build work. mid = MakeTempDir build # work @ [RemoveAllDir build] \<and>
        (\<forall>c. c \<in> set work \<longrightarrow> (\<exists>d e r. c = BuildApp d e r) \<or> (\<exists>e as d env. c = RunApp e as d env)))))"
proof -
  obtain calls res where c: "inspectOutput O' target args var extra = (calls, res)" by fastforce
  show ?thesis unfolding c Let_def fst_conv using inspectOutput_shape [OF c]
    by (elim disjE exE conjE) (force intro: disjI2)+
qed

text \<open>
  C29. An application that is inspected never listens: whatever the environment of the command, in the one it gives to the
  application \<open>App.Run\<close> of this application makes no call but to write the output file of the inspection.
\<close>

theorem inspected_never_listens:
  assumes "inspectOutput O' target args var extra = (calls, res)" "RunApp exe as dir env \<in> set calls"
    and "var = routesOutputEnvironment \<and> extra = [] \<or>
      var = httpInspectionOutputEnvironment \<and> extra = [httpInspectionPathEnvironment @ ''='' @ path]"
    and "io_createTemp O' = Inr tmp" "tmp \<noteq> []"
    and "reads_environment R env" "app_Run X R E H async address a = (a', rcalls, x)"
  shows "\<exists>data. rcalls = [] \<or> rcalls = [WriteFile tmp data]"
proof -
  from inspectOutput_shape [OF assms(1)] assms(2,4) have env: "env = app_environment (io_environ O') var tmp extra" by auto
  note vars = app_environment_vars [OF assms(3), of "io_environ O'" tmp]
  show ?thesis
  proof (cases "var = httpInspectionOutputEnvironment")
    case True
    with vars assms(6) env have "rl_inspectionOutput R = tmp" by (simp add: reads_environment_def)
    with assms(5,7) show ?thesis
      by (auto simp: app_Run_def writeHTTPInspection_def Let_def split: if_splits prod.splits option.splits sum.splits outcome.splits)
  next
    case False
    with assms(3) have "var = routesOutputEnvironment" by simp
    with vars assms(6) env have "rl_routesOutput R = tmp" "rl_inspectionOutput R = []" by (simp_all add: reads_environment_def)
    with assms(5,7) show ?thesis
      by (auto simp: app_Run_def split: if_splits prod.splits option.splits sum.splits)
  qed
qed

section \<open>A new project\<close>

lemma write_project_all:
  assumes "write_project N tmp files = (calls, None)"
  shows "calls = map (\<lambda>(name, contents). WriteTo (no_join N tmp name) contents) files \<and> (\<forall>f \<in> set files. no_write N (fst f) = None)"
  using assms by (induction files arbitrary: calls) (fastforce simp: Let_def split: option.splits prod.splits)+

lemma write_project_calls:
  "write_project N tmp files = (calls, err) \<Longrightarrow> c \<in> set calls \<Longrightarrow> \<exists>name contents. c = WriteTo name contents"
  by (induction files arbitrary: calls) (auto simp: Let_def split: option.splits prod.splits)

lemma module_one_line: "validModulePath m \<Longrightarrow> CHR 0x0A \<notin> set m"
  by (auto simp: validModulePath_def list_all_iff module_char_def is_letter_def is_digit_def)

lemma stage_project_calls:
  assumes "stage_project N out json directory files tmp = (calls, err)"
  shows "\<exists>work. calls = work @ [RemoveAllDir tmp] \<and> (\<forall>t. MakeTempDir t \<notin> set work) \<and> (\<forall>t d. RenameTo t d \<in> set work \<longrightarrow> t = tmp \<and> d = directory \<and>
      (\<forall>f \<in> set files. no_write N (fst f) = None) \<and>
      (\<exists>post. work = map (\<lambda>(name, contents). WriteTo (no_join N tmp name) contents) files @ RenameTo tmp directory # post)) \<and>
    (err = None \<longrightarrow> RenameTo tmp directory \<in> set work \<and> no_rename N = None)"
proof -
  obtain ws e where w: "write_project N tmp files = (ws, e)" by fastforce
  have only: "RenameTo t d \<notin> set ws" "MakeTempDir t \<notin> set ws" for t d using write_project_calls [OF w] by blast+
  show ?thesis
  proof (cases e)
    case (Some err')
    with assms w only show ?thesis by (intro exI [of _ ws]) (auto simp: stage_project_def)
  next
    case None
    note all = write_project_all [OF w [unfolded None]]
    show ?thesis
    proof (cases "no_rename N")
      case (Some err')
      with assms w None only all show ?thesis
        by (intro exI [of _ "ws @ [RenameTo tmp directory]"]) (auto simp: stage_project_def)
    next
      case none: None
      obtain c e' where c: "(case json of Some text \<Rightarrow> ([Print text], out text)
          | None \<Rightarrow> say out ''write new project result: '' (''created '' @ directory)) = (c, e')" by fastforce
      then have "RenameTo t d \<notin> set c" "MakeTempDir t \<notin> set c" for t d by (auto simp: say_def split: option.splits)
      with assms w None only all none c show ?thesis
        by (intro exI [of _ "ws @ [RenameTo tmp directory] @ c"]) (auto simp: stage_project_def)
    qed
  qed
qed

definition project_files :: "string \<Rightarrow> string \<Rightarrow> string \<Rightarrow> bool \<Rightarrow> (string \<times> string) list" where
  "project_files main m v reverse = (let files = [(''go.mod'', goMod m v), (''main.go'', main)] in if reverse then rev files else files)"

lemma runNew_shape:
  assumes "runNew N out text main version reverse parse arguments = (calls, err)"
  shows "set calls \<subseteq> {MakeDirs (no_dir N)} \<and> err \<noteq> None \<or>
    (\<exists>dir tmp m v json work. no_stat N = Absent \<and> no_abs N = Inr dir \<and> validModulePath m \<and>
      stage_project N out json dir (project_files main m v reverse) tmp = (work, err) \<and>
      calls = MakeDirs (no_dir N) # MakeTempDir tmp # work)"
proof -
  define P where "P calls err \<longleftrightarrow> set calls \<subseteq> {MakeDirs (no_dir N)} \<and> err \<noteq> None \<or>
    (\<exists>dir tmp m v json work. no_stat N = Absent \<and> no_abs N = Inr dir \<and> validModulePath m \<and>
      stage_project N out json dir (project_files main m v reverse) tmp = (work, err) \<and>
      calls = MakeDirs (no_dir N) # MakeTempDir tmp # work)" for calls and err :: "goerr option"
  have early: "P [] (Some err)" "P [MakeDirs (no_dir N)] (Some err)" for err by (simp_all add: P_def)
  have staged: "P (MakeDirs (no_dir N) # MakeTempDir tmp # work) err"
    if "no_stat N = Absent" "no_abs N = Inr dir" "validModulePath m"
      "stage_project N out json dir (project_files main m v reverse) tmp = (work, err)" for dir tmp m v json work err
    using that unfolding P_def by blast
  have "case runNew N out text main version reverse parse arguments of (calls, err) \<Rightarrow> P calls err"
    unfolding runNew_def Let_def project_files_def [unfolded Let_def, symmetric]
    by (simp split: sum.split prod.split stat_result.split option.split add: early) (blast intro: staged)
  with assms show ?thesis by (simp add: P_def)
qed

text \<open>
  C30. A new project appears whole or not at all: the staging directory takes the name of the project only when there
  was none, after both files were written to it, and it is removed in the end. The module line of \<open>go.mod\<close> is the module path,
  which cannot add lines of its own. Without an error the project was made.
\<close>

theorem new_project_whole:
  assumes "runNew N out text main version reverse parse arguments = (calls, err)"
  shows "(err = None \<longrightarrow> (\<exists>tmp dir. RenameTo tmp dir \<in> set calls) \<and> no_rename N = None) \<and>
    (MakeTempDir t \<in> set calls \<longrightarrow> last calls = RemoveAllDir t) \<and>
    (RenameTo tmp dir \<in> set calls \<longrightarrow> no_stat N = Absent \<and> no_abs N = Inr dir \<and>
      (\<exists>pre post m v. calls = pre @ RenameTo tmp dir # post \<and> validModulePath m \<and>
        {WriteTo (no_join N tmp ''go.mod'') (goMod m v), WriteTo (no_join N tmp ''main.go'') main} \<subseteq> set pre \<and>
        no_write N ''go.mod'' = None \<and> no_write N ''main.go'' = None \<and>
        fst (cut (goMod m v) (CHR 0x0A)) = ''module '' @ m))"
proof (cases "set calls \<subseteq> {MakeDirs (no_dir N)} \<and> err \<noteq> None")
  case True
  then show ?thesis by auto
next
  case False
  with runNew_shape [OF assms] obtain d s m v json work where 1: "no_stat N = Absent" "no_abs N = Inr d" "validModulePath m"
    "stage_project N out json d (project_files main m v reverse) s = (work, err)"
    "calls = MakeDirs (no_dir N) # MakeTempDir s # work" by blast
  from stage_project_calls [OF 1(4)] obtain w where w: "work = w @ [RemoveAllDir s]"
    "\<And>t d'. RenameTo t d' \<in> set w \<Longrightarrow> t = s \<and> d' = d \<and> (\<forall>f \<in> set (project_files main m v reverse). no_write N (fst f) = None) \<and>
      (\<exists>post. w = map (\<lambda>(name, contents). WriteTo (no_join N s name) contents) (project_files main m v reverse) @ RenameTo s d # post)"
    "err = None \<longrightarrow> RenameTo s d \<in> set w \<and> no_rename N = None" "\<And>t. MakeTempDir t \<notin> set w" by blast
  have line: "fst (cut (goMod m v) (CHR 0x0A)) = ''module '' @ m"
    using module_one_line [OF 1(3)] cut_append [of "CHR 0x0A" "''module '' @ m"] by (simp add: goMod_def)
  have files: "set (project_files main m v reverse) = {(''go.mod'', goMod m v), (''main.go'', main)}"
    by (simp add: project_files_def Let_def insert_commute)
  show ?thesis
  proof (intro conjI impI)
    show "\<exists>tmp dir. RenameTo tmp dir \<in> set calls" "no_rename N = None" if "err = None" using w(3) that 1(5) w(1) by auto
    show "last calls = RemoveAllDir t" if "MakeTempDir t \<in> set calls" using that w(1,4) 1(5) by auto
    assume "RenameTo tmp dir \<in> set calls"
    with w(1) 1(5) have "RenameTo tmp dir \<in> set w" by auto
    from w(2) [OF this] obtain post where p: "tmp = s" "dir = d" "\<forall>f \<in> set (project_files main m v reverse). no_write N (fst f) = None"
      "w = map (\<lambda>(name, contents). WriteTo (no_join N s name) contents) (project_files main m v reverse) @ RenameTo s d # post" by blast
    show "no_stat N = Absent" "no_abs N = Inr dir" using 1(1,2) p(2) by simp_all
    let ?pre = "MakeDirs (no_dir N) # MakeTempDir s # map (\<lambda>(name, contents). WriteTo (no_join N s name) contents) (project_files main m v reverse)"
    have "{WriteTo (no_join N s ''go.mod'') (goMod m v), WriteTo (no_join N s ''main.go'') main} \<subseteq> set ?pre" by (simp add: files)
    moreover have "calls = ?pre @ RenameTo s d # post @ [RemoveAllDir s]" using 1(5) w(1) p(4) by simp
    moreover have "no_write N ''go.mod'' = None" "no_write N ''main.go'' = None" using p(3) by (simp_all add: files)
    ultimately show "\<exists>pre post m v. calls = pre @ RenameTo tmp dir # post \<and> validModulePath m \<and>
        {WriteTo (no_join N tmp ''go.mod'') (goMod m v), WriteTo (no_join N tmp ''main.go'') main} \<subseteq> set pre \<and>
        no_write N ''go.mod'' = None \<and> no_write N ''main.go'' = None \<and> fst (cut (goMod m v) (CHR 0x0A)) = ''module '' @ m"
      using line 1(3) p(1,2) by blast
  qed
qed

section \<open>Runs of the commands\<close>

definition demo_inspect :: inspect_os where
  "demo_inspect = \<lparr>io_resolve = (\<lambda>t. Inr (''d'', t)), io_createTemp = Inr ''t'', io_closeTemp = None, io_mkdirTemp = Inr ''b'',
     io_join = (\<lambda>a b. a @ ''/'' @ b), io_build = None, io_environ = [''VIAL_ROUTES_OUTPUT=x'', ''A=1''], io_run = None,
     io_read = Inr ''[]''\<rparr>"

lemma demo_inspection:
  "inspectOutput demo_inspect ''.'' [] routesOutputEnvironment [] =
    ([CreateFile ''t'', MakeTempDir ''b'', BuildApp ''d'' ''b/application.exe'' ''.'',
      RunApp ''b/application.exe'' [] ''d'' [''A=1'', ''VIAL_ROUTES_OUTPUT=t''], RemoveAllDir ''b'', RemoveFile ''t''], read_output demo_inspect)"
  by (simp add: inspectOutput_def inspect_into_def build_and_run_def demo_inspect_def app_environment_def
      inspectionEnvironment_def environment_names has_prefix_def Let_def)

theorem inspection_cleans_up_witness:
  "\<exists>mid. fst (inspectOutput demo_inspect ''.'' [] routesOutputEnvironment []) = CreateFile ''t'' # mid @ [RemoveFile ''t'']"
  using inspection_cleans_up [of demo_inspect "''.''" "[]" routesOutputEnvironment "[]"] by (auto simp: demo_inspection)

theorem inspected_never_listens_witness:
  "\<exists>data. fst (snd (app_Run demo_server (demo_run\<lparr>rl_routesOutput := ''t''\<rparr>) demo_life demo_http_answers False '':80'' demo_app)) = [] \<or>
     fst (snd (app_Run demo_server (demo_run\<lparr>rl_routesOutput := ''t''\<rparr>) demo_life demo_http_answers False '':80'' demo_app)) =
       [WriteFile ''t'' data]"
proof -
  let ?R = "demo_run\<lparr>rl_routesOutput := ''t''\<rparr>"
  obtain a' calls x where r: "app_Run demo_server ?R demo_life demo_http_answers False '':80'' demo_app = (a', calls, x)"
    using prod_cases3 by blast
  have "reads_environment ?R [''A=1'', ''VIAL_ROUTES_OUTPUT=t'']"
    by (simp add: reads_environment_def demo_run_def getenv_def environment_names has_prefix_def)
  moreover have "RunApp ''b/application.exe'' [] ''d'' [''A=1'', ''VIAL_ROUTES_OUTPUT=t''] \<in>
      set (fst (inspectOutput demo_inspect ''.'' [] routesOutputEnvironment []))" by (simp add: demo_inspection)
  ultimately show ?thesis
    using inspected_never_listens [OF prod.collapse [symmetric], of "''b/application.exe''" "[]" "''d''" "[''A=1'', ''VIAL_ROUTES_OUTPUT=t'']"
        demo_inspect "''.''" "[]" routesOutputEnvironment "[]" "[]" "''t''" ?R] r
    by (simp add: demo_inspect_def)
qed

definition demo_new :: new_os where
  "demo_new = \<lparr>no_abs = Inr ''/p/app'', no_stat = Absent, no_base = ''app'', no_dir = ''/p'', no_mkdirAll = None, no_mkdirTemp = Inr ''/p/t'',
     no_join = (\<lambda>a b. a @ ''/'' @ b), no_write = (\<lambda>n. None), no_rename = None\<rparr>"

theorem new_project_whole_witness:
  "\<exists>tmp dir. RenameTo tmp dir \<in> set (fst (runNew demo_new (\<lambda>s. None) (\<lambda>d m v. []) ''main'' ''1.0'' False
     (\<lambda>as. Inr ([], False, as)) [''app'']))"
proof -
  obtain calls err where r: "runNew demo_new (\<lambda>s. None) (\<lambda>d m v. []) ''main'' ''1.0'' False (\<lambda>as. Inr ([], False, as)) [''app''] = (calls, err)"
    by fastforce
  have "validModulePath ''app''" by code_simp
  with r have "err = None"
    by (auto simp: runNew_def demo_new_def stage_project_def say_def Let_def split: prod.splits)
  with new_project_whole [OF r, of "[]" "[]" "[]"] r show ?thesis by auto
qed

end
