(* ===== verification/WebSocket.thy ===== *)
theory WebSocket
  imports Errors "HOL-Library.Word"
begin

text \<open>
  The WebSocket adapter, \<open>vialws/websocket.go\<close>: its configuration, and the goroutines of a connection as a step
  relation. \<open>websocket.Accept\<close> and the connection are not part of the repository; a call on the connection is logged,
  and is taken to return.
\<close>

section \<open>Configuration of WebSocket handlers\<close>

record 'o ws_config =
  ws_Handler :: bool
  ws_AcceptOptions :: 'o
  ws_ReadLimit :: int

definition DefaultReadLimit :: int where "DefaultReadLimit = push_bit 10 64"

text \<open>The configuration the handler works with.\<close>

definition ws_NewHandler :: "'o ws_config \<Rightarrow> 'o ws_config result" where
  "ws_NewHandler c =
    (if \<not> ws_Handler c then Inl (Opaque ''vialws: handler cannot be nil'')
     else if ws_ReadLimit c < 0 then Inl (Opaque ''vialws: read limit cannot be negative'')
     else Inr (if ws_ReadLimit c = 0 then c\<lparr>ws_ReadLimit := DefaultReadLimit\<rparr> else c))"

section \<open>A connection\<close>

text \<open>
  The serving goroutine runs the application's handler, which may also panic, and then the deferred calls; the watcher
  waits for either context. \<open>wc_calls\<close> are the calls on the connection.
\<close>

datatype ws_call = SetReadLimit int | CloseGoingAway | CloseNow

datatype ws_serving = HandlerRuns | CancelDeferred | WaitDeferred | CloseDeferred | Served

datatype ws_watcher = Selecting | Closing | Cancelling | WatcherDone

record ws_conn =
  wc_serving :: ws_serving
  wc_watcher :: ws_watcher
  wc_requestDone :: bool
  wc_cancelled :: bool
  wc_panicked :: bool
  wc_calls :: "ws_call list"

definition ws_accepted :: "'o ws_config \<Rightarrow> bool \<Rightarrow> ws_conn" where
  "ws_accepted c ended = \<lparr>wc_serving = HandlerRuns, wc_watcher = Selecting, wc_requestDone = ended, wc_cancelled = False,
     wc_panicked = False, wc_calls = [SetReadLimit (ws_ReadLimit c)]\<rparr>"

text \<open>The steps of the goroutines, and the two of the environment: the request context ends, the handler ends.\<close>

inductive ws_env :: "ws_conn \<Rightarrow> ws_conn \<Rightarrow> bool" where
  request_done: "ws_env w (w\<lparr>wc_requestDone := True\<rparr>)"
| handler_ends: "wc_serving w = HandlerRuns \<Longrightarrow> ws_env w (w\<lparr>wc_serving := CancelDeferred, wc_panicked := panicked\<rparr>)"

inductive ws_step :: "ws_conn \<Rightarrow> ws_conn \<Rightarrow> bool" where
  select_request: "wc_watcher w = Selecting \<Longrightarrow> wc_requestDone w \<Longrightarrow> ws_step w (w\<lparr>wc_watcher := Closing\<rparr>)"
| select_connection: "wc_watcher w = Selecting \<Longrightarrow> wc_cancelled w \<Longrightarrow> ws_step w (w\<lparr>wc_watcher := WatcherDone\<rparr>)"
| close_going_away: "wc_watcher w = Closing \<Longrightarrow>
    ws_step w (w\<lparr>wc_watcher := Cancelling, wc_calls := wc_calls w @ [CloseGoingAway]\<rparr>)"
| watcher_cancels: "wc_watcher w = Cancelling \<Longrightarrow> ws_step w (w\<lparr>wc_watcher := WatcherDone, wc_cancelled := True\<rparr>)"
| deferred_cancel: "wc_serving w = CancelDeferred \<Longrightarrow> ws_step w (w\<lparr>wc_serving := WaitDeferred, wc_cancelled := True\<rparr>)"
| deferred_wait: "wc_serving w = WaitDeferred \<Longrightarrow> wc_watcher w = WatcherDone \<Longrightarrow> ws_step w (w\<lparr>wc_serving := CloseDeferred\<rparr>)"
| deferred_close: "wc_serving w = CloseDeferred \<Longrightarrow> ws_step w (w\<lparr>wc_serving := Served, wc_calls := wc_calls w @ [CloseNow]\<rparr>)"

inductive ws_reachable :: "'o ws_config \<Rightarrow> ws_conn \<Rightarrow> bool" for c where
  accepted: "ws_reachable c (ws_accepted c ended)"
| env: "ws_reachable c w \<Longrightarrow> ws_env w v \<Longrightarrow> ws_reachable c v"
| step: "ws_reachable c w \<Longrightarrow> ws_step w v \<Longrightarrow> ws_reachable c v"

inductive_cases ws_envE: "ws_env w v"
inductive_cases ws_stepE: "ws_step w v"

text \<open>What a state of the two goroutines says about the contexts and about the calls; \<open>sent\<close>: a close frame was sent.\<close>

definition ws_control :: "ws_conn \<Rightarrow> bool" where
  "ws_control w \<longleftrightarrow>
     (wc_watcher w \<in> {Closing, Cancelling} \<longrightarrow> wc_requestDone w) \<and>
     (wc_watcher w = WatcherDone \<longrightarrow> wc_cancelled w) \<and>
     (wc_serving w \<in> {WaitDeferred, CloseDeferred, Served} \<longrightarrow> wc_cancelled w) \<and>
     (wc_serving w \<in> {CloseDeferred, Served} \<longrightarrow> wc_watcher w = WatcherDone) \<and>
     (wc_cancelled w \<and> wc_serving w \<in> {HandlerRuns, CancelDeferred} \<longrightarrow> wc_watcher w = WatcherDone \<and> wc_requestDone w)"

definition ws_log :: "'o ws_config \<Rightarrow> ws_conn \<Rightarrow> bool \<Rightarrow> bool" where
  "ws_log c w sent \<longleftrightarrow>
     wc_calls w = [SetReadLimit (ws_ReadLimit c)] @ (if sent then [CloseGoingAway] else []) @ (if wc_serving w = Served then [CloseNow] else []) \<and>
     (sent \<longrightarrow> wc_requestDone w \<and> wc_watcher w \<in> {Cancelling, WatcherDone}) \<and> (wc_watcher w = Cancelling \<longrightarrow> sent)"

lemma ws_control_step: "ws_control w \<Longrightarrow> ws_step w v \<Longrightarrow> ws_control v"
  by (erule ws_stepE) (auto simp: ws_control_def)

lemma ws_control_env: "ws_control w \<Longrightarrow> ws_env w v \<Longrightarrow> ws_control v"
  by (erule ws_envE) (auto simp: ws_control_def)

lemma ws_log_step:
  assumes "ws_control w" "ws_log c w sent" "ws_step w v"
  shows "ws_log c v (sent \<or> wc_watcher w = Closing \<and> wc_watcher v = Cancelling)"
  using assms(3,1,2) by (cases rule: ws_step.cases) (simp_all add: ws_control_def ws_log_def)

lemma ws_log_env: "ws_log c w sent \<Longrightarrow> ws_env w v \<Longrightarrow> ws_log c v sent"
  by (erule ws_envE) (auto simp: ws_log_def)

lemma ws_reachable_inv: "ws_reachable c w \<Longrightarrow> ws_control w \<and> (\<exists>sent. ws_log c w sent)"
proof (induction rule: ws_reachable.induct)
  case (accepted ended)
  then show ?case by (auto simp: ws_control_def ws_log_def ws_accepted_def intro!: exI [of _ False])
next
  case (env w v)
  then show ?case using ws_control_env ws_log_env by blast
next
  case (step w v)
  then show ?case using ws_control_step ws_log_step by blast
qed

text \<open>The steps that are left; a step is enabled until the handler is served and the watcher has ended.\<close>

definition ws_left :: "ws_conn \<Rightarrow> nat" where
  "ws_left w = (case wc_serving w of HandlerRuns \<Rightarrow> 4 | CancelDeferred \<Rightarrow> 3 | WaitDeferred \<Rightarrow> 2 | CloseDeferred \<Rightarrow> 1 | Served \<Rightarrow> 0) +
     (case wc_watcher w of Selecting \<Rightarrow> 3 | Closing \<Rightarrow> 2 | Cancelling \<Rightarrow> 1 | WatcherDone \<Rightarrow> 0)"

lemma ws_left_step: "ws_step w v \<Longrightarrow> ws_left v < ws_left w"
  by (erule ws_stepE) (auto simp: ws_left_def split: ws_serving.split)

lemma ws_serving_step: "ws_step w v \<Longrightarrow> wc_serving w \<noteq> HandlerRuns \<Longrightarrow> wc_serving v \<noteq> HandlerRuns"
  by (erule ws_stepE) auto

lemma ws_progress:
  assumes "ws_control w" "wc_serving w \<noteq> HandlerRuns" "wc_serving w \<noteq> Served"
  shows "\<exists>v. ws_step w v"
proof (cases "wc_serving w = WaitDeferred \<and> wc_watcher w \<noteq> WatcherDone")
  case True
  with assms(1) have "wc_cancelled w" by (simp add: ws_control_def)
  with True show ?thesis by (cases "wc_watcher w") (auto intro: ws_step.intros)
next
  case False
  with assms(2,3) show ?thesis by (cases "wc_serving w") (auto intro: ws_step.intros)
qed

text \<open>The runs of the two goroutines alone.\<close>

definition ws_runs :: "(ws_conn \<times> ws_conn) set" where
  "ws_runs = {(w, v). ws_step w v}"

section \<open>Properties of connections\<close>

text \<open>
  C32. No goroutine and no connection is left behind. A connection gets the read limit first, at most one close frame, and only when the
  request ended, and it is closed at last, once: when the serving goroutine returns, by the handler or
  by its panic, the watcher has ended and the connection was closed.
\<close>

theorem ws_no_leak:
  assumes "ws_NewHandler c0 = Inr c" "ws_reachable c w"
  shows "(\<exists>sent. wc_calls w = SetReadLimit (ws_ReadLimit c) # (if sent then [CloseGoingAway] else []) @
      (if wc_serving w = Served then [CloseNow] else []) \<and> (sent \<longrightarrow> wc_requestDone w)) \<and>
    ws_ReadLimit c > 0 \<and> (wc_serving w = Served \<longrightarrow> wc_watcher w = WatcherDone \<and> wc_cancelled w)"
proof -
  have "ws_ReadLimit c > 0"
    using assms(1) by (auto simp: ws_NewHandler_def DefaultReadLimit_def push_bit_eq_mult split: if_splits)
  moreover obtain sent where "ws_control w" "ws_log c w sent" using ws_reachable_inv [OF assms(2)] by blast
  ultimately show ?thesis by (auto simp: ws_control_def ws_log_def intro!: exI [of _ sent])
qed

text \<open>
  The serving goroutine always ends once the application's handler has: from then on the goroutines make at most six
  steps, and while the request is not served one of them can make a step.
\<close>

theorem ws_finishes:
  assumes "ws_reachable c w" "wc_serving w \<noteq> HandlerRuns" "(w, v) \<in> ws_runs ^^ n"
  shows "n \<le> 6 \<and> (wc_serving v = Served \<or> (\<exists>u. ws_step v u))"
proof -
  have "ws_control v \<and> wc_serving v \<noteq> HandlerRuns \<and> ws_left v + n \<le> ws_left w"
    using assms(3)
  proof (induction n arbitrary: v)
    case 0
    then show ?case using ws_reachable_inv [OF assms(1)] assms(2) by simp
  next
    case (Suc n)
    then obtain u where u: "(w, u) \<in> ws_runs ^^ n" "ws_step u v" by (auto simp: ws_runs_def)
    from Suc.IH [OF u(1)] ws_control_step [OF _ u(2)] ws_serving_step [OF u(2)] ws_left_step [OF u(2)] show ?case by auto
  qed
  moreover have "ws_left w \<le> 6" using assms(2) by (auto simp: ws_left_def split: ws_serving.split ws_watcher.split)
  ultimately show ?thesis using ws_progress by fastforce
qed

section \<open>A run\<close>

definition demo_ws :: "unit ws_config" where
  "demo_ws = \<lparr>ws_Handler = True, ws_AcceptOptions = (), ws_ReadLimit = 100\<rparr>"

lemma demo_ws_new: "ws_NewHandler demo_ws = Inr demo_ws"
  by (simp add: ws_NewHandler_def demo_ws_def)

text \<open>The request ends, the watcher is about to close the connection, and the handler has ended.\<close>

definition demo_conn :: ws_conn where
  "demo_conn = \<lparr>wc_serving = CancelDeferred, wc_watcher = Closing, wc_requestDone = True, wc_cancelled = False,
     wc_panicked = True, wc_calls = [SetReadLimit 100]\<rparr>"

lemma demo_conn_reachable: "ws_reachable demo_ws demo_conn"
proof -
  let ?w = "ws_accepted demo_ws True"
  have "ws_reachable demo_ws ?w" by (rule ws_reachable.accepted)
  moreover have "ws_step ?w (?w\<lparr>wc_watcher := Closing\<rparr>)" by (rule ws_step.select_request) (simp_all add: ws_accepted_def)
  ultimately have "ws_reachable demo_ws (?w\<lparr>wc_watcher := Closing\<rparr>)" by (rule ws_reachable.step)
  moreover have "ws_env (?w\<lparr>wc_watcher := Closing\<rparr>) (?w\<lparr>wc_watcher := Closing\<rparr>\<lparr>wc_serving := CancelDeferred, wc_panicked := True\<rparr>)"
    by (rule ws_env.handler_ends) (simp add: ws_accepted_def)
  ultimately have "ws_reachable demo_ws (?w\<lparr>wc_watcher := Closing\<rparr>\<lparr>wc_serving := CancelDeferred, wc_panicked := True\<rparr>)"
    by (rule ws_reachable.env)
  then show ?thesis by (simp add: demo_conn_def ws_accepted_def demo_ws_def)
qed

theorem ws_no_leak_witness: "\<exists>sent. wc_calls demo_conn = SetReadLimit 100 # (if sent then [CloseGoingAway] else [])"
  using ws_no_leak [OF demo_ws_new demo_conn_reachable] by (auto simp: demo_conn_def demo_ws_def)

theorem ws_finishes_witness: "(0 :: nat) \<le> 6 \<and> (wc_serving demo_conn = Served \<or> (\<exists>u. ws_step demo_conn u))"
  using ws_finishes [OF demo_conn_reachable, of demo_conn 0] by (simp add: demo_conn_def)

end
