(* ===== verification/Grpc.thy ===== *)
theory Grpc
  imports Serve
begin

text \<open>
  The gRPC adapter, \<open>vialgrpc/grpc.go\<close>: its configuration, what its module registers, the handler that clears the deadlines,
  and the shutdown with its goroutine and its timer as a step relation. \<open>grpc.Server\<close> is not part of the repository; what the code
  relies on is that \<open>GracefulStop\<close> returns after \<open>Stop\<close>.
\<close>

section \<open>Configuration\<close>

record grpc_config =
  gc_Name :: string
  gc_Pattern :: string
  gc_MaxReceiveBytes :: int
  gc_MaxSendBytes :: int
  gc_ShutdownTimeout :: int

definition DefaultMaxMessageBytes :: int where "DefaultMaxMessageBytes = push_bit 20 4"
definition DefaultShutdownTimeout :: int where "DefaultShutdownTimeout = 5 * 1000000000"

definition or_zero :: "'a \<Rightarrow> 'a \<Rightarrow> 'a \<Rightarrow> 'a" where
  "or_zero zero d v = (if v = zero then d else v)"

definition grpc_New :: "grpc_config \<Rightarrow> grpc_config result" where
  "grpc_New c =
    (if gc_MaxReceiveBytes c < 0 then Inl (Opaque ''vialgrpc: receive limit cannot be negative'')
     else if gc_MaxSendBytes c < 0 then Inl (Opaque ''vialgrpc: send limit cannot be negative'')
     else if gc_ShutdownTimeout c < 0 then Inl (Opaque ''vialgrpc: shutdown timeout cannot be negative'')
     else Inr \<lparr>gc_Name = or_zero [] ''grpc'' (gc_Name c), gc_Pattern = or_zero [] ''/'' (gc_Pattern c),
       gc_MaxReceiveBytes = or_zero 0 DefaultMaxMessageBytes (gc_MaxReceiveBytes c),
       gc_MaxSendBytes = or_zero 0 DefaultMaxMessageBytes (gc_MaxSendBytes c),
       gc_ShutdownTimeout = or_zero 0 DefaultShutdownTimeout (gc_ShutdownTimeout c)\<rparr>)"

section \<open>The handler\<close>

text \<open>
  \<open>answers\<close> are those of the two deadlines, each with whether it is \<open>http.ErrNotSupported\<close>; \<open>None\<close> is that the
  gRPC server serves the request, otherwise the calls of \<open>http.Error\<close> are made.
\<close>

fun grpc_serveHTTP :: "(bool \<times> goerr) option list \<Rightarrow> writer_call list option" where
  "grpc_serveHTTP [] = None"
| "grpc_serveHTTP (Some (False, err) # answers) = Some [SetHeader ''Content-Type'' ''text/plain; charset=utf-8'',
     SetHeader ''X-Content-Type-Options'' ''nosniff'', CallWriteHeader 500, CallWrite (''gRPC stream unavailable'' @ [CHR 0x0A])]"
| "grpc_serveHTTP (_ # answers) = grpc_serveHTTP answers"

text \<open>\<open>http.Error\<close> first drops the length of the content; \<open>server\<close> is \<open>grpc.Server.ServeHTTP\<close>.\<close>

definition grpc_handler :: "(string \<Rightarrow> nat \<times> goerr option) \<Rightarrow> (bool \<times> goerr) option list \<Rightarrow> raw_handler \<Rightarrow> raw_handler" where
  "grpc_handler uw answers server c = (case grpc_serveHTTP answers of
     None \<Rightarrow> server c
   | Some calls \<Rightarrow> run_calls uw calls (edit_header (header_del ''Content-Length'') c))"

text \<open>What \<open>Register\<close> of the module \<open>m\<close> does: the handler is mounted, and the task \<open>shutdown\<close> is added.\<close>

definition grpc_Module :: "grpc_config \<Rightarrow> raw_handler \<Rightarrow> nat \<Rightarrow> module" where
  "grpc_Module m h shutdown = \<lparr>md_name = gc_Name m,
     md_calls = [RHandleHTTP (gc_Pattern m) (Some h) [], RGo ''shutdown'' (Some shutdown) []], md_err = None\<rparr>"

section \<open>Shutdown\<close>

datatype grpc_task = WaitContext | SelectStop | WaitStopped | TaskReturned

datatype grpc_stopper = NotStopping | GracefulRuns | GracefulDone

record grpc_shutdown =
  gs_task :: grpc_task
  gs_stopper :: grpc_stopper
  gs_contextDone :: bool
  gs_timer :: bool
  gs_stopped :: bool

definition grpc_running :: grpc_shutdown where
  "grpc_running = \<lparr>gs_task = WaitContext, gs_stopper = NotStopping, gs_contextDone = False, gs_timer = False, gs_stopped = False\<rparr>"

text \<open>The steps of the task and of its goroutine; \<open>GracefulStop\<close> may return at any time.\<close>

inductive grpc_step :: "grpc_shutdown \<Rightarrow> grpc_shutdown \<Rightarrow> bool" where
  context_done: "\<not> gs_contextDone g \<Longrightarrow> grpc_step g (g\<lparr>gs_contextDone := True\<rparr>)"
| start_stop: "gs_task g = WaitContext \<Longrightarrow> gs_contextDone g \<Longrightarrow> grpc_step g (g\<lparr>gs_task := SelectStop, gs_stopper := GracefulRuns\<rparr>)"
| graceful_returns: "gs_stopper g = GracefulRuns \<Longrightarrow> grpc_step g (g\<lparr>gs_stopper := GracefulDone\<rparr>)"
| timer_fires: "gs_task g = SelectStop \<Longrightarrow> \<not> gs_timer g \<Longrightarrow> grpc_step g (g\<lparr>gs_timer := True\<rparr>)"
| select_stopped: "gs_task g = SelectStop \<Longrightarrow> gs_stopper g = GracefulDone \<Longrightarrow> grpc_step g (g\<lparr>gs_task := TaskReturned\<rparr>)"
| select_timer: "gs_task g = SelectStop \<Longrightarrow> gs_timer g \<Longrightarrow> grpc_step g (g\<lparr>gs_task := WaitStopped, gs_stopped := True\<rparr>)"
| stop_returned: "gs_task g = WaitStopped \<Longrightarrow> gs_stopper g = GracefulDone \<Longrightarrow> grpc_step g (g\<lparr>gs_task := TaskReturned\<rparr>)"

inductive_cases grpc_stepE: "grpc_step g h"

definition grpc_inv :: "grpc_shutdown \<Rightarrow> bool" where
  "grpc_inv g \<longleftrightarrow> (gs_task g = WaitContext \<longleftrightarrow> gs_stopper g = NotStopping) \<and>
     (gs_task g \<noteq> WaitContext \<longrightarrow> gs_contextDone g) \<and> (gs_task g = TaskReturned \<longrightarrow> gs_stopper g = GracefulDone) \<and>
     (gs_stopped g \<longrightarrow> gs_timer g) \<and> (gs_task g = WaitStopped \<longrightarrow> gs_stopped g)"

lemma grpc_inv_step: "grpc_inv g \<Longrightarrow> grpc_step g h \<Longrightarrow> grpc_inv h"
  by (erule grpc_stepE) (auto simp: grpc_inv_def)

text \<open>What is left: of the task, of its goroutine, and the two events.\<close>

definition grpc_left :: "grpc_shutdown \<Rightarrow> nat" where
  "grpc_left g = (case gs_task g of WaitContext \<Rightarrow> 3 | SelectStop \<Rightarrow> 2 | WaitStopped \<Rightarrow> 1 | TaskReturned \<Rightarrow> 0) +
     (case gs_stopper g of NotStopping \<Rightarrow> 1 | GracefulRuns \<Rightarrow> 1 | GracefulDone \<Rightarrow> 0) +
     (if gs_contextDone g then 0 else 1) + (if gs_timer g then 0 else 1)"

lemma grpc_left_step: "grpc_step g h \<Longrightarrow> grpc_inv g \<Longrightarrow> grpc_left h < grpc_left g"
  by (erule grpc_stepE) (auto simp: grpc_left_def grpc_inv_def split: grpc_task.split)

lemma grpc_progress: "grpc_inv g \<Longrightarrow> gs_task g \<noteq> TaskReturned \<Longrightarrow> \<exists>h. grpc_step g h"
  by (cases "gs_task g"; cases "gs_stopper g"; cases "gs_timer g"; cases "gs_contextDone g")
    (auto intro: grpc_step.intros simp: grpc_inv_def)

lemma grpc_inv_reachable: "grpc_step\<^sup>*\<^sup>* grpc_running g \<Longrightarrow> grpc_inv g"
  by (induction rule: rtranclp_induct) (auto simp: grpc_running_def grpc_inv_def [of "\<lparr>gs_task = _, gs_stopper = _, gs_contextDone = _, gs_timer = _, gs_stopped = _\<rparr>"] intro: grpc_inv_step)

section \<open>Properties\<close>

text \<open>
  The task of a gRPC module stops its server: it does nothing before its context is done, it returns only after
  \<open>GracefulStop\<close> has, \<open>Stop\<close> is called only after the timeout, and from every reachable state the task returns within six
  steps, whatever their order.
\<close>

theorem grpc_shutdown_safe:
  assumes "grpc_step\<^sup>*\<^sup>* grpc_running g"
  shows "(gs_stopper g \<noteq> NotStopping \<longrightarrow> gs_contextDone g) \<and> (gs_task g = TaskReturned \<longrightarrow> gs_stopper g = GracefulDone) \<and>
    (gs_stopped g \<longrightarrow> gs_timer g) \<and> (gs_task g = TaskReturned \<or> (\<exists>h. grpc_step g h)) \<and>
    ((grpc_step ^^ n) g h \<longrightarrow> n \<le> 6)"
proof -
  have inv: "grpc_inv g" by (rule grpc_inv_reachable [OF assms])
  have "grpc_inv h \<and> grpc_left h + n \<le> grpc_left g" if "(grpc_step ^^ n) g h" for h n
    using that
  proof (induction n arbitrary: h)
    case (Suc n)
    then obtain k where k: "(grpc_step ^^ n) g k" "grpc_step k h" by auto
    from Suc.IH [OF k(1)] grpc_inv_step [OF _ k(2)] grpc_left_step [OF k(2)] show ?case by auto
  qed (use inv in simp)
  moreover have "grpc_left g \<le> 6"
    by (auto simp: grpc_left_def split: grpc_task.split grpc_stopper.split)
  ultimately have "(grpc_step ^^ n) g h \<longrightarrow> n \<le> 6" by fastforce
  with inv grpc_progress [OF inv] show ?thesis by (auto simp: grpc_inv_def)
qed

text \<open>Every accepted configuration bounds the messages and the shutdown, and has a name and a pattern.\<close>

theorem grpc_bounded:
  assumes "grpc_New c = Inr d"
  shows "gc_MaxReceiveBytes d > 0 \<and> gc_MaxSendBytes d > 0 \<and> gc_ShutdownTimeout d > 0 \<and> gc_Name d \<noteq> [] \<and> gc_Pattern d \<noteq> []"
  using assms by (auto simp: grpc_New_def or_zero_def DefaultMaxMessageBytes_def DefaultShutdownTimeout_def push_bit_eq_mult split: if_splits)

theorem grpc_shutdown_safe_witness: "gs_task (grpc_running\<lparr>gs_contextDone := True\<rparr>) = TaskReturned \<or> (\<exists>h. grpc_step (grpc_running\<lparr>gs_contextDone := True\<rparr>) h)"
proof -
  have "grpc_step grpc_running (grpc_running\<lparr>gs_contextDone := True\<rparr>)" by (rule grpc_step.context_done) (simp add: grpc_running_def)
  from grpc_shutdown_safe [OF r_into_rtranclp, OF this] show ?thesis by blast
qed

theorem grpc_bounded_witness:
  "\<exists>d. grpc_New \<lparr>gc_Name = [], gc_Pattern = [], gc_MaxReceiveBytes = 0, gc_MaxSendBytes = 5, gc_ShutdownTimeout = 0\<rparr> = Inr d \<and> gc_MaxReceiveBytes d > 0"
  using grpc_bounded [of "\<lparr>gc_Name = [], gc_Pattern = [], gc_MaxReceiveBytes = 0, gc_MaxSendBytes = 5, gc_ShutdownTimeout = 0\<rparr>"]
  by (auto simp: grpc_New_def)

end
