(* ===== verification/Render.thy ===== *)
theory Render
  imports Serve
begin

text \<open>
  HTML rendering, \<open>render/render.go\<close>, and the redirects of \<open>context.go\<close>, on the context of \<open>Context\<close>. The
  template set of \<open>html/template\<close> and \<open>http.Redirect\<close> are answers.
\<close>

definition render_New :: "'t option \<Rightarrow> 't outcome" where
  "render_New templates = (case templates of None \<Rightarrow> Panic ''vial/render: templates cannot be nil'' | Some t \<Rightarrow> Return t)"

text \<open>\<open>rendered\<close> is what \<open>ExecuteTemplate\<close> leaves in the buffer, or its error.\<close>

definition render_HTML :: "(string \<Rightarrow> nat \<times> goerr option) \<Rightarrow> int \<Rightarrow> string \<Rightarrow> string result \<Rightarrow> handler" where
  "render_HTML uw status name rendered c =
    (if Committed (cx_response c) then (c, Return (Some (Opaque ''vial/render: response already committed'')))
     else case rendered of
       Inl err \<Rightarrow> (c, Return (Some (Wrapf (''render template '' @ name @ '': '') err)))
     | Inr body \<Rightarrow>
         let c = (if header_get (rs_header (cx_response c)) ''Content-Type'' = [] then
                edit_header (header_set ''Content-Type'' ''text/html; charset=utf-8'') c else c)
         in (case on_response (WriteHeader status) c of
               (c, Panic msg) \<Rightarrow> (c, Panic msg)
             | (c, Return u) \<Rightarrow> (case on_response (response_Write uw body) c of
                   (c, Panic msg) \<Rightarrow> (c, Panic msg)
                 | (c, Return (n, err)) \<Rightarrow> (c, Return (map_option (Wrapf (''write template '' @ name @ '': '')) err)))))"

text \<open>\<open>calls\<close> are those \<open>http.Redirect\<close> makes on the writer.\<close>

definition ctx_Redirect :: "(string \<Rightarrow> nat \<times> goerr option) \<Rightarrow> writer_call list \<Rightarrow> handler" where
  "ctx_Redirect uw calls c =
    (if Committed (cx_response c) then (c, Return (Some already_committed))
     else case run_calls uw calls c of (c, Panic msg) \<Rightarrow> (c, Panic msg) | (c, Return u) \<Rightarrow> (c, Return None))"

section \<open>Frames\<close>

lemma render_HTML_framed [frame_intros]:
  assumes "100 \<le> status" "status \<le> 999"
  shows "framed ok (render_HTML uw status name rendered)"
  unfolding framed_def
proof
  fix c
  let ?c = "if header_get (rs_header (cx_response c)) ''Content-Type'' = [] then
    edit_header (header_set ''Content-Type'' ''text/html; charset=utf-8'') c else c"
  obtain d x where d: "on_response (WriteHeader status) ?c = (d, x)" by fastforce
  have "ctx_step ok c ?c" by (simp add: ctx_step_edit)
  also have "ctx_step ok ?c d" by (rule on_response_step [OF d]) (rule WriteHeader_step [OF assms])
  finally have cd: "ctx_step ok c d" .
  show "ctx_step ok c (fst (render_HTML uw status name rendered c))"
  proof (cases rendered)
    case (Inr body)
    obtain e y where e: "on_response (response_Write uw body) d = (e, y)" by fastforce
    have "ctx_step ok d e" by (rule on_response_step [OF e]) (rule Write_step)
    with cd have "ctx_step ok c e" by (rule ctx_step_trans)
    with cd d e Inr show ?thesis
      by (cases x; cases y) (auto simp: render_HTML_def Let_def split: prod.split)
  qed (simp add: render_HTML_def)
qed

lemma ctx_Redirect_framed [frame_intros]:
  assumes "\<forall>s. CallWriteHeader s \<in> set calls \<longrightarrow> 100 \<le> s \<and> s \<le> 999"
  shows "framed ok (ctx_Redirect uw calls)"
  unfolding framed_def
proof
  fix c
  obtain d x where d: "run_calls uw calls c = (d, x)" by fastforce
  with run_calls_step [OF assms, where ok = ok and uw = uw and c = c] show "ctx_step ok c (fst (ctx_Redirect uw calls c))"
    by (cases x) (auto simp: ctx_Redirect_def)
qed

section \<open>Properties\<close>

text \<open>
  A page is sent whole or not at all. When the template fails, the response is as it was, so that the error can still be
  answered; otherwise one header with the status goes out, as the commit hooks left it, with HTML as its content type unless one was
  set, and then exactly the rendered bytes.
\<close>

theorem render_whole:
  assumes "\<not> Committed (cx_response c)" "\<not> rs_committing (cx_response c)" "200 \<le> status" "status \<le> 999"
    and "\<And>d. uw d = (length d, None)"
  shows "case rendered of
      Inl err \<Rightarrow> render_HTML uw status name rendered c = (c, Return (Some (Wrapf (''render template '' @ name @ '': '') err)))
    | Inr body \<Rightarrow> (let h = rs_header (cx_response c);
          h' = (if header_get h ''Content-Type'' = [] then header_set ''Content-Type'' ''text/html; charset=utf-8'' h else h)
        in case run_hooks (rs_hooks (cx_response c)) h' of
          (_, Some msg) \<Rightarrow> snd (render_HTML uw status name rendered c) = Panic msg \<and>
            rs_wire (cx_response (fst (render_HTML uw status name rendered c))) = rs_wire (cx_response c)
        | (sent, None) \<Rightarrow> snd (render_HTML uw status name rendered c) = Return None \<and>
            rs_wire (cx_response (fst (render_HTML uw status name rendered c))) = rs_wire (cx_response c) @ [Head status sent, Body body])"
proof (cases rendered)
  case (Inl err)
  with assms(1) show ?thesis by (simp add: render_HTML_def)
next
  case (Inr body)
  let ?h = "rs_header (cx_response c)"
  let ?h' = "if header_get ?h ''Content-Type'' = [] then header_set ''Content-Type'' ''text/html; charset=utf-8'' ?h else ?h"
  obtain sent p where r: "run_hooks (rs_hooks (cx_response c)) ?h' = (sent, p)" by fastforce
  show ?thesis
    using assms Inr r
    by (cases p) (auto simp: render_HTML_def Let_def edit_header_def on_response_def WriteHeader_def runBeforeCommitHooks_def
        underlying_WriteHeader_def response_Write_def ensure_header_def Committed_def split: if_splits)
qed

theorem render_whole_witness:
  "rs_wire (cx_response (fst (render_HTML (\<lambda>d. (length d, None)) 200 ''t'' (Inr ''<p>'') demo_request_ctx))) =
     [Head 200 (header_set ''Content-Type'' ''text/html; charset=utf-8'' empty_header), Body ''<p>'']"
  using render_whole [where c = demo_request_ctx and status = 200 and uw = "\<lambda>d. (length d, None)" and rendered = "Inr ''<p>''" and name = "''t''"]
  by (simp add: demo_request_ctx_def newContext_def newResponse_def Committed_def Let_def empty_header_def header_get_def)

end
