(* ===== verification/PostgresWorkers.thy ===== *)
theory PostgresWorkers
  imports PostgresStore
begin

text \<open>
  The goroutines of the PostgreSQL executor, \<open>worker\<close>, \<open>Start\<close> and \<open>Shutdown\<close> of \<open>contrib/asyncpostgres/executor.go\<close>, as a
  step relation: the workers, the goroutine that waits for them, the one that watches the context of \<open>Start\<close>, and the callers of
  \<open>Shutdown\<close>. What a worker does to the table is in \<open>PostgresStore\<close>; a statement, a handler and a timer is taken to end.
\<close>

section \<open>Workers\<close>

text \<open>The places of the loop of \<open>worker\<close>: its condition, \<open>lease\<close>, \<open>waitForPoll\<close>, \<open>run\<close>, and its end.\<close>

datatype worker_phase = Checking | Leasing | Polling | Delivering | WorkerExited

text \<open>The goroutine of \<open>Start\<close> that waits for them cancels the work, closes \<open>workersDone\<close> and signals \<open>Done\<close>.\<close>

datatype waiter_phase = AwaitWorkers | CloseWorkersDone | SignalDone | WaiterEnded

record pg_pool =
  pool_exec :: pgExecutor
  pool_workers :: "worker_phase list"
  pool_waiter :: waiter_phase
  pool_workersDone :: bool

text \<open>\<open>Start\<close> adds the workers once the executor runs.\<close>

definition pool_started :: "goerr option \<Rightarrow> pgExecutor \<Rightarrow> pg_pool \<times> goerr option" where
  "pool_started answer e = (case pg_Start answer e of (e', err) \<Rightarrow>
     (\<lparr>pool_exec = e', pool_workers = (if err = None then replicate (nat (pg_workers (pg_cfg e))) Checking else []),
        pool_waiter = AwaitWorkers, pool_workersDone = False\<rparr>, err))"

text \<open>The answer of \<open>lease\<close> in the loop: a delivery, no row, or an error, which is logged.\<close>

datatype lease_answer = LeaseDelivery | LeaseNoRows | LeaseError goerr

definition after_lease :: "lease_answer \<Rightarrow> worker_phase" where
  "after_lease a = (case a of LeaseDelivery \<Rightarrow> Delivering | LeaseNoRows \<Rightarrow> Polling | LeaseError err \<Rightarrow> Polling)"

inductive pool_step :: "pg_pool \<Rightarrow> pg_pool \<Rightarrow> bool" where
  loop: "i < length (pool_workers s) \<Longrightarrow> pool_workers s ! i = Checking \<Longrightarrow>
    pool_step s (s\<lparr>pool_workers := (pool_workers s)[i := if accepting (pool_exec s) then Leasing else WorkerExited]\<rparr>)"
| lease: "i < length (pool_workers s) \<Longrightarrow> pool_workers s ! i = Leasing \<Longrightarrow>
    pool_step s (s\<lparr>pool_workers := (pool_workers s)[i := after_lease a]\<rparr>)"
| poll: "i < length (pool_workers s) \<Longrightarrow> pool_workers s ! i = Polling \<Longrightarrow>
    pool_step s (s\<lparr>pool_workers := (pool_workers s)[i := Checking]\<rparr>)"
| run_delivery: "i < length (pool_workers s) \<Longrightarrow> pool_workers s ! i = Delivering \<Longrightarrow>
    pool_step s (s\<lparr>pool_workers := (pool_workers s)[i := Checking]\<rparr>)"
| workers_exited: "pool_waiter s = AwaitWorkers \<Longrightarrow> set (pool_workers s) \<subseteq> {WorkerExited} \<Longrightarrow>
    pool_step s (s\<lparr>pool_exec := (pool_exec s)\<lparr>workCancelledPg := True\<rparr>, pool_waiter := CloseWorkersDone\<rparr>)"
| close_done: "pool_waiter s = CloseWorkersDone \<Longrightarrow> pool_step s (s\<lparr>pool_waiter := SignalDone, pool_workersDone := True\<rparr>)"
| signal_done: "pool_waiter s = SignalDone \<Longrightarrow> pool_step s (s\<lparr>pool_exec := pg_signalDone (pool_exec s), pool_waiter := WaiterEnded\<rparr>)"

text \<open>The context of \<open>Start\<close> ends, and the three parts of \<open>Shutdown\<close>.\<close>

inductive pool_env :: "pg_pool \<Rightarrow> pg_pool \<Rightarrow> bool" where
  start_context: "\<not> pool_workersDone s \<Longrightarrow> pool_env s (s\<lparr>pool_exec := pg_stopAccepting (pool_exec s)\<rparr>)"
| shutdown_begin: "pool_env s (s\<lparr>pool_exec := fst (pg_Shutdown_begin (pool_exec s))\<rparr>)"
| shutdown_drained: "pool_workersDone s \<Longrightarrow> pool_env s (s\<lparr>pool_exec := setStopped (pool_exec s)\<rparr>)"
| shutdown_expired: "\<not> accepting (pool_exec s) \<Longrightarrow> pg_state (pool_exec s) \<noteq> ExecCreated \<Longrightarrow>
    pool_env s (s\<lparr>pool_exec := fst (pg_Shutdown_expired ans now err (pool_exec s) t)\<rparr>)"

inductive_cases pool_stepE: "pool_step s t"
inductive_cases pool_envE: "pool_env s t"

inductive pool_reachable :: "pg_pool \<Rightarrow> bool" where
  start: "pg_state e = ExecCreated \<Longrightarrow> pg_doneSignals e = 0 \<Longrightarrow> pg_workers (pg_cfg e) > 0 \<Longrightarrow>
    pool_started answer e = (s, None) \<Longrightarrow> pool_reachable s"
| step: "pool_reachable s \<Longrightarrow> pool_step s t \<Longrightarrow> pool_reachable t"
| env: "pool_reachable s \<Longrightarrow> pool_env s t \<Longrightarrow> pool_reachable t"

section \<open>What holds in every reachable state\<close>

definition pool_inv :: "pg_pool \<Rightarrow> bool" where
  "pool_inv s \<longleftrightarrow> pg_state (pool_exec s) \<noteq> ExecCreated \<and> pool_workers s \<noteq> [] \<and> pg_doneSignals (pool_exec s) \<le> 1 \<and>
     (WorkerExited \<in> set (pool_workers s) \<longrightarrow> \<not> accepting (pool_exec s)) \<and>
     (pool_waiter s \<noteq> AwaitWorkers \<longrightarrow> set (pool_workers s) = {WorkerExited}) \<and>
     (pool_workersDone s \<longleftrightarrow> pool_waiter s \<in> {SignalDone, WaiterEnded}) \<and>
     (pool_waiter s = WaiterEnded \<longrightarrow> pg_doneSignals (pool_exec s) = 1) \<and>
     (pg_doneSignals (pool_exec s) = 1 \<longrightarrow> pool_workersDone s \<or> pg_state (pool_exec s) = ExecStopped)"

lemmas pool_exec_defs = pg_stopAccepting_def pg_Shutdown_begin_def setStopped_def pg_signalDone_def cancelActive_def accepting_def

lemma set_worker:
  "i < length ws \<Longrightarrow> ws ! i \<noteq> WorkerExited \<Longrightarrow> w \<noteq> WorkerExited \<Longrightarrow> WorkerExited \<in> set (ws[i := w]) \<longleftrightarrow> WorkerExited \<in> set ws"
  by (metis in_set_conv_nth length_list_update nth_list_update_eq nth_list_update_neq)

lemma set_worker_exited: "i < length ws \<Longrightarrow> ws ! i \<noteq> WorkerExited \<Longrightarrow> set ws \<noteq> {WorkerExited}"
  by (metis nth_mem singletonD)

lemma pool_inv_step:
  assumes "pool_inv s" "pool_step s t"
  shows "pool_inv t"
  using assms(2,1)
proof (cases rule: pool_step.cases)
  case (loop i)
  with assms(1) set_worker_exited [of i "pool_workers s"] show ?thesis
    by (auto simp: pool_inv_def set_worker)
next
  case (lease i a)
  then have "after_lease a \<noteq> WorkerExited" by (simp add: after_lease_def split: lease_answer.split)
  with lease assms(1) set_worker_exited [of i "pool_workers s"] show ?thesis
    by (auto simp: pool_inv_def set_worker)
next
  case (poll i)
  with assms(1) set_worker_exited [of i "pool_workers s"] show ?thesis by (auto simp: pool_inv_def set_worker)
next
  case (run_delivery i)
  with assms(1) set_worker_exited [of i "pool_workers s"] show ?thesis by (auto simp: pool_inv_def set_worker)
next
  case workers_exited
  then have "pool_workers s \<noteq> [] \<Longrightarrow> set (pool_workers s) = {WorkerExited}" by (cases "pool_workers s") auto
  with workers_exited assms(1) show ?thesis by (auto simp: pool_inv_def accepting_def)
qed (use assms(1) in \<open>auto simp: pool_inv_def pg_signalDone_def accepting_def\<close>)

lemma Shutdown_expired_exec:
  "fst (pg_Shutdown_expired ans now err e t) = pg_signalDone (setStopped ((cancelActive e)\<lparr>workCancelledPg := True\<rparr>))"
  by (simp add: pg_Shutdown_expired_def Let_def split: prod.split)

lemma pool_inv_env:
  assumes "pool_inv s" "pool_env s t"
  shows "pool_inv t"
  using assms(2)
proof (cases rule: pool_env.cases)
  case (shutdown_expired ans now err u)
  with assms(1) show ?thesis
    by (auto simp: pool_inv_def Shutdown_expired_exec pg_signalDone_def setStopped_def cancelActive_def accepting_def)
qed (use assms(1) in \<open>auto simp: pool_inv_def pg_stopAccepting_def pg_Shutdown_begin_def setStopped_def accepting_def\<close>)

lemma pool_reachable_inv: "pool_reachable s \<Longrightarrow> pool_inv s"
proof (induction rule: pool_reachable.induct)
  case (start e answer s)
  then show ?case
    by (auto simp: pool_started_def pg_Start_def pool_inv_def accepting_def split: option.splits)
next
  case (step s t)
  then show ?case by (blast intro: pool_inv_step)
next
  case (env s t)
  then show ?case by (blast intro: pool_inv_env)
qed

section \<open>Draining\<close>

text \<open>The steps a worker, and the goroutine that waits for them, has left once the executor does not accept.\<close>

definition worker_left :: "worker_phase \<Rightarrow> nat" where
  "worker_left w = (case w of Checking \<Rightarrow> 1 | Leasing \<Rightarrow> 3 | Polling \<Rightarrow> 2 | Delivering \<Rightarrow> 2 | WorkerExited \<Rightarrow> 0)"

definition pool_left :: "pg_pool \<Rightarrow> nat" where
  "pool_left s = sum_list (map worker_left (pool_workers s)) +
     (case pool_waiter s of AwaitWorkers \<Rightarrow> 3 | CloseWorkersDone \<Rightarrow> 2 | SignalDone \<Rightarrow> 1 | WaiterEnded \<Rightarrow> 0)"

lemma sum_list_decreases:
  fixes f :: "'a \<Rightarrow> nat"
  shows "i < length xs \<Longrightarrow> f x < f (xs ! i) \<Longrightarrow> sum_list (map f (xs[i := x])) < sum_list (map f xs)"
proof (induction xs arbitrary: i)
  case (Cons y ys)
  then show ?case by (cases i) (auto intro: add_less_mono)
qed simp

lemma worker_exists:
  assumes "\<not> set ws \<subseteq> {WorkerExited}"
  obtains i where "i < length ws" "ws ! i \<noteq> WorkerExited"
  using assms by (metis in_set_conv_nth insertI1 subsetI)

lemma pool_left_bound: "pool_left s \<le> 3 * length (pool_workers s) + 3"
proof -
  have "sum_list (map worker_left ws) \<le> 3 * length ws" for ws
    by (induction ws) (auto simp: worker_left_def split: worker_phase.split)
  from this [of "pool_workers s"] show ?thesis by (simp add: pool_left_def split: waiter_phase.split)
qed

section \<open>An example\<close>

text \<open>An executor with one worker, started and then asked to stop.\<close>

definition one_worker :: pgExecutor where
  "one_worker = \<lparr>pg_cfg = default_pg_config\<lparr>pg_workers := 1\<rparr>, instanceID = ''i'', pg_state = ExecCreated, pg_handlers = [],
     handledNames = [], active = [], contextsCancelled = [], workCancelledPg = False, pg_doneSignals = 0\<rparr>"

definition one_pool :: pg_pool where
  "one_pool = \<lparr>pool_exec = one_worker\<lparr>pg_state := ExecRunning\<rparr>, pool_workers = [Checking], pool_waiter = AwaitWorkers, pool_workersDone = False\<rparr>"

definition one_stopping :: pg_pool where
  "one_stopping = one_pool\<lparr>pool_exec := one_worker\<lparr>pg_state := ExecStopping\<rparr>\<rparr>"

lemma one_stopping_reachable: "pool_reachable one_stopping"
proof -
  have "pool_started None one_worker = (one_pool, None)"
    by (simp add: pool_started_def pg_Start_def pg_schema_def one_worker_def one_pool_def sorted_list_of_set_def)
  then have "pool_reachable one_pool"
    by (rule pool_reachable.start [rotated 3]) (simp_all add: one_worker_def)
  moreover have "pool_env one_pool one_stopping"
    using pool_env.shutdown_begin [of one_pool]
    by (simp add: one_stopping_def one_pool_def pg_Shutdown_begin_def pg_stopAccepting_def)
  ultimately show ?thesis by (rule pool_reachable.env)
qed

section \<open>Properties\<close>

text \<open>
  The channels of the executor are used once: \<open>Done\<close> gets at most one value, so that its buffer never blocks, and one by the end of
  the goroutine that waits for the workers; \<open>workersDone\<close> is closed only while it is open, and only when every worker has left its
  loop; and none leaves it while the executor accepts operations.
\<close>

theorem pg_pool_safe:
  assumes "pool_reachable s"
  shows "pg_doneSignals (pool_exec s) \<le> 1 \<and>
    (pool_waiter s = WaiterEnded \<longrightarrow> pg_doneSignals (pool_exec s) = 1) \<and>
    (pool_waiter s = CloseWorkersDone \<longrightarrow> \<not> pool_workersDone s) \<and>
    (pool_workersDone s \<longrightarrow> set (pool_workers s) = {WorkerExited}) \<and>
    (WorkerExited \<in> set (pool_workers s) \<longrightarrow> \<not> accepting (pool_exec s)) \<and>
    (pg_doneSignals (pool_exec s) = 1 \<longrightarrow> pool_workersDone s \<or> pg_state (pool_exec s) = ExecStopped)"
  using pool_reachable_inv [OF assms] by (auto simp: pool_inv_def)

theorem pg_pool_safe_witness:
  "pool_reachable one_stopping \<and> pg_doneSignals (pool_exec one_stopping) \<le> 1"
  using pg_pool_safe [OF one_stopping_reachable] one_stopping_reachable by simp

text \<open>
  C31. The executor drains. Once it does not accept operations, it never does again; every step of its goroutines
  brings them nearer to the end, from at most three for each worker and three; no caller adds to them; and until the executor is
  reported done, one of them can make a step.
\<close>

theorem pg_pool_drains:
  assumes "pool_reachable s" "\<not> accepting (pool_exec s)"
  shows "(pool_step s t \<longrightarrow> pool_left t < pool_left s \<and> \<not> accepting (pool_exec t)) \<and>
    (pool_env s t \<longrightarrow> pool_left t = pool_left s \<and> \<not> accepting (pool_exec t)) \<and>
    (pool_waiter s \<noteq> WaiterEnded \<longrightarrow> (\<exists>u. pool_step s u)) \<and> pool_left s \<le> 3 * length (pool_workers s) + 3"
proof (intro conjI impI)
  assume step: "pool_step s t"
  show "pool_left t < pool_left s"
    using step
  proof (cases rule: pool_step.cases)
    case (loop i)
    with assms(2) show ?thesis by (simp add: pool_left_def sum_list_decreases worker_left_def)
  next
    case (lease i a)
    have "worker_left (after_lease a) < 3" by (simp add: after_lease_def worker_left_def split: lease_answer.split)
    with lease show ?thesis by (simp add: pool_left_def sum_list_decreases worker_left_def [of Leasing])
  next
    case (poll i)
    then show ?thesis by (simp add: pool_left_def sum_list_decreases worker_left_def)
  next
    case (run_delivery i)
    then show ?thesis by (simp add: pool_left_def sum_list_decreases worker_left_def)
  qed (simp_all add: pool_left_def)
  show "\<not> accepting (pool_exec t)"
    using step assms(2) by (cases rule: pool_step.cases) (auto simp: accepting_def pg_signalDone_def)
next
  assume env: "pool_env s t"
  then show "pool_left t = pool_left s" by (cases rule: pool_env.cases) (simp_all add: pool_left_def)
  show "\<not> accepting (pool_exec t)"
    using env assms(2) by (cases rule: pool_env.cases) (auto simp: pool_exec_defs Shutdown_expired_exec)
next
  assume "pool_waiter s \<noteq> WaiterEnded"
  show "\<exists>u. pool_step s u"
  proof (cases "set (pool_workers s) \<subseteq> {WorkerExited}")
    case True
    with \<open>pool_waiter s \<noteq> WaiterEnded\<close> show ?thesis
      by (cases "pool_waiter s") (blast intro: pool_step.intros)+
  next
    case False
    then obtain i where i: "i < length (pool_workers s)" "pool_workers s ! i \<noteq> WorkerExited" by (rule worker_exists)
    then show ?thesis by (cases "pool_workers s ! i") (blast intro: pool_step.intros)+
  qed
qed (rule pool_left_bound)

theorem pg_pool_drains_witness:
  "pool_left one_stopping = 4 \<and> (\<exists>u. pool_step one_stopping u)"
proof -
  have "\<not> accepting (pool_exec one_stopping)" by (simp add: one_stopping_def one_pool_def accepting_def)
  from pg_pool_drains [OF one_stopping_reachable this] show ?thesis
    by (simp add: pool_left_def worker_left_def one_stopping_def one_pool_def)
qed

end
