(* ===== verification/SessionMiddleware.thy ===== *)
theory SessionMiddleware
  imports Session Context
begin

text \<open>
  The session middleware, \<open>Middleware\<close> of \<open>session/session.go\<close>, over the response writer of \<open>Response\<close>. The session is one object
  that the handlers change and that the before-commit hook reads when it runs; the hook is a closure, so the list of hooks holds it with the
  session it sees, at a fixed place, and each change of the session shows there.
\<close>

section \<open>The middleware\<close>

definition cookie_hook :: "session \<Rightarrow> commit_hook" where
  "cookie_hook s h = Return (beforeCommit s h)"

text \<open>What the middleware does before the next handler: the session and the place of its hook, or the error it returns.\<close>

definition session_install ::
  "'k session_lib \<Rightarrow> 'k manager \<Rightarrow> int \<Rightarrow> string result \<Rightarrow> string result \<Rightarrow> response \<Rightarrow> (nat \<times> response \<times> session) result" where
  "session_install L mg now nonce cookie r = (case load L mg now nonce cookie of
     Inl err \<Rightarrow> Inl err
   | Inr s \<Rightarrow> (case beforeCommitHook (cookie_hook s) r of (r', ok) \<Rightarrow>
       if ok then Inr (length (rs_hooks r), r', s) else Inl (Wrapf ''session: register cookie: '' already_committed)))"

text \<open>The calls a handler makes on its session, at a time and with what the random source gives, and on the response.\<close>

datatype session_op = SetOp string string | DeleteOp string | AddFlashOp string | FlashesOp | DestroyOp

datatype request_event = OnSession int "string result" session_op | OnResponse response_op

definition exec_session_op ::
  "'k session_lib \<Rightarrow> 'k manager \<Rightarrow> int \<Rightarrow> string result \<Rightarrow> bool \<Rightarrow> session_op \<Rightarrow> session option \<Rightarrow> session option" where
  "exec_session_op L mg now nonce committed x s = (case x of
     SetOp key v \<Rightarrow> fst (session_Set L mg now nonce committed committed key v s)
   | DeleteOp key \<Rightarrow> fst (session_Delete L mg now nonce committed committed key s)
   | AddFlashOp v \<Rightarrow> fst (session_AddFlash L mg now nonce committed committed v s)
   | FlashesOp \<Rightarrow> fst (session_Flashes L mg now nonce committed committed s)
   | DestroyOp \<Rightarrow> fst (session_Destroy L mg committed committed s))"

fun request_event_step :: "'k session_lib \<Rightarrow> 'k manager \<Rightarrow> nat \<Rightarrow> request_event \<Rightarrow> response \<times> session \<Rightarrow> response \<times> session" where
  "request_event_step L mg i (OnSession now nonce x) (r, s) =
     (case exec_session_op L mg now nonce (Committed r) x (Some s) of
        None \<Rightarrow> (r, s)
      | Some s' \<Rightarrow> (r\<lparr>rs_hooks := (rs_hooks r)[i := cookie_hook s']\<rparr>, s'))"
| "request_event_step L mg i (OnResponse x) (r, s) = (fst (exec_op x r), s)"

definition request_events :: "'k session_lib \<Rightarrow> 'k manager \<Rightarrow> nat \<Rightarrow> request_event list \<Rightarrow> response \<times> session \<Rightarrow> response \<times> session" where
  "request_events L mg i es rs = fold (request_event_step L mg i) es rs"

section \<open>The pending cookie\<close>

definition event_inputs :: "request_event list \<Rightarrow> (int \<times> string result) set" where
  "event_inputs es = {(now, nonce). \<exists>x. OnSession now nonce x \<in> set es}"

text \<open>The cookie of a changed session expires it, when nothing is left to keep, or carries its data.\<close>

definition pending_ok :: "'k session_lib \<Rightarrow> 'k manager \<Rightarrow> (int \<times> string result) set \<Rightarrow> session \<Rightarrow> bool" where
  "pending_ok L mg ts s \<longleftrightarrow>
     ses_pending s = renderCookie L (expiredCookie mg) \<and>
       (Values (ses_data s) = [] \<and> FlashValues (ses_data s) = [] \<or>
        (\<exists>(now, nonce) \<in> ts. IssuedAt (ses_data s) + max_age_seconds mg \<le> now)) \<or>
     (\<exists>now nonce value remaining expires. (now, Inr nonce) \<in> ts \<and> seal L mg (Inr nonce) (ses_data s) = Inr value \<and>
        ses_pending s = renderCookie L (manager_cookie mg value remaining expires) \<and>
        ses_pending s \<noteq> [] \<and> length (ses_pending s) \<le> maxCookieBytes)"

lemma pending_ok_mono: "pending_ok L mg ts s \<Longrightarrow> ts \<subseteq> ts' \<Longrightarrow> pending_ok L mg ts' s"
  unfolding pending_ok_def by blast

lemma encodedCookie_pending:
  assumes "encodedCookie L mg now nonce d = Inr p" "(now, nonce) \<in> ts"
  shows "pending_ok L mg ts \<lparr>ses_data = (if IssuedAt d = 0 then d\<lparr>IssuedAt := now\<rparr> else d), ses_pending = p\<rparr>"
proof -
  let ?d = "if IssuedAt d = 0 then d\<lparr>IssuedAt := now\<rparr> else d"
  consider (empty) "Values d = []" "FlashValues d = []" "p = renderCookie L (expiredCookie mg)"
    | (late) "IssuedAt ?d + max_age_seconds mg \<le> now" "p = renderCookie L (expiredCookie mg)"
    | (sealed) v where "seal L mg nonce ?d = Inr v" "length p \<le> maxCookieBytes" "p \<noteq> []"
        "p = renderCookie L (manager_cookie mg v (IssuedAt ?d + max_age_seconds mg - now) (IssuedAt ?d + max_age_seconds mg))"
    using assms(1) by (simp add: encodedCookie_def Let_def split: if_split_asm sum.split_asm)
  then show ?thesis
  proof cases
    case empty
    then show ?thesis by (simp add: pending_ok_def)
  next
    case late
    with assms(2) show ?thesis by (simp only: pending_ok_def session.simps) blast
  next
    case sealed
    obtain n where n: "nonce = Inr n" using sealed(1) by (auto simp: seal_def split: sum.splits)
    show ?thesis
      unfolding pending_ok_def session.simps
      using sealed assms(2) unfolding n by (intro disjI2 exI conjI)
  qed
qed

lemma candidate_pending:
  assumes "encodedCookie L mg now nonce d = Inr p" "IssuedAt d = 0 \<longrightarrow> d\<lparr>IssuedAt := now\<rparr> = d" "(now, nonce) \<in> ts"
  shows "pending_ok L mg ts \<lparr>ses_data = d, ses_pending = p\<rparr>"
  using encodedCookie_pending [OF assms(1,3)] assms(2) by (simp split: if_splits)

lemma session_change_pending:
  assumes "session_change L mg now nonce c c' f (Some s) = (Some s', err)" "(now, nonce) \<in> ts"
  shows "s' = s \<or> pending_ok L mg ts s'"
proof -
  note candidate_pending [OF _ _ assms(2), of L mg, rotated]
  with assms(1) show ?thesis
    by (auto simp: session_change_def session_mutable_def Let_def split: if_splits option.splits sum.splits)
qed

lemma session_change_some: "\<exists>s' err. session_change L mg now nonce c c' f (Some s) = (Some s', err)"
  by (simp add: session_change_def session_mutable_def Let_def split: option.split sum.split)

lemma session_op_change:
  assumes "x \<noteq> DestroyOp"
  shows "\<exists>f. exec_session_op L mg now nonce c x s = fst (session_change L mg now nonce c c f s)"
proof -
  have "fst (session_Flashes L mg now nonce c c s) = fst (session_change L mg now nonce c c take_flashes s)"
    by (simp add: session_Flashes_def split: prod.split option.split)
  with assms show ?thesis
    by (cases x) (auto simp: exec_session_op_def session_Set_def session_Delete_def session_AddFlash_def)
qed

lemma exec_session_op_pending:
  assumes "exec_session_op L mg now nonce c x (Some s) = Some s'" "(now, nonce) \<in> ts"
  shows "s' = s \<or> pending_ok L mg ts s'"
proof (cases "x = DestroyOp")
  case True
  with assms(1) show ?thesis
    by (auto simp: exec_session_op_def session_Destroy_def session_mutable_def pending_ok_def newPayload_def split: if_splits)
next
  case False
  from session_op_change [OF this] obtain f where
    f: "exec_session_op L mg now nonce c x (Some s) = fst (session_change L mg now nonce c c f (Some s))" by blast
  obtain s1 err where "session_change L mg now nonce c c f (Some s) = (Some s1, err)" using session_change_some by blast
  with f assms(1) session_change_pending [OF this assms(2)] show ?thesis by auto
qed

lemma exec_session_op_committed: "exec_session_op L mg now nonce True x (Some s) = Some s"
  by (simp add: exec_session_op_def session_Set_def session_Delete_def session_AddFlash_def session_Flashes_def session_Destroy_def
      session_change_def session_mutable_def split: session_op.split)

lemma exec_session_op_some: "\<exists>s'. exec_session_op L mg now nonce c x (Some s) = Some s'"
proof (cases "x = DestroyOp")
  case False
  from session_op_change [OF this] obtain f where
    f: "exec_session_op L mg now nonce c x (Some s) = fst (session_change L mg now nonce c c f (Some s))" by blast
  with session_change_some [of L mg now nonce c c f s] show ?thesis by auto
qed (simp add: exec_session_op_def session_Destroy_def session_mutable_def)

lemma load_pending:
  assumes "load L mg now nonce cookie = Inr s" "(now, nonce) \<in> ts"
  shows "ses_pending s = [] \<or> pending_ok L mg ts s"
proof -
  have issued: "IssuedAt d \<noteq> 0" if "decode L mg now v = (d, i, True)" for v d i
    using that decode_keys_sound by (fastforce simp: decode_def live_payload_def split: option.splits if_splits)
  show ?thesis
  proof (cases cookie)
    case (Inl err)
    with assms(1) show ?thesis by (auto simp: load_def Let_def split: if_splits)
  next
    case (Inr v)
    obtain d i ok where d: "(if length v \<le> maxCookieBytes then decode L mg now v else (newPayload, -1, False)) = (d, i, ok)"
      by (metis prod_cases3)
    show ?thesis
    proof (cases "ok \<and> i > 0")
      case True
      with d issued have "IssuedAt d \<noteq> 0" by (metis prod.inject)
      moreover from True Inr d assms(1) obtain p where "encodedCookie L mg now nonce d = Inr p" "s = \<lparr>ses_data = d, ses_pending = p\<rparr>"
        by (simp add: load_def Let_def split: sum.splits)
      ultimately show ?thesis using candidate_pending [OF _ _ assms(2)] by blast
    next
      case False
      with Inr d assms(1) show ?thesis
        by (auto simp: load_def Let_def pending_ok_def newPayload_def split: if_splits)
    qed
  qed
qed

section \<open>The response and the session\<close>

definition total_hook :: "commit_hook \<Rightarrow> bool" where
  "total_hook hook \<longleftrightarrow> (\<forall>h. \<exists>h'. hook h = Return h')"

definition total_event :: "request_event \<Rightarrow> bool" where
  "total_event e = (case e of OnResponse (OpBeforeCommit hook) \<Rightarrow> total_hook hook | _ \<Rightarrow> True)"

lemma run_total_hooks: "\<forall>hook \<in> set hooks. total_hook hook \<Longrightarrow> \<exists>h'. run_hooks hooks h = (h', None)"
proof (induction hooks arbitrary: h)
  case (Cons hook hooks)
  then obtain h1 where "hook h = Return h1" unfolding total_hook_def by (meson list.set_intros(1))
  with Cons show ?case by simp
qed simp

lemma run_hooks_append:
  "run_hooks pre h = (h1, None) \<Longrightarrow> run_hooks (pre @ hooks) h = run_hooks hooks h1"
  by (induction pre arbitrary: h) (auto split: outcome.splits)

text \<open>A header that was sent holds the cookie as the hook wrote it, under what the later hooks did.\<close>

definition sent_with :: "session \<Rightarrow> header \<Rightarrow> bool" where
  "sent_with s h \<longleftrightarrow> (\<exists>h1 post. run_hooks post (beforeCommit s h1) = (h, None))"

fun wire_heads :: "wire_event list \<Rightarrow> header list" where
  "wire_heads [] = []"
| "wire_heads (Head status h # w) = h # wire_heads w"
| "wire_heads (Informational status # w) = wire_heads w"
| "wire_heads (Body d # w) = wire_heads w"

lemma wire_heads_append [simp]: "wire_heads (w @ w') = wire_heads w @ wire_heads w'"
  by (induction w rule: wire_heads.induct) simp_all

abbreviation heads :: "response \<Rightarrow> header list" where
  "heads r \<equiv> wire_heads (rs_wire r)"

definition session_inv :: "nat \<Rightarrow> response \<Rightarrow> session \<Rightarrow> bool" where
  "session_inv i r s \<longleftrightarrow> \<not> rs_committing r \<and>
     (if rs_wroteHeader r then (\<forall>h \<in> set (heads r). sent_with s h)
      else heads r = [] \<and> (\<exists>pre post. rs_hooks r = pre @ cookie_hook s # post \<and> length pre = i \<and>
         (\<forall>hook \<in> set pre \<union> set post. total_hook hook)))"

lemma session_inv_keep:
  "session_inv i r s \<Longrightarrow> heads r' = heads r \<Longrightarrow> rs_wroteHeader r' = rs_wroteHeader r \<Longrightarrow> rs_committing r' = rs_committing r \<Longrightarrow>
   rs_hooks r' = rs_hooks r \<Longrightarrow> session_inv i r' s"
  by (simp add: session_inv_def)

lemma session_inv_open:
  "\<not> rs_committing r \<Longrightarrow> \<not> rs_wroteHeader r \<Longrightarrow> heads r = [] \<Longrightarrow> rs_hooks r = pre @ cookie_hook s # post \<Longrightarrow> length pre = i \<Longrightarrow>
   \<forall>hook \<in> set pre \<union> set post. total_hook hook \<Longrightarrow> session_inv i r s"
  unfolding session_inv_def by auto

lemma session_inv_WriteHeader:
  assumes "session_inv i r s"
  shows "session_inv i (fst (WriteHeader status r)) s"
proof (cases "rs_wroteHeader r \<or> status \<ge> 100 \<and> status < 200 \<and> status \<noteq> 101")
  case True
  with assms show ?thesis
    by (auto simp: WriteHeader_def session_inv_def underlying_WriteHeader_def)
next
  case False
  with assms obtain pre post where hooks: "rs_hooks r = pre @ cookie_hook s # post" "heads r = []" "\<not> rs_committing r"
    "\<forall>hook \<in> set pre \<union> set post. total_hook hook" by (auto simp: session_inv_def)
  obtain h1 where h1: "run_hooks pre (rs_header r) = (h1, None)" using run_total_hooks hooks(4) by (meson UnI1)
  obtain h2 where h2: "run_hooks post (beforeCommit s h1) = (h2, None)" using run_total_hooks hooks(4) by (meson UnI2)
  have "run_hooks (rs_hooks r) (rs_header r) = (h2, None)"
    by (simp add: hooks(1) run_hooks_append [OF h1] cookie_hook_def h2)
  moreover have "sent_with s h2" using h2 by (auto simp: sent_with_def)
  ultimately show ?thesis
    using False hooks by (simp add: WriteHeader_def session_inv_def underlying_WriteHeader_def runBeforeCommitHooks_def)
qed

lemma session_inv_exec_op:
  assumes "session_inv i r s" "total_event (OnResponse x)"
  shows "session_inv i (fst (exec_op x r)) s"
proof -
  have "session_inv i (fst (ensure_header r)) s"
    using assms(1) session_inv_WriteHeader by (simp add: ensure_header_def)
  note keep = session_inv_keep [OF this] session_inv_keep [OF assms(1)]
  show ?thesis
  proof (cases x)
    case (OpWrite uw d)
    obtain r1 y where e: "ensure_header r = (r1, y)" by fastforce
    obtain n err where w: "uw d = (n, err)" by fastforce
    from e keep(1) [of "r1\<lparr>rs_bytes := rs_bytes r1 + int n, rs_wire := rs_wire r1 @ [Body (take n d)]\<rparr>"] keep(1) [of r1] OpWrite show ?thesis
      by (cases y) (simp_all add: response_Write_def drop_result_def w)
  next
    case (OpFlush answer)
    obtain r1 y where "ensure_header r = (r1, y)" by fastforce
    with keep(1) [of r1] OpFlush show ?thesis by (cases y) (simp_all add: FlushError_def drop_result_def)
  next
    case (OpBeforeCommit hook)
    show ?thesis
    proof (cases "rs_wroteHeader r")
      case False
      with assms(1) obtain pre post where hooks: "rs_hooks r = pre @ cookie_hook s # post" "length pre = i"
        "\<forall>hook \<in> set pre \<union> set post. total_hook hook" "heads r = []" "\<not> rs_committing r" by (auto simp: session_inv_def)
      have "total_hook hook" using assms(2) OpBeforeCommit by (simp add: total_event_def)
      with False hooks OpBeforeCommit show ?thesis
        by (intro session_inv_open [where pre = pre and post = "post @ [hook]"]) (auto simp: beforeCommitHook_def)
    qed (use assms(1) OpBeforeCommit in \<open>simp add: beforeCommitHook_def\<close>)
  qed (use keep(2) session_inv_WriteHeader [OF assms(1)] in \<open>simp_all add: Hijack_def\<close>)
qed

lemma session_inv_step:
  assumes "session_inv i r s" "total_event e" "request_event_step L mg i e (r, s) = (r', s')"
  shows "session_inv i r' s'"
proof (cases e)
  case (OnSession now nonce x)
  obtain t where t: "exec_session_op L mg now nonce (Committed r) x (Some s) = Some t" using exec_session_op_some by blast
  with assms(3) OnSession have st: "r' = r\<lparr>rs_hooks := (rs_hooks r)[i := cookie_hook t]\<rparr>" "s' = t" by auto
  show ?thesis
  proof (cases "rs_wroteHeader r")
    case True
    with t have "t = s" by (simp add: Committed_def exec_session_op_committed)
    with assms(1) st True show ?thesis by (simp add: session_inv_def)
  next
    case False
    with assms(1) obtain pre post where "rs_hooks r = pre @ cookie_hook s # post" "length pre = i"
      "\<forall>hook \<in> set pre \<union> set post. total_hook hook" "heads r = []" "\<not> rs_committing r" by (auto simp: session_inv_def)
    with st False show ?thesis by (auto simp: session_inv_def list_update_append)
  qed
qed (use assms session_inv_exec_op in auto)

lemma session_inv_events:
  "session_inv i r s \<Longrightarrow> \<forall>e \<in> set es. total_event e \<Longrightarrow> request_events L mg i es (r, s) = (r', s') \<Longrightarrow> session_inv i r' s'"
proof (induction es arbitrary: r s)
  case (Cons e es)
  obtain r1 s1 where "request_event_step L mg i e (r, s) = (r1, s1)" by fastforce
  with Cons session_inv_step [OF Cons.prems(1) _ this] show ?case by (simp add: request_events_def)
qed (simp add: request_events_def)

lemma session_pending_events:
  assumes "request_events L mg i es (r, s) = (r', s')" "event_inputs es \<subseteq> ts"
  shows "s' = s \<or> pending_ok L mg ts s'"
  using assms
proof (induction es arbitrary: r s)
  case (Cons e es)
  obtain r1 s1 where e: "request_event_step L mg i e (r, s) = (r1, s1)" by fastforce
  have "event_inputs es \<subseteq> ts" using Cons.prems(2) by (auto simp: event_inputs_def)
  with Cons e have "s' = s1 \<or> pending_ok L mg ts s'" by (simp add: request_events_def)
  moreover have "s1 = s \<or> pending_ok L mg ts s1"
  proof (cases e)
    case (OnSession now nonce x)
    with Cons.prems(2) have "(now, nonce) \<in> ts" by (auto simp: event_inputs_def)
    with e OnSession exec_session_op_pending exec_session_op_some show ?thesis
      by (metis (mono_tags, lifting) Pair_inject option.simps(5) request_event_step.simps(1))
  qed (use e in simp)
  ultimately show ?case by blast
qed (simp add: request_events_def)

section \<open>Properties\<close>


text \<open>A request without a cookie whose handler stores a value.\<close>

definition stored_payload :: payload where
  "stored_payload = \<lparr>IssuedAt = 1000, Values = [(''user'', ''7'')], FlashValues = []\<rparr>"

definition stored_lib :: "string session_lib" where
  "stored_lib = demo_lib\<lparr>jsonUnmarshal := (\<lambda>p. Some stored_payload)\<rparr>"

definition login_events :: "request_event list" where
  "login_events = [OnSession 1000 (Inr ''nn'') (SetOp ''user'' ''7''), OnResponse (OpWriteHeader 204)]"


end
