(* ===== verification/Testkit.thy ===== *)
theory Testkit
  imports Serve Build
begin

text \<open>
  The test server of \<open>testkit/testkit.go\<close>. Its goroutines, the one that serves and the callers of \<open>Start\<close> and \<open>Close\<close>, are a
  step relation over the two channels and the two \<open>sync.Once\<close>; the checks, the requests and the responses are functions. A failed
  check ends the test, \<open>Fatal\<close>. The network, the HTTP client and \<open>mime/multipart\<close> are answers; what the code relies on of \<open>App.Serve\<close>
  is that it may return at any time and accepts connections only with the listener it is given.
\<close>

section \<open>Checks\<close>

datatype 'a checked = Fatal string "goerr option" | Passed 'a

text \<open>An option is the timeout of \<open>WithTimeout\<close>, \<open>None\<close> a nil one.\<close>

definition WithTimeout :: "int \<Rightarrow> int \<Rightarrow> int result" where
  "WithTimeout timeout current = (if timeout < 0 then Inl (Opaque ''timeout cannot be negative'') else Inr timeout)"

fun kit_options :: "int option list \<Rightarrow> int \<Rightarrow> int checked" where
  "kit_options [] timeout = Passed timeout"
| "kit_options (None # opts) timeout = Fatal ''testkit: option cannot be nil'' None"
| "kit_options (Some t # opts) timeout = (case WithTimeout t timeout of
     Inl err \<Rightarrow> Fatal ''testkit: configure server: '' (Some err)
   | Inr timeout \<Rightarrow> kit_options opts timeout)"

definition defaultRequestTimeout :: int where "defaultRequestTimeout = 5 * 1000000000"

text \<open>What \<open>Start\<close> does before its goroutine runs: the timeout and the built application.\<close>

definition kit_prepare :: "server_lib \<Rightarrow> goerr option \<Rightarrow> int option list \<Rightarrow> app option \<Rightarrow> (int \<times> app) checked" where
  "kit_prepare X listen opts a = (case kit_options opts defaultRequestTimeout of Fatal m err \<Rightarrow> Fatal m err
   | Passed timeout \<Rightarrow> (case a of None \<Rightarrow> Fatal ''testkit: application is nil'' None
     | Some a \<Rightarrow> (case Build X a of
         (a, Some err) \<Rightarrow> Fatal ''testkit: build application: '' (Some err)
       | (a, None) \<Rightarrow> (case listen of Some err \<Rightarrow> Fatal ''testkit: listen: '' (Some err) | None \<Rightarrow> Passed (timeout, a)))))"

definition RequireRoute :: "server_lib \<Rightarrow> app option \<Rightarrow> string \<Rightarrow> string \<Rightarrow> route checked" where
  "RequireRoute X a method path = (case a of None \<Rightarrow> Fatal ''testkit: application is nil'' None
   | Some a \<Rightarrow> (case snd (app_Routes X a) of
       Inl err \<Rightarrow> Fatal ''testkit: inspect routes: '' (Some err)
     | Inr routes \<Rightarrow> (case find (\<lambda>r. rt_Method r = method \<and> rt_Path r = path) routes of
         None \<Rightarrow> Fatal (''testkit: route '' @ method @ '' '' @ path @ '' is not registered'') None
       | Some r \<Rightarrow> Passed r)))"

section \<open>Requests and responses\<close>

record kit_request =
  kr_method :: string
  kr_url :: string
  kr_header :: header
  kr_body :: string

record kit_response =
  kp_status :: int
  kp_header :: header
  kp_body :: string

text \<open>\<open>invalid\<close> is the error of \<open>http.NewRequest\<close> on a method and a URL.\<close>

definition kit_NewRequest :: "(string \<Rightarrow> string \<Rightarrow> goerr option) \<Rightarrow> string \<Rightarrow> string \<Rightarrow> string \<Rightarrow> string \<Rightarrow> kit_request checked" where
  "kit_NewRequest invalid base method path body = (case invalid method (base @ path) of
     Some err \<Rightarrow> Fatal ''testkit: create request: '' (Some err)
   | None \<Rightarrow> Passed \<lparr>kr_method = method, kr_url = base @ path, kr_header = empty_header, kr_body = body\<rparr>)"

text \<open>The answer of the client: an error, or a response with what reading and closing its body gives.\<close>

type_synonym kit_client = "kit_request \<Rightarrow> (kit_response \<times> goerr option \<times> goerr option) result"

definition kit_Do :: "kit_client \<Rightarrow> kit_request \<Rightarrow> kit_response checked" where
  "kit_Do client rq = (case client rq of
     Inl err \<Rightarrow> Fatal ''testkit: send request: '' (Some err)
   | Inr (rp, readErr, closeErr) \<Rightarrow>
       (case map_option Joined (if readErr = None \<and> closeErr = None then None else
           Some ((case readErr of None \<Rightarrow> [] | Some err \<Rightarrow> [err]) @ (case closeErr of None \<Rightarrow> [] | Some err \<Rightarrow> [err]))) of
          Some err \<Rightarrow> Fatal ''testkit: read response: '' (Some err)
        | None \<Rightarrow> Passed rp))"

definition kit_send ::
  "(string \<Rightarrow> string \<Rightarrow> goerr option) \<Rightarrow> kit_client \<Rightarrow> string \<Rightarrow> string \<Rightarrow> string \<Rightarrow> string \<Rightarrow> string \<Rightarrow> kit_response checked" where
  "kit_send invalid client base method path ctype body = (case kit_NewRequest invalid base method path body of
     Fatal m err \<Rightarrow> Fatal m err
   | Passed rq \<Rightarrow> kit_Do client (rq\<lparr>kr_header := header_set ''Content-Type'' ctype (kr_header rq)\<rparr>))"

text \<open>\<open>encoded\<close> is the answer of the JSON encoder.\<close>

definition kit_JSON ::
  "(string \<Rightarrow> string \<Rightarrow> goerr option) \<Rightarrow> kit_client \<Rightarrow> string \<Rightarrow> string \<Rightarrow> string \<Rightarrow> string result \<Rightarrow> kit_response checked" where
  "kit_JSON invalid client base method path encoded = (case encoded of
     Inl err \<Rightarrow> Fatal ''testkit: encode JSON request: '' (Some err)
   | Inr body \<Rightarrow> kit_send invalid client base method path ''application/json'' body)"

text \<open>
  The parts of a multipart body in the order they are written; \<open>part_error\<close> is the writer's answer to one, and \<open>render\<close> gives the body and the
  content type of the closed writer. A file is its field, its name and what reading its body gives, \<open>None\<close> a nil reader.
\<close>

datatype kit_part = FormField string string | FormFile string string string

fun kit_fields :: "(kit_part \<Rightarrow> goerr option) \<Rightarrow> (string \<times> string list) list \<Rightarrow> kit_part list checked" where
  "kit_fields part_error [] = Passed []"
| "kit_fields part_error ((name, []) # fs) = kit_fields part_error fs"
| "kit_fields part_error ((name, v # vs) # fs) = (case part_error (FormField name v) of
     Some err \<Rightarrow> Fatal ''testkit: write multipart field: '' (Some err)
   | None \<Rightarrow> (case kit_fields part_error ((name, vs) # fs) of Fatal m err \<Rightarrow> Fatal m err | Passed ps \<Rightarrow> Passed (FormField name v # ps)))"

fun kit_files :: "(kit_part \<Rightarrow> goerr option) \<Rightarrow> (string \<times> string \<times> string result option) list \<Rightarrow> kit_part list checked" where
  "kit_files part_error [] = Passed []"
| "kit_files part_error ((field, name, None) # fs) = Fatal (''testkit: multipart file '' @ name @ '' has no body'') None"
| "kit_files part_error ((field, name, Some body) # fs) = (case part_error (FormFile field name []) of
     Some err \<Rightarrow> Fatal ''testkit: create multipart file: '' (Some err)
   | None \<Rightarrow> (case body of Inl err \<Rightarrow> Fatal ''testkit: write multipart file: '' (Some err)
     | Inr d \<Rightarrow> (case kit_files part_error fs of Fatal m err \<Rightarrow> Fatal m err | Passed ps \<Rightarrow> Passed (FormFile field name d # ps))))"

definition kit_Multipart ::
  "(string \<Rightarrow> string \<Rightarrow> goerr option) \<Rightarrow> kit_client \<Rightarrow> (kit_part \<Rightarrow> goerr option) \<Rightarrow> (kit_part list \<Rightarrow> (string \<times> string) result) \<Rightarrow>
     string \<Rightarrow> string \<Rightarrow> string \<Rightarrow> (string \<times> string list) list \<Rightarrow> (string \<times> string \<times> string result option) list \<Rightarrow> kit_response checked" where
  "kit_Multipart invalid client part_error render base method path fs files = (case kit_fields part_error fs of
     Fatal m err \<Rightarrow> Fatal m err
   | Passed ps \<Rightarrow> (case kit_files part_error files of
       Fatal m err \<Rightarrow> Fatal m err
     | Passed qs \<Rightarrow> (case render (ps @ qs) of
         Inl err \<Rightarrow> Fatal ''testkit: close multipart request: '' (Some err)
       | Inr (body, ctype) \<Rightarrow> kit_send invalid client base method path ctype body)))"

definition RequireStatus :: "int \<Rightarrow> kit_response \<Rightarrow> unit checked" where
  "RequireStatus status rp = (if kp_status rp \<noteq> status then Fatal
     (''testkit: status = '' @ show_int (kp_status rp) @ '', want '' @ show_int status @ ''; body='' @ kp_body rp) None else Passed ())"

definition kit_Decode :: "(string \<Rightarrow> 'a result) \<Rightarrow> kit_response \<Rightarrow> 'a checked" where
  "kit_Decode unmarshal rp = (case unmarshal (kp_body rp) of
     Inl err \<Rightarrow> Fatal ''testkit: decode JSON response: '' (Some err) | Inr v \<Rightarrow> Passed v)"

section \<open>The server of a test\<close>

text \<open>
  The goroutine of \<open>App.Serve\<close>, which ends by a send on the buffered \<open>done\<close>; \<open>Start\<close> at its \<open>select\<close>, at the cookie jar, waiting after a failed jar,
  returned, or ended by \<open>Fatalf\<close>; and the function that \<open>closeOnce\<close> runs.
\<close>

datatype kit_serving = KitServes | KitServed "goerr option"

datatype kit_start = SelectReady | MakeJar | JarFailed | KitStarted | StartFatal

datatype kit_once = CloseUnused | CloseWaits | CloseDone "goerr option"

record kit_server =
  ks_serving :: kit_serving
  ks_readyOnce :: bool
  ks_readyCloses :: nat
  ks_done :: "goerr option list"
  ks_cancelled :: bool
  ks_start :: kit_start
  ks_once :: kit_once
  ks_results :: "goerr option list"

definition kit_launched :: kit_server where
  "kit_launched = \<lparr>ks_serving = KitServes, ks_readyOnce = False, ks_readyCloses = 0, ks_done = [], ks_cancelled = False,
     ks_start = SelectReady, ks_once = CloseUnused, ks_results = []\<rparr>"

definition ready_Accept :: "kit_server \<Rightarrow> kit_server" where
  "ready_Accept k = (if ks_readyOnce k then k else k\<lparr>ks_readyOnce := True, ks_readyCloses := ks_readyCloses k + 1\<rparr>)"

text \<open>What the served application may do at any time.\<close>

inductive kit_serve_step :: "kit_server \<Rightarrow> kit_server \<Rightarrow> bool" where
  accept: "ks_serving k = KitServes \<Longrightarrow> kit_serve_step k (ready_Accept k)"
| serve_returns: "ks_serving k = KitServes \<Longrightarrow> kit_serve_step k (k\<lparr>ks_serving := KitServed err, ks_done := ks_done k @ [err]\<rparr>)"

text \<open>The steps of \<open>Start\<close> and of the calls of \<open>Close\<close>, the one of the cleanup included.\<close>

inductive kit_step :: "kit_server \<Rightarrow> kit_server \<Rightarrow> bool" where
  select_ready: "ks_start k = SelectReady \<Longrightarrow> ks_readyCloses k > 0 \<Longrightarrow> kit_step k (k\<lparr>ks_start := MakeJar\<rparr>)"
| select_done: "ks_start k = SelectReady \<Longrightarrow> ks_done k = err # rest \<Longrightarrow>
    kit_step k (k\<lparr>ks_done := rest, ks_cancelled := True, ks_start := StartFatal\<rparr>)"
| jar_made: "ks_start k = MakeJar \<Longrightarrow> kit_step k (k\<lparr>ks_start := KitStarted\<rparr>)"
| jar_error: "ks_start k = MakeJar \<Longrightarrow> kit_step k (k\<lparr>ks_cancelled := True, ks_start := JarFailed\<rparr>)"
| jar_wait: "ks_start k = JarFailed \<Longrightarrow> ks_done k = err # rest \<Longrightarrow> kit_step k (k\<lparr>ks_done := rest, ks_start := StartFatal\<rparr>)"
| close_first: "ks_start k = KitStarted \<Longrightarrow> ks_once k = CloseUnused \<Longrightarrow> kit_step k (k\<lparr>ks_cancelled := True, ks_once := CloseWaits\<rparr>)"
| close_receive: "ks_once k = CloseWaits \<Longrightarrow> ks_done k = err # rest \<Longrightarrow> kit_step k (k\<lparr>ks_done := rest, ks_once := CloseDone err\<rparr>)"
| close_return: "ks_once k = CloseDone err \<Longrightarrow> kit_step k (k\<lparr>ks_results := ks_results k @ [err]\<rparr>)"

inductive kit_reachable :: "kit_server \<Rightarrow> bool" where
  launched: "kit_reachable kit_launched"
| serve: "kit_reachable k \<Longrightarrow> kit_serve_step k l \<Longrightarrow> kit_reachable l"
| step: "kit_reachable k \<Longrightarrow> kit_step k l \<Longrightarrow> kit_reachable l"

inductive_cases kit_serve_stepE: "kit_serve_step k l"
inductive_cases kit_stepE: "kit_step k l"

text \<open>The value of \<open>Serve\<close> is in the channel until one goroutine received it.\<close>

definition kit_received :: "kit_server \<Rightarrow> bool" where
  "kit_received k \<longleftrightarrow> ks_start k = StartFatal \<or> (\<exists>err. ks_once k = CloseDone err)"

definition kit_inv :: "kit_server \<Rightarrow> bool" where
  "kit_inv k \<longleftrightarrow>
     ks_done k = (case ks_serving k of KitServes \<Rightarrow> [] | KitServed err \<Rightarrow> if kit_received k then [] else [err]) \<and>
     (kit_received k \<longrightarrow> ks_serving k \<noteq> KitServes \<and> ks_cancelled k) \<and>
     (\<forall>err. ks_once k = CloseDone err \<longrightarrow> ks_serving k = KitServed err) \<and>
     (ks_once k \<noteq> CloseUnused \<longrightarrow> ks_start k = KitStarted \<and> ks_cancelled k) \<and>
     (ks_start k = JarFailed \<longrightarrow> ks_cancelled k) \<and>
     (ks_results k \<noteq> [] \<longrightarrow> (\<exists>err. ks_once k = CloseDone err \<and> set (ks_results k) = {err})) \<and>
     (ks_readyOnce k \<longleftrightarrow> ks_readyCloses k > 0) \<and> ks_readyCloses k \<le> 1 \<and> (ks_start k \<in> {MakeJar, JarFailed, KitStarted} \<longrightarrow> ks_readyOnce k)"

lemma kit_inv_serve: "kit_inv k \<Longrightarrow> kit_serve_step k l \<Longrightarrow> kit_inv l"
  by (erule kit_serve_stepE) (auto simp: kit_inv_def kit_received_def ready_Accept_def)

lemma kit_inv_received:
  assumes "kit_inv k" "ks_done k = err # rest"
  shows "ks_serving k = KitServed err \<and> rest = [] \<and> \<not> kit_received k"
  using assms by (simp add: kit_inv_def split: kit_serving.splits if_splits)

lemma kit_inv_step:
  assumes "kit_inv k" "kit_step k l"
  shows "kit_inv l"
  using assms(2)
proof (cases rule: kit_step.cases)
  case (select_done err rest)
  with kit_inv_received [OF assms(1)] assms(1) show ?thesis by (simp add: kit_inv_def kit_received_def)
next
  case (jar_wait err rest)
  with kit_inv_received [OF assms(1)] assms(1) show ?thesis by (simp add: kit_inv_def kit_received_def)
next
  case (close_receive err rest)
  with kit_inv_received [OF assms(1)] assms(1) show ?thesis by (auto simp: kit_inv_def kit_received_def)
next
  case (close_return err)
  with assms(1) show ?thesis by (auto simp: kit_inv_def kit_received_def)
qed (use assms(1) in \<open>cases "ks_serving k"; auto simp: kit_inv_def kit_received_def\<close>)+

lemma kit_reachable_inv: "kit_reachable k \<Longrightarrow> kit_inv k"
proof (induction rule: kit_reachable.induct)
  case launched
  show ?case by (simp add: kit_inv_def kit_launched_def kit_received_def)
qed (blast intro: kit_inv_serve kit_inv_step)+

section \<open>Properties\<close>

text \<open>
  A test leaves no server behind. \<open>Close\<close> returns, as often as it is called, the one value that \<open>Serve\<close> returned, and only after it
  returned; a \<open>Start\<close> that fails the test has waited for \<open>Serve\<close> as well. The channel \<open>ready\<close> is closed at most once, and
  whoever waits for \<open>Serve\<close> gets its value as soon as it returns: no other receiver takes it.
\<close>

theorem testkit_stops:
  assumes "kit_reachable k"
  shows "(\<forall>err \<in> set (ks_results k). ks_serving k = KitServed err) \<and>
    (ks_start k = StartFatal \<longrightarrow> ks_serving k \<noteq> KitServes \<and> ks_cancelled k) \<and> ks_readyCloses k \<le> 1 \<and> length (ks_done k) \<le> 1 \<and>
    (ks_start k \<in> {SelectReady, JarFailed} \<or> ks_once k = CloseWaits \<longrightarrow> ks_serving k \<noteq> KitServes \<longrightarrow> (\<exists>l. kit_step k l)) \<and>
    (ks_start k = JarFailed \<or> ks_once k = CloseWaits \<longrightarrow> ks_cancelled k)"
proof -
  have inv: "kit_inv k" by (rule kit_reachable_inv [OF assms])
  have "\<exists>l. kit_step k l" if w: "ks_start k \<in> {SelectReady, JarFailed} \<or> ks_once k = CloseWaits" "ks_serving k \<noteq> KitServes"
  proof -
    from w(2) obtain err where err: "ks_serving k = KitServed err" by (cases "ks_serving k") auto
    have "\<not> kit_received k"
      using w(1)
    proof (elim disjE)
      assume "ks_start k \<in> {SelectReady, JarFailed}"
      moreover from this have "ks_start k \<noteq> KitStarted" by auto
      with inv have "ks_once k = CloseUnused" unfolding kit_inv_def by blast
      ultimately show ?thesis by (auto simp: kit_received_def)
    next
      assume "ks_once k = CloseWaits"
      moreover from this inv have "ks_start k = KitStarted" unfolding kit_inv_def by (metis kit_once.distinct(1))
      ultimately show ?thesis by (simp add: kit_received_def)
    qed
    with inv err have "ks_done k = [err]" by (simp add: kit_inv_def)
    with w(1) show ?thesis using kit_step.select_done [of k] kit_step.jar_wait [of k] kit_step.close_receive [of k] by blast
  qed
  moreover have "\<forall>err \<in> set (ks_results k). ks_serving k = KitServed err"
  proof
    fix err assume "err \<in> set (ks_results k)"
    then obtain e where "ks_once k = CloseDone e" "set (ks_results k) = {e}" using inv unfolding kit_inv_def by (metis empty_iff empty_set)
    with inv \<open>err \<in> set (ks_results k)\<close> show "ks_serving k = KitServed err" by (simp add: kit_inv_def)
  qed
  moreover have "length (ks_done k) \<le> 1" using inv by (simp add: kit_inv_def split: kit_serving.split)
  moreover have "ks_readyCloses k \<le> 1" using inv by (simp add: kit_inv_def)
  moreover have "ks_start k = StartFatal \<longrightarrow> ks_serving k \<noteq> KitServes \<and> ks_cancelled k" using inv by (simp add: kit_inv_def kit_received_def)
  moreover have "ks_start k = JarFailed \<or> ks_once k = CloseWaits \<longrightarrow> ks_cancelled k" using inv unfolding kit_inv_def by (metis kit_once.distinct(1))
  ultimately show ?thesis by blast
qed

theorem testkit_stops_witness:
  "\<exists>l. kit_step (kit_launched\<lparr>ks_serving := KitServed None, ks_done := [None]\<rparr>) l"
proof -
  have "kit_serve_step kit_launched (kit_launched\<lparr>ks_serving := KitServed None, ks_done := ks_done kit_launched @ [None]\<rparr>)"
    by (rule kit_serve_step.serve_returns) (simp add: kit_launched_def)
  then have "kit_reachable (kit_launched\<lparr>ks_serving := KitServed None, ks_done := [None]\<rparr>)"
    using kit_reachable.serve [OF kit_reachable.launched] by (simp add: kit_launched_def)
  from testkit_stops [OF this] show ?thesis by (simp add: kit_launched_def)
qed

text \<open>A route that is required is one of the application's routes with that method and path, or the test fails.\<close>

theorem required_route:
  "case RequireRoute X (Some a) method path of
     Passed r \<Rightarrow> rt_Method r = method \<and> rt_Path r = path \<and> (\<exists>routes. snd (app_Routes X a) = Inr routes \<and> r \<in> set routes)
   | Fatal m err \<Rightarrow> (\<exists>err. snd (app_Routes X a) = Inl err) \<or>
       (\<exists>routes. snd (app_Routes X a) = Inr routes \<and> (\<forall>r \<in> set routes. \<not> (rt_Method r = method \<and> rt_Path r = path)))"
  by (auto simp: RequireRoute_def find_Some_iff find_None_iff split: sum.split option.split)

end
