(* ===== verification/LoadCommand.thy ===== *)
theory LoadCommand
  imports Load Command DevRunner
begin

text \<open>
  The commands \<open>vial load\<close> and \<open>vial dev\<close>, \<open>runLoad\<close> and \<open>runDev\<close> of \<open>cmd/vial/main.go\<close>: the arguments, the progress
  that \<open>vial load\<close> reports while \<open>load.Run\<close> works in its goroutine, the summary and the verdict. The package \<open>flag\<close> is an answer;
  \<open>fl\<close> is the rounding of the floating-point unit, as in \<open>Load\<close>. A stopped ticker delivers nothing more.
\<close>

section \<open>Arguments\<close>

text \<open>The values of the flags and the arguments they leave.\<close>

record load_flags =
  lf_workers :: int
  lf_duration :: int
  lf_timeout :: int
  lf_maxErrorRate :: go_float
  lf_maxP95 :: int
  lf_args :: "string list"

definition load_config_of :: "load_flags result \<Rightarrow> (load_config \<times> thresholds) result" where
  "load_config_of parsed = (case parsed of Inl err \<Rightarrow> Inl err
   | Inr f \<Rightarrow> if length (lf_args f) \<noteq> 1 then Inl (Opaque (''expected one URL, received '' @ show_nat (length (lf_args f))))
       else Inr (\<lparr>lc_URL = hd (lf_args f), lc_Workers = lf_workers f, lc_Duration = lf_duration f, lc_Timeout = lf_timeout f\<rparr>,
         \<lparr>th_MaxErrorRate = lf_maxErrorRate f, th_MaxP95 = lf_maxP95 f\<rparr>))"

record dev_flags =
  df_root :: string
  df_debounce :: int
  df_restartTimeout :: int
  df_verbose :: bool
  df_excludes :: "string list"
  df_watchPatterns :: "string list"
  df_args :: "string list"

text \<open>The configuration \<open>vial dev\<close> gives to \<open>dev.NewRunner\<close>; \<open>parse\<close> is the flag set on the arguments before \<open>--\<close>.\<close>

definition dev_config_of :: "(string list \<Rightarrow> dev_flags result) \<Rightarrow> string list \<Rightarrow> dev_config result" where
  "dev_config_of parse arguments = (case splitApplicationArguments arguments of (fw, app) \<Rightarrow>
     (case parse fw of Inl err \<Rightarrow> Inl err
      | Inr f \<Rightarrow> if length (df_args f) > 1 then
            Inl (Opaque (''expected at most one Go package, received '' @ show_nat (length (df_args f))))
          else Inr \<lparr>dc_Root = df_root f, dc_Target = (if length (df_args f) = 1 then hd (df_args f) else ''.''), dc_AppArgs = app,
            dc_Debounce = df_debounce f, dc_RestartTimeout = df_restartTimeout f, dc_Excludes = df_excludes f,
            dc_WatchPatterns = df_watchPatterns f, dc_Verbose = df_verbose f, dc_Stdin = None, dc_Stdout = None, dc_Stderr = None,
            dc_Env = None\<rparr>))"

section \<open>Progress\<close>

text \<open>What the \<open>select\<close> of the loop receives: the answer of \<open>load.Run\<close>, or a tick.\<close>

type_synonym run_answer = "goerr + load_result \<times> goerr option"

datatype load_event = RunFinished run_answer | LoadTick int

text \<open>
  What the command does: a line of progress (the percentage, the time it shows and the duration), the summary, the end of the context of
  \<open>load.Run\<close>, and the receive that waits for it.
\<close>

datatype load_call = ProgressLine int int int | SummaryOf load_result | StopRun | ReceiveRun

definition progress_percent :: "(rat \<Rightarrow> rat) \<Rightarrow> int \<Rightarrow> int \<Rightarrow> int" where
  "progress_percent fl elapsed duration = \<lfloor>fl (fl (fl (of_int elapsed) / fl (of_int duration)) * 100)\<rfloor>"

definition whole_seconds :: "int \<Rightarrow> int" where
  "whole_seconds d = d - d mod 1000000000"

definition progress_failed :: "goerr \<Rightarrow> goerr" where
  "progress_failed err = Wrapf ''write load progress: '' err"

text \<open>
  \<open>put\<close> answers a line. The loop ends with an error, or with the answer of \<open>load.Run\<close> and whether the end of the duration was
  reported; \<open>None\<close> is that it still waits.
\<close>

fun progress_loop :: "(rat \<Rightarrow> rat) \<Rightarrow> (load_call \<Rightarrow> goerr option) \<Rightarrow> int \<Rightarrow> int \<Rightarrow> bool \<Rightarrow> load_event list \<Rightarrow>
    load_call list \<times> (goerr + run_answer \<times> bool) option" where
  "progress_loop fl put duration started whole [] = ([], None)"
| "progress_loop fl put duration started whole (RunFinished a # es) = ([ReceiveRun], Some (Inr (a, whole)))"
| "progress_loop fl put duration started whole (LoadTick now # es) =
    (if whole \<or> duration \<le> 0 then progress_loop fl put duration started whole es
     else
       let elapsed = min (now - started) duration;
           line = ProgressLine (progress_percent fl elapsed duration) (whole_seconds elapsed) duration
       in case put line of
            Some err \<Rightarrow> ([line, StopRun, ReceiveRun], Some (Inl (progress_failed err)))
          | None \<Rightarrow> (case progress_loop fl put duration started (elapsed = duration) es of (calls, x) \<Rightarrow> (line # calls, x)))"

text \<open>After the loop; a failed \<open>load.Run\<close> that measured nothing gives the zero result. \<open>check\<close> is \<open>load.Check\<close>.\<close>

definition load_summary :: "(load_call \<Rightarrow> goerr option) \<Rightarrow> (load_result \<Rightarrow> goerr option) \<Rightarrow> run_answer \<Rightarrow> load_call list \<times> goerr option" where
  "load_summary put check a = (case a of
     Inl err \<Rightarrow> ([], Some err)
   | Inr (r, err) \<Rightarrow>
       if err = None \<or> lr_Requests r > 0 then
         (case put (SummaryOf r) of Some werr \<Rightarrow> ([SummaryOf r], Some (Wrapf ''write load summary: '' werr))
          | None \<Rightarrow> ([SummaryOf r], if err \<noteq> None then err else check r))
       else ([], err))"

definition run_failed :: "run_answer \<Rightarrow> bool" where
  "run_failed a = (case a of Inl err \<Rightarrow> True | Inr (r, err) \<Rightarrow> err \<noteq> None)"

definition finish_load ::
  "(load_call \<Rightarrow> goerr option) \<Rightarrow> (load_result \<Rightarrow> goerr option) \<Rightarrow> int \<Rightarrow> run_answer \<Rightarrow> bool \<Rightarrow> load_call list \<times> goerr option" where
  "finish_load put check duration a whole =
    (if \<not> run_failed a \<and> \<not> whole then
       (case put (ProgressLine 100 duration duration) of
          Some err \<Rightarrow> ([ProgressLine 100 duration duration], Some (progress_failed err))
        | None \<Rightarrow> (case load_summary put check a of (calls, err) \<Rightarrow> (ProgressLine 100 duration duration # calls, err)))
     else load_summary put check a)"

definition runLoad ::
  "formats \<Rightarrow> (rat \<Rightarrow> rat) \<Rightarrow> (load_call \<Rightarrow> goerr option) \<Rightarrow> load_flags result \<Rightarrow> int \<Rightarrow> load_event list \<Rightarrow> load_call list \<times> goerr option option" where
  "runLoad F fl put parsed started es = (case load_config_of parsed of
     Inl err \<Rightarrow> ([], Some (Some err))
   | Inr (cfg, limits) \<Rightarrow>
       (case progress_loop fl put (lc_Duration cfg) started False es of
          (calls, None) \<Rightarrow> (calls, None)
        | (calls, Some (Inl err)) \<Rightarrow> (calls, Some (Some err))
        | (calls, Some (Inr (a, whole))) \<Rightarrow>
            (case finish_load put (\<lambda>r. Check F fl r limits) (lc_Duration cfg) a whole of
               (rest, err) \<Rightarrow> (calls @ rest, Some err))))"

section \<open>The lines of progress\<close>

definition percents :: "load_call list \<Rightarrow> int list" where
  "percents calls = concat (map (\<lambda>c. case c of ProgressLine p e d \<Rightarrow> [p] | _ \<Rightarrow> []) calls)"

lemma percents_simps [simp]:
  "percents [] = []" "percents (ProgressLine p e d # cs) = p # percents cs" "percents (SummaryOf r # cs) = percents cs"
  "percents (StopRun # cs) = percents cs" "percents (ReceiveRun # cs) = percents cs" "percents (cs @ ds) = percents cs @ percents ds"
  by (simp_all add: percents_def)

text \<open>A rounding is monotonic and keeps the small integers the percentage is made of.\<close>

definition rounding :: "(rat \<Rightarrow> rat) \<Rightarrow> bool" where
  "rounding fl \<longleftrightarrow> mono fl \<and> fl 0 = 0 \<and> fl 1 = 1 \<and> fl 100 = 100"

definition clock_times :: "load_event list \<Rightarrow> int list" where
  "clock_times es = concat (map (\<lambda>e. case e of LoadTick now \<Rightarrow> [now] | RunFinished a \<Rightarrow> []) es)"

lemma clock_times_simps [simp]:
  "clock_times [] = []" "clock_times (LoadTick now # es) = now # clock_times es" "clock_times (RunFinished a # es) = clock_times es"
  by (simp_all add: clock_times_def)

lemma round_positive: "rounding fl \<Longrightarrow> 1 \<le> d \<Longrightarrow> fl (of_int d) \<ge> 1"
  unfolding rounding_def by (metis monoD of_int_1 of_int_le_iff)

lemma percent_mono:
  assumes "rounding fl" "0 \<le> e" "e \<le> e'" "d > 0"
  shows "progress_percent fl e d \<le> progress_percent fl e' d"
proof -
  have "mono fl" using assms(1) by (simp add: rounding_def)
  then have "fl (of_int e) \<le> fl (of_int e')" using assms(3) by (simp add: monoD)
  moreover have "fl (of_int d) > 0" using round_positive [OF assms(1), of d] assms(4) by linarith
  ultimately have "fl (of_int e) / fl (of_int d) \<le> fl (of_int e') / fl (of_int d)" by (simp add: divide_right_mono)
  then have "fl (fl (of_int e) / fl (of_int d)) * 100 \<le> fl (fl (of_int e') / fl (of_int d)) * 100"
    using \<open>mono fl\<close> by (simp add: monoD)
  then show ?thesis using \<open>mono fl\<close> by (simp add: progress_percent_def floor_mono monoD)
qed

lemma percent_full:
  assumes "rounding fl" "d > 0"
  shows "progress_percent fl d d = 100"
proof -
  have "fl (of_int d) > 0" using round_positive [OF assms(1), of d] assms(2) by linarith
  with assms(1) show ?thesis by (simp add: progress_percent_def rounding_def)
qed

lemma percent_zero: "rounding fl \<Longrightarrow> progress_percent fl 0 d = 0"
  by (simp add: progress_percent_def rounding_def)

lemma percent_range:
  "rounding fl \<Longrightarrow> 0 \<le> e \<Longrightarrow> e \<le> d \<Longrightarrow> d > 0 \<Longrightarrow> 0 \<le> progress_percent fl e d \<and> progress_percent fl e d \<le> 100"
  using percent_mono [of fl 0 e d] percent_mono [of fl e d d] percent_full [of fl d] percent_zero [of fl d] by simp

text \<open>The loop: its percentages grow from that of the last tick, and its end.\<close>

lemma progress_loop_percents:
  assumes "rounding fl" "sorted (last_tick # clock_times es)" "started \<le> last_tick" "duration > 0"
    "progress_loop fl put duration started whole es = (calls, x)"
  shows "sorted (progress_percent fl (min (last_tick - started) duration) duration # percents calls) \<and> (\<forall>p \<in> set (percents calls). p \<le> 100)"
  using assms
proof (induction fl put duration started whole es arbitrary: last_tick calls x rule: progress_loop.induct)
  case (3 fl put duration started whole now es)
  let ?p = "\<lambda>t. progress_percent fl (min (t - started) duration) duration"
  have now: "last_tick \<le> now" "started \<le> now" "sorted (now # clock_times es)" "sorted (last_tick # clock_times es)" using "3.prems" by auto
  have step: "?p last_tick \<le> ?p now" "?p now \<le> 100"
    using percent_mono [OF "3.prems"(1), of "min (last_tick - started) duration" "min (now - started) duration" duration]
      percent_range [OF "3.prems"(1), of "min (now - started) duration" duration] now(1,2) "3.prems"(3,4)
    by auto
  show ?case
  proof (cases "whole \<or> duration \<le> 0")
    case True
    with "3.prems"(5) have "progress_loop fl put duration started whole es = (calls, x)" by simp
    from "3.IH"(1) [OF True "3.prems"(1) now(3,2) "3.prems"(4) this] step(1) show ?thesis by auto
  next
    case False
    let ?elapsed = "min (now - started) duration"
    let ?line = "ProgressLine (progress_percent fl ?elapsed duration) (whole_seconds ?elapsed) duration"
    show ?thesis
    proof (cases "put ?line")
      case (Some err)
      with False "3.prems"(5) step show ?thesis by (auto simp: Let_def)
    next
      case None
      obtain cs y where rest: "progress_loop fl put duration started (?elapsed = duration) es = (cs, y)" by fastforce
      with None False "3.prems"(5) have "calls = ?line # cs" by (simp add: Let_def)
      with "3.IH"(2) [OF False refl refl None "3.prems"(1) now(3,2) "3.prems"(4) rest] step show ?thesis by auto
    qed
  qed
next
  case (1 fl put duration started whole)
  then show ?case using percent_range [of fl "min (last_tick - started) duration" duration] by simp
next
  case (2 fl put duration started whole a es)
  then show ?case using percent_range [of fl "min (last_tick - started) duration" duration] by auto
qed

text \<open>Whether the whole duration was reported, and whether the goroutine of \<open>load.Run\<close> was waited for.\<close>

lemma progress_loop_complete:
  assumes "progress_loop fl put duration started whole es = (calls, Some (Inr (a, True)))" "rounding fl" "\<not> whole"
  shows "percents calls \<noteq> [] \<and> last (percents calls) = 100"
  using assms
proof (induction fl put duration started whole es arbitrary: calls rule: progress_loop.induct)
  case (3 fl put duration started whole now es)
  let ?elapsed = "min (now - started) duration"
  let ?line = "ProgressLine (progress_percent fl ?elapsed duration) (whole_seconds ?elapsed) duration"
  show ?case
  proof (cases "duration \<le> 0")
    case True
    with 3 show ?thesis by simp
  next
    case False
    obtain cs where rest: "progress_loop fl put duration started (?elapsed = duration) es = (cs, Some (Inr (a, True)))" "calls = ?line # cs"
      "put ?line = None"
      using "3.prems" False by (auto simp: Let_def split: option.splits prod.splits)
    show ?thesis
    proof (cases "?elapsed = duration")
      case True
      then have "percents cs = []"
        using rest(1) by (induction es arbitrary: cs rule: list.induct) (auto split: load_event.splits elim: progress_loop.elims)
      with True rest(2) percent_full [OF "3.prems"(2)] False show ?thesis by simp
    next
      case no: False
      with "3.IH"(2) [OF _ refl refl rest(3) rest(1)] False "3.prems"(2,3) rest(2) show ?thesis by simp
    qed
  qed
qed simp_all

lemma progress_loop_waits:
  "progress_loop fl put duration started whole es = (calls, Some x) \<Longrightarrow> count_list calls ReceiveRun = 1"
proof (induction fl put duration started whole es arbitrary: calls rule: progress_loop.induct)
  case (3 fl put duration started whole now es)
  then show ?case by (auto simp: Let_def split: if_splits option.splits prod.splits)
qed auto

lemma progress_loop_answer:
  "progress_loop fl put duration started whole es = (calls, Some (Inr (a, w))) \<Longrightarrow> RunFinished a \<in> set es"
proof (induction fl put duration started whole es arbitrary: calls rule: progress_loop.induct)
  case (3 fl put duration started whole now es)
  then show ?case by (auto simp: Let_def split: if_splits option.splits prod.splits)
qed auto

lemma load_summary_calls:
  assumes "load_summary put check a = (calls, err)"
  shows "percents calls = [] \<and> count_list calls ReceiveRun = 0 \<and>
    (err = None \<longrightarrow> (\<exists>r. a = Inr (r, None) \<and> check r = None \<and> calls = [SummaryOf r]))"
  using assms by (auto simp: load_summary_def split: sum.splits prod.splits if_splits option.splits)

lemma finish_load_calls:
  assumes "finish_load put check duration a w = (calls, err)"
  shows "count_list calls ReceiveRun = 0 \<and> percents calls = (if \<not> run_failed a \<and> \<not> w then [100] else []) \<and>
    (err = None \<longrightarrow> (\<exists>r. a = Inr (r, None) \<and> check r = None \<and> calls \<noteq> [] \<and> last calls = SummaryOf r))"
proof (cases "\<not> run_failed a \<and> \<not> w")
  case True
  obtain cs e where s: "load_summary put check a = (cs, e)" by fastforce
  from True assms load_summary_calls [OF s] s show ?thesis by (auto simp: finish_load_def split: option.splits)
next
  case False
  with assms load_summary_calls [of put check a calls err] show ?thesis by (auto simp: finish_load_def)
qed

section \<open>Properties\<close>

text \<open>
  What \<open>vial load\<close> reports is the run. Whatever the lines it cannot write, it waits for the goroutine of \<open>load.Run\<close> exactly once before it
  returns; the percentages only grow, from 0 to 100; and it succeeds only when the run ended without an error and within the
  thresholds, after it reported 100 percent and, at last, the summary of that run.
\<close>

theorem load_reports:
  assumes "runLoad F fl put parsed started es = (calls, Some err)" "load_config_of parsed = Inr (cfg, limits)" "lc_Duration cfg > 0"
    and "rounding fl" "sorted (started # clock_times es)"
  shows "count_list calls ReceiveRun = 1 \<and> sorted (percents calls) \<and> set (percents calls) \<subseteq> {0..100} \<and>
    (err = None \<longrightarrow> (\<exists>r. RunFinished (Inr (r, None)) \<in> set es \<and> Check F fl r limits = None \<and>
       percents calls \<noteq> [] \<and> last (percents calls) = 100 \<and> last calls = SummaryOf r))"
proof -
  obtain cs x where loop: "progress_loop fl put (lc_Duration cfg) started False es = (cs, x)" by fastforce
  from progress_loop_percents [OF assms(4,5) order.refl assms(3) loop] assms(3) percent_zero [OF assms(4)]
  have ps: "sorted (percents cs)" "set (percents cs) \<subseteq> {0..100}" by auto
  from assms(1,2) loop obtain y where y: "x = Some y" by (cases x) (auto simp: runLoad_def)
  from loop y have one: "count_list cs ReceiveRun = 1" using progress_loop_waits by blast
  show ?thesis
  proof (cases y)
    case (Inl e)
    with assms(1,2) loop y have "calls = cs" "err = Some e" by (auto simp: runLoad_def)
    with ps one show ?thesis by simp
  next
    case (Inr aw)
    obtain a w where aw: "aw = (a, w)" by fastforce
    obtain fs e where fin: "finish_load put (\<lambda>r. Check F fl r limits) (lc_Duration cfg) a w = (fs, e)" by fastforce
    from assms(1,2) loop y Inr aw fin have c: "calls = cs @ fs" "err = e" by (auto simp: runLoad_def)
    have f: "count_list fs ReceiveRun = 0" "percents fs = (if \<not> run_failed a \<and> \<not> w then [100] else [])"
      "e = None \<longrightarrow> (\<exists>r. a = Inr (r, None) \<and> Check F fl r limits = None \<and> fs \<noteq> [] \<and> last fs = SummaryOf r)"
      using finish_load_calls [OF fin] by auto
    have full: "percents calls \<noteq> [] \<and> last (percents calls) = 100" if "\<not> run_failed a"
      using that c(1) f(2) progress_loop_complete [of fl put "lc_Duration cfg" started False es cs a] loop y Inr aw assms(4)
      by (cases w) auto
    have "sorted (percents calls)" "set (percents calls) \<subseteq> {0..100}"
      using ps c(1) f(2) by (auto simp: sorted_append split: if_splits)
    moreover have "RunFinished a \<in> set es" using progress_loop_answer loop y Inr aw by blast
    moreover have "count_list calls ReceiveRun = 1" using one f(1) c(1) by simp
    ultimately show ?thesis using f(3) c full by (auto simp: run_failed_def)
  qed
qed

definition demo_flags :: load_flags where
  "demo_flags = \<lparr>lf_workers = 1, lf_duration = 2000000000, lf_timeout = 1000000000, lf_maxErrorRate = Finite (- 1), lf_maxP95 = 0,
     lf_args = [''http://localhost:8080/'']\<rparr>"

definition demo_load_events :: "load_event list" where
  "demo_load_events = [LoadTick 1000000000, RunFinished (Inr (load_result (newMetrics 1000000000) 5, None))]"

theorem load_reports_witness:
  "\<exists>calls. runLoad \<lparr>fm_rate = (\<lambda>x. []), fm_duration = show_int\<rparr> id (\<lambda>c. None) (Inr demo_flags) 0 demo_load_events = (calls, Some None) \<and>
     sorted (percents calls) \<and> last (percents calls) = 100"
proof -
  let ?F = "\<lparr>fm_rate = (\<lambda>x. []), fm_duration = show_int\<rparr>"
  have "\<exists>calls. runLoad ?F id (\<lambda>c. None) (Inr demo_flags) 0 demo_load_events = (calls, Some None)"
    by (simp add: runLoad_def load_config_of_def demo_flags_def demo_load_events_def Let_def finish_load_def run_failed_def load_summary_def Check_def)
  then obtain calls where run: "runLoad ?F id (\<lambda>c. None) (Inr demo_flags) 0 demo_load_events = (calls, Some None)" by blast
  have cfg: "\<exists>cfg limits. load_config_of (Inr demo_flags) = Inr (cfg, limits) \<and> lc_Duration cfg > 0"
    by (simp add: load_config_of_def demo_flags_def)
  then obtain cfg limits where "load_config_of (Inr demo_flags) = Inr (cfg, limits)" "lc_Duration cfg > 0" by blast
  from load_reports [OF run this] run show ?thesis
    by (auto simp: rounding_def monoI demo_load_events_def)
qed

end
