(* ===== verification/Jobs.thy ===== *)
theory Jobs
  imports MemoryExecutor PostgresProperties Middleware
begin

text \<open>
  What a handler gets of its operation, and what runs beside it: the job of \<open>async/memory.go\<close> and of
  \<open>contrib/asyncpostgres/store.go\<close>, the identifiers both executors draw, the attributes they log, and \<open>renewLease\<close> of
  \<open>contrib/asyncpostgres/executor.go\<close>, the goroutine that keeps the lease of a delivery. Times are those of the database clock.
\<close>

section \<open>Jobs\<close>

text \<open>\<open>Decode\<close> with the answer of \<open>json.Unmarshal\<close> on the destination, \<open>None\<close> a nil one; the two jobs differ in their texts.\<close>

definition job_Decode :: "string \<Rightarrow> ('a \<Rightarrow> string \<Rightarrow> 'a result) \<Rightarrow> string \<Rightarrow> 'a option \<Rightarrow> 'a result" where
  "job_Decode job unmarshal payload destination = (case destination of
     None \<Rightarrow> Inl (Opaque (''decode '' @ job @ '' job: destination is nil''))
   | Some d \<Rightarrow> map_sum (Wrapf (''decode '' @ job @ '' job: '')) id (unmarshal d payload))"

definition memory_job_Decode :: "('a \<Rightarrow> string \<Rightarrow> 'a result) \<Rightarrow> string \<Rightarrow> 'a option \<Rightarrow> 'a result" where
  "memory_job_Decode = job_Decode ''async''"

definition pg_job_Decode :: "('a \<Rightarrow> string \<Rightarrow> 'a result) \<Rightarrow> leasedOperation \<Rightarrow> 'a option \<Rightarrow> 'a result" where
  "pg_job_Decode unmarshal d = job_Decode ''asyncpostgres'' unmarshal (del_payload d)"

definition memory_job_Progress :: "string \<Rightarrow> memoryExecutor \<Rightarrow> goerr option \<Rightarrow> int \<Rightarrow> memoryExecutor \<times> goerr option" where
  "memory_job_Progress i e ctx_err progress = reportProgress e ctx_err i progress"

definition pg_job_Progress :: "leasedOperation \<Rightarrow> string \<Rightarrow> db_answer \<Rightarrow> int \<Rightarrow> table \<Rightarrow> table \<times> goerr option" where
  "pg_job_Progress d owner ans progress t = pg_progress ans d owner progress t"

section \<open>Identifiers\<close>

text \<open>\<open>random\<close> is what the random source gives: sixteen bytes for an operation, twelve for an instance.\<close>

definition memory_newOperationID :: "nat list result \<Rightarrow> string result" where
  "memory_newOperationID random = (case random of Inl err \<Rightarrow> Inl err | Inr bs \<Rightarrow> Inr (''op_'' @ hex_encode bs))"

definition random_failed :: "goerr \<Rightarrow> (goerr \<Rightarrow> string) \<Rightarrow> string" where
  "random_failed err error_text = ''asyncpostgres: crypto/rand failed: '' @ error_text err"

definition pg_newOperationID :: "(goerr \<Rightarrow> string) \<Rightarrow> nat list result \<Rightarrow> string outcome" where
  "pg_newOperationID error_text random = (case random of
     Inl err \<Rightarrow> Panic (random_failed err error_text) | Inr bs \<Rightarrow> Return (''op_'' @ hex_encode bs))"

definition pg_newInstanceID :: "(goerr \<Rightarrow> string) \<Rightarrow> nat list result \<Rightarrow> string outcome" where
  "pg_newInstanceID error_text random = (case random of
     Inl err \<Rightarrow> Panic (random_failed err error_text) | Inr bs \<Rightarrow> Return (hex_encode bs))"

lemma hex_char_inj: "m < 16 \<Longrightarrow> n < 16 \<Longrightarrow> hex_char m = hex_char n \<Longrightarrow> m = n"
proof -
  assume "m < 16" "n < 16" "hex_char m = hex_char n"
  then have "(if m < 10 then 48 + m else 87 + m) = (if n < 10 then 48 + n else 87 + n)"
    by (auto simp: hex_char_def char_of_eq_iff take_bit_eq_mod split: if_splits)
  with \<open>m < 16\<close> \<open>n < 16\<close> show "m = n" by (auto split: if_splits)
qed

lemma hex_encode_inj:
  "\<forall>b \<in> set bs. b < 256 \<Longrightarrow> \<forall>b \<in> set cs. b < 256 \<Longrightarrow> hex_encode bs = hex_encode cs \<Longrightarrow> bs = cs"
proof (induction bs arbitrary: cs)
  case Nil
  then show ?case by (cases cs) (simp_all add: hex_encode_def)
next
  case (Cons b bs)
  then obtain c ds where cs: "cs = c # ds" by (cases cs) (simp_all add: hex_encode_def)
  have digits: "hex_char (b div 16) = hex_char (c div 16)" "hex_char (b mod 16) = hex_char (c mod 16)" "hex_encode bs = hex_encode ds"
    using Cons.prems(3) by (simp_all add: cs hex_encode_def)
  have bounds: "b < 256" "c < 256" using Cons.prems(1,2) cs by simp_all
  then have "b div 16 = c div 16" "b mod 16 = c mod 16" using digits(1,2) by (auto intro!: hex_char_inj)
  then have "b = c" by (metis div_mult_mod_eq)
  with Cons.IH [of ds] Cons.prems(1,2) digits(3) cs show ?case by simp
qed

section \<open>The attributes of the log\<close>

datatype log_value = LogText string | LogInt int | LogStatus op_status | LogDuration int | LogError goerr

definition log_metadata :: "(string \<rightharpoonup> string) \<Rightarrow> (string \<times> log_value) list" where
  "log_metadata metadata = concat (map (\<lambda>key. case metadata key of
     None \<Rightarrow> [] | Some v \<Rightarrow> if v = [] then [] else [(key, LogText v)]) [''user_id'', ''tenant_id'', ''trace_id''])"

definition log_attributes :: "operation \<Rightarrow> op_status \<Rightarrow> int \<Rightarrow> goerr option \<Rightarrow> (string \<times> log_value) list" where
  "log_attributes op status duration err =
     [(''operation_id'', LogText (opn_id op)), (''operation_name'', LogText (opn_name op)), (''attempt'', LogInt (opn_attempt op)),
      (''status'', LogStatus status), (''duration'', LogDuration duration)] @ log_metadata (opn_metadata op) @
     (case err of None \<Rightarrow> [] | Some e \<Rightarrow> [(''error'', LogError e)])"

text \<open>The in-memory executor logs the status of the record, the other one the status the delivery ended with.\<close>

definition memory_log :: "operation \<Rightarrow> int \<Rightarrow> goerr option \<Rightarrow> (string \<times> log_value) list" where
  "memory_log op duration err = log_attributes op (opn_status op) duration err"

definition pg_log :: "leasedOperation \<Rightarrow> op_status \<Rightarrow> int \<Rightarrow> goerr option \<Rightarrow> (string \<times> log_value) list" where
  "pg_log d status duration err = log_attributes (del_op d) status duration err"

section \<open>Renewal\<close>

text \<open>
  What the \<open>select\<close> of \<open>renewLease\<close> receives. A tick comes with the clock, the answer to its statement and what the others did to the table since
  the last one. The loop returns when it is stopped or the context is done; a failed renewal cancels the context of the handler.
\<close>

datatype renew_event = RenewStop | RenewDone | RenewTick int db_answer "table \<Rightarrow> table"

datatype renew_end = RenewReturned | HandlerCancelled

fun renewLease :: "pg_config \<Rightarrow> leasedOperation \<Rightarrow> string \<Rightarrow> renew_event list \<Rightarrow> table \<Rightarrow> table \<times> renew_end option" where
  "renewLease cfg d owner [] t = (t, None)"
| "renewLease cfg d owner (RenewStop # es) t = (t, Some RenewReturned)"
| "renewLease cfg d owner (RenewDone # es) t = (t, Some RenewReturned)"
| "renewLease cfg d owner (RenewTick now ans others # es) t =
    (case pg_extendLease cfg ans now d owner (others t) of
       (t', Inl err) \<Rightarrow> (t', Some HandlerCancelled)
     | (t', Inr ok) \<Rightarrow> if ok then renewLease cfg d owner es t' else (t', Some HandlerCancelled))"

definition renew_period :: "pg_config \<Rightarrow> int" where
  "renew_period cfg = leaseDuration cfg sdiv 3"

text \<open>The length of a lease in the table.\<close>

definition lease_length :: "pg_config \<Rightarrow> int" where
  "lease_length cfg = interval_ms (Milliseconds (leaseDuration cfg))"

text \<open>Others keep the row of the delivery while its lease has not expired at \<open>now\<close>, and the table well formed.\<close>

definition respects_lease :: "leasedOperation \<Rightarrow> string \<Rightarrow> int \<Rightarrow> (table \<Rightarrow> table) \<Rightarrow> bool" where
  "respects_lease d owner now f \<longleftrightarrow> (\<forall>t r. table_inv t \<longrightarrow> find_row t (opn_id (del_op d)) = Some r \<longrightarrow> owned_where d owner r \<longrightarrow>
     \<not> due (row_expires r) now \<longrightarrow> table_inv (f t) \<and> find_row (f t) (opn_id (del_op d)) = Some r)"

text \<open>The leases of all workers do, at every earlier time, and so do sequences.\<close>

lemma due_mono: "due x now \<Longrightarrow> now \<le> now' \<Longrightarrow> due x now'"
  by (auto simp: due_def split: option.splits)

lemma lease_respects:
  assumes "now1 \<le> now" "now2 \<le> now"
  shows "respects_lease d owner now (\<lambda>t. fst (pg_lease cfg names ans1 ans2 now1 now2 locked tie other t))"
  unfolding respects_lease_def
proof (intro allI impI)
  fix t r
  let ?i = "opn_id (del_op d)"
  assume t: "table_inv t" and r: "find_row t ?i = Some r" "owned_where d owner r" "\<not> due (row_expires r) now"
  have "row_status r = Running" using r(2) by (simp add: owned_where_def)
  with r(3) assms due_mono have free: "\<not> expire_where now1 r" "\<not> candidate_where names now2 r"
    by (auto simp: expire_where_def candidate_where_def)
  obtain t1 x where t1: "db_exec ans1 (sql_update (expire_where now1) (expire_set now1)) t = (t1, x)" by fastforce
  have inv1: "table_inv t1"
    using table_inv_exec [OF t, of "expire_set now1" "expire_where now1" ans1] t1 by (simp add: row_inv_expire)
  have row1: "find_row t1 ?i = Some r"
    using find_row_exec [OF _ r(1), of "expire_set now1" "expire_where now1" ans1] t1 free(1) by simp
  let ?ms = "Milliseconds (leaseDuration cfg)"
  obtain t2 y where t2: "lease_take names now2 locked tie other ?ms t1 = (t2, y)" by fastforce
  have "table_inv t2" "find_row t2 ?i = Some r"
    using table_inv_lease_take [OF inv1, of names now2 locked tie other ?ms] find_row_lease_take [OF inv1 row1 free(2), of locked tie other ?ms] t2
    by simp_all
  with t1 t2 inv1 row1 show "table_inv (fst (pg_lease cfg names ans1 ans2 now1 now2 locked tie other t)) \<and>
      find_row (fst (pg_lease cfg names ans1 ans2 now1 now2 locked tie other t)) ?i = Some r"
    by (cases x; cases ans2) (simp_all add: pg_lease_def)
qed

lemma respects_compose: "respects_lease d owner now f \<Longrightarrow> respects_lease d owner now g \<Longrightarrow> respects_lease d owner now (\<lambda>t. g (f t))"
  by (simp add: respects_lease_def)

section \<open>Properties\<close>

text \<open>Renewals in time: each comes before the lease of the one before expires, and succeeds.\<close>

fun renewed_in_time :: "pg_config \<Rightarrow> leasedOperation \<Rightarrow> string \<Rightarrow> int \<Rightarrow> renew_event list \<Rightarrow> bool" where
  "renewed_in_time cfg d owner expires (RenewTick now ans others # es) \<longleftrightarrow>
     now < expires \<and> ans = DbOk \<and> respects_lease d owner now others \<and> renewed_in_time cfg d owner (now + lease_length cfg) es"
| "renewed_in_time cfg d owner expires es \<longleftrightarrow> True"

fun final_expiry :: "pg_config \<Rightarrow> int \<Rightarrow> renew_event list \<Rightarrow> int" where
  "final_expiry cfg expires (RenewTick now ans others # es) = final_expiry cfg (now + lease_length cfg) es"
| "final_expiry cfg expires es = expires"

lemma extend_owned:
  assumes "table_inv t" "find_row t (opn_id (del_op d)) = Some r" "owned_where d owner r"
  obtains t' where "pg_extendLease cfg DbOk now d owner t = (t', Inr True)" "table_inv t'"
    "find_row t' (opn_id (del_op d)) = Some (r\<lparr>row_expires := Some (now + lease_length cfg)\<rparr>)"
proof -
  let ?f = "\<lambda>r :: row. r\<lparr>row_expires := Some (now + lease_length cfg)\<rparr>"
  have "keeps ?f" by simp
  note row = owned_row [OF assms this]
  have "table_inv (fst (owned_statement DbOk d owner ?f t))"
    by (rule table_inv_owned [OF assms(1)]) (simp_all add: row_steps)
  with row that show thesis by (simp add: pg_extendLease_def lease_length_def)
qed


text \<open>The delivery of worker \<open>w1\<close>, renewed in time while another worker looks for a lease.\<close>

definition other_lease :: "table \<Rightarrow> table" where
  "other_lease t = fst (pg_lease default_pg_config [''mail''] DbOk DbOk 30 31 [] 0 ''w2'' t)"


end
