(* ===== verification/RequestLog.thy ===== *)
theory RequestLog
  imports Middleware
begin

text \<open>
  The request log, \<open>middleware/logger.go\<close>: the middleware that registers an after-response hook, and the record the hook writes. The record
  is output, so the hook itself leaves the response alone; what it writes is a function of the context it finds.
\<close>

section \<open>The middleware\<close>

definition log_hook :: after_hook where
  "log_hook err r = (r, Return ())"

definition Logger :: middleware where
  "Logger nxt c = (case AfterResponse (Some log_hook) c of
     (c, Some err) \<Rightarrow> (c, Return (Some err))
   | (c, None) \<Rightarrow> nxt c)"

datatype log_field = FieldText string | FieldInt int | FieldDuration int | FieldError goerr

text \<open>The variable \<open>requestErr\<close> the hook shares with the middleware: what \<open>next\<close> returned, unless it panicked, and the response error over it.\<close>

definition request_error :: "goerr option outcome \<Rightarrow> ctx \<Rightarrow> goerr option" where
  "request_error returned c = (if cx_responseErr c \<noteq> None then cx_responseErr c
     else case returned of Return err \<Rightarrow> err | Panic msg \<Rightarrow> None)"

definition request_record ::
  "string \<Rightarrow> string \<Rightarrow> int \<Rightarrow> goerr option outcome \<Rightarrow> ctx \<Rightarrow> log_level \<times> (string \<times> log_field) list" where
  "request_record path remote duration returned c =
    (let requestErr = request_error returned c; status = Status (cx_response c)
     in (request_log_level status requestErr,
         [(''method'', FieldText (req_method (cx_request c))), (''path'', FieldText path), (''status'', FieldInt status),
          (''bytes'', FieldInt (rs_bytes (cx_response c))), (''duration'', FieldDuration duration), (''remote_addr'', FieldText remote)] @
         (case cx_route c of None \<Rightarrow> [] | Some r \<Rightarrow> [(''route'', FieldText (rt_Pattern r))]) @
         (case requestErr of None \<Rightarrow> [] | Some err \<Rightarrow> [(''error'', FieldError err)])))"

section \<open>A request\<close>

text \<open>The context the first after-response hook finds, from what the request came to.\<close>

definition before_hooks :: "ctx \<times> unit outcome \<Rightarrow> ctx" where
  "before_hooks x = (case x of
     (c, Return u) \<Rightarrow> c
   | (c, Panic msg) \<Rightarrow> c\<lparr>cx_responseErr := Some (Opaque (''panic: '' @ msg)),
       cx_response := (if Committed (cx_response c) then cx_response c else (cx_response c)\<lparr>rs_status := 500\<rparr>)\<rparr>)"

lemma finish_request_hooks: "fst (finish_request x) = finishResponse (before_hooks x)"
  by (simp add: finish_request_def before_hooks_def split: prod.split outcome.split)

text \<open>The record of a request whose outermost middleware is the log, with no hook before it.\<close>

definition logged_request :: "server_lib \<Rightarrow> handler \<Rightarrow> error_handler \<Rightarrow> string \<Rightarrow> string \<Rightarrow> int \<Rightarrow> ctx \<Rightarrow> log_level \<times> (string \<times> log_field) list" where
  "logged_request X entry eh path remote duration c =
     request_record path remote duration (snd (entry (fst (AfterResponse (Some log_hook) c))))
       (before_hooks (handle_request X (Logger entry) eh c))"

lemma request_log_info:
  "request_log_level status err = LevelInfo \<longleftrightarrow> status < 400 \<and> err = None"
  by (auto simp: request_log_level_def)

section \<open>Properties\<close>

text \<open>
  The log does not hide a failure. A request is logged at the level of information only when its handler returned without an error
  and without a panic, the response went out without one, and its status is below 400; a panic before the response was
  committed is logged as an error with status 500.
\<close>

theorem log_honest:
  assumes "\<not> cx_finished c"
  shows "(fst (logged_request X entry eh path remote duration c) = LevelInfo \<longrightarrow>
      (\<exists>d. entry (fst (AfterResponse (Some log_hook) c)) = (d, Return None)) \<and> (\<exists>u. snd (handle_request X (Logger entry) eh c) = Return u) \<and>
      Status (cx_response (before_hooks (handle_request X (Logger entry) eh c))) < 400) \<and>
    (\<forall>d msg. handle_request X (Logger entry) eh c = (d, Panic msg) \<and> \<not> Committed (cx_response d) \<longrightarrow>
      fst (logged_request X entry eh path remote duration c) = LevelError \<and>
      (''status'', FieldInt 500) \<in> set (snd (logged_request X entry eh path remote duration c)))"
proof -
  let ?c = "fst (AfterResponse (Some log_hook) c)"
  let ?x = "handle_request X (Logger entry) eh c"
  have entry: "Logger entry c = entry ?c"
    using assms by (simp add: Logger_def AfterResponse_def)
  have "snd (entry ?c) = Return None \<and> (\<exists>u. snd ?x = Return u)"
    if clean: "request_error (snd (entry ?c)) (before_hooks ?x) = None"
  proof -
    obtain d y where dy: "?x = (d, y)" by fastforce
    then obtain u where x: "?x = (d, Return u)"
      using clean by (cases y) (simp_all add: request_error_def before_hooks_def)
    then have "cx_responseErr d = None" "snd (entry ?c) = Return None \<or> (\<exists>msg. snd (entry ?c) = Panic msg)"
      using clean by (auto simp: request_error_def before_hooks_def split: if_splits outcome.splits)
    moreover have "\<not> (\<exists>msg. snd (entry ?c) = Panic msg)"
      using x entry by (auto simp: handle_request_def split: prod.splits)
    ultimately show ?thesis using x by auto
  qed
  then have "snd (entry ?c) = Return None \<and> (\<exists>u. snd ?x = Return u) \<and> Status (cx_response (before_hooks ?x)) < 400"
    if "fst (logged_request X entry eh path remote duration c) = LevelInfo"
    using that by (simp add: logged_request_def request_record_def Let_def request_log_info)
  moreover have "fst (logged_request X entry eh path remote duration c) = LevelError \<and>
      (''status'', FieldInt 500) \<in> set (snd (logged_request X entry eh path remote duration c))"
    if "?x = (d, Panic msg)" "\<not> Committed (cx_response d)" for d msg
    using that by (simp add: logged_request_def request_record_def Let_def request_log_level_def before_hooks_def Status_def)
  ultimately show ?thesis by (metis prod.collapse)
qed

theorem log_honest_witness:
  "fst (logged_request X (\<lambda>c. (c, Panic ''boom'')) eh ''/'' ''peer'' 1 demo_request_ctx) = LevelError"
proof -
  have fresh: "\<not> cx_finished demo_request_ctx" by (simp add: demo_request_ctx_def newContext_def)
  have "\<exists>d. handle_request X (Logger (\<lambda>c. (c, Panic ''boom''))) eh demo_request_ctx = (d, Panic ''boom'') \<and> \<not> Committed (cx_response d)"
    by (simp add: handle_request_def Logger_def AfterResponse_def demo_request_ctx_def newContext_def Committed_def newResponse_def)
  with log_honest [OF fresh, of X "\<lambda>c. (c, Panic ''boom'')" eh "''/''" "''peer''" 1] show ?thesis by blast
qed

end
