(* ===== verification/Spec2Isabelle.thy ===== *)
theory Spec2Isabelle
  imports Prelude Url Errors Operation MemoryExecutor MemoryProperties PostgresStore
    PostgresProperties AsyncHttp Base64 Session Cors Csrf RateLimit SseEvent SseHub
    SseHandler ClientIp Response Routing Options Context App Serve Build Tasks Lifecycle
    Middleware Auth Binding BindingProperties Sqlkit HttpMetrics Load
    DevWatch DevRunner DevLoop ApiSchema ApiDocument Config Server Command
    WebSocket Grpc Render PostgresWorkers SessionMiddleware Testkit LoadCommand Jobs RequestLog
begin

text \<open>
  A verification development of go-vial, a web framework in Go. The program is a library: an application registers routes, middleware, tasks
  and modules (\<open>app.go\<close>, \<open>route.go\<close>, \<open>group.go\<close>, \<open>module.go\<close>), builds itself once, and runs. A run starts hooks, background tasks and the
  HTTP server in order and stops them in the reverse one (\<open>lifecycle.go\<close>, \<open>task.go\<close>, \<open>server.go\<close>). A request gets a context (\<open>context.go\<close>)
  over a tracked response writer (\<open>response.go\<close>), passes the middleware, is dispatched by \<open>http.ServeMux\<close>, and ends with the rendering
  of its error (\<open>errors.go\<close>) and its after-response hooks. Packages add sessions, authentication, CSRF, CORS, rate limits, metrics, server-sent
  events, asynchronous operations in memory or in PostgreSQL, migrations, OpenAPI documents, typed configuration, and a command line tool.

  \<^bold>\<open>How the model is built.\<close> Every theory translates the files it names in its first text block; definitions keep the names of the code, with
  a prefix where two packages use the same name (\<open>pg_\<close>, \<open>app_\<close>, \<open>ws_\<close>, \<open>grpc_\<close>, \<open>kit_\<close>). A struct is a record and its method a function from
  the record to the changed record, with the result beside it. Go strings are byte strings. An error is a value of \<open>goerr\<close> (\<open>Errors\<close>) that
  keeps what \<open>errors.Is\<close> and \<open>errors.As\<close> see; a fallible function gives \<open>'a result\<close>, one that may panic \<open>'a outcome\<close>, and a handler
  gives the new context with its outcome, so that what it changed before a panic is kept. The quotation marks of the verb \<open>%q\<close> in the text
  of an error are left out. Integers are \<open>int\<close> where the code cannot overflow, \<open>64 word\<close> where it can (retry backoff, load counters, the
  quantiles of a histogram). A \<open>float64\<close> is a rational number with the rounding as a parameter. Concurrent code is a step relation whose steps are
  the critical sections and channel operations of the code; a timer, a cancelled context and a scheduler are steps that may happen at any time.
  What is not in the repository (\<open>net/http\<close>, \<open>encoding/json\<close>, ciphers, databases, the file system, the clock) is an argument: a record of functions, or the
  answers to the calls in their order; each hypothesis on one is documented behaviour and is met by an instance in the witness.

  \<^bold>\<open>Theories and the code they model.\<close>
  \<^item> \<open>Prelude\<close>, \<open>Url\<close>, \<open>Base64\<close>: lists, association lists, byte strings, headers, \<open>url.PathEscape\<close>, \<open>RawURLEncoding\<close>.
  \<^item> \<open>Errors\<close>: \<open>errors.go\<close>, \<open>fault/fault.go\<close>. Every error has a status from 400 to 599, and public messages only.
  \<^item> \<open>Response\<close>, \<open>Context\<close>, \<open>Serve\<close>, \<open>Render\<close>, \<open>RequestLog\<close>, \<open>Middleware\<close>: \<open>response.go\<close>, \<open>context.go\<close>, \<open>handler.go\<close>, \<open>route_match.go\<close>, the serving part of \<open>app.go\<close>,
    \<open>render/render.go\<close>, the context middleware. The invariant of the wire (one header, then the body), the frame \<open>ctx_step\<close> that every handler
    keeps, hooks that run once, and requests that always end with one response or the panic they had.
  \<^item> \<open>Routing\<close>, \<open>Options\<close>, \<open>App\<close>, \<open>Build\<close>: \<open>route.go\<close>, \<open>group.go\<close>, \<open>options.go\<close>, \<open>app.go\<close>, \<open>module.go\<close>, \<open>health.go\<close>. What \<open>Build\<close> accepts, that it freezes the
    application, that registration of modules is atomic, and that the URL of a route leads back to it.
  \<^item> \<open>Tasks\<close>, \<open>Lifecycle\<close>, \<open>Server\<close>: \<open>task.go\<close>, \<open>lifecycle.go\<close>, \<open>server.go\<close>. The supervisor with its goroutines, the order of start and stop, listeners that are
    closed once, inspections that do not listen.
  \<^item> \<open>Operation\<close>, \<open>MemoryExecutor\<close>, \<open>MemoryProperties\<close>, \<open>AsyncHttp\<close>: \<open>async.go\<close>, \<open>async/memory.go\<close>. One step for each critical section, an invariant kept by all, terminal
    records that stay, idempotent submission. The locales \<open>async_executor\<close> and \<open>async_waiter\<close> are the interfaces of \<open>async.go\<close>, which the HTTP helpers use;
    \<open>MemoryProperties\<close> and \<open>PostgresProperties\<close> interpret them on the two executors.
  \<^item> \<open>PostgresStore\<close>, \<open>PostgresProperties\<close>, \<open>PostgresWorkers\<close>, \<open>Jobs\<close>: \<open>contrib/asyncpostgres\<close>. Every SQL statement as a function on the table, with the answer the client gets (done, refused,
    or done and lost); fencing, exclusive leases, renewal, the pool of workers.
  \<^item> \<open>Session\<close>, \<open>SessionMiddleware\<close>, \<open>Auth\<close>, \<open>Csrf\<close>, \<open>Cors\<close>, \<open>RateLimit\<close>, \<open>ClientIp\<close>, \<open>HttpMetrics\<close>: the packages \<open>session\<close> and \<open>auth\<close>, \<open>middleware/\<close>, \<open>client_ip.go\<close>.
  \<^item> \<open>Binding\<close>, \<open>BindingProperties\<close>: \<open>binding.go\<close>. Values of Go types given as data, the sources of a field, their precedence, typing.
  \<^item> \<open>SseEvent\<close>, \<open>SseHub\<close>, \<open>SseHandler\<close>, \<open>WebSocket\<close>, \<open>Grpc\<close>: \<open>sse/\<close>, \<open>vialws/\<close>, \<open>vialgrpc/\<close>. The hub refines a set of bounded queues; the stream is read back by the parser of the
    specification; connections and servers are left behind by no goroutine.
  \<^item> \<open>Sqlkit\<close>: \<open>sqlkit/\<close>. Transactions, and migrators that run against one database at the same time.
  \<^item> \<open>ApiSchema\<close>, \<open>ApiDocument\<close>, \<open>Config\<close>: \<open>openapi/\<close>, \<open>config/\<close>. Fields as \<open>encoding/json\<close> selects them, schemas that terminate, complete documents, values by precedence.
  \<^item> \<open>DevWatch\<close>, \<open>DevRunner\<close>, \<open>DevLoop\<close>, \<open>Load\<close>, \<open>Command\<close>, \<open>LoadCommand\<close>, \<open>Testkit\<close>: \<open>internal/dev/\<close>, \<open>internal/load/\<close>, \<open>cmd/vial/\<close>, \<open>testkit/\<close>.

  \<^bold>\<open>What the lemmas show.\<close> Each component has the invariant of its state and its preservation by every operation, the behaviour of the
  operations on each branch, errors included, and the properties, which are named C1 to C40 in their text blocks: type and state invariants,
  functional contracts, safety under every interleaving, the equivalence of an optimised routine with its definition (the cache of route
  matches, the selection of fields), the refinement of the event hub, round trips of encodings, bounds, the error of a transaction, termination and liveness.
  Liveness is stated as a measure that every step decreases together with a step that is always enabled, never as a statement about
  complete runs only. A witness applies a property at a concrete state.

  \<^bold>\<open>Bounds and fuel.\<close> Recursion is structural or has a measure except for the schemas of Go types, whose graph may be cyclic: \<open>schemaFor\<close> runs on fuel, and
  \<open>schema_fuel\<close>, from the number of struct types still to visit and the depth of the types between them, is shown to be enough for every graph in which
  each cycle passes a struct. Other cycles make the code recurse without end, which is a finding of this development. The search for a module directory is structural on
  the path. Loops that wait for events are folds over the list of what they receive and end with \<open>None\<close> where they still wait.

  \<^bold>\<open>Not modelled.\<close> The example programs; the usage texts and the template of a generated project; lists of signals and the calls that stop a process
  group; accessors that return a field; \<open>http.ResponseController\<close>; the cache of binding metadata, which memorises a pure function; the
  removal of temporary files of a multipart request; where log lines go. Aliasing is modelled where the code relies on it (the subscribers of the hub, the session that a hook reads, the fields a
  JSON body is decoded into), and a defensive copy is the identity otherwise. The trie of \<open>http.ServeMux\<close>, cryptography and SQL beyond the statements of the repository are parameters.
\<close>

end
